(* ===== verification/Host_Prelude.thy ===== *)
theory Host_Prelude
  imports Main "HOL-Library.Word"
begin

text \<open>
  Shared vocabulary of the development: the fixed-width integers of the C sources, the status,
  phase and error codes of \<^verbatim>\<open>turbo_script.h\<close>, byte strings and borrowed buffers, and the
  generic facts on words, lists and options that the component theories use.

  Conventions.  A byte string (\<^verbatim>\<open>char *\<close> with a length, \<^verbatim>\<open>tstr\<close>, \<^verbatim>\<open>vstr\<close>) is a \<open>string\<close>
  (HOL characters are bytes).  A double is carried as its 64-bit pattern, since the host layer
  only moves doubles.  A nullable pointer is an \<open>option\<close>.  \<^verbatim>\<open>size_t\<close> is 64 bits wide.
\<close>

section \<open>Machine types\<close>

type_synonym u8 = "8 word"
type_synonym u32 = "32 word"
type_synonym u64 = "64 word"
type_synonym size_t = "64 word"
type_synonym bytes = string
type_synonym addr = nat

abbreviation (input) SIZE_MAX :: size_t where "SIZE_MAX \<equiv> 18446744073709551615"
abbreviation (input) UINT32_MAX :: nat where "UINT32_MAX \<equiv> 4294967295"

section \<open>Status, phase and error codes\<close>

text \<open>
  \<^verbatim>\<open>turbo_script_status_t\<close> is an \<^verbatim>\<open>int32_t\<close>: callbacks may return any value of it, so it is
  an \<open>int\<close> here and the constants are its first eighteen values.
\<close>

type_synonym status = int

abbreviation (input) STATUS_OK :: status where "STATUS_OK \<equiv> 0"
abbreviation (input) STATUS_INVALID_ARGUMENT :: status where "STATUS_INVALID_ARGUMENT \<equiv> 1"
abbreviation (input) STATUS_OUT_OF_MEMORY :: status where "STATUS_OUT_OF_MEMORY \<equiv> 2"
abbreviation (input) STATUS_WRONG_THREAD :: status where "STATUS_WRONG_THREAD \<equiv> 3"
abbreviation (input) STATUS_INVALID_STATE :: status where "STATUS_INVALID_STATE \<equiv> 4"
abbreviation (input) STATUS_CONTEXT_MISMATCH :: status where "STATUS_CONTEXT_MISMATCH \<equiv> 5"
abbreviation (input) STATUS_PARSE_ERROR :: status where "STATUS_PARSE_ERROR \<equiv> 6"
abbreviation (input) STATUS_VALIDATION_ERROR :: status where "STATUS_VALIDATION_ERROR \<equiv> 7"
abbreviation (input) STATUS_LIMIT_EXCEEDED :: status where "STATUS_LIMIT_EXCEEDED \<equiv> 8"
abbreviation (input) STATUS_INVALID_UTF8 :: status where "STATUS_INVALID_UTF8 \<equiv> 9"
abbreviation (input) STATUS_DUPLICATE_RECORD_KEY :: status where "STATUS_DUPLICATE_RECORD_KEY \<equiv> 10"
abbreviation (input) STATUS_NOT_FOUND :: status where "STATUS_NOT_FOUND \<equiv> 11"
abbreviation (input) STATUS_INVALID_EXPORT_HANDLE :: status where "STATUS_INVALID_EXPORT_HANDLE \<equiv> 12"
abbreviation (input) STATUS_UNSUPPORTED_BACKEND_SEMANTIC :: status
  where "STATUS_UNSUPPORTED_BACKEND_SEMANTIC \<equiv> 13"
abbreviation (input) STATUS_RUNTIME_ERROR :: status where "STATUS_RUNTIME_ERROR \<equiv> 14"
abbreviation (input) STATUS_HOST_ERROR :: status where "STATUS_HOST_ERROR \<equiv> 15"
abbreviation (input) STATUS_REENTRANT_CALL :: status where "STATUS_REENTRANT_CALL \<equiv> 16"
abbreviation (input) STATUS_INTERRUPTED :: status where "STATUS_INTERRUPTED \<equiv> 17"

type_synonym phase = nat

abbreviation (input) PHASE_NONE :: phase where "PHASE_NONE \<equiv> 0"
abbreviation (input) PHASE_COMPILE :: phase where "PHASE_COMPILE \<equiv> 1"
abbreviation (input) PHASE_INSTANTIATE :: phase where "PHASE_INSTANTIATE \<equiv> 2"
abbreviation (input) PHASE_RESOLVE :: phase where "PHASE_RESOLVE \<equiv> 3"
abbreviation (input) PHASE_CALL :: phase where "PHASE_CALL \<equiv> 4"
abbreviation (input) PHASE_HOST_CALLBACK :: phase where "PHASE_HOST_CALLBACK \<equiv> 5"
abbreviation (input) PHASE_INTERRUPT :: phase where "PHASE_INTERRUPT \<equiv> 6"

text \<open>\<^verbatim>\<open>turbo_script_error_code_t\<close>.\<close>

datatype error_code =
    ERROR_NONE | ERROR_ARGUMENT | ERROR_PARSE | ERROR_VALIDATE | ERROR_RUNTIME | ERROR_IO
  | ERROR_PLUGIN | ERROR_JIT | ERROR_OOM | ERROR_STATE | ERROR_CANCELLED

text \<open>\<^verbatim>\<open>stl_status\<close>, as far as the host layer distinguishes its values.\<close>

datatype stl_status = STL_OK | STL_OUT_OF_MEMORY | STL_CAPACITY_EXCEEDED | STL_OTHER

section \<open>Borrowed buffers\<close>

text \<open>
  A pointer-and-length pair.  A null pointer may come with any length; a non-null pointer is
  represented by the elements it gives access to.  A string view is a buffer of bytes.
\<close>

datatype 'a buf = NullBuf size_t | Buf "'a list"

type_synonym sview = "char buf"

fun buf_size :: "'a buf \<Rightarrow> size_t" where
  "buf_size (NullBuf n) = n"
| "buf_size (Buf xs) = of_nat (length xs)"

fun buf_elems :: "'a buf \<Rightarrow> 'a list" where
  "buf_elems (NullBuf n) = []"
| "buf_elems (Buf xs) = xs"

text \<open>\<^verbatim>\<open>!v.data && v.size != 0\<close>: the shape every entry point rejects.\<close>

fun buf_broken :: "'a buf \<Rightarrow> bool" where
  "buf_broken (NullBuf n) = (n \<noteq> 0)"
| "buf_broken (Buf xs) = False"

text \<open>The lengths C can represent.\<close>

definition buf_fits :: "'a buf \<Rightarrow> bool" where
  "buf_fits b \<longleftrightarrow> length (buf_elems b) < 2 ^ 64"

abbreviation (input) empty_view :: sview where "empty_view \<equiv> NullBuf 0"

text \<open>\<^verbatim>\<open>snprintf(dst, n, "%s", src)\<close> keeps at most \<open>n - 1\<close> bytes.\<close>

definition snprintf_s :: "nat \<Rightarrow> bytes \<Rightarrow> bytes" where
  "snprintf_s n s = take (n - 1) s"

text \<open>A C string ends at its first NUL byte.\<close>

definition c_string :: "bytes \<Rightarrow> bytes" where
  "c_string bs = takeWhile (\<lambda>c. c \<noteq> CHR 0x00) bs"

text \<open>The conversion \<^verbatim>\<open>%d\<close> of \<^verbatim>\<open>snprintf\<close>.\<close>

fun decimal :: "nat \<Rightarrow> bytes" where
  "decimal n = (if n < 10 then [char_of (48 + n)] else decimal (n div 10) @ [char_of (48 + n mod 10)])"

declare decimal.simps [simp del]

definition print_d :: "int \<Rightarrow> bytes" where
  "print_d i = (if i < 0 then ''-'' @ decimal (nat (- i)) else decimal (nat i))"

section \<open>Shared facts\<close>

text \<open>
  A null check on a pointer that every caller in \<^verbatim>\<open>src/\<close> passes non-null (the address of a
  local variable, a field set when the object was created) has no counterpart in the model; the
  checks on pointers that the embedder supplies are modelled, with \<open>option\<close>.
\<close>

named_theorems unat_simps \<open>word comparisons and checked arithmetic moved to natural numbers\<close>

lemmas unat_order [unat_simps] = word_less_nat_alt word_le_nat_alt

lemma unat_max_size [simp]: "unat (SIZE_MAX :: size_t) = 18446744073709551615"
  by simp

lemma unat_lt_2_64: "unat (x :: size_t) < 18446744073709551616"
  using unsigned_less [of x] by simp

lemma unat_lt_2_32: "unat (x :: u32) < 4294967296"
  using unsigned_less [of x] by simp

lemma unat_sub_le [unat_simps]: "unat y \<le> unat x \<Longrightarrow> unat (x - y) = unat x - unat y"
  for x y :: "'a::len word"
  by (simp add: unat_sub word_le_nat_alt)

lemma uint_sum:
  assumes "unat v + unat c = unat s"
  shows "uint v + uint c = uint s"
proof -
  from assms have "int (unat v + unat c) = int (unat s)" by simp
  then show ?thesis by simp
qed

text \<open>
  The overflow guard \<^verbatim>\<open>count != 0 && element_size > SIZE_MAX / count\<close> is exact: it passes
  precisely when the product fits in \<^verbatim>\<open>size_t\<close>.
\<close>

lemma mult_guard_iff:
  fixes c e :: size_t
  shows "(c \<noteq> 0 \<and> e > SIZE_MAX div c) \<longleftrightarrow> unat c * unat e \<ge> 2 ^ 64"
proof (cases "c = 0")
  case True
  then show ?thesis by simp
next
  case False
  then have pos: "0 < unat c" by (simp add: unat_gt_0)
  have "(e > SIZE_MAX div c) \<longleftrightarrow> 18446744073709551615 div unat c < unat e"
    by (simp add: word_less_nat_alt unat_div)
  also have "\<dots> \<longleftrightarrow> 18446744073709551615 < unat e * unat c"
    using pos by (simp add: div_less_iff_less_mult)
  also have "\<dots> \<longleftrightarrow> unat c * unat e \<ge> 2 ^ 64"
    by (auto simp: mult.commute)
  finally show ?thesis using False by simp
qed

lemma unat_mult_fits: "unat c * unat e < 2 ^ 64 \<Longrightarrow> unat (c * e) = unat c * unat e"
  for c e :: size_t
  by (simp add: unat_word_ariths)

lemma unat_add_fits: "unat a + unat b < 2 ^ 64 \<Longrightarrow> unat (a + b) = unat a + unat b"
  for a b :: size_t
  by (simp add: unat_word_ariths)

lemma unat_size_succ: "x \<noteq> SIZE_MAX \<Longrightarrow> unat (x + 1) = unat x + 1" for x :: size_t
proof -
  assume "x \<noteq> SIZE_MAX"
  then have "unat x \<noteq> unat SIZE_MAX" by (simp only: word_unat_eq_iff simp_thms)
  then show ?thesis using unat_lt_2_64 [of x] by (simp add: unat_word_ariths)
qed

lemma unat_buf_size [simp]: "buf_fits (Buf xs) \<Longrightarrow> unat (buf_size (Buf xs)) = length xs"
  by (simp add: buf_fits_def unat_of_nat)

lemma snprintf_s_short: "length s < n \<Longrightarrow> snprintf_s n s = s"
  by (simp add: snprintf_s_def)

section \<open>Runs that stop at the first refusal\<close>

text \<open>A partial step iterated over a list of events.\<close>

fun opt_run :: "('s \<Rightarrow> 'e \<Rightarrow> 's option) \<Rightarrow> 's \<Rightarrow> 'e list \<Rightarrow> 's option" where
  "opt_run f s [] = Some s"
| "opt_run f s (e # es) = (case f s e of None \<Rightarrow> None | Some s' \<Rightarrow> opt_run f s' es)"

lemma opt_run_Cons_Some:
  "opt_run f s (e # es) = Some t \<longleftrightarrow> (\<exists>s'. f s e = Some s' \<and> opt_run f s' es = Some t)"
  by (simp split: option.split)

lemma opt_run_append:
  "opt_run f s (xs @ ys) = Option.bind (opt_run f s xs) (\<lambda>t. opt_run f t ys)"
  by (induction xs arbitrary: s) (auto split: option.split)

lemma opt_run_take:
  assumes "opt_run f s es = Some t"
  shows "\<exists>u. opt_run f s (take n es) = Some u"
proof -
  have "opt_run f s (take n es @ drop n es) = Some t" using assms by simp
  then show ?thesis by (simp only: opt_run_append) (auto simp: bind_eq_Some_conv)
qed

lemma opt_run_inv:
  assumes "\<And>s e s'. P s \<Longrightarrow> f s e = Some s' \<Longrightarrow> P s'"
    and "P s" and "opt_run f s es = Some t"
  shows "P t"
  using assms(2,3) by (induction es arbitrary: s) (auto split: option.splits intro: assms(1))

text \<open>
  The contract of a resource that events spend: every accepted event takes exactly its cost
  from what is left (a negative cost gives something back), and keeps the invariant.  The
  clients are the five quantities of the call budget.
\<close>

locale spending =
  fixes step :: "'s \<Rightarrow> 'e \<Rightarrow> 's option"
    and inv :: "'s \<Rightarrow> bool"
    and left :: "'s \<Rightarrow> int"
    and cost :: "'e \<Rightarrow> int"
  assumes step_inv: "inv s \<Longrightarrow> step s e = Some s' \<Longrightarrow> inv s'"
    and step_spends: "inv s \<Longrightarrow> step s e = Some s' \<Longrightarrow> left s' + cost e = left s"
    and left_nonneg: "0 \<le> left s"
begin

lemma run_inv: "inv s \<Longrightarrow> opt_run step s es = Some t \<Longrightarrow> inv t"
  by (rule opt_run_inv [of inv step]) (auto intro: step_inv)

lemma run_spends:
  "inv s \<Longrightarrow> opt_run step s es = Some t \<Longrightarrow> left t + sum_list (map cost es) = left s"
proof (induction es arbitrary: s)
  case Nil
  then show ?case by simp
next
  case (Cons e es)
  from Cons.prems(2) obtain u where u: "step s e = Some u" "opt_run step u es = Some t"
    by (auto simp: opt_run_Cons_Some simp del: opt_run.simps)
  have "left t + sum_list (map cost es) = left u"
    using Cons.IH [OF step_inv [OF Cons.prems(1) u(1)] u(2)] .
  with step_spends [OF Cons.prems(1) u(1)] show ?case by simp
qed

lemma run_within: "inv s \<Longrightarrow> opt_run step s es = Some t \<Longrightarrow> sum_list (map cost es) \<le> left s"
  using run_spends left_nonneg [of t] by fastforce

end

section \<open>Byte accounts\<close>

text \<open>
  The contract shared by the four checked byte counters of the host layer: a charge of
  \<open>c\<close> elements of \<open>e\<close> bytes is accepted exactly when the total stays within the limit (no
  overflow can hide an excess), it then adds exactly \<open>c * e\<close>, and a refused charge changes
  nothing.
\<close>

locale charge_account =
  fixes charge :: "'s \<Rightarrow> size_t \<Rightarrow> size_t \<Rightarrow> status \<times> 's"
    and used :: "'s \<Rightarrow> nat"
    and limit :: nat
  assumes charge_ok_iff: "used s \<le> limit \<Longrightarrow>
      fst (charge s c e) = STATUS_OK \<longleftrightarrow> used s + unat c * unat e \<le> limit"
    and charge_used: "used s \<le> limit \<Longrightarrow> charge s c e = (STATUS_OK, s') \<Longrightarrow>
      used s' = used s + unat c * unat e"
    and charge_refused: "charge s c e = (st, s') \<Longrightarrow> st \<noteq> STATUS_OK \<Longrightarrow>
      st = STATUS_LIMIT_EXCEEDED \<and> s' = s"
begin

definition charge_step :: "'s \<Rightarrow> size_t \<times> size_t \<Rightarrow> 's option" where
  "charge_step s ce =
     (case charge s (fst ce) (snd ce) of (st, s') \<Rightarrow> if st = STATUS_OK then Some s' else None)"

lemma charge_within:
  "used s \<le> limit \<Longrightarrow> charge s c e = (STATUS_OK, s') \<Longrightarrow> used s' \<le> limit"
  using charge_ok_iff [of s c e] charge_used [of s c e s'] by simp

lemma charge_step_iff:
  "used s \<le> limit \<Longrightarrow>
   (\<exists>s'. charge_step s ce = Some s') \<longleftrightarrow> used s + unat (fst ce) * unat (snd ce) \<le> limit"
  using charge_ok_iff [of s "fst ce" "snd ce"] by (auto simp: charge_step_def split: prod.splits)

lemma charge_step_used:
  assumes "used s \<le> limit" "charge_step s ce = Some s'"
  shows "used s' = used s + unat (fst ce) * unat (snd ce) \<and> used s' \<le> limit"
proof -
  have "charge s (fst ce) (snd ce) = (STATUS_OK, s')"
    using assms(2) by (auto simp: charge_step_def split: prod.splits if_splits)
  with assms(1) charge_used charge_within show ?thesis by blast
qed

lemma charge_run_used:
  "used s \<le> limit \<Longrightarrow> opt_run charge_step s ces = Some s' \<Longrightarrow>
   used s' = used s + (\<Sum>ce\<leftarrow>ces. unat (fst ce) * unat (snd ce)) \<and> used s' \<le> limit"
proof (induction ces arbitrary: s)
  case Nil
  then show ?case by simp
next
  case (Cons ce ces)
  from Cons.prems(2) obtain u where u: "charge_step s ce = Some u"
    "opt_run charge_step u ces = Some s'"
    by (auto simp: opt_run_Cons_Some simp del: opt_run.simps)
  from charge_step_used [OF Cons.prems(1) u(1)] Cons.IH [OF _ u(2)] show ?case by simp
qed

text \<open>A batch of charges fits exactly when its total fits, in whatever order it is charged.\<close>

lemma charge_run_iff:
  "used s \<le> limit \<Longrightarrow>
   (\<exists>s'. opt_run charge_step s ces = Some s') \<longleftrightarrow>
   used s + (\<Sum>ce\<leftarrow>ces. unat (fst ce) * unat (snd ce)) \<le> limit"
proof (induction ces arbitrary: s)
  case Nil
  then show ?case by simp
next
  case (Cons ce ces)
  show ?case
  proof (cases "charge_step s ce")
    case None
    with charge_step_iff [OF Cons.prems, of ce] show ?thesis by simp
  next
    case (Some u)
    with charge_step_used [OF Cons.prems Some] Cons.IH [of u] show ?thesis by (simp add: add.assoc)
  qed
qed

end

text \<open>The arithmetic that every instance of the contract rests on.\<close>

lemma checked_charge_iff:
  fixes used limit c e :: size_t
  assumes "unat used \<le> unat limit"
  shows "\<not> (c \<noteq> 0 \<and> e > SIZE_MAX div c) \<and> \<not> c * e > limit - used \<longleftrightarrow>
         unat used + unat c * unat e \<le> unat limit"
proof (cases "unat c * unat e < 2 ^ 64")
  case True
  then have "unat (c * e) = unat c * unat e" by (rule unat_mult_fits)
  moreover have "unat (limit - used) = unat limit - unat used" using assms by (rule unat_sub_le)
  moreover have "\<not> (c \<noteq> 0 \<and> e > SIZE_MAX div c)" using True by (simp only: mult_guard_iff not_le)
  ultimately show ?thesis using assms by (auto simp: word_less_nat_alt not_less)
next
  case False
  then have "c \<noteq> 0 \<and> e > SIZE_MAX div c" by (simp only: mult_guard_iff not_less)
  moreover have "\<not> unat used + unat c * unat e \<le> unat limit"
    using False unat_lt_2_64 [of limit] by simp
  ultimately show ?thesis by blast
qed

lemma checked_charge_sum:
  fixes used limit c e :: size_t
  assumes "unat used + unat c * unat e \<le> unat limit"
  shows "unat (used + c * e) = unat used + unat c * unat e"
proof -
  have "unat c * unat e < 2 ^ 64" using assms unat_lt_2_64 [of limit] by simp
  then have "unat (c * e) = unat c * unat e" by (rule unat_mult_fits)
  with assms unat_lt_2_64 [of limit] show ?thesis by (simp add: unat_add_fits)
qed

section \<open>Tables of named entries\<close>

text \<open>
  The contract of a table searched by key: a client may look up what was stored last under a key,
  and storing under one key does not disturb the others.
\<close>

locale keyed_table =
  fixes lookup :: "'t \<Rightarrow> 'k \<Rightarrow> 'v option"
    and update :: "'t \<Rightarrow> 'k \<Rightarrow> 'v \<Rightarrow> 't"
    and table_inv :: "'t \<Rightarrow> bool"
  assumes lookup_update: "table_inv t \<Longrightarrow> lookup (update t k v) = (lookup t)(k \<mapsto> v)"
    and inv_update: "table_inv t \<Longrightarrow> table_inv (update t k v)"
begin

definition updates :: "'t \<Rightarrow> ('k \<times> 'v) list \<Rightarrow> 't" where
  "updates t kvs = fold (\<lambda>kv t. update t (fst kv) (snd kv)) kvs t"

lemma inv_updates: "table_inv t \<Longrightarrow> table_inv (updates t kvs)"
  by (induction kvs arbitrary: t) (simp_all add: updates_def inv_update)

lemma lookup_updates: "table_inv t \<Longrightarrow> lookup (updates t kvs) = lookup t ++ map_of (rev kvs)"
proof (induction kvs arbitrary: t)
  case Nil
  then show ?case by (simp add: updates_def)
next
  case (Cons kv kvs)
  have "lookup (updates t (kv # kvs)) = (lookup t)(fst kv \<mapsto> snd kv) ++ map_of (rev kvs)"
    using Cons.IH [OF inv_update [OF Cons.prems], of "fst kv" "snd kv"]
    unfolding lookup_update [OF Cons.prems] by (simp add: updates_def fun_upd_def)
  then show ?case by (cases kv) (auto simp: map_add_def fun_eq_iff split: option.split)
qed

end

section \<open>Tables that are frozen at times\<close>

text \<open>
  The contract of a table that others keep references into: while it is frozen, no operation changes
  it.  A client that knows the table to be frozen at every step of a run finds it unchanged at the
  end.
\<close>

locale freezable =
  fixes step :: "'s \<Rightarrow> 'o \<Rightarrow> 's" and frozen :: "'s \<Rightarrow> bool" and table :: "'s \<Rightarrow> 't"
  assumes step_frozen: "frozen s \<Longrightarrow> table (step s op) = table s"
begin

lemma run_frozen:
  "\<forall>n < length ops. frozen (foldl step s (take n ops)) \<Longrightarrow> table (foldl step s ops) = table s"
proof (induction ops rule: rev_induct)
  case (snoc op ops)
  have "\<forall>n < length ops. frozen (foldl step s (take n ops))"
  proof (intro allI impI)
    fix n
    assume "n < length ops"
    with snoc.prems [rule_format, of n] show "frozen (foldl step s (take n ops))" by simp
  qed
  moreover have "frozen (foldl step s ops)" using snoc.prems [rule_format, of "length ops"] by simp
  ultimately show ?case using snoc.IH step_frozen by simp
qed simp

end

end
