(* ===== verification/Host_Value.thy ===== *)
theory Host_Value
  imports Host_Prelude
begin

text \<open>
  Values at the host boundary (first half of
  \<^verbatim>\<open>turbo_script/src/host/turbo_script_host_result.c\<close>): the borrowed value views of the
  embedder, their validation (\<^verbatim>\<open>ts_host_validate_node\<close>) and their deep copy.

  A borrowed view is a graph in the embedder's memory: an array view points to its elements, a
  record view to its entries, and nothing stops two views from sharing or a view from reaching
  itself.  So the model has a memory, and a view is an address in it.  Reading at an address is
  total: that the pointers of a view are valid is the embedder's obligation.
\<close>

unbundle bit_operations_syntax

section \<open>Views in memory\<close>

text \<open>
  \<^verbatim>\<open>turbo_script_value_view_s\<close>: the tag and the union member it selects; a tag outside the
  seven known ones is \<open>VOther\<close>.  Integers and doubles are their 64-bit patterns.
\<close>

datatype view_as =
    VNull
  | VBool u8
  | VInt64 u64
  | VNumber u64
  | VString sview
  | VArray "addr option" size_t
  | VRecord "addr option" size_t
  | VOther u32

record value_view =
  vv_reserved :: u32
  vv_as :: view_as

text \<open>
  The memory gives the view at an address and the key of the record entry at an address.  The
  elements of an array at \<open>p\<close> are at \<open>p + 24 i\<close>; the entries of a record at \<open>p\<close> are at
  \<open>p + 40 i\<close>, each a 16-byte key followed by its value (\<^verbatim>\<open>sizeof\<close> of
  \<^verbatim>\<open>turbo_script_value_view_t\<close> and \<^verbatim>\<open>turbo_script_record_entry_view_t\<close> on LP64).
\<close>

record view_mem =
  vm_value :: "addr \<Rightarrow> value_view"
  vm_key :: "addr \<Rightarrow> sview"

definition item_addr :: "addr \<Rightarrow> nat \<Rightarrow> addr" where
  "item_addr p i = p + 24 * i"

definition entry_addr :: "addr \<Rightarrow> nat \<Rightarrow> addr" where
  "entry_addr p i = p + 40 * i"

definition entry_value_addr :: "addr \<Rightarrow> nat \<Rightarrow> addr" where
  "entry_value_addr p i = entry_addr p i + 16"

record value_limits =
  max_depth :: u32
  max_nodes :: size_t
  max_bytes :: size_t

section \<open>External services\<close>

text \<open>
  The hash sets and the UTF-8 checker come from the Salts SDK, which is not part of the
  sources: they are a parameter of the definitions.  \<open>'a\<close> is the state of a set of addresses
  (\<^verbatim>\<open>active_containers\<close>), \<open>'b\<close> the state of a set of record keys (\<^verbatim>\<open>keys\<close>).
\<close>

record ('a, 'b) salts =
  utf8_valid :: "bytes \<Rightarrow> bool"
  addr_set_init :: "size_t \<Rightarrow> stl_status \<times> 'a"
  addr_set_contains :: "'a \<Rightarrow> addr \<Rightarrow> bool"
  addr_set_add :: "'a \<Rightarrow> addr \<Rightarrow> stl_status \<times> 'a"
  addr_set_remove :: "'a \<Rightarrow> addr \<Rightarrow> stl_status \<times> 'a"
  key_set_init ::
    "(sview \<Rightarrow> size_t) \<Rightarrow> (sview \<Rightarrow> sview \<Rightarrow> bool) \<Rightarrow> size_t \<Rightarrow> stl_status \<times> 'b"
  key_set_contains :: "'b \<Rightarrow> sview \<Rightarrow> bool"
  key_set_add :: "'b \<Rightarrow> sview \<Rightarrow> stl_status \<times> 'b"

definition ts_host_stl_status :: "stl_status \<Rightarrow> status" where
  "ts_host_stl_status s =
     (case s of STL_OK \<Rightarrow> STATUS_OK
      | STL_OUT_OF_MEMORY \<Rightarrow> STATUS_OUT_OF_MEMORY
      | STL_CAPACITY_EXCEEDED \<Rightarrow> STATUS_LIMIT_EXCEEDED
      | STL_OTHER \<Rightarrow> STATUS_INVALID_ARGUMENT)"

section \<open>Hash and equality of record keys\<close>

definition FNV_OFFSET_BASIS :: u64 where "FNV_OFFSET_BASIS = 14695981039346656037"
definition FNV_PRIME :: u64 where "FNV_PRIME = 1099511628211"

definition fnv_byte :: "u64 \<Rightarrow> char \<Rightarrow> u64" where
  "fnv_byte hash c = (hash XOR of_char c) * FNV_PRIME"

definition ts_host_string_hash :: "sview \<Rightarrow> size_t" where
  "ts_host_string_hash v = foldl fnv_byte FNV_OFFSET_BASIS (buf_elems v)"

definition ts_host_string_equal :: "sview \<Rightarrow> sview \<Rightarrow> bool" where
  "ts_host_string_equal lhs rhs \<longleftrightarrow>
     buf_size lhs = buf_size rhs \<and> (buf_size lhs = 0 \<or> buf_elems lhs = buf_elems rhs)"

section \<open>Validation\<close>

record 'a vstate =
  vs_nodes :: size_t
  vs_bytes :: size_t
  vs_active :: 'a

definition ts_host_charge_bytes ::
  "value_limits \<Rightarrow> 'a vstate \<Rightarrow> size_t \<Rightarrow> size_t \<Rightarrow> status \<times> 'a vstate" where
  "ts_host_charge_bytes L st count element_size =
     (if count \<noteq> 0 \<and> element_size > SIZE_MAX div count then (STATUS_LIMIT_EXCEEDED, st)
      else
        let b = count * element_size in
        if b > max_bytes L - vs_bytes st then (STATUS_LIMIT_EXCEEDED, st)
        else (STATUS_OK, st\<lparr>vs_bytes := vs_bytes st + b\<rparr>))"

definition ts_host_validate_string ::
  "('x, 'b) salts \<Rightarrow> value_limits \<Rightarrow> 'a vstate \<Rightarrow> sview \<Rightarrow> bool \<Rightarrow> bool \<Rightarrow> status \<times> 'a vstate"
  where
  "ts_host_validate_string E L st v require_nonempty reject_embedded_nul =
     (if buf_broken v then (STATUS_INVALID_ARGUMENT, st)
      else if require_nonempty \<and> buf_size v = 0 then (STATUS_VALIDATION_ERROR, st)
      else if reject_embedded_nul \<and> CHR 0x00 \<in> set (buf_elems v)
      then (STATUS_VALIDATION_ERROR, st)
      else if buf_size v = SIZE_MAX then (STATUS_LIMIT_EXCEEDED, st)
      else
        let (s, st') = ts_host_charge_bytes L st (buf_size v + 1) 1 in
        if s \<noteq> STATUS_OK then (s, st')
        else if \<not> utf8_valid E (buf_elems v) then (STATUS_INVALID_UTF8, st')
        else (STATUS_OK, st'))"

text \<open>
  What array and record views share: the shape, node and byte checks, the entry in the set of
  containers being visited, the visit of the children and the removal of the entry.
\<close>

definition ts_host_validate_container ::
  "('a, 'b) salts \<Rightarrow> value_limits \<Rightarrow> 'a vstate \<Rightarrow> addr \<Rightarrow> addr option \<Rightarrow> size_t \<Rightarrow> size_t \<Rightarrow>
   ('a vstate \<Rightarrow> status \<times> 'a vstate) \<Rightarrow> status \<times> 'a vstate" where
  "ts_host_validate_container E L st identity ptr count element_size visit =
     (if ptr = None \<and> count \<noteq> 0 then (STATUS_INVALID_ARGUMENT, st)
      else if count > max_nodes L - vs_nodes st then (STATUS_LIMIT_EXCEEDED, st)
      else
        let (s, st2) = ts_host_charge_bytes L st count element_size in
        if s \<noteq> STATUS_OK then (s, st2)
        else if addr_set_contains E (vs_active st2) identity then (STATUS_VALIDATION_ERROR, st2)
        else
          let (a, act) = addr_set_add E (vs_active st2) identity;
              s = ts_host_stl_status a;
              st3 = st2\<lparr>vs_active := act\<rparr>
          in if s \<noteq> STATUS_OK then (s, st3)
             else
               let (s, st4) = visit st3;
                   (r, act') = addr_set_remove E (vs_active st4) identity;
                   st5 = st4\<lparr>vs_active := act'\<rparr>
               in if r \<noteq> STL_OK \<and> s = STATUS_OK then (STATUS_INVALID_STATE, st5)
                  else (s, st5))"

text \<open>
  The recursion of the C function goes through its two loops; the loops are functions of the
  next index.  The depth stays at most \<open>max_depth + 1\<close>, so it never wraps and is a \<open>nat\<close>.
  Every path terminates, also on a cyclic view: the depth is bounded.
\<close>

function (sequential)
  ts_host_validate_node ::
    "('a, 'b) salts \<Rightarrow> view_mem \<Rightarrow> value_limits \<Rightarrow> 'a vstate \<Rightarrow> addr \<Rightarrow> nat \<Rightarrow>
     status \<times> 'a vstate"
  and ts_host_validate_items ::
    "('a, 'b) salts \<Rightarrow> view_mem \<Rightarrow> value_limits \<Rightarrow> 'a vstate \<Rightarrow> addr \<Rightarrow> nat \<Rightarrow> nat \<Rightarrow> nat \<Rightarrow>
     status \<times> 'a vstate"
  and ts_host_validate_entries ::
    "('a, 'b) salts \<Rightarrow> view_mem \<Rightarrow> value_limits \<Rightarrow> 'a vstate \<Rightarrow> 'b \<Rightarrow> addr \<Rightarrow> nat \<Rightarrow> nat \<Rightarrow>
     nat \<Rightarrow> status \<times> 'a vstate"
  where
  "ts_host_validate_node E M L st p depth =
     (if depth > unat (max_depth L) \<or> vs_nodes st = max_nodes L then (STATUS_LIMIT_EXCEEDED, st)
      else
        let st1 = st\<lparr>vs_nodes := vs_nodes st + 1\<rparr>; v = vm_value M p in
        if vv_reserved v \<noteq> 0 then (STATUS_INVALID_ARGUMENT, st1)
        else
          (case vv_as v of
             VNull \<Rightarrow> (STATUS_OK, st1)
           | VInt64 i \<Rightarrow> (STATUS_OK, st1)
           | VNumber d \<Rightarrow> (STATUS_OK, st1)
           | VBool b \<Rightarrow> (if b \<le> 1 then STATUS_OK else STATUS_VALIDATION_ERROR, st1)
           | VString s \<Rightarrow> ts_host_validate_string E L st1 s False False
           | VArray items count \<Rightarrow>
               ts_host_validate_container E L st1 p items count 24
                 (\<lambda>st3. ts_host_validate_items E M L st3 (the items) 0 (unat count) (Suc depth))
           | VRecord entries count \<Rightarrow>
               ts_host_validate_container E L st1 p entries count 40
                 (\<lambda>st3.
                    if count = 0 then (STATUS_OK, st3)
                    else
                      let (a, keys) =
                        key_set_init E ts_host_string_hash ts_host_string_equal count in
                      if a \<noteq> STL_OK then (ts_host_stl_status a, st3)
                      else ts_host_validate_entries E M L st3 keys (the entries) 0 (unat count)
                             (Suc depth))
           | VOther k \<Rightarrow> (STATUS_VALIDATION_ERROR, st1)))"
| "ts_host_validate_items E M L st p i count depth =
     (if i \<ge> count then (STATUS_OK, st)
      else
        let (s, st') = ts_host_validate_node E M L st (item_addr p i) depth in
        if s \<noteq> STATUS_OK then (s, st')
        else ts_host_validate_items E M L st' p (Suc i) count depth)"
| "ts_host_validate_entries E M L st keys p i count depth =
     (if i \<ge> count then (STATUS_OK, st)
      else
        let key = vm_key M (entry_addr p i);
            (s, st1) = ts_host_validate_string E L st key True True
        in if s \<noteq> STATUS_OK then (s, st1)
           else if key_set_contains E keys key then (STATUS_DUPLICATE_RECORD_KEY, st1)
           else
             let (a, keys') = key_set_add E keys key in
             if a \<noteq> STL_OK then (ts_host_stl_status a, st1)
             else
               let (s, st2) = ts_host_validate_node E M L st1 (entry_value_addr p i) depth in
               if s \<noteq> STATUS_OK then (s, st2)
               else ts_host_validate_entries E M L st2 keys' p (Suc i) count depth)"
  by pat_completeness auto
termination
  by (relation "measures
       [\<lambda>x. case x of
            Inl (E, M, L, st, p, depth) \<Rightarrow> Suc (unat (max_depth L)) - depth
          | Inr (Inl (E, M, L, st, p, i, count, depth)) \<Rightarrow> Suc (unat (max_depth L)) - depth
          | Inr (Inr (E, M, L, st, keys, p, i, count, depth)) \<Rightarrow>
              Suc (unat (max_depth L)) - depth,
        \<lambda>x. case x of
            Inl (E, M, L, st, p, depth) \<Rightarrow> 0
          | Inr (Inl (E, M, L, st, p, i, count, depth)) \<Rightarrow> Suc (count - i)
          | Inr (Inr (E, M, L, st, keys, p, i, count, depth)) \<Rightarrow> Suc (count - i)]")
    auto

declare ts_host_validate_node.simps [simp del]
declare ts_host_validate_items.simps [simp del]
declare ts_host_validate_entries.simps [simp del]

lemmas validate_induct =
  ts_host_validate_node_ts_host_validate_items_ts_host_validate_entries.induct

definition ts_host_validate_values_loop ::
  "('a, 'b) salts \<Rightarrow> view_mem \<Rightarrow> value_limits \<Rightarrow> 'a vstate \<Rightarrow> addr \<Rightarrow> nat \<Rightarrow> status \<times> 'a vstate"
  where
  "ts_host_validate_values_loop E M L st values count =
     ts_host_validate_items E M L st values 0 count 1"

text \<open>
  \<^verbatim>\<open>ts_host_validate_value_views\<close>; its loop is the loop over array elements, at depth 1.
\<close>

definition ts_host_validate_value_views ::
  "('a, 'b) salts \<Rightarrow> view_mem \<Rightarrow> addr option \<Rightarrow> size_t \<Rightarrow> value_limits option \<Rightarrow> status" where
  "ts_host_validate_value_views E M values count limits =
     (case limits of
        None \<Rightarrow> STATUS_INVALID_ARGUMENT
      | Some L \<Rightarrow>
          if (values = None \<and> count \<noteq> 0) \<or> max_depth L = 0 \<or> max_nodes L = 0 \<or> max_bytes L = 0
          then STATUS_INVALID_ARGUMENT
          else
            let (a, act) = addr_set_init E (max_nodes L) in
            if a \<noteq> STL_OK then ts_host_stl_status a
            else fst (ts_host_validate_values_loop E M L
                        \<lparr>vs_nodes = 0, vs_bytes = 0, vs_active = act\<rparr> (the values) (unat count)))"

definition ts_host_validate_value_view ::
  "('a, 'b) salts \<Rightarrow> view_mem \<Rightarrow> addr option \<Rightarrow> value_limits option \<Rightarrow> status" where
  "ts_host_validate_value_view E M value limits =
     (if value = None then STATUS_INVALID_ARGUMENT
      else ts_host_validate_value_views E M value 1 limits)"

section \<open>The tree a view denotes\<close>

text \<open>
  The reference reading of a view: the finite tree it denotes, if it denotes one within the given
  depth, and the measures the ABI limits (nodes, bytes) with its well-formedness conditions.
\<close>

datatype tree =
    TNull | TBool u8 | TInt u64 | TNum u64 | TStr bytes
  | TArr "tree list" | TRec "(bytes \<times> tree) list"

fun tree_of :: "nat \<Rightarrow> view_mem \<Rightarrow> addr \<Rightarrow> tree option" where
  "tree_of 0 M p = None"
| "tree_of (Suc f) M p =
     (if vv_reserved (vm_value M p) \<noteq> 0 then None else
      case vv_as (vm_value M p) of
        VNull \<Rightarrow> Some TNull
      | VBool b \<Rightarrow> Some (TBool b)
      | VInt64 i \<Rightarrow> Some (TInt i)
      | VNumber d \<Rightarrow> Some (TNum d)
      | VString s \<Rightarrow> if buf_broken s then None else Some (TStr (buf_elems s))
      | VArray items n \<Rightarrow>
          if items = None \<and> n \<noteq> 0 then None
          else map_option TArr
                 (those (map (\<lambda>i. tree_of f M (item_addr (the items) i)) [0..<unat n]))
      | VRecord entries n \<Rightarrow>
          if entries = None \<and> n \<noteq> 0 then None
          else map_option TRec
                 (those (map (\<lambda>i. map_option
                                   (Pair (buf_elems (vm_key M (entry_addr (the entries) i))))
                                   (tree_of f M (entry_value_addr (the entries) i))) [0..<unat n]))
      | VOther k \<Rightarrow> None)"

fun tnodes :: "tree \<Rightarrow> nat" where
  "tnodes (TArr ts) = Suc (\<Sum>t\<leftarrow>ts. tnodes t)"
| "tnodes (TRec es) = Suc (\<Sum>e\<leftarrow>es. tnodes (snd e))"
| "tnodes _ = 1"

fun tbytes :: "tree \<Rightarrow> nat" where
  "tbytes (TStr s) = length s + 1"
| "tbytes (TArr ts) = 24 * length ts + (\<Sum>t\<leftarrow>ts. tbytes t)"
| "tbytes (TRec es) = 40 * length es + (\<Sum>e\<leftarrow>es. length (fst e) + 1 + tbytes (snd e))"
| "tbytes _ = 0"

fun tdepth :: "tree \<Rightarrow> nat" where
  "tdepth (TArr ts) = Suc (foldr (\<lambda>t. max (tdepth t)) ts 0)"
| "tdepth (TRec es) = Suc (foldr (\<lambda>e. max (tdepth (snd e))) es 0)"
| "tdepth _ = 1"

fun twf :: "(bytes \<Rightarrow> bool) \<Rightarrow> tree \<Rightarrow> bool" where
  "twf U (TBool b) = (b \<le> 1)"
| "twf U (TStr s) = U s"
| "twf U (TArr ts) = (\<forall>t \<in> set ts. twf U t)"
| "twf U (TRec es) =
     (distinct (map fst es) \<and>
      (\<forall>e \<in> set es. fst e \<noteq> [] \<and> CHR 0x00 \<notin> set (fst e) \<and> U (fst e) \<and> twf U (snd e)))"
| "twf U _ = True"

text \<open>Every string of the embedder's memory has a length that fits in \<^verbatim>\<open>size_t\<close>.\<close>

definition mem_fits :: "view_mem \<Rightarrow> bool" where
  "mem_fits M \<longleftrightarrow>
     (\<forall>p s. vv_as (vm_value M p) = VString s \<longrightarrow> buf_fits s) \<and> (\<forall>p. buf_fits (vm_key M p))"

text \<open>What the sources rely on from the set of record keys: it knows what was added to it.\<close>

definition key_set_laws :: "('a, 'b) salts \<Rightarrow> ('b \<Rightarrow> bytes set) \<Rightarrow> bool" where
  "key_set_laws E keys_of \<longleftrightarrow>
     (\<forall>h eq n s. key_set_init E h eq n = (STL_OK, s) \<longrightarrow> keys_of s = {}) \<and>
     (\<forall>s bs. key_set_contains E s (Buf bs) \<longleftrightarrow> bs \<in> keys_of s) \<and>
     (\<forall>s bs s'. key_set_add E s (Buf bs) = (STL_OK, s') \<longrightarrow>
        keys_of s' = insert bs (keys_of s))"

section \<open>The byte account of the validator\<close>

interpretation validate_account:
  charge_account "ts_host_charge_bytes L" "\<lambda>st. unat (vs_bytes st)" "unat (max_bytes L)" for L
proof unfold_locales
  fix st :: "'a vstate" and c e
  assume le: "unat (vs_bytes st) \<le> unat (max_bytes L)"
  from checked_charge_iff [OF le, of c e]
  show "fst (ts_host_charge_bytes L st c e) = STATUS_OK \<longleftrightarrow>
      unat (vs_bytes st) + unat c * unat e \<le> unat (max_bytes L)"
    by (auto simp: ts_host_charge_bytes_def Let_def)
next
  fix st st' :: "'a vstate" and c e
  assume le: "unat (vs_bytes st) \<le> unat (max_bytes L)"
    and ok: "ts_host_charge_bytes L st c e = (STATUS_OK, st')"
  from ok have "\<not> (c \<noteq> 0 \<and> e > SIZE_MAX div c) \<and> \<not> c * e > max_bytes L - vs_bytes st"
    and st': "st' = st\<lparr>vs_bytes := vs_bytes st + c * e\<rparr>"
    by (auto simp: ts_host_charge_bytes_def Let_def split: if_splits)
  with checked_charge_iff [OF le, of c e]
  have "unat (vs_bytes st) + unat c * unat e \<le> unat (max_bytes L)" by blast
  then show "unat (vs_bytes st') = unat (vs_bytes st) + unat c * unat e"
    by (simp add: st' checked_charge_sum)
qed (auto simp: ts_host_charge_bytes_def Let_def split: if_splits)

lemma charge_bytes_frame:
  "ts_host_charge_bytes L st c e = (s, st') \<Longrightarrow>
   vs_nodes st' = vs_nodes st \<and> vs_active st' = vs_active st"
  by (auto simp: ts_host_charge_bytes_def Let_def split: if_splits)

text \<open>The counters of a validation run stay within the limits.\<close>

definition vs_ok :: "value_limits \<Rightarrow> 'a vstate \<Rightarrow> bool" where
  "vs_ok L st \<longleftrightarrow>
     unat (vs_nodes st) \<le> unat (max_nodes L) \<and> unat (vs_bytes st) \<le> unat (max_bytes L)"

lemma vs_ok_active [simp]: "vs_ok L (st\<lparr>vs_active := a\<rparr>) = vs_ok L st"
  by (simp add: vs_ok_def)

lemma validate_string_ok:
  assumes ok: "ts_host_validate_string E L st v ne nul = (STATUS_OK, st')"
    and fits: "buf_fits v" and st: "vs_ok L st"
  shows "\<not> buf_broken v" "utf8_valid E (buf_elems v)" "ne \<Longrightarrow> buf_elems v \<noteq> []"
    "nul \<Longrightarrow> CHR 0x00 \<notin> set (buf_elems v)" "vs_ok L st'" "vs_nodes st' = vs_nodes st"
    "unat (vs_bytes st') = unat (vs_bytes st) + length (buf_elems v) + 1"
proof -
  from ok have nb: "\<not> buf_broken v" and ch: "ts_host_charge_bytes L st (buf_size v + 1) 1 = (STATUS_OK, st')"
    and utf: "utf8_valid E (buf_elems v)" and ne: "ne \<longrightarrow> buf_size v \<noteq> 0"
    and nul: "nul \<longrightarrow> CHR 0x00 \<notin> set (buf_elems v)" and small: "buf_size v \<noteq> SIZE_MAX"
    by (auto simp: ts_host_validate_string_def Let_def split: if_splits prod.splits)
  have sz: "unat (buf_size v) = length (buf_elems v)"
    using nb fits by (cases v) (auto simp: buf_fits_def unat_of_nat)
  have sz1: "unat (buf_size v + 1) = length (buf_elems v) + 1"
    using unat_size_succ [OF small] sz by simp
  from st have le: "unat (vs_bytes st) \<le> unat (max_bytes L)" by (simp add: vs_ok_def)
  note used = validate_account.charge_used [OF le ch] validate_account.charge_within [OF le ch]
  show "\<not> buf_broken v" "utf8_valid E (buf_elems v)" by (fact nb, fact utf)
  show "ne \<Longrightarrow> buf_elems v \<noteq> []" using ne sz by (auto simp: word_unat_eq_iff)
  show "nul \<Longrightarrow> CHR 0x00 \<notin> set (buf_elems v)" using nul by blast
  show "vs_nodes st' = vs_nodes st" using charge_bytes_frame [OF ch] by blast
  then show "vs_ok L st'" using used st by (simp add: vs_ok_def)
  show "unat (vs_bytes st') = unat (vs_bytes st) + length (buf_elems v) + 1"
    using used sz1 by simp
qed

section \<open>Soundness of validation\<close>

text \<open>A part of the run that visited \<open>n\<close> nodes and charged \<open>b\<close> bytes.\<close>

definition grows :: "value_limits \<Rightarrow> 'a vstate \<Rightarrow> 'a vstate \<Rightarrow> nat \<Rightarrow> nat \<Rightarrow> bool" where
  "grows L st st' n b \<longleftrightarrow>
     vs_ok L st' \<and> unat (vs_nodes st') = unat (vs_nodes st) + n \<and>
     unat (vs_bytes st') = unat (vs_bytes st) + b"

lemma grows_trans: "grows L st st1 n b \<Longrightarrow> grows L st1 st2 n' b' \<Longrightarrow> grows L st st2 (n + n') (b + b')"
  by (simp add: grows_def)

lemma grows_refl: "vs_ok L st \<Longrightarrow> grows L st st 0 0"
  by (simp add: grows_def)

lemma container_ok:
  assumes ok: "ts_host_validate_container E L st p ptr count es visit = (STATUS_OK, st')"
    and st: "vs_ok L st"
  obtains st3 st4 act where "\<not> (ptr = None \<and> count \<noteq> 0)"
    "grows L st st3 0 (unat count * unat es)" "visit st3 = (STATUS_OK, st4)"
    "st' = st4\<lparr>vs_active := act\<rparr>"
proof -
  obtain s st2 where ch: "ts_host_charge_bytes L st count es = (s, st2)"
    by (cases "ts_host_charge_bytes L st count es") auto
  obtain a act where add: "addr_set_add E (vs_active st2) p = (a, act)"
    by (cases "addr_set_add E (vs_active st2) p") auto
  define st3 where "st3 = st2\<lparr>vs_active := act\<rparr>"
  obtain s4 st4 where vis: "visit st3 = (s4, st4)" by (cases "visit st3") auto
  obtain r act' where rem: "addr_set_remove E (vs_active st4) p = (r, act')"
    by (cases "addr_set_remove E (vs_active st4) p") auto
  from ok have "\<not> (ptr = None \<and> count \<noteq> 0)" and s: "s = STATUS_OK" and s4: "s4 = STATUS_OK"
    and st': "st' = st4\<lparr>vs_active := act'\<rparr>"
    using ch add vis rem
    by (auto simp: ts_host_validate_container_def Let_def st3_def split: if_splits)
  moreover from st have le: "unat (vs_bytes st) \<le> unat (max_bytes L)" by (simp add: vs_ok_def)
  have "grows L st st3 0 (unat count * unat es)"
    using validate_account.charge_used [OF le ch [unfolded s]]
      validate_account.charge_within [OF le ch [unfolded s]] charge_bytes_frame [OF ch] st
    by (simp add: grows_def vs_ok_def st3_def)
  ultimately show ?thesis using vis that by blast
qed

lemma node_enter_ok:
  assumes "ts_host_validate_node E M L st p depth = (STATUS_OK, st')" "vs_ok L st"
  shows "depth \<le> unat (max_depth L)" "grows L st (st\<lparr>vs_nodes := vs_nodes st + 1\<rparr>) 1 0"
proof -
  from assms(1) have d: "depth \<le> unat (max_depth L)" and n: "vs_nodes st \<noteq> max_nodes L"
    by (auto simp: ts_host_validate_node.simps [of E M L st p depth] split: if_splits)
  show "depth \<le> unat (max_depth L)" by (fact d)
  from n assms(2) have lt: "unat (vs_nodes st) < unat (max_nodes L)"
    by (auto simp: vs_ok_def word_unat_eq_iff)
  then have "unat (vs_nodes st + 1) = unat (vs_nodes st) + 1"
    using unat_lt_2_64 [of "max_nodes L"] by (simp add: unat_word_ariths)
  with lt assms(2) show "grows L st (st\<lparr>vs_nodes := vs_nodes st + 1\<rparr>) 1 0"
    by (simp add: grows_def vs_ok_def)
qed

definition node_sound :: "(bytes \<Rightarrow> bool) \<Rightarrow> view_mem \<Rightarrow> value_limits \<Rightarrow> nat \<Rightarrow> addr \<Rightarrow>
    'a vstate \<Rightarrow> 'a vstate \<Rightarrow> bool" where
  "node_sound U M L fuel p st st' \<longleftrightarrow>
     (\<exists>t. tree_of fuel M p = Some t \<and> twf U t \<and> grows L st st' (tnodes t) (tbytes t))"

definition items_sound :: "(bytes \<Rightarrow> bool) \<Rightarrow> view_mem \<Rightarrow> value_limits \<Rightarrow> nat \<Rightarrow> addr \<Rightarrow> nat list \<Rightarrow>
    'a vstate \<Rightarrow> 'a vstate \<Rightarrow> bool" where
  "items_sound U M L fuel p is st st' \<longleftrightarrow>
     (\<exists>ts. those (map (\<lambda>i. tree_of fuel M (item_addr p i)) is) = Some ts \<and>
           (\<forall>t \<in> set ts. twf U t) \<and>
           grows L st st' (\<Sum>t\<leftarrow>ts. tnodes t) (\<Sum>t\<leftarrow>ts. tbytes t))"

definition entries_sound :: "(bytes \<Rightarrow> bool) \<Rightarrow> view_mem \<Rightarrow> value_limits \<Rightarrow> nat \<Rightarrow> addr \<Rightarrow> nat list \<Rightarrow>
    bytes set \<Rightarrow> 'a vstate \<Rightarrow> 'a vstate \<Rightarrow> bool" where
  "entries_sound U M L fuel p is seen st st' \<longleftrightarrow>
     (\<exists>es. those (map (\<lambda>i. map_option (Pair (buf_elems (vm_key M (entry_addr p i))))
                            (tree_of fuel M (entry_value_addr p i))) is) = Some es \<and>
           distinct (map fst es) \<and> fst ` set es \<inter> seen = {} \<and>
           (\<forall>e \<in> set es. fst e \<noteq> [] \<and> CHR 0x00 \<notin> set (fst e) \<and> U (fst e) \<and> twf U (snd e)) \<and>
           grows L st st' (\<Sum>e\<leftarrow>es. tnodes (snd e))
             (\<Sum>e\<leftarrow>es. length (fst e) + 1 + tbytes (snd e)))"

lemma those_length: "those xs = Some ys \<Longrightarrow> length ys = length xs"
  by (induction xs arbitrary: ys) (auto split: option.splits)

text \<open>One lemma per function of the recursion, each from the results for its calls.\<close>

lemma items_sound_Nil: "vs_ok L st \<Longrightarrow> items_sound U M L fuel p [] st st"
  by (simp add: items_sound_def grows_refl)

lemma items_sound_Cons:
  assumes "node_sound U M L fuel (item_addr p i) st st1" "items_sound U M L fuel p is st1 st'"
  shows "items_sound U M L fuel p (i # is) st st'"
  using assms by (auto simp: node_sound_def items_sound_def intro: grows_trans)

lemma entries_sound_Nil: "vs_ok L st \<Longrightarrow> entries_sound U M L fuel p [] seen st st"
  by (simp add: entries_sound_def grows_refl)

lemma entries_sound_Cons:
  assumes key: "vm_key M (entry_addr p i) = Buf k" "k \<noteq> []" "CHR 0x00 \<notin> set k" "U k" "k \<notin> seen"
    and g: "grows L st st1 0 (length k + 1)"
    and val: "node_sound U M L fuel (entry_value_addr p i) st1 st2"
    and rest: "entries_sound U M L fuel p is (insert k seen) st2 st'"
  shows "entries_sound U M L fuel p (i # is) seen st st'"
proof -
  from val obtain t where t: "tree_of fuel M (entry_value_addr p i) = Some t" "twf U t"
    "grows L st1 st2 (tnodes t) (tbytes t)" by (auto simp: node_sound_def)
  from rest obtain es where es: "those (map (\<lambda>i. map_option
        (Pair (buf_elems (vm_key M (entry_addr p i))))
        (tree_of fuel M (entry_value_addr p i))) is) = Some es"
    "distinct (map fst es)" "fst ` set es \<inter> insert k seen = {}"
    "\<forall>e \<in> set es. fst e \<noteq> [] \<and> CHR 0x00 \<notin> set (fst e) \<and> U (fst e) \<and> twf U (snd e)"
    "grows L st2 st' (\<Sum>e\<leftarrow>es. tnodes (snd e)) (\<Sum>e\<leftarrow>es. length (fst e) + 1 + tbytes (snd e))"
    by (auto simp: entries_sound_def)
  have "grows L st st' (0 + (tnodes t + (\<Sum>e\<leftarrow>es. tnodes (snd e))))
     ((length k + 1) + (tbytes t + (\<Sum>e\<leftarrow>es. length (fst e) + 1 + tbytes (snd e))))"
    by (rule grows_trans [OF g grows_trans [OF t(3) es(5)]])
  then show ?thesis using key t es by (auto simp: entries_sound_def add.assoc)
qed

lemma node_sound_container:
  assumes res: "vv_reserved (vm_value M p) = 0"
    and v: "vv_as (vm_value M p) = VArray items n \<and> es = (24 :: size_t) \<and> kids = items_sound U M L fuel (the items) [0..<unat n]
      \<or> vv_as (vm_value M p) = VRecord items n \<and> es = 40 \<and> kids = entries_sound U M L fuel (the items) [0..<unat n] {}"
    and g: "grows L st st1 1 0" and ptr: "\<not> (items = None \<and> n \<noteq> 0)"
    and g3: "grows L st1 st3 0 (unat n * unat es)" and kids: "kids st3 st4"
  shows "node_sound U M L (Suc fuel) p st (st4\<lparr>vs_active := act\<rparr>)"
proof -
  have all: "grows L st3 st4 m b \<Longrightarrow> grows L st (st4\<lparr>vs_active := act\<rparr>) (Suc m) (unat n * unat es + b)"
    for m b using grows_trans [OF g grows_trans [OF g3, of st4 m b]] by (simp add: grows_def)
  from v show ?thesis
  proof
    assume a: "vv_as (vm_value M p) = VArray items n \<and> es = 24 \<and> kids = items_sound U M L fuel (the items) [0..<unat n]"
    with kids obtain ts where ts: "those (map (\<lambda>i. tree_of fuel M (item_addr (the items) i)) [0..<unat n]) = Some ts"
      "\<forall>t \<in> set ts. twf U t" "grows L st3 st4 (\<Sum>t\<leftarrow>ts. tnodes t) (\<Sum>t\<leftarrow>ts. tbytes t)"
      by (auto simp: items_sound_def)
    with all [OF ts(3)] a ptr res those_length [OF ts(1)] show ?thesis
      by (auto simp: node_sound_def mult.commute)
  next
    assume a: "vv_as (vm_value M p) = VRecord items n \<and> es = 40 \<and> kids = entries_sound U M L fuel (the items) [0..<unat n] {}"
    with kids obtain rs where rs: "those (map (\<lambda>i. map_option (Pair (buf_elems (vm_key M (entry_addr (the items) i))))
          (tree_of fuel M (entry_value_addr (the items) i))) [0..<unat n]) = Some rs"
      "distinct (map fst rs)"
      "\<forall>e \<in> set rs. fst e \<noteq> [] \<and> CHR 0x00 \<notin> set (fst e) \<and> U (fst e) \<and> twf U (snd e)"
      "grows L st3 st4 (\<Sum>e\<leftarrow>rs. tnodes (snd e)) (\<Sum>e\<leftarrow>rs. length (fst e) + 1 + tbytes (snd e))"
      by (auto simp: entries_sound_def)
    with all [OF rs(4)] a ptr res those_length [OF rs(1)] show ?thesis
      by (auto simp: node_sound_def mult.commute)
  qed
qed

lemma node_ok_cases:
  assumes "ts_host_validate_node E M L st p depth = (STATUS_OK, st')"
  defines "st1 \<equiv> st\<lparr>vs_nodes := vs_nodes st + 1\<rparr>"
  obtains
    (Scalar) "vv_as (vm_value M p) = VNull \<or> (\<exists>i. vv_as (vm_value M p) = VInt64 i) \<or>
        (\<exists>d. vv_as (vm_value M p) = VNumber d) \<or> (\<exists>b. vv_as (vm_value M p) = VBool b \<and> b \<le> 1)"
      "st' = st1"
  | (String) s where "vv_as (vm_value M p) = VString s"
      "ts_host_validate_string E L st1 s False False = (STATUS_OK, st')"
  | (Array) items n where "vv_as (vm_value M p) = VArray items n"
      "ts_host_validate_container E L st1 p items n 24
         (\<lambda>st3. ts_host_validate_items E M L st3 (the items) 0 (unat n) (Suc depth)) =
       (STATUS_OK, st')"
  | (Record) items n where "vv_as (vm_value M p) = VRecord items n"
      "ts_host_validate_container E L st1 p items n 40
         (\<lambda>st3. if n = 0 then (STATUS_OK, st3)
                else let (a, keys) = key_set_init E ts_host_string_hash ts_host_string_equal n in
                  if a \<noteq> STL_OK then (ts_host_stl_status a, st3)
                  else ts_host_validate_entries E M L st3 keys (the items) 0 (unat n) (Suc depth)) =
       (STATUS_OK, st')"
proof (cases "vv_as (vm_value M p)")
  case VNull
  with assms show ?thesis by (auto simp: ts_host_validate_node.simps [of E M L st p depth] Let_def
      split: if_splits intro: Scalar)
next
  case (VBool b)
  with assms show ?thesis by (auto simp: ts_host_validate_node.simps [of E M L st p depth] Let_def
      split: if_splits intro: Scalar)
next
  case (VInt64 i)
  with assms show ?thesis by (auto simp: ts_host_validate_node.simps [of E M L st p depth] Let_def
      split: if_splits intro: Scalar)
next
  case (VNumber d)
  with assms show ?thesis by (auto simp: ts_host_validate_node.simps [of E M L st p depth] Let_def
      split: if_splits intro: Scalar)
next
  case (VString s)
  with assms show ?thesis by (auto simp: ts_host_validate_node.simps [of E M L st p depth] Let_def
      split: if_splits intro: String)
next
  case (VArray items n)
  with assms show ?thesis by (auto simp: ts_host_validate_node.simps [of E M L st p depth] Let_def
      split: if_splits intro: Array)
next
  case (VRecord items n)
  with assms show ?thesis by (auto simp: ts_host_validate_node.simps [of E M L st p depth] Let_def
      split: if_splits intro: Record)
next
  case (VOther k)
  with assms show ?thesis
    by (auto simp: ts_host_validate_node.simps [of E M L st p depth] Let_def split: if_splits)
qed

lemma stl_status_ok [simp]: "ts_host_stl_status a = STATUS_OK \<longleftrightarrow> a = STL_OK"
  by (simp add: ts_host_stl_status_def split: stl_status.split)

lemma validate_sound:
  fixes E :: "('a, 'b) salts" and keys_of :: "'b \<Rightarrow> bytes set"
  shows "key_set_laws E keys_of \<Longrightarrow> mem_fits M \<Longrightarrow> vs_ok L st \<Longrightarrow>
      ts_host_validate_node E M L st p depth = (STATUS_OK, st') \<Longrightarrow>
      node_sound (utf8_valid E) M L (Suc (unat (max_depth L)) - depth) p st st'"
    and "key_set_laws E keys_of \<Longrightarrow> mem_fits M \<Longrightarrow> vs_ok L st \<Longrightarrow>
      ts_host_validate_items E M L st p i count depth = (STATUS_OK, st') \<Longrightarrow>
      items_sound (utf8_valid E) M L (Suc (unat (max_depth L)) - depth) p [i..<count] st st'"
    and "key_set_laws E keys_of \<Longrightarrow> mem_fits M \<Longrightarrow> vs_ok L st \<Longrightarrow>
      ts_host_validate_entries E M L st keys p i count depth = (STATUS_OK, st') \<Longrightarrow>
      entries_sound (utf8_valid E) M L (Suc (unat (max_depth L)) - depth) p [i..<count]
        (keys_of keys) st st'"
proof (induction E M L st p depth and E M L st p i count depth and E M L st keys p i count depth
    arbitrary: st' and st' and st' rule: validate_induct)
  case (1 E M L st p depth)
  let ?U = "utf8_valid E" and ?f = "unat (max_depth L) - depth"
  note d = node_enter_ok(1) [OF "1.prems"(4,3)] and g = node_enter_ok(2) [OF "1.prems"(4,3)]
  have fuel: "Suc (unat (max_depth L)) - depth = Suc ?f"
    and fuel': "Suc (unat (max_depth L)) - Suc depth = ?f" using d by auto
  have st1: "vs_ok L (st\<lparr>vs_nodes := vs_nodes st + 1\<rparr>)" using g by (simp add: grows_def)
  have limit: "\<not> (unat (max_depth L) < depth \<or> vs_nodes st = max_nodes L)"
    and res: "\<not> vv_reserved (vm_value M p) \<noteq> 0"
    using "1.prems"(4) by (auto simp: ts_host_validate_node.simps [of E M L st p depth] Let_def
        split: if_splits)
  from "1.prems"(4) show ?case
  proof (cases rule: node_ok_cases)
    case Scalar
    with g res show ?thesis by (auto simp: node_sound_def fuel)
  next
    case (String s)
    from "1.prems"(2) String(1) have "buf_fits s" by (auto simp: mem_fits_def)
    note ok = validate_string_ok [OF String(2) this st1]
    with g String(1) res show ?thesis by (auto simp: node_sound_def fuel grows_def)
  next
    case (Array items n)
    from Array(2) st1 obtain st3 st4 act where c: "\<not> (items = None \<and> n \<noteq> 0)"
      "grows L (st\<lparr>vs_nodes := vs_nodes st + 1\<rparr>) st3 0 (unat n * unat (24 :: size_t))"
      "ts_host_validate_items E M L st3 (the items) 0 (unat n) (Suc depth) = (STATUS_OK, st4)"
      "st' = st4\<lparr>vs_active := act\<rparr>" by (rule container_ok)
    have "items_sound ?U M L ?f (the items) [0..<unat n] st3 st4"
      using "1.IH"(1) [OF limit refl refl res Array(1) "1.prems"(1,2) _ c(3)] c(2)
      by (simp add: fuel' grows_def)
    with node_sound_container [OF _ disjI1, OF _ conjI, OF _ Array(1) conjI, OF _ refl refl g c(1,2)] c(4) res
    show ?thesis by (simp add: fuel)
  next
    case (Record items n)
    let ?visit = "\<lambda>st3. if n = 0 then (STATUS_OK, st3)
        else let (a, keys) = key_set_init E ts_host_string_hash ts_host_string_equal n in
          if a \<noteq> STL_OK then (ts_host_stl_status a, st3)
          else ts_host_validate_entries E M L st3 keys (the items) 0 (unat n) (Suc depth)"
    from Record(2) st1 obtain st3 st4 act where c: "\<not> (items = None \<and> n \<noteq> 0)"
      "grows L (st\<lparr>vs_nodes := vs_nodes st + 1\<rparr>) st3 0 (unat n * unat (40 :: size_t))"
      "?visit st3 = (STATUS_OK, st4)" "st' = st4\<lparr>vs_active := act\<rparr>" by (rule container_ok)
    have ok3: "vs_ok L st3" using c(2) by (simp add: grows_def)
    have "entries_sound ?U M L ?f (the items) [0..<unat n] {} st3 st4"
    proof (cases "n = 0")
      case True
      with c(3) ok3 show ?thesis by (simp add: entries_sound_Nil)
    next
      case False
      obtain a keys where init: "key_set_init E ts_host_string_hash ts_host_string_equal n = (a, keys)"
        by (cases "key_set_init E ts_host_string_hash ts_host_string_equal n") auto
      from c(3) False init have a: "a = STL_OK" by (auto split: if_splits)
      with c(3) False init have loop:
        "ts_host_validate_entries E M L st3 keys (the items) 0 (unat n) (Suc depth) = (STATUS_OK, st4)"
        by simp
      have "keys_of keys = {}" using "1.prems"(1) init a by (auto simp: key_set_laws_def)
      with "1.IH"(2) [OF limit refl refl res Record(1) False refl init [symmetric] _ "1.prems"(1,2) ok3 loop] a
      show ?thesis by (simp add: fuel')
    qed
    with node_sound_container [OF _ disjI2, OF _ conjI, OF _ Record(1) conjI, OF _ refl refl g c(1,2)] c(4) res
    show ?thesis by (simp add: fuel)
  qed
next
  case (2 E M L st p i count depth)
  show ?case
  proof (cases "i \<ge> count")
    case True
    with "2.prems" show ?thesis
      by (simp add: ts_host_validate_items.simps [of E M L st p i count depth] items_sound_Nil)
  next
    case False
    then obtain st1 where n: "ts_host_validate_node E M L st (item_addr p i) depth = (STATUS_OK, st1)"
      and r: "ts_host_validate_items E M L st1 p (Suc i) count depth = (STATUS_OK, st')"
      using "2.prems"(4) by (auto simp: ts_host_validate_items.simps [of E M L st p i count depth]
          split: if_splits prod.splits)
    have s1: "node_sound (utf8_valid E) M L (Suc (unat (max_depth L)) - depth) (item_addr p i) st st1"
      using "2.IH"(1) False "2.prems"(1-3) n by blast
    then have "vs_ok L st1" by (auto simp: node_sound_def grows_def)
    with "2.IH"(2) [OF False refl n [symmetric] _ "2.prems"(1,2) _ r]
    have "items_sound (utf8_valid E) M L (Suc (unat (max_depth L)) - depth) p [Suc i..<count] st1 st'"
      by simp
    from items_sound_Cons [OF s1 this] False show ?thesis by (simp add: upt_conv_Cons)
  qed
next
  case (3 E M L st keys p i count depth)
  show ?case
  proof (cases "i \<ge> count")
    case True
    with "3.prems" show ?thesis
      by (simp add: ts_host_validate_entries.simps [of E M L st keys p i count depth] entries_sound_Nil)
  next
    case False
    define key where "key = vm_key M (entry_addr p i)"
    obtain s st1 where s: "ts_host_validate_string E L st key True True = (s, st1)"
      by (cases "ts_host_validate_string E L st key True True") auto
    obtain a keys' where a: "key_set_add E keys key = (a, keys')"
      by (cases "key_set_add E keys key") auto
    obtain s2 st2 where n: "ts_host_validate_node E M L st1 (entry_value_addr p i) depth = (s2, st2)"
      by (cases "ts_host_validate_node E M L st1 (entry_value_addr p i) depth") auto
    from "3.prems"(4) False s a n have oks: "s = STATUS_OK" "\<not> key_set_contains E keys key"
      "a = STL_OK" "s2 = STATUS_OK"
      and r: "ts_host_validate_entries E M L st2 keys' p (Suc i) count depth = (STATUS_OK, st')"
      by (auto simp: ts_host_validate_entries.simps [of E M L st keys p i count depth] key_def
          Let_def split: if_splits)
    have fits: "buf_fits key" using "3.prems"(2) by (simp add: mem_fits_def key_def)
    note str = validate_string_ok [OF s [unfolded oks(1)] fits "3.prems"(3)]
    obtain k where k: "key = Buf k" "k \<noteq> []" using str(1,3) by (cases key) auto
    have new: "k \<notin> keys_of keys" and keys': "keys_of keys' = insert k (keys_of keys)"
      using "3.prems"(1) oks(2,3) a by (auto simp: key_set_laws_def k)
    have g: "grows L st st1 0 (length k + 1)"
      using str(5-7) by (simp add: grows_def k)
    have s1: "node_sound (utf8_valid E) M L (Suc (unat (max_depth L)) - depth) (entry_value_addr p i) st1 st2"
      using "3.IH"(1) [OF False key_def s [symmetric] refl _ oks(2) refl a [symmetric] _ "3.prems"(1,2) str(5)]
        n oks by simp
    then have "vs_ok L st2" by (auto simp: node_sound_def grows_def)
    with "3.IH"(2) [OF False key_def s [symmetric] refl _ oks(2) refl a [symmetric] _ refl n [symmetric] _ "3.prems"(1,2) _ r] oks
    have "entries_sound (utf8_valid E) M L (Suc (unat (max_depth L)) - depth) p [Suc i..<count]
        (insert k (keys_of keys)) st2 st'" by (simp add: keys')
    from entries_sound_Cons [OF k(1) [unfolded key_def] k(2) _ _ new g s1 this] str(2,4) False
    show ?thesis by (simp add: k upt_conv_Cons)
  qed
qed

lemma foldr_max_le: "(\<And>x. x \<in> set xs \<Longrightarrow> f x \<le> n) \<Longrightarrow> foldr (\<lambda>x. max (f x)) xs 0 \<le> (n :: nat)"
  by (induction xs) auto

lemma those_Some_set: "those xs = Some ys \<Longrightarrow> y \<in> set ys \<Longrightarrow> Some y \<in> set xs"
  by (induction xs arbitrary: ys) (auto split: option.splits)

lemma tree_of_depth: "tree_of f M p = Some t \<Longrightarrow> tdepth t \<le> f"
proof (induction f arbitrary: p t)
  case 0
  then show ?case by simp
next
  case (Suc f)
  have arr: "foldr (\<lambda>t. max (tdepth t)) ts 0 \<le> f"
    if "those (map (\<lambda>i. tree_of f M (item_addr q i)) is) = Some ts" for ts q "is"
    using those_Some_set [OF that] Suc.IH by (force intro!: foldr_max_le)
  have rec: "foldr (\<lambda>e. max (tdepth (snd e))) es 0 \<le> f"
    if "those (map (\<lambda>i. map_option (Pair (k i)) (tree_of f M (g i))) is) = Some es"
    for es k g "is"
  proof (rule foldr_max_le)
    fix e
    assume "e \<in> set es"
    from those_Some_set [OF that this] obtain i t' where "tree_of f M (g i) = Some t'" "snd e = t'"
      by (auto simp: eq_commute [of "Some e"])
    then show "tdepth (snd e) \<le> f" using Suc.IH by blast
  qed
  from Suc.prems arr rec show ?case
    by (auto split: if_splits view_as.splits)
qed

lemma views_sound:
  assumes laws: "key_set_laws E keys_of" and fits: "mem_fits M"
    and ok: "ts_host_validate_value_views E M (Some p) n (Some L) = STATUS_OK"
  shows "\<exists>ts. those (map (\<lambda>i. tree_of (unat (max_depth L)) M (item_addr p i)) [0..<unat n]) = Some ts \<and>
    (\<forall>t \<in> set ts. twf (utf8_valid E) t \<and> tdepth t \<le> unat (max_depth L)) \<and>
    (\<Sum>t\<leftarrow>ts. tnodes t) \<le> unat (max_nodes L) \<and> (\<Sum>t\<leftarrow>ts. tbytes t) \<le> unat (max_bytes L)"
proof -
  from ok obtain act st' where run: "ts_host_validate_items E M L
      \<lparr>vs_nodes = 0, vs_bytes = 0, vs_active = act\<rparr> p 0 (unat n) 1 = (STATUS_OK, st')"
    by (auto simp: ts_host_validate_value_views_def ts_host_validate_values_loop_def prod_eq_iff
        split: if_splits prod.splits)
  have "vs_ok L \<lparr>vs_nodes = 0, vs_bytes = 0, vs_active = act\<rparr>" by (simp add: vs_ok_def)
  from validate_sound(2) [OF laws fits this run] obtain ts
    where ts: "those (map (\<lambda>i. tree_of (unat (max_depth L)) M (item_addr p i)) [0..<unat n]) = Some ts"
      "\<forall>t \<in> set ts. twf (utf8_valid E) t"
      "grows L \<lparr>vs_nodes = 0, vs_bytes = 0, vs_active = act\<rparr> st' (\<Sum>t\<leftarrow>ts. tnodes t) (\<Sum>t\<leftarrow>ts. tbytes t)"
    by (auto simp: items_sound_def)
  have "\<forall>t \<in> set ts. tdepth t \<le> unat (max_depth L)"
    using those_Some_set [OF ts(1)] tree_of_depth by fastforce
  with ts show ?thesis by (auto simp: grows_def vs_ok_def)
qed

text \<open>
  C8: validation is sound.  If \<^verbatim>\<open>ts_host_validate_value_views\<close> accepts the argument views of the
  embedder, then every view denotes a finite tree (in particular nothing it reaches is cyclic) no
  deeper than the depth limit, whose booleans are 0 or 1, whose strings and record keys are valid
  UTF-8, whose record keys are non-empty, free of NUL bytes and pairwise distinct; and all the
  trees together have at most \<open>max_nodes\<close> nodes and \<open>max_bytes\<close> bytes.  The key set of the Salts
  library is assumed to remember what was added to it.
\<close>

theorem validated_views_are_bounded_trees:
  assumes laws: "key_set_laws E keys_of" and fits: "mem_fits M"
    and ok: "ts_host_validate_value_views E M (Some p) n (Some L) = STATUS_OK"
  shows "\<exists>ts. those (map (\<lambda>i. tree_of (unat (max_depth L)) M (item_addr p i)) [0..<unat n]) = Some ts \<and>
    (\<forall>t \<in> set ts. twf (utf8_valid E) t \<and> tdepth t \<le> unat (max_depth L)) \<and>
    (\<Sum>t\<leftarrow>ts. tnodes t) \<le> unat (max_nodes L) \<and> (\<Sum>t\<leftarrow>ts. tbytes t) \<le> unat (max_bytes L)"
  by (rule views_sound [OF assms])

section \<open>A concrete instance of the external services\<close>

definition ascii_valid :: "bytes \<Rightarrow> bool" where
  "ascii_valid bs \<longleftrightarrow> (\<forall>c \<in> set bs. of_char c < (128 :: nat))"

text \<open>Sets as lists; every operation succeeds.\<close>

definition list_salts :: "(addr list, bytes list) salts" where
  "list_salts =
     \<lparr> utf8_valid = ascii_valid,
       addr_set_init = (\<lambda>n. (STL_OK, [])),
       addr_set_contains = (\<lambda>s p. p \<in> set s),
       addr_set_add = (\<lambda>s p. (STL_OK, p # s)),
       addr_set_remove = (\<lambda>s p. (STL_OK, removeAll p s)),
       key_set_init = (\<lambda>h eq n. (STL_OK, [])),
       key_set_contains = (\<lambda>s k. buf_elems k \<in> set s),
       key_set_add = (\<lambda>s k. (STL_OK, buf_elems k # s)) \<rparr>"

lemma list_salts_laws: "key_set_laws list_salts set"
  by (simp add: key_set_laws_def list_salts_def)

text \<open>The record \<open>{"a": [true, "hi"]}\<close> laid out in memory at address 1000.\<close>

definition example_mem :: view_mem where
  "example_mem =
     \<lparr> vm_value =
         (\<lambda>p. \<lparr> vv_reserved = 0,
                vv_as = (if p = 1000 then VRecord (Some 2000) 1
                         else if p = 2016 then VArray (Some 3000) 2
                         else if p = 3000 then VBool 1
                         else if p = 3024 then VString (Buf ''hi'')
                         else VNull) \<rparr>),
       vm_key = (\<lambda>p. if p = 2000 then Buf ''a'' else NullBuf 0) \<rparr>"

definition example_limits :: value_limits where
  "example_limits = \<lparr> max_depth = 4, max_nodes = 16, max_bytes = 256 \<rparr>"

lemma example_mem_fits: "mem_fits example_mem"
  by (auto simp: mem_fits_def example_mem_def buf_fits_def split: if_splits)

lemma example_valid:
  "ts_host_validate_value_views list_salts example_mem (Some 1000) 1 (Some example_limits) = STATUS_OK"
  by (simp add: ts_host_validate_value_views_def ts_host_validate_values_loop_def
      ts_host_validate_items.simps ts_host_validate_node.simps ts_host_validate_entries.simps
      ts_host_validate_container_def ts_host_validate_string_def ts_host_charge_bytes_def Let_def
      list_salts_def example_mem_def example_limits_def item_addr_def entry_addr_def
      entry_value_addr_def ascii_valid_def)

theorem validated_views_are_bounded_trees_witness:
  "ts_host_validate_value_views list_salts example_mem (Some 1000) 1 (Some example_limits) = STATUS_OK \<and>
   (\<exists>t. tree_of 4 example_mem 1000 = Some t \<and> tdepth t \<le> 4 \<and> tnodes t \<le> 16 \<and> tbytes t \<le> 256)"
  using validated_views_are_bounded_trees [OF list_salts_laws example_mem_fits example_valid] example_valid
  by (auto simp: example_limits_def item_addr_def split: option.splits)

end
