(* ===== verification/Host_Copy.thy ===== *)
theory Host_Copy
  imports Host_Value
begin

text \<open>
  The deep copy of a value view into the arena of a result
  (\<^verbatim>\<open>ts_host_copy_string\<close> and \<^verbatim>\<open>ts_host_copy_view\<close> of
  \<^verbatim>\<open>turbo_script/src/host/turbo_script_host_result.c\<close>).

  The copy writes views into memory that the arena hands out.  The main result is that the copy
  denotes the same tree as the source and lies entirely in that new memory, so that the embedder's
  buffers may go away.
\<close>

section \<open>Arenas\<close>

text \<open>
  The memory pool of the Salts library: an array of views or entries gets an address, the bytes
  of a string do not need one (a string view carries its bytes).
\<close>

record 'p arena =
  mem_alloc_array :: "'p \<Rightarrow> size_t \<Rightarrow> size_t \<Rightarrow> addr option \<times> 'p"
  mem_alloc_bytes :: "'p \<Rightarrow> size_t \<Rightarrow> bool \<times> 'p"
  mem_reset :: "'p \<Rightarrow> 'p"

text \<open>
  What the sources rely on: an array that was allocated does not overlap anything allocated
  before, nor anything allocated later.  \<open>free_in\<close> is the set of addresses not handed out yet.
\<close>

definition arena_laws :: "'p arena \<Rightarrow> ('p \<Rightarrow> addr set) \<Rightarrow> bool" where
  "arena_laws A free_in \<longleftrightarrow>
     (\<forall>pool e n q pool'. mem_alloc_array A pool e n = (q, pool') \<longrightarrow>
        free_in pool' \<subseteq> free_in pool \<and>
        (\<forall>p. q = Some p \<longrightarrow>
           {p..<p + unat e * unat n} \<subseteq> free_in pool \<and>
           {p..<p + unat e * unat n} \<inter> free_in pool' = {})) \<and>
     (\<forall>pool n ok pool'. mem_alloc_bytes A pool n = (ok, pool') \<longrightarrow> free_in pool' \<subseteq> free_in pool)"

section \<open>The copy\<close>

definition ts_host_copy_string :: "'p arena \<Rightarrow> 'p \<Rightarrow> sview \<Rightarrow> sview option \<times> 'p" where
  "ts_host_copy_string A pool source =
     (let (ok, pool') = mem_alloc_bytes A pool (buf_size source + 1) in
      if ok then (Some (Buf (buf_elems source)), pool') else (None, pool'))"

text \<open>
  The loops over array items and record entries differ in the address of the value and in the key,
  which only an entry has: \<open>keyed\<close> tells them apart.
\<close>

definition elem_addr :: "bool \<Rightarrow> addr \<Rightarrow> nat \<Rightarrow> addr" where
  "elem_addr keyed p i = (if keyed then entry_value_addr p i else item_addr p i)"

definition ts_host_copy_key ::
  "'p arena \<Rightarrow> view_mem \<Rightarrow> 'p \<Rightarrow> bool \<Rightarrow> addr \<Rightarrow> addr \<Rightarrow> nat \<Rightarrow> status \<times> view_mem \<times> 'p" where
  "ts_host_copy_key A M pool keyed p q i =
     (if \<not> keyed then (STATUS_OK, M, pool)
      else
        (case ts_host_copy_string A pool (vm_key M (entry_addr p i)) of
           (None, pool') \<Rightarrow> (STATUS_OUT_OF_MEMORY, M, pool')
         | (Some k, pool') \<Rightarrow>
             (STATUS_OK, M\<lparr>vm_key := (vm_key M)(entry_addr q i := k)\<rparr>, pool')))"

definition write_view :: "view_mem \<Rightarrow> addr \<Rightarrow> value_view \<Rightarrow> view_mem" where
  "write_view M a v = M\<lparr>vm_value := (vm_value M)(a := v)\<rparr>"

text \<open>
  \<^verbatim>\<open>ts_host_copy_view\<close> returns the copied view, which the caller stores at its target.  The C
  function recurses without a bound of its own, on views that were validated before: here the
  fuel is the depth limit of that validation, and \<open>None\<close> would be running out of it.
\<close>

function (sequential) ts_host_copy_view ::
    "'p arena \<Rightarrow> nat \<Rightarrow> view_mem \<Rightarrow> 'p \<Rightarrow> value_view \<Rightarrow>
     (status \<times> value_view \<times> view_mem \<times> 'p) option"
  and ts_host_copy_elems ::
    "'p arena \<Rightarrow> nat \<Rightarrow> view_mem \<Rightarrow> 'p \<Rightarrow> bool \<Rightarrow> addr \<Rightarrow> addr \<Rightarrow> nat list \<Rightarrow>
     (status \<times> view_mem \<times> 'p) option"
  where
  "ts_host_copy_view A 0 M pool source = None"
| "ts_host_copy_view A (Suc f) M pool source =
     (case vv_as source of
        VString s \<Rightarrow>
          (case ts_host_copy_string A pool s of
             (None, pool') \<Rightarrow> Some (STATUS_OUT_OF_MEMORY, source, M, pool')
           | (Some s', pool') \<Rightarrow> Some (STATUS_OK, source\<lparr>vv_as := VString s'\<rparr>, M, pool'))
      | VArray items n \<Rightarrow>
          if n = 0 then Some (STATUS_OK, source\<lparr>vv_as := VArray None n\<rparr>, M, pool)
          else
            (case mem_alloc_array A pool 24 n of
               (None, pool') \<Rightarrow> Some (STATUS_OUT_OF_MEMORY, source, M, pool')
             | (Some q, pool') \<Rightarrow>
                 (case ts_host_copy_elems A f M pool' False (the items) q [0..<unat n] of
                    None \<Rightarrow> None
                  | Some (s, M', pool'') \<Rightarrow>
                      if s \<noteq> STATUS_OK then Some (s, source, M', pool'')
                      else Some (STATUS_OK, source\<lparr>vv_as := VArray (Some q) n\<rparr>, M', pool'')))
      | VRecord entries n \<Rightarrow>
          if n = 0 then Some (STATUS_OK, source\<lparr>vv_as := VRecord None n\<rparr>, M, pool)
          else
            (case mem_alloc_array A pool 40 n of
               (None, pool') \<Rightarrow> Some (STATUS_OUT_OF_MEMORY, source, M, pool')
             | (Some q, pool') \<Rightarrow>
                 (case ts_host_copy_elems A f M pool' True (the entries) q [0..<unat n] of
                    None \<Rightarrow> None
                  | Some (s, M', pool'') \<Rightarrow>
                      if s \<noteq> STATUS_OK then Some (s, source, M', pool'')
                      else Some (STATUS_OK, source\<lparr>vv_as := VRecord (Some q) n\<rparr>, M', pool'')))
      | _ \<Rightarrow> Some (STATUS_OK, source, M, pool))"
| "ts_host_copy_elems A f M pool keyed p q [] = Some (STATUS_OK, M, pool)"
| "ts_host_copy_elems A f M pool keyed p q (i # is) =
     (case ts_host_copy_key A M pool keyed p q i of
        (s, M1, pool1) \<Rightarrow>
          if s \<noteq> STATUS_OK then Some (s, M1, pool1)
          else
            (case ts_host_copy_view A f M1 pool1 (vm_value M1 (elem_addr keyed p i)) of
               None \<Rightarrow> None
             | Some (s, v, M2, pool2) \<Rightarrow>
                 if s \<noteq> STATUS_OK then Some (s, M2, pool2)
                 else ts_host_copy_elems A f (write_view M2 (elem_addr keyed q i) v) pool2 keyed p q is))"

  by pat_completeness auto
termination
  by (relation "measures
       [\<lambda>x. case x of
            Inl (A, f, M, pool, v) \<Rightarrow> f
          | Inr (A, f, M, pool, keyed, p, q, is) \<Rightarrow> f,
        \<lambda>x. case x of
            Inl (A, f, M, pool, v) \<Rightarrow> 0
          | Inr (A, f, M, pool, keyed, p, q, is) \<Rightarrow> Suc (length is)]")
    simp_all

declare ts_host_copy_view.simps(2) [simp del]

section \<open>The tree of a view and the memory it occupies\<close>

text \<open>The tree of a view that is at hand (not yet stored), and the addresses it depends on.\<close>

fun tree_at :: "nat \<Rightarrow> view_mem \<Rightarrow> value_view \<Rightarrow> tree option" where
  "tree_at 0 M v = None"
| "tree_at (Suc f) M v =
     (if vv_reserved v \<noteq> 0 then None else
      case vv_as v of
        VNull \<Rightarrow> Some TNull
      | VBool b \<Rightarrow> Some (TBool b)
      | VInt64 i \<Rightarrow> Some (TInt i)
      | VNumber d \<Rightarrow> Some (TNum d)
      | VString s \<Rightarrow> if buf_broken s then None else Some (TStr (buf_elems s))
      | VArray items n \<Rightarrow>
          if items = None \<and> n \<noteq> 0 then None
          else map_option TArr
                 (those (map (\<lambda>i. tree_at f M (vm_value M (item_addr (the items) i))) [0..<unat n]))
      | VRecord entries n \<Rightarrow>
          if entries = None \<and> n \<noteq> 0 then None
          else map_option TRec
                 (those (map (\<lambda>i. map_option
                                   (Pair (buf_elems (vm_key M (entry_addr (the entries) i))))
                                   (tree_at f M (vm_value M (entry_value_addr (the entries) i))))
                           [0..<unat n]))
      | VOther k \<Rightarrow> None)"

lemma tree_of_tree_at: "tree_of f M p = tree_at f M (vm_value M p)"
  by (induction f arbitrary: p) (auto split: view_as.split)

fun reach :: "nat \<Rightarrow> view_mem \<Rightarrow> value_view \<Rightarrow> addr set" where
  "reach 0 M v = {}"
| "reach (Suc f) M v =
     (case vv_as v of
        VArray items n \<Rightarrow>
          (\<Union>i<unat n. insert (item_addr (the items) i)
                         (reach f M (vm_value M (item_addr (the items) i))))
      | VRecord entries n \<Rightarrow>
          (\<Union>i<unat n. {entry_addr (the entries) i, entry_value_addr (the entries) i} \<union>
                         reach f M (vm_value M (entry_value_addr (the entries) i)))
      | _ \<Rightarrow> {})"

definition agree :: "addr set \<Rightarrow> view_mem \<Rightarrow> view_mem \<Rightarrow> bool" where
  "agree S M M' \<longleftrightarrow> (\<forall>a \<in> S. vm_value M' a = vm_value M a \<and> vm_key M' a = vm_key M a)"

lemma agree_refl [simp]: "agree S M M"
  by (simp add: agree_def)

lemma agree_trans: "agree S M M1 \<Longrightarrow> agree S M1 M2 \<Longrightarrow> agree S M M2"
  by (simp add: agree_def)

lemma agree_subset: "agree S M M' \<Longrightarrow> T \<subseteq> S \<Longrightarrow> agree T M M'"
  by (auto simp: agree_def)

lemma tree_at_agree:
  "agree (reach f M v) M M' \<Longrightarrow> tree_at f M' v = tree_at f M v \<and> reach f M' v = reach f M v"
proof (induction f arbitrary: v)
  case 0
  then show ?case by simp
next
  case (Suc f)
  show ?case
  proof (cases "vv_as v")
    case (VArray items n)
    have "vm_value M' (item_addr (the items) i) = vm_value M (item_addr (the items) i) \<and>
        tree_at f M' (vm_value M (item_addr (the items) i)) = tree_at f M (vm_value M (item_addr (the items) i)) \<and>
        reach f M' (vm_value M (item_addr (the items) i)) = reach f M (vm_value M (item_addr (the items) i))"
      if "i < unat n" for i
      using Suc.prems that VArray by (auto simp: agree_def intro!: Suc.IH)
    then have "map (\<lambda>i. tree_at f M' (vm_value M' (item_addr (the items) i))) [0..<unat n] =
        map (\<lambda>i. tree_at f M (vm_value M (item_addr (the items) i))) [0..<unat n]"
      "reach (Suc f) M' v = reach (Suc f) M v"
      using VArray by (simp_all cong: map_cong SUP_cong_simp)
    with VArray show ?thesis by (simp del: map_eq_conv)
  next
    case (VRecord es n)
    have "vm_value M' (entry_value_addr (the es) i) = vm_value M (entry_value_addr (the es) i) \<and>
        vm_key M' (entry_addr (the es) i) = vm_key M (entry_addr (the es) i) \<and>
        tree_at f M' (vm_value M (entry_value_addr (the es) i)) = tree_at f M (vm_value M (entry_value_addr (the es) i)) \<and>
        reach f M' (vm_value M (entry_value_addr (the es) i)) = reach f M (vm_value M (entry_value_addr (the es) i))"
      if "i < unat n" for i
      using Suc.prems that VRecord by (auto simp: agree_def intro!: Suc.IH)
    then have "map (\<lambda>i. map_option (Pair (buf_elems (vm_key M' (entry_addr (the es) i))))
          (tree_at f M' (vm_value M' (entry_value_addr (the es) i)))) [0..<unat n] =
        map (\<lambda>i. map_option (Pair (buf_elems (vm_key M (entry_addr (the es) i))))
          (tree_at f M (vm_value M (entry_value_addr (the es) i)))) [0..<unat n]"
      "reach (Suc f) M' v = reach (Suc f) M v"
      using VRecord by (simp_all cong: map_cong SUP_cong_simp)
    with VRecord show ?thesis by (simp del: map_eq_conv)
  qed simp_all
qed

section \<open>Correctness of the copy\<close>

definition view_copied ::
  "('p \<Rightarrow> addr set) \<Rightarrow> nat \<Rightarrow> view_mem \<Rightarrow> 'p \<Rightarrow> tree \<Rightarrow>
   (status \<times> value_view \<times> view_mem \<times> 'p) option \<Rightarrow> bool" where
  "view_copied free_in f M pool t r \<longleftrightarrow>
     (\<exists>s v' M' pool'. r = Some (s, v', M', pool') \<and> s \<in> {STATUS_OK, STATUS_OUT_OF_MEMORY} \<and>
        free_in pool' \<subseteq> free_in pool \<and> agree (- free_in pool) M M' \<and>
        (s = STATUS_OK \<longrightarrow>
           tree_at f M' v' = Some t \<and> reach f M' v' \<subseteq> free_in pool - free_in pool'))"

lemma view_copied_Some:
  "view_copied free_in f M pool t (Some (s, v', M', pool')) \<longleftrightarrow>
     s \<in> {STATUS_OK, STATUS_OUT_OF_MEMORY} \<and>
     free_in pool' \<subseteq> free_in pool \<and> agree (- free_in pool) M M' \<and>
     (s = STATUS_OK \<longrightarrow> tree_at f M' v' = Some t \<and> reach f M' v' \<subseteq> free_in pool - free_in pool')"
  by (simp add: view_copied_def)

text \<open>The addresses outside \<open>F\<close> that a loop with the target slots of \<open>is\<close> leaves alone.\<close>

definition loop_frame :: "addr set \<Rightarrow> bool \<Rightarrow> addr \<Rightarrow> nat list \<Rightarrow> view_mem \<Rightarrow> view_mem \<Rightarrow> bool" where
  "loop_frame F keyed q is M M' \<longleftrightarrow>
     (\<forall>a. a \<notin> F \<longrightarrow> a \<notin> elem_addr keyed q ` set is \<longrightarrow> vm_value M' a = vm_value M a) \<and>
     (\<forall>a. a \<notin> F \<longrightarrow> keyed \<and> a \<in> entry_addr q ` set is \<or> vm_key M' a = vm_key M a)"

definition elem_copied ::
  "addr set \<Rightarrow> addr set \<Rightarrow> nat \<Rightarrow> bool \<Rightarrow> addr \<Rightarrow> addr \<Rightarrow> view_mem \<Rightarrow> view_mem \<Rightarrow> tree \<Rightarrow> nat \<Rightarrow> bool"
  where
  "elem_copied F F' f keyed p q M M' t i \<longleftrightarrow>
     tree_at f M' (vm_value M' (elem_addr keyed q i)) = Some t \<and>
     reach f M' (vm_value M' (elem_addr keyed q i)) \<subseteq> F - F' \<and>
     (keyed \<longrightarrow> buf_elems (vm_key M' (entry_addr q i)) = buf_elems (vm_key M (entry_addr p i)))"

definition elems_copied ::
  "('p \<Rightarrow> addr set) \<Rightarrow> nat \<Rightarrow> view_mem \<Rightarrow> 'p \<Rightarrow> bool \<Rightarrow> addr \<Rightarrow> addr \<Rightarrow> nat list \<Rightarrow> (nat \<Rightarrow> tree) \<Rightarrow>
   (status \<times> view_mem \<times> 'p) option \<Rightarrow> bool" where
  "elems_copied free_in f M pool keyed p q is ts r \<longleftrightarrow>
     (\<exists>s M' pool'. r = Some (s, M', pool') \<and> s \<in> {STATUS_OK, STATUS_OUT_OF_MEMORY} \<and>
        free_in pool' \<subseteq> free_in pool \<and> loop_frame (free_in pool) keyed q is M M' \<and>
        (s = STATUS_OK \<longrightarrow>
           (\<forall>i \<in> set is. elem_copied (free_in pool) (free_in pool') f keyed p q M M' (ts i) i)))"

text \<open>A source element: its tree, and that it lies outside the free memory and the targets \<open>Q\<close>.\<close>

definition elem_source ::
  "addr set \<Rightarrow> nat \<Rightarrow> view_mem \<Rightarrow> bool \<Rightarrow> addr \<Rightarrow> tree \<Rightarrow> nat \<Rightarrow> bool" where
  "elem_source S f M keyed p t i \<longleftrightarrow>
     tree_at f M (vm_value M (elem_addr keyed p i)) = Some t \<and> elem_addr keyed p i \<notin> S \<and>
     (keyed \<longrightarrow> entry_addr p i \<notin> S) \<and> reach f M (vm_value M (elem_addr keyed p i)) \<inter> S = {}"

lemma elem_source_agree:
  assumes "elem_source S f M keyed p t i" and "agree (- S) M M'"
  shows "elem_source S f M' keyed p t i" and "keyed \<Longrightarrow> vm_key M' (entry_addr p i) = vm_key M (entry_addr p i)"
proof -
  have v: "vm_value M' (elem_addr keyed p i) = vm_value M (elem_addr keyed p i)"
    using assms by (simp add: elem_source_def agree_def)
  have "agree (reach f M (vm_value M (elem_addr keyed p i))) M M'"
    using assms by (auto simp: elem_source_def intro: agree_subset [OF assms(2)])
  from tree_at_agree [OF this] v assms(1) show "elem_source S f M' keyed p t i"
    by (simp add: elem_source_def)
  show "keyed \<Longrightarrow> vm_key M' (entry_addr p i) = vm_key M (entry_addr p i)"
    using assms by (simp add: elem_source_def agree_def)
qed

lemma elem_source_smaller: "elem_source S f M keyed p t i \<Longrightarrow> T \<subseteq> S \<Longrightarrow> elem_source T f M keyed p t i"
  by (auto simp: elem_source_def)

lemma elem_addr_inj: "elem_addr keyed q i = elem_addr keyed q j \<longleftrightarrow> i = j"
  by (auto simp: elem_addr_def item_addr_def entry_value_addr_def entry_addr_def)

lemma entry_addr_inj: "entry_addr q i = entry_addr q j \<longleftrightarrow> i = j"
  by (auto simp: entry_addr_def)

lemma copy_string_ok:
  assumes "arena_laws A free_in" and "ts_host_copy_string A pool v = (r, pool')"
  shows "free_in pool' \<subseteq> free_in pool \<and> (\<forall>v'. r = Some v' \<longrightarrow> v' = Buf (buf_elems v))"
  using assms unfolding arena_laws_def ts_host_copy_string_def Let_def
  by (auto split: prod.splits if_splits)

lemma copy_key_ok:
  assumes "arena_laws A free_in" and "ts_host_copy_key A M pool keyed p q i = (s, M', pool')"
  shows "free_in pool' \<subseteq> free_in pool \<and> s \<in> {STATUS_OK, STATUS_OUT_OF_MEMORY} \<and>
    loop_frame (free_in pool) keyed q [i] M M' \<and> vm_value M' = vm_value M \<and>
    (s = STATUS_OK \<longrightarrow> keyed \<longrightarrow>
       buf_elems (vm_key M' (entry_addr q i)) = buf_elems (vm_key M (entry_addr p i)))"
  using assms copy_string_ok [OF assms(1), of pool "vm_key M (entry_addr p i)"]
  by (auto simp: ts_host_copy_key_def loop_frame_def split: if_splits option.splits prod.splits)

lemma loop_frame_agree:
  "loop_frame F keyed q is M M' \<Longrightarrow> \<forall>i \<in> set is. elem_addr keyed q i \<in> Q \<and> (keyed \<longrightarrow> entry_addr q i \<in> Q) \<Longrightarrow>
   agree (- (F \<union> Q)) M M'"
  by (auto simp: loop_frame_def agree_def)

lemma loop_frame_trans:
  assumes "loop_frame F keyed q is M M1" and "loop_frame F1 keyed q js M1 M2"
    and "F1 \<subseteq> F" and "set is \<subseteq> set ks" and "set js \<subseteq> set ks"
  shows "loop_frame F keyed q ks M M2"
  using assms unfolding loop_frame_def by (metis image_mono subsetD)

lemma agree_loop_frame: "agree (- F) M M' \<Longrightarrow> loop_frame F keyed q is M M'"
  by (simp add: agree_def loop_frame_def)

lemma write_loop_frame: "i \<in> set is \<Longrightarrow> loop_frame F keyed q is M (write_view M (elem_addr keyed q i) v)"
  by (auto simp: loop_frame_def write_view_def)

text \<open>
  A slot that a loop has filled keeps its view, with the same tree, while the loop fills the slots
  after it.
\<close>

lemma slot_filled:
  assumes rest: "loop_frame F2 keyed q is (write_view M2 (elem_addr keyed q i) v) M'"
    and slots: "\<forall>j \<in> set (i # is). elem_addr keyed q j \<in> Q \<and> (keyed \<longrightarrow> entry_addr q j \<in> Q)"
    and Q: "Q \<inter> F1 = {}" and new: "i \<notin> set is"
    and v: "reach f M2 v \<subseteq> F1 - F2" and F2: "F2 \<subseteq> F1"
  shows "vm_value M' (elem_addr keyed q i) = v" "tree_at f M' v = tree_at f M2 v"
    "reach f M' v = reach f M2 v"
    "keyed \<Longrightarrow> vm_key M' (entry_addr q i) = vm_key M2 (entry_addr q i)"
proof -
  have out: "elem_addr keyed q i \<notin> F2" "keyed \<Longrightarrow> entry_addr q i \<notin> F2" using slots Q F2 by auto
  have "elem_addr keyed q i \<notin> elem_addr keyed q ` set is" "entry_addr q i \<notin> entry_addr q ` set is"
    using new by (auto simp: elem_addr_inj entry_addr_inj)
  with rest out show "vm_value M' (elem_addr keyed q i) = v"
    "keyed \<Longrightarrow> vm_key M' (entry_addr q i) = vm_key M2 (entry_addr q i)"
    by (auto simp: loop_frame_def write_view_def)
  have "agree (reach f M2 v) M2 (write_view M2 (elem_addr keyed q i) v)"
    using v slots Q by (auto simp: agree_def write_view_def)
  moreover have "agree (reach f M2 v) (write_view M2 (elem_addr keyed q i) v) M'"
    by (rule agree_subset [OF loop_frame_agree [OF rest, of Q]]) (use slots v Q in auto)
  ultimately have "agree (reach f M2 v) M2 M'" by (rule agree_trans)
  then show "tree_at f M' v = tree_at f M2 v" "reach f M' v = reach f M2 v"
    by (simp_all add: tree_at_agree)
qed

lemma copy_elems_ok:
  assumes laws: "arena_laws A free_in"
    and IH: "\<And>M pool v t. tree_at f M v = Some t \<Longrightarrow> reach f M v \<inter> free_in pool = {} \<Longrightarrow>
      view_copied free_in f M pool t (ts_host_copy_view A f M pool v)"
    and slots: "\<And>i. i < n \<Longrightarrow> elem_addr keyed q i \<in> Q \<and> (keyed \<longrightarrow> entry_addr q i \<in> Q)"
  shows "distinct is \<Longrightarrow> \<forall>i \<in> set is. i < n \<and> elem_source (free_in pool \<union> Q) f M keyed p (ts i) i \<Longrightarrow>
    Q \<inter> free_in pool = {} \<Longrightarrow>
    elems_copied free_in f M pool keyed p q is ts (ts_host_copy_elems A f M pool keyed p q is)"
proof (induction "is" arbitrary: M pool)
  case Nil
  then show ?case by (simp add: elems_copied_def loop_frame_def)
next
  case (Cons i "is")
  obtain s M1 pool1 where key: "ts_host_copy_key A M pool keyed p q i = (s, M1, pool1)"
    by (metis prod_cases3)
  note k = copy_key_ok [OF laws key]
  let ?F = "free_in pool" and ?F1 = "free_in pool1"
  show ?case
  proof (cases "s = STATUS_OK")
    case False
    with k show ?thesis by (auto simp: elems_copied_def key loop_frame_def)
  next
    case True
    have i: "i < n" "elem_source (?F \<union> Q) f M keyed p (ts i) i" using Cons.prems(2) by auto
    have a1: "agree (- (?F \<union> Q)) M M1"
      using k loop_frame_agree [of ?F keyed q "[i]" M M1 Q] slots [OF i(1)] by auto
    have src1: "elem_source (?F1 \<union> Q) f M1 keyed p (ts i) i"
      using elem_source_smaller [OF elem_source_agree(1) [OF i(2) a1]] k by blast
    then obtain s2 v2 M2 pool2 where cv: "ts_host_copy_view A f M1 pool1 (vm_value M1 (elem_addr keyed p i))
          = Some (s2, v2, M2, pool2)" "s2 \<in> {STATUS_OK, STATUS_OUT_OF_MEMORY}" "free_in pool2 \<subseteq> ?F1"
        "agree (- ?F1) M1 M2"
        "s2 = STATUS_OK \<Longrightarrow> tree_at f M2 v2 = Some (ts i) \<and> reach f M2 v2 \<subseteq> ?F1 - free_in pool2"
      using IH [of M1 "vm_value M1 (elem_addr keyed p i)" "ts i" pool1]
      unfolding elem_source_def view_copied_def by blast
    let ?F2 = "free_in pool2" and ?M3 = "write_view M2 (elem_addr keyed q i) v2"
    have f2: "?F2 \<subseteq> ?F" using cv(3) k by blast
    have fr2: "loop_frame ?F keyed q [i] M M2"
      using loop_frame_trans [where ks = "[i]", OF _ agree_loop_frame [where ?is = "[i]", OF cv(4)]] k by auto
    have fr3: "loop_frame ?F keyed q [i] M ?M3"
      using loop_frame_trans [where ks = "[i]", OF fr2 write_loop_frame [where ?is = "[i]"]] by auto
    show ?thesis
    proof (cases "s2 = STATUS_OK")
      case False
      with cv(1,2) k True f2 fr2 show ?thesis
        by (auto simp: elems_copied_def key loop_frame_def)
    next
      case ok2: True
      note c2 = cv(5) [OF ok2]
      have a3: "agree (- (?F \<union> Q)) M ?M3"
        using loop_frame_agree [OF fr3] slots [OF i(1)] by auto
      have rest_src: "\<forall>j \<in> set is. j < n \<and> elem_source (?F2 \<union> Q) f ?M3 keyed p (ts j) j"
        using Cons.prems(2) elem_source_smaller [OF elem_source_agree(1) [OF _ a3], of f keyed p _ _ "?F2 \<union> Q"] f2
        by auto
      have Q: "Q \<inter> ?F2 = {}" using Cons.prems(3) f2 by blast
      from Cons.IH [OF _ rest_src Q] Cons.prems(1) obtain s' M' pool' where
        rest: "ts_host_copy_elems A f ?M3 pool2 keyed p q is = Some (s', M', pool')"
          "s' \<in> {STATUS_OK, STATUS_OUT_OF_MEMORY}" "free_in pool' \<subseteq> ?F2" "loop_frame ?F2 keyed q is ?M3 M'"
          "s' = STATUS_OK \<Longrightarrow> \<forall>j \<in> set is. elem_copied ?F2 (free_in pool') f keyed p q ?M3 M' (ts j) j"
        unfolding elems_copied_def by auto
      have fr: "loop_frame ?F keyed q (i # is) M M'"
        by (rule loop_frame_trans [OF fr3 rest(4) f2]) auto
      have here: "elem_copied ?F (free_in pool') f keyed p q M M' (ts i) i"
      proof -
        have sl: "\<forall>j \<in> set (i # is). elem_addr keyed q j \<in> Q \<and> (keyed \<longrightarrow> entry_addr q j \<in> Q)"
          using slots Cons.prems(2) by auto
        have "Q \<inter> ?F1 = {}" "i \<notin> set is" using Cons.prems(1,3) k by auto
        note filled = slot_filled [OF rest(4) sl this conjunct2 [OF c2] cv(3)]
        have "keyed \<Longrightarrow> vm_key M2 (entry_addr q i) = vm_key M1 (entry_addr q i)"
          using cv(4) slots [OF i(1)] \<open>Q \<inter> ?F1 = {}\<close> by (auto simp: agree_def)
        with filled c2 k True f2 rest(3) show ?thesis by (auto simp: elem_copied_def)
      qed
      have there: "elem_copied ?F (free_in pool') f keyed p q M M' (ts j) j" if "s' = STATUS_OK" "j \<in> set is" for j
      proof -
        have "elem_copied ?F2 (free_in pool') f keyed p q ?M3 M' (ts j) j" using rest(5) that by blast
        moreover have "keyed \<Longrightarrow> vm_key ?M3 (entry_addr p j) = vm_key M (entry_addr p j)"
          using elem_source_agree(2) [OF _ a3] Cons.prems(2) that(2) by auto
        ultimately show ?thesis using f2 by (auto simp: elem_copied_def)
      qed
      show ?thesis using key True cv(1) ok2 rest(1-3) f2 fr here there
        by (auto simp: elems_copied_def)
    qed
  qed
qed

lemma alloc_array_ok:
  assumes "arena_laws A free_in" and "mem_alloc_array A pool e n = (r, pool')"
  shows "free_in pool' \<subseteq> free_in pool"
    and "r = Some q \<Longrightarrow> {q..<q + unat e * unat n} \<subseteq> free_in pool \<and> {q..<q + unat e * unat n} \<inter> free_in pool' = {}"
  using assms by (auto simp: arena_laws_def)

lemma those_map_Some:
  "those (map g is) = Some ts \<longleftrightarrow> length ts = length is \<and> (\<forall>k < length is. g (is ! k) = Some (ts ! k))"
proof (induction "is" arbitrary: ts)
  case (Cons i "is")
  then show ?case
    by (cases ts) (auto simp: less_Suc_eq_0_disj split: option.splits)
qed auto

text \<open>
  The two container kinds in one: the elements are copied to a new array \<open>q\<close> of \<open>n\<close> slots of
  \<open>e\<close> bytes.
\<close>

lemma copy_container_ok:
  assumes laws: "arena_laws A free_in"
    and IH: "\<And>M pool v t. tree_at f M v = Some t \<Longrightarrow> reach f M v \<inter> free_in pool = {} \<Longrightarrow>
      view_copied free_in f M pool t (ts_host_copy_view A f M pool v)"
    and e: "e = (if keyed then 40 else 24)"
    and src: "\<And>i. i < unat n \<Longrightarrow> elem_source (free_in pool) f M keyed p (ts i) i"
    and al: "mem_alloc_array A pool e n = (Some q, pool1)"
  shows "\<exists>s M' pool'. ts_host_copy_elems A f M pool1 keyed p q [0..<unat n] = Some (s, M', pool') \<and>
    s \<in> {STATUS_OK, STATUS_OUT_OF_MEMORY} \<and> free_in pool' \<subseteq> free_in pool \<and> agree (- free_in pool) M M' \<and>
    (s = STATUS_OK \<longrightarrow> (\<forall>i < unat n. elem_copied (free_in pool) (free_in pool') f keyed p q M M' (ts i) i \<and>
       elem_addr keyed q i \<in> free_in pool - free_in pool' \<and>
       (keyed \<longrightarrow> entry_addr q i \<in> free_in pool - free_in pool')))"
proof -
  let ?Q = "{q..<q + unat e * unat n}"
  note fresh = alloc_array_ok(1) [OF laws al] alloc_array_ok(2) [OF laws al refl]
  have slots: "elem_addr keyed q i \<in> ?Q \<and> (keyed \<longrightarrow> entry_addr q i \<in> ?Q)" if "i < unat n" for i
    using that e by (auto simp: elem_addr_def item_addr_def entry_value_addr_def entry_addr_def)
  have "elem_source (free_in pool1 \<union> ?Q) f M keyed p (ts i) i" if "i < unat n" for i
    by (rule elem_source_smaller [OF src [OF that]]) (use fresh in auto)
  with copy_elems_ok [where n = "unat n", OF laws IH slots, where ?is = "[0..<unat n]" and pool = pool1 and M = M and p = p
      and ts = ts] fresh(2)
  obtain s M' pool' where loop: "ts_host_copy_elems A f M pool1 keyed p q [0..<unat n] = Some (s, M', pool')"
    "s \<in> {STATUS_OK, STATUS_OUT_OF_MEMORY}" "free_in pool' \<subseteq> free_in pool1"
    "loop_frame (free_in pool1) keyed q [0..<unat n] M M'"
    "s = STATUS_OK \<Longrightarrow> \<forall>i < unat n. elem_copied (free_in pool1) (free_in pool') f keyed p q M M' (ts i) i"
    unfolding elems_copied_def by auto
  have "agree (- free_in pool) M M'"
    by (rule agree_subset [OF loop_frame_agree [OF loop(4), of ?Q]]) (use slots fresh in auto)
  moreover have "elem_copied (free_in pool) (free_in pool') f keyed p q M M' (ts i) i"
    if "s = STATUS_OK" "i < unat n" for i
    using loop(5) that fresh(1) by (auto simp: elem_copied_def)
  moreover have "elem_addr keyed q i \<in> free_in pool - free_in pool' \<and>
      (keyed \<longrightarrow> entry_addr q i \<in> free_in pool - free_in pool')" if "i < unat n" for i
    using slots [OF that] fresh(2) loop(3) by blast
  ultimately show ?thesis using loop(1-3) fresh(1) by blast
qed

lemma copy_view_ok:
  assumes "arena_laws A free_in"
  shows "tree_at f M v = Some t \<Longrightarrow> reach f M v \<inter> free_in pool = {} \<Longrightarrow>
    view_copied free_in f M pool t (ts_host_copy_view A f M pool v)"
proof (induction f arbitrary: M pool v t)
  case 0
  then show ?case by simp
next
  case (Suc f)
  note unf = ts_host_copy_view.simps(2)
  show ?case
  proof (cases "vv_as v")
    case (VString s)
    obtain r pool' where "ts_host_copy_string A pool s = (r, pool')"
      by (cases "ts_host_copy_string A pool s") auto
    with Suc.prems VString copy_string_ok [OF assms this] show ?thesis
      by (auto simp: unf view_copied_Some split: if_splits option.splits)
  next
    case (VArray items n)
    show ?thesis
    proof (cases "n = 0")
      case True
      with VArray Suc.prems show ?thesis by (auto simp: unf view_copied_Some split: if_splits)
    next
      case False
      obtain r pool1 where al: "mem_alloc_array A pool 24 n = (r, pool1)"
        by (cases "mem_alloc_array A pool 24 n") auto
      from Suc.prems(1) VArray obtain ts where t: "vv_reserved v = 0" "items \<noteq> None" "t = TArr ts"
        and ts: "those (map (\<lambda>i. tree_at f M (vm_value M (item_addr (the items) i))) [0..<unat n]) = Some ts"
        using False by (auto split: if_splits)
      have src: "elem_source (free_in pool) f M False (the items) (ts ! i) i" if "i < unat n" for i
        using Suc.prems(2) that ts VArray by (auto simp: elem_source_def elem_addr_def those_map_Some)
      show ?thesis
      proof (cases r)
        case None
        with al VArray False alloc_array_ok(1) [OF assms al] show ?thesis
          by (simp add: unf view_copied_Some)
      next
        case (Some q)
        from copy_container_ok [OF assms Suc.IH _ src al [unfolded Some]] obtain s M' pool'
          where loop: "ts_host_copy_elems A f M pool1 False (the items) q [0..<unat n] = Some (s, M', pool')"
            "s \<in> {STATUS_OK, STATUS_OUT_OF_MEMORY}" "free_in pool' \<subseteq> free_in pool" "agree (- free_in pool) M M'"
            "s = STATUS_OK \<Longrightarrow> \<forall>i < unat n. elem_copied (free_in pool) (free_in pool') f False (the items) q M M' (ts ! i) i \<and>
               elem_addr False q i \<in> free_in pool - free_in pool'" by auto
        have "tree_at (Suc f) M' (v\<lparr>vv_as := VArray (Some q) n\<rparr>) = Some t \<and>
            reach (Suc f) M' (v\<lparr>vv_as := VArray (Some q) n\<rparr>) \<subseteq> free_in pool - free_in pool'"
          if "s = STATUS_OK"
          using loop(5) [OF that] t ts by (auto simp: elem_copied_def elem_addr_def those_map_Some)
        with loop(1-4) al Some VArray False show ?thesis by (auto simp: unf view_copied_Some)
      qed
    qed
  next
    case (VRecord items n)
    show ?thesis
    proof (cases "n = 0")
      case True
      with VRecord Suc.prems show ?thesis by (auto simp: unf view_copied_Some split: if_splits)
    next
      case False
      obtain r pool1 where al: "mem_alloc_array A pool 40 n = (r, pool1)"
        by (cases "mem_alloc_array A pool 40 n") auto
      from Suc.prems(1) VRecord obtain es where t: "vv_reserved v = 0" "items \<noteq> None" "t = TRec es"
        and es: "those (map (\<lambda>i. map_option (Pair (buf_elems (vm_key M (entry_addr (the items) i))))
            (tree_at f M (vm_value M (entry_value_addr (the items) i)))) [0..<unat n]) = Some es"
        using False by (auto split: if_splits)
      have ti: "tree_at f M (vm_value M (entry_value_addr (the items) i)) = Some (snd (es ! i)) \<and>
          fst (es ! i) = buf_elems (vm_key M (entry_addr (the items) i))" if "i < unat n" for i
        using that es by (cases "es ! i") (auto simp: those_map_Some)
      have src: "elem_source (free_in pool) f M True (the items) (snd (es ! i)) i" if "i < unat n" for i
        using Suc.prems(2) that ti [OF that] VRecord by (auto simp: elem_source_def elem_addr_def)
      show ?thesis
      proof (cases r)
        case None
        with al VRecord False alloc_array_ok(1) [OF assms al] show ?thesis
          by (simp add: unf view_copied_Some)
      next
        case (Some q)
        from copy_container_ok [OF assms Suc.IH _ src al [unfolded Some]] obtain s M' pool'
          where loop: "ts_host_copy_elems A f M pool1 True (the items) q [0..<unat n] = Some (s, M', pool')"
            "s \<in> {STATUS_OK, STATUS_OUT_OF_MEMORY}" "free_in pool' \<subseteq> free_in pool" "agree (- free_in pool) M M'"
            "s = STATUS_OK \<Longrightarrow> \<forall>i < unat n. elem_copied (free_in pool) (free_in pool') f True (the items) q M M' (snd (es ! i)) i \<and>
               elem_addr True q i \<in> free_in pool - free_in pool' \<and> entry_addr q i \<in> free_in pool - free_in pool'"
          by auto
        have "tree_at (Suc f) M' (v\<lparr>vv_as := VRecord (Some q) n\<rparr>) = Some t \<and>
            reach (Suc f) M' (v\<lparr>vv_as := VRecord (Some q) n\<rparr>) \<subseteq> free_in pool - free_in pool'"
          if "s = STATUS_OK"
          using loop(5) [OF that] t es ti by (auto simp: elem_copied_def elem_addr_def those_map_Some)
        with loop(1-4) al Some VRecord False show ?thesis by (auto simp: unf view_copied_Some)
      qed
    qed
  qed (use Suc.prems in \<open>auto simp: unf view_copied_Some split: if_splits\<close>)
qed

end
