(* ===== verification/Exprtk_Value.thy ===== *)
theory Exprtk_Value
  imports Host_Prelude
begin

text \<open>
  Script values and their ownership-crossing copies: \<^verbatim>\<open>exprtk/src/exprtk_value.c\<close> and
  \<^verbatim>\<open>exprtk/src/exprtk_map.c\<close>.

  A value is its type tag and payload.  The payload of a string, vector, list or map lives in a
  memory pool; the model keeps the identity of that pool, because copying a value into the pool
  that already holds it only retains it, and because the point of a copy is that the result no
  longer depends on the pool of the source.  Reference counts are not modelled: a retained or
  borrowed value is the same value.
\<close>

section \<open>Memory\<close>

type_synonym pool = nat

text \<open>
  Whether an allocation succeeds is decided by the environment: \<open>outcomes\<close> is the sequence of
  answers still to come, one for each call of \<^verbatim>\<open>malloc\<close>, \<^verbatim>\<open>mem_init\<close>,
  \<^verbatim>\<open>mem_get_buffer\<close>, \<^verbatim>\<open>mem_strdup\<close>, \<^verbatim>\<open>vec_reserve\<close> and so on.  \<open>next_pool\<close> is
  the identity the next new pool gets.
\<close>

record heap =
  outcomes :: "nat \<Rightarrow> bool"
  next_pool :: nat

definition alloc :: "heap \<Rightarrow> bool \<times> heap" where
  "alloc h = (outcomes h 0, h\<lparr>outcomes := \<lambda>n. outcomes h (Suc n)\<rparr>)"

fun alloc_all :: "nat \<Rightarrow> heap \<Rightarrow> bool \<times> heap" where
  "alloc_all 0 h = (True, h)"
| "alloc_all (Suc n) h = (let (ok, h') = alloc h in if ok then alloc_all n h' else (False, h'))"

definition new_pool :: "heap \<Rightarrow> pool \<times> heap" where
  "new_pool h = (next_pool h, h\<lparr>next_pool := Suc (next_pool h)\<rparr>)"

section \<open>Values\<close>

text \<open>
  \<^verbatim>\<open>exprtk_value_t\<close>.  The optional pools are \<^verbatim>\<open>storage\<close> and \<^verbatim>\<open>storage_aux\<close>, the
  \<^verbatim>\<open>value_pool\<close> of a list and the pool of a map's storage; a map without storage (\<^verbatim>\<open>htab\<close>
  null) is \<open>None\<close>.  The entries of a map are listed in the order in which iteration over the
  slots of its hash table finds them.  \<open>EOpaque\<close> stands for the tags whose payload is copied as it
  is (functions, coroutines, classes, instances, dates, decimals and the like).
\<close>

datatype seq_type = VAL_LIST | VAL_SET
datatype map_type = VAL_MAP | VAL_OBJECT
datatype enum_type = VAL_ENUM | VAL_FLAGS

datatype exprtk_value =
    ENull
  | EBool int
  | EInteger u64
  | ENumber u64
  | EString "pool option" sview
  | EBytes "pool option" sview
  | EBigint "pool option" sview
  | EEnum enum_type "pool option" "pool option" sview sview u64
  | EVector "pool option" "u64 buf"
  | ETypedArray nat "pool option" "u64 buf"
  | ESeq seq_type "pool option" "exprtk_value buf"
  | EMap map_type "(pool \<times> (bytes \<times> exprtk_value) list) option"
  | EOpaque nat addr

definition exprtk_val_list_empty :: exprtk_value where
  "exprtk_val_list_empty = ESeq VAL_LIST None (NullBuf 0)"

definition exprtk_val_set_empty :: exprtk_value where
  "exprtk_val_set_empty = ESeq VAL_SET None (NullBuf 0)"

text \<open>\<^verbatim>\<open>v ? 1 : 0\<close>.\<close>

definition exprtk_val_bool :: "int \<Rightarrow> exprtk_value" where
  "exprtk_val_bool v = EBool (if v \<noteq> 0 then 1 else 0)"

section \<open>Copying payloads\<close>

definition exprtk_copy_view ::
  "heap \<Rightarrow> pool \<Rightarrow> sview \<Rightarrow> bool \<Rightarrow> (pool option \<times> sview) option \<times> heap" where
  "exprtk_copy_view h pool source nul_terminate =
     (if buf_broken source then (None, h)
      else if buf_size source = 0 then (Some (None, Buf []), h)
      else if nul_terminate \<and> buf_size source = SIZE_MAX then (None, h)
      else
        let (ok, h') = alloc h in
        if ok then (Some (Some pool, Buf (buf_elems source)), h') else (None, h'))"

definition exprtk_copy_payload ::
  "heap \<Rightarrow> pool \<Rightarrow> u64 buf \<Rightarrow> size_t \<Rightarrow> (pool option \<times> u64 buf) option \<times> heap" where
  "exprtk_copy_payload h pool source element_size =
     (if buf_broken source then (None, h)
      else if buf_size source = 0 then (Some (None, NullBuf 0), h)
      else if buf_size source > SIZE_MAX div element_size then (None, h)
      else
        let (ok, h') = alloc h in
        if ok then (Some (Some pool, Buf (buf_elems source)), h') else (None, h'))"

fun exprtk_typed_element_size :: "nat \<Rightarrow> size_t option" where
  "exprtk_typed_element_size kind =
     (if kind = 1 then Some 4 else if kind = 2 then Some 8
      else if kind = 3 then Some 4 else if kind = 4 then Some 8 else None)"

text \<open>
  The test at the start of \<^verbatim>\<open>exprtk_value_copy_to_pool\<close>: the managed payload already lives in
  the target pool, so that retaining it is enough.
\<close>

fun exprtk_value_in_pool :: "exprtk_value \<Rightarrow> pool \<Rightarrow> bool" where
  "exprtk_value_in_pool (EString s v) pool = (s = Some pool)"
| "exprtk_value_in_pool (EBytes s v) pool = (s = Some pool)"
| "exprtk_value_in_pool (EBigint s v) pool = (s = Some pool)"
| "exprtk_value_in_pool (EEnum t s a n m v) pool = (s = Some pool \<and> (a = None \<or> a = Some pool))"
| "exprtk_value_in_pool (EVector s v) pool = (s = Some pool)"
| "exprtk_value_in_pool (ETypedArray k s v) pool = (s = Some pool)"
| "exprtk_value_in_pool _ pool = False"

section \<open>Lists and maps\<close>

definition exprtk_list_pool :: "heap \<Rightarrow> pool option \<Rightarrow> pool option \<times> heap" where
  "exprtk_list_pool h value_pool =
     (case value_pool of
        Some p \<Rightarrow> (Some p, h)
      | None \<Rightarrow>
          let (ok, h1) = alloc_all 2 h in
          if \<not> ok then (None, h1) else let (p, h2) = new_pool h1 in (Some p, h2))"

text \<open>
  \<^verbatim>\<open>exprtk_list_push\<close>, given how the item is copied into a pool.  That there is room for one
  more element, or that \<^verbatim>\<open>vec_reserve\<close> and \<^verbatim>\<open>vec_push\<close> find some, is one outcome.
\<close>

definition exprtk_list_push_with ::
  "(heap \<Rightarrow> pool \<Rightarrow> exprtk_value option \<times> heap) \<Rightarrow> heap \<Rightarrow> exprtk_value \<Rightarrow>
   int \<times> exprtk_value \<times> heap" where
  "exprtk_list_push_with copy h list =
     (case list of
        ESeq k vp items \<Rightarrow>
          (case exprtk_list_pool h vp of
             (None, h1) \<Rightarrow> (-1, list, h1)
           | (Some p, h1) \<Rightarrow>
               (case copy h1 p of
                  (None, h2) \<Rightarrow> (-1, ESeq k (Some p) items, h2)
                | (Some stored, h2) \<Rightarrow>
                    let (ok, h3) = alloc h2 in
                    if ok then (0, ESeq k (Some p) (Buf (buf_elems items @ [stored])), h3)
                    else (-1, ESeq k (Some p) items, h3)))
      | _ \<Rightarrow> (-1, list, h))"

text \<open>
  \<^verbatim>\<open>exprtk_map_storage_create\<close>: the block, its pool, the hash map and its first slots.
\<close>

definition exprtk_map_storage_create ::
  "heap \<Rightarrow> (pool \<times> (bytes \<times> exprtk_value) list) option \<times> heap" where
  "exprtk_map_storage_create h =
     (let (ok, h1) = alloc_all 4 h in
      if \<not> ok then (None, h1) else let (p, h2) = new_pool h1 in (Some (p, []), h2))"

definition exprtk_val_map :: "map_type \<Rightarrow> heap \<Rightarrow> exprtk_value \<times> heap" where
  "exprtk_val_map t h = (let (s, h') = exprtk_map_storage_create h in (EMap t s, h'))"

fun exprtk_value_is_object_like :: "exprtk_value \<Rightarrow> bool" where
  "exprtk_value_is_object_like (EMap t s) = True"
| "exprtk_value_is_object_like _ = False"

text \<open>
  The hash table of a map comes from the Salts library.  It finds an entry by its key, and
  iterates over its slots in an order that may change with every insertion: that order is the
  parameter \<open>order\<close>, a function of the keys in insertion-after-last-order.
\<close>

type_synonym order = "bytes list \<Rightarrow> bytes list"

definition hash_map_put ::
  "order \<Rightarrow> (bytes \<times> 'v) list \<Rightarrow> bytes \<Rightarrow> 'v \<Rightarrow> (bytes \<times> 'v) list"
  where
  "hash_map_put order es key v =
     (let es' = es @ [(key, v)] in map (\<lambda>k. (k, the (map_of es' k))) (order (map fst es')))"

definition hash_map_replace ::
  "(bytes \<times> 'v) list \<Rightarrow> bytes \<Rightarrow> 'v \<Rightarrow> (bytes \<times> 'v) list" where
  "hash_map_replace es key v = map (\<lambda>e. if fst e = key then (key, v) else e) es"

text \<open>The storage a map handle points to, by the identity of its pool; equal for two null handles.\<close>

fun same_storage :: "exprtk_value \<Rightarrow> exprtk_value \<Rightarrow> bool" where
  "same_storage (EMap t s) (EMap t' s') = (map_option fst s = map_option fst s')"
| "same_storage _ _ = False"

definition exprtk_map_insert ::
  "order \<Rightarrow> (heap \<Rightarrow> pool \<Rightarrow> exprtk_value option \<times> heap) \<Rightarrow> heap \<Rightarrow> map_type \<Rightarrow> pool \<Rightarrow>
   (bytes \<times> exprtk_value) list \<Rightarrow> bytes \<Rightarrow> int \<times> exprtk_value \<times> heap" where
  "exprtk_map_insert order copy h t p es key =
     (case copy h p of
        (None, h1) \<Rightarrow> (-1, EMap t (Some (p, es)), h1)
      | (Some value_copy, h1) \<Rightarrow>
          if map_of es key \<noteq> None
          then (0, EMap t (Some (p, hash_map_replace es key value_copy)), h1)
          else
            let (ok, h2) = alloc_all 2 h1 in
            if ok then (0, EMap t (Some (p, hash_map_put order es key value_copy)), h2)
            else (-1, EMap t (Some (p, es)), h2))"

definition exprtk_map_set_with ::
  "order \<Rightarrow> (heap \<Rightarrow> pool \<Rightarrow> exprtk_value option \<times> heap) \<Rightarrow> heap \<Rightarrow> exprtk_value \<Rightarrow> bytes \<Rightarrow>
   exprtk_value \<Rightarrow> int \<times> exprtk_value \<times> heap" where
  "exprtk_map_set_with order copy h m key v =
     (case m of
        EMap t s \<Rightarrow>
          if same_storage v m then (-1, m, h)
          else
            (case s of
               Some (p, es) \<Rightarrow> exprtk_map_insert order copy h t p es key
             | None \<Rightarrow>
                 (case exprtk_map_storage_create h of
                    (None, h1) \<Rightarrow> (-1, EMap t None, h1)
                  | (Some (p, es), h1) \<Rightarrow> exprtk_map_insert order copy h1 t p es key))
      | _ \<Rightarrow> (-1, m, h))"

fun store_entries :: "(pool \<times> 'e list) option \<Rightarrow> 'e list" where
  "store_entries None = []"
| "store_entries (Some (p, es)) = es"

section \<open>Copying values\<close>

lemma size_buf_elems: "size_list f (buf_elems b) \<le> size_buf f b"
  by (cases b) auto

lemma size_entries: "size_list (\<lambda>e. size (snd e)) es \<le> size_list (size_prod (\<lambda>x. 0) size) es"
  by (induction es) auto

lemma size_store_entries:
  "size_list (\<lambda>e. size (snd e)) (store_entries s)
     \<le> size_option (size_prod (\<lambda>x. 0) (size_list (size_prod (\<lambda>x. 0) size))) s"
  by (cases s rule: store_entries.cases) (auto intro: le_SucI size_entries)

text \<open>
  \<^verbatim>\<open>exprtk_value_copy_to_pool\<close>: \<open>None\<close> is the result \<^verbatim>\<open>-1\<close>.  The loops over the items of
  a list and the entries of a map are \<open>exprtk_copy_items\<close> and \<open>exprtk_copy_entries\<close>; both stop at
  the first failure.
\<close>

function (sequential)
  exprtk_value_copy_to_pool :: "order \<Rightarrow> heap \<Rightarrow> exprtk_value \<Rightarrow> pool \<Rightarrow> exprtk_value option \<times> heap"
  and exprtk_copy_items ::
    "order \<Rightarrow> heap \<Rightarrow> exprtk_value list \<Rightarrow> exprtk_value \<Rightarrow> exprtk_value option \<times> heap"
  and exprtk_copy_entries ::
    "order \<Rightarrow> heap \<Rightarrow> (bytes \<times> exprtk_value) list \<Rightarrow> exprtk_value \<Rightarrow> exprtk_value option \<times> heap"
  where
  "exprtk_value_copy_to_pool order h value pool =
     (if exprtk_value_in_pool value pool then (Some value, h)
      else
        (case value of
           EString s v \<Rightarrow>
             map_prod (map_option (\<lambda>(s', v'). EString s' v')) id (exprtk_copy_view h pool v True)
         | EBytes s v \<Rightarrow>
             map_prod (map_option (\<lambda>(s', v'). EBytes s' v')) id (exprtk_copy_view h pool v False)
         | EBigint s v \<Rightarrow>
             map_prod (map_option (\<lambda>(s', v'). EBigint s' v')) id (exprtk_copy_view h pool v True)
         | EEnum t s a n m i \<Rightarrow>
             (case exprtk_copy_view h pool n True of
                (None, h1) \<Rightarrow> (None, h1)
              | (Some (s', n'), h1) \<Rightarrow>
                  map_prod (map_option (\<lambda>(a', m'). EEnum t s' a' n' m' i)) id
                    (exprtk_copy_view h1 pool m True))
         | EVector s v \<Rightarrow>
             map_prod (map_option (\<lambda>(s', v'). EVector s' v')) id (exprtk_copy_payload h pool v 8)
         | ETypedArray kind s v \<Rightarrow>
             (case exprtk_typed_element_size kind of
                None \<Rightarrow> (None, h)
              | Some element_size \<Rightarrow>
                  map_prod (map_option (\<lambda>(s', v'). ETypedArray kind s' v')) id
                    (exprtk_copy_payload h pool v element_size))
         | ESeq k vp items \<Rightarrow> exprtk_copy_items order h (buf_elems items) (ESeq k None (NullBuf 0))
         | EMap t s \<Rightarrow>
             (case exprtk_val_map t h of
                (EMap t' (Some s'), h1) \<Rightarrow>
                  exprtk_copy_entries order h1 (store_entries s)
                    (EMap t' (Some s'))
              | (_, h1) \<Rightarrow> (None, h1))
         | _ \<Rightarrow> (Some value, h)))"
| "exprtk_copy_items order h [] copied = (Some copied, h)"
| "exprtk_copy_items order h (x # xs) copied =
     (case exprtk_list_push_with (\<lambda>h p. exprtk_value_copy_to_pool order h x p) h copied of
        (r, copied', h') \<Rightarrow>
          if r \<noteq> 0 then (None, h') else exprtk_copy_items order h' xs copied')"
| "exprtk_copy_entries order h [] copied = (Some copied, h)"
| "exprtk_copy_entries order h (e # es) copied =
     (case exprtk_map_set_with order (\<lambda>h p. exprtk_value_copy_to_pool order h (snd e) p) h copied
             (fst e) (snd e) of
        (r, copied', h') \<Rightarrow>
          if r \<noteq> 0 then (None, h') else exprtk_copy_entries order h' es copied')"
  by pat_completeness auto

termination
  by (relation "measure
       (\<lambda>x. case x of
            Inl (order, h, v, pool) \<Rightarrow> size v
          | Inr (Inl (order, h, xs, copied)) \<Rightarrow> size_list size xs
          | Inr (Inr (order, h, es, copied)) \<Rightarrow> size_list (\<lambda>e. size (snd e)) es)")
    (auto simp: less_Suc_eq_le size_buf_elems size_store_entries)

declare exprtk_value_copy_to_pool.simps [simp del]

lemmas copy_induct =
  exprtk_value_copy_to_pool_exprtk_copy_items_exprtk_copy_entries.induct

definition exprtk_list_push ::
  "order \<Rightarrow> heap \<Rightarrow> exprtk_value \<Rightarrow> exprtk_value \<Rightarrow> int \<times> exprtk_value \<times> heap" where
  "exprtk_list_push order h list item =
     exprtk_list_push_with (\<lambda>h p. exprtk_value_copy_to_pool order h item p) h list"

definition exprtk_map_set ::
  "order \<Rightarrow> heap \<Rightarrow> exprtk_value \<Rightarrow> bytes \<Rightarrow> exprtk_value \<Rightarrow> int \<times> exprtk_value \<times> heap" where
  "exprtk_map_set order h m key v =
     exprtk_map_set_with order (\<lambda>h p. exprtk_value_copy_to_pool order h v p) h m key v"

text \<open>\<^verbatim>\<open>exprtk_value_copy_to_env\<close>: a failed copy aborts the environment.\<close>

record exprtk_env =
  env_arena :: pool
  ee_aborted :: bool
  ee_error_msg :: bytes

definition exprtk_value_copy_to_env ::
  "order \<Rightarrow> heap \<Rightarrow> exprtk_value \<Rightarrow> exprtk_env \<Rightarrow> exprtk_value option \<times> exprtk_env \<times> heap" where
  "exprtk_value_copy_to_env order h v env =
     (case exprtk_value_copy_to_pool order h v (env_arena env) of
        (Some out, h') \<Rightarrow> (Some out, env, h')
      | (None, h') \<Rightarrow>
          (None, env\<lparr>ee_aborted := True,
                     ee_error_msg := ''failed to allocate owned value payload''\<rparr>, h'))"

section \<open>Reading and deleting map entries\<close>

fun exprtk_map_entries :: "exprtk_value \<Rightarrow> (bytes \<times> exprtk_value) list" where
  "exprtk_map_entries (EMap t s) = store_entries s"
| "exprtk_map_entries _ = []"

text \<open>\<^verbatim>\<open>exprtk_map_get\<close> returns the number 0 for what is not there (its bit pattern is 0).\<close>

definition exprtk_map_get :: "exprtk_value \<Rightarrow> bytes \<Rightarrow> exprtk_value" where
  "exprtk_map_get m key =
     (case map_of (exprtk_map_entries m) key of Some v \<Rightarrow> v | None \<Rightarrow> ENumber 0)"

definition exprtk_map_has :: "exprtk_value \<Rightarrow> bytes \<Rightarrow> int" where
  "exprtk_map_has m key = (if map_of (exprtk_map_entries m) key \<noteq> None then 1 else 0)"

definition exprtk_map_count :: "exprtk_value \<Rightarrow> size_t" where
  "exprtk_map_count m = of_nat (length (exprtk_map_entries m))"

fun exprtk_map_delete :: "exprtk_value \<Rightarrow> bytes \<Rightarrow> int \<times> exprtk_value" where
  "exprtk_map_delete (EMap t (Some (p, es))) key =
     (if map_of es key = None then (0, EMap t (Some (p, es)))
      else (1, EMap t (Some (p, filter (\<lambda>e. fst e \<noteq> key) es))))"
| "exprtk_map_delete m key = (0, m)"

text \<open>
  Iteration: the iterator is the map's entries and a position.  Empty slots, which
  \<^verbatim>\<open>exprtk_map_iter_next\<close> skips, are not represented.
\<close>

record exprtk_map_iter =
  it_entries :: "(bytes \<times> exprtk_value) list"
  it_pos :: nat

definition exprtk_map_iter_begin :: "exprtk_value \<Rightarrow> exprtk_map_iter" where
  "exprtk_map_iter_begin m = \<lparr>it_entries = exprtk_map_entries m, it_pos = 0\<rparr>"

definition exprtk_map_iter_next ::
  "exprtk_map_iter \<Rightarrow> (bytes \<times> exprtk_value) option \<times> exprtk_map_iter" where
  "exprtk_map_iter_next it =
     (if it_pos it < length (it_entries it)
      then (Some (it_entries it ! it_pos it), it\<lparr>it_pos := Suc (it_pos it)\<rparr>)
      else (None, it))"

section \<open>What a value contains\<close>

text \<open>
  The content of a value: its payload without the pools, a map as a finite map from keys to
  contents.
\<close>

datatype econtent =
    CNull | CBool int | CInteger u64 | CNumber u64 | CString bytes | CBytes bytes | CBigint bytes
  | CEnum enum_type bytes bytes u64 | CVector "u64 list" | CTypedArray nat "u64 list"
  | CSeq seq_type "econtent list" | CMap map_type "bytes \<Rightarrow> econtent option" | COpaque nat addr

lemma size_buf_item [termination_simp]: "x \<in> set (buf_elems b) \<Longrightarrow> size x < Suc (size_buf size b)"
  by (auto simp: less_Suc_eq_le
      intro: order_trans [OF size_list_estimation' [OF _ order_refl] size_buf_elems])

lemma size_map_entry [termination_simp]:
  "e \<in> set (store_entries s) \<Longrightarrow>
   size (snd e) < Suc (size_option (size_prod (\<lambda>x. 0) (size_list (size_prod (\<lambda>x. 0) size))) s)"
  by (auto simp: less_Suc_eq_le
      intro: order_trans [OF size_list_estimation' [where f = "\<lambda>e. size (snd e)", OF _ order_refl]
          size_store_entries])

lemma size_map_entry_pair [termination_simp]:
  "(k, v) \<in> set (store_entries s) \<Longrightarrow>
   size v < Suc (size_option (\<lambda>x. Suc (size_list (\<lambda>x. Suc (size (snd x))) (snd x))) s)"
  by (cases s rule: store_entries.cases)
    (auto simp: less_Suc_eq_le intro!: le_SucI intro: size_list_estimation')

fun content :: "exprtk_value \<Rightarrow> econtent" where
  "content ENull = CNull"
| "content (EBool b) = CBool b"
| "content (EInteger i) = CInteger i"
| "content (ENumber d) = CNumber d"
| "content (EString s v) = CString (buf_elems v)"
| "content (EBytes s v) = CBytes (buf_elems v)"
| "content (EBigint s v) = CBigint (buf_elems v)"
| "content (EEnum t s a n m i) = CEnum t (buf_elems n) (buf_elems m) i"
| "content (EVector s v) = CVector (buf_elems v)"
| "content (ETypedArray k s v) = CTypedArray k (buf_elems v)"
| "content (ESeq k vp b) = CSeq k (map content (buf_elems b))"
| "content (EMap t s) =
     CMap t (map_of (map (\<lambda>e. (fst e, content (snd e)))
                      (store_entries s)))"
| "content (EOpaque k a) = COpaque k a"

text \<open>
  Well-formed values: every length fits in \<^verbatim>\<open>size_t\<close> and the keys of every map are distinct, at
  any depth.
\<close>

fun vwf :: "exprtk_value \<Rightarrow> bool" where
  "vwf (EString s v) = buf_fits v"
| "vwf (EBytes s v) = buf_fits v"
| "vwf (EBigint s v) = buf_fits v"
| "vwf (EEnum t s a n m i) = (buf_fits n \<and> buf_fits m)"
| "vwf (EVector s v) = buf_fits v"
| "vwf (ETypedArray k s v) = buf_fits v"
| "vwf (ESeq k vp b) = (buf_fits b \<and> (\<forall>x \<in> set (buf_elems b). vwf x))"
| "vwf (EMap t s) =
     (length (store_entries s) < 2 ^ 64 \<and> distinct (map fst (store_entries s)) \<and>
      (\<forall>k \<in> fst ` set (store_entries s). length k < 2 ^ 64) \<and>
      (\<forall>e \<in> set (store_entries s). vwf (snd e)))"
| "vwf _ = True"

text \<open>The pools a value keeps data in.\<close>

fun pools :: "exprtk_value \<Rightarrow> pool set" where
  "pools (EString s v) = set_option s"
| "pools (EBytes s v) = set_option s"
| "pools (EBigint s v) = set_option s"
| "pools (EEnum t s a n m i) = set_option s \<union> set_option a"
| "pools (EVector s v) = set_option s"
| "pools (ETypedArray k s v) = set_option s"
| "pools (ESeq k vp b) = set_option vp \<union> (\<Union>x \<in> set (buf_elems b). pools x)"
| "pools (EMap t s) =
     set_option (map_option fst s) \<union> (\<Union>e \<in> set (store_entries s). pools (snd e))"
| "pools _ = {}"

text \<open>
  What the sources rely on from the hash table: an insertion keeps every entry, once.
\<close>

definition order_laws :: "order \<Rightarrow> bool" where
  "order_laws order \<longleftrightarrow> (\<forall>ks. distinct ks \<longrightarrow> distinct (order ks) \<and> set (order ks) = set ks)"

section \<open>Facts on the building blocks\<close>

lemma alloc_next_pool: "alloc h = (ok, h') \<Longrightarrow> next_pool h' = next_pool h"
  by (auto simp: alloc_def)

lemma alloc_all_next_pool: "alloc_all n h = (ok, h') \<Longrightarrow> next_pool h' = next_pool h"
  by (induction n arbitrary: h) (auto simp: Let_def alloc_next_pool split: prod.splits if_splits
      dest: alloc_next_pool)

lemma buf_empty: "buf_fits v \<Longrightarrow> \<not> buf_broken v \<Longrightarrow> buf_size v = 0 \<Longrightarrow> buf_elems v = []"
  using unat_buf_size by (cases v) fastforce+

lemma content_map:
  "content (EMap t s) = CMap t (map_option content \<circ> map_of (store_entries s))"
proof -
  have "map_of (map (\<lambda>e. (fst e, content (snd e))) es) = map_option content \<circ> map_of es" for es
    by (induction es) auto
  then show ?thesis by simp
qed

lemma copied_view_ok:
  assumes "exprtk_copy_view h pool v nul = (Some (s, v'), h')" and "buf_fits v"
  shows "buf_elems v' = buf_elems v \<and> set_option s \<subseteq> {pool} \<and> next_pool h' = next_pool h \<and> buf_fits v'"
  using assms buf_empty [OF assms(2)]
  by (auto simp: exprtk_copy_view_def Let_def buf_fits_def split: if_splits prod.splits
      dest: alloc_next_pool)

lemma copy_payload_ok:
  assumes "exprtk_copy_payload h pool v e = (Some (s, v'), h')" and "buf_fits v"
  shows "buf_elems v' = buf_elems v \<and> set_option s \<subseteq> {pool} \<and> next_pool h' = next_pool h \<and> buf_fits v'"
  using assms buf_empty [OF assms(2)]
  by (auto simp: exprtk_copy_payload_def Let_def buf_fits_def split: if_splits prod.splits
      dest: alloc_next_pool)

lemma list_pool_ok:
  "exprtk_list_pool h vp = (Some p, h1) \<Longrightarrow>
   next_pool h \<le> next_pool h1 \<and> (vp = Some p \<or> vp = None \<and> p \<in> {next_pool h..<next_pool h1})"
  by (auto simp: exprtk_list_pool_def new_pool_def Let_def split: option.splits prod.splits if_splits
      dest: alloc_all_next_pool)

lemma list_push_ok:
  assumes "exprtk_list_push_with copy h (ESeq k vp b) = (0, acc, h')"
  obtains p stored h1 h2 where "exprtk_list_pool h vp = (Some p, h1)" "copy h1 p = (Some stored, h2)"
    "acc = ESeq k (Some p) (Buf (buf_elems b @ [stored]))" "next_pool h' = next_pool h2"
  using assms by (auto simp: exprtk_list_push_with_def Let_def split: prod.splits option.splits if_splits
      dest: alloc_next_pool)

lemma map_set_new:
  assumes "exprtk_map_set_with order copy h (EMap t (Some (p, es))) key v = (0, m, h')"
    and "map_of es key = None"
  obtains stored h1 where "copy h p = (Some stored, h1)" "next_pool h' = next_pool h1"
    "m = EMap t (Some (p, hash_map_put order es key stored))"
  using assms by (auto simp: exprtk_map_set_with_def exprtk_map_insert_def Let_def
      split: prod.splits option.splits if_splits dest: alloc_all_next_pool)

lemma put_keys:
  assumes "order_laws order" and "distinct (map fst es)" and "map_of es key = None"
  shows "distinct (map fst (hash_map_put order es key v))"
    "set (hash_map_put order es key v) = insert (key, v) (set es)"
proof -
  have d: "distinct (map fst (es @ [(key, v)]))" using assms(2,3) by (auto simp: map_of_eq_None_iff)
  with assms(1) have o: "distinct (order (map fst (es @ [(key, v)])))"
    "set (order (map fst (es @ [(key, v)]))) = fst ` set (es @ [(key, v)])"
    unfolding order_laws_def by (metis set_map)+
  show "distinct (map fst (hash_map_put order es key v))"
    using o(1) by (simp add: hash_map_put_def o_def)
  have "(fst e, the (map_of (es @ [(key, v)]) (fst e))) = e" if "e \<in> set (es @ [(key, v)])" for e
    using map_of_is_SomeI [OF d, of "fst e" "snd e"] that by simp
  then have "(\<lambda>k. (k, the (map_of (es @ [(key, v)]) k))) ` fst ` set (es @ [(key, v)]) = set (es @ [(key, v)])"
    unfolding image_image by (simp cong: image_cong del: map_of_append set_append)
  then show "set (hash_map_put order es key v) = insert (key, v) (set es)"
    using o(2) by (simp add: hash_map_put_def Let_def del: map_of_append)
qed

lemma put_length:
  assumes "order_laws order" and "distinct (map fst es)" and "map_of es key = None"
  shows "length (hash_map_put order es key v) = Suc (length es)"
proof -
  have "key \<notin> fst ` set es" using assms(3) by (simp add: map_of_eq_None_iff)
  then have "card (insert (key, v) (set es)) = Suc (card (set es))" by (subst card_insert_disjoint) force+
  with put_keys [OF assms, of v] assms(2) show ?thesis
    by (metis distinct_card distinct_map)
qed

lemma put_map_of:
  assumes "order_laws order" and "distinct (map fst es)" and "map_of es key = None"
  shows "map_of (hash_map_put order es key v) = (map_of es)(key \<mapsto> v)"
proof
  fix k
  have d: "distinct (map fst ((key, v) # es))" using assms(2,3) by (simp add: map_of_eq_None_iff)
  have "map_of (hash_map_put order es key v) k = map_of ((key, v) # es) k"
    using put_keys [OF assms, of v] d by (intro fun_cong [OF map_of_inject_set [THEN iffD2]]) auto
  then show "map_of (hash_map_put order es key v) k = ((map_of es)(key \<mapsto> v)) k" by simp
qed

section \<open>Copies have the same content and their own storage\<close>

definition copied_as :: "heap \<Rightarrow> heap \<Rightarrow> pool \<Rightarrow> exprtk_value \<Rightarrow> exprtk_value \<Rightarrow> bool" where
  "copied_as h h' pool v v' \<longleftrightarrow>
     content v' = content v \<and> vwf v' \<and> next_pool h \<le> next_pool h' \<and>
     pools v' \<subseteq> insert pool {next_pool h..<next_pool h'}"

definition items_copied ::
  "heap \<Rightarrow> heap \<Rightarrow> exprtk_value list \<Rightarrow> exprtk_value \<Rightarrow> exprtk_value \<Rightarrow> bool" where
  "items_copied h h' xs acc v' \<longleftrightarrow>
     (\<forall>k vp b. acc = ESeq k vp b \<longrightarrow>
        (\<exists>vp' b'. v' = ESeq k vp' b' \<and>
           map content (buf_elems b') = map content (buf_elems b) @ map content xs \<and>
           (\<forall>x \<in> set (buf_elems b'). x \<in> set (buf_elems b) \<or> vwf x) \<and>
           next_pool h \<le> next_pool h' \<and> pools v' \<subseteq> pools acc \<union> {next_pool h..<next_pool h'}))"

definition entries_copied ::
  "heap \<Rightarrow> heap \<Rightarrow> (bytes \<times> exprtk_value) list \<Rightarrow> exprtk_value \<Rightarrow> exprtk_value \<Rightarrow> bool" where
  "entries_copied h h' es acc v' \<longleftrightarrow>
     (\<forall>t p es0. acc = EMap t (Some (p, es0)) \<longrightarrow> distinct (map fst es0) \<longrightarrow>
        fst ` set es \<inter> fst ` set es0 = {} \<longrightarrow>
        (\<exists>es'. v' = EMap t (Some (p, es')) \<and> distinct (map fst es') \<and>
           length es' = length es0 + length es \<and>
           map_option content \<circ> map_of es' =
             (map_option content \<circ> map_of es0) ++ (map_option content \<circ> map_of es) \<and>
           (\<forall>e \<in> set es'. e \<in> set es0 \<or> vwf (snd e)) \<and>
           next_pool h \<le> next_pool h' \<and> pools v' \<subseteq> pools acc \<union> {next_pool h..<next_pool h'}))"

lemma items_copied_Cons:
  assumes push: "exprtk_list_push_with copy h acc = (0, acc', h1)"
    and item: "\<And>ha p v hb. copy ha p = (Some v, hb) \<Longrightarrow> copied_as ha hb p x v"
    and rest: "items_copied h1 h' xs acc' v'"
  shows "items_copied h h' (x # xs) acc v'"
  unfolding items_copied_def
proof (intro allI impI)
  fix k vp b
  assume acc: "acc = ESeq k vp b"
  from push [unfolded acc] obtain p stored ha hb where lp: "exprtk_list_pool h vp = (Some p, ha)"
    and c: "copy ha p = (Some stored, hb)" and acc': "acc' = ESeq k (Some p) (Buf (buf_elems b @ [stored]))"
    and np: "next_pool h1 = next_pool hb" by (rule list_push_ok)
  from rest [unfolded items_copied_def, rule_format, OF acc'] obtain vp' b' where v':
    "v' = ESeq k vp' b'"
    "map content (buf_elems b') = map content (buf_elems b @ [stored]) @ map content xs"
    "\<forall>x \<in> set (buf_elems b'). x \<in> set (buf_elems b @ [stored]) \<or> vwf x"
    "next_pool h1 \<le> next_pool h'" "pools v' \<subseteq> pools acc' \<union> {next_pool h1..<next_pool h'}" by auto
  have st: "content stored = content x" "vwf stored" "next_pool h \<le> next_pool h1"
    "pools stored \<subseteq> insert p {next_pool h..<next_pool h1}"
    "set_option (Some p) \<subseteq> set_option vp \<union> {next_pool h..<next_pool h1}"
    using item [OF c] list_pool_ok [OF lp] np by (auto simp: copied_as_def)
  have "pools v' \<subseteq> pools acc \<union> {next_pool h..<next_pool h'}"
    using v'(4,5) st(3-5) by (fastforce simp: acc acc')
  then show "\<exists>vp' b'. v' = ESeq k vp' b' \<and>
      map content (buf_elems b') = map content (buf_elems b) @ map content (x # xs) \<and>
      (\<forall>x \<in> set (buf_elems b'). x \<in> set (buf_elems b) \<or> vwf x) \<and>
      next_pool h \<le> next_pool h' \<and> pools v' \<subseteq> pools acc \<union> {next_pool h..<next_pool h'}"
    using v'(1-4) st(1-3) by auto
qed

lemma entries_copied_Cons:
  assumes laws: "order_laws order" and d: "distinct (map fst (e # es))"
    and set: "exprtk_map_set_with order copy h acc (fst e) (snd e) = (0, acc', h1)"
    and item: "\<And>ha p v hb. copy ha p = (Some v, hb) \<Longrightarrow> copied_as ha hb p (snd e) v"
    and rest: "entries_copied h1 h' es acc' v'"
  shows "entries_copied h h' (e # es) acc v'"
  unfolding entries_copied_def
proof (intro allI impI)
  fix t p es0
  assume acc: "acc = EMap t (Some (p, es0))" and d0: "distinct (map fst es0)"
    and dis: "fst ` set (e # es) \<inter> fst ` set es0 = {}"
  from dis have new: "map_of es0 (fst e) = None" by (auto simp: map_of_eq_None_iff)
  from set [unfolded acc] new obtain stored hb where c: "copy h p = (Some stored, hb)"
    and np: "next_pool h1 = next_pool hb"
    and acc': "acc' = EMap t (Some (p, hash_map_put order es0 (fst e) stored))" by (rule map_set_new)
  note put = put_keys [OF laws d0 new, of stored] put_length [OF laws d0 new, of stored]
    put_map_of [OF laws d0 new, of stored]
  have "fst ` set es \<inter> fst ` set (hash_map_put order es0 (fst e) stored) = {}"
    using dis d by (auto simp: put(2))
  with rest [unfolded entries_copied_def, rule_format, OF acc' put(1)] obtain es' where v':
    "v' = EMap t (Some (p, es'))" "distinct (map fst es')"
    "length es' = length (hash_map_put order es0 (fst e) stored) + length es"
    "map_option content \<circ> map_of es' =
       (map_option content \<circ> map_of (hash_map_put order es0 (fst e) stored)) ++
       (map_option content \<circ> map_of es)"
    "\<forall>x \<in> set es'. x \<in> set (hash_map_put order es0 (fst e) stored) \<or> vwf (snd x)"
    "next_pool h1 \<le> next_pool h'" "pools v' \<subseteq> pools acc' \<union> {next_pool h1..<next_pool h'}" by auto
  have cont: "content stored = content (snd e)" "vwf stored" "next_pool h \<le> next_pool h1"
    "pools stored \<subseteq> insert p {next_pool h..<next_pool h1}"
    using item [OF c] np by (auto simp: copied_as_def)
  have ne: "map_of es (fst e) = None" using d by (simp add: map_of_eq_None_iff)
  have "map_option content \<circ> map_of es' =
      (map_option content \<circ> map_of es0) ++ (map_option content \<circ> map_of (e # es))"
    unfolding v'(4) [unfolded put(4)] using cont(1) ne
    by (cases e) (auto simp: fun_eq_iff map_add_def split: option.splits)
  moreover have "pools v' \<subseteq> pools acc \<union> {next_pool h..<next_pool h'}"
    using v'(6,7) cont(3,4) by (fastforce simp: acc acc' put(2))
  ultimately show "\<exists>es'. v' = EMap t (Some (p, es')) \<and> distinct (map fst es') \<and>
      length es' = length es0 + length (e # es) \<and>
      map_option content \<circ> map_of es' =
        (map_option content \<circ> map_of es0) ++ (map_option content \<circ> map_of (e # es)) \<and>
      (\<forall>x \<in> set es'. x \<in> set es0 \<or> vwf (snd x)) \<and>
      next_pool h \<le> next_pool h' \<and> pools v' \<subseteq> pools acc \<union> {next_pool h..<next_pool h'}"
    using v'(1-3,5,6) cont(2,3) by (auto simp: put)
qed

lemma copied_as_retained: "exprtk_value_in_pool v pool \<Longrightarrow> vwf v \<Longrightarrow> copied_as h h pool v v"
  by (cases "(v, pool)" rule: exprtk_value_in_pool.cases) (auto simp: copied_as_def)

lemma map_prod_option_eq:
  "map_prod (map_option f) id x = (Some y, z) \<longleftrightarrow> (\<exists>w. x = (Some w, z) \<and> y = f w)"
  by (cases x) auto

lemma copy_ok:
  shows "order_laws order \<Longrightarrow> vwf v \<Longrightarrow> exprtk_value_copy_to_pool order h v pool = (Some v', h') \<Longrightarrow>
      copied_as h h' pool v v'"
    and "order_laws order \<Longrightarrow> \<forall>x \<in> set xs. vwf x \<Longrightarrow>
      exprtk_copy_items order h xs acc = (Some v', h') \<Longrightarrow> items_copied h h' xs acc v'"
    and "order_laws order \<Longrightarrow> distinct (map fst es) \<Longrightarrow> \<forall>e \<in> set es. vwf (snd e) \<Longrightarrow>
      exprtk_copy_entries order h es acc = (Some v', h') \<Longrightarrow> entries_copied h h' es acc v'"
proof (induction order h v pool and order h xs acc and order h es acc
    arbitrary: v' h' and v' h' and v' h' rule: copy_induct)
  case (1 order h v pool)
  note run = "1.prems"(3) [unfolded exprtk_value_copy_to_pool.simps [of order h v pool]]
  show ?case
  proof (cases "exprtk_value_in_pool v pool")
    case True
    with run "1.prems"(2) show ?thesis by (simp add: copied_as_retained)
  next
    case False
    note run = run [unfolded if_not_P [OF False]]
    show ?thesis
    proof (cases v)
      case (ESeq k vp b)
      with run have "exprtk_copy_items order h (buf_elems b) (ESeq k None (NullBuf 0)) = (Some v', h')"
        by simp
      from "1.IH"(1) [OF False ESeq "1.prems"(1) _ this] "1.prems"(2) ESeq
      obtain vp' b' where "v' = ESeq k vp' b'" "map content (buf_elems b') = map content (buf_elems b)"
        "\<forall>x \<in> set (buf_elems b'). vwf x" "next_pool h \<le> next_pool h'"
        "pools v' \<subseteq> {next_pool h..<next_pool h'}" by (auto simp: items_copied_def)
      then show ?thesis using ESeq "1.prems"(2) map_eq_imp_length_eq [of content "buf_elems b'" content "buf_elems b"]
        by (auto simp: copied_as_def buf_fits_def)
    next
      case (EMap t s)
      from run obtain s' h1 where m: "exprtk_val_map t h = (EMap t (Some s'), h1)"
        and loop: "exprtk_copy_entries order h1 (store_entries s) (EMap t (Some s')) = (Some v', h')"
        unfolding EMap by (auto simp: exprtk_val_map_def Let_def split: prod.splits option.splits
            exprtk_value.splits)
      from m have s': "s' = (next_pool h, [])" "next_pool h1 = Suc (next_pool h)"
        by (auto simp: exprtk_val_map_def exprtk_map_storage_create_def new_pool_def Let_def
            split: prod.splits if_splits dest: alloc_all_next_pool)
      from "1.IH"(2) [OF False EMap m [symmetric] refl refl _ _ _ loop] "1.prems"(1,2) EMap
      obtain es' where es': "v' = EMap t (Some (next_pool h, es'))" "distinct (map fst es')"
        "length es' = length (store_entries s)"
        "map_option content \<circ> map_of es' = map_option content \<circ> map_of (store_entries s)"
        "\<forall>e \<in> set es'. vwf (snd e)" "Suc (next_pool h) \<le> next_pool h'"
        "pools v' \<subseteq> insert (next_pool h) {Suc (next_pool h)..<next_pool h'}"
        by (auto simp: entries_copied_def s')
      have "pools v' \<subseteq> insert pool {next_pool h..<next_pool h'}" using es'(6,7) by fastforce
      moreover have "fst ` set es' = fst ` set (store_entries s)"
        using arg_cong [OF es'(4), of dom] by (simp add: dom_map_of_conv_image_fst dom_map_option_comp)
      ultimately show ?thesis using es'(1-6) EMap "1.prems"(2)
        by (simp add: copied_as_def content_map del: content.simps)
    qed (use run "1.prems"(2) in \<open>auto simp: copied_as_def map_prod_option_eq
          dest!: copied_view_ok copy_payload_ok split: option.splits prod.splits if_splits\<close>)
  qed
next
  case (2 order h acc)
  then show ?case by (auto simp: items_copied_def)
next
  case (3 order h x xs acc)
  obtain r acc' h1 where push: "exprtk_list_push_with (\<lambda>h p. exprtk_value_copy_to_pool order h x p) h acc
      = (r, acc', h1)" by (metis prod_cases3)
  with "3.prems"(3) have r: "r = 0" and rest: "exprtk_copy_items order h1 xs acc' = (Some v', h')"
    by (auto split: if_splits)
  show ?case
  proof (rule items_copied_Cons [OF push [unfolded r]])
    show "copied_as ha hb p x v" if "exprtk_value_copy_to_pool order ha x p = (Some v, hb)" for ha p v hb
      using "3.IH"(1) [OF "3.prems"(1) _ that] "3.prems"(2) by simp
    show "items_copied h1 h' xs acc' v'"
      using "3.IH"(2) [OF push [symmetric] refl _ "3.prems"(1) _ rest] "3.prems"(2) r by simp
  qed
next
  case (4 order h acc)
  then show ?case by (auto simp: entries_copied_def fun_eq_iff map_add_def)
next
  case (5 order h e es acc)
  obtain r acc' h1 where step: "exprtk_map_set_with order
      (\<lambda>h p. exprtk_value_copy_to_pool order h (snd e) p) h acc (fst e) (snd e) = (r, acc', h1)"
    by (metis prod_cases3)
  with "5.prems"(4) have r: "r = 0" and rest: "exprtk_copy_entries order h1 es acc' = (Some v', h')"
    by (auto split: if_splits)
  show ?case
  proof (rule entries_copied_Cons [OF "5.prems"(1,2) step [unfolded r]])
    show "copied_as ha hb p (snd e) v" if "exprtk_value_copy_to_pool order ha (snd e) p = (Some v, hb)"
      for ha p v hb using "5.IH"(1) [OF "5.prems"(1) _ that] "5.prems"(3) by simp
    show "entries_copied h1 h' es acc' v'"
      using "5.IH"(2) [OF step [symmetric] refl _ "5.prems"(1) _ _ rest] "5.prems"(2,3) r by simp
  qed
qed

text \<open>
  C18: a copied value has the content of its source and stands on its own.  If
  \<^verbatim>\<open>exprtk_value_copy_to_pool\<close> succeeds, the copy has the same content at every depth (a map the
  same keys and values, whatever the order of its slots), is well-formed, and keeps its data only
  in the target pool and in pools created during the copy, so that the pools of the source may be
  destroyed.
\<close>

theorem copy_is_deep:
  assumes "order_laws order" and "vwf v"
    and "exprtk_value_copy_to_pool order h v pool = (Some v', h')"
  shows "content v' = content v \<and> vwf v' \<and>
    (\<forall>p \<in> pools v'. p = pool \<or> next_pool h \<le> p \<and> p < next_pool h')"
  using copy_ok(1) [OF assms] by (auto simp: copied_as_def)

text \<open>A heap in which every allocation succeeds; allocating leaves it as it is.\<close>

definition never_fails :: "heap \<Rightarrow> bool" where
  "never_fails h \<longleftrightarrow> (\<forall>n. outcomes h n)"

lemma alloc_plenty: "never_fails h \<Longrightarrow> alloc h = (True, h)"
proof -
  assume nf: "never_fails h"
  then have "(\<lambda>n. outcomes h (Suc n)) = outcomes h" by (auto simp: never_fails_def)
  with nf show "alloc h = (True, h)" by (simp add: alloc_def never_fails_def)
qed

lemma alloc_all_plenty: "never_fails h \<Longrightarrow> alloc_all n h = (True, h)"
  by (induction n) (simp_all add: alloc_plenty)

lemma never_fails_next_pool [simp]: "never_fails (h\<lparr>next_pool := n\<rparr>) = never_fails h"
  by (simp add: never_fails_def)

lemma never_fails_True [simp]: "never_fails \<lparr>outcomes = \<lambda>n. True, next_pool = k\<rparr>"
  by (simp add: never_fails_def)

definition plenty :: heap where
  "plenty = \<lparr>outcomes = \<lambda>n. True, next_pool = 10\<rparr>"

text \<open>The map \<open>{"k": [1, "s"]}\<close> with its data in pools 1, 2 and 3.\<close>

definition example_value :: exprtk_value where
  "example_value =
     EMap VAL_MAP (Some (1, [(''k'', ESeq VAL_LIST (Some 2)
       (Buf [EInteger 1, EString (Some 3) (Buf ''s'')]))]))"

lemmas copy_eval =
  exprtk_value_copy_to_pool.simps exprtk_val_map_def exprtk_map_storage_create_def
  exprtk_map_set_with_def exprtk_map_insert_def exprtk_list_push_with_def exprtk_list_pool_def
  exprtk_copy_view_def exprtk_copy_payload_def hash_map_put_def new_pool_def alloc_plenty
  alloc_all_plenty

lemma order_laws_id: "order_laws id"
  by (simp add: order_laws_def)

theorem copy_is_deep_witness:
  "\<exists>v' h'. exprtk_value_copy_to_pool id plenty example_value 5 = (Some v', h') \<and>
     content v' = content example_value \<and> 1 \<notin> pools v' \<and> 2 \<notin> pools v' \<and> 3 \<notin> pools v'"
proof -
  obtain v' h' where run: "exprtk_value_copy_to_pool id plenty example_value 5 = (Some v', h')"
    by (simp add: example_value_def plenty_def copy_eval)
  have "vwf example_value" by (simp add: example_value_def buf_fits_def)
  from copy_is_deep [OF order_laws_id this run] run show ?thesis by (auto simp: plenty_def)
qed

section \<open>Copying fails only when memory does\<close>

text \<open>Values without a dangling buffer, an unknown element type or a length no buffer can have.\<close>

fun copyable :: "exprtk_value \<Rightarrow> bool" where
  "copyable (EString s v) = (\<not> buf_broken v \<and> buf_size v \<noteq> SIZE_MAX)"
| "copyable (EBytes s v) = (\<not> buf_broken v)"
| "copyable (EBigint s v) = (\<not> buf_broken v \<and> buf_size v \<noteq> SIZE_MAX)"
| "copyable (EEnum t s a n m i) =
     (\<not> buf_broken n \<and> buf_size n \<noteq> SIZE_MAX \<and> \<not> buf_broken m \<and> buf_size m \<noteq> SIZE_MAX)"
| "copyable (EVector s v) = (\<not> buf_broken v \<and> buf_size v \<le> SIZE_MAX div 8)"
| "copyable (ETypedArray k s v) =
     (k \<in> {1, 2, 3, 4} \<and> \<not> buf_broken v \<and> buf_size v \<le> SIZE_MAX div 8)"
| "copyable (ESeq k vp b) = (\<forall>x \<in> set (buf_elems b). copyable x)"
| "copyable (EMap t s) = (\<forall>e \<in> set (store_entries s). copyable (snd e))"
| "copyable _ = True"

lemma copied_view_plenty:
  "never_fails h \<Longrightarrow> \<not> buf_broken v \<Longrightarrow> buf_size v \<noteq> SIZE_MAX \<or> \<not> nul \<Longrightarrow>
   exprtk_copy_view h pool v nul =
     (Some (if buf_size v = 0 then (None, Buf []) else (Some pool, Buf (buf_elems v))), h)"
  by (auto simp: exprtk_copy_view_def alloc_plenty)

lemma copy_payload_plenty:
  "never_fails h \<Longrightarrow> \<not> buf_broken v \<Longrightarrow> buf_size v \<le> SIZE_MAX div e \<Longrightarrow>
   exprtk_copy_payload h pool v e =
     (Some (if buf_size v = 0 then (None, NullBuf 0) else (Some pool, Buf (buf_elems v))), h)"
  by (auto simp: exprtk_copy_payload_def alloc_plenty)

lemma payload_4: "buf_size (v :: u64 buf) \<le> SIZE_MAX div 8 \<Longrightarrow> buf_size v \<le> SIZE_MAX div 4"
  by (simp add: word_le_nat_alt)

definition copies_ok :: "heap \<Rightarrow> exprtk_value option \<times> heap \<Rightarrow> bool" where
  "copies_ok h r \<longleftrightarrow> (\<exists>v h'. r = (Some v, h') \<and> never_fails h' \<and> next_pool h \<le> next_pool h')"

lemma copies_ok_view:
  "never_fails h \<Longrightarrow> \<not> buf_broken v \<Longrightarrow> buf_size v \<noteq> SIZE_MAX \<or> \<not> nul \<Longrightarrow>
   copies_ok h (map_prod (map_option f) id (exprtk_copy_view h pool v nul))"
  by (simp add: copied_view_plenty copies_ok_def)

lemma copies_ok_payload:
  "never_fails h \<Longrightarrow> \<not> buf_broken v \<Longrightarrow> buf_size v \<le> SIZE_MAX div e \<Longrightarrow>
   copies_ok h (map_prod (map_option f) id (exprtk_copy_payload h pool v e))"
  by (simp add: copy_payload_plenty copies_ok_def)

lemma list_push_plenty:
  assumes "never_fails h" and "\<And>ha p. never_fails ha \<Longrightarrow> next_pool h \<le> next_pool ha \<Longrightarrow> copies_ok ha (copy ha p)"
  shows "\<exists>p b' h'. exprtk_list_push_with copy h (ESeq k vp b) = (0, ESeq k (Some p) b', h') \<and>
    never_fails h' \<and> next_pool h \<le> next_pool h'"
proof -
  obtain p h1 where lp: "exprtk_list_pool h vp = (Some p, h1)" "never_fails h1" "next_pool h \<le> next_pool h1"
    using assms(1) by (cases vp) (auto simp: exprtk_list_pool_def alloc_all_plenty new_pool_def)
  from assms(2) [OF lp(2,3), of p] obtain v h2 where "copy h1 p = (Some v, h2)" "never_fails h2"
    "next_pool h1 \<le> next_pool h2" by (auto simp: copies_ok_def)
  with lp show ?thesis by (auto simp: exprtk_list_push_with_def alloc_plenty)
qed

lemma map_set_plenty:
  assumes "never_fails h" and "copies_ok h (copy h p)" and "\<not> same_storage v (EMap t (Some (p, es)))"
  shows "\<exists>es' h'. exprtk_map_set_with order copy h (EMap t (Some (p, es))) key v
      = (0, EMap t (Some (p, es')), h') \<and> never_fails h' \<and> next_pool h \<le> next_pool h'"
  using assms by (auto simp: exprtk_map_set_with_def exprtk_map_insert_def alloc_all_plenty copies_ok_def)

lemma same_storage_pools: "same_storage v (EMap t (Some (p, es))) \<Longrightarrow> p \<in> pools v"
  by (cases v) auto

lemma copy_plenty:
  shows "never_fails h \<Longrightarrow> copyable v \<Longrightarrow> \<forall>p \<in> pools v. p < next_pool h \<Longrightarrow>
      copies_ok h (exprtk_value_copy_to_pool order h v pool)"
    and "never_fails h \<Longrightarrow> \<forall>x \<in> set xs. copyable x \<and> (\<forall>p \<in> pools x. p < next_pool h) \<Longrightarrow>
      acc = ESeq k vp b \<Longrightarrow> copies_ok h (exprtk_copy_items order h xs acc)"
    and "never_fails h \<Longrightarrow>
      \<forall>e \<in> set es. copyable (snd e) \<and> q \<notin> pools (snd e) \<and> (\<forall>p \<in> pools (snd e). p < next_pool h) \<Longrightarrow>
      acc = EMap t (Some (q, es0)) \<Longrightarrow> copies_ok h (exprtk_copy_entries order h es acc)"
proof (induction order h v pool and order h xs acc and order h es acc
    arbitrary: and k vp b and t q es0 rule: copy_induct)
  case (1 order h v pool)
  note unf = exprtk_value_copy_to_pool.simps [of order h v pool]
  show ?case
  proof (cases "exprtk_value_in_pool v pool")
    case True
    with "1.prems"(1) show ?thesis by (simp add: unf copies_ok_def)
  next
    case False
    show ?thesis
    proof (cases v)
      case (ESeq k vp b)
      with "1.IH"(1) [OF False ESeq "1.prems"(1) _ refl] "1.prems"(2,3) False
      show ?thesis unfolding unf by auto
    next
      case (EMap t s)
      have m: "exprtk_val_map t h = (EMap t (Some (next_pool h, [])), h\<lparr>next_pool := Suc (next_pool h)\<rparr>)"
        using "1.prems"(1) by (simp add: exprtk_val_map_def exprtk_map_storage_create_def
            alloc_all_plenty new_pool_def)
      have "copyable (snd e) \<and> next_pool h \<notin> pools (snd e) \<and> (\<forall>p \<in> pools (snd e). p < Suc (next_pool h))"
        if "e \<in> set (store_entries s)" for e
        using "1.prems"(2,3) that unfolding EMap by (auto intro: less_SucI)
      with "1.IH"(2) [OF False EMap m [symmetric] refl refl _ _ refl] "1.prems"(1)
      have "copies_ok (h\<lparr>next_pool := Suc (next_pool h)\<rparr>) (exprtk_copy_entries order
          (h\<lparr>next_pool := Suc (next_pool h)\<rparr>) (store_entries s) (EMap t (Some (next_pool h, []))))"
        by simp
      then show ?thesis using False unfolding unf by (auto simp: EMap m copies_ok_def)
    next
      case (EEnum t s a n m i)
      with "1.prems"(2) have nm: "\<not> buf_broken n" "buf_size n \<noteq> SIZE_MAX \<or> \<not> True"
        "\<not> buf_broken m" "buf_size m \<noteq> SIZE_MAX \<or> \<not> True" by simp_all
      obtain s' n' where n': "exprtk_copy_view h pool n True = (Some (s', n'), h)"
        using copied_view_plenty [OF "1.prems"(1) nm(1,2)] by (cases "buf_size n = 0") auto
      show ?thesis unfolding unf if_not_P [OF False] unfolding EEnum
        by (simp add: n' copies_ok_view [OF "1.prems"(1) nm(3,4)])
    next
      case (ETypedArray kind s b)
      with "1.prems"(2) have "kind \<in> {1, 2, 3, 4}" "\<not> buf_broken b" "buf_size b \<le> SIZE_MAX div 8" by auto
      then show ?thesis unfolding unf if_not_P [OF False] unfolding ETypedArray
        using copies_ok_payload [OF "1.prems"(1)] payload_4 [of b] by auto
    qed (use "1.prems" in \<open>unfold unf if_not_P [OF False], simp_all only: exprtk_value.case copyable.simps
          copies_ok_view copies_ok_payload simp_thms, simp_all add: copies_ok_def\<close>)
  qed
next
  case (2 order h acc)
  then show ?case by (simp add: copies_ok_def)
next
  case (3 order h x xs acc)
  have item: "copies_ok ha (exprtk_value_copy_to_pool order ha x p)"
    if "never_fails ha" "next_pool h \<le> next_pool ha" for ha p
    using "3.IH"(1) [of ha p] that "3.prems"(2) by fastforce
  from list_push_plenty [where copy = "\<lambda>h p. exprtk_value_copy_to_pool order h x p" and k = k and vp = vp
      and b = b, OF "3.prems"(1)] item obtain p b' h' where
    push: "exprtk_list_push_with (\<lambda>h p. exprtk_value_copy_to_pool order h x p) h acc = (0, ESeq k (Some p) b', h')"
      "never_fails h'" "next_pool h \<le> next_pool h'" unfolding "3.prems"(3) by blast
  have "copies_ok h' (exprtk_copy_items order h' xs (ESeq k (Some p) b'))"
    using "3.IH"(2) [OF push(1) [symmetric] refl _ push(2) _ refl] "3.prems"(2) push(3) by fastforce
  then show ?case using push by (auto simp: copies_ok_def)
next
  case (4 order h acc)
  then show ?case by (simp add: copies_ok_def)
next
  case (5 order h e es acc)
  have item: "copies_ok h (exprtk_value_copy_to_pool order h (snd e) q)"
    using "5.IH"(1) [of h q] "5.prems" by fastforce
  have "\<not> same_storage (snd e) (EMap t (Some (q, es0)))" using same_storage_pools "5.prems"(2) by fastforce
  from map_set_plenty [where copy = "\<lambda>h p. exprtk_value_copy_to_pool order h (snd e) p", OF "5.prems"(1) item this]
  obtain es' h' where step: "exprtk_map_set_with order (\<lambda>h p. exprtk_value_copy_to_pool order h (snd e) p) h acc
      (fst e) (snd e) = (0, EMap t (Some (q, es')), h')" "never_fails h'" "next_pool h \<le> next_pool h'"
    unfolding "5.prems"(3) by blast
  have "copies_ok h' (exprtk_copy_entries order h' es (EMap t (Some (q, es'))))"
    using "5.IH"(2) [OF step(1) [symmetric] refl _ step(2) _ refl] "5.prems"(2) step(3) by fastforce
  then show ?case using step by (auto simp: copies_ok_def)
qed

text \<open>
  The copy fails only for lack of memory.  When every allocation succeeds, a value without
  dangling buffers, whose pools all exist already, is copied into any pool.
\<close>

theorem copy_succeeds:
  assumes "never_fails h" and "copyable v" and "\<forall>p \<in> pools v. p < next_pool h"
  shows "\<exists>v' h'. exprtk_value_copy_to_pool order h v pool = (Some v', h')"
  using copy_plenty(1) [OF assms, of order pool] by (auto simp: copies_ok_def)

theorem copy_succeeds_witness:
  "\<exists>v' h'. exprtk_value_copy_to_pool rev plenty example_value 5 = (Some v', h')"
  by (rule copy_succeeds) (auto simp: plenty_def example_value_def)

section \<open>Maps as keyed tables\<close>

definition entries_update ::
  "order \<Rightarrow> (bytes \<times> 'v) list \<Rightarrow> bytes \<Rightarrow> 'v \<Rightarrow> (bytes \<times> 'v) list" where
  "entries_update order es key v =
     (if map_of es key \<noteq> None then hash_map_replace es key v else hash_map_put order es key v)"

lemma map_of_replace:
  "map_of (hash_map_replace es key v) x =
     (if x = key \<and> map_of es key \<noteq> None then Some v else map_of es x)"
  by (induction es) (auto simp: hash_map_replace_def)

lemma replace_map_of:
  "map_of es key \<noteq> None \<Longrightarrow> map_of (hash_map_replace es key v) = (map_of es)(key \<mapsto> v)"
  by (rule ext) (simp add: map_of_replace)

lemma replace_keys: "map fst (hash_map_replace es key v) = map fst es"
  by (simp add: hash_map_replace_def)

interpretation map_entries:
  keyed_table map_of "entries_update order" "\<lambda>es. order_laws order \<and> distinct (map fst es)" for order
  by unfold_locales
    (metis entries_update_def replace_map_of put_map_of, metis entries_update_def replace_keys put_keys(1))

text \<open>What \<^verbatim>\<open>exprtk_map_set\<close> does to the entries, on success and on failure.\<close>

lemma map_set_entries:
  assumes "exprtk_map_set order h m key v = (r, m', h')"
  shows "r \<noteq> 0 \<and> r = -1 \<and> exprtk_map_entries m' = exprtk_map_entries m \<or>
    r = 0 \<and> (\<exists>h1 p stored h2. exprtk_value_copy_to_pool order h1 v p = (Some stored, h2) \<and>
      exprtk_map_entries m' = entries_update order (exprtk_map_entries m) key stored)"
proof (cases m)
  case (EMap t s)
  show ?thesis
  proof (cases s)
    case None
    with assms EMap show ?thesis
      by (auto simp: exprtk_map_set_def exprtk_map_set_with_def exprtk_map_insert_def
          exprtk_map_storage_create_def new_pool_def entries_update_def Let_def
          split: prod.splits option.splits if_splits) blast+
  next
    case (Some ps)
    then obtain p es where "s = Some (p, es)" by (cases ps) auto
    with assms EMap show ?thesis
      by (auto simp: exprtk_map_set_def exprtk_map_set_with_def exprtk_map_insert_def
          entries_update_def Let_def split: prod.splits option.splits if_splits) blast+
  qed
qed (use assms in \<open>auto simp: exprtk_map_set_def exprtk_map_set_with_def\<close>)

text \<open>
  Storing in a map.  A successful \<^verbatim>\<open>exprtk_map_set\<close> makes exactly the given key map to a
  value of the same content and leaves every other key alone; a failed one leaves the map as it
  was.
\<close>

theorem map_set_get:
  assumes "order_laws order" and "vwf m" and "vwf v"
    and run: "exprtk_map_set order h m key v = (r, m', h')"
  shows "if r = 0
    then content (exprtk_map_get m' key) = content v \<and> exprtk_map_has m' key = 1 \<and>
      (\<forall>k. k \<noteq> key \<longrightarrow> exprtk_map_get m' k = exprtk_map_get m k \<and>
                          exprtk_map_has m' k = exprtk_map_has m k)
    else r = -1 \<and> (\<forall>k. exprtk_map_get m' k = exprtk_map_get m k \<and>
                          exprtk_map_has m' k = exprtk_map_has m k)"
proof -
  have inv: "order_laws order \<and> distinct (map fst (exprtk_map_entries m))"
    using assms(1,2) by (cases m) auto
  from map_set_entries [OF run] show ?thesis
  proof (elim disjE conjE exE)
    fix h1 p stored h2
    assume r: "r = 0" and c: "exprtk_value_copy_to_pool order h1 v p = (Some stored, h2)"
      and e: "exprtk_map_entries m' = entries_update order (exprtk_map_entries m) key stored"
    have "content stored = content v" using copy_ok(1) [OF assms(1,3) c] by (simp add: copied_as_def)
    then show ?thesis using r
      by (simp add: exprtk_map_get_def exprtk_map_has_def e map_entries.lookup_update [OF inv])
  qed (simp add: exprtk_map_get_def exprtk_map_has_def)
qed

theorem map_set_get_witness:
  "\<exists>m' h'. exprtk_map_set rev plenty example_value ''z'' (EBool 1) = (0, m', h') \<and>
     content (exprtk_map_get m' ''z'') = CBool 1 \<and>
     exprtk_map_get m' ''k'' = exprtk_map_get example_value ''k''"
proof -
  obtain m' h' where run: "exprtk_map_set rev plenty example_value ''z'' (EBool 1) = (0, m', h')"
    by (simp add: exprtk_map_set_def example_value_def plenty_def copy_eval)
  have "order_laws rev" by (simp add: order_laws_def)
  moreover have "vwf example_value" by (simp add: example_value_def buf_fits_def)
  ultimately show ?thesis using map_set_get [OF _ _ _ run] run by simp
qed

end
