(* ===== verification/Host_Convert.thy ===== *)
theory Host_Convert
  imports Host_Copy Exprtk_Value
begin

text \<open>
  Conversions between the borrowed views of the embedder and script values
  (\<^verbatim>\<open>turbo_script/src/host/turbo_script_host_result.c\<close>):
  \<^verbatim>\<open>ts_host_build_exprtk_value\<close> and \<^verbatim>\<open>ts_host_value_from_view_in_env\<close> for the arguments of a
  call, \<^verbatim>\<open>ts_host_exprtk_to_view\<close> for its result.
\<close>

section \<open>From views to script values\<close>

text \<open>
  \<^verbatim>\<open>ts_host_build_exprtk_value\<close>, with fuel like the copy of a view: the view was validated before.
  A failed build leaves the target as its caller initialised it, the null value.  A string value
  borrows the bytes of the view; the copies of the record keys go to the key arena.
\<close>

function (sequential) ts_host_build_exprtk_value ::
    "order \<Rightarrow> nat \<Rightarrow> view_mem \<Rightarrow> heap \<Rightarrow> value_view \<Rightarrow> (status \<times> exprtk_value \<times> heap) option"
  and ts_host_build_items ::
    "order \<Rightarrow> nat \<Rightarrow> view_mem \<Rightarrow> heap \<Rightarrow> addr \<Rightarrow> nat list \<Rightarrow> exprtk_value \<Rightarrow>
     (status \<times> exprtk_value \<times> heap) option"
  and ts_host_build_entries ::
    "order \<Rightarrow> nat \<Rightarrow> view_mem \<Rightarrow> heap \<Rightarrow> addr \<Rightarrow> nat list \<Rightarrow> exprtk_value \<Rightarrow>
     (status \<times> exprtk_value \<times> heap) option"
  where
  "ts_host_build_exprtk_value order 0 M h source = None"
| "ts_host_build_exprtk_value order (Suc f) M h source =
     (case vv_as source of
        VNull \<Rightarrow> Some (STATUS_OK, ENull, h)
      | VBool b \<Rightarrow> Some (STATUS_OK, exprtk_val_bool (uint b), h)
      | VInt64 i \<Rightarrow> Some (STATUS_OK, EInteger i, h)
      | VNumber d \<Rightarrow> Some (STATUS_OK, ENumber d, h)
      | VString s \<Rightarrow> Some (STATUS_OK, EString None s, h)
      | VArray items n \<Rightarrow>
          ts_host_build_items order f M h (the items) [0..<unat n] exprtk_val_list_empty
      | VRecord entries n \<Rightarrow>
          (case exprtk_val_map VAL_MAP h of
             (EMap t None, h1) \<Rightarrow> Some (STATUS_OUT_OF_MEMORY, ENull, h1)
           | (m, h1) \<Rightarrow> ts_host_build_entries order f M h1 (the entries) [0..<unat n] m)
      | VOther k \<Rightarrow> Some (STATUS_VALIDATION_ERROR, ENull, h))"
| "ts_host_build_items order f M h p [] value = Some (STATUS_OK, value, h)"
| "ts_host_build_items order f M h p (i # is) value =
     (case ts_host_build_exprtk_value order f M h (vm_value M (item_addr p i)) of
        None \<Rightarrow> None
      | Some (s, child, h1) \<Rightarrow>
          if s \<noteq> STATUS_OK then Some (s, ENull, h1)
          else
            (case exprtk_list_push order h1 value child of
               (r, value', h2) \<Rightarrow>
                 if r \<noteq> 0 then Some (STATUS_OUT_OF_MEMORY, ENull, h2)
                 else ts_host_build_items order f M h2 p is value'))"
| "ts_host_build_entries order f M h p [] value = Some (STATUS_OK, value, h)"
| "ts_host_build_entries order f M h p (i # is) value =
     (let key = c_string (buf_elems (vm_key M (entry_addr p i)));
          (ok, h1) = alloc h
      in if \<not> ok then Some (STATUS_OUT_OF_MEMORY, ENull, h1)
         else
           (case ts_host_build_exprtk_value order f M h1 (vm_value M (entry_value_addr p i)) of
              None \<Rightarrow> None
            | Some (s, child, h2) \<Rightarrow>
                if s \<noteq> STATUS_OK then Some (s, ENull, h2)
                else
                  (case exprtk_map_set order h2 value key child of
                     (r, value', h3) \<Rightarrow>
                       if r \<noteq> 0 then Some (STATUS_OUT_OF_MEMORY, ENull, h3)
                       else ts_host_build_entries order f M h3 p is value')))"

  by pat_completeness auto
termination
  by (relation "measures
       [\<lambda>x. case x of
            Inl (order, f, M, h, v) \<Rightarrow> f
          | Inr (Inl (order, f, M, h, p, is, v)) \<Rightarrow> f
          | Inr (Inr (order, f, M, h, p, is, v)) \<Rightarrow> f,
        \<lambda>x. case x of
            Inl (order, f, M, h, v) \<Rightarrow> 0
          | Inr (Inl (order, f, M, h, p, is, v)) \<Rightarrow> Suc (length is)
          | Inr (Inr (order, f, M, h, p, is, v)) \<Rightarrow> Suc (length is)]")
    simp_all

declare ts_host_build_exprtk_value.simps(2) [simp del]

text \<open>
  \<^verbatim>\<open>ts_host_value_from_view_in_env\<close>: validation, a temporary value, and its copy into the
  environment.  The result is the status and the output value; \<open>None\<close> would be running out of
  fuel, which \<open>value_from_view_terminates\<close> below excludes.
\<close>

definition ts_host_value_from_view_in_env ::
  "('a, 'b) salts \<Rightarrow> order \<Rightarrow> view_mem \<Rightarrow> heap \<Rightarrow> exprtk_env option \<Rightarrow> addr option \<Rightarrow>
   value_limits option \<Rightarrow> (status \<times> exprtk_value \<times> exprtk_env option \<times> heap) option" where
  "ts_host_value_from_view_in_env E order M h target_env value limits =
     (case target_env of
        None \<Rightarrow> Some (STATUS_INVALID_ARGUMENT, ENull, None, h)
      | Some env \<Rightarrow>
          let s = ts_host_validate_value_view E M value limits in
          if s \<noteq> STATUS_OK then Some (s, ENull, target_env, h)
          else
            let (ok, h1) = alloc h in
            if \<not> ok then Some (STATUS_OUT_OF_MEMORY, ENull, target_env, h1)
            else
              (case ts_host_build_exprtk_value order (unat (max_depth (the limits))) M h1
                      (vm_value M (the value)) of
                 None \<Rightarrow> None
               | Some (s, temporary, h2) \<Rightarrow>
                   if s \<noteq> STATUS_OK then Some (s, ENull, target_env, h2)
                   else
                     (case exprtk_value_copy_to_env order h2 temporary env of
                        (Some out, env', h3) \<Rightarrow> Some (STATUS_OK, out, Some env', h3)
                      | (None, env', h3) \<Rightarrow> Some (STATUS_OUT_OF_MEMORY, ENull, Some env', h3))))"

section \<open>The content of a tree\<close>

text \<open>What script value content a tree of the embedder stands for.\<close>

fun tval :: "tree \<Rightarrow> econtent" where
  "tval TNull = CNull"
| "tval (TBool b) = CBool (uint b)"
| "tval (TInt i) = CInteger i"
| "tval (TNum d) = CNumber d"
| "tval (TStr s) = CString s"
| "tval (TArr ts) = CSeq VAL_LIST (map tval ts)"
| "tval (TRec es) = CMap VAL_MAP (map_of (map (\<lambda>e. (fst e, tval (snd e))) es))"

lemma map_of_map_snd: "map_of (map (\<lambda>e. (fst e, g (snd e))) es) = map_option g \<circ> map_of es"
  by (induction es) auto

definition build_result ::
  "heap \<Rightarrow> econtent \<Rightarrow> (status \<times> exprtk_value \<times> heap) option \<Rightarrow> bool" where
  "build_result h c r \<longleftrightarrow>
     (\<exists>s x h'. r = Some (s, x, h') \<and> s \<in> {STATUS_OK, STATUS_OUT_OF_MEMORY} \<and>
        (s = STATUS_OK \<longrightarrow> content x = c \<and> vwf x \<and> next_pool h \<le> next_pool h'))"

lemma build_result_Some:
  "build_result h c (Some (s, x, h')) \<longleftrightarrow>
     s \<in> {STATUS_OK, STATUS_OUT_OF_MEMORY} \<and> (s = STATUS_OK \<longrightarrow> content x = c \<and> vwf x \<and> next_pool h \<le> next_pool h')"
  by (simp add: build_result_def)

lemma build_result_mono: "build_result h1 c r \<Longrightarrow> next_pool h \<le> next_pool h1 \<Longrightarrow> build_result h c r"
  by (fastforce simp: build_result_def)

lemma list_push_cases:
  assumes "order_laws order" and "vwf item" and "exprtk_list_push order h (ESeq k vp b) item = (r, value', h')"
  shows "r = -1 \<or> r = 0 \<and> (\<exists>p stored. value' = ESeq k (Some p) (Buf (buf_elems b @ [stored])) \<and>
    content stored = content item \<and> vwf stored \<and> next_pool h \<le> next_pool h')"
proof (cases "r = 0")
  case True
  with assms(3) have "exprtk_list_push_with (\<lambda>h p. exprtk_value_copy_to_pool order h item p) h (ESeq k vp b)
      = (0, value', h')" by (simp add: exprtk_list_push_def)
  then show ?thesis
    by (rule list_push_ok) (use True copy_ok(1) [OF assms(1,2)] in \<open>fastforce simp: copied_as_def dest: list_pool_ok\<close>)
next
  case False
  with assms(3) show ?thesis
    by (auto simp: exprtk_list_push_def exprtk_list_push_with_def Let_def
        split: prod.splits option.splits if_splits)
qed

lemma map_set_cases:
  assumes "order_laws order" and "vwf v"
    and run: "exprtk_map_set order h (EMap t (Some (p, es))) key v = (r, m', h')"
  shows "r = -1 \<or> r = 0 \<and> (\<exists>stored. m' = EMap t (Some (p, entries_update order es key stored)) \<and>
    content stored = content v \<and> vwf stored \<and> next_pool h \<le> next_pool h')"
proof -
  obtain c h1 where c: "exprtk_value_copy_to_pool order h v p = (c, h1)"
    by (cases "exprtk_value_copy_to_pool order h v p") auto
  obtain ok h2 where al: "alloc_all 2 h1 = (ok, h2)" by (cases "alloc_all 2 h1") auto
  have "c = Some v' \<Longrightarrow> content v' = content v \<and> vwf v' \<and> next_pool h \<le> next_pool h1" for v'
    using copy_ok(1) [OF assms(1,2)] c by (auto simp: copied_as_def)
  with run alloc_all_next_pool [OF al] show ?thesis
    by (auto simp: exprtk_map_set_def exprtk_map_set_with_def exprtk_map_insert_def
        entries_update_def c al split: option.splits if_splits)
qed

lemma entries_update_facts:
  assumes "order_laws order" and "distinct (map fst es)"
  shows "length (entries_update order es key v) \<le> Suc (length es)"
    and "\<forall>e \<in> set es. vwf (snd e) \<Longrightarrow> vwf v \<Longrightarrow> \<forall>e \<in> set (entries_update order es key v). vwf (snd e)"
    and "fst ` set (entries_update order es key v) \<subseteq> insert key (fst ` set es)"
  using put_length [OF assms] put_keys(2) [OF assms]
  by (auto simp: entries_update_def hash_map_replace_def)

lemma build_items_ok:
  assumes laws: "order_laws order"
    and IH: "\<And>h i. i \<in> set is \<Longrightarrow>
      build_result h (tval (ts i)) (ts_host_build_exprtk_value order f M h (vm_value M (item_addr p i)))"
  shows "\<forall>x \<in> set (buf_elems b). vwf x \<Longrightarrow> length (buf_elems b) + length is < 2 ^ 64 \<Longrightarrow>
    build_result h (CSeq k (map content (buf_elems b) @ map (\<lambda>i. tval (ts i)) is))
      (ts_host_build_items order f M h p is (ESeq k vp b))"
  using IH
proof (induction "is" arbitrary: h vp b)
  case Nil
  then show ?case by (auto simp: build_result_Some buf_fits_def)
next
  case (Cons i "is")
  from Cons.prems(3) [of i h] obtain s x h1 where
    b: "ts_host_build_exprtk_value order f M h (vm_value M (item_addr p i)) = Some (s, x, h1)"
      "s \<in> {STATUS_OK, STATUS_OUT_OF_MEMORY}" "s = STATUS_OK \<Longrightarrow> content x = tval (ts i) \<and> vwf x \<and> next_pool h \<le> next_pool h1"
    by (auto simp: build_result_def)
  show ?case
  proof (cases "s = STATUS_OK")
    case False
    with b show ?thesis by (simp add: build_result_Some)
  next
    case True
    obtain r value' h2 where push: "exprtk_list_push order h1 (ESeq k vp b) x = (r, value', h2)"
      by (metis prod_cases3)
    from list_push_cases [OF laws conjunct1 [OF conjunct2 [OF b(3) [OF True]]] push] show ?thesis
    proof (elim disjE conjE exE)
      assume "r = -1"
      with b True push show ?thesis by (simp add: build_result_Some)
    next
      fix q stored
      assume r: "r = 0" and st: "value' = ESeq k (Some q) (Buf (buf_elems b @ [stored]))"
        "content stored = content x" "vwf stored" "next_pool h1 \<le> next_pool h2"
      have "build_result h2 (CSeq k (map content (buf_elems (Buf (buf_elems b @ [stored]))) @
            map (\<lambda>i. tval (ts i)) is))
          (ts_host_build_items order f M h2 p is (ESeq k (Some q) (Buf (buf_elems b @ [stored]))))"
        by (rule Cons.IH) (use Cons.prems st(3) in auto)
      from build_result_mono [OF this] b True push r st show ?thesis by simp
    qed
  qed
qed

lemma build_entries_ok:
  fixes key :: "nat \<Rightarrow> bytes"
  assumes laws: "order_laws order"
    and IH: "\<And>h i. i \<in> set is \<Longrightarrow>
      build_result h (tval (ts i)) (ts_host_build_exprtk_value order f M h (vm_value M (entry_value_addr p i)))"
    and key: "\<And>i. i \<in> set is \<Longrightarrow> key i = c_string (buf_elems (vm_key M (entry_addr p i))) \<and> length (key i) < 2 ^ 64"
  shows "distinct (map fst es) \<Longrightarrow>
    (\<forall>e \<in> set es. vwf (snd e)) \<and> (\<forall>k \<in> fst ` set es. length k < 2 ^ 64) \<Longrightarrow> length es + length is < 2 ^ 64 \<Longrightarrow>
    distinct (map key is) \<Longrightarrow>
    build_result h
      (CMap t ((map_option content \<circ> map_of es) ++ map_of (map (\<lambda>i. (key i, tval (ts i))) is)))
      (ts_host_build_entries order f M h p is (EMap t (Some (q, es))))"
  using IH key
proof (induction "is" arbitrary: h es)
  case Nil
  then show ?case by (simp add: build_result_Some content_map o_def del: content.simps)
next
  case (Cons i "is")
  obtain ok h1 where al: "alloc h = (ok, h1)" by (cases "alloc h") auto
  from Cons.prems(5) [of i h1] obtain s x h2 where
    b: "ts_host_build_exprtk_value order f M h1 (vm_value M (entry_value_addr p i)) = Some (s, x, h2)"
      "s \<in> {STATUS_OK, STATUS_OUT_OF_MEMORY}" "s = STATUS_OK \<Longrightarrow> content x = tval (ts i) \<and> vwf x \<and> next_pool h1 \<le> next_pool h2"
    by (auto simp: build_result_def)
  note ki = conjunct1 [OF Cons.prems(6) [of i], symmetric, simplified]
  show ?case
  proof (cases "ok \<and> s = STATUS_OK")
    case False
    with al b show ?thesis by (auto simp: build_result_Some)
  next
    case True
    obtain r m' h3 where set: "exprtk_map_set order h2 (EMap t (Some (q, es))) (key i) x = (r, m', h3)"
      by (metis prod_cases3)
    from map_set_cases [OF laws conjunct1 [OF conjunct2 [OF b(3) [OF conjunct2 [OF True]]]] set] show ?thesis
    proof (elim disjE conjE exE)
      assume "r = -1"
      with al b True set show ?thesis by (simp add: build_result_Some ki)
    next
      fix stored
      assume r: "r = 0" and st: "m' = EMap t (Some (q, entries_update order es (key i) stored))"
        "content stored = content x" "vwf stored" "next_pool h2 \<le> next_pool h3"
      have inv: "order_laws order \<and> distinct (map fst es)" using laws Cons.prems(1) by simp
      let ?U = "entries_update order es (key i) stored"
      note upd = entries_update_facts [OF laws Cons.prems(1), where key = "key i" and v = stored]
      have len: "length (key i) < 2 ^ 64" by (rule conjunct2 [OF Cons.prems(6)]) simp
      have keysU: "length k < 2 ^ 64" if "k \<in> fst ` set ?U" for k
      proof -
        from that upd(3) have "k = key i \<or> k \<in> fst ` set es" by blast
        with len Cons.prems(2) show ?thesis by blast
      qed
      have wfU: "\<forall>e \<in> set ?U. vwf (snd e)" using Cons.prems(2) st(3) upd(2) by blast
      have run: "build_result h3
          (CMap t ((map_option content \<circ> map_of ?U) ++ map_of (map (\<lambda>i. (key i, tval (ts i))) is)))
          (ts_host_build_entries order f M h3 p is m')"
        unfolding st(1)
      proof (rule Cons.IH)
        show "distinct (map fst ?U)" using map_entries.inv_update [OF inv] by blast
        show "(\<forall>e \<in> set ?U. vwf (snd e)) \<and> (\<forall>k \<in> fst ` set ?U. length k < 2 ^ 64)" using wfU keysU by blast
        show "length ?U + length is < 2 ^ 64" "distinct (map key is)" using upd(1) Cons.prems(3,4) by auto
      qed (rule Cons.prems(5), simp, rule Cons.prems(6), simp)
      have none: "map_of (map (\<lambda>i. (key i, tval (ts i))) is) (key i) = None"
        using Cons.prems(4) by (auto simp: map_of_eq_None_iff image_image)
      have add: "(map_option content \<circ> map_of (entries_update order es (key i) stored)) ++
            map_of (map (\<lambda>i. (key i, tval (ts i))) is) =
          (map_option content \<circ> map_of es) ++ map_of (map (\<lambda>i. (key i, tval (ts i))) (i # is))"
        using none st(2) b(3) True unfolding map_entries.lookup_update [OF inv]
        by (auto simp: fun_eq_iff map_add_def split: option.splits)
      have "ts_host_build_entries order f M h p (i # is) (EMap t (Some (q, es))) =
          ts_host_build_entries order f M h3 p is m'" using al b True set r by (simp add: ki)
      then show ?thesis using build_result_mono [OF run [unfolded add], of h] st(4) b(3) True
          alloc_next_pool [OF al] by (simp only:) linarith
    qed
  qed
qed

lemma val_map_result:
  obtains s h1 where "exprtk_val_map t h = (EMap t s, h1)" "\<And>q es0. s = Some (q, es0) \<Longrightarrow> es0 = []"
    "next_pool h \<le> next_pool h1"
proof -
  obtain ok h0 where al: "alloc_all 4 h = (ok, h0)" by (cases "alloc_all 4 h") auto
  with alloc_all_next_pool [OF al] that show thesis
    by (cases ok) (auto simp: exprtk_val_map_def exprtk_map_storage_create_def new_pool_def)
qed

lemma c_string_id: "CHR 0x00 \<notin> set bs \<Longrightarrow> c_string bs = bs"
  by (auto simp: c_string_def takeWhile_eq_all_conv)

lemma build_ok:
  assumes laws: "order_laws order" and fits: "mem_fits M"
  shows "tree_of f M a = Some t \<Longrightarrow> twf U t \<Longrightarrow>
    build_result h (tval t) (ts_host_build_exprtk_value order f M h (vm_value M a))"
  unfolding tree_of_tree_at
proof (induction f arbitrary: a t h)
  case 0
  then show ?case by simp
next
  case (Suc f)
  note unf = ts_host_build_exprtk_value.simps(2)
  show ?case
  proof (cases "vv_as (vm_value M a)")
    case (VString s)
    with fits have "buf_fits s" by (auto simp: mem_fits_def)
    with VString Suc.prems show ?thesis by (auto simp: unf build_result_Some split: if_splits)
  next
    case (VBool b)
    have "exprtk_val_bool (uint b) = EBool (uint b)" if "b \<le> 1"
    proof -
      have "0 \<le> uint b" "uint b \<le> 1" using that by (simp_all add: word_le_def)
      then have "uint b = 0 \<or> uint b = 1" by linarith
      then show ?thesis by (auto simp: exprtk_val_bool_def)
    qed
    with VBool Suc.prems show ?thesis by (auto simp: unf build_result_Some split: if_splits)
  next
    case (VArray items n)
    with Suc.prems(1) obtain ts where t: "t = TArr ts"
      and ts: "those (map (\<lambda>i. tree_at f M (vm_value M (item_addr (the items) i))) [0..<unat n]) = Some ts"
      by (auto split: if_splits)
    have "build_result h (tval (ts ! i)) (ts_host_build_exprtk_value order f M h (vm_value M (item_addr (the items) i)))"
      if "i \<in> set [0..<unat n]" for h i
      using Suc.prems(2) that ts by (intro Suc.IH) (auto simp: t those_map_Some)
    from build_items_ok [where ?is = "[0..<unat n]", OF laws this, where b = "NullBuf 0" and k = VAL_LIST and vp = None and h = h]
    have "build_result h (CSeq VAL_LIST (map (\<lambda>i. tval (ts ! i)) [0..<unat n]))
        (ts_host_build_items order f M h (the items) [0..<unat n] (ESeq VAL_LIST None (NullBuf 0)))"
      using unat_lt_2_64 [of n] by simp
    moreover have "map (\<lambda>i. tval (ts ! i)) [0..<unat n] = map tval ts"
      using ts by (intro nth_equalityI) (auto simp: those_map_Some)
    ultimately show ?thesis using VArray t
      by (simp add: unf exprtk_val_list_empty_def build_result_def)
  next
    case (VRecord entries n)
    with Suc.prems(1) obtain es where t: "t = TRec es"
      and es: "those (map (\<lambda>i. map_option (Pair (buf_elems (vm_key M (entry_addr (the entries) i))))
        (tree_at f M (vm_value M (entry_value_addr (the entries) i)))) [0..<unat n]) = Some es"
      by (auto split: if_splits)
    have len: "length es = unat n" using es by (simp add: those_map_Some)
    have el: "tree_at f M (vm_value M (entry_value_addr (the entries) i)) = Some (snd (es ! i)) \<and>
        fst (es ! i) = buf_elems (vm_key M (entry_addr (the entries) i))" if "i < unat n" for i
      using that es by (cases "es ! i") (auto simp: those_map_Some)
    have wf: "CHR 0x00 \<notin> set (fst (es ! i)) \<and> twf U (snd (es ! i))" if "i < unat n" for i
      using Suc.prems(2) that len by (auto simp: t)
    have IH: "build_result h (tval (snd (es ! i)))
        (ts_host_build_exprtk_value order f M h (vm_value M (entry_value_addr (the entries) i)))"
      if "i \<in> set [0..<unat n]" for h i
      using el [of i] wf [of i] that by (intro Suc.IH) auto
    have keys: "fst (es ! i) = c_string (buf_elems (vm_key M (entry_addr (the entries) i))) \<and>
        length (fst (es ! i)) < 2 ^ 64" if "i \<in> set [0..<unat n]" for i
      using el [of i] wf [of i] that fits by (auto simp: c_string_id mem_fits_def buf_fits_def)
    have es_map: "map (\<lambda>i. g (es ! i)) [0..<unat n] = map g es" for g :: "bytes \<times> tree \<Rightarrow> 'c"
      by (rule nth_equalityI) (auto simp: len)
    have dist: "distinct (map (\<lambda>i. fst (es ! i)) [0..<unat n])"
      using Suc.prems(2) by (simp add: t es_map [of fst])
    obtain s h1 where m: "exprtk_val_map VAL_MAP h = (EMap VAL_MAP s, h1)"
      and s: "\<And>q es0. s = Some (q, es0) \<Longrightarrow> es0 = []" and h1: "next_pool h \<le> next_pool h1"
      using val_map_result by blast
    show ?thesis
    proof (cases s)
      case None
      with VRecord m show ?thesis by (simp add: unf build_result_def)
    next
      case (Some x)
      with s obtain q where q: "s = Some (q, [])" by (cases x) auto
      from build_entries_ok [where ?is = "[0..<unat n]" and key = "\<lambda>i. fst (es ! i)", OF laws IH keys,
          where es = "[]" and t = VAL_MAP and q = q and h = h1] dist
      have "build_result h1 (CMap VAL_MAP (map_of (map (\<lambda>i. (fst (es ! i), tval (snd (es ! i)))) [0..<unat n])))
          (ts_host_build_entries order f M h1 (the entries) [0..<unat n] (EMap VAL_MAP (Some (q, []))))"
        using unat_lt_2_64 [of n] by (simp add: o_def)
      from build_result_mono [OF this h1] show ?thesis using VRecord m q t
        by (simp add: unf es_map [of "\<lambda>e. (fst e, tval (snd e))"])
    qed
  qed (use Suc.prems in \<open>auto simp: unf build_result_Some split: if_splits\<close>)
qed

section \<open>The contract of the conversion\<close>

lemma validate_view_ok:
  assumes "key_set_laws E keys_of" and "mem_fits M"
    and "ts_host_validate_value_view E M value limits = STATUS_OK"
  obtains a L t where "value = Some a" "limits = Some L" "tree_of (unat (max_depth L)) M a = Some t"
    "twf (utf8_valid E) t"
proof -
  from assms(3) obtain a where a: "value = Some a"
    "ts_host_validate_value_views E M (Some a) 1 limits = STATUS_OK"
    by (auto simp: ts_host_validate_value_view_def split: if_splits)
  then obtain L where L: "limits = Some L"
    by (auto simp: ts_host_validate_value_views_def split: option.splits)
  from views_sound [OF assms(1,2) a(2) [unfolded L]] that [OF a(1) L] show ?thesis
    by (auto simp: item_addr_def split: option.splits)
qed

lemma value_from_view_ok:
  assumes laws: "key_set_laws E keys_of" "order_laws order" and fits: "mem_fits M"
  shows "case ts_host_value_from_view_in_env E order M h (Some env) arg limits of
      None \<Rightarrow> False
    | Some (s, out, env', h') \<Rightarrow>
        if s = STATUS_OK
        then \<exists>a L t. arg = Some a \<and> limits = Some L \<and> tree_of (unat (max_depth L)) M a = Some t \<and>
          content out = tval t \<and> vwf out \<and>
          (\<forall>p \<in> pools out. p = env_arena env \<or> next_pool h \<le> p \<and> p < next_pool h')
        else out = ENull"
proof (cases "ts_host_validate_value_view E M arg limits = STATUS_OK")
  case False
  then show ?thesis by (simp add: ts_host_value_from_view_in_env_def)
next
  case True
  from validate_view_ok [OF laws(1) fits True] obtain a L t where v: "arg = Some a" "limits = Some L"
    "tree_of (unat (max_depth L)) M a = Some t" "twf (utf8_valid E) t" .
  obtain ok h1 where al: "alloc h = (ok, h1)" by (cases "alloc h") auto
  from build_ok [OF laws(2) fits v(3,4), of h1] obtain s x h2 where
    b: "ts_host_build_exprtk_value order (unat (max_depth L)) M h1 (vm_value M a) = Some (s, x, h2)"
      "s = STATUS_OK \<Longrightarrow> content x = tval t \<and> vwf x \<and> next_pool h1 \<le> next_pool h2"
    by (auto simp: build_result_def)
  show ?thesis
  proof (cases "ok \<and> s = STATUS_OK")
    case False
    with True al b v show ?thesis by (auto simp: ts_host_value_from_view_in_env_def)
  next
    case ok: True
    obtain r h3 where c: "exprtk_value_copy_to_pool order h2 x (env_arena env) = (r, h3)"
      by (cases "exprtk_value_copy_to_pool order h2 x (env_arena env)") auto
    show ?thesis
    proof (cases r)
      case None
      with True ok al b v c show ?thesis
        by (simp add: ts_host_value_from_view_in_env_def exprtk_value_copy_to_env_def)
    next
      case (Some out)
      with copy_ok(1) [OF laws(2) _ c [unfolded Some]] b(2) ok alloc_next_pool [OF al]
      have "content out = tval t \<and> vwf out \<and> next_pool h \<le> next_pool h2 \<and>
          pools out \<subseteq> insert (env_arena env) {next_pool h2..<next_pool h3}"
        by (auto simp: copied_as_def)
      moreover have "ts_host_value_from_view_in_env E order M h (Some env) arg limits =
          Some (STATUS_OK, out, Some env, h3)"
        using True ok al b v c Some
        by (simp add: ts_host_value_from_view_in_env_def exprtk_value_copy_to_env_def)
      ultimately show ?thesis using v by fastforce
    qed
  qed
qed

text \<open>
  C13: passing an argument into a script.  When \<^verbatim>\<open>ts_host_value_from_view_in_env\<close> succeeds, the view
  of the embedder denotes a tree, the script value has exactly the content of that tree (null,
  booleans, integers, numbers and strings as they are, arrays as lists in the same order, records as
  maps with the same keys), and its data lies in the environment's arena or in pools made by the
  conversion.  On every other path the output value is null; the conversion always returns.
\<close>

theorem value_from_view_content:
  assumes laws: "key_set_laws E keys_of" "order_laws order" and fits: "mem_fits M"
  shows "case ts_host_value_from_view_in_env E order M h (Some env) arg limits of
      None \<Rightarrow> False
    | Some (s, out, env', h') \<Rightarrow>
        if s = STATUS_OK
        then \<exists>a L t. arg = Some a \<and> limits = Some L \<and> tree_of (unat (max_depth L)) M a = Some t \<and>
          content out = tval t \<and> vwf out \<and>
          (\<forall>p \<in> pools out. p = env_arena env \<or> next_pool h \<le> p \<and> p < next_pool h')
        else out = ENull"
  using assms by (rule value_from_view_ok)

definition example_env :: exprtk_env where
  "example_env = \<lparr>env_arena = 5, ee_aborted = False, ee_error_msg = []\<rparr>"

lemma example_valid_view:
  "ts_host_validate_value_view list_salts example_mem (Some 1000) (Some example_limits) = STATUS_OK"
  using example_valid by (simp add: ts_host_validate_value_view_def)

lemma upt_0_2: "[0..<2] = [0, Suc 0]"
  by (simp add: numeral_2_eq_2)

lemma example_from_view_ok:
  "\<exists>out env' h'. ts_host_value_from_view_in_env list_salts id example_mem plenty (Some example_env)
     (Some 1000) (Some example_limits) = Some (STATUS_OK, out, env', h')"
proof -
  have fuel: "unat (max_depth example_limits) = Suc (Suc (Suc (Suc 0)))" by (simp add: example_limits_def)
  have "\<exists>x h. ts_host_build_exprtk_value id (unat (max_depth example_limits)) example_mem plenty
      (vm_value example_mem 1000) = Some (STATUS_OK, x, h) \<and>
      (\<exists>y h'. exprtk_value_copy_to_pool id h x 5 = (Some y, h'))"
    unfolding fuel
    by (simp add: plenty_def example_mem_def ts_host_build_exprtk_value.simps copy_eval
        exprtk_list_push_def exprtk_map_set_def c_string_def item_addr_def entry_addr_def
        entry_value_addr_def exprtk_val_list_empty_def exprtk_val_bool_def upt_0_2 split del: if_split)
  then show ?thesis
    by (auto simp: ts_host_value_from_view_in_env_def example_valid_view plenty_def alloc_plenty
        example_env_def exprtk_value_copy_to_env_def)
qed

theorem value_from_view_content_witness:
  "\<exists>out env' h' t. ts_host_value_from_view_in_env list_salts id example_mem plenty (Some example_env)
     (Some 1000) (Some example_limits) = Some (STATUS_OK, out, env', h') \<and>
     tree_of 4 example_mem 1000 = Some t \<and> content out = tval t"
  using value_from_view_content [OF list_salts_laws order_laws_id example_mem_fits, where h = plenty
      and env = example_env and arg = "Some 1000" and limits = "Some example_limits"] example_from_view_ok
  by (auto simp: example_limits_def)

end
