(* ===== verification/Host_Export.thy ===== *)
theory Host_Export
  imports Host_Convert
begin

text \<open>
  Script values as result views (\<^verbatim>\<open>ts_host_exprtk_view_charge\<close> and
  \<^verbatim>\<open>ts_host_exprtk_to_view\<close> of \<^verbatim>\<open>turbo_script/src/host/turbo_script_host_result.c\<close>): a value
  is laid out as a view in a temporary arena, under the depth, node and byte limits of the call.
\<close>

section \<open>The conversion\<close>

text \<open>
  The file has two copies of this conversion: \<^verbatim>\<open>ts_host_exprtk_to_view\<close> for the result of a call
  and \<^verbatim>\<open>ts_host_arg_view_from_exprtk\<close> (\<^verbatim>\<open>turbo_script_host_registry.c\<close>) for the arguments of a
  host callback.  They differ in the limits, in the status for a null pointer with a nonzero size,
  and in whether the terminating NUL of a string and of a key is paid for; the model is one function
  with these choices as a parameter.
\<close>

record export_style =
  es_utf8 :: "bytes \<Rightarrow> bool"
  es_argument :: bool

definition nul_size :: "export_style \<Rightarrow> size_t" where
  "nul_size K = (if es_argument K then 0 else 1)"

definition broken_status :: "export_style \<Rightarrow> status" where
  "broken_status K = (if es_argument K then STATUS_INVALID_ARGUMENT else STATUS_INVALID_STATE)"

lemma broken_status_not_ok [simp]: "broken_status K \<noteq> STATUS_OK"
  by (simp add: broken_status_def)

text \<open>\<^verbatim>\<open>ts_host_exprtk_view_state_s\<close>, with the memory the arena's arrays live in.\<close>

record 'p xstate =
  xs_mem :: view_mem
  xs_pool :: 'p
  xs_nodes :: size_t
  xs_bytes :: size_t

definition ts_host_exprtk_view_charge ::
  "value_limits \<Rightarrow> 'p xstate \<Rightarrow> size_t \<Rightarrow> size_t \<Rightarrow> status \<times> 'p xstate" where
  "ts_host_exprtk_view_charge L st count element_size =
     (if count \<noteq> 0 \<and> element_size > SIZE_MAX div count then (STATUS_LIMIT_EXCEEDED, st)
      else
        let amount = count * element_size in
        if xs_bytes st > max_bytes L \<or> amount > max_bytes L - xs_bytes st
        then (STATUS_LIMIT_EXCEEDED, st)
        else (STATUS_OK, st\<lparr>xs_bytes := xs_bytes st + amount\<rparr>))"

text \<open>A view after \<^verbatim>\<open>memset\<close>, with its kind and payload set.\<close>

definition view_of :: "view_as \<Rightarrow> value_view" where
  "view_of a = \<lparr>vv_reserved = 0, vv_as = a\<rparr>"

text \<open>The loop that fills the items of a vector.\<close>

fun write_numbers :: "view_mem \<Rightarrow> addr \<Rightarrow> nat \<Rightarrow> u64 list \<Rightarrow> view_mem" where
  "write_numbers M q i [] = M"
| "write_numbers M q i (d # ds) =
     write_numbers (write_view M (item_addr q i) (view_of (VNumber d))) q (Suc i) ds"

definition export_key ::
  "export_style \<Rightarrow> value_limits \<Rightarrow> 'p xstate \<Rightarrow> bool \<Rightarrow> addr \<Rightarrow> nat \<Rightarrow> bytes \<Rightarrow> status \<times> 'p xstate"
  where
  "export_key K L st keyed q i key =
     (if \<not> keyed then (STATUS_OK, st)
      else
        let key_size = of_nat (length key) :: size_t in
        if key_size = 0 then (STATUS_VALIDATION_ERROR, st)
        else if \<not> es_argument K \<and> key_size = SIZE_MAX then (STATUS_LIMIT_EXCEEDED, st)
        else
          let (s, st1) = ts_host_exprtk_view_charge L st (key_size + nul_size K) 1 in
          if s \<noteq> STATUS_OK then (s, st1)
          else if \<not> es_utf8 K key then (STATUS_INVALID_UTF8, st1)
          else (STATUS_OK,
                st1\<lparr>xs_mem := (xs_mem st1)\<lparr>vm_key := (vm_key (xs_mem st1))(entry_addr q i := Buf key)\<rparr>\<rparr>))"

text \<open>
  The start of every container: the count against the remaining nodes, the bytes of the array and
  its allocation; an empty container has no array.
\<close>

definition export_array ::
  "'p arena \<Rightarrow> value_limits \<Rightarrow> 'p xstate \<Rightarrow> size_t \<Rightarrow> size_t \<Rightarrow> status \<times> addr option \<times> 'p xstate" where
  "export_array A L st count element_size =
     (if count > max_nodes L - xs_nodes st then (STATUS_LIMIT_EXCEEDED, None, st)
      else
        let (s, st1) = ts_host_exprtk_view_charge L st count element_size in
        if s \<noteq> STATUS_OK then (s, None, st1)
        else if count = 0 then (STATUS_OK, None, st1)
        else
          (case mem_alloc_array A (xs_pool st1) element_size count of
             (None, pool) \<Rightarrow> (STATUS_OUT_OF_MEMORY, None, st1\<lparr>xs_pool := pool\<rparr>)
           | (Some q, pool) \<Rightarrow> (STATUS_OK, Some q, st1\<lparr>xs_pool := pool\<rparr>)))"

text \<open>
  The conversion of one value.  The loops over the items of a list and the entries of a map are one
  function: \<open>keyed\<close> tells entries, whose key is exported first, from items.  A map's iterator
  yields all its entries, so that the test of the entries visited against the count of the map
  (\<^verbatim>\<open>index != count\<close>) compares the count with the length of the entry list.  The views returned
  on the error paths are not used.
\<close>

function (sequential) value_to_view ::
    "export_style \<Rightarrow> 'p arena \<Rightarrow> value_limits \<Rightarrow> 'p xstate \<Rightarrow> exprtk_value \<Rightarrow> nat \<Rightarrow>
     status \<times> value_view \<times> 'p xstate"
  and value_to_elems ::
    "export_style \<Rightarrow> 'p arena \<Rightarrow> value_limits \<Rightarrow> 'p xstate \<Rightarrow> bool \<Rightarrow> addr \<Rightarrow> nat \<Rightarrow>
     (bytes \<times> exprtk_value) list \<Rightarrow> nat \<Rightarrow> status \<times> 'p xstate"
  where
  "value_to_view K A L st source depth =
     (if depth > unat (max_depth L) \<or> xs_nodes st = max_nodes L
      then (STATUS_LIMIT_EXCEEDED, view_of VNull, st)
      else
        let st = st\<lparr>xs_nodes := xs_nodes st + 1\<rparr> in
        (case source of
           ENull \<Rightarrow> (STATUS_OK, view_of VNull, st)
         | EBool b \<Rightarrow>
             if b \<noteq> 0 \<and> b \<noteq> 1 then (STATUS_VALIDATION_ERROR, view_of VNull, st)
             else (STATUS_OK, view_of (VBool (word_of_int b)), st)
         | EInteger i \<Rightarrow> (STATUS_OK, view_of (VInt64 i), st)
         | ENumber d \<Rightarrow> (STATUS_OK, view_of (VNumber d), st)
         | EString p v \<Rightarrow>
             if buf_broken v then (broken_status K, view_of VNull, st)
             else if \<not> es_argument K \<and> buf_size v = SIZE_MAX then (STATUS_LIMIT_EXCEEDED, view_of VNull, st)
             else
               let (s, st) = ts_host_exprtk_view_charge L st (buf_size v + nul_size K) 1 in
               if s \<noteq> STATUS_OK then (s, view_of VNull, st)
               else if \<not> es_utf8 K (buf_elems v) then (STATUS_INVALID_UTF8, view_of VNull, st)
               else (STATUS_OK, view_of (VString v), st)
         | EVector p v \<Rightarrow>
             if buf_broken v then (broken_status K, view_of VNull, st)
             else
               (case export_array A L st (buf_size v) 24 of
                  (s, q, st) \<Rightarrow>
                    if s \<noteq> STATUS_OK then (s, view_of VNull, st)
                    else
                      (STATUS_OK, view_of (VArray q (buf_size v)),
                       st\<lparr>xs_mem := write_numbers (xs_mem st) (the q) 0 (buf_elems v),
                          xs_nodes := xs_nodes st + buf_size v\<rparr>))
         | ESeq VAL_LIST p b \<Rightarrow>
             if buf_broken b then (broken_status K, view_of VNull, st)
             else
               (case export_array A L st (buf_size b) 24 of
                  (s, q, st) \<Rightarrow>
                    if s \<noteq> STATUS_OK then (s, view_of VNull, st)
                    else
                      (case value_to_elems K A L st False (the q) 0
                              (map (Pair []) (buf_elems b)) (Suc depth) of
                         (s, st) \<Rightarrow>
                           if s \<noteq> STATUS_OK then (s, view_of VNull, st)
                           else (STATUS_OK, view_of (VArray q (buf_size b)), st)))
         | EMap t m \<Rightarrow>
             (case export_array A L st (exprtk_map_count source) 40 of
                (s, q, st) \<Rightarrow>
                  if s \<noteq> STATUS_OK then (s, view_of VNull, st)
                  else
                    (case value_to_elems K A L st True (the q) 0 (store_entries m)
                            (Suc depth) of
                       (s, st) \<Rightarrow>
                         if s \<noteq> STATUS_OK then (s, view_of VNull, st)
                         else if of_nat (length (store_entries m)) \<noteq> exprtk_map_count source
                         then (STATUS_INVALID_STATE, view_of VNull, st)
                         else (STATUS_OK, view_of (VRecord q (exprtk_map_count source)), st)))
         | _ \<Rightarrow> (STATUS_VALIDATION_ERROR, view_of VNull, st)))"
| "value_to_elems K A L st keyed q i [] depth = (STATUS_OK, st)"
| "value_to_elems K A L st keyed q i (e # es) depth =
     (case export_key K L st keyed q i (fst e) of
        (s, st1) \<Rightarrow>
          if s \<noteq> STATUS_OK then (s, st1)
          else
            (case value_to_view K A L st1 (snd e) depth of
               (s, v, st2) \<Rightarrow>
                 if s \<noteq> STATUS_OK then (s, st2)
                 else
                   value_to_elems K A L
                     (st2\<lparr>xs_mem := write_view (xs_mem st2) (elem_addr keyed q i) v\<rparr>) keyed q
                     (Suc i) es depth))"
  by pat_completeness auto

termination
  by (relation "measure
       (\<lambda>x. case x of
            Inl (K, A, L, st, v, depth) \<Rightarrow> size v
          | Inr (K, A, L, st, keyed, q, i, es, depth) \<Rightarrow> size_list (\<lambda>e. size (snd e)) es)")
    (auto simp: less_Suc_eq_le size_buf_elems size_store_entries o_def)

declare value_to_view.simps [simp del]

lemmas to_view_induct = value_to_view_value_to_elems.induct

text \<open>The conversion of a call's result.\<close>

definition result_style :: "(bytes \<Rightarrow> bool) \<Rightarrow> export_style" where
  "result_style utf8 = \<lparr>es_utf8 = utf8, es_argument = False\<rparr>"

definition ts_host_exprtk_to_view ::
  "(bytes \<Rightarrow> bool) \<Rightarrow> 'p arena \<Rightarrow> value_limits \<Rightarrow> 'p xstate \<Rightarrow> exprtk_value \<Rightarrow> nat \<Rightarrow>
   status \<times> value_view \<times> 'p xstate" where
  "ts_host_exprtk_to_view utf8 = value_to_view (result_style utf8)"

text \<open>The conversion of a callback's arguments, under fixed limits.\<close>

definition TS_HOST_MAX_VALUE_DEPTH :: u32 where "TS_HOST_MAX_VALUE_DEPTH = 64"
definition TS_HOST_MAX_VALUE_NODES :: size_t where "TS_HOST_MAX_VALUE_NODES = 65536"
definition TS_HOST_MAX_STRING_BYTES :: size_t where "TS_HOST_MAX_STRING_BYTES = 4 * 1024 * 1024"

definition callback_limits :: value_limits where
  "callback_limits =
     \<lparr>max_depth = TS_HOST_MAX_VALUE_DEPTH, max_nodes = TS_HOST_MAX_VALUE_NODES,
      max_bytes = TS_HOST_MAX_STRING_BYTES\<rparr>"

definition argument_style :: "(bytes \<Rightarrow> bool) \<Rightarrow> export_style" where
  "argument_style utf8 = \<lparr>es_utf8 = utf8, es_argument = True\<rparr>"

definition ts_host_arg_view_from_exprtk ::
  "(bytes \<Rightarrow> bool) \<Rightarrow> 'p arena \<Rightarrow> 'p xstate \<Rightarrow> exprtk_value \<Rightarrow> nat \<Rightarrow>
   status \<times> value_view \<times> 'p xstate" where
  "ts_host_arg_view_from_exprtk utf8 A = value_to_view (argument_style utf8) A callback_limits"

section \<open>What the conversion accounts for\<close>

interpretation export_account:
  charge_account "ts_host_exprtk_view_charge L" "\<lambda>st. unat (xs_bytes st)" "unat (max_bytes L)" for L
proof unfold_locales
  fix st :: "'a xstate" and c e
  assume le: "unat (xs_bytes st) \<le> unat (max_bytes L)"
  from checked_charge_iff [OF le, of c e] le
  show "fst (ts_host_exprtk_view_charge L st c e) = STATUS_OK \<longleftrightarrow>
      unat (xs_bytes st) + unat c * unat e \<le> unat (max_bytes L)"
    by (auto simp: ts_host_exprtk_view_charge_def Let_def word_less_nat_alt [of "max_bytes L"])
next
  fix st st' :: "'a xstate" and c e
  assume le: "unat (xs_bytes st) \<le> unat (max_bytes L)"
    and ok: "ts_host_exprtk_view_charge L st c e = (STATUS_OK, st')"
  from ok have "\<not> (c \<noteq> 0 \<and> e > SIZE_MAX div c) \<and> \<not> c * e > max_bytes L - xs_bytes st"
    and st': "st' = st\<lparr>xs_bytes := xs_bytes st + c * e\<rparr>"
    by (auto simp: ts_host_exprtk_view_charge_def Let_def split: if_splits)
  with checked_charge_iff [OF le, of c e]
  have "unat (xs_bytes st) + unat c * unat e \<le> unat (max_bytes L)" by blast
  then show "unat (xs_bytes st') = unat (xs_bytes st) + unat c * unat e"
    by (simp add: st' checked_charge_sum)
qed (auto simp: ts_host_exprtk_view_charge_def Let_def split: if_splits)

text \<open>
  \<open>stays F st st' n b\<close>: a part of the conversion that only writes memory the arena had not handed
  out, and that accounts for \<open>n\<close> nodes and \<open>b\<close> bytes within the limits.
\<close>

definition xs_ok :: "value_limits \<Rightarrow> 'p xstate \<Rightarrow> bool" where
  "xs_ok L st \<longleftrightarrow>
     unat (xs_nodes st) \<le> unat (max_nodes L) \<and> unat (xs_bytes st) \<le> unat (max_bytes L)"

definition xgrows :: "value_limits \<Rightarrow> 'p xstate \<Rightarrow> 'p xstate \<Rightarrow> nat \<Rightarrow> nat \<Rightarrow> bool" where
  "xgrows L st st' n b \<longleftrightarrow> xs_ok L st' \<and>
     unat (xs_nodes st') = unat (xs_nodes st) + n \<and> unat (xs_bytes st') = unat (xs_bytes st) + b"

lemma xgrows_trans:
  "xgrows L st st1 n b \<Longrightarrow> xgrows L st1 st2 n' b' \<Longrightarrow> xgrows L st st2 (n + n') (b + b')"
  by (simp add: xgrows_def)

lemma charge_xgrows:
  assumes "xs_ok L st" and "ts_host_exprtk_view_charge L st c e = (STATUS_OK, st')"
  shows "xgrows L st st' 0 (unat c * unat e)" "xs_mem st' = xs_mem st" "xs_pool st' = xs_pool st"
    "xs_nodes st' = xs_nodes st"
proof -
  from assms(2) show fr: "xs_mem st' = xs_mem st" "xs_pool st' = xs_pool st" "xs_nodes st' = xs_nodes st"
    by (auto simp: ts_host_exprtk_view_charge_def Let_def split: if_splits)
  from assms(1) have "unat (xs_bytes st) \<le> unat (max_bytes L)" by (simp add: xs_ok_def)
  from export_account.charge_used [OF this assms(2)] export_account.charge_within [OF this assms(2)]
  show "xgrows L st st' 0 (unat c * unat e)" using assms(1) fr by (simp add: xgrows_def xs_ok_def)
qed

lemma node_xgrows:
  assumes "xs_ok L st" and "xs_nodes st \<noteq> max_nodes L"
  shows "xgrows L st (st\<lparr>xs_nodes := xs_nodes st + 1\<rparr>) 1 0"
proof -
  have "unat (xs_nodes st) < unat (max_nodes L)" using assms by (simp add: xs_ok_def word_unat_eq_iff)
  then have "unat (xs_nodes st + 1) = unat (xs_nodes st) + 1"
    using unat_lt_2_64 [of "max_nodes L"] by (simp add: unat_add_fits)
  with assms \<open>unat (xs_nodes st) < unat (max_nodes L)\<close> show ?thesis by (simp add: xgrows_def xs_ok_def)
qed

lemma unat_nul_size:
  assumes "\<not> es_argument K \<Longrightarrow> n \<noteq> SIZE_MAX"
  shows "unat (n + nul_size K) = unat n + unat (nul_size K)"
  using assms unat_size_succ [of n] by (auto simp: nul_size_def)

lemma export_key_ok:
  assumes "xs_ok L st" and run: "export_key K L st keyed q i key = (STATUS_OK, st')"
    and len: "length key < 2 ^ 64"
  shows "xgrows L st st' 0 (if keyed then length key + unat (nul_size K) else 0)" "xs_pool st' = xs_pool st"
    "loop_frame F keyed q [i] (xs_mem st) (xs_mem st')"
    "keyed \<Longrightarrow> vm_key (xs_mem st') (entry_addr q i) = Buf key"
    "vm_value (xs_mem st') = vm_value (xs_mem st)"
proof -
  have "xgrows L st st' 0 (if keyed then length key + unat (nul_size K) else 0) \<and> xs_pool st' = xs_pool st \<and>
    loop_frame F keyed q [i] (xs_mem st) (xs_mem st') \<and>
    (keyed \<longrightarrow> vm_key (xs_mem st') (entry_addr q i) = Buf key) \<and>
    vm_value (xs_mem st') = vm_value (xs_mem st)"
  proof (cases keyed)
    case False
    with assms show ?thesis by (auto simp: export_key_def xgrows_def loop_frame_def)
  next
    case True
    let ?n = "of_nat (length key) :: size_t"
    from run True obtain st1 where n: "\<not> es_argument K \<Longrightarrow> ?n \<noteq> SIZE_MAX"
      and c: "ts_host_exprtk_view_charge L st (?n + nul_size K) 1 = (STATUS_OK, st1)"
      and st': "st' = st1\<lparr>xs_mem := (xs_mem st1)\<lparr>vm_key := (vm_key (xs_mem st1))(entry_addr q i := Buf key)\<rparr>\<rparr>"
      by (auto simp: export_key_def Let_def split: if_splits prod.splits)
    have "unat (?n + nul_size K) = length key + unat (nul_size K)"
      using unat_nul_size [OF n] len by (simp add: unat_of_nat)
    with charge_xgrows [OF assms(1) c] True show ?thesis
      by (auto simp: st' xgrows_def xs_ok_def loop_frame_def)
  qed
  then show "xgrows L st st' 0 (if keyed then length key + unat (nul_size K) else 0)" "xs_pool st' = xs_pool st"
    "loop_frame F keyed q [i] (xs_mem st) (xs_mem st')"
    "keyed \<Longrightarrow> vm_key (xs_mem st') (entry_addr q i) = Buf key"
    "vm_value (xs_mem st') = vm_value (xs_mem st)" by blast+
qed

lemma export_array_ok:
  assumes laws: "arena_laws A free_in" and ok: "xs_ok L st"
    and run: "export_array A L st n e = (STATUS_OK, q, st')"
  shows "xgrows L st st' 0 (unat n * unat e)" "xs_mem st' = xs_mem st"
    "unat (xs_nodes st) + unat n \<le> unat (max_nodes L)" "free_in (xs_pool st') \<subseteq> free_in (xs_pool st)"
    "q = None \<longleftrightarrow> n = 0"
    "{the q..<the q + unat e * unat n} \<subseteq> free_in (xs_pool st) \<and>
     {the q..<the q + unat e * unat n} \<inter> free_in (xs_pool st') = {}"
proof -
  from run obtain st1 where c: "ts_host_exprtk_view_charge L st n e = (STATUS_OK, st1)"
    and n: "\<not> n > max_nodes L - xs_nodes st"
    and cases: "n = 0 \<and> q = None \<and> st' = st1 \<or> n \<noteq> 0 \<and> (\<exists>a pool. q = Some a \<and>
      mem_alloc_array A (xs_pool st1) e n = (Some a, pool) \<and> st' = st1\<lparr>xs_pool := pool\<rparr>)"
    by (auto simp: export_array_def Let_def split: if_splits prod.splits option.splits)
  note g = charge_xgrows [OF ok c]
  show "unat (xs_nodes st) + unat n \<le> unat (max_nodes L)"
    using n ok by (auto simp: xs_ok_def unat_simps)
  from cases g show "xgrows L st st' 0 (unat n * unat e)" "xs_mem st' = xs_mem st" "q = None \<longleftrightarrow> n = 0"
    by (auto simp: xgrows_def xs_ok_def)
  from cases g alloc_array_ok [OF laws] show "free_in (xs_pool st') \<subseteq> free_in (xs_pool st)"
    "{the q..<the q + unat e * unat n} \<subseteq> free_in (xs_pool st) \<and>
     {the q..<the q + unat e * unat n} \<inter> free_in (xs_pool st') = {}" by (fastforce, fastforce)
qed

lemma write_numbers_other:
  "\<forall>j < length ds. a \<noteq> item_addr q (i + j) \<Longrightarrow> vm_value (write_numbers M q i ds) a = vm_value M a"
proof (induction ds arbitrary: M i)
  case (Cons d ds)
  then have "a \<noteq> item_addr q i" "\<forall>j < length ds. a \<noteq> item_addr q (Suc i + j)"
    by (auto dest: spec [of _ "Suc _"])
  with Cons.IH [of "Suc i"] show ?case by (simp add: write_view_def)
qed simp

lemma write_numbers_at:
  "j < length ds \<Longrightarrow> vm_value (write_numbers M q i ds) (item_addr q (i + j)) = view_of (VNumber (ds ! j))"
proof (induction ds arbitrary: M i j)
  case (Cons d ds)
  show ?case
  proof (cases j)
    case 0
    have "vm_value (write_numbers (write_view M (item_addr q i) (view_of (VNumber d))) q (Suc i) ds) (item_addr q i)
        = view_of (VNumber d)"
      by (subst write_numbers_other) (auto simp: write_view_def item_addr_def)
    then show ?thesis by (simp add: 0)
  next
    case (Suc k)
    with Cons.IH [of k _ "Suc i"] Cons.prems show ?thesis by simp
  qed
qed simp

lemma write_numbers_frame: "loop_frame F False q [0..<length ds] M (write_numbers M q 0 ds)"
proof -
  have "vm_key (write_numbers M q i ds) = vm_key M" for i
    by (induction ds arbitrary: M i) (auto simp: write_view_def)
  then show ?thesis using write_numbers_other [of ds _ q 0 M]
    by (auto simp: loop_frame_def elem_addr_def image_iff)
qed

section \<open>The view of a value\<close>

text \<open>What the embedder sees of a value: vectors as arrays of numbers, objects as records.\<close>

primrec export :: "econtent \<Rightarrow> econtent" where
  "export CNull = CNull"
| "export (CBool b) = CBool b"
| "export (CInteger i) = CInteger i"
| "export (CNumber d) = CNumber d"
| "export (CString s) = CString s"
| "export (CBytes s) = CBytes s"
| "export (CBigint s) = CBigint s"
| "export (CEnum t n m i) = CEnum t n m i"
| "export (CVector ds) = CSeq VAL_LIST (map CNumber ds)"
| "export (CTypedArray k ds) = CTypedArray k ds"
| "export (CSeq k cs) = CSeq k (map export cs)"
| "export (CMap t m) = CMap VAL_MAP (map_option export \<circ> m)"
| "export (COpaque k a) = COpaque k a"

text \<open>The bytes of a tree when \<open>z\<close> bytes are counted for the terminator of a string.\<close>

fun tcost :: "nat \<Rightarrow> tree \<Rightarrow> nat" where
  "tcost z (TStr s) = length s + z"
| "tcost z (TArr ts) = 24 * length ts + (\<Sum>t\<leftarrow>ts. tcost z t)"
| "tcost z (TRec es) = 40 * length es + (\<Sum>e\<leftarrow>es. length (fst e) + z + tcost z (snd e))"
| "tcost z _ = 0"

lemma tcost_1: "tcost (Suc 0) t = tbytes t"
  by (induction t rule: tbytes.induct) (auto intro!: arg_cong [where f = sum_list])

definition view_exported ::
  "('p \<Rightarrow> addr set) \<Rightarrow> value_limits \<Rightarrow> nat \<Rightarrow> 'p xstate \<Rightarrow> 'p xstate \<Rightarrow> nat \<Rightarrow> value_view \<Rightarrow> econtent \<Rightarrow> bool"
  where
  "view_exported free_in L z st st' f v c \<longleftrightarrow>
     free_in (xs_pool st') \<subseteq> free_in (xs_pool st) \<and>
     agree (- free_in (xs_pool st)) (xs_mem st) (xs_mem st') \<and>
     reach f (xs_mem st') v \<subseteq> free_in (xs_pool st) - free_in (xs_pool st') \<and>
     (\<exists>t. tree_at f (xs_mem st') v = Some t \<and> tval t = export c \<and>
        xgrows L st st' (tnodes t) (tcost z t))"

text \<open>Slot \<open>i\<close> of the array at \<open>q\<close> holds the tree \<open>t\<close> of the entry \<open>e\<close>.\<close>

definition elem_exported ::
  "addr set \<Rightarrow> view_mem \<Rightarrow> nat \<Rightarrow> bool \<Rightarrow> addr \<Rightarrow> nat \<Rightarrow> bytes \<times> exprtk_value \<Rightarrow> tree \<Rightarrow> bool" where
  "elem_exported S M f keyed q i e t \<longleftrightarrow>
     tree_at f M (vm_value M (elem_addr keyed q i)) = Some t \<and> tval t = export (content (snd e)) \<and>
     reach f M (vm_value M (elem_addr keyed q i)) \<subseteq> S \<and>
     (keyed \<longrightarrow> vm_key M (entry_addr q i) = Buf (fst e))"

definition key_bytes :: "nat \<Rightarrow> bool \<Rightarrow> bytes \<times> exprtk_value \<Rightarrow> nat" where
  "key_bytes z keyed e = (if keyed then length (fst e) + z else 0)"

definition elems_exported ::
  "('p \<Rightarrow> addr set) \<Rightarrow> value_limits \<Rightarrow> nat \<Rightarrow> 'p xstate \<Rightarrow> 'p xstate \<Rightarrow> nat \<Rightarrow> bool \<Rightarrow> addr \<Rightarrow> nat \<Rightarrow>
   (bytes \<times> exprtk_value) list \<Rightarrow> bool" where
  "elems_exported free_in L z st st' f keyed q i es \<longleftrightarrow>
     free_in (xs_pool st') \<subseteq> free_in (xs_pool st) \<and>
     loop_frame (free_in (xs_pool st)) keyed q [i..<i + length es] (xs_mem st) (xs_mem st') \<and>
     (\<exists>ts. length ts = length es \<and>
        xgrows L st st' (\<Sum>t\<leftarrow>ts. tnodes t)
          (\<Sum>et\<leftarrow>zip es ts. key_bytes z keyed (fst et) + tcost z (snd et)) \<and>
        (\<forall>j < length es. elem_exported (free_in (xs_pool st) - free_in (xs_pool st')) (xs_mem st') f
                            keyed q (i + j) (es ! j) (ts ! j)))"

lemma elems_exported_Cons:
  assumes ok: "xs_ok L st" and len: "length (fst e) < 2 ^ 64"
    and slots: "\<forall>j < length (e # es). elem_addr keyed q (i + j) \<in> Q \<and> (keyed \<longrightarrow> entry_addr q (i + j) \<in> Q)"
    and Q: "Q \<inter> free_in (xs_pool st) = {}"
    and z: "z = unat (nul_size K)" and key: "export_key K L st keyed q i (fst e) = (STATUS_OK, st1)"
    and view: "view_exported free_in L z st1 st2 f v (content (snd e))"
    and rest: "elems_exported free_in L z (st2\<lparr>xs_mem := write_view (xs_mem st2) (elem_addr keyed q i) v\<rparr>)
      st' f keyed q (Suc i) es"
  shows "elems_exported free_in L z st st' f keyed q i (e # es)"
proof -
  let ?F = "free_in (xs_pool st)" and ?F2 = "free_in (xs_pool st2)" and ?F' = "free_in (xs_pool st')"
  note k = export_key_ok [OF ok key len]
  from view obtain t where F2: "?F2 \<subseteq> ?F" and a: "agree (- ?F) (xs_mem st1) (xs_mem st2)"
    and r: "reach f (xs_mem st2) v \<subseteq> ?F - ?F2"
    and t: "tree_at f (xs_mem st2) v = Some t" "tval t = export (content (snd e))"
      "xgrows L st1 st2 (tnodes t) (tcost z t)" by (auto simp: view_exported_def k(2))
  from rest obtain ts where F': "?F' \<subseteq> ?F2"
    and fr: "loop_frame ?F2 keyed q [Suc i..<Suc i + length es]
      (write_view (xs_mem st2) (elem_addr keyed q i) v) (xs_mem st')"
    and ts: "length ts = length es" "xgrows L st2 st' (\<Sum>t\<leftarrow>ts. tnodes t)
        (\<Sum>et\<leftarrow>zip es ts. key_bytes z keyed (fst et) + tcost z (snd et))"
      "\<forall>j < length es. elem_exported (?F2 - ?F') (xs_mem st') f keyed q (Suc i + j) (es ! j) (ts ! j)"
    by (auto simp: elems_exported_def xgrows_def)
  have sl: "\<forall>j \<in> set (i # [Suc i..<Suc i + length es]). elem_addr keyed q j \<in> Q \<and> (keyed \<longrightarrow> entry_addr q j \<in> Q)"
  proof
    fix j
    assume "j \<in> set (i # [Suc i..<Suc i + length es])"
    then have "j - i < length (e # es)" "i + (j - i) = j" by auto
    with slots show "elem_addr keyed q j \<in> Q \<and> (keyed \<longrightarrow> entry_addr q j \<in> Q)" by metis
  qed
  have "i \<notin> set [Suc i..<Suc i + length es]" by auto
  note filled = slot_filled [OF fr sl Q this r F2]
  have "keyed \<Longrightarrow> entry_addr q i \<notin> ?F" using sl Q by auto
  then have here: "elem_exported (?F - ?F') (xs_mem st') f keyed q i e t"
    using filled t(1,2) r k(4) a F' by (auto simp: elem_exported_def agree_def)
  have frame: "loop_frame ?F keyed q [i..<i + length (e # es)] (xs_mem st) (xs_mem st')"
  proof -
    have "loop_frame ?F keyed q [i] (xs_mem st) (xs_mem st2)"
      by (rule loop_frame_trans [OF k(3) [of ?F] agree_loop_frame [where ?is = "[i]", OF a]]) auto
    then have "loop_frame ?F keyed q [i] (xs_mem st) (write_view (xs_mem st2) (elem_addr keyed q i) v)"
      by (rule loop_frame_trans [OF _ write_loop_frame [where ?is = "[i]" and F = ?F]]) auto
    then show ?thesis by (rule loop_frame_trans [OF _ fr F2]) auto
  qed
  have "elem_exported (?F - ?F') (xs_mem st') f keyed q (i + j) ((e # es) ! j) ((t # ts) ! j)"
    if "j < length (e # es)" for j
    using that here ts(3) F2 by (cases j) (auto simp: elem_exported_def)
  moreover have "xgrows L st st' (\<Sum>t\<leftarrow>t # ts. tnodes t)
      (\<Sum>et\<leftarrow>zip (e # es) (t # ts). key_bytes z keyed (fst et) + tcost z (snd et))"
    using k(1) t(3) ts(2) by (simp add: xgrows_def key_bytes_def z)
  ultimately show ?thesis using F2 F' frame ts(1)
    unfolding elems_exported_def by (intro conjI exI [of _ "t # ts"]) auto
qed

lemma elems_sum:
  assumes "length ts = length es"
  shows "(\<Sum>et\<leftarrow>zip es ts. g (fst et) + h (snd et)) = (\<Sum>e\<leftarrow>es. g e) + (\<Sum>t\<leftarrow>ts. h t :: nat)"
  using assms by (induction es ts rule: list_induct2') auto

lemma sum_list_zip_snd:
  "length ts = length es \<Longrightarrow> (\<Sum>e\<leftarrow>zip (map fst es) ts. g (snd e)) = (\<Sum>t\<leftarrow>ts. g t :: nat)"
  by (induction ts es rule: list_induct2) auto

lemma sum_list_zip_keys:
  "length ts = length es \<Longrightarrow>
   (\<Sum>e\<leftarrow>zip (map fst es) ts. length (fst e) + z + tcost z (snd e)) =
   (\<Sum>e\<leftarrow>es. length (fst e) + z) + (\<Sum>t\<leftarrow>ts. tcost z t)"
  by (induction ts es rule: list_induct2) auto

text \<open>A container whose array was allocated and filled.\<close>

lemma container_exported:
  assumes laws: "arena_laws A free_in" and ok: "xs_ok L st"
    and arr: "export_array A L st n (if keyed then 40 else 24) = (STATUS_OK, q, st1)"
    and n: "unat n = length es"
    and el: "elems_exported free_in L z st1 st' f keyed (the q) 0 es"
    and as: "v = (if keyed then view_of (VRecord q n) else view_of (VArray q n))"
    and c: "c = (if keyed then CMap mt (map_of (map (\<lambda>e. (fst e, content (snd e))) es))
                 else CSeq VAL_LIST (map (\<lambda>e. content (snd e)) es))"
  shows "free_in (xs_pool st') \<subseteq> free_in (xs_pool st) \<and>
     agree (- free_in (xs_pool st)) (xs_mem st) (xs_mem st') \<and>
     reach (Suc f) (xs_mem st') v \<subseteq> free_in (xs_pool st) - free_in (xs_pool st') \<and>
     (\<exists>t. tree_at (Suc f) (xs_mem st') v = Some t \<and> tval t = export c \<and>
        xgrows L st st' (tnodes t - 1) (tcost z t))"
proof -
  let ?F = "free_in (xs_pool st)" and ?F' = "free_in (xs_pool st')" and ?M = "xs_mem st'"
  note a = export_array_ok [OF laws ok arr]
  let ?Q = "{the q..<the q + unat (if keyed then 40 else 24 :: size_t) * unat n}"
  have sl: "\<forall>i \<in> set [0..<length es]. elem_addr keyed (the q) i \<in> ?Q \<and> (keyed \<longrightarrow> entry_addr (the q) i \<in> ?Q)"
    using n by (auto simp: elem_addr_def item_addr_def entry_value_addr_def entry_addr_def)
  from el obtain ts where F': "?F' \<subseteq> free_in (xs_pool st1)"
    and fr: "loop_frame (free_in (xs_pool st1)) keyed (the q) [0..<length es] (xs_mem st1) ?M"
    and ts: "length ts = length es" "xgrows L st1 st' (\<Sum>t\<leftarrow>ts. tnodes t)
        (\<Sum>et\<leftarrow>zip es ts. key_bytes z keyed (fst et) + tcost z (snd et))"
      "\<forall>j < length es. elem_exported (free_in (xs_pool st1) - ?F') ?M f keyed (the q) j (es ! j) (ts ! j)"
    by (auto simp: elems_exported_def)
  have agr: "agree (- ?F) (xs_mem st) ?M"
    by (rule agree_subset [OF loop_frame_agree [OF fr sl, unfolded a(2)]]) (use a(4,6) in auto)
  have reach: "reach (Suc f) ?M v \<subseteq> ?F - ?F'"
  proof -
    have "elem_addr keyed (the q) i \<in> ?F - ?F' \<and> (keyed \<longrightarrow> entry_addr (the q) i \<in> ?F - ?F')" if "i < unat n" for i
    proof -
      from that n have "i \<in> set [0..<length es]" by simp
      with sl have "elem_addr keyed (the q) i \<in> ?Q \<and> (keyed \<longrightarrow> entry_addr (the q) i \<in> ?Q)" by blast
      with a(6) F' show ?thesis by blast
    qed
    moreover have "reach f ?M (vm_value ?M (elem_addr keyed (the q) i)) \<subseteq> ?F - ?F'" if "i < unat n" for i
      using ts(3) that n a(4) unfolding elem_exported_def by auto
    ultimately show ?thesis unfolding as by (cases keyed) (auto simp: view_of_def elem_addr_def subset_iff)
  qed
  let ?t = "if keyed then TRec (zip (map fst es) ts) else TArr ts"
  have tree: "tree_at (Suc f) ?M v = Some ?t"
  proof (cases keyed)
    case True
    have "those (map (\<lambda>i. map_option (Pair (buf_elems (vm_key ?M (entry_addr (the q) i))))
        (tree_at f ?M (vm_value ?M (entry_value_addr (the q) i)))) [0..<unat n]) = Some (zip (map fst es) ts)"
      unfolding those_map_Some using ts(1,3) n True by (auto simp: elem_exported_def elem_addr_def)
    with True a(5) show ?thesis by (auto simp: as view_of_def)
  next
    case False
    have "those (map (\<lambda>i. tree_at f ?M (vm_value ?M (item_addr (the q) i))) [0..<unat n]) = Some ts"
      unfolding those_map_Some using ts(1,3) n False by (auto simp: elem_exported_def elem_addr_def)
    with False a(5) show ?thesis by (auto simp: as view_of_def)
  qed
  have val: "tval ?t = export c"
  proof (cases keyed)
    case True
    have "map (\<lambda>e. (fst e, tval (snd e))) (zip (map fst es) ts) = map (\<lambda>e. (fst e, export (content (snd e)))) es"
      using ts(1,3) by (intro nth_equalityI) (auto simp: elem_exported_def)
    then show ?thesis by (simp add: True c map_of_map_snd [where g = "\<lambda>v. export (content v)"]
        map_of_map_snd [where g = content] option.map_comp o_def)
  next
    case False
    have "map tval ts = map (\<lambda>e. export (content (snd e))) es"
      using ts(1,3) by (intro nth_equalityI) (auto simp: elem_exported_def)
    then show ?thesis by (simp add: False c)
  qed
  have count: "xgrows L st st' (tnodes ?t - 1) (tcost z ?t)"
  proof -
    have "xgrows L st st' (\<Sum>t\<leftarrow>ts. tnodes t) (unat n * unat (if keyed then 40 else 24 :: size_t) +
        ((\<Sum>e\<leftarrow>es. key_bytes z keyed e) + (\<Sum>t\<leftarrow>ts. tcost z t)))"
      using xgrows_trans [OF a(1) ts(2)] by (simp add: elems_sum [OF ts(1)])
    moreover have "(\<Sum>t\<leftarrow>ts. tnodes t) = tnodes ?t - 1"
      using ts(1) by (simp add: sum_list_zip_snd)
    moreover have "unat n * unat (if keyed then 40 else 24 :: size_t) +
        ((\<Sum>e\<leftarrow>es. key_bytes z keyed e) + (\<Sum>t\<leftarrow>ts. tcost z t)) = tcost z ?t"
    proof (cases keyed)
      case True
      then show ?thesis unfolding n using sum_list_zip_keys [OF ts(1)] ts(1)
        by (simp add: key_bytes_def)
    next
      case False
      then show ?thesis unfolding n using ts(1) by (simp add: key_bytes_def)
    qed
    ultimately show ?thesis by (simp only:)
  qed
  have "?F' \<subseteq> ?F" using a(4) F' by blast
  with agr reach tree val count show ?thesis by (intro conjI exI [of _ ?t])
qed

lemma array_slots:
  assumes "unat n = m"
  shows "\<forall>j < m. elem_addr keyed q (0 + j) \<in> {q..<q + unat (if keyed then 40 else 24 :: size_t) * unat n} \<and>
    (keyed \<longrightarrow> entry_addr q (0 + j) \<in> {q..<q + unat (if keyed then 40 else 24 :: size_t) * unat n})"
  using assms by (auto simp: elem_addr_def item_addr_def entry_value_addr_def entry_addr_def)

lemma tnodes_pos: "0 < tnodes t"
  by (cases t) auto

lemma container_view:
  assumes laws: "arena_laws A free_in" and g: "xgrows L st (st\<lparr>xs_nodes := xs_nodes st + 1\<rparr>) 1 0"
    and arr: "export_array A L (st\<lparr>xs_nodes := xs_nodes st + 1\<rparr>) n (if keyed then 40 else 24)
      = (STATUS_OK, q, st1)"
    and n: "unat n = length es"
    and el: "elems_exported free_in L z st1 st' f keyed (the q) 0 es"
    and c: "export c = export (if keyed then CMap VAL_MAP (map_of (map (\<lambda>e. (fst e, content (snd e))) es))
                 else CSeq VAL_LIST (map (\<lambda>e. content (snd e)) es))"
  shows "view_exported free_in L z st st' (Suc f)
    (if keyed then view_of (VRecord q n) else view_of (VArray q n)) c"
proof -
  have ok: "xs_ok L (st\<lparr>xs_nodes := xs_nodes st + 1\<rparr>)" using g by (simp add: xgrows_def)
  from container_exported [OF laws ok arr n el refl refl, of VAL_MAP] g tnodes_pos show ?thesis
    unfolding view_exported_def c by (fastforce simp: xgrows_def simp del: tree_at.simps reach.simps)
qed

lemma vector_elems:
  assumes arr: "arena_laws A free_in" "xs_ok L st"
      "export_array A L st (buf_size b) 24 = (STATUS_OK, q, st1)"
    and b: "unat (buf_size b) = length (buf_elems b)"
    and st': "st' = st1\<lparr>xs_mem := write_numbers (xs_mem st1) (the q) 0 (buf_elems b),
                         xs_nodes := xs_nodes st1 + buf_size b\<rparr>"
  shows "elems_exported free_in L z st1 st' (Suc f) False (the q) 0 (map (\<lambda>d. ([], ENumber d)) (buf_elems b))"
proof -
  note a = export_array_ok [OF arr]
  have nodes: "unat (xs_nodes st1) = unat (xs_nodes st)" using a(1) by (simp add: xgrows_def)
  have "unat (xs_nodes st1 + buf_size b) = unat (xs_nodes st1) + length (buf_elems b)"
    using a(3) nodes b unat_lt_2_64 [of "max_nodes L"] by (simp add: unat_add_fits)
  then have "xgrows L st1 st' (length (buf_elems b)) 0"
    using a(1,3) nodes b by (simp add: xgrows_def xs_ok_def st')
  moreover have "(\<Sum>t\<leftarrow>map TNum (buf_elems b). tnodes t) = length (buf_elems b)"
    by (simp add: o_def sum_list_triv)
  moreover have "(\<Sum>et\<leftarrow>zip (map (\<lambda>d. ([], ENumber d)) (buf_elems b)) (map TNum (buf_elems b)).
      key_bytes z False (fst et) + tcost z (snd et)) = 0"
    by (induction "buf_elems b") (auto simp: key_bytes_def zip_map1 zip_map2)
  ultimately have "xgrows L st1 st' (\<Sum>t\<leftarrow>map TNum (buf_elems b). tnodes t)
      (\<Sum>et\<leftarrow>zip (map (\<lambda>d. ([], ENumber d)) (buf_elems b)) (map TNum (buf_elems b)).
        key_bytes z False (fst et) + tcost z (snd et))" by (simp only:)
  moreover have "elem_exported S (xs_mem st') (Suc f) False (the q) (0 + j)
      (map (\<lambda>d. ([], ENumber d)) (buf_elems b) ! j) (map TNum (buf_elems b) ! j)"
    if "j < length (buf_elems b)" for j S
    using write_numbers_at [OF that, of "xs_mem st1" "the q" 0] that
    by (simp add: elem_exported_def elem_addr_def st' view_of_def)
  ultimately show ?thesis
    using write_numbers_frame [of _ "the q" "buf_elems b" "xs_mem st1"]
    unfolding elems_exported_def st' by (intro conjI exI [of _ "map TNum (buf_elems b)"]) auto
qed

lemma to_view_ok:
  assumes laws: "arena_laws A free_in"
  shows "xs_ok L st \<Longrightarrow> vwf v \<Longrightarrow>
      value_to_view K A L st v depth = (STATUS_OK, w, st') \<Longrightarrow>
      view_exported free_in L (unat (nul_size K)) st st' (Suc (Suc (unat (max_depth L)) - depth)) w (content v)"
    and "xs_ok L st \<Longrightarrow> \<forall>e \<in> set es. vwf (snd e) \<and> length (fst e) < 2 ^ 64 \<Longrightarrow>
      \<forall>j < length es. elem_addr keyed q (i + j) \<in> Q \<and> (keyed \<longrightarrow> entry_addr q (i + j) \<in> Q) \<Longrightarrow>
      Q \<inter> free_in (xs_pool st) = {} \<Longrightarrow>
      value_to_elems K A L st keyed q i es depth = (STATUS_OK, st') \<Longrightarrow>
      elems_exported free_in L (unat (nul_size K)) st st' (Suc (Suc (unat (max_depth L)) - depth)) keyed q i es"
  using laws
proof (induction K A L st v depth and K A L st keyed q i es depth
    arbitrary: w st' and st' Q rule: to_view_induct)
  case (1 K A L st v depth)
  note run = "1.prems"(3) [unfolded value_to_view.simps [of K A L st v depth]]
  from run have lim: "\<not> (unat (max_depth L) < depth \<or> xs_nodes st = max_nodes L)" by (auto split: if_splits)
  note run = run [unfolded if_not_P [OF lim] Let_def]
  have g: "xgrows L st (st\<lparr>xs_nodes := xs_nodes st + 1\<rparr>) 1 0" using node_xgrows [OF "1.prems"(1)] lim by simp
  let ?st = "st\<lparr>xs_nodes := xs_nodes st + 1\<rparr>" and ?f = "Suc (unat (max_depth L)) - depth"
  have ok1: "xs_ok L ?st" using g by (simp add: xgrows_def)
  have fuel: "?f = Suc (unat (max_depth L) - depth)"
    "Suc (Suc (unat (max_depth L)) - Suc depth) = Suc (unat (max_depth L) - depth)" using lim by auto
  show ?case
  proof (cases v)
    case (EString p b)
    with run obtain st1 where b: "\<not> buf_broken b" "\<not> es_argument K \<Longrightarrow> buf_size b \<noteq> SIZE_MAX" and w: "w = view_of (VString b)"
      and c: "ts_host_exprtk_view_charge L ?st (buf_size b + nul_size K) 1 = (STATUS_OK, st')"
      by (auto split: if_splits prod.splits)
    have "unat (buf_size b + nul_size K) = length (buf_elems b) + unat (nul_size K)"
      using unat_nul_size [OF b(2)] b(1) "1.prems"(2) EString by (cases b) (auto simp: buf_fits_def unat_of_nat)
    with charge_xgrows [OF ok1 c] g b w show ?thesis
      by (auto simp: view_exported_def view_of_def EString xgrows_def)
  next
    case (EVector p b)
    with run obtain q st1 where b: "\<not> buf_broken b" and w: "w = view_of (VArray q (buf_size b))"
      and arr: "export_array A L ?st (buf_size b) 24 = (STATUS_OK, q, st1)"
      and st': "st' = st1\<lparr>xs_mem := write_numbers (xs_mem st1) (the q) 0 (buf_elems b),
                           xs_nodes := xs_nodes st1 + buf_size b\<rparr>"
      by (auto split: if_splits prod.splits)
    have n: "unat (buf_size b) = length (buf_elems b)"
      using b "1.prems"(2) EVector by (cases b) (auto simp: buf_fits_def unat_of_nat)
    from container_view [where keyed = False, OF "1.prems"(4) g _ _ vector_elems [OF "1.prems"(4) ok1 arr n st'],
        of "buf_size b" "CVector (buf_elems b)"] arr n
    show ?thesis unfolding fuel(1) by (simp add: EVector w o_def)
  next
    case (ESeq k p b)
    with run obtain q st1 where k: "k = VAL_LIST" and b: "\<not> buf_broken b" and w: "w = view_of (VArray q (buf_size b))"
      and arr: "export_array A L ?st (buf_size b) 24 = (STATUS_OK, q, st1)"
      and loop: "value_to_elems K A L st1 False (the q) 0 (map (Pair []) (buf_elems b)) (Suc depth) = (STATUS_OK, st')"
      by (cases k) (auto split: if_splits prod.splits)
    have n: "unat (buf_size b) = length (buf_elems b)"
      using b "1.prems"(2) ESeq by (cases b) (auto simp: buf_fits_def unat_of_nat)
    note a = export_array_ok [OF "1.prems"(4) ok1 arr]
    have st1: "xs_ok L st1" using a(1) by (simp add: xgrows_def)
    have "elems_exported free_in L (unat (nul_size K)) st1 st' (Suc (unat (max_depth L) - depth)) False (the q) 0
        (map (Pair []) (buf_elems b))"
      using "1.IH"(1) [OF lim refl ESeq k b arr [symmetric] refl _ st1 _ _ _ loop "1.prems"(4),
          where Q = "{the q..<the q + unat (24 :: size_t) * unat (buf_size b)}", unfolded fuel(2)]
        array_slots [OF n, of False "the q"] a(6) "1.prems"(2) by (simp add: ESeq)
    from container_view [where keyed = False, OF "1.prems"(4) g _ _ this, of "buf_size b" "content v"] arr n
    show ?thesis unfolding fuel(1) by (simp add: ESeq k w o_def)
  next
    case (EMap t m)
    let ?n = "exprtk_map_count v"
    from run EMap obtain q st1 where w: "w = view_of (VRecord q ?n)"
      and arr: "export_array A L ?st ?n 40 = (STATUS_OK, q, st1)"
      and loop: "value_to_elems K A L st1 True (the q) 0 (store_entries m) (Suc depth) = (STATUS_OK, st')"
      by (auto split: if_splits prod.splits)
    have n: "unat ?n = length (store_entries m)"
      using "1.prems"(2) by (simp add: EMap exprtk_map_count_def unat_of_nat)
    note a = export_array_ok [OF "1.prems"(4) ok1 arr]
    have st1: "xs_ok L st1" using a(1) by (simp add: xgrows_def)
    have "elems_exported free_in L (unat (nul_size K)) st1 st' (Suc (unat (max_depth L) - depth)) True (the q) 0 (store_entries m)"
      using "1.IH"(2) [OF lim refl EMap arr [symmetric] refl _ st1 _ _ _ loop "1.prems"(4),
          where Q = "{the q..<the q + unat (40 :: size_t) * unat ?n}", unfolded fuel(2)]
        array_slots [OF n, of True "the q"] a(6) "1.prems"(2) by (simp add: EMap)
    from container_view [where keyed = True, OF "1.prems"(4) g _ _ this, of ?n "content v"] arr n
    show ?thesis unfolding fuel(1) by (simp add: EMap w)
  qed (use run g in \<open>auto simp: view_exported_def view_of_def split: if_splits\<close>)
next
  case (2 K A L st keyed q i depth)
  then show ?case by (auto simp: elems_exported_def xgrows_def loop_frame_def)
next
  case (3 K A L st keyed q i e es depth)
  obtain s st1 where key: "export_key K L st keyed q i (fst e) = (s, st1)"
    by (cases "export_key K L st keyed q i (fst e)") auto
  obtain s2 v st2 where view: "value_to_view K A L st1 (snd e) depth = (s2, v, st2)"
    by (metis prod_cases3)
  from "3.prems"(5) key view have s: "s = STATUS_OK" "s2 = STATUS_OK" and
    rest: "value_to_elems K A L (st2\<lparr>xs_mem := write_view (xs_mem st2) (elem_addr keyed q i) v\<rparr>)
      keyed q (Suc i) es depth = (STATUS_OK, st')"
    by (auto split: if_splits)
  have e: "vwf (snd e)" "length (fst e) < 2 ^ 64" using "3.prems"(2) by auto
  note k = export_key_ok [OF "3.prems"(1) key [unfolded s] e(2)]
  have "xs_ok L st1" using k(1) by (simp add: xgrows_def)
  from "3.IH"(1) [OF key [symmetric] _ this e(1) view [unfolded s(2)] "3.prems"(6)] s(1)
  have v: "view_exported free_in L (unat (nul_size K)) st1 st2 (Suc (Suc (unat (max_depth L)) - depth)) v (content (snd e))" by simp
  show ?case
  proof (rule elems_exported_Cons [OF "3.prems"(1) e(2) "3.prems"(3,4) refl key [unfolded s] v])
    have "xs_ok L (st2\<lparr>xs_mem := write_view (xs_mem st2) (elem_addr keyed q i) v\<rparr>)"
      using v by (auto simp: view_exported_def xgrows_def xs_ok_def)
    moreover have "\<forall>j < length es. elem_addr keyed q (Suc i + j) \<in> Q \<and> (keyed \<longrightarrow> entry_addr q (Suc i + j) \<in> Q)"
      using "3.prems"(3) by (auto dest: spec [of _ "Suc _"])
    moreover have "Q \<inter> free_in (xs_pool (st2\<lparr>xs_mem := write_view (xs_mem st2) (elem_addr keyed q i) v\<rparr>)) = {}"
      using v "3.prems"(4) k(2) by (auto simp: view_exported_def)
    ultimately show "elems_exported free_in L (unat (nul_size K)) (st2\<lparr>xs_mem := write_view (xs_mem st2) (elem_addr keyed q i) v\<rparr>)
        st' (Suc (Suc (unat (max_depth L)) - depth)) keyed q (Suc i) es"
      using "3.IH"(2) [OF key [symmetric] _ view [symmetric] refl _ _ _ _ _ rest "3.prems"(6)] "3.prems"(2) s by auto
  qed
qed

lemma result_nul [simp]: "unat (nul_size (result_style utf8)) = 1"
  by (simp add: nul_size_def result_style_def)

lemma argument_nul [simp]: "unat (nul_size (argument_style utf8)) = 0"
  by (simp add: nul_size_def argument_style_def)

text \<open>
  C14: showing a script value to the embedder.  When \<^verbatim>\<open>ts_host_exprtk_to_view\<close> succeeds on a value,
  from counters at zero, the view denotes a tree with the content of the value (vectors as arrays
  of numbers, maps and objects as records), of at most \<open>max_nodes\<close> nodes and \<open>max_bytes\<close> bytes;
  it was written only to memory the arena handed out during the conversion, so nothing the embedder
  or the script can see has changed.
\<close>

theorem exported_view_shows_value:
  assumes "arena_laws A free_in" and "vwf v"
    and "ts_host_exprtk_to_view utf8 A L \<lparr>xs_mem = M, xs_pool = pool, xs_nodes = 0, xs_bytes = 0\<rparr> v 1
      = (STATUS_OK, w, st')"
  shows "agree (- free_in pool) M (xs_mem st') \<and>
    (\<exists>t. tree_at (Suc (unat (max_depth L))) (xs_mem st') w = Some t \<and> tval t = export (content v) \<and>
       tnodes t \<le> unat (max_nodes L) \<and> tbytes t \<le> unat (max_bytes L))"
  using to_view_ok(1) [OF assms(1) _ assms(2) assms(3) [unfolded ts_host_exprtk_to_view_def]]
  by (auto simp: view_exported_def xgrows_def xs_ok_def result_nul tcost_1 simp del: tree_at.simps reach.simps)

text \<open>An arena that hands out increasing addresses and never runs out.\<close>

definition bump_arena :: "addr arena" where
  "bump_arena = \<lparr>mem_alloc_array = (\<lambda>p e n. (Some p, p + unat e * unat n)),
                  mem_alloc_bytes = (\<lambda>p n. (True, p)), mem_reset = (\<lambda>p. p)\<rparr>"

lemma bump_arena_laws: "arena_laws bump_arena (\<lambda>p. {p..})"
  by (auto simp: arena_laws_def bump_arena_def)

theorem exported_view_shows_value_witness:
  "\<exists>w st' t. ts_host_exprtk_to_view ascii_valid bump_arena example_limits
     \<lparr>xs_mem = example_mem, xs_pool = 5000, xs_nodes = 0, xs_bytes = 0\<rparr> example_value 1 = (STATUS_OK, w, st') \<and>
   tree_at 5 (xs_mem st') w = Some t \<and> tval t = export (content example_value)"
proof -
  let ?run = "ts_host_exprtk_to_view ascii_valid bump_arena example_limits
     \<lparr>xs_mem = example_mem, xs_pool = 5000, xs_nodes = 0, xs_bytes = 0\<rparr> example_value 1"
  have "fst ?run = STATUS_OK"
    by (simp add: ts_host_exprtk_to_view_def result_style_def nul_size_def value_to_view.simps example_value_def example_limits_def Let_def
        export_array_def ts_host_exprtk_view_charge_def export_key_def bump_arena_def
        exprtk_map_count_def ascii_valid_def)
  then obtain w st' where run: "?run = (STATUS_OK, w, st')" by (cases ?run) auto
  have "vwf example_value" by (simp add: example_value_def buf_fits_def)
  from exported_view_shows_value [OF bump_arena_laws this run] run show ?thesis
    by (auto simp: example_limits_def)
qed

end
