(* ===== verification/Host_Context.thy ===== *)
theory Host_Context
  imports Host_Prelude
begin

text \<open>
  The part of a script context that the host layer keeps (\<^verbatim>\<open>turbo_script_ctx_s\<close> in
  \<^verbatim>\<open>turbo_script/src/turbo_script_internal.h\<close>) and its ownership: the owner thread and the
  reference count (\<^verbatim>\<open>turbo_script/src/turbo_script.c\<close>).  Contexts, like modules and instances,
  are shared by pointer: a context is named by its address and the contexts are a store.
\<close>

section \<open>State\<close>

text \<open>\<^verbatim>\<open>ts_host_function_entry_s\<close>; the callback and its user data are opaque.\<close>

record function_entry =
  fe_ctx :: addr
  fe_name :: bytes
  fe_min_arity :: u32
  fe_max_arity :: u32
  fe_callback :: addr
  fe_user_data :: addr

text \<open>
  \<^verbatim>\<open>ctx_freed\<close> says that \<^verbatim>\<open>ts_context_destroy_final\<close> has run; it is not a field of the C
  structure, whose memory is gone by then.
\<close>

record host_ctx =
  ref_count :: u32
  closing :: bool
  owner_thread_token :: nat
  ctx_freed :: bool
  host_functions :: "function_entry list"
  active_host_modules :: size_t
  host_callback_depth :: size_t
  active_host_instance :: "addr option"
  next_instance_generation :: u64

type_synonym ctx_store = "addr \<Rightarrow> host_ctx"

section \<open>Ownership\<close>

text \<open>The calling thread is identified by the address of its thread-local token.\<close>

definition ts_context_is_owner_thread :: "ctx_store \<Rightarrow> nat \<Rightarrow> addr option \<Rightarrow> bool" where
  "ts_context_is_owner_thread C thread ctx =
     (case ctx of None \<Rightarrow> False | Some c \<Rightarrow> owner_thread_token (C c) = thread)"

definition ts_host_context_check_thread :: "ctx_store \<Rightarrow> nat \<Rightarrow> addr option \<Rightarrow> status" where
  "ts_host_context_check_thread C thread ctx =
     (if ctx = None then STATUS_INVALID_ARGUMENT
      else if \<not> ts_context_is_owner_thread C thread ctx then STATUS_WRONG_THREAD
      else STATUS_OK)"

definition ts_context_retain :: "ctx_store \<Rightarrow> addr \<Rightarrow> ctx_store" where
  "ts_context_retain C c = C(c := (C c)\<lparr>ref_count := ref_count (C c) + 1\<rparr>)"

definition ts_context_release :: "ctx_store \<Rightarrow> addr \<Rightarrow> ctx_store" where
  "ts_context_release C c =
     (let c' = (C c)\<lparr>ref_count := ref_count (C c) - 1\<rparr> in
      C(c := if ref_count (C c) = 1 then c'\<lparr>ctx_freed := True\<rparr> else c'))"

text \<open>
  \<^verbatim>\<open>turbo_script_free\<close>: the first call gives up the reference of the creator, later calls do
  nothing.  The shutdown of the schedulers and of the executor is not modelled.
\<close>

definition turbo_script_free :: "ctx_store \<Rightarrow> addr \<Rightarrow> ctx_store" where
  "turbo_script_free C c =
     (if closing (C c) then C
      else ts_context_release (C(c := (C c)\<lparr>closing := True\<rparr>)) c)"

lemma check_thread_ok:
  "ts_host_context_check_thread C thread ctx = STATUS_OK \<longleftrightarrow>
     (\<exists>c. ctx = Some c \<and> owner_thread_token (C c) = thread)"
  by (auto simp: ts_host_context_check_thread_def ts_context_is_owner_thread_def split: option.splits)

section \<open>Reference counting\<close>

text \<open>
  The holders of references: the creator, until it calls \<^verbatim>\<open>turbo_script_free\<close>, and the results,
  modules and instances that retained the context.
\<close>

datatype ref_event = Retain | Release | Free

definition ref_step :: "addr \<Rightarrow> ctx_store \<Rightarrow> ref_event \<Rightarrow> ctx_store" where
  "ref_step c C e =
     (case e of Retain \<Rightarrow> ts_context_retain C c
      | Release \<Rightarrow> ts_context_release C c
      | Free \<Rightarrow> turbo_script_free C c)"

text \<open>The number of references held after a history that started with the creator's one.\<close>

definition holders :: "ref_event list \<Rightarrow> int" where
  "holders es = int (count_list es Retain) - int (count_list es Release) +
                (if Free \<in> set es then 0 else 1)"

text \<open>Histories in which nobody releases what it does not hold, or acts on a context without a reference.\<close>

definition well_owned :: "ref_event list \<Rightarrow> bool" where
  "well_owned es \<longleftrightarrow>
     (\<forall>n < length es. 0 < holders (take n es) \<and> holders (take n es) < 2 ^ 32 - 1 \<and>
        (es ! n = Release \<longrightarrow> count_list (take n es) Release < count_list (take n es) Retain))"

definition fresh_ctx :: "host_ctx \<Rightarrow> bool" where
  "fresh_ctx x \<longleftrightarrow> ref_count x = 1 \<and> \<not> closing x \<and> \<not> ctx_freed x"

lemma holders_snoc:
  "holders (es @ [e]) = holders es + (case e of Retain \<Rightarrow> 1 | Release \<Rightarrow> -1
     | Free \<Rightarrow> if Free \<in> set es then 0 else -1)"
  by (cases e) (auto simp: holders_def)

lemma well_owned_snoc:
  "well_owned (es @ [e]) \<Longrightarrow> well_owned es \<and> 0 < holders es \<and> holders es < 2 ^ 32 - 1"
proof -
  assume w: "well_owned (es @ [e])"
  have "well_owned es"
    unfolding well_owned_def
  proof (intro allI impI)
    fix n
    assume "n < length es"
    with w [unfolded well_owned_def, rule_format, of n]
    show "0 < holders (take n es) \<and> holders (take n es) < 2 ^ 32 - 1 \<and>
        (es ! n = Release \<longrightarrow> count_list (take n es) Release < count_list (take n es) Retain)"
      by (simp add: nth_append)
  qed
  with w [unfolded well_owned_def, rule_format, of "length es"] show ?thesis by simp
qed

lemma ref_step_count:
  fixes D :: ctx_store and e :: ref_event
  assumes n: "uint (ref_count (D c)) = n" "0 < n" "n < 2 ^ 32 - 1" and live: "\<not> ctx_freed (D c)"
  defines "n' \<equiv> n + (case e of Retain \<Rightarrow> 1 | Release \<Rightarrow> -1 | Free \<Rightarrow> if closing (D c) then 0 else -1)"
  shows "uint (ref_count (ref_step c D e c)) = n'"
    and "closing (ref_step c D e c) \<longleftrightarrow> closing (D c) \<or> e = Free"
    and "ctx_freed (ref_step c D e c) \<longleftrightarrow> n' = 0"
proof -
  have up: "uint (ref_count (D c) + 1) = n + 1" using n by (simp add: uint_word_ariths)
  have down: "uint (ref_count (D c) - 1) = n - 1" using n by (simp add: uint_word_ariths)
  have one: "ref_count (D c) = 1 \<longleftrightarrow> n = 1" using n(1) by (metis uint_1 word_uint_eq_iff)
  note defs = ref_step_def ts_context_retain_def ts_context_release_def turbo_script_free_def Let_def n'_def
  show "uint (ref_count (ref_step c D e c)) = n'" using up down one n(1) by (cases e) (simp_all add: defs)
  show "closing (ref_step c D e c) \<longleftrightarrow> closing (D c) \<or> e = Free" by (cases e) (simp_all add: defs)
  show "ctx_freed (ref_step c D e c) \<longleftrightarrow> n' = 0"
    using one live n(2) by (cases e) (simp_all add: defs)
qed

lemma ref_run:
  assumes "fresh_ctx (C c)"
  shows "well_owned es \<Longrightarrow>
    uint (ref_count (foldl (ref_step c) C es c)) = holders es \<and>
    (closing (foldl (ref_step c) C es c) \<longleftrightarrow> Free \<in> set es) \<and>
    (ctx_freed (foldl (ref_step c) C es c) \<longleftrightarrow> holders es = 0)"
proof (induction es rule: rev_induct)
  case Nil
  with assms show ?case by (simp add: fresh_ctx_def holders_def)
next
  case (snoc e es)
  note w = well_owned_snoc [OF snoc.prems]
  with snoc.IH ref_step_count [where D = "foldl (ref_step c) C es" and c = c and e = e, OF _ conjunct1 [OF conjunct2 [OF w]]]
  show ?case by (auto simp: holders_snoc)
qed

text \<open>
  the context lives exactly as long as somebody holds it.  In every history of retains,
  releases and calls of \<^verbatim>\<open>turbo_script_free\<close> in which nobody releases more than was retained, the
  count of the context is the number of its holders, and the final destruction has happened if and
  only if there are none left.
\<close>

theorem context_freed_iff_unheld:
  assumes "fresh_ctx (C c)" and "well_owned es"
  shows "uint (ref_count (foldl (ref_step c) C es c)) = holders es \<and>
    (ctx_freed (foldl (ref_step c) C es c) \<longleftrightarrow> holders es = 0)"
  using ref_run [of C c, OF assms] by blast

definition example_ctx :: host_ctx where
  "example_ctx =
     \<lparr>ref_count = 1, closing = False, owner_thread_token = 7, ctx_freed = False, host_functions = [],
      active_host_modules = 0, host_callback_depth = 0, active_host_instance = None,
      next_instance_generation = 0\<rparr>"

theorem context_freed_iff_unheld_witness:
  "ctx_freed (foldl (ref_step 1) (\<lambda>a. example_ctx) [Retain, Free, Release] 1) \<and>
   \<not> ctx_freed (foldl (ref_step 1) (\<lambda>a. example_ctx) [Retain, Free] 1)"
proof -
  have f: "fresh_ctx example_ctx" by (simp add: fresh_ctx_def example_ctx_def)
  have w: "well_owned [Retain, Free, Release]" "well_owned [Retain, Free]"
    by (auto simp: well_owned_def holders_def less_Suc_eq)
  show ?thesis
    using context_freed_iff_unheld [of "\<lambda>a. example_ctx" 1, OF f w(1)]
      context_freed_iff_unheld [of "\<lambda>a. example_ctx" 1, OF f w(2)]
    by (simp add: holders_def)
qed

end
