(* ===== verification/Host_Result.thy ===== *)
theory Host_Result
  imports Host_Export Host_Context
begin

text \<open>
  The result object of the host ABI (second half of
  \<^verbatim>\<open>turbo_script/src/host/turbo_script_host_result.c\<close>): it holds a value or an error, or nothing,
  in an arena of its own, and belongs to one context and its owner thread.
\<close>

section \<open>State\<close>

text \<open>\<^verbatim>\<open>turbo_script_error_info_s\<close>.\<close>

record error_info =
  ei_struct_size :: u32
  ei_status :: status
  ei_error_code :: int
  ei_phase :: phase
  ei_line :: u32
  ei_column :: u32
  ei_length :: u32
  ei_cause_code :: int
  ei_module_name :: sview
  ei_function_name :: sview
  ei_message :: sview
  ei_reserved :: "u64 list"

definition no_error :: error_info where
  "no_error =
     \<lparr>ei_struct_size = 0, ei_status = 0, ei_error_code = 0, ei_phase = 0, ei_line = 0, ei_column = 0,
      ei_length = 0, ei_cause_code = 0, ei_module_name = NullBuf 0, ei_function_name = NullBuf 0,
      ei_message = NullBuf 0, ei_reserved = [0, 0, 0, 0]\<rparr>"

text \<open>\<^verbatim>\<open>turbo_script_result_s\<close>.\<close>

record 'p result =
  res_ctx :: addr
  view_arena :: 'p
  res_value :: value_view
  res_error :: error_info
  has_value :: bool
  has_error :: bool

definition ts_host_null_view :: value_view where
  "ts_host_null_view = view_of VNull"

section \<open>Operations\<close>

definition ts_host_result_check_thread :: "ctx_store \<Rightarrow> nat \<Rightarrow> 'p result option \<Rightarrow> status" where
  "ts_host_result_check_thread C thread r =
     (case r of None \<Rightarrow> STATUS_INVALID_ARGUMENT
      | Some x \<Rightarrow> ts_host_context_check_thread C thread (Some (res_ctx x)))"

definition ts_host_result_clear_unchecked :: "'p arena \<Rightarrow> 'p result \<Rightarrow> 'p result" where
  "ts_host_result_clear_unchecked A r =
     r\<lparr>view_arena := mem_reset A (view_arena r), res_value := ts_host_null_view,
       res_error := no_error, has_value := False, has_error := False\<rparr>"

text \<open>
  \<^verbatim>\<open>turbo_script_result_create\<close>: \<open>block\<close> says whether \<^verbatim>\<open>calloc\<close> succeeds, \<open>pool\<close> is what
  \<^verbatim>\<open>mem_init\<close> makes of the arena, if it succeeds.
\<close>

definition turbo_script_result_create ::
  "ctx_store \<Rightarrow> nat \<Rightarrow> bool \<Rightarrow> 'p option \<Rightarrow> addr option \<Rightarrow> status \<times> 'p result option \<times> ctx_store" where
  "turbo_script_result_create C thread block pool ctx =
     (let s = ts_host_context_check_thread C thread ctx in
      if s \<noteq> STATUS_OK then (s, None, C)
      else if \<not> block then (STATUS_OUT_OF_MEMORY, None, C)
      else
        (case pool of
           None \<Rightarrow> (STATUS_OUT_OF_MEMORY, None, C)
         | Some p \<Rightarrow>
             (STATUS_OK,
              Some \<lparr>res_ctx = the ctx, view_arena = p, res_value = ts_host_null_view,
                    res_error = no_error, has_value = False, has_error = False\<rparr>,
              ts_context_retain C (the ctx))))"

definition ts_host_result_reset_checked ::
  "'p arena \<Rightarrow> ctx_store \<Rightarrow> nat \<Rightarrow> 'p result option \<Rightarrow> status \<times> 'p result option" where
  "ts_host_result_reset_checked A C thread r =
     (let s = ts_host_result_check_thread C thread r in
      if s \<noteq> STATUS_OK then (s, r)
      else (STATUS_OK, map_option (ts_host_result_clear_unchecked A) r))"

text \<open>Destroying a result gives up its reference to the context; the handle is gone (\<open>None\<close>).\<close>

definition ts_host_result_destroy_checked ::
  "ctx_store \<Rightarrow> nat \<Rightarrow> 'p result option \<Rightarrow> status \<times> 'p result option \<times> ctx_store" where
  "ts_host_result_destroy_checked C thread r =
     (let s = ts_host_result_check_thread C thread r in
      if s \<noteq> STATUS_OK then (s, r, C)
      else (STATUS_OK, None, ts_context_release C (res_ctx (the r))))"

text \<open>
  The void entry points cannot report a wrong thread: \<^verbatim>\<open>ts_host_result_contract_violation\<close>
  aborts the process, which is \<open>None\<close>.
\<close>

definition turbo_script_result_reset ::
  "'p arena \<Rightarrow> ctx_store \<Rightarrow> nat \<Rightarrow> 'p result option \<Rightarrow> 'p result option option" where
  "turbo_script_result_reset A C thread r =
     (case ts_host_result_reset_checked A C thread r of
        (s, r') \<Rightarrow> if s = STATUS_WRONG_THREAD then None else Some r')"

definition turbo_script_result_destroy ::
  "ctx_store \<Rightarrow> nat \<Rightarrow> 'p result option \<Rightarrow> ('p result option \<times> ctx_store) option" where
  "turbo_script_result_destroy C thread r =
     (case ts_host_result_destroy_checked C thread r of
        (s, r', C') \<Rightarrow> if s = STATUS_WRONG_THREAD then None else Some (r', C'))"

text \<open>The getters: the status, and what was written to the output if anything was.\<close>

definition turbo_script_result_get_value ::
  "ctx_store \<Rightarrow> nat \<Rightarrow> 'p result option \<Rightarrow> bool \<Rightarrow> status \<times> value_view option" where
  "turbo_script_result_get_value C thread r has_out =
     (let s = ts_host_result_check_thread C thread r in
      if s \<noteq> STATUS_OK then (s, None)
      else if \<not> has_out then (STATUS_INVALID_ARGUMENT, None)
      else if \<not> has_value (the r) then (STATUS_INVALID_STATE, None)
      else (STATUS_OK, Some (res_value (the r))))"

definition turbo_script_result_get_error ::
  "ctx_store \<Rightarrow> nat \<Rightarrow> 'p result option \<Rightarrow> bool \<Rightarrow> status \<times> error_info option" where
  "turbo_script_result_get_error C thread r has_out =
     (let s = ts_host_result_check_thread C thread r in
      if s \<noteq> STATUS_OK then (s, None)
      else if \<not> has_out then (STATUS_INVALID_ARGUMENT, None)
      else if \<not> has_error (the r) then (STATUS_INVALID_STATE, None)
      else (STATUS_OK, Some (res_error (the r))))"

text \<open>
  \<^verbatim>\<open>ts_host_result_store_view\<close>, on a result that is there (the null pointer is refused by the
  thread check).  The outer \<open>None\<close> would be running out of fuel in the copy.
\<close>

definition ts_host_result_store_view ::
  "('a, 'b) salts \<Rightarrow> 'p arena \<Rightarrow> ctx_store \<Rightarrow> nat \<Rightarrow> view_mem \<Rightarrow> 'p result option \<Rightarrow> addr option \<Rightarrow>
   value_limits option \<Rightarrow> (status \<times> view_mem \<times> 'p result option) option" where
  "ts_host_result_store_view E A C thread M r value limits =
     (let s = ts_host_result_check_thread C thread r in
      if s \<noteq> STATUS_OK then Some (s, M, r)
      else
        let r1 = ts_host_result_clear_unchecked A (the r);
            s = ts_host_validate_value_view E M value limits
        in if s \<noteq> STATUS_OK then Some (s, M, Some r1)
           else
             (case ts_host_copy_view A (unat (max_depth (the limits))) M (view_arena r1)
                     (vm_value M (the value)) of
                None \<Rightarrow> None
              | Some (s, copy, M', pool) \<Rightarrow>
                  let r2 = r1\<lparr>view_arena := pool\<rparr> in
                  if s \<noteq> STATUS_OK then Some (s, M', Some (ts_host_result_clear_unchecked A r2))
                  else Some (STATUS_OK, M', Some (r2\<lparr>res_value := copy, has_value := True\<rparr>))))"

text \<open>
  \<^verbatim>\<open>ts_host_result_store_exprtk\<close>: \<open>tmp\<close> is the temporary arena, if \<^verbatim>\<open>mem_init\<close> succeeds, and
  \<open>local\<close> the address of the local variable \<^verbatim>\<open>view\<close>.
\<close>

definition ts_host_result_store_exprtk ::
  "('a, 'b) salts \<Rightarrow> 'p arena \<Rightarrow> ctx_store \<Rightarrow> nat \<Rightarrow> view_mem \<Rightarrow> 'p option \<Rightarrow> addr \<Rightarrow>
   'p result option \<Rightarrow> exprtk_value option \<Rightarrow> value_limits option \<Rightarrow>
   (status \<times> view_mem \<times> 'p result option) option" where
  "ts_host_result_store_exprtk E A C thread M tmp local r value limits =
     (if r = None \<or> value = None \<or> limits = None then Some (STATUS_INVALID_ARGUMENT, M, r)
      else
        let s = ts_host_result_check_thread C thread r in
        if s \<noteq> STATUS_OK then Some (s, M, r)
        else
          let r1 = ts_host_result_clear_unchecked A (the r) in
          (case tmp of
             None \<Rightarrow> Some (STATUS_OUT_OF_MEMORY, M, Some r1)
           | Some pool \<Rightarrow>
               (case ts_host_exprtk_to_view (utf8_valid E) A (the limits)
                       \<lparr>xs_mem = M, xs_pool = pool, xs_nodes = 0, xs_bytes = 0\<rparr> (the value) 1 of
                  (s, view, st) \<Rightarrow>
                    if s \<noteq> STATUS_OK
                    then Some (s, xs_mem st, Some (ts_host_result_clear_unchecked A r1))
                    else
                      (case ts_host_result_store_view E A C thread
                              (write_view (xs_mem st) local view) (Some r1) (Some local) limits of
                         None \<Rightarrow> None
                       | Some (s, M', r2) \<Rightarrow>
                           Some (s, M',
                             if s \<noteq> STATUS_OK then map_option (ts_host_result_clear_unchecked A) r2
                             else r2)))))"

section \<open>Errors\<close>

definition ts_host_validate_error_info ::
  "('x, 'b) salts \<Rightarrow> error_info option \<Rightarrow> size_t \<Rightarrow> status" where
  "ts_host_validate_error_info E err limit =
     (case err of
        None \<Rightarrow> STATUS_INVALID_ARGUMENT
      | Some e \<Rightarrow>
          if unat (ei_struct_size e) < 112 \<or> limit = 0 \<or> ei_status e < STATUS_INVALID_ARGUMENT \<or>
             ei_status e > STATUS_INTERRUPTED \<or> ei_phase e > PHASE_INTERRUPT
          then STATUS_INVALID_ARGUMENT
          else if \<not> list_all (\<lambda>x. x = 0) (ei_reserved e) then STATUS_INVALID_ARGUMENT
          else
            let L = \<lparr>max_depth = 1, max_nodes = 1, max_bytes = limit\<rparr>;
                (s, st1) = ts_host_validate_string E L
                  \<lparr>vs_nodes = 0, vs_bytes = 0, vs_active = ()\<rparr> (ei_module_name e) False False
            in if s \<noteq> STATUS_OK then s
               else
                 let (s, st2) = ts_host_validate_string E L st1 (ei_function_name e) False False in
                 if s \<noteq> STATUS_OK then s
                 else fst (ts_host_validate_string E L st2 (ei_message e) False False))"

definition ts_host_result_set_error ::
  "('x, 'b) salts \<Rightarrow> 'p arena \<Rightarrow> ctx_store \<Rightarrow> nat \<Rightarrow> 'p result option \<Rightarrow> error_info option \<Rightarrow>
   size_t \<Rightarrow> status \<times> 'p result option" where
  "ts_host_result_set_error E A C thread r err limit =
     (let s = ts_host_result_check_thread C thread r in
      if s \<noteq> STATUS_OK then (s, r)
      else
        let r1 = ts_host_result_clear_unchecked A (the r);
            s = ts_host_validate_error_info E err limit
        in if s \<noteq> STATUS_OK then (s, Some r1)
           else
             (case ts_host_copy_string A (view_arena r1) (ei_module_name (the err)) of
                (m, p1) \<Rightarrow>
                  (case ts_host_copy_string A p1 (ei_function_name (the err)) of
                     (f, p2) \<Rightarrow>
                       (case ts_host_copy_string A p2 (ei_message (the err)) of
                          (g, p3) \<Rightarrow>
                            let r2 = r1\<lparr>view_arena := p3\<rparr> in
                            if m = None \<or> f = None \<or> g = None
                            then (STATUS_OUT_OF_MEMORY, Some (ts_host_result_clear_unchecked A r2))
                            else
                              (STATUS_OK,
                               Some (r2\<lparr>res_error := (the err)\<lparr>ei_module_name := the m,
                                          ei_function_name := the f, ei_message := the g\<rparr>,
                                        has_error := True\<rparr>))))))"

definition ts_host_result_check_context ::
  "ctx_store \<Rightarrow> nat \<Rightarrow> 'p result option \<Rightarrow> addr option \<Rightarrow> status" where
  "ts_host_result_check_context C thread r ctx =
     (let s = ts_host_result_check_thread C thread r in
      if s \<noteq> STATUS_OK then s
      else if ctx = None then STATUS_INVALID_ARGUMENT
      else if Some (res_ctx (the r)) \<noteq> ctx then STATUS_CONTEXT_MISMATCH
      else STATUS_OK)"

lemma result_check_ok:
  "ts_host_result_check_thread C thread r = STATUS_OK \<longleftrightarrow>
     (\<exists>x. r = Some x \<and> owner_thread_token (C (res_ctx x)) = thread)"
  by (cases r) (auto simp: ts_host_result_check_thread_def check_thread_ok)

section \<open>A result holds a value or an error, never both\<close>

text \<open>
  The contract of every operation that writes a result: it fails and leaves the result alone, or it
  fails and leaves it empty, or it succeeds.  \<open>writes r s r'\<close> says that the operation may turn the
  result \<open>r\<close> into \<open>r'\<close> with status \<open>s\<close>.
\<close>

definition result_empty :: "'p result option \<Rightarrow> bool" where
  "result_empty r \<longleftrightarrow> (\<exists>x. r = Some x \<and> \<not> has_value x \<and> \<not> has_error x)"

definition result_exclusive :: "'p result option \<Rightarrow> bool" where
  "result_exclusive r \<longleftrightarrow> (\<forall>x. r = Some x \<longrightarrow> \<not> (has_value x \<and> has_error x))"

lemma result_empty_simps [simp]:
  "result_empty (Some x) \<longleftrightarrow> \<not> has_value x \<and> \<not> has_error x" "\<not> result_empty None"
  by (simp_all add: result_empty_def)

lemma result_exclusive_simps [simp]:
  "result_exclusive (Some x) \<longleftrightarrow> \<not> (has_value x \<and> has_error x)" "result_exclusive None"
  by (simp_all add: result_exclusive_def)

locale result_writer =
  fixes writes :: "'p result option \<Rightarrow> status \<Rightarrow> 'p result option \<Rightarrow> bool"
  assumes failed: "writes r s r' \<Longrightarrow> s \<noteq> STATUS_OK \<Longrightarrow> r' = r \<or> result_empty r'"
    and succeeded: "writes r STATUS_OK r' \<Longrightarrow> result_exclusive r'"
begin

lemma writes_exclusive: "writes r s r' \<Longrightarrow> result_exclusive r \<Longrightarrow> result_exclusive r'"
  using failed [of r s r'] succeeded [of r r']
  by (cases "s = STATUS_OK") (auto simp: result_empty_def result_exclusive_def)

end

definition view_writes ::
  "('a, 'b) salts \<Rightarrow> 'p arena \<Rightarrow> ctx_store \<Rightarrow> 'p result option \<Rightarrow> status \<Rightarrow> 'p result option \<Rightarrow> bool" where
  "view_writes E A C r s r' \<longleftrightarrow>
     (\<exists>thread M value limits M'. ts_host_result_store_view E A C thread M r value limits = Some (s, M', r'))"

definition exprtk_writes ::
  "('a, 'b) salts \<Rightarrow> 'p arena \<Rightarrow> ctx_store \<Rightarrow> 'p result option \<Rightarrow> status \<Rightarrow> 'p result option \<Rightarrow> bool" where
  "exprtk_writes E A C r s r' \<longleftrightarrow>
     (\<exists>thread M tmp local v limits M'.
        ts_host_result_store_exprtk E A C thread M tmp local r v limits = Some (s, M', r'))"

definition error_writes ::
  "('a, 'b) salts \<Rightarrow> 'p arena \<Rightarrow> ctx_store \<Rightarrow> 'p result option \<Rightarrow> status \<Rightarrow> 'p result option \<Rightarrow> bool" where
  "error_writes E A C r s r' \<longleftrightarrow>
     (\<exists>thread err limit. ts_host_result_set_error E A C thread r err limit = (s, r'))"

definition reset_writes :: "'p arena \<Rightarrow> ctx_store \<Rightarrow> 'p result option \<Rightarrow> status \<Rightarrow> 'p result option \<Rightarrow> bool" where
  "reset_writes A C r s r' \<longleftrightarrow> (\<exists>thread. ts_host_result_reset_checked A C thread r = (s, r'))"

lemma clear_empty [simp]:
  "\<not> has_value (ts_host_result_clear_unchecked A r)" "\<not> has_error (ts_host_result_clear_unchecked A r)"
  "res_ctx (ts_host_result_clear_unchecked A r) = res_ctx r"
  by (simp_all add: ts_host_result_clear_unchecked_def)

text \<open>What each writer leaves behind.\<close>

definition write_outcome :: "'p result option \<Rightarrow> status \<Rightarrow> 'p result option \<Rightarrow> bool" where
  "write_outcome r s r' \<longleftrightarrow>
     (if s = STATUS_OK then \<exists>y. r' = Some y \<and> (has_value y \<longleftrightarrow> \<not> has_error y)
      else r' = r \<or> result_empty r')"

lemma store_view_outcome:
  assumes "ts_host_result_store_view E A C thread M r v limits = Some (s, M', r')"
  shows "write_outcome r s r'"
proof (cases "ts_host_result_check_thread C thread r = STATUS_OK")
  case True
  then obtain x where r: "r = Some x" by (auto simp: result_check_ok)
  show ?thesis
  proof (cases "ts_host_validate_value_view E M v limits = STATUS_OK")
    case valid: True
    from assms True valid show ?thesis
      by (auto simp: ts_host_result_store_view_def Let_def write_outcome_def r split: option.splits if_splits)
  next
    case False
    with assms True show ?thesis by (auto simp: ts_host_result_store_view_def Let_def write_outcome_def)
  qed
qed (use assms in \<open>auto simp: ts_host_result_store_view_def write_outcome_def\<close>)

lemma store_exprtk_outcome:
  assumes run: "ts_host_result_store_exprtk E A C thread M tmp local r v limits = Some (s, M', r')"
  shows "write_outcome r s r'"
proof (cases "r = None \<or> v = None \<or> limits = None \<or> ts_host_result_check_thread C thread r \<noteq> STATUS_OK")
  case True
  with run show ?thesis
    unfolding ts_host_result_store_exprtk_def Let_def write_outcome_def by (auto split: if_splits)
next
  case False
  then obtain x y L where rvl: "r = Some x" "v = Some y" "limits = Some L" by auto
  show ?thesis
  proof (cases tmp)
    case None
    with run False show ?thesis by (auto simp: ts_host_result_store_exprtk_def Let_def write_outcome_def)
  next
    case (Some pool)
    obtain s0 w st where tv: "ts_host_exprtk_to_view (utf8_valid E) A L
        \<lparr>xs_mem = M, xs_pool = pool, xs_nodes = 0, xs_bytes = 0\<rparr> y 1 = (s0, w, st)" by (metis prod_cases3)
    show ?thesis
    proof (cases "s0 = STATUS_OK")
      case False
      with run rvl Some tv \<open>\<not> (r = None \<or> _)\<close> show ?thesis
        by (auto simp: ts_host_result_store_exprtk_def Let_def write_outcome_def)
    next
      case True
      with run rvl Some tv \<open>\<not> (r = None \<or> _)\<close> obtain r2 where
        sv: "ts_host_result_store_view E A C thread (write_view (xs_mem st) local w)
          (Some (ts_host_result_clear_unchecked A x)) (Some local) (Some L) = Some (s, M', r2)"
        and r': "r' = (if s \<noteq> STATUS_OK then map_option (ts_host_result_clear_unchecked A) r2 else r2)"
        by (auto simp: ts_host_result_store_exprtk_def Let_def split: option.splits)
      from store_view_outcome [OF sv] show ?thesis
        by (cases r2) (auto simp: write_outcome_def r' split: if_splits)
    qed
  qed
qed

lemma set_error_outcome:
  assumes "ts_host_result_set_error E A C thread r err limit = (s, r')"
  shows "write_outcome r s r'"
proof (cases "ts_host_result_check_thread C thread r = STATUS_OK")
  case True
  show ?thesis
  proof (cases "ts_host_validate_error_info E err limit = STATUS_OK")
    case valid: True
    from assms True valid show ?thesis
      by (auto simp: ts_host_result_set_error_def Let_def write_outcome_def split: prod.splits if_splits)
  next
    case False
    with assms True show ?thesis by (auto simp: ts_host_result_set_error_def Let_def write_outcome_def)
  qed
qed (use assms in \<open>auto simp: ts_host_result_set_error_def write_outcome_def\<close>)

interpretation view_writer: result_writer "view_writes E A C" for E A C
  by unfold_locales (auto simp: view_writes_def write_outcome_def dest!: store_view_outcome)

interpretation exprtk_writer: result_writer "exprtk_writes E A C" for E A C
  by unfold_locales (auto simp: exprtk_writes_def write_outcome_def dest!: store_exprtk_outcome)

interpretation error_writer: result_writer "error_writes E A C" for E A C
  by unfold_locales (auto simp: error_writes_def write_outcome_def dest!: set_error_outcome)

lemma reset_outcome:
  assumes "ts_host_result_reset_checked A C thread r = (s, r')"
  shows "s \<noteq> STATUS_OK \<and> r' = r \<or> s = STATUS_OK \<and> result_empty r'"
proof (cases "ts_host_result_check_thread C thread r = STATUS_OK")
  case True
  then obtain x where "r = Some x" by (auto simp: result_check_ok)
  with assms True show ?thesis by (auto simp: ts_host_result_reset_checked_def)
qed (use assms in \<open>auto simp: ts_host_result_reset_checked_def\<close>)

interpretation reset_writer: result_writer "reset_writes A C" for A C
  by unfold_locales (auto simp: reset_writes_def result_empty_def dest!: reset_outcome)

text \<open>Everything that can happen to a result between its creation and its destruction.\<close>

inductive result_reachable :: "('a, 'b) salts \<Rightarrow> 'p arena \<Rightarrow> ctx_store \<Rightarrow> 'p result option \<Rightarrow> bool"
  for E A C where
  created: "turbo_script_result_create C0 thread block pool ctx = (STATUS_OK, r, C1) \<Longrightarrow>
    result_reachable E A C r"
| stored_view: "result_reachable E A C r \<Longrightarrow> view_writes E A C r s r' \<Longrightarrow> result_reachable E A C r'"
| stored_exprtk: "result_reachable E A C r \<Longrightarrow> exprtk_writes E A C r s r' \<Longrightarrow> result_reachable E A C r'"
| set_error: "result_reachable E A C r \<Longrightarrow> error_writes E A C r s r' \<Longrightarrow> result_reachable E A C r'"
| reset: "result_reachable E A C r \<Longrightarrow> reset_writes A C r s r' \<Longrightarrow> result_reachable E A C r'"

lemma reachable_exclusive: "result_reachable E A C r \<Longrightarrow> result_exclusive r"
proof (induction rule: result_reachable.induct)
  case (created C0 thread block pool ctx r C1)
  then show ?case
    by (auto simp: turbo_script_result_create_def Let_def result_exclusive_def
        split: if_splits option.splits)
qed (blast intro: view_writer.writes_exclusive exprtk_writer.writes_exclusive
    error_writer.writes_exclusive reset_writer.writes_exclusive)+

text \<open>
  C11: a result never shows a value and an error at the same time.  Whatever sequence of stores,
  errors and resets, successful or not, a result has been through since its creation, at most one of
  \<^verbatim>\<open>turbo_script_result_get_value\<close> and \<^verbatim>\<open>turbo_script_result_get_error\<close> succeeds on it.
\<close>

theorem result_value_or_error:
  assumes "result_reachable E A C r"
  shows "\<not> (fst (turbo_script_result_get_value C thread r True) = STATUS_OK \<and>
            fst (turbo_script_result_get_error C thread r True) = STATUS_OK)"
  using reachable_exclusive [OF assms]
  by (auto simp: turbo_script_result_get_value_def turbo_script_result_get_error_def Let_def
      result_exclusive_def result_check_ok split: if_splits)

definition example_result :: "addr result" where
  "example_result =
     \<lparr>res_ctx = 1, view_arena = 9000, res_value = ts_host_null_view, res_error = no_error,
      has_value = False, has_error = False\<rparr>"

lemma example_result_created:
  "turbo_script_result_create (\<lambda>a. example_ctx) 7 True (Some 9000) (Some 1) =
     (STATUS_OK, Some example_result, ts_context_retain (\<lambda>a. example_ctx) 1)"
  by (simp add: turbo_script_result_create_def ts_host_context_check_thread_def
      ts_context_is_owner_thread_def example_ctx_def example_result_def)

lemma example_owner: "ts_host_result_check_thread (\<lambda>a. example_ctx) 7 (Some example_result) = STATUS_OK"
  by (simp add: result_check_ok example_ctx_def)

theorem result_value_or_error_witness:
  "turbo_script_result_create (\<lambda>a. example_ctx) 7 True (Some 9000) (Some 1) =
     (STATUS_OK, Some example_result, ts_context_retain (\<lambda>a. example_ctx) 1) \<and>
   \<not> (fst (turbo_script_result_get_value (\<lambda>a. example_ctx) 7 (Some example_result) True) = STATUS_OK \<and>
      fst (turbo_script_result_get_error (\<lambda>a. example_ctx) 7 (Some example_result) True) = STATUS_OK)"
  using result_value_or_error [where E = list_salts and A = bump_arena and C = "\<lambda>a. example_ctx",
      OF result_reachable.created [OF example_result_created]] example_result_created by blast

section \<open>Stored values can be read back\<close>

lemma get_value_stored:
  "ts_host_result_check_thread C thread (Some x) = STATUS_OK \<Longrightarrow> has_value x \<Longrightarrow>
   turbo_script_result_get_value C thread (Some x) True = (STATUS_OK, Some (res_value x))"
  by (simp add: turbo_script_result_get_value_def)

lemma check_thread_ctx:
  "ts_host_result_check_thread C thread (Some x) = STATUS_OK \<Longrightarrow> res_ctx y = res_ctx x \<Longrightarrow>
   ts_host_result_check_thread C thread (Some y) = STATUS_OK"
  by (simp add: result_check_ok)

text \<open>The memory a result may hand out after it was cleared.\<close>

definition arena_after_clear :: "'p arena \<Rightarrow> ('p \<Rightarrow> addr set) \<Rightarrow> 'p result \<Rightarrow> addr set" where
  "arena_after_clear A free_in r = free_in (mem_reset A (view_arena r))"

lemma store_view_ok:
  assumes laws: "arena_laws A free_in" "key_set_laws E keys_of" and fits: "mem_fits M"
    and owner: "ts_host_result_check_thread C thread (Some x) = STATUS_OK"
    and valid: "ts_host_validate_value_view E M v limits = STATUS_OK"
    and apart: "\<And>a L. v = Some a \<Longrightarrow> limits = Some L \<Longrightarrow>
      reach (unat (max_depth L)) M (vm_value M a) \<inter> arena_after_clear A free_in x = {}"
  obtains a L t s w M' y where "v = Some a" "limits = Some L" "tree_of (unat (max_depth L)) M a = Some t"
    "twf (utf8_valid E) t"
    "ts_host_result_store_view E A C thread M (Some x) v limits = Some (s, M', Some y)"
    "agree (- arena_after_clear A free_in x) M M'" "s \<in> {STATUS_OK, STATUS_OUT_OF_MEMORY}"
    "s = STATUS_OK \<Longrightarrow> turbo_script_result_get_value C thread (Some y) True = (STATUS_OK, Some w) \<and>
       tree_at (unat (max_depth L)) M' w = Some t \<and>
       reach (unat (max_depth L)) M' w \<subseteq> arena_after_clear A free_in x - free_in (view_arena y)"
proof -
  from validate_view_ok [OF laws(2) fits valid] obtain a L t where v: "v = Some a" "limits = Some L"
    "tree_of (unat (max_depth L)) M a = Some t" "twf (utf8_valid E) t" .
  let ?x = "ts_host_result_clear_unchecked A x" and ?f = "unat (max_depth L)"
  have pool: "view_arena ?x = mem_reset A (view_arena x)" by (simp add: ts_host_result_clear_unchecked_def)
  have "view_copied free_in ?f M (view_arena ?x) t (ts_host_copy_view A ?f M (view_arena ?x) (vm_value M a))"
    using copy_view_ok [OF laws(1)] v(3) apart [OF v(1,2)]
    by (simp add: tree_of_tree_at pool arena_after_clear_def)
  then obtain s w M' pool' where c: "ts_host_copy_view A ?f M (view_arena ?x) (vm_value M a) = Some (s, w, M', pool')"
      "s \<in> {STATUS_OK, STATUS_OUT_OF_MEMORY}" "agree (- free_in (view_arena ?x)) M M'"
      "s = STATUS_OK \<Longrightarrow> tree_at ?f M' w = Some t \<and> reach ?f M' w \<subseteq> free_in (view_arena ?x) - free_in pool'"
    by (auto simp: view_copied_def)
  define y where "y = (if s = STATUS_OK
    then ?x\<lparr>view_arena := pool', res_value := w, has_value := True\<rparr>
    else ts_host_result_clear_unchecked A (?x\<lparr>view_arena := pool'\<rparr>))"
  have run: "ts_host_result_store_view E A C thread M (Some x) v limits = Some (s, M', Some y)"
    using owner valid c(1) v(1,2) by (simp add: ts_host_result_store_view_def Let_def y_def)
  have "turbo_script_result_get_value C thread (Some y) True = (STATUS_OK, Some w) \<and> view_arena y = pool'"
    if "s = STATUS_OK"
    using that get_value_stored [OF check_thread_ctx [OF owner], of y] by (simp add: y_def)
  with that [OF v(1,2,3,4) run _ c(2), of w] c(3,4) show thesis
    by (simp add: pool arena_after_clear_def)
qed

text \<open>
  storing a view and reading it back.  On the owner thread, if the view is valid and lies outside
  the result's own arena, \<^verbatim>\<open>ts_host_result_store_view\<close> returns success or out of memory; on success
  the getter returns a view of the same tree that depends on no memory but the result's arena, and
  no other memory has changed.
\<close>

theorem stored_view_is_read_back:
  assumes "arena_laws A free_in" and "key_set_laws E keys_of" and "mem_fits M"
    and "ts_host_result_check_thread C thread (Some x) = STATUS_OK"
    and "ts_host_validate_value_view E M (Some a) (Some L) = STATUS_OK"
    and "reach (unat (max_depth L)) M (vm_value M a) \<inter> arena_after_clear A free_in x = {}"
  shows "\<exists>s M' y. ts_host_result_store_view E A C thread M (Some x) (Some a) (Some L) = Some (s, M', Some y) \<and>
    s \<in> {STATUS_OK, STATUS_OUT_OF_MEMORY} \<and> agree (- arena_after_clear A free_in x) M M' \<and>
    (s = STATUS_OK \<longrightarrow>
       (\<exists>w. turbo_script_result_get_value C thread (Some y) True = (STATUS_OK, Some w) \<and>
          tree_at (unat (max_depth L)) M' w = tree_of (unat (max_depth L)) M a \<and>
          reach (unat (max_depth L)) M' w \<subseteq> arena_after_clear A free_in x))"
proof -
  have apart: "\<And>a' L'. Some a = Some a' \<Longrightarrow> Some L = Some L' \<Longrightarrow>
      reach (unat (max_depth L')) M (vm_value M a') \<inter> arena_after_clear A free_in x = {}"
    using assms(6) by simp
  show ?thesis by (rule store_view_ok [OF assms(1-5) apart]) fastforce+
qed

lemma lessThan_2: "{..<2 :: nat} = {0, Suc 0}"
  by auto

lemma example_apart:
  "reach (unat (max_depth example_limits)) example_mem (vm_value example_mem 1000) \<inter>
     arena_after_clear bump_arena (\<lambda>p. {p..}) example_result = {}"
proof -
  have "unat (max_depth example_limits) = Suc (Suc (Suc (Suc 0)))" by (simp add: example_limits_def)
  then show ?thesis
    by (auto simp: example_mem_def arena_after_clear_def bump_arena_def example_result_def
        item_addr_def entry_addr_def entry_value_addr_def lessThan_2)
qed

theorem stored_view_is_read_back_witness:
  "\<exists>s M' y. ts_host_result_store_view list_salts bump_arena (\<lambda>a. example_ctx) 7 example_mem
      (Some example_result) (Some 1000) (Some example_limits) = Some (s, M', Some y) \<and>
    s \<in> {STATUS_OK, STATUS_OUT_OF_MEMORY} \<and>
    (s = STATUS_OK \<longrightarrow>
       (\<exists>w. turbo_script_result_get_value (\<lambda>a. example_ctx) 7 (Some y) True = (STATUS_OK, Some w) \<and>
          tree_at 4 M' w = tree_of 4 example_mem 1000))"
  using stored_view_is_read_back [OF bump_arena_laws list_salts_laws example_mem_fits example_owner
      example_valid_view example_apart] by (auto simp: example_limits_def)

section \<open>Script values as results\<close>

definition view_fits :: "value_view \<Rightarrow> bool" where
  "view_fits w \<longleftrightarrow> (\<forall>b. vv_as w = VString b \<longrightarrow> buf_fits b)"

lemma mem_fits_write: "mem_fits M \<Longrightarrow> view_fits w \<Longrightarrow> mem_fits (write_view M a w)"
  by (auto simp: mem_fits_def view_fits_def write_view_def)

lemma view_fits_of [simp]:
  "view_fits (view_of VNull)" "view_fits (view_of (VBool b))" "view_fits (view_of (VInt64 i))"
  "view_fits (view_of (VNumber d))" "view_fits (view_of (VString v)) \<longleftrightarrow> buf_fits v"
  "view_fits (view_of (VArray q n))" "view_fits (view_of (VRecord q n))"
  by (simp_all add: view_fits_def view_of_def)

lemma mem_fits_numbers: "mem_fits M \<Longrightarrow> mem_fits (write_numbers M q i ds)"
  by (induction ds arbitrary: M i) (simp_all add: mem_fits_write)

lemma charge_mem: "ts_host_exprtk_view_charge L st c e = (s, st') \<Longrightarrow> xs_mem st' = xs_mem st"
  by (auto simp: ts_host_exprtk_view_charge_def Let_def split: if_splits)

lemma export_array_mem: "export_array A L st n e = (s, q, st') \<Longrightarrow> xs_mem st' = xs_mem st"
  by (auto simp: export_array_def Let_def split: if_splits prod.splits option.splits
      dest: charge_mem)

lemma export_key_fits:
  assumes "mem_fits (xs_mem st)" and "length key < 2 ^ 64"
    and "export_key K L st keyed q i key = (s, st')"
  shows "mem_fits (xs_mem st')"
proof -
  obtain s1 st1 where c: "ts_host_exprtk_view_charge L st (of_nat (length key) + nul_size K) 1 = (s1, st1)"
    by (cases "ts_host_exprtk_view_charge L st (of_nat (length key) + nul_size K) 1") auto
  with assms charge_mem [OF c] show ?thesis
    by (auto simp: export_key_def Let_def mem_fits_def buf_fits_def split: if_splits)
qed

lemma to_view_fits:
  shows "mem_fits (xs_mem st) \<Longrightarrow> vwf v \<Longrightarrow> value_to_view K A L st v depth = (s, w, st') \<Longrightarrow>
      mem_fits (xs_mem st') \<and> view_fits w"
    and "mem_fits (xs_mem st) \<Longrightarrow> \<forall>e \<in> set es. vwf (snd e) \<and> length (fst e) < 2 ^ 64 \<Longrightarrow>
      value_to_elems K A L st keyed q i es depth = (s, st') \<Longrightarrow> mem_fits (xs_mem st')"
proof (induction K A L st v depth and K A L st keyed q i es depth
    arbitrary: s w st' and s st' rule: to_view_induct)
  case (1 K A L st v depth)
  note run = "1.prems"(3) [unfolded value_to_view.simps [of K A L st v depth]]
  show ?case
  proof (cases "unat (max_depth L) < depth \<or> xs_nodes st = max_nodes L")
    case True
    with run "1.prems"(1) show ?thesis by auto
  next
    case lim: False
    note run = run [unfolded if_not_P [OF lim] Let_def]
    let ?st = "st\<lparr>xs_nodes := xs_nodes st + 1\<rparr>"
    have m: "mem_fits (xs_mem ?st)" using "1.prems"(1) by simp
    show ?thesis
    proof (cases v)
      case (ESeq k p b)
      obtain s1 q st1 where arr: "export_array A L ?st (buf_size b) 24 = (s1, q, st1)" by (metis prod_cases3)
      have m1: "mem_fits (xs_mem st1)" using export_array_mem [OF arr] m by simp
      have "mem_fits (xs_mem st2)" if "k = VAL_LIST" "\<not> buf_broken b" "s1 = STATUS_OK"
        "value_to_elems K A L st1 False (the q) 0 (map (Pair []) (buf_elems b)) (Suc depth) = (s2, st2)" for s2 st2
        using "1.IH"(1) [OF lim refl ESeq that(1,2) arr [symmetric] refl _ m1 _ that(4)] that(3) "1.prems"(2)
        by (simp add: ESeq)
      with run m m1 arr show ?thesis
        by (cases k) (auto simp: ESeq split: if_splits prod.splits)
    next
      case (EMap t es)
      obtain s1 q st1 where arr: "export_array A L ?st (exprtk_map_count v) 40 = (s1, q, st1)" by (metis prod_cases3)
      have m1: "mem_fits (xs_mem st1)" using export_array_mem [OF arr] m by simp
      have "mem_fits (xs_mem st2)" if "s1 = STATUS_OK"
        "value_to_elems K A L st1 True (the q) 0 (store_entries es) (Suc depth) = (s2, st2)" for s2 st2
        using "1.IH"(2) [OF lim refl EMap arr [symmetric] refl _ m1 _ that(2)] that(1) "1.prems"(2)
        by (simp add: EMap)
      with run m m1 arr show ?thesis by (auto simp: EMap split: if_splits prod.splits)
    qed (use run m "1.prems"(2) in \<open>auto split: if_splits prod.splits intro!: mem_fits_numbers
          dest!: charge_mem export_array_mem\<close>)
  qed
next
  case (2 K A L st keyed q i depth)
  then show ?case by simp
next
  case (3 K A L st keyed q i e es depth)
  obtain s1 st1 where key: "export_key K L st keyed q i (fst e) = (s1, st1)"
    by (cases "export_key K L st keyed q i (fst e)") auto
  obtain s2 w st2 where view: "value_to_view K A L st1 (snd e) depth = (s2, w, st2)"
    by (metis prod_cases3)
  have e: "vwf (snd e)" "length (fst e) < 2 ^ 64" using "3.prems"(2) by auto
  have m1: "mem_fits (xs_mem st1)" by (rule export_key_fits [OF "3.prems"(1) e(2) key])
  have m2: "mem_fits (xs_mem st2) \<and> view_fits w" if "s1 = STATUS_OK"
    using "3.IH"(1) [OF key [symmetric] _ m1 e(1) view] that by simp
  show ?case
  proof (cases "s1 = STATUS_OK \<and> s2 = STATUS_OK")
    case True
    with "3.prems"(3) key view have rest: "value_to_elems K A L
        (st2\<lparr>xs_mem := write_view (xs_mem st2) (elem_addr keyed q i) w\<rparr>) keyed q (Suc i) es depth = (s, st')" by simp
    show ?thesis
      using "3.IH"(2) [OF key [symmetric] _ view [symmetric] refl _ _ _ rest] True m2 "3.prems"(2)
      by (simp add: mem_fits_write)
  next
    case False
    with "3.prems"(3) key view m1 m2 show ?thesis by (auto split: if_splits)
  qed
qed

lemma tree_at_more: "tree_at f M v = Some t \<Longrightarrow> tree_at (Suc f) M v = Some t"
proof (induction f arbitrary: v t)
  case (Suc f)
  show ?case
  proof (cases "vv_as v")
    case (VArray items n)
    with Suc.prems obtain ts where "t = TArr ts" "vv_reserved v = 0" "\<not> (items = None \<and> n \<noteq> 0)"
      and ts: "those (map (\<lambda>i. tree_at f M (vm_value M (item_addr (the items) i))) [0..<unat n]) = Some ts"
      by (auto split: if_splits)
    moreover have "those (map (\<lambda>i. tree_at (Suc f) M (vm_value M (item_addr (the items) i))) [0..<unat n]) = Some ts"
      using ts Suc.IH by (simp add: those_map_Some del: tree_at.simps)
    ultimately show ?thesis using VArray by (simp only: tree_at.simps(2) [of "Suc f"]) simp
  next
    case (VRecord items n)
    with Suc.prems obtain es where "t = TRec es" "vv_reserved v = 0" "\<not> (items = None \<and> n \<noteq> 0)"
      and es: "those (map (\<lambda>i. map_option (Pair (buf_elems (vm_key M (entry_addr (the items) i))))
        (tree_at f M (vm_value M (entry_value_addr (the items) i)))) [0..<unat n]) = Some es"
      by (auto split: if_splits)
    moreover have "those (map (\<lambda>i. map_option (Pair (buf_elems (vm_key M (entry_addr (the items) i))))
        (tree_at (Suc f) M (vm_value M (entry_value_addr (the items) i)))) [0..<unat n]) = Some es"
      using es Suc.IH unfolding those_map_Some by (fastforce simp del: tree_at.simps)
    ultimately show ?thesis using VRecord by (simp only: tree_at.simps(2) [of "Suc f"]) simp
  qed (use Suc.prems in \<open>simp_all only: tree_at.simps(2) view_as.case\<close>)
qed simp

lemma reach_more: "reach f M v \<subseteq> reach (Suc f) M v"
proof (induction f arbitrary: v)
  case (Suc f)
  then show ?case by (cases "vv_as v") (simp_all only: reach.simps(2) view_as.case, blast+)
qed simp

text \<open>
  C12: returning a script value.  If \<^verbatim>\<open>ts_host_result_store_exprtk\<close> succeeds, reading the result
  gives a view whose tree has the content of the script value (vectors shown as arrays, objects as
  records).  The temporary arena of the conversion, the local variable and the result's arena are
  assumed to be apart.
\<close>

theorem stored_value_is_shown:
  assumes laws: "arena_laws A free_in" "key_set_laws E keys_of" and fits: "mem_fits M" and v: "vwf v"
    and run: "ts_host_result_store_exprtk E A C thread M (Some tmp) local (Some x) (Some v) (Some L)
      = Some (STATUS_OK, M', r')"
    and apart: "local \<notin> free_in tmp"
      "free_in tmp \<inter> arena_after_clear A free_in (ts_host_result_clear_unchecked A x) = {}"
  shows "\<exists>w t. turbo_script_result_get_value C thread r' True = (STATUS_OK, Some w) \<and>
    tree_at (unat (max_depth L)) M' w = Some t \<and> tval t = export (content v)"
proof -
  let ?st0 = "\<lparr>xs_mem = M, xs_pool = tmp, xs_nodes = 0, xs_bytes = 0\<rparr>" and ?f = "unat (max_depth L)"
  let ?x = "ts_host_result_clear_unchecked A x"
  from run obtain w0 st where owner: "ts_host_result_check_thread C thread (Some x) = STATUS_OK"
    and tv: "value_to_view (result_style (utf8_valid E)) A L ?st0 v 1 = (STATUS_OK, w0, st)"
    and sv: "ts_host_result_store_view E A C thread (write_view (xs_mem st) local w0) (Some ?x) (Some local) (Some L)
      = Some (STATUS_OK, M', r')"
    by (auto simp: ts_host_result_store_exprtk_def ts_host_exprtk_to_view_def Let_def split: if_splits prod.splits option.splits)
  let ?M = "write_view (xs_mem st) local w0"
  have "view_exported free_in L 1 ?st0 st (Suc ?f) w0 (content v)"
    using to_view_ok(1) [OF laws(1) _ v tv] by (simp add: xs_ok_def)
  then obtain t where t: "tree_at (Suc ?f) (xs_mem st) w0 = Some t" "tval t = export (content v)"
    and r: "reach (Suc ?f) (xs_mem st) w0 \<subseteq> free_in tmp" by (auto simp: view_exported_def)
  have "agree (reach (Suc ?f) (xs_mem st) w0) (xs_mem st) ?M"
    using r apart(1) by (auto simp: agree_def write_view_def)
  note same = tree_at_agree [OF this]
  have fitM: "mem_fits ?M" using to_view_fits(1) [OF _ v tv] fits by (simp add: mem_fits_write)
  have valid: "ts_host_validate_value_view E ?M (Some local) (Some L) = STATUS_OK"
    using sv owner check_thread_ctx [OF owner, of ?x]
    by (auto simp: ts_host_result_store_view_def Let_def split: if_splits)
  have at: "vm_value ?M local = w0" by (simp add: write_view_def)
  have ap: "\<And>a L'. Some local = Some a \<Longrightarrow> Some L = Some L' \<Longrightarrow>
      reach (unat (max_depth L')) ?M (vm_value ?M a) \<inter> arena_after_clear A free_in ?x = {}"
    using reach_more [of ?f ?M w0] same r apart(2) at by auto
  have owner': "ts_host_result_check_thread C thread (Some ?x) = STATUS_OK"
    by (rule check_thread_ctx [OF owner]) simp
  show ?thesis
  proof (rule store_view_ok [OF laws fitM owner' valid ap])
    fix a L' t' s w M'' y
    assume eqs: "Some local = Some a" "Some L = Some L'" and t': "tree_of (unat (max_depth L')) ?M a = Some t'"
      and sv': "ts_host_result_store_view E A C thread ?M (Some ?x) (Some local) (Some L) = Some (s, M'', Some y)"
      and get: "s = STATUS_OK \<Longrightarrow> turbo_script_result_get_value C thread (Some y) True = (STATUS_OK, Some w) \<and>
        tree_at (unat (max_depth L')) M'' w = Some t' \<and>
        reach (unat (max_depth L')) M'' w \<subseteq> arena_after_clear A free_in ?x - free_in (view_arena y)"
    have "tree_at (Suc ?f) ?M w0 = Some t'" using t' eqs at by (intro tree_at_more) (simp add: tree_of_tree_at)
    with same t(1) have "t' = t" by simp
    with get sv sv' eqs t(2) show ?thesis by auto
  qed
qed

text \<open>An arena that hands out one block of addresses and then refuses.\<close>

definition block_arena :: "(addr \<times> addr) arena" where
  "block_arena =
     \<lparr>mem_alloc_array = (\<lambda>(p, q) e n. if p + unat e * unat n \<le> q then (Some p, (p + unat e * unat n, q)) else (None, (p, q))),
      mem_alloc_bytes = (\<lambda>p n. (True, p)), mem_reset = (\<lambda>p. p)\<rparr>"

lemma block_arena_laws: "arena_laws block_arena (\<lambda>(p, q). {p..<q})"
  by (auto simp: arena_laws_def block_arena_def split: if_splits)

definition block_result :: "(addr \<times> addr) result" where
  "block_result =
     \<lparr>res_ctx = 1, view_arena = (9000, 10000), res_value = ts_host_null_view, res_error = no_error,
      has_value = False, has_error = False\<rparr>"

lemma example_store_exprtk:
  "\<exists>M' r'. ts_host_result_store_exprtk list_salts block_arena (\<lambda>a. example_ctx) 7 example_mem (Some (5000, 6000)) 10
     (Some block_result) (Some (EVector None (Buf [5]))) (Some example_limits) = Some (STATUS_OK, M', r')"
proof -
  have fuel: "unat (max_depth example_limits) = Suc (Suc (Suc (Suc 0)))" by (simp add: example_limits_def)
  have owner: "ts_host_result_check_thread (\<lambda>a. example_ctx) 7 (Some r) = STATUS_OK" for r :: "(addr \<times> addr) result"
    by (simp add: result_check_ok example_ctx_def)
  show ?thesis
    by (simp add: ts_host_result_store_exprtk_def ts_host_result_store_view_def owner Let_def block_result_def
        ts_host_result_clear_unchecked_def ts_host_exprtk_to_view_def value_to_view.simps export_array_def
        ts_host_exprtk_view_charge_def block_arena_def fuel view_of_def write_view_def
        ts_host_validate_value_view_def ts_host_validate_value_views_def ts_host_validate_values_loop_def
        ts_host_validate_items.simps ts_host_validate_node.simps ts_host_validate_container_def
        ts_host_charge_bytes_def list_salts_def item_addr_def elem_addr_def ts_host_copy_key_def
        ts_host_copy_view.simps)
      (simp add: example_limits_def)?
qed

theorem stored_value_is_shown_witness:
  "\<exists>M' r' w t. ts_host_result_store_exprtk list_salts block_arena (\<lambda>a. example_ctx) 7 example_mem (Some (5000, 6000)) 10
     (Some block_result) (Some (EVector None (Buf [5]))) (Some example_limits) = Some (STATUS_OK, M', r') \<and>
   turbo_script_result_get_value (\<lambda>a. example_ctx) 7 r' True = (STATUS_OK, Some w) \<and>
   tree_at 4 M' w = Some t \<and> tval t = export (content (EVector None (Buf [5])))"
proof -
  from example_store_exprtk obtain M' r' where run:
    "ts_host_result_store_exprtk list_salts block_arena (\<lambda>a. example_ctx) 7 example_mem (Some (5000, 6000)) 10
     (Some block_result) (Some (EVector None (Buf [5]))) (Some example_limits) = Some (STATUS_OK, M', r')" by blast
  have "vwf (EVector None (Buf [5]))" by (simp add: buf_fits_def)
  moreover have "10 \<notin> (case (5000 :: addr, 6000 :: addr) of (p, q) \<Rightarrow> {p..<q})"
    "(case (5000 :: addr, 6000 :: addr) of (p, q) \<Rightarrow> {p..<q}) \<inter>
      arena_after_clear block_arena (\<lambda>(p, q). {p..<q}) (ts_host_result_clear_unchecked block_arena block_result) = {}"
    by (simp_all add: arena_after_clear_def ts_host_result_clear_unchecked_def block_arena_def block_result_def)
  ultimately show ?thesis
    using stored_value_is_shown [OF block_arena_laws list_salts_laws example_mem_fits _ run] run
    by (simp add: example_limits_def)
qed

section \<open>Stored errors can be read back\<close>

text \<open>The error with its three strings moved to the arena, and the bytes they take there.\<close>

definition owned_error :: "error_info \<Rightarrow> error_info" where
  "owned_error e = e\<lparr>ei_module_name := Buf (buf_elems (ei_module_name e)),
     ei_function_name := Buf (buf_elems (ei_function_name e)), ei_message := Buf (buf_elems (ei_message e))\<rparr>"

definition error_strings :: "error_info \<Rightarrow> sview list" where
  "error_strings e = [ei_module_name e, ei_function_name e, ei_message e]"

definition error_bytes :: "error_info \<Rightarrow> nat" where
  "error_bytes e = (\<Sum>v\<leftarrow>error_strings e. length (buf_elems v) + 1)"

lemma validate_error_info_ok:
  assumes "ts_host_validate_error_info E (Some e) limit = STATUS_OK" and "\<forall>v \<in> set (error_strings e). buf_fits v"
  shows "error_bytes e \<le> unat limit" and "\<forall>v \<in> set (error_strings e). \<not> buf_broken v \<and> utf8_valid E (buf_elems v)"
    and "STATUS_INVALID_ARGUMENT \<le> ei_status e \<and> ei_status e \<le> STATUS_INTERRUPTED"
proof -
  let ?L = "\<lparr>max_depth = 1, max_nodes = 1, max_bytes = limit\<rparr>" and ?st = "\<lparr>vs_nodes = 0, vs_bytes = 0, vs_active = ()\<rparr>"
  obtain s1 st1 where 1: "ts_host_validate_string E ?L ?st (ei_module_name e) False False = (s1, st1)" by (metis prod.exhaust)
  obtain s2 st2 where 2: "ts_host_validate_string E ?L st1 (ei_function_name e) False False = (s2, st2)" by (metis prod.exhaust)
  obtain s3 st3 where 3: "ts_host_validate_string E ?L st2 (ei_message e) False False = (s3, st3)" by (metis prod.exhaust)
  from assms(1) 1 2 3 have ok: "s1 = STATUS_OK" "s2 = STATUS_OK" "s3 = STATUS_OK"
    and st: "STATUS_INVALID_ARGUMENT \<le> ei_status e" "ei_status e \<le> STATUS_INTERRUPTED"
    by (auto simp: ts_host_validate_error_info_def Let_def not_less split: if_splits)
  have v0: "vs_ok ?L ?st" by (simp add: vs_ok_def)
  note f = assms(2) [unfolded error_strings_def, simplified]
  note r1 = validate_string_ok [OF 1 [unfolded ok] _ v0]
  note r2 = validate_string_ok [OF 2 [unfolded ok] _ r1(5)]
  note r3 = validate_string_ok [OF 3 [unfolded ok] _ r2(5)]
  show "error_bytes e \<le> unat limit"
    using r1(7) r2(7) r3(7) r3(5) f by (simp add: error_bytes_def error_strings_def vs_ok_def)
  show "\<forall>v \<in> set (error_strings e). \<not> buf_broken v \<and> utf8_valid E (buf_elems v)"
    using r1(1,2) r2(1,2) r3(1,2) f by (simp add: error_strings_def)
  show "STATUS_INVALID_ARGUMENT \<le> ei_status e \<and> ei_status e \<le> STATUS_INTERRUPTED" using st by simp
qed

lemma copy_string_buf: "ts_host_copy_string A pool v = (r, pool') \<Longrightarrow> r = None \<or> r = Some (Buf (buf_elems v))"
  by (auto simp: ts_host_copy_string_def split: prod.splits if_splits)

lemma set_error_shown:
  assumes owner: "ts_host_result_check_thread C thread (Some x) = STATUS_OK"
    and run: "ts_host_result_set_error E A C thread (Some x) (Some e) limit = (t, r)"
  shows "turbo_script_result_get_error C thread r True =
      (if t = STATUS_OK then (STATUS_OK, Some (owned_error e)) else (STATUS_INVALID_STATE, None))"
    and "turbo_script_result_get_value C thread r True = (STATUS_INVALID_STATE, None)"
proof -
  have own: "ts_host_result_check_thread C thread (Some y) = STATUS_OK" if "res_ctx y = res_ctx x" for y :: "'a result"
    using check_thread_ctx [OF owner] that .
  let ?x = "ts_host_result_clear_unchecked A x"
  obtain m p1 where 1: "ts_host_copy_string A (view_arena ?x) (ei_module_name e) = (m, p1)" by (metis prod.exhaust)
  obtain f p2 where 2: "ts_host_copy_string A p1 (ei_function_name e) = (f, p2)" by (metis prod.exhaust)
  obtain g p3 where 3: "ts_host_copy_string A p2 (ei_message e) = (g, p3)" by (metis prod.exhaust)
  note bufs = copy_string_buf [OF 1] copy_string_buf [OF 2] copy_string_buf [OF 3]
  have "turbo_script_result_get_error C thread r True =
      (if t = STATUS_OK then (STATUS_OK, Some (owned_error e)) else (STATUS_INVALID_STATE, None)) \<and>
    turbo_script_result_get_value C thread r True = (STATUS_INVALID_STATE, None)"
  proof (cases "ts_host_validate_error_info E (Some e) limit = STATUS_OK")
    case True
    from run owner True 1 2 3 bufs show ?thesis
      using own
      by (auto simp: ts_host_result_set_error_def Let_def turbo_script_result_get_error_def
          turbo_script_result_get_value_def owned_error_def split: if_splits)
  next
    case False
    with run owner own show ?thesis
      by (auto simp: ts_host_result_set_error_def Let_def turbo_script_result_get_error_def turbo_script_result_get_value_def)
  qed
  then show "turbo_script_result_get_error C thread r True =
      (if t = STATUS_OK then (STATUS_OK, Some (owned_error e)) else (STATUS_INVALID_STATE, None))"
    and "turbo_script_result_get_value C thread r True = (STATUS_INVALID_STATE, None)" by blast+
qed

text \<open>
  Setting an error and reading it back.  On the owner thread, \<^verbatim>\<open>ts_host_result_set_error\<close>
  either succeeds, and then the getter returns the same error with its strings owned by the result,
  which are valid UTF-8 and take at most the allowed number of bytes with their terminators, or it
  fails and leaves a result that holds neither an error nor a value, not even the one it held before.
\<close>

theorem error_is_read_back:
  assumes owner: "ts_host_result_check_thread C thread (Some x) = STATUS_OK"
    and fits: "\<forall>v \<in> set (error_strings e). buf_fits v"
    and run: "ts_host_result_set_error E A C thread (Some x) (Some e) limit = (s, r)"
  shows "if s = STATUS_OK
    then turbo_script_result_get_error C thread r True = (STATUS_OK, Some (owned_error e)) \<and>
      error_bytes e \<le> unat limit \<and> (\<forall>v \<in> set (error_strings e). utf8_valid E (buf_elems v)) \<and> ei_status e \<noteq> STATUS_OK
    else turbo_script_result_get_error C thread r True = (STATUS_INVALID_STATE, None) \<and>
      turbo_script_result_get_value C thread r True = (STATUS_INVALID_STATE, None)"
proof (cases "s = STATUS_OK")
  case True
  with run owner have "ts_host_validate_error_info E (Some e) limit = STATUS_OK"
    by (auto simp: ts_host_result_set_error_def Let_def split: if_splits)
  note valid = validate_error_info_ok [OF this fits]
  from True valid set_error_shown [OF owner run] show ?thesis by auto
next
  case False
  with set_error_shown [OF owner run] show ?thesis by simp
qed

definition example_error :: error_info where
  "example_error = no_error\<lparr>ei_struct_size := 112, ei_status := STATUS_RUNTIME_ERROR, ei_phase := PHASE_CALL,
     ei_message := Buf ''boom''\<rparr>"

theorem error_is_read_back_witness:
  "\<exists>r. ts_host_result_set_error list_salts bump_arena (\<lambda>a. example_ctx) 7 (Some example_result) (Some example_error) 64 = (STATUS_OK, r) \<and>
     turbo_script_result_get_error (\<lambda>a. example_ctx) 7 r True = (STATUS_OK, Some (owned_error example_error)) \<and>
     error_bytes example_error \<le> 64"
proof -
  let ?run = "ts_host_result_set_error list_salts bump_arena (\<lambda>a. example_ctx) 7 (Some example_result) (Some example_error) 64"
  have "fst ?run = STATUS_OK"
    by (simp add: ts_host_result_set_error_def example_owner ts_host_validate_error_info_def ts_host_validate_string_def
        ts_host_charge_bytes_def example_error_def no_error_def list_salts_def ascii_valid_def ts_host_copy_string_def
        bump_arena_def Let_def)
  then obtain r where run: "?run = (STATUS_OK, r)" by (cases ?run) auto
  have "\<forall>v \<in> set (error_strings example_error). buf_fits v"
    by (simp add: error_strings_def example_error_def no_error_def buf_fits_def)
  from error_is_read_back [OF example_owner this run] run show ?thesis by auto
qed

end
