(* ===== verification/Native_Registration.thy ===== *)
theory Native_Registration
  imports Host_Prelude
begin

text \<open>
  The function table of an environment and the checked registration of native functions
  (\<^verbatim>\<open>exprtk/src/exprtk_runtime.c\<close>, \<^verbatim>\<open>exprtk_env_register_funcs_checked_with_fault\<close> and
  \<^verbatim>\<open>exprtk_env_has_func\<close>), by which the host functions of a context reach a runtime.  A batch of
  registrations is applied as a whole or not at all.
\<close>

unbundle bit_operations_syntax

section \<open>State\<close>

text \<open>
  \<^verbatim>\<open>exprtk_func_s\<close>: the union holds a native function (code, user data, flags) or a script
  function (its body, if it has one, and the number of its parameters).  Of the native code the host
  layer only knows its own adapter.  A name is a C string, the
  list of its bytes before the terminator.
\<close>

datatype native_fn = TS_HOST_REGISTRY_CALLBACK_ADAPTER | OTHER_NATIVE addr

datatype func_data =
    NativeFunc native_fn "addr option" u32
  | ScriptFunc "addr option" size_t

record exprtk_func =
  func_name :: "bytes option"
  func_access_level :: nat
  func_data :: func_data

text \<open>
  The chain of environments from the innermost to the outermost: each has its linked list of
  functions, the newest first.
\<close>

type_synonym func_chain = "exprtk_func list list"

record native_registration =
  nr_name :: "bytes option"
  nr_fn :: "native_fn option"
  nr_user_data :: "addr option"
  nr_flags :: u32

datatype registration_status =
    REGISTRATION_OK | REGISTRATION_INVALID_ARGUMENT | REGISTRATION_CONFLICT | REGISTRATION_OUT_OF_MEMORY

definition NATIVE_FLAG_MASK :: u32 where "NATIVE_FLAG_MASK = 1"

definition ACCESS_PUBLIC :: nat where "ACCESS_PUBLIC = 0"

section \<open>Operations\<close>

definition exprtk_env_has_func :: "func_chain \<Rightarrow> bytes \<Rightarrow> bool" where
  "exprtk_env_has_func env name = list_ex (list_ex (\<lambda>f. func_name f = Some name)) env"

text \<open>The first loop: the shape of each registration, and conflicts with the chain and the batch.\<close>

fun check_registrations ::
  "func_chain \<Rightarrow> native_registration list \<Rightarrow> native_registration list \<Rightarrow> registration_status" where
  "check_registrations env before [] = REGISTRATION_OK"
| "check_registrations env before (r # rs) =
     (if nr_name r = None \<or> nr_fn r = None \<or> nr_flags r AND NOT NATIVE_FLAG_MASK \<noteq> 0
      then REGISTRATION_INVALID_ARGUMENT
      else if exprtk_env_has_func env (the (nr_name r)) then REGISTRATION_CONFLICT
      else if list_ex (\<lambda>p. nr_name p = nr_name r) before then REGISTRATION_CONFLICT
      else check_registrations env (before @ [r]) rs)"

definition native_func :: "native_registration \<Rightarrow> exprtk_func" where
  "native_func r =
     \<lparr>func_name = nr_name r, func_access_level = ACCESS_PUBLIC,
      func_data = NativeFunc (the (nr_fn r)) (nr_user_data r) (nr_flags r)\<rparr>"

text \<open>
  The second loop: two allocations per registration, the entry and the copy of its name.
  \<open>malloc_ok i\<close> says whether the \<open>i\<close>th allocation succeeds, and \<open>should_fail\<close> is the fault seam of
  the tests.  A failure frees the pending chain, which is \<open>None\<close>.
\<close>

fun pend_registrations ::
  "(nat \<Rightarrow> bool) \<Rightarrow> (nat \<Rightarrow> bool) option \<Rightarrow> nat \<Rightarrow> exprtk_func list \<Rightarrow> native_registration list \<Rightarrow>
   exprtk_func list option" where
  "pend_registrations malloc_ok should_fail i pending [] = Some pending"
| "pend_registrations malloc_ok should_fail i pending (r # rs) =
     (if (case should_fail of Some f \<Rightarrow> f i | None \<Rightarrow> False) \<or> \<not> malloc_ok i then None
      else if (of_nat (length (the (nr_name r))) :: size_t) = SIZE_MAX \<or>
              (case should_fail of Some f \<Rightarrow> f (Suc i) | None \<Rightarrow> False) \<or> \<not> malloc_ok (Suc i)
      then None
      else pend_registrations malloc_ok should_fail (Suc (Suc i)) (native_func r # pending) rs)"

text \<open>The pending chain is spliced in front of the functions of the innermost environment.\<close>

definition exprtk_env_register_funcs_checked_with_fault ::
  "(nat \<Rightarrow> bool) \<Rightarrow> func_chain \<Rightarrow> native_registration list \<Rightarrow> (nat \<Rightarrow> bool) option \<Rightarrow>
   registration_status \<times> func_chain" where
  "exprtk_env_register_funcs_checked_with_fault malloc_ok env rs should_fail =
     (if env = [] then (REGISTRATION_INVALID_ARGUMENT, env)
      else
        let s = check_registrations env [] rs in
        if s \<noteq> REGISTRATION_OK then (s, env)
        else
          (case pend_registrations malloc_ok should_fail 0 [] rs of
             None \<Rightarrow> (REGISTRATION_OUT_OF_MEMORY, env)
           | Some pending \<Rightarrow> (REGISTRATION_OK, (pending @ hd env) # tl env)))"

definition exprtk_env_register_funcs_checked ::
  "(nat \<Rightarrow> bool) \<Rightarrow> func_chain \<Rightarrow> native_registration list \<Rightarrow> registration_status \<times> func_chain" where
  "exprtk_env_register_funcs_checked malloc_ok env rs =
     exprtk_env_register_funcs_checked_with_fault malloc_ok env rs None"

text \<open>The unchecked registration of one function; its allocations are assumed to succeed by the code.\<close>

definition exprtk_env_register_func ::
  "func_chain \<Rightarrow> bytes option \<Rightarrow> native_fn option \<Rightarrow> addr option \<Rightarrow> func_chain" where
  "exprtk_env_register_func env name fn user_data =
     (if env = [] \<or> name = None \<or> fn = None then env
      else (\<lparr>func_name = name, func_access_level = ACCESS_PUBLIC,
             func_data = NativeFunc (the fn) user_data 0\<rparr> # hd env) # tl env)"

section \<open>Batches are checked and applied as a whole\<close>

text \<open>What a batch must satisfy, independently of the order in which the code checks it.\<close>

definition valid_registration :: "native_registration \<Rightarrow> bool" where
  "valid_registration r \<longleftrightarrow>
     nr_name r \<noteq> None \<and> nr_fn r \<noteq> None \<and> nr_flags r AND NOT NATIVE_FLAG_MASK = 0"

definition names :: "exprtk_func list list \<Rightarrow> bytes set" where
  "names env = {n. exprtk_env_has_func env n}"

lemma check_registrations_ok:
  "check_registrations env before rs = REGISTRATION_OK \<longleftrightarrow>
     list_all valid_registration rs \<and> distinct (map nr_name rs) \<and>
     (\<forall>r \<in> set rs. \<not> exprtk_env_has_func env (the (nr_name r)) \<and> (\<forall>p \<in> set before. nr_name p \<noteq> nr_name r))"
  by (induction env before rs rule: check_registrations.induct)
    (auto simp: valid_registration_def list_ex_iff image_iff eq_commute [of "Some _" "nr_name _"])

definition allocations_ok :: "(nat \<Rightarrow> bool) \<Rightarrow> (nat \<Rightarrow> bool) option \<Rightarrow> nat \<Rightarrow> bool" where
  "allocations_ok malloc_ok should_fail i \<longleftrightarrow>
     malloc_ok i \<and> (case should_fail of Some f \<Rightarrow> \<not> f i | None \<Rightarrow> True)"

definition name_fits :: "native_registration \<Rightarrow> bool" where
  "name_fits r \<longleftrightarrow> (of_nat (length (the (nr_name r))) :: size_t) \<noteq> SIZE_MAX"

lemma all_less_Suc2: "(\<forall>i < Suc (Suc n). P i) \<longleftrightarrow> P 0 \<and> P (Suc 0) \<and> (\<forall>i < n. P (Suc (Suc i)))"
  by (auto simp: less_Suc_eq_0_disj)

lemma pend_registrations_result:
  "pend_registrations malloc_ok should_fail i pending rs =
     (if list_all name_fits rs \<and> (\<forall>k < 2 * length rs. allocations_ok malloc_ok should_fail (i + k))
      then Some (rev (map native_func rs) @ pending) else None)"
  by (induction malloc_ok should_fail i pending rs rule: pend_registrations.induct)
    (auto simp: name_fits_def allocations_ok_def all_less_Suc2 split: option.split)

lemma register_funcs_cases:
  assumes "env \<noteq> []"
    and "exprtk_env_register_funcs_checked_with_fault malloc_ok env rs should_fail = (s, env')"
  obtains (registered) "s = REGISTRATION_OK" "env' = (rev (map native_func rs) @ hd env) # tl env"
      "list_all valid_registration rs" "distinct (map nr_name rs)"
      "\<forall>r \<in> set rs. \<not> exprtk_env_has_func env (the (nr_name r))" "list_all name_fits rs"
      "\<forall>i < 2 * length rs. allocations_ok malloc_ok should_fail i"
    | (refused) "s \<noteq> REGISTRATION_OK" "env' = env"
        "\<not> (list_all valid_registration rs \<and> distinct (map nr_name rs) \<and>
           (\<forall>r \<in> set rs. \<not> exprtk_env_has_func env (the (nr_name r))) \<and> list_all name_fits rs \<and>
           (\<forall>i < 2 * length rs. allocations_ok malloc_ok should_fail i))"
  using assms check_registrations_ok [of env "[]" rs]
  by (cases "check_registrations env [] rs = REGISTRATION_OK")
    (auto simp: exprtk_env_register_funcs_checked_with_fault_def pend_registrations_result split: if_splits)

lemma has_func_hd: "env \<noteq> [] \<Longrightarrow> exprtk_env_has_func ((fs @ hd env) # tl env) n \<longleftrightarrow>
    (\<exists>f \<in> set fs. func_name f = Some n) \<or> exprtk_env_has_func env n"
  by (cases env) (auto simp: exprtk_env_has_func_def list_ex_iff)

lemma native_func_name [simp]: "func_name (native_func r) = nr_name r"
  by (simp add: native_func_def)

lemma find_pending_other:
  "n \<notin> nr_name ` set rs \<Longrightarrow>
   find (\<lambda>f. func_name f = n) (rev (map native_func rs) @ fs) = find (\<lambda>f. func_name f = n) fs"
  by (induction rs arbitrary: fs) auto

lemma find_pending:
  "distinct (map nr_name rs) \<Longrightarrow> r \<in> set rs \<Longrightarrow>
   find (\<lambda>f. func_name f = nr_name r) (rev (map native_func rs) @ fs) = Some (native_func r)"
proof (induction rs arbitrary: fs)
  case (Cons a rs)
  then show ?case by (cases "r = a") (auto simp: find_pending_other)
qed simp

text \<open>
  a batch of host functions is registered as a whole or not at all.  The checked registration
  succeeds exactly when every registration is well formed, no name occurs twice in the batch or is
  already visible in the chain of environments, and all the allocations succeed.  Then exactly the
  names of the batch have become visible, each bound to its own function.  Otherwise the chain is
  unchanged, whatever allocation failed.
\<close>

theorem register_funcs_all_or_nothing:
  assumes "env \<noteq> []"
    and "exprtk_env_register_funcs_checked_with_fault malloc_ok env rs should_fail = (s, env')"
  shows "(s = REGISTRATION_OK \<longleftrightarrow>
       list_all valid_registration rs \<and> distinct (map nr_name rs) \<and>
       (\<forall>r \<in> set rs. the (nr_name r) \<notin> names env) \<and> list_all name_fits rs \<and>
       (\<forall>i < 2 * length rs. allocations_ok malloc_ok should_fail i)) \<and>
     (if s = REGISTRATION_OK
      then names env' = names env \<union> (\<lambda>r. the (nr_name r)) ` set rs \<and>
        (\<forall>r \<in> set rs. find (\<lambda>f. func_name f = nr_name r) (concat env') = Some (native_func r))
      else env' = env)"
proof -
  have named: "nr_name r = Some (the (nr_name r))" if "list_all valid_registration rs" "r \<in> set rs" for r
    using that by (auto simp: list_all_iff valid_registration_def)
  from find_pending have found: "find (\<lambda>f. func_name f = nr_name r) (concat ((rev (map native_func rs) @ hd env) # tl env)) = Some (native_func r)"
    if "distinct (map nr_name rs)" "r \<in> set rs" for r using that by simp
  have vis: "names ((rev (map native_func rs) @ hd env) # tl env) = names env \<union> (\<lambda>r. the (nr_name r)) ` set rs"
    if "list_all valid_registration rs"
  proof -
    have "(\<exists>r \<in> set rs. nr_name r = Some n) \<longleftrightarrow> n \<in> (\<lambda>r. the (nr_name r)) ` set rs" for n
      using named [OF that] by (auto simp: image_iff) (metis option.sel)+
    then show ?thesis by (auto simp: names_def has_func_hd [OF assms(1)])
  qed
  from assms show ?thesis
    by (cases rule: register_funcs_cases) (use vis found in \<open>auto simp: names_def\<close>)
qed

theorem register_funcs_all_or_nothing_witness:
  "let r = \<lparr>nr_name = Some ''log'', nr_fn = Some (OTHER_NATIVE 8), nr_user_data = None, nr_flags = 0\<rparr>;
       env = [[\<lparr>func_name = Some ''main'', func_access_level = 0, func_data = ScriptFunc (Some 4) 0\<rparr>]] in
   (\<exists>env'. exprtk_env_register_funcs_checked_with_fault (\<lambda>i. True) env [r] None = (REGISTRATION_OK, env') \<and>
      names env' = names env \<union> {''log''}) \<and>
   exprtk_env_register_funcs_checked_with_fault (\<lambda>i. True) env [r, r] None = (REGISTRATION_CONFLICT, env) \<and>
   exprtk_env_register_funcs_checked_with_fault (\<lambda>i. i = 0) env [r] None = (REGISTRATION_OUT_OF_MEMORY, env)"
proof -
  let ?r = "\<lparr>nr_name = Some ''log'', nr_fn = Some (OTHER_NATIVE 8), nr_user_data = None, nr_flags = 0\<rparr>"
    and ?env = "[[\<lparr>func_name = Some ''main'', func_access_level = 0, func_data = ScriptFunc (Some 4) 0\<rparr>]]"
  let ?run = "\<lambda>ok rs. exprtk_env_register_funcs_checked_with_fault ok ?env rs None"
  have ok: "fst (?run (\<lambda>i. True) [?r]) = REGISTRATION_OK"
    by (simp add: exprtk_env_register_funcs_checked_with_fault_def exprtk_env_has_func_def)
  have bad: "fst (?run (\<lambda>i. True) [?r, ?r]) = REGISTRATION_CONFLICT" "fst (?run (\<lambda>i. i = 0) [?r]) = REGISTRATION_OUT_OF_MEMORY"
    by (simp_all add: exprtk_env_register_funcs_checked_with_fault_def exprtk_env_has_func_def)
  from register_funcs_all_or_nothing [of ?env "\<lambda>i. True" "[?r]" None REGISTRATION_OK "snd (?run (\<lambda>i. True) [?r])"]
    register_funcs_all_or_nothing [of ?env "\<lambda>i. True" "[?r, ?r]" None REGISTRATION_CONFLICT "snd (?run (\<lambda>i. True) [?r, ?r])"]
    register_funcs_all_or_nothing [of ?env "\<lambda>i. i = 0" "[?r]" None REGISTRATION_OUT_OF_MEMORY "snd (?run (\<lambda>i. i = 0) [?r])"]
    ok bad show ?thesis by (auto simp: Let_def prod_eq_iff)
qed

end
