(* ===== verification/Host_Registry.thy ===== *)
theory Host_Registry
  imports Host_Result Native_Registration
begin

text \<open>
  The registry of host functions of a context (the control plane of
  \<^verbatim>\<open>turbo_script/src/host/turbo_script_host_registry.c\<close>): registering and unregistering,
  looking up a slot, counting the active modules, which freezes the table, and binding all the
  functions to a runtime environment.  The lemmas show the invariant of the table, that a registered
  function is found, and that the slots do not move while a module is active.
\<close>

section \<open>Operations\<close>

definition TS_HOST_REGISTRY_CAPACITY :: nat where "TS_HOST_REGISTRY_CAPACITY = 256"

definition ts_host_registry_vec_status :: "stl_status \<Rightarrow> status" where
  "ts_host_registry_vec_status s =
     (if s = STL_OK then STATUS_OK
      else if s = STL_OUT_OF_MEMORY then STATUS_OUT_OF_MEMORY
      else if s = STL_CAPACITY_EXCEEDED then STATUS_LIMIT_EXCEEDED
      else STATUS_INVALID_STATE)"

text \<open>\<^verbatim>\<open>turbo_script_host_function_descriptor_s\<close>; its size is 64 bytes on LP64.\<close>

record host_function_descriptor =
  hd_struct_size :: u32
  hd_min_arity :: u32
  hd_max_arity :: u32
  hd_reserved0 :: u32
  hd_name :: sview
  hd_reserved :: "u64 list"

definition ts_host_registry_validate_name :: "(bytes \<Rightarrow> bool) \<Rightarrow> sview \<Rightarrow> status" where
  "ts_host_registry_validate_name utf8 name =
     (if buf_broken name then STATUS_INVALID_ARGUMENT
      else if buf_size name = 0 then STATUS_VALIDATION_ERROR
      else if buf_size name > TS_HOST_MAX_STRING_BYTES then STATUS_LIMIT_EXCEEDED
      else if CHR 0x00 \<in> set (buf_elems name) then STATUS_VALIDATION_ERROR
      else if \<not> utf8 (buf_elems name) then STATUS_INVALID_UTF8
      else STATUS_OK)"

definition ts_host_registry_name_equal :: "function_entry \<Rightarrow> sview \<Rightarrow> bool" where
  "ts_host_registry_name_equal entry name \<longleftrightarrow>
     (of_nat (length (fe_name entry)) :: size_t) = buf_size name \<and>
     take (unat (buf_size name)) (fe_name entry) = take (unat (buf_size name)) (buf_elems name)"

text \<open>
  \<^verbatim>\<open>ts_host_check_owner_thread\<close> is \<^verbatim>\<open>ts_host_context_check_thread\<close> under another name.
\<close>

definition ts_host_check_owner_thread :: "ctx_store \<Rightarrow> nat \<Rightarrow> addr option \<Rightarrow> status" where
  "ts_host_check_owner_thread C thread ctx = ts_host_context_check_thread C thread ctx"

definition ts_host_registry_begin_api ::
  "'p arena \<Rightarrow> ctx_store \<Rightarrow> nat \<Rightarrow> addr option \<Rightarrow> 'p result option \<Rightarrow> status \<times> 'p result option" where
  "ts_host_registry_begin_api A C thread ctx r =
     (let s = ts_host_check_owner_thread C thread ctx in
      if s \<noteq> STATUS_OK then (s, r)
      else
        let s = ts_host_result_check_context C thread r ctx in
        if s \<noteq> STATUS_OK then (s, r) else ts_host_result_reset_checked A C thread r)"

text \<open>An error report as the designated initialisers of the host layer build it.\<close>

definition error_report ::
  "status \<Rightarrow> int \<Rightarrow> phase \<Rightarrow> u32 \<Rightarrow> u32 \<Rightarrow> u32 \<Rightarrow> sview \<Rightarrow> sview \<Rightarrow> bytes \<Rightarrow> error_info" where
  "error_report status code phase line column len module function message =
     no_error\<lparr>ei_struct_size := 112, ei_status := status, ei_error_code := code, ei_phase := phase,
              ei_line := line, ei_column := column, ei_length := len, ei_module_name := module,
              ei_function_name := function, ei_message := Buf message\<rparr>"

definition ts_host_registry_fail ::
  "('x, 'b) salts \<Rightarrow> 'p arena \<Rightarrow> ctx_store \<Rightarrow> nat \<Rightarrow> 'p result option \<Rightarrow> status \<Rightarrow> bytes \<Rightarrow>
   status \<times> 'p result option" where
  "ts_host_registry_fail E A C thread r status message =
     (status,
      snd (ts_host_result_set_error E A C thread r
             (Some (error_report status 0 PHASE_NONE 0 0 0 (NullBuf 0) (NullBuf 0) message))
             TS_HOST_MAX_STRING_BYTES))"

definition ts_host_registry_validate_descriptor ::
  "(bytes \<Rightarrow> bool) \<Rightarrow> host_function_descriptor option \<Rightarrow> addr option \<Rightarrow> status" where
  "ts_host_registry_validate_descriptor utf8 descriptor callback =
     (case descriptor of
        None \<Rightarrow> STATUS_INVALID_ARGUMENT
      | Some d \<Rightarrow>
          if hd_struct_size d \<noteq> 64 \<or> callback = None \<or> hd_min_arity d > hd_max_arity d \<or>
             hd_reserved0 d \<noteq> 0
          then STATUS_INVALID_ARGUMENT
          else if \<not> list_all (\<lambda>x. x = 0) (hd_reserved d) then STATUS_INVALID_ARGUMENT
          else ts_host_registry_validate_name utf8 (hd_name d))"

text \<open>
  Initialising and destroying the registry; \<open>init\<close> is what \<^verbatim>\<open>vec_init_bytes\<close> answers.
\<close>

definition ts_host_registry_init ::
  "ctx_store \<Rightarrow> stl_status \<Rightarrow> addr option \<Rightarrow> status \<times> ctx_store" where
  "ts_host_registry_init C init ctx =
     (case ctx of
        None \<Rightarrow> (STATUS_INVALID_ARGUMENT, C)
      | Some c \<Rightarrow>
          if init \<noteq> STL_OK then (ts_host_registry_vec_status init, C)
          else (STATUS_OK,
                C(c := (C c)\<lparr>host_functions := [], active_host_modules := 0, host_callback_depth := 0,
                             active_host_instance := None, next_instance_generation := 1\<rparr>)))"

definition ts_host_registry_destroy :: "ctx_store \<Rightarrow> addr option \<Rightarrow> ctx_store" where
  "ts_host_registry_destroy C ctx =
     (case ctx of
        None \<Rightarrow> C
      | Some c \<Rightarrow>
          C(c := (C c)\<lparr>host_functions := [], active_host_modules := 0, host_callback_depth := 0,
                       active_host_instance := None\<rparr>))"

definition ts_host_registry_acquire_module ::
  "ctx_store \<Rightarrow> nat \<Rightarrow> addr option \<Rightarrow> status \<times> ctx_store" where
  "ts_host_registry_acquire_module C thread ctx =
     (let s = ts_host_check_owner_thread C thread ctx in
      if s \<noteq> STATUS_OK then (s, C)
      else
        let c = the ctx in
        if active_host_modules (C c) = SIZE_MAX then (STATUS_LIMIT_EXCEEDED, C)
        else (STATUS_OK, C(c := (C c)\<lparr>active_host_modules := active_host_modules (C c) + 1\<rparr>)))"

definition ts_host_registry_release_module ::
  "ctx_store \<Rightarrow> nat \<Rightarrow> addr option \<Rightarrow> status \<times> ctx_store" where
  "ts_host_registry_release_module C thread ctx =
     (let s = ts_host_check_owner_thread C thread ctx in
      if s \<noteq> STATUS_OK then (s, C)
      else
        let c = the ctx in
        if active_host_modules (C c) = 0 then (STATUS_INVALID_STATE, C)
        else (STATUS_OK, C(c := (C c)\<lparr>active_host_modules := active_host_modules (C c) - 1\<rparr>)))"

text \<open>The search loop: the index of the first entry with the name.\<close>

fun find_name :: "function_entry list \<Rightarrow> sview \<Rightarrow> nat option" where
  "find_name [] name = None"
| "find_name (e # es) name =
     (if ts_host_registry_name_equal e name then Some 0 else map_option Suc (find_name es name))"

definition ts_host_registry_find_slot ::
  "(bytes \<Rightarrow> bool) \<Rightarrow> ctx_store \<Rightarrow> nat \<Rightarrow> addr option \<Rightarrow> sview \<Rightarrow> bool \<Rightarrow> status \<times> size_t option" where
  "ts_host_registry_find_slot utf8 C thread ctx name has_out =
     (let s = ts_host_check_owner_thread C thread ctx in
      if s \<noteq> STATUS_OK then (s, None)
      else if \<not> has_out then (STATUS_INVALID_ARGUMENT, None)
      else
        let s = ts_host_registry_validate_name utf8 name in
        if s \<noteq> STATUS_OK then (s, Some SIZE_MAX)
        else
          (case find_name (host_functions (C (the ctx))) name of
             Some i \<Rightarrow> (STATUS_OK, Some (of_nat i))
           | None \<Rightarrow> (STATUS_NOT_FOUND, Some SIZE_MAX)))"

definition ts_host_registry_get_slot ::
  "ctx_store \<Rightarrow> nat \<Rightarrow> addr option \<Rightarrow> size_t \<Rightarrow> bool \<Rightarrow> status \<times> function_entry option" where
  "ts_host_registry_get_slot C thread ctx slot has_out =
     (let s = ts_host_check_owner_thread C thread ctx in
      if s \<noteq> STATUS_OK then (s, None)
      else if \<not> has_out then (STATUS_INVALID_ARGUMENT, None)
      else
        let es = host_functions (C (the ctx)) in
        if slot \<ge> of_nat (length es) then (STATUS_NOT_FOUND, None)
        else (STATUS_OK, Some (es ! unat slot)))"

text \<open>
  Registering a function.  \<open>dup\<close> says whether \<^verbatim>\<open>tstr_dup_len\<close> can copy the name and \<open>push\<close> is
  what \<^verbatim>\<open>vec_push\<close> answers; on anything but \<open>STL_OK\<close> the table stays as it is.
\<close>

definition turbo_script_context_register_host_function ::
  "('x, 'b) salts \<Rightarrow> 'p arena \<Rightarrow> ctx_store \<Rightarrow> nat \<Rightarrow> bool \<Rightarrow> stl_status \<Rightarrow> addr option \<Rightarrow>
   host_function_descriptor option \<Rightarrow> addr option \<Rightarrow> addr \<Rightarrow> 'p result option \<Rightarrow>
   status \<times> ctx_store \<times> 'p result option" where
  "turbo_script_context_register_host_function E A C thread dup push ctx descriptor callback user_data r =
     (case ts_host_registry_begin_api A C thread ctx r of
        (s, r) \<Rightarrow>
          if s \<noteq> STATUS_OK then (s, C, r)
          else
            let c = the ctx;
                failed = (\<lambda>s msg. case ts_host_registry_fail E A C thread r s msg of (s, r) \<Rightarrow> (s, C, r))
            in
            if active_host_modules (C c) \<noteq> 0
            then failed STATUS_INVALID_STATE ''host registry is frozen while modules are active''
            else
              let s = ts_host_registry_validate_descriptor (utf8_valid E) descriptor callback in
              if s \<noteq> STATUS_OK then failed s ''invalid host function descriptor''
              else
                let d = the descriptor;
                    s = fst (ts_host_registry_find_slot (utf8_valid E) C thread ctx (hd_name d) True)
                in
                if s = STATUS_OK
                then failed STATUS_INVALID_STATE ''host function name is already registered''
                else if s \<noteq> STATUS_NOT_FOUND then failed s ''failed to search host registry''
                else if length (host_functions (C c)) \<ge> TS_HOST_REGISTRY_CAPACITY
                then failed STATUS_LIMIT_EXCEEDED ''host registry capacity exceeded''
                else if \<not> dup then failed STATUS_OUT_OF_MEMORY ''failed to copy host function name''
                else
                  let s = ts_host_registry_vec_status push in
                  if s \<noteq> STATUS_OK then failed s ''failed to append host registry slot''
                  else
                    (STATUS_OK,
                     C(c := (C c)\<lparr>host_functions := host_functions (C c) @
                         [\<lparr>fe_ctx = c, fe_name = buf_elems (hd_name d), fe_min_arity = hd_min_arity d,
                           fe_max_arity = hd_max_arity d, fe_callback = the callback,
                           fe_user_data = user_data\<rparr>]\<rparr>),
                     r))"

text \<open>Unregistering; \<open>erase\<close> is what \<^verbatim>\<open>vec_erase\<close> answers.\<close>

definition remove_nth :: "nat \<Rightarrow> 'a list \<Rightarrow> 'a list" where
  "remove_nth i xs = take i xs @ drop (Suc i) xs"

definition turbo_script_context_unregister_host_function ::
  "('x, 'b) salts \<Rightarrow> 'p arena \<Rightarrow> ctx_store \<Rightarrow> nat \<Rightarrow> stl_status \<Rightarrow> addr option \<Rightarrow> sview \<Rightarrow>
   'p result option \<Rightarrow> status \<times> ctx_store \<times> 'p result option" where
  "turbo_script_context_unregister_host_function E A C thread erase ctx name r =
     (case ts_host_registry_begin_api A C thread ctx r of
        (s, r) \<Rightarrow>
          if s \<noteq> STATUS_OK then (s, C, r)
          else
            let c = the ctx;
                failed = (\<lambda>s msg. case ts_host_registry_fail E A C thread r s msg of (s, r) \<Rightarrow> (s, C, r))
            in
            if active_host_modules (C c) \<noteq> 0
            then failed STATUS_INVALID_STATE ''host registry is frozen while modules are active''
            else
              let s = ts_host_registry_validate_name (utf8_valid E) name in
              if s \<noteq> STATUS_OK then failed s ''invalid host function name''
              else
                (case ts_host_registry_find_slot (utf8_valid E) C thread ctx name True of
                   (s, slot) \<Rightarrow>
                     if s \<noteq> STATUS_OK then failed s ''host function is not registered''
                     else
                       let s = ts_host_registry_vec_status erase in
                       if s \<noteq> STATUS_OK then failed s ''failed to remove host registry slot''
                       else
                         (STATUS_OK,
                          C(c := (C c)\<lparr>host_functions :=
                                        remove_nth (unat (the slot)) (host_functions (C c))\<rparr>),
                          r)))"

section \<open>Binding the functions to a runtime\<close>

text \<open>
  The user data of a bound function is the pointer to its entry, which is its slot in the frozen
  table.
\<close>

definition registration_of :: "nat \<times> function_entry \<Rightarrow> native_registration" where
  "registration_of ie =
     \<lparr>nr_name = Some (fe_name (snd ie)), nr_fn = Some TS_HOST_REGISTRY_CALLBACK_ADAPTER,
      nr_user_data = Some (fst ie), nr_flags = 0\<rparr>"

definition ts_host_registry_bind_runtime_impl ::
  "(nat \<Rightarrow> bool) \<Rightarrow> ctx_store \<Rightarrow> nat \<Rightarrow> addr option \<Rightarrow> func_chain option \<Rightarrow> (nat \<Rightarrow> bool) option \<Rightarrow>
   status \<times> func_chain option" where
  "ts_host_registry_bind_runtime_impl malloc_ok C thread ctx env should_fail =
     (let s = ts_host_check_owner_thread C thread ctx in
      if s \<noteq> STATUS_OK then (s, env)
      else
        (case env of
           None \<Rightarrow> (STATUS_INVALID_ARGUMENT, None)
         | Some chain \<Rightarrow>
             let es = host_functions (C (the ctx)) in
             if active_host_modules (C (the ctx)) = 0 then (STATUS_INVALID_STATE, env)
             else if list_ex (\<lambda>e. exprtk_env_has_func chain (fe_name e)) es
             then (STATUS_INVALID_STATE, env)
             else
               (case exprtk_env_register_funcs_checked_with_fault malloc_ok chain
                       (map registration_of (enumerate 0 es)) should_fail of
                  (rs, chain') \<Rightarrow>
                    (if rs = REGISTRATION_OK then STATUS_OK
                     else if rs = REGISTRATION_OUT_OF_MEMORY then STATUS_OUT_OF_MEMORY
                     else if rs = REGISTRATION_CONFLICT then STATUS_INVALID_STATE
                     else STATUS_INVALID_ARGUMENT,
                     Some chain'))))"

definition ts_host_registry_bind_runtime ::
  "(nat \<Rightarrow> bool) \<Rightarrow> ctx_store \<Rightarrow> nat \<Rightarrow> addr option \<Rightarrow> func_chain option \<Rightarrow> status \<times> func_chain option"
  where
  "ts_host_registry_bind_runtime malloc_ok C thread ctx env =
     ts_host_registry_bind_runtime_impl malloc_ok C thread ctx env None"

definition ts_host_registration_should_fail :: "nat \<Rightarrow> nat \<Rightarrow> bool" where
  "ts_host_registration_should_fail fault_index allocation_index \<longleftrightarrow> allocation_index = fault_index"

definition ts_host_registry_bind_runtime_test_fault ::
  "(nat \<Rightarrow> bool) \<Rightarrow> ctx_store \<Rightarrow> nat \<Rightarrow> addr option \<Rightarrow> func_chain option \<Rightarrow> nat \<Rightarrow>
   status \<times> func_chain option" where
  "ts_host_registry_bind_runtime_test_fault malloc_ok C thread ctx env allocation_index =
     ts_host_registry_bind_runtime_impl malloc_ok C thread ctx env
       (Some (ts_host_registration_should_fail allocation_index))"

section \<open>The table\<close>

text \<open>What holds of every entry of the registry of context \<open>c\<close>, and of the table as a whole.\<close>

definition name_ok :: "(bytes \<Rightarrow> bool) \<Rightarrow> bytes \<Rightarrow> bool" where
  "name_ok utf8 n \<longleftrightarrow>
     n \<noteq> [] \<and> length n \<le> unat TS_HOST_MAX_STRING_BYTES \<and> CHR 0x00 \<notin> set n \<and> utf8 n"

definition registry_ok :: "(bytes \<Rightarrow> bool) \<Rightarrow> addr \<Rightarrow> host_ctx \<Rightarrow> bool" where
  "registry_ok utf8 c x \<longleftrightarrow>
     length (host_functions x) \<le> TS_HOST_REGISTRY_CAPACITY \<and> distinct (map fe_name (host_functions x)) \<and>
     (\<forall>e \<in> set (host_functions x).
        fe_ctx e = c \<and> name_ok utf8 (fe_name e) \<and> fe_min_arity e \<le> fe_max_arity e)"

lemma unat_max_string [simp]: "unat TS_HOST_MAX_STRING_BYTES = 4194304"
  by (simp add: TS_HOST_MAX_STRING_BYTES_def)

lemma validate_name_ok:
  assumes "buf_fits name"
  shows "ts_host_registry_validate_name utf8 name = STATUS_OK \<longleftrightarrow> (\<exists>n. name = Buf n \<and> name_ok utf8 n)"
proof (cases name)
  case (Buf n)
  then have "length n < 2 ^ 64" using assms by (simp add: buf_fits_def)
  then have "unat (of_nat (length n) :: size_t) = length n" by (simp add: unat_of_nat)
  then show ?thesis
    using Buf by (auto simp: ts_host_registry_validate_name_def name_ok_def word_less_nat_alt unat_eq_0 [symmetric])
qed (auto simp: ts_host_registry_validate_name_def)

lemma name_equal_iff:
  assumes "length (fe_name e) < 2 ^ 64" and "length n < 2 ^ 64"
  shows "ts_host_registry_name_equal e (Buf n) \<longleftrightarrow> fe_name e = n"
proof -
  have "(of_nat (length (fe_name e)) :: size_t) = of_nat (length n) \<longleftrightarrow> length (fe_name e) = length n"
    using assms by (simp add: word_unat_eq_iff unat_of_nat)
  moreover have "unat (of_nat (length n) :: size_t) = length n" using assms by (simp add: unat_of_nat)
  ultimately show ?thesis by (auto simp: ts_host_registry_name_equal_def)
qed

lemma name_ok_fits: "name_ok utf8 n \<Longrightarrow> length n < 2 ^ 64"
  by (simp add: name_ok_def)

lemma find_name_Some:
  "find_name es v = Some i \<Longrightarrow> i < length es \<and> ts_host_registry_name_equal (es ! i) v"
  by (induction es arbitrary: i) (auto split: if_splits)

lemma find_name_None: "find_name es v = None \<longleftrightarrow> (\<forall>e \<in> set es. \<not> ts_host_registry_name_equal e v)"
  by (induction es) auto

text \<open>In a well-formed table the search finds the one entry with the name.\<close>

lemma find_name_ok:
  assumes "registry_ok utf8 c x" and n: "length n < 2 ^ 64"
  shows "find_name (host_functions x) (Buf n) = Some i \<longleftrightarrow>
    i < length (host_functions x) \<and> fe_name (host_functions x ! i) = n"
proof -
  let ?es = "host_functions x"
  have eq: "ts_host_registry_name_equal e (Buf n) \<longleftrightarrow> fe_name e = n" if "e \<in> set ?es" for e
    using assms that name_ok_fits by (intro name_equal_iff) (auto simp: registry_ok_def)
  have d: "distinct (map fe_name ?es)" using assms(1) by (simp add: registry_ok_def)
  show ?thesis
  proof
    assume "find_name ?es (Buf n) = Some i"
    with find_name_Some eq show "i < length ?es \<and> fe_name (?es ! i) = n" by fastforce
  next
    assume i: "i < length ?es \<and> fe_name (?es ! i) = n"
    then obtain j where j: "find_name ?es (Buf n) = Some j"
      using find_name_None [of ?es "Buf n"] eq by (metis nth_mem option.exhaust)
    with find_name_Some [OF j] eq have "j < length ?es \<and> fe_name (?es ! j) = n" by fastforce
    with i d have "j = i" by (auto simp: distinct_conv_nth)
    with j show "find_name ?es (Buf n) = Some i" by simp
  qed
qed

lemma begin_api_ok:
  "ts_host_registry_begin_api A C thread ctx r = (STATUS_OK, r') \<Longrightarrow>
   \<exists>c x. ctx = Some c \<and> r = Some x \<and> owner_thread_token (C c) = thread \<and> res_ctx x = c \<and>
     r' = Some (ts_host_result_clear_unchecked A x)"
  by (auto simp: ts_host_registry_begin_api_def ts_host_check_owner_thread_def check_thread_ok Let_def
      ts_host_result_check_context_def ts_host_result_reset_checked_def result_check_ok split: if_splits)

lemma vec_status_ok [simp]: "ts_host_registry_vec_status s = STATUS_OK \<longleftrightarrow> s = STL_OK"
  by (cases s) (simp_all add: ts_host_registry_vec_status_def)

lemma validate_descriptor_ok:
  "ts_host_registry_validate_descriptor utf8 d cb = STATUS_OK \<Longrightarrow>
   \<exists>x. d = Some x \<and> cb \<noteq> None \<and> hd_min_arity x \<le> hd_max_arity x \<and>
     ts_host_registry_validate_name utf8 (hd_name x) = STATUS_OK"
  by (auto simp: ts_host_registry_validate_descriptor_def not_less split: option.splits if_splits)

text \<open>The two outcomes of registering a function.\<close>

lemma register_cases:
  assumes "turbo_script_context_register_host_function E A C thread dup push ctx d cb u r = (s, C', r')"
  obtains (registered) c x where "s = STATUS_OK" "ctx = Some c" "d = Some x" "cb \<noteq> None"
      "active_host_modules (C c) = 0" "owner_thread_token (C c) = thread"
      "hd_min_arity x \<le> hd_max_arity x" "ts_host_registry_validate_name (utf8_valid E) (hd_name x) = STATUS_OK"
      "find_name (host_functions (C c)) (hd_name x) = None"
      "length (host_functions (C c)) < TS_HOST_REGISTRY_CAPACITY"
      "C' = C(c := (C c)\<lparr>host_functions := host_functions (C c) @
         [\<lparr>fe_ctx = c, fe_name = buf_elems (hd_name x), fe_min_arity = hd_min_arity x,
           fe_max_arity = hd_max_arity x, fe_callback = the cb, fe_user_data = u\<rparr>]\<rparr>)"
    | (refused) "s \<noteq> STATUS_OK" "C' = C"
proof -
  obtain s1 r1 where b: "ts_host_registry_begin_api A C thread ctx r = (s1, r1)" by fastforce
  show ?thesis
  proof (cases "s1 = STATUS_OK")
    case True
    from begin_api_ok [OF b [unfolded True]] obtain c where c: "ctx = Some c" "owner_thread_token (C c) = thread" by blast
    have own: "ts_host_check_owner_thread C thread (Some c) = STATUS_OK"
      using c by (simp add: ts_host_check_owner_thread_def check_thread_ok)
    let ?v = "ts_host_registry_validate_descriptor (utf8_valid E) d cb"
    show ?thesis
    proof (cases "active_host_modules (C c) = 0 \<and> ?v = STATUS_OK")
      case ok: True
      from validate_descriptor_ok [of "utf8_valid E" d cb] ok obtain x where
        x: "d = Some x" "cb \<noteq> None" "hd_min_arity x \<le> hd_max_arity x"
          "ts_host_registry_validate_name (utf8_valid E) (hd_name x) = STATUS_OK" by auto
      have find: "fst (ts_host_registry_find_slot (utf8_valid E) C thread ctx (hd_name x) True) =
          (if find_name (host_functions (C c)) (hd_name x) = None then STATUS_NOT_FOUND else STATUS_OK)"
        using own x(4) c by (auto simp: ts_host_registry_find_slot_def split: option.split)
      note run = assms [unfolded turbo_script_context_register_host_function_def b True Let_def]
      show ?thesis
      proof (cases "find_name (host_functions (C c)) (hd_name x) = None \<and>
          length (host_functions (C c)) < TS_HOST_REGISTRY_CAPACITY \<and> dup \<and> push = STL_OK")
        case new: True
        have "s = STATUS_OK \<and> C' = C(c := (C c)\<lparr>host_functions := host_functions (C c) @
           [\<lparr>fe_ctx = c, fe_name = buf_elems (hd_name x), fe_min_arity = hd_min_arity x,
             fe_max_arity = hd_max_arity x, fe_callback = the cb, fe_user_data = u\<rparr>]\<rparr>)"
          using run ok new find c x by (auto split: if_splits)
        with ok new c x show ?thesis by (intro registered [of c x]) auto
      next
        case False
        from run ok find c x False have "s \<noteq> STATUS_OK \<and> C' = C"
          by (auto simp: ts_host_registry_fail_def split: if_splits)
        with refused show ?thesis by blast
      qed
    next
      case False
      with assms b True c have "s \<noteq> STATUS_OK \<and> C' = C"
        by (auto simp: turbo_script_context_register_host_function_def Let_def ts_host_registry_fail_def
            split: if_splits)
      with refused show ?thesis by blast
    qed
  next
    case False
    with assms b refused show ?thesis by (auto simp: turbo_script_context_register_host_function_def)
  qed
qed

lemma unregister_cases:
  assumes "turbo_script_context_unregister_host_function E A C thread erase ctx name r = (s, C', r')"
  obtains (removed) c i where "s = STATUS_OK" "ctx = Some c" "active_host_modules (C c) = 0"
      "owner_thread_token (C c) = thread"
      "ts_host_registry_validate_name (utf8_valid E) name = STATUS_OK"
      "find_name (host_functions (C c)) name = Some i"
      "C' = C(c := (C c)\<lparr>host_functions :=
         remove_nth (unat (of_nat i :: size_t)) (host_functions (C c))\<rparr>)"
    | (refused) "s \<noteq> STATUS_OK" "C' = C"
proof -
  obtain s1 r1 where b: "ts_host_registry_begin_api A C thread ctx r = (s1, r1)" by fastforce
  show ?thesis
  proof (cases "s1 = STATUS_OK")
    case True
    from begin_api_ok [OF b [unfolded True]] obtain c where c: "ctx = Some c" "owner_thread_token (C c) = thread" by blast
    have own: "ts_host_check_owner_thread C thread (Some c) = STATUS_OK"
      using c by (simp add: ts_host_check_owner_thread_def check_thread_ok)
    from assms b True c own removed [of c] refused show ?thesis
      by (auto simp: turbo_script_context_unregister_host_function_def ts_host_registry_find_slot_def Let_def
          ts_host_registry_fail_def split: if_splits option.splits)
  next
    case False
    with assms b refused show ?thesis by (auto simp: turbo_script_context_unregister_host_function_def)
  qed
qed

section \<open>Runs of registry operations\<close>

text \<open>
  The operations on the registry of a context, by any thread and with any result object, and the
  outcomes of the allocations they make.
\<close>

datatype 'p registry_op =
    Register bool stl_status "host_function_descriptor option" "addr option" addr "'p result option"
  | Unregister stl_status sview "'p result option"
  | Acquire
  | Release

text \<open>Names have lengths that C can represent.\<close>

fun op_fits :: "'p registry_op \<Rightarrow> bool" where
  "op_fits (Register dup push d cb u r) = (case d of Some x \<Rightarrow> buf_fits (hd_name x) | None \<Rightarrow> True)"
| "op_fits (Unregister erase name r) = buf_fits name"
| "op_fits _ = True"

fun registry_step ::
  "('x, 'b) salts \<Rightarrow> 'p arena \<Rightarrow> addr \<Rightarrow> ctx_store \<Rightarrow> nat \<times> 'p registry_op \<Rightarrow> ctx_store" where
  "registry_step E A c C (thread, Register dup push d cb u r) =
     fst (snd (turbo_script_context_register_host_function E A C thread dup push (Some c) d cb u r))"
| "registry_step E A c C (thread, Unregister erase name r) =
     fst (snd (turbo_script_context_unregister_host_function E A C thread erase (Some c) name r))"
| "registry_step E A c C (thread, Acquire) = snd (ts_host_registry_acquire_module C thread (Some c))"
| "registry_step E A c C (thread, Release) = snd (ts_host_registry_release_module C thread (Some c))"

lemma module_count_table:
  "host_functions (snd (ts_host_registry_acquire_module C thread (Some c)) c') = host_functions (C c')"
  "host_functions (snd (ts_host_registry_release_module C thread (Some c)) c') = host_functions (C c')"
  by (auto simp: ts_host_registry_acquire_module_def ts_host_registry_release_module_def Let_def)

text \<open>What one operation does to the table: nothing, or one entry comes or goes while no module is active.\<close>

lemma registry_step_cases:
  obtains (same) "host_functions (registry_step E A c C (thread, op) c) = host_functions (C c)"
    | (added) e where "active_host_modules (C c) = 0"
        "host_functions (registry_step E A c C (thread, op) c) = host_functions (C c) @ [e]"
        "length (host_functions (C c)) < TS_HOST_REGISTRY_CAPACITY"
        "op_fits op \<Longrightarrow> fe_ctx e = c \<and> name_ok (utf8_valid E) (fe_name e) \<and> fe_min_arity e \<le> fe_max_arity e \<and>
           find_name (host_functions (C c)) (Buf (fe_name e)) = None"
    | (removed) i where "active_host_modules (C c) = 0" "i < length (host_functions (C c))"
        "host_functions (registry_step E A c C (thread, op) c) =
           remove_nth (unat (of_nat i :: size_t)) (host_functions (C c))"
proof (cases op)
  case (Register dup push d cb u r)
  obtain s C' r' where run: "turbo_script_context_register_host_function E A C thread dup push (Some c) d cb u r = (s, C', r')"
    by (metis prod_cases3)
  then show ?thesis
  proof (cases rule: register_cases)
    case (registered c' x)
    define e where "e = \<lparr>fe_ctx = c, fe_name = buf_elems (hd_name x), fe_min_arity = hd_min_arity x,
      fe_max_arity = hd_max_arity x, fe_callback = the cb, fe_user_data = u\<rparr>"
    have t: "host_functions (registry_step E A c C (thread, op) c) = host_functions (C c) @ [e]"
      using registered run by (simp add: Register e_def)
    have "fe_ctx e = c \<and> name_ok (utf8_valid E) (fe_name e) \<and> fe_min_arity e \<le> fe_max_arity e \<and>
        find_name (host_functions (C c)) (Buf (fe_name e)) = None" if "op_fits op"
      using that registered validate_name_ok [of "hd_name x" "utf8_valid E"] by (auto simp: Register e_def)
    with t registered show ?thesis by (intro added [of e]) auto
  next
    case refused
    then show ?thesis using run by (intro same) (simp add: Register)
  qed
next
  case (Unregister erase name r)
  obtain s C' r' where run: "turbo_script_context_unregister_host_function E A C thread erase (Some c) name r = (s, C', r')"
    by (metis prod_cases3)
  then show ?thesis
  proof (cases rule: unregister_cases)
    case (removed c' i)
    then show ?thesis using run find_name_Some by (intro that(3) [of i]) (auto simp: Unregister)
  next
    case refused
    then show ?thesis using run by (intro same) (simp add: Unregister)
  qed
qed (use same in \<open>simp_all add: module_count_table\<close>)

interpretation registry_table: freezable
  "registry_step E A c" "\<lambda>C. active_host_modules (C c) \<noteq> 0" "\<lambda>C. host_functions (C c)" for E A c
proof
  fix C :: ctx_store and op :: "nat \<times> 'c registry_op"
  assume frozen: "active_host_modules (C c) \<noteq> 0"
  obtain thread o1 where op: "op = (thread, o1)" by fastforce
  show "host_functions (registry_step E A c C op c) = host_functions (C c)"
    unfolding op by (rule registry_step_cases [where E = E and A = A and c = c and C = C and thread = thread and op = o1])
      (use frozen in auto)
qed

text \<open>
  C9: the registry is frozen while modules are active.  In any run of registrations,
  unregistrations, acquisitions and releases by any threads, as long as the count of active modules
  is not zero before each operation, the table at the end is the table at the start, so that the
  entries which bound runtimes point to have not moved or changed.
\<close>

theorem registry_frozen_while_modules_active:
  assumes "\<forall>n < length ops. active_host_modules (foldl (registry_step E A c) C (take n ops) c) \<noteq> 0"
  shows "host_functions (foldl (registry_step E A c) C ops c) = host_functions (C c)"
  by (rule registry_table.run_frozen [OF assms])

definition example_descriptor :: "bytes \<Rightarrow> host_function_descriptor" where
  "example_descriptor n =
     \<lparr>hd_struct_size = 64, hd_min_arity = 1, hd_max_arity = 2, hd_reserved0 = 0, hd_name = Buf n,
      hd_reserved = [0, 0, 0, 0]\<rparr>"

definition example_ops :: "(nat \<times> addr registry_op) list" where
  "example_ops =
     [(7, Register True STL_OK (Some (example_descriptor ''log'')) (Some 3) 4 (Some example_result)),
      (7, Release)]"

theorem registry_frozen_while_modules_active_witness:
  "host_functions (foldl (registry_step list_salts bump_arena 1)
     (\<lambda>a. example_ctx\<lparr>active_host_modules := 2\<rparr>) example_ops 1) = host_functions example_ctx"
proof -
  let ?C = "\<lambda>a :: addr. example_ctx\<lparr>active_host_modules := 2\<rparr>"
  have "active_host_modules (registry_step list_salts bump_arena 1 ?C
      (7, Register True STL_OK (Some (example_descriptor ''log'')) (Some 3) 4 (Some example_result)) 1) \<noteq> 0"
    by (simp add: turbo_script_context_register_host_function_def ts_host_registry_begin_api_def
        ts_host_check_owner_thread_def check_thread_ok example_ctx_def ts_host_result_check_context_def
        result_check_ok example_result_def ts_host_result_reset_checked_def ts_host_registry_fail_def Let_def)
  then have "\<forall>n < length example_ops. active_host_modules
      (foldl (registry_step list_salts bump_arena 1) ?C (take n example_ops) 1) \<noteq> 0"
    by (simp add: example_ops_def less_Suc_eq numeral_2_eq_2 [symmetric] all_conj_distrib)
      (simp add: example_ctx_def numeral_2_eq_2 less_Suc_eq)
  from registry_frozen_while_modules_active [OF this] show ?thesis by simp
qed

section \<open>The invariant of the table\<close>

lemma remove_nth_set: "set (remove_nth i xs) \<subseteq> set xs"
  by (auto simp: remove_nth_def dest: in_set_takeD in_set_dropD)

lemma remove_nth_length: "length (remove_nth i xs) \<le> length xs"
  by (simp add: remove_nth_def)

lemma remove_nth_distinct: "distinct (map f xs) \<Longrightarrow> distinct (map f (remove_nth i xs))"
proof -
  assume d: "distinct (map f xs)"
  have "set (take i (map f xs)) \<inter> set (drop (Suc i) (map f xs)) = {}"
    using d set_take_disj_set_drop_if_distinct [OF d, of i "Suc i"] by simp
  with d show ?thesis
    by (simp add: remove_nth_def take_map [symmetric] drop_map [symmetric])
qed

lemma registry_ok_remove:
  assumes "registry_ok utf8 c x" and "host_functions y = remove_nth i (host_functions x)"
  shows "registry_ok utf8 c y"
  unfolding registry_ok_def assms(2)
proof (intro conjI ballI)
  show "length (remove_nth i (host_functions x)) \<le> TS_HOST_REGISTRY_CAPACITY"
    using assms(1) remove_nth_length order_trans unfolding registry_ok_def by blast
  show "distinct (map fe_name (remove_nth i (host_functions x)))"
    using assms(1) by (intro remove_nth_distinct) (simp add: registry_ok_def)
qed (use assms(1) remove_nth_set [of i "host_functions x"] in \<open>auto simp: registry_ok_def\<close>)

lemma registry_step_ok:
  assumes ok: "registry_ok (utf8_valid E) c (C c)" and fits: "op_fits op"
  shows "registry_ok (utf8_valid E) c (registry_step E A c C (thread, op) c)"
proof (rule registry_step_cases [where E = E and A = A and c = c and C = C and thread = thread and op = op])
  fix e
  assume *: "host_functions (registry_step E A c C (thread, op) c) = host_functions (C c) @ [e]"
    "length (host_functions (C c)) < TS_HOST_REGISTRY_CAPACITY"
    "op_fits op \<Longrightarrow> fe_ctx e = c \<and> name_ok (utf8_valid E) (fe_name e) \<and> fe_min_arity e \<le> fe_max_arity e \<and>
       find_name (host_functions (C c)) (Buf (fe_name e)) = None"
  with fits have e: "name_ok (utf8_valid E) (fe_name e)" "find_name (host_functions (C c)) (Buf (fe_name e)) = None" by auto
  have "fe_name e \<notin> fe_name ` set (host_functions (C c))"
  proof
    assume "fe_name e \<in> fe_name ` set (host_functions (C c))"
    then obtain i where "i < length (host_functions (C c))" "fe_name (host_functions (C c) ! i) = fe_name e"
      by (auto simp: in_set_conv_nth)
    with find_name_ok [OF ok name_ok_fits [OF e(1)], of i] e(2) show False by simp
  qed
  with ok * fits show ?thesis by (auto simp: registry_ok_def)
next
  fix i
  assume "host_functions (registry_step E A c C (thread, op) c) =
    remove_nth (unat (of_nat i :: size_t)) (host_functions (C c))"
  with ok show ?thesis by (rule registry_ok_remove)
qed (use ok in \<open>auto simp: registry_ok_def\<close>)

text \<open>
  the registry stays well formed.  Starting from an initialised registry, after any run of
  operations, successful or refused, by any threads: at most 256 functions are registered, their
  names are pairwise distinct, nonempty, without NUL, valid UTF-8 and at most 4 MiB long, the arity
  ranges are not empty, and each entry belongs to its context.
\<close>

theorem registry_stays_well_formed:
  assumes "ts_host_registry_init C0 init (Some c) = (STATUS_OK, C)" and "\<forall>op \<in> set ops. op_fits (snd op)"
  shows "registry_ok (utf8_valid E) c (foldl (registry_step E A c) C ops c)"
  using assms(2)
proof (induction ops rule: rev_induct)
  case Nil
  from assms(1) show ?case
    by (auto simp: ts_host_registry_init_def registry_ok_def ts_host_registry_vec_status_def split: if_splits)
next
  case (snoc op ops)
  then show ?case by (cases op) (auto intro: registry_step_ok)
qed

theorem registry_stays_well_formed_witness:
  "registry_ok ascii_valid 1 (foldl (registry_step list_salts bump_arena 1)
     (snd (ts_host_registry_init (\<lambda>a. example_ctx) STL_OK (Some 1))) example_ops 1)"
proof -
  let ?C = "snd (ts_host_registry_init (\<lambda>a. example_ctx) STL_OK (Some 1))"
  have "ts_host_registry_init (\<lambda>a. example_ctx) STL_OK (Some 1) = (STATUS_OK, ?C)"
    by (simp add: ts_host_registry_init_def)
  moreover have "\<forall>op \<in> set example_ops. op_fits (snd op)"
    by (simp add: example_ops_def example_descriptor_def buf_fits_def)
  ultimately show ?thesis
    using registry_stays_well_formed [where E = list_salts and A = bump_arena and ops = example_ops]
    by (simp add: list_salts_def)
qed

section \<open>Lookup after registration\<close>

text \<open>
  A registered function is found.  After a successful registration under a name, looking up
  that name gives a slot that holds exactly the arity range, callback and user data registered, and
  every function that was found before is still found in the same slot.
\<close>

theorem registered_function_is_found:
  assumes ok: "registry_ok (utf8_valid E) c (C c)" and fits: "buf_fits (hd_name d)"
    and run: "turbo_script_context_register_host_function E A C thread dup push (Some c) (Some d) (Some cb) u r
      = (STATUS_OK, C', r')"
  shows "(\<exists>slot. ts_host_registry_find_slot (utf8_valid E) C' thread (Some c) (hd_name d) True = (STATUS_OK, Some slot) \<and>
      ts_host_registry_get_slot C' thread (Some c) slot True =
        (STATUS_OK, Some \<lparr>fe_ctx = c, fe_name = buf_elems (hd_name d), fe_min_arity = hd_min_arity d,
          fe_max_arity = hd_max_arity d, fe_callback = cb, fe_user_data = u\<rparr>)) \<and>
    (\<forall>name slot. buf_fits name \<longrightarrow>
      ts_host_registry_find_slot (utf8_valid E) C thread (Some c) name True = (STATUS_OK, Some slot) \<longrightarrow>
      ts_host_registry_find_slot (utf8_valid E) C' thread (Some c) name True = (STATUS_OK, Some slot) \<and>
      ts_host_registry_get_slot C' thread (Some c) slot True = ts_host_registry_get_slot C thread (Some c) slot True)" (is "?new \<and> ?old")
proof -
  let ?e = "\<lparr>fe_ctx = c, fe_name = buf_elems (hd_name d), fe_min_arity = hd_min_arity d,
    fe_max_arity = hd_max_arity d, fe_callback = cb, fe_user_data = u\<rparr>" and ?es = "host_functions (C c)"
  from run have new: "C' = C(c := (C c)\<lparr>host_functions := ?es @ [?e]\<rparr>)"
    "owner_thread_token (C c) = thread" "ts_host_registry_validate_name (utf8_valid E) (hd_name d) = STATUS_OK"
    "find_name ?es (hd_name d) = None" "length ?es < TS_HOST_REGISTRY_CAPACITY"
    by (cases rule: register_cases; simp)+
  from new(3) obtain n where n: "hd_name d = Buf n" "name_ok (utf8_valid E) n" using validate_name_ok [OF fits] by blast
  have own: "ts_host_check_owner_thread D thread (Some c) = STATUS_OK \<longleftrightarrow> owner_thread_token (D c) = thread" for D
    by (simp add: ts_host_check_owner_thread_def check_thread_ok)
  have app: "find_name (es @ [x]) v = (case find_name es v of Some i \<Rightarrow> Some i
      | None \<Rightarrow> if ts_host_registry_name_equal x v then Some (length es) else None)" for es x v
    by (induction es) (auto split: option.splits)
  have "length n < 2 ^ 64" using n(2) by (rule name_ok_fits)
  then have here: "find_name (?es @ [?e]) (hd_name d) = Some (length ?es)"
    using new(4) n name_equal_iff [of ?e n] by (simp add: app)
  have small: "length ?es < 256" using new(5) by (simp add: TS_HOST_REGISTRY_CAPACITY_def)
  have idx: "unat (of_nat i :: size_t) = i" if "i < 257" for i using that by (simp add: unat_of_nat)
  have ?new
    using own new here small idx [of "length ?es"] idx [of "Suc (length ?es)"]
    by (intro exI [of _ "of_nat (length ?es)"])
      (simp add: ts_host_registry_find_slot_def ts_host_registry_get_slot_def word_le_nat_alt)
  moreover have ?old
  proof (intro allI impI)
    fix name slot
    assume "ts_host_registry_find_slot (utf8_valid E) C thread (Some c) name True = (STATUS_OK, Some slot)"
    then obtain i where i: "find_name ?es name = Some i" "slot = of_nat i"
      and v: "ts_host_registry_validate_name (utf8_valid E) name = STATUS_OK"
      by (auto simp: ts_host_registry_find_slot_def Let_def split: if_splits option.splits)
    from find_name_Some [OF i(1)] small have "i < length ?es" "i < 257" by auto
    then show "ts_host_registry_find_slot (utf8_valid E) C' thread (Some c) name True = (STATUS_OK, Some slot) \<and>
      ts_host_registry_get_slot C' thread (Some c) slot True = ts_host_registry_get_slot C thread (Some c) slot True"
      using own new(1,2) i v idx [of i] idx [of "length ?es"] idx [of "Suc (length ?es)"] small
      by (simp add: ts_host_registry_find_slot_def ts_host_registry_get_slot_def app nth_append word_le_nat_alt)
  qed
  ultimately show ?thesis by (rule conjI)
qed

lemma example_register:
  "\<exists>C' r'. turbo_script_context_register_host_function list_salts bump_arena (\<lambda>a. example_ctx) 7 True STL_OK
     (Some 1) (Some (example_descriptor ''log'')) (Some 3) 4 (Some example_result) = (STATUS_OK, C', r')"
  by (simp add: turbo_script_context_register_host_function_def ts_host_registry_begin_api_def
      ts_host_check_owner_thread_def check_thread_ok example_ctx_def ts_host_result_check_context_def
      result_check_ok example_result_def ts_host_result_reset_checked_def ts_host_registry_fail_def Let_def
      example_descriptor_def ts_host_registry_validate_descriptor_def ts_host_registry_validate_name_def
      TS_HOST_MAX_STRING_BYTES_def list_salts_def ascii_valid_def ts_host_registry_find_slot_def
      TS_HOST_REGISTRY_CAPACITY_def)

theorem registered_function_is_found_witness:
  "\<exists>C' r' slot. turbo_script_context_register_host_function list_salts bump_arena (\<lambda>a. example_ctx) 7 True STL_OK
     (Some 1) (Some (example_descriptor ''log'')) (Some 3) 4 (Some example_result) = (STATUS_OK, C', r') \<and>
   ts_host_registry_find_slot ascii_valid C' 7 (Some 1) (Buf ''log'') True = (STATUS_OK, Some slot)"
proof -
  have "registry_ok (utf8_valid list_salts) 1 example_ctx" by (simp add: registry_ok_def example_ctx_def)
  moreover have "buf_fits (hd_name (example_descriptor ''log''))" by (simp add: example_descriptor_def buf_fits_def)
  moreover have "utf8_valid list_salts = ascii_valid" "hd_name (example_descriptor ''log'') = Buf ''log''"
    by (simp_all add: list_salts_def example_descriptor_def)
  ultimately show ?thesis
    using example_register registered_function_is_found [where E = list_salts and C = "\<lambda>a. example_ctx" and c = 1
      and d = "example_descriptor ''log''"] by metis
qed

section \<open>Binding\<close>

text \<open>
  A runtime sees all the host functions or none.  When \<^verbatim>\<open>ts_host_registry_bind_runtime_impl\<close>
  succeeds, every registered function is visible in the runtime's chain of environments as a native
  function that runs the callback adapter on its own slot, and nothing else changed; when it fails,
  for a name that exists already or for lack of memory, the chain is unchanged.
\<close>

theorem bind_runtime_all_or_nothing:
  assumes ok: "registry_ok utf8 c (C c)" and env: "chain \<noteq> []"
    and run: "ts_host_registry_bind_runtime_impl malloc_ok C thread (Some c) (Some chain) fault = (s, chain')"
  shows "if s = STATUS_OK
    then \<exists>fs. chain' = Some ((fs @ hd chain) # tl chain) \<and> length fs = length (host_functions (C c)) \<and>
      (\<forall>i < length (host_functions (C c)).
        find (\<lambda>f. func_name f = Some (fe_name (host_functions (C c) ! i))) (concat (the chain')) =
          Some \<lparr>func_name = Some (fe_name (host_functions (C c) ! i)), func_access_level = ACCESS_PUBLIC,
                func_data = NativeFunc TS_HOST_REGISTRY_CALLBACK_ADAPTER (Some i) 0\<rparr>)
    else chain' = Some chain"
proof -
  let ?es = "host_functions (C c)"
  let ?rs = "map registration_of (enumerate 0 ?es)"
  obtain rs ch where reg: "exprtk_env_register_funcs_checked_with_fault malloc_ok chain ?rs fault = (rs, ch)"
    by fastforce
  from env reg show ?thesis
  proof (cases rule: register_funcs_cases)
    case registered
    have "find (\<lambda>f. func_name f = Some (fe_name (?es ! i))) (rev (map native_func ?rs) @ fs) =
        Some \<lparr>func_name = Some (fe_name (?es ! i)), func_access_level = ACCESS_PUBLIC,
              func_data = NativeFunc TS_HOST_REGISTRY_CALLBACK_ADAPTER (Some i) 0\<rparr>" if "i < length ?es" for i fs
    proof -
      have "registration_of (i, ?es ! i) \<in> set ?rs" using that by (auto simp: in_set_enumerate_eq)
      from find_pending [OF registered(4) this, of fs] show ?thesis
        by (simp add: registration_of_def native_func_def)
    qed
    with run reg registered show ?thesis
      by (auto simp: ts_host_registry_bind_runtime_impl_def Let_def split: if_splits)
  next
    case refused
    with run reg show ?thesis
      by (cases rs) (auto simp: ts_host_registry_bind_runtime_impl_def Let_def split: if_splits)
  qed
qed

theorem bind_runtime_all_or_nothing_witness:
  "let C = (\<lambda>a. example_ctx\<lparr>active_host_modules := 1, host_functions :=
       [\<lparr>fe_ctx = 1, fe_name = ''log'', fe_min_arity = 0, fe_max_arity = 1, fe_callback = 3, fe_user_data = 4\<rparr>]\<rparr>) in
   \<exists>chain' fs. ts_host_registry_bind_runtime_impl (\<lambda>i. True) C 7 (Some 1) (Some [[], []]) None = (STATUS_OK, chain') \<and>
     chain' = Some (fs # [[]]) \<and> length fs = 1"
proof -
  let ?C = "\<lambda>a :: addr. example_ctx\<lparr>active_host_modules := 1, host_functions :=
       [\<lparr>fe_ctx = 1, fe_name = ''log'', fe_min_arity = 0, fe_max_arity = 1, fe_callback = 3, fe_user_data = 4\<rparr>]\<rparr>"
  let ?run = "ts_host_registry_bind_runtime_impl (\<lambda>i. True) ?C 7 (Some 1) (Some [[], []]) None"
  have "fst ?run = STATUS_OK"
    by (simp add: ts_host_registry_bind_runtime_impl_def ts_host_check_owner_thread_def check_thread_ok example_ctx_def
        exprtk_env_has_func_def exprtk_env_register_funcs_checked_with_fault_def registration_of_def)
  then obtain ch where run: "?run = (STATUS_OK, ch)" by (cases ?run) auto
  have "registry_ok ascii_valid 1 (?C 1)"
    by (simp add: registry_ok_def TS_HOST_REGISTRY_CAPACITY_def name_ok_def ascii_valid_def)
  from bind_runtime_all_or_nothing [OF this _ run] run show ?thesis by (auto simp: Let_def)
qed

end
