(* ===== verification/Module_Ast.thy ===== *)
theory Module_Ast
  imports Host_Prelude
begin

text \<open>
  The syntax tree of a module (\<^verbatim>\<open>exprtk_node_s\<close> of \<^verbatim>\<open>exprtk/include/exprtk_types.h\<close>) and the
  limits on it that the host layer enforces before a module is accepted (\<^verbatim>\<open>ts_host_ast_usage\<close> of
  \<^verbatim>\<open>turbo_script/src/host/turbo_script_host_module.c\<close>).  The traversal is shown to count every node,
  every import and every string byte of the tree, and to accept exactly the trees within the limits.
\<close>

section \<open>Syntax trees\<close>

text \<open>
  One constructor per node type.  A pointer to a node may be null; an array of nodes with its length
  is a list.  Names are C strings, null or not.
\<close>

datatype (plugins only: size code) exprtk_node = Node (node_line: int) (node_column: int) (node_data: node_data)
and node_data =
    NODE_NUMBER u64
  | NODE_INTEGER u64
  | NODE_VARIABLE "bytes option"
  | NODE_BINARY_OP int "exprtk_node option" "exprtk_node option"
  | NODE_FUNCTION_CALL "bytes option" "exprtk_node option list"
  | NODE_ASSIGNMENT "bytes option" "exprtk_node option"
  | NODE_IF "exprtk_node option" "exprtk_node option" "exprtk_node option"
  | NODE_WHILE "exprtk_node option" "exprtk_node option"
  | NODE_FOR "exprtk_node option" "exprtk_node option" "exprtk_node option" "exprtk_node option"
  | NODE_SPREAD "exprtk_node option"
  | NODE_BLOCK "exprtk_node option list"
  | NODE_FLOW int "exprtk_node option"
  | NODE_STRING sview
  | NODE_VECTOR "exprtk_node option list"
  | NODE_INDEX "exprtk_node option" "exprtk_node option"
  | NODE_SLICE "exprtk_node option" "exprtk_node option" "exprtk_node option"
  | NODE_FUNCTION_DEFINITION "bytes option" "exprtk_node option list" "exprtk_node option"
  | NODE_MEMBER_CALL "exprtk_node option" "bytes option" "exprtk_node option list"
  | NODE_CONSTANT_DECL "bytes option" "exprtk_node option"
  | NODE_SWITCH "exprtk_node option" "exprtk_node option list" "exprtk_node option"
  | NODE_DO_WHILE "exprtk_node option" "exprtk_node option"
  | NODE_MAP_LITERAL "bytes option list" "exprtk_node option list"
  | NODE_MEMBER_ACCESS "exprtk_node option" "bytes option"
  | NODE_MEMBER_SET "exprtk_node option" "bytes option" "exprtk_node option"
  | NODE_FOR_IN "bytes option" "exprtk_node option" "exprtk_node option"
  | NODE_NULL
  | NODE_TEMPLATE_STRING sview
  | NODE_DESTRUCTURING_ASSIGNMENT bool "exprtk_node option" "exprtk_node option"
  | NODE_REST_PARAMETER "bytes option"
  | NODE_TRY_CATCH "exprtk_node option" "bytes option" "exprtk_node option"
  | NODE_THROW "exprtk_node option"
  | NODE_FUNCTION_EXPRESSION "bytes option" "exprtk_node option list" "exprtk_node option"
  | NODE_YIELD "exprtk_node option"
  | NODE_GENERATOR_FUNCTION "bytes option" "exprtk_node option list" "exprtk_node option"
  | NODE_CLASS_DEF "bytes option" "exprtk_node option" "exprtk_node option list" "exprtk_node option list"
  | NODE_METHOD "bytes option" "exprtk_node option list" "exprtk_node option"
  | NODE_FIELD_DECL "bytes option" "exprtk_node option"
  | NODE_NEW "bytes option" "exprtk_node option list"
  | NODE_THIS
  | NODE_SUPER "bytes option" "exprtk_node option list"
  | NODE_INSTANCEOF "exprtk_node option" "bytes option" "exprtk_node option"
  | NODE_UNKNOWN int

text \<open>The children in the order in which the traversal visits them; a null pointer is skipped there.\<close>

definition node_children :: "node_data \<Rightarrow> exprtk_node option list" where
  "node_children d =
     (case d of
        NODE_BLOCK statements \<Rightarrow> statements
      | NODE_FUNCTION_EXPRESSION name params body \<Rightarrow> params @ [body]
      | NODE_FUNCTION_DEFINITION name params body \<Rightarrow> params @ [body]
      | NODE_FUNCTION_CALL name args \<Rightarrow> args
      | NODE_BINARY_OP op left right \<Rightarrow> [left, right]
      | NODE_ASSIGNMENT name x \<Rightarrow> [x]
      | NODE_CONSTANT_DECL name x \<Rightarrow> [x]
      | NODE_FLOW kind x \<Rightarrow> [x]
      | NODE_IF condition if_branch else_branch \<Rightarrow> [condition, if_branch, else_branch]
      | NODE_WHILE condition body \<Rightarrow> [condition, body]
      | NODE_FOR init condition post body \<Rightarrow> [init, condition, post, body]
      | NODE_VECTOR elements \<Rightarrow> elements
      | NODE_INDEX array index \<Rightarrow> [array, index]
      | NODE_SLICE array start stop \<Rightarrow> [array, start, stop]
      | NODE_MEMBER_CALL object method args \<Rightarrow> object # args
      | NODE_SWITCH x cases default_case \<Rightarrow> x # cases @ [default_case]
      | NODE_DO_WHILE body condition \<Rightarrow> [body, condition]
      | NODE_MAP_LITERAL keys elements \<Rightarrow> elements
      | NODE_MEMBER_ACCESS object member \<Rightarrow> [object]
      | NODE_MEMBER_SET object member x \<Rightarrow> [object, x]
      | NODE_FOR_IN var collection body \<Rightarrow> [collection, body]
      | NODE_SPREAD child \<Rightarrow> [child]
      | NODE_DESTRUCTURING_ASSIGNMENT is_constant targets x \<Rightarrow> [targets, x]
      | NODE_TRY_CATCH try_body catch_var catch_body \<Rightarrow> [try_body, catch_body]
      | NODE_THROW x \<Rightarrow> [x]
      | NODE_YIELD x \<Rightarrow> [x]
      | NODE_GENERATOR_FUNCTION name params body \<Rightarrow> params @ [body]
      | NODE_CLASS_DEF name constructor methods static_methods \<Rightarrow> constructor # methods @ static_methods
      | NODE_METHOD name params body \<Rightarrow> params @ [body]
      | NODE_FIELD_DECL name initializer \<Rightarrow> [initializer]
      | NODE_NEW name args \<Rightarrow> args
      | NODE_SUPER member args \<Rightarrow> args
      | NODE_INSTANCEOF object name class_expr \<Rightarrow> [object, class_expr]
      | _ \<Rightarrow> [])"

text \<open>The children of a node weigh less than the node.\<close>

definition child_size :: "exprtk_node option \<Rightarrow> nat" where
  "child_size x = (case x of None \<Rightarrow> 0 | Some n \<Rightarrow> size n)"

lemma child_size_simps: "child_size None = 0" "child_size (Some n) = size n"
  by (simp_all add: child_size_def)

lemma size_option_child: "size_option size x = Suc (child_size x)"
  by (cases x) (simp_all add: child_size_def)

lemma size_list_children: "size_list (\<lambda>x. Suc (child_size x)) xs = (\<Sum>x\<leftarrow>xs. child_size x) + 2 * length xs"
  by (induction xs) simp_all

lemma node_children_size: "(\<Sum>x\<leftarrow>node_children d. child_size x) \<le> size d"
  by (cases d) (simp_all add: node_children_def size_option_child size_list_children)

section \<open>Options and counters\<close>

text \<open>\<^verbatim>\<open>turbo_script_module_options_s\<close>; its size is 96 bytes on LP64.\<close>

record module_options =
  mo_struct_size :: u32
  mo_reserved0 :: u32
  mo_module_name :: sview
  mo_max_source_bytes :: size_t
  mo_max_ast_nodes :: size_t
  mo_max_imports :: size_t
  mo_max_exports :: size_t
  mo_max_string_bytes :: size_t
  mo_reserved :: "u64 list"

definition MODULE_SOURCE_LIMIT :: size_t where "MODULE_SOURCE_LIMIT = 4 * 1024 * 1024"
definition MODULE_AST_LIMIT :: size_t where "MODULE_AST_LIMIT = 100000"
definition MODULE_IMPORT_LIMIT :: size_t where "MODULE_IMPORT_LIMIT = 64"
definition MODULE_EXPORT_LIMIT :: size_t where "MODULE_EXPORT_LIMIT = 256"
definition MODULE_STRING_LIMIT :: size_t where "MODULE_STRING_LIMIT = 4 * 1024 * 1024"

definition turbo_script_module_options_init :: module_options where
  "turbo_script_module_options_init =
     \<lparr>mo_struct_size = 96, mo_reserved0 = 0, mo_module_name = NullBuf 0,
      mo_max_source_bytes = MODULE_SOURCE_LIMIT, mo_max_ast_nodes = MODULE_AST_LIMIT,
      mo_max_imports = MODULE_IMPORT_LIMIT, mo_max_exports = MODULE_EXPORT_LIMIT,
      mo_max_string_bytes = MODULE_STRING_LIMIT, mo_reserved = [0, 0, 0, 0]\<rparr>"

definition ts_host_options_valid :: "module_options option \<Rightarrow> bool" where
  "ts_host_options_valid options =
     (case options of
        None \<Rightarrow> False
      | Some m \<Rightarrow>
          mo_struct_size m = 96 \<and> mo_reserved0 m = 0 \<and> list_all (\<lambda>x. x = 0) (mo_reserved m) \<and>
          mo_max_source_bytes m \<le> MODULE_SOURCE_LIMIT \<and> mo_max_ast_nodes m \<le> MODULE_AST_LIMIT \<and>
          mo_max_imports m \<le> MODULE_IMPORT_LIMIT \<and> mo_max_exports m \<le> MODULE_EXPORT_LIMIT \<and>
          mo_max_string_bytes m \<le> MODULE_STRING_LIMIT)"

text \<open>\<^verbatim>\<open>ts_host_ast_usage_s\<close>.\<close>

record ast_usage =
  au_nodes :: size_t
  au_imports :: size_t
  au_string_bytes :: size_t

text \<open>\<open>None\<close> is the result 0; the counter is unchanged then.\<close>

definition ts_host_charge :: "size_t \<Rightarrow> size_t \<Rightarrow> size_t \<Rightarrow> size_t option" where
  "ts_host_charge v amount limit =
     (if v > limit \<or> amount > limit - v then None else Some (v + amount))"

section \<open>The traversal\<close>

text \<open>
  \<^verbatim>\<open>ts_host_ast_usage\<close>: one node is charged, then what the node itself takes (the bytes of a string,
  one import for a call of \<^verbatim>\<open>import\<close>), then the children in order, up to the first refusal.  A type
  outside the enumeration is refused by the \<^verbatim>\<open>return 0\<close> after the switch.
\<close>

definition own_usage :: "module_options \<Rightarrow> node_data \<Rightarrow> ast_usage \<Rightarrow> ast_usage option" where
  "own_usage m d u =
     (case d of
        NODE_STRING v \<Rightarrow>
          map_option (\<lambda>x. u\<lparr>au_string_bytes := x\<rparr>)
            (ts_host_charge (au_string_bytes u) (buf_size v) (mo_max_string_bytes m))
      | NODE_TEMPLATE_STRING v \<Rightarrow>
          map_option (\<lambda>x. u\<lparr>au_string_bytes := x\<rparr>)
            (ts_host_charge (au_string_bytes u) (buf_size v) (mo_max_string_bytes m))
      | NODE_FUNCTION_CALL name args \<Rightarrow>
          if name = Some ''import''
          then map_option (\<lambda>x. u\<lparr>au_imports := x\<rparr>) (ts_host_charge (au_imports u) 1 (mo_max_imports m))
          else Some u
      | NODE_UNKNOWN k \<Rightarrow> None
      | _ \<Rightarrow> Some u)"

function (sequential) ts_host_ast_usage ::
    "module_options \<Rightarrow> exprtk_node option \<Rightarrow> ast_usage \<Rightarrow> ast_usage option"
  and usage_children ::
    "module_options \<Rightarrow> exprtk_node option list \<Rightarrow> ast_usage \<Rightarrow> ast_usage option"
  where
  "ts_host_ast_usage m None u = Some u"
| "ts_host_ast_usage m (Some (Node line column d)) u =
     (case ts_host_charge (au_nodes u) 1 (mo_max_ast_nodes m) of
        None \<Rightarrow> None
      | Some n \<Rightarrow>
          (case own_usage m d (u\<lparr>au_nodes := n\<rparr>) of
             None \<Rightarrow> None
           | Some u1 \<Rightarrow> usage_children m (node_children d) u1))"
| "usage_children m [] u = Some u"
| "usage_children m (x # xs) u =
     (case ts_host_ast_usage m x u of None \<Rightarrow> None | Some u1 \<Rightarrow> usage_children m xs u1)"
  by pat_completeness auto

termination
  by (relation "measures
       [\<lambda>x. case x of Inl (m, x, u) \<Rightarrow> child_size x | Inr (m, xs, u) \<Rightarrow> (\<Sum>x\<leftarrow>xs. child_size x),
        \<lambda>x. case x of Inl y \<Rightarrow> 0 | Inr (m, xs, u) \<Rightarrow> Suc (length xs)]")
    (auto simp: child_size_def le_imp_less_Suc [OF node_children_size])

lemmas usage_induct = ts_host_ast_usage_usage_children.induct

definition ts_host_module_test_ast_usage :: "exprtk_node option \<Rightarrow> module_options option \<Rightarrow> status" where
  "ts_host_module_test_ast_usage root options =
     (if root = None \<or> \<not> ts_host_options_valid options then STATUS_INVALID_ARGUMENT
      else if ts_host_ast_usage (the options) root \<lparr>au_nodes = 0, au_imports = 0, au_string_bytes = 0\<rparr> \<noteq> None
      then STATUS_OK
      else STATUS_LIMIT_EXCEEDED)"

section \<open>What the traversal counts\<close>

text \<open>All the nodes of a tree, and the totals over a list of nodes.\<close>

function (sequential) subnodes :: "exprtk_node option \<Rightarrow> exprtk_node list"
  and subnodes_list :: "exprtk_node option list \<Rightarrow> exprtk_node list"
  where
  "subnodes None = []"
| "subnodes (Some (Node line column d)) = Node line column d # subnodes_list (node_children d)"
| "subnodes_list [] = []"
| "subnodes_list (x # xs) = subnodes x @ subnodes_list xs"
  by pat_completeness auto

termination
  by (relation "measures
       [\<lambda>x. case x of Inl x \<Rightarrow> child_size x | Inr xs \<Rightarrow> (\<Sum>x\<leftarrow>xs. child_size x),
        \<lambda>x. case x of Inl y \<Rightarrow> 0 | Inr xs \<Rightarrow> Suc (length xs)]")
    (auto simp: child_size_def le_imp_less_Suc [OF node_children_size])

fun is_import :: "node_data \<Rightarrow> bool" where
  "is_import (NODE_FUNCTION_CALL name args) = (name = Some ''import'')"
| "is_import d = False"

fun string_bytes :: "node_data \<Rightarrow> nat" where
  "string_bytes (NODE_STRING v) = unat (buf_size v)"
| "string_bytes (NODE_TEMPLATE_STRING v) = unat (buf_size v)"
| "string_bytes d = 0"

fun known_node :: "node_data \<Rightarrow> bool" where
  "known_node (NODE_UNKNOWN k) = False"
| "known_node d = True"

definition total_imports :: "exprtk_node list \<Rightarrow> nat" where
  "total_imports ns = length (filter (\<lambda>n. is_import (node_data n)) ns)"

definition total_strings :: "exprtk_node list \<Rightarrow> nat" where
  "total_strings ns = (\<Sum>n\<leftarrow>ns. string_bytes (node_data n))"

definition within :: "module_options \<Rightarrow> ast_usage \<Rightarrow> exprtk_node list \<Rightarrow> bool" where
  "within m u ns \<longleftrightarrow> list_all (\<lambda>n. known_node (node_data n)) ns \<and>
     unat (au_nodes u) + length ns \<le> unat (mo_max_ast_nodes m) \<and>
     unat (au_imports u) + total_imports ns \<le> unat (mo_max_imports m) \<and>
     unat (au_string_bytes u) + total_strings ns \<le> unat (mo_max_string_bytes m)"

definition adds :: "ast_usage \<Rightarrow> exprtk_node list \<Rightarrow> ast_usage \<Rightarrow> bool" where
  "adds u ns u' \<longleftrightarrow>
     unat (au_nodes u') = unat (au_nodes u) + length ns \<and>
     unat (au_imports u') = unat (au_imports u) + total_imports ns \<and>
     unat (au_string_bytes u') = unat (au_string_bytes u) + total_strings ns"

definition counted :: "module_options \<Rightarrow> ast_usage \<Rightarrow> exprtk_node list \<Rightarrow> ast_usage option \<Rightarrow> bool" where
  "counted m u ns r \<longleftrightarrow>
     (case r of None \<Rightarrow> \<not> within m u ns | Some u' \<Rightarrow> within m u ns \<and> adds u ns u')"

lemma total_append [simp]:
  "total_imports (ns @ ns') = total_imports ns + total_imports ns'"
  "total_strings (ns @ ns') = total_strings ns + total_strings ns'"
  by (simp_all add: total_imports_def total_strings_def)

lemma counted_append:
  assumes "counted m u ns (Some u1)" and "counted m u1 ns' r"
  shows "counted m u (ns @ ns') r"
  using assms by (auto simp: counted_def within_def adds_def split: option.splits)

lemma counted_refused: "counted m u ns None \<Longrightarrow> counted m u (ns @ ns') None"
  by (auto simp: counted_def within_def)

lemma host_charge_iff:
  assumes "unat v \<le> unat limit"
  shows "ts_host_charge v a limit = (if unat v + unat a \<le> unat limit then Some (v + a) else None)"
    and "unat v + unat a \<le> unat limit \<Longrightarrow> unat (v + a) = unat v + unat a"
proof -
  show "unat v + unat a \<le> unat limit \<Longrightarrow> unat (v + a) = unat v + unat a"
    using unat_lt_2_64 [of limit] by (simp add: unat_add_fits)
  have "unat (limit - v) = unat limit - unat v" using assms by (rule unat_sub_le)
  then show "ts_host_charge v a limit = (if unat v + unat a \<le> unat limit then Some (v + a) else None)"
    using assms by (auto simp: ts_host_charge_def word_less_nat_alt)
qed

definition usage_ok :: "module_options \<Rightarrow> ast_usage \<Rightarrow> bool" where
  "usage_ok m u \<longleftrightarrow> within m u []"

lemma counted_ok: "counted m u ns (Some u') \<Longrightarrow> usage_ok m u'"
  by (auto simp: usage_ok_def counted_def within_def adds_def total_imports_def total_strings_def)

lemma node_counted:
  assumes "usage_ok m u"
  shows "counted m u [Node line column d]
    (case ts_host_charge (au_nodes u) 1 (mo_max_ast_nodes m) of None \<Rightarrow> None
     | Some n \<Rightarrow> own_usage m d (u\<lparr>au_nodes := n\<rparr>))"
proof -
  have ok: "unat (au_nodes u) \<le> unat (mo_max_ast_nodes m)" "unat (au_imports u) \<le> unat (mo_max_imports m)"
    "unat (au_string_bytes u) \<le> unat (mo_max_string_bytes m)"
    using assms by (auto simp: usage_ok_def within_def)
  note c = host_charge_iff [OF ok(1), of 1] host_charge_iff [OF ok(2), of 1] host_charge_iff [OF ok(3)]
  show ?thesis
    by (cases d) (use ok c in \<open>auto simp: counted_def within_def adds_def own_usage_def total_imports_def total_strings_def\<close>)
qed

lemma usage_counted:
  shows "usage_ok m u \<Longrightarrow> counted m u (subnodes x) (ts_host_ast_usage m x u)"
    and "usage_ok m u \<Longrightarrow> counted m u (subnodes_list xs) (usage_children m xs u)"
proof (induction m x u and m xs u rule: usage_induct)
  case (1 m u)
  then show ?case by (simp add: counted_def usage_ok_def adds_def total_imports_def total_strings_def)
next
  case (2 m line column d u)
  let ?first = "case ts_host_charge (au_nodes u) 1 (mo_max_ast_nodes m) of None \<Rightarrow> None
     | Some n \<Rightarrow> own_usage m d (u\<lparr>au_nodes := n\<rparr>)"
  note first = node_counted [OF "2.prems", of line column d]
  show ?case
  proof (cases ?first)
    case None
    with counted_refused [OF first [unfolded None], of "subnodes_list (node_children d)"] show ?thesis
      by (simp split: option.splits)
  next
    case (Some u1)
    then obtain n where n: "ts_host_charge (au_nodes u) 1 (mo_max_ast_nodes m) = Some n"
      "own_usage m d (u\<lparr>au_nodes := n\<rparr>) = Some u1" by (auto split: option.splits)
    from "2.IH" [OF n counted_ok [OF first [unfolded Some]]] counted_append [OF first [unfolded Some]] n
    show ?thesis by simp
  qed
next
  case (3 m u)
  then show ?case by (simp add: counted_def usage_ok_def adds_def total_imports_def total_strings_def)
next
  case (4 m x xs u)
  show ?case
  proof (cases "ts_host_ast_usage m x u")
    case None
    with counted_refused 4 show ?thesis by fastforce
  next
    case (Some u1)
    with "4.IH"(1) [OF "4.prems"] have x: "counted m u (subnodes x) (Some u1)" by simp
    from "4.IH"(2) [OF Some counted_ok [OF x]] counted_append [OF x] Some show ?thesis by simp
  qed
qed

text \<open>
  C17: the limits on the syntax tree are enforced exactly.  From counters at zero and the bytes of the
  module name, the traversal accepts a tree if and only if it has no node of an unknown type, at
  most \<open>max_ast_nodes\<close> nodes, at most \<open>max_imports\<close> calls of \<^verbatim>\<open>import\<close> and, with the name, at most
  \<open>max_string_bytes\<close> bytes in its string literals and templates; the counters then hold exactly these
  totals, without wrap-around.
\<close>

theorem ast_usage_exact:
  assumes name: "unat name_size \<le> unat (mo_max_string_bytes m)"
  defines "u \<equiv> \<lparr>au_nodes = 0, au_imports = 0, au_string_bytes = name_size\<rparr>"
  shows "(ts_host_ast_usage m root u \<noteq> None \<longleftrightarrow>
       list_all (\<lambda>n. known_node (node_data n)) (subnodes root) \<and>
       length (subnodes root) \<le> unat (mo_max_ast_nodes m) \<and>
       total_imports (subnodes root) \<le> unat (mo_max_imports m) \<and>
       unat name_size + total_strings (subnodes root) \<le> unat (mo_max_string_bytes m)) \<and>
     (\<forall>u'. ts_host_ast_usage m root u = Some u' \<longrightarrow>
       unat (au_nodes u') = length (subnodes root) \<and> unat (au_imports u') = total_imports (subnodes root) \<and>
       unat (au_string_bytes u') = unat name_size + total_strings (subnodes root))"
proof -
  have "usage_ok m u" using name by (simp add: u_def usage_ok_def within_def total_imports_def total_strings_def)
  from usage_counted(1) [OF this, of root] show ?thesis
    by (auto simp: counted_def within_def adds_def u_def split: option.splits)
qed

definition example_ast :: exprtk_node where
  "example_ast =
     Node 1 1 (NODE_BLOCK
       [Some (Node 1 1 (NODE_FUNCTION_CALL (Some ''import'') [Some (Node 1 8 (NODE_STRING (Buf ''fin'')))])),
        Some (Node 2 1 (NODE_FUNCTION_DEFINITION (Some ''main'') [Some (Node 2 6 (NODE_VARIABLE (Some ''x'')))]
          (Some (Node 2 9 (NODE_BLOCK [Some (Node 2 10 (NODE_FLOW 1 (Some (Node 2 17 (NODE_VARIABLE (Some ''x''))))))]))))),
        Some (Node 3 1 (NODE_FUNCTION_CALL (Some ''export'') [Some (Node 3 8 (NODE_STRING (Buf ''main'')))]))])"

lemma example_subnodes:
  "length (subnodes (Some example_ast)) = 10 \<and> total_imports (subnodes (Some example_ast)) = 1 \<and>
   total_strings (subnodes (Some example_ast)) = 7 \<and>
   list_all (\<lambda>n. known_node (node_data n)) (subnodes (Some example_ast))"
  by (simp add: example_ast_def node_children_def total_imports_def total_strings_def)

theorem ast_usage_exact_witness:
  "(ts_host_ast_usage turbo_script_module_options_init (Some example_ast)
     \<lparr>au_nodes = 0, au_imports = 0, au_string_bytes = 4\<rparr> \<noteq> None) \<and>
   (ts_host_ast_usage (turbo_script_module_options_init\<lparr>mo_max_ast_nodes := 9\<rparr>) (Some example_ast)
     \<lparr>au_nodes = 0, au_imports = 0, au_string_bytes = 4\<rparr> = None)"
proof -
  let ?m = turbo_script_module_options_init
  have "unat (4 :: size_t) \<le> unat (mo_max_string_bytes ?m)"
    "unat (4 :: size_t) \<le> unat (mo_max_string_bytes (?m\<lparr>mo_max_ast_nodes := 9\<rparr>))"
    by (simp_all add: turbo_script_module_options_init_def MODULE_STRING_LIMIT_def)
  from ast_usage_exact [OF this(1), of "Some example_ast"] ast_usage_exact [OF this(2), of "Some example_ast"]
    example_subnodes show ?thesis
    by (simp add: turbo_script_module_options_init_def MODULE_STRING_LIMIT_def MODULE_AST_LIMIT_def MODULE_IMPORT_LIMIT_def)
qed

end
