(* ===== verification/Host_Module.thy ===== *)
theory Host_Module
  imports Host_Registry Module_Ast
begin

text \<open>
  Modules (\<^verbatim>\<open>turbo_script/src/host/turbo_script_host_module.c\<close>): the export table, compilation,
  which must leave no trace when it fails, and the life of a compiled module under the references
  of its creator and of its instances.
\<close>

section \<open>State\<close>

text \<open>\<^verbatim>\<open>ts_host_export_entry_s\<close>.\<close>

record export_entry =
  ex_name :: bytes
  ex_arity :: u32
  ex_line :: u32
  ex_column :: u32
  ex_declaration_node :: exprtk_node
  ex_function_node :: exprtk_node

text \<open>
  \<^verbatim>\<open>turbo_script_module_s\<close>; the compiled artifact belongs to the backend.  \<open>m_freed\<close> says that the
  structure was freed; it is not a field of the C structure.
\<close>

record 'art module =
  m_ctx :: addr
  m_source :: bytes
  m_module_name :: bytes
  m_ast :: exprtk_node
  m_exports :: "export_entry list"
  m_artifact :: 'art
  m_parse_count :: size_t
  m_lower_count :: size_t
  m_ref_count :: size_t
  m_accepting_instances :: bool
  m_freed :: bool

type_synonym 'art module_store = "addr \<Rightarrow> 'art module"

section \<open>Where a parse failed\<close>

text \<open>
  \<^verbatim>\<open>ts_host_parse_span\<close> reads the position from the parser's message with \<^verbatim>\<open>strstr\<close> and
  \<^verbatim>\<open>sscanf("line %u, col %u")\<close>, and counts the lines of the source when there is none.  A white
  space in the format matches any white space, \<^verbatim>\<open>%u\<close> skips white space and reads an optional sign
  and digits; a conversion that fails leaves its variable alone.
\<close>

definition is_space :: "char \<Rightarrow> bool" where
  "is_space ch \<longleftrightarrow> ch \<in> set [CHR '' '', CHR 0x09, CHR 0x0A, CHR 0x0B, CHR 0x0C, CHR 0x0D]"

definition is_digit :: "char \<Rightarrow> bool" where
  "is_digit ch \<longleftrightarrow> (48 :: nat) \<le> of_char ch \<and> (of_char ch :: nat) \<le> 57"

definition skip_space :: "bytes \<Rightarrow> bytes" where
  "skip_space s = dropWhile is_space s"

definition digits_value :: "bytes \<Rightarrow> nat" where
  "digits_value ds = foldl (\<lambda>n ch. 10 * n + (of_char ch - 48)) 0 ds"

definition scan_unsigned :: "bytes \<Rightarrow> (u32 \<times> bytes) option" where
  "scan_unsigned s =
     (let s = skip_space s;
          negative = (s \<noteq> [] \<and> hd s = CHR ''-'');
          s = (if s \<noteq> [] \<and> (hd s = CHR ''-'' \<or> hd s = CHR ''+'') then tl s else s);
          ds = takeWhile is_digit s;
          n = of_nat (min (digits_value ds) (2 ^ 64 - 1)) :: u32
      in if ds = [] then None else Some (if negative then - n else n, dropWhile is_digit s))"

fun match_literal :: "bytes \<Rightarrow> bytes \<Rightarrow> bytes option" where
  "match_literal [] s = Some s"
| "match_literal (f # fs) s =
     (if is_space f then match_literal fs (skip_space s)
      else case s of [] \<Rightarrow> None | x # xs \<Rightarrow> if x = f then match_literal fs xs else None)"

fun strstr :: "bytes \<Rightarrow> bytes \<Rightarrow> bytes option" where
  "strstr needle [] = (if needle = [] then Some [] else None)"
| "strstr needle (x # xs) =
     (if take (length needle) (x # xs) = needle then Some (x # xs) else strstr needle xs)"

definition scan_line_col :: "bytes \<Rightarrow> u32 \<times> u32" where
  "scan_line_col s =
     (case Option.bind (match_literal ''line '' s) scan_unsigned of
        None \<Rightarrow> (0, 0)
      | Some (line, s1) \<Rightarrow>
          (case Option.bind (match_literal '', col '' s1) scan_unsigned of
             None \<Rightarrow> (line, 0)
           | Some (column, s2) \<Rightarrow> (line, column)))"

fun count_position :: "u32 \<Rightarrow> u32 \<Rightarrow> bytes \<Rightarrow> u32 \<times> u32" where
  "count_position line column [] = (line, column)"
| "count_position line column (ch # s) =
     (if ch = CHR 0x0A then count_position (line + 1) 1 s else count_position line (column + 1) s)"

definition ts_host_parse_span :: "bytes option \<Rightarrow> bytes option \<Rightarrow> u32 \<times> u32" where
  "ts_host_parse_span message source =
     (let (line, column) =
        (case Option.bind message (strstr ''line '') of None \<Rightarrow> (0, 0) | Some s \<Rightarrow> scan_line_col s)
      in case source of
           Some s \<Rightarrow> if line = 0 then count_position 1 1 s else (line, column)
         | None \<Rightarrow> (line, column))"

section \<open>Exports\<close>

definition ts_host_vec_status :: "stl_status \<Rightarrow> status" where
  "ts_host_vec_status s =
     (if s = STL_OK then STATUS_OK
      else if s = STL_OUT_OF_MEMORY then STATUS_OUT_OF_MEMORY
      else if s = STL_CAPACITY_EXCEEDED then STATUS_LIMIT_EXCEEDED
      else STATUS_INVALID_STATE)"

definition ts_host_find_top_function :: "exprtk_node option \<Rightarrow> bytes \<Rightarrow> exprtk_node option" where
  "ts_host_find_top_function root name =
     (case root of
        Some (Node l c (NODE_BLOCK statements)) \<Rightarrow>
          Option.bind
            (find (\<lambda>s. case s of
                 Some (Node l c (NODE_FUNCTION_DEFINITION n params body)) \<Rightarrow> n = Some name
               | _ \<Rightarrow> False) statements) id
      | _ \<Rightarrow> None)"

definition export_call_args :: "exprtk_node option \<Rightarrow> exprtk_node option list option" where
  "export_call_args s =
     (case s of
        Some (Node l c (NODE_FUNCTION_CALL n args)) \<Rightarrow> if n = Some ''export'' then Some args else None
      | _ \<Rightarrow> None)"

definition function_params :: "exprtk_node \<Rightarrow> exprtk_node option list" where
  "function_params f =
     (case node_data f of NODE_FUNCTION_DEFINITION n params body \<Rightarrow> params | _ \<Rightarrow> [])"

definition is_variable_node :: "exprtk_node option \<Rightarrow> bool" where
  "is_variable_node p = (case p of Some (Node l c (NODE_VARIABLE n)) \<Rightarrow> True | _ \<Rightarrow> False)"

definition u32_of_pos :: "int \<Rightarrow> u32" where
  "u32_of_pos i = (if i > 0 then word_of_int i else 0)"

text \<open>
  One \<^verbatim>\<open>export(...)\<close> statement: \<open>dup\<close> says whether the name can be copied and \<open>push\<close> is what
  \<^verbatim>\<open>vec_push\<close> answers.
\<close>

definition ts_host_scan_export ::
  "(bytes \<Rightarrow> bool) \<Rightarrow> bool \<times> stl_status \<Rightarrow> module_options \<Rightarrow> exprtk_node \<Rightarrow> export_entry list \<Rightarrow>
   exprtk_node \<Rightarrow> exprtk_node option list \<Rightarrow> status + export_entry" where
  "ts_host_scan_export utf8 mem m root table node args =
     (case args of
        [Some (Node l c (NODE_STRING (Buf name)))] \<Rightarrow>
          if name = [] \<or> CHR 0x00 \<in> set name \<or> \<not> utf8 name then Inl STATUS_VALIDATION_ERROR
          else if of_nat (length table) \<ge> mo_max_exports m then Inl STATUS_LIMIT_EXCEEDED
          else if list_ex (\<lambda>e. ex_name e = name) table then Inl STATUS_VALIDATION_ERROR
          else
            (case ts_host_find_top_function (Some root) name of
               None \<Rightarrow> Inl STATUS_VALIDATION_ERROR
             | Some f \<Rightarrow>
                 if length (function_params f) > 16 \<or> \<not> list_all is_variable_node (function_params f)
                 then Inl STATUS_VALIDATION_ERROR
                 else if \<not> fst mem then Inl STATUS_OUT_OF_MEMORY
                 else if snd mem \<noteq> STL_OK then Inl (ts_host_vec_status (snd mem))
                 else
                   Inr \<lparr>ex_name = name, ex_arity = of_nat (length (function_params f)),
                        ex_line = u32_of_pos (node_line node), ex_column = u32_of_pos (node_column node),
                        ex_declaration_node = node, ex_function_node = f\<rparr>)
      | _ \<Rightarrow> Inl STATUS_VALIDATION_ERROR)"

text \<open>The loop over the top-level statements; the error carries the statement at fault.\<close>

fun scan_statements ::
  "(bytes \<Rightarrow> bool) \<Rightarrow> (nat \<Rightarrow> bool \<times> stl_status) \<Rightarrow> module_options \<Rightarrow> exprtk_node \<Rightarrow> export_entry list \<Rightarrow>
   exprtk_node option list \<Rightarrow> (status \<times> exprtk_node) + export_entry list" where
  "scan_statements utf8 mem m root table [] = Inr table"
| "scan_statements utf8 mem m root table (s # ss) =
     (case export_call_args s of
        None \<Rightarrow> scan_statements utf8 mem m root table ss
      | Some args \<Rightarrow>
          (case ts_host_scan_export utf8 (mem (length table)) m root table (the s) args of
             Inl e \<Rightarrow> Inl (e, the s)
           | Inr entry \<Rightarrow> scan_statements utf8 mem m root (table @ [entry]) ss))"

definition ts_host_scan_exports ::
  "(bytes \<Rightarrow> bool) \<Rightarrow> stl_status \<Rightarrow> (nat \<Rightarrow> bool \<times> stl_status) \<Rightarrow> module_options \<Rightarrow> exprtk_node option \<Rightarrow>
   (status \<times> exprtk_node option) + export_entry list" where
  "ts_host_scan_exports utf8 init mem m root =
     (if init \<noteq> STL_OK then Inl (ts_host_vec_status init, None)
      else
        (case root of
           Some (Node l c (NODE_BLOCK statements)) \<Rightarrow>
             (case scan_statements utf8 mem m (Node l c (NODE_BLOCK statements)) [] statements of
                Inl (e, node) \<Rightarrow> Inl (e, Some node)
              | Inr table \<Rightarrow> Inr table)
         | _ \<Rightarrow> Inr []))"

section \<open>Compilation\<close>

definition ts_host_module_fail ::
  "('x, 'b) salts \<Rightarrow> 'p arena \<Rightarrow> ctx_store \<Rightarrow> nat \<Rightarrow> 'p result option \<Rightarrow> status \<Rightarrow> sview \<Rightarrow> bytes \<Rightarrow>
   u32 \<Rightarrow> u32 \<Rightarrow> status \<times> 'p result option" where
  "ts_host_module_fail E A C thread r status module_name message line column =
     (status,
      snd (ts_host_result_set_error E A C thread r
             (Some (error_report status 0 PHASE_COMPILE line column 1 module_name (NullBuf 0) message))
             MODULE_STRING_LIMIT))"

text \<open>
  What compilation asks of the rest of the program and of the allocator: the parser, with the error
  code and message it leaves in the context, the functions visible in the context's environment, the
  semantic validation, the lowering to an artifact, and the outcomes of the allocations.
\<close>

record 'art toolchain =
  tc_calloc :: bool
  tc_dup_source :: bool
  tc_dup_name :: bool
  tc_parse :: "bool \<Rightarrow> bytes \<Rightarrow> (error_code \<times> bytes) + exprtk_node"
  tc_vec_init :: stl_status
  tc_vec :: "nat \<Rightarrow> bool \<times> stl_status"
  tc_malloc :: "nat \<Rightarrow> bool"
  tc_ctx_funcs :: func_chain
  tc_validate :: "exprtk_node \<Rightarrow> func_chain \<Rightarrow> int"
  tc_lower :: "exprtk_node \<Rightarrow> export_entry list \<Rightarrow> error_code + 'art"

text \<open>The checks before anything is allocated: the refusal, its module name and its message.\<close>

definition compile_arguments ::
  "(bytes \<Rightarrow> bool) \<Rightarrow> host_ctx \<Rightarrow> sview \<Rightarrow> module_options option \<Rightarrow> bool \<Rightarrow> (status \<times> sview \<times> bytes) option"
  where
  "compile_arguments utf8 x source options has_out =
     (if \<not> has_out then Some (STATUS_INVALID_ARGUMENT, NullBuf 0, ''module output is required'')
      else if closing x then Some (STATUS_INVALID_STATE, NullBuf 0, ''context is closing'')
      else if \<not> ts_host_options_valid options \<or> buf_broken source
      then Some (STATUS_INVALID_ARGUMENT, NullBuf 0, ''invalid module compile arguments'')
      else
        let m = the options; name = mo_module_name m in
        if buf_size source > mo_max_source_bytes m
        then Some (STATUS_LIMIT_EXCEEDED, name, ''source byte limit exceeded'')
        else if buf_size source = 0 \<or> CHR 0x00 \<in> set (buf_elems source)
        then Some (STATUS_VALIDATION_ERROR, name, ''source must be nonempty and NUL-free'')
        else if \<not> utf8 (buf_elems source) \<or> buf_broken name \<or>
                (buf_size name \<noteq> 0 \<and> (CHR 0x00 \<in> set (buf_elems name) \<or> \<not> utf8 (buf_elems name)))
        then Some (STATUS_INVALID_UTF8, name, ''module text is not valid UTF-8'')
        else if buf_size name > mo_max_string_bytes m
        then Some (STATUS_LIMIT_EXCEEDED, name, ''module name byte limit exceeded'')
        else None)"

text \<open>Parsing, the limits on the tree and the export table: the status and the position, or the result.\<close>

definition compile_front ::
  "(bytes \<Rightarrow> bool) \<Rightarrow> 'art toolchain \<Rightarrow> bool \<Rightarrow> bytes \<Rightarrow> module_options \<Rightarrow>
   (status \<times> u32 \<times> u32) + exprtk_node \<times> export_entry list" where
  "compile_front utf8 T force_parse_oom source m =
     (if \<not> tc_dup_source T \<or> \<not> tc_dup_name T then Inl (STATUS_OUT_OF_MEMORY, 0, 0)
      else
        (case tc_parse T force_parse_oom source of
           Inl (code, msg) \<Rightarrow>
             if code = ERROR_OOM then Inl (STATUS_OUT_OF_MEMORY, 0, 0)
             else Inl (STATUS_PARSE_ERROR, ts_host_parse_span (Some msg) (Some source))
         | Inr ast \<Rightarrow>
             if ts_host_ast_usage m (Some ast)
                  \<lparr>au_nodes = 0, au_imports = 0, au_string_bytes = buf_size (mo_module_name m)\<rparr> = None
             then Inl (STATUS_LIMIT_EXCEEDED, 0, 0)
             else
               (case ts_host_scan_exports utf8 (tc_vec_init T) (tc_vec T) m (Some ast) of
                  Inl (s, None) \<Rightarrow> Inl (s, 0, 0)
                | Inl (s, Some node) \<Rightarrow> Inl (s, u32_of_pos (node_line node), u32_of_pos (node_column node))
                | Inr exports \<Rightarrow> Inr (ast, exports))))"

text \<open>Binding the host functions to a validation environment, validation and lowering.\<close>

definition compile_back ::
  "'art toolchain \<Rightarrow> ctx_store \<Rightarrow> nat \<Rightarrow> addr \<Rightarrow> exprtk_node \<Rightarrow> export_entry list \<Rightarrow> status + 'art" where
  "compile_back T C thread c ast exports =
     (case ts_host_registry_bind_runtime (tc_malloc T) C thread (Some c) (Some ([] # tc_ctx_funcs T)) of
        (s, validation_env) \<Rightarrow>
          if s \<noteq> STATUS_OK then Inl s
          else if tc_validate T ast (the validation_env) \<noteq> 0 then Inl STATUS_VALIDATION_ERROR
          else
            (case tc_lower T ast exports of
               Inl code \<Rightarrow>
                 Inl (if code = ERROR_OOM then STATUS_OUT_OF_MEMORY
                      else STATUS_UNSUPPORTED_BACKEND_SEMANTIC)
             | Inr artifact \<Rightarrow> Inr artifact))"

definition compile_message :: "status \<Rightarrow> bytes" where
  "compile_message s =
     (if s = STATUS_PARSE_ERROR then ''module parse failed''
      else if s = STATUS_LIMIT_EXCEEDED then ''module compile limit exceeded''
      else ''module validation or lowering failed'')"

definition ts_host_module_compile_impl ::
  "('x, 'b) salts \<Rightarrow> 'p arena \<Rightarrow> 'art toolchain \<Rightarrow> ctx_store \<Rightarrow> nat \<Rightarrow> addr option \<Rightarrow> sview \<Rightarrow>
   module_options option \<Rightarrow> 'p result option \<Rightarrow> bool \<Rightarrow> bool \<Rightarrow>
   status \<times> ctx_store \<times> 'p result option \<times> 'art module option" where
  "ts_host_module_compile_impl E A T C thread ctx source options r has_out force_parse_oom =
     (if ctx = None then (STATUS_INVALID_ARGUMENT, C, r, None)
      else
        (case ts_host_registry_begin_api A C thread ctx r of
           (s, r) \<Rightarrow>
             if s \<noteq> STATUS_OK then (s, C, r, None)
             else
               let c = the ctx;
                   failed = (\<lambda>C s name msg line column.
                     case ts_host_module_fail E A C thread r s name msg line column of
                       (s, r) \<Rightarrow> (s, C, r, None))
               in
               (case compile_arguments (utf8_valid E) (C c) source options has_out of
                  Some (s, name, msg) \<Rightarrow> failed C s name msg 0 0
                | None \<Rightarrow>
                    let m = the options; name = mo_module_name m in
                    if \<not> tc_calloc T then failed C STATUS_OUT_OF_MEMORY name ''module allocation failed'' 0 0
                    else
                      (case compile_front (utf8_valid E) T force_parse_oom (buf_elems source) m of
                         Inl (s, line, column) \<Rightarrow> failed C s name (compile_message s) line column
                       | Inr (ast, exports) \<Rightarrow>
                           (case ts_host_registry_acquire_module C thread ctx of
                              (s, C1) \<Rightarrow>
                                if s \<noteq> STATUS_OK then failed C1 s name (compile_message s) 0 0
                                else
                                  (case compile_back T C1 thread c ast exports of
                                     Inl s \<Rightarrow>
                                       failed (snd (ts_host_registry_release_module C1 thread ctx)) s
                                         name (compile_message s) 0 0
                                   | Inr artifact \<Rightarrow>
                                       (STATUS_OK, ts_context_retain C1 c, r,
                                        Some \<lparr>m_ctx = c, m_source = buf_elems source,
                                              m_module_name = buf_elems name, m_ast = ast,
                                              m_exports = exports, m_artifact = artifact,
                                              m_parse_count = 1, m_lower_count = 1, m_ref_count = 1,
                                              m_accepting_instances = True, m_freed = False\<rparr>)))))))"

definition turbo_script_module_compile ::
  "('x, 'b) salts \<Rightarrow> 'p arena \<Rightarrow> 'art toolchain \<Rightarrow> ctx_store \<Rightarrow> nat \<Rightarrow> addr option \<Rightarrow> sview \<Rightarrow>
   module_options option \<Rightarrow> 'p result option \<Rightarrow> bool \<Rightarrow>
   status \<times> ctx_store \<times> 'p result option \<times> 'art module option" where
  "turbo_script_module_compile E A T C thread ctx source options r has_out =
     ts_host_module_compile_impl E A T C thread ctx source options r has_out False"

definition ts_host_module_compile_test_parse_oom ::
  "('x, 'b) salts \<Rightarrow> 'p arena \<Rightarrow> 'art toolchain \<Rightarrow> ctx_store \<Rightarrow> nat \<Rightarrow> addr option \<Rightarrow> sview \<Rightarrow>
   module_options option \<Rightarrow> 'p result option \<Rightarrow> bool \<Rightarrow>
   status \<times> ctx_store \<times> 'p result option \<times> 'art module option" where
  "ts_host_module_compile_test_parse_oom E A T C thread ctx source options r has_out =
     ts_host_module_compile_impl E A T C thread ctx source options r has_out True"

section \<open>References\<close>

text \<open>\<open>None\<close> is \<^verbatim>\<open>abort\<close>.\<close>

definition ts_host_module_retain :: "'art module_store \<Rightarrow> addr \<Rightarrow> 'art module_store option" where
  "ts_host_module_retain M a =
     (if m_ref_count (M a) = SIZE_MAX then None
      else Some (M(a := (M a)\<lparr>m_ref_count := m_ref_count (M a) + 1\<rparr>)))"

definition ts_host_module_release ::
  "nat \<Rightarrow> ctx_store \<Rightarrow> 'art module_store \<Rightarrow> addr \<Rightarrow> (ctx_store \<times> 'art module_store) option" where
  "ts_host_module_release thread C M a =
     (if m_ref_count (M a) = 0 then None
      else
        let M1 = M(a := (M a)\<lparr>m_ref_count := m_ref_count (M a) - 1\<rparr>) in
        if m_ref_count (M1 a) \<noteq> 0 then Some (C, M1)
        else
          (case ts_host_registry_release_module C thread (Some (m_ctx (M a))) of
             (s, C1) \<Rightarrow>
               if s \<noteq> STATUS_OK then None
               else Some (ts_context_release C1 (m_ctx (M a)), M1(a := (M1 a)\<lparr>m_freed := True\<rparr>))))"

definition turbo_script_module_destroy ::
  "'p arena \<Rightarrow> nat \<Rightarrow> ctx_store \<Rightarrow> 'art module_store \<Rightarrow> addr option \<Rightarrow> 'p result option \<Rightarrow>
   (status \<times> ctx_store \<times> 'art module_store \<times> 'p result option) option" where
  "turbo_script_module_destroy A thread C M module r =
     (case module of
        None \<Rightarrow> Some (STATUS_INVALID_ARGUMENT, C, M, r)
      | Some a \<Rightarrow>
          (case ts_host_registry_begin_api A C thread (Some (m_ctx (M a))) r of
             (s, r) \<Rightarrow>
               if s \<noteq> STATUS_OK then Some (s, C, M, r)
               else if \<not> m_accepting_instances (M a) then Some (STATUS_INVALID_STATE, C, M, r)
               else
                 (case ts_host_module_release thread C (M(a := (M a)\<lparr>m_accepting_instances := False\<rparr>)) a of
                    None \<Rightarrow> None
                  | Some (C', M') \<Rightarrow> Some (STATUS_OK, C', M', r))))"

section \<open>Reading a module\<close>

definition ts_host_module_export_count :: "'art module option \<Rightarrow> size_t" where
  "ts_host_module_export_count m = (case m of Some x \<Rightarrow> of_nat (length (m_exports x)) | None \<Rightarrow> 0)"

definition ts_host_module_entry :: "'art module option \<Rightarrow> size_t \<Rightarrow> export_entry option" where
  "ts_host_module_entry m index =
     (case m of
        Some x \<Rightarrow> if unat index < length (m_exports x) then Some (m_exports x ! unat index) else None
      | None \<Rightarrow> None)"

definition ts_host_module_export_name :: "'art module option \<Rightarrow> size_t \<Rightarrow> bytes option" where
  "ts_host_module_export_name m index = map_option ex_name (ts_host_module_entry m index)"

definition ts_host_module_export_arity :: "'art module option \<Rightarrow> size_t \<Rightarrow> u32" where
  "ts_host_module_export_arity m index =
     (case ts_host_module_entry m index of Some e \<Rightarrow> ex_arity e | None \<Rightarrow> 4294967295)"

definition ts_host_module_parse_count :: "'art module option \<Rightarrow> size_t" where
  "ts_host_module_parse_count m = (case m of Some x \<Rightarrow> m_parse_count x | None \<Rightarrow> 0)"

definition ts_host_module_lower_count :: "'art module option \<Rightarrow> size_t" where
  "ts_host_module_lower_count m = (case m of Some x \<Rightarrow> m_lower_count x | None \<Rightarrow> 0)"

definition ts_host_module_source :: "'art module option \<Rightarrow> bytes option" where
  "ts_host_module_source m = map_option m_source m"

definition ts_host_module_name :: "'art module option \<Rightarrow> bytes option" where
  "ts_host_module_name m = map_option m_module_name m"

section \<open>The export table\<close>

text \<open>What an entry of the table says about the tree it was made from.\<close>

definition entry_ok :: "(bytes \<Rightarrow> bool) \<Rightarrow> exprtk_node \<Rightarrow> export_entry \<Rightarrow> bool" where
  "entry_ok utf8 root e \<longleftrightarrow>
     ex_name e \<noteq> [] \<and> CHR 0x00 \<notin> set (ex_name e) \<and> utf8 (ex_name e) \<and>
     ts_host_find_top_function (Some root) (ex_name e) = Some (ex_function_node e) \<and>
     unat (ex_arity e) = length (function_params (ex_function_node e)) \<and> unat (ex_arity e) \<le> 16 \<and>
     list_all is_variable_node (function_params (ex_function_node e))"

definition table_ok :: "(bytes \<Rightarrow> bool) \<Rightarrow> module_options \<Rightarrow> exprtk_node \<Rightarrow> export_entry list \<Rightarrow> bool" where
  "table_ok utf8 m root table \<longleftrightarrow>
     list_all (entry_ok utf8 root) table \<and> distinct (map ex_name table) \<and>
     length table \<le> unat (mo_max_exports m)"

text \<open>The statements that declare an export, and the name in such a statement.\<close>

definition export_statements :: "exprtk_node option list \<Rightarrow> exprtk_node list" where
  "export_statements ss = map the (filter (\<lambda>s. export_call_args s \<noteq> None) ss)"

definition declared_name :: "exprtk_node \<Rightarrow> bytes option" where
  "declared_name s =
     (case export_call_args (Some s) of
        Some [Some (Node l c (NODE_STRING (Buf name)))] \<Rightarrow> Some name
      | _ \<Rightarrow> None)"

lemma scan_export_ok:
  assumes "ts_host_scan_export utf8 mem m root table node args = Inr e"
  shows "entry_ok utf8 root e \<and> ex_name e \<notin> ex_name ` set table \<and> (of_nat (length table) :: size_t) < mo_max_exports m \<and>
    ex_declaration_node e = node \<and> (\<exists>l c. args = [Some (Node l c (NODE_STRING (Buf (ex_name e))))])"
proof -
  from assms obtain l c name where args: "args = [Some (Node l c (NODE_STRING (Buf name)))]"
    unfolding ts_host_scan_export_def
    by (auto split: list.splits option.splits exprtk_node.splits node_data.splits buf.splits)
  have "unat (of_nat n :: u32) = n" if "n \<le> 16" for n using that by (simp add: unat_of_nat)
  with assms show ?thesis
    by (auto simp: args ts_host_scan_export_def entry_ok_def list_ex_iff not_le split: if_splits option.splits)
qed

lemma scan_statements_ok:
  "scan_statements utf8 mem m root table ss = Inr table' \<Longrightarrow> table_ok utf8 m root table \<Longrightarrow>
   \<exists>new. table' = table @ new \<and> table_ok utf8 m root table' \<and>
     map ex_declaration_node new = export_statements ss \<and> map (\<lambda>e. Some (ex_name e)) new = map declared_name (export_statements ss)"
proof (induction utf8 mem m root table ss arbitrary: table' rule: scan_statements.induct)
  case (1 utf8 mem m root table)
  then show ?case by (simp add: export_statements_def)
next
  case (2 utf8 mem m root table s ss)
  show ?case
  proof (cases "export_call_args s")
    case None
    with 2 show ?thesis by (simp add: export_statements_def)
  next
    case (Some args)
    then obtain x where s: "s = Some x" by (cases s) (auto simp: export_call_args_def)
    from "2.prems"(1) Some obtain e where e: "ts_host_scan_export utf8 (mem (length table)) m root table (the s) args = Inr e"
      and rest: "scan_statements utf8 mem m root (table @ [e]) ss = Inr table'" by (auto split: sum.splits)
    note ok = scan_export_ok [OF e]
    have len: "length table < unat (mo_max_exports m)"
      using ok "2.prems"(2) unat_lt_2_64 [of "mo_max_exports m"]
      by (auto simp: table_ok_def word_less_nat_alt unat_of_nat)
    with ok "2.prems"(2) have "table_ok utf8 m root (table @ [e])" by (auto simp: table_ok_def)
    from "2.IH"(2) [OF Some e rest this] obtain new where new: "table' = (table @ [e]) @ new" "table_ok utf8 m root table'"
      "map ex_declaration_node new = export_statements ss" "map (\<lambda>e. Some (ex_name e)) new = map declared_name (export_statements ss)" by blast
    have "declared_name x = Some (ex_name e)" "ex_declaration_node e = x"
      using ok Some s by (auto simp: declared_name_def)
    with new Some s show ?thesis by (intro exI [of _ "e # new"]) (simp add: export_statements_def)
  qed
qed

fun block_statements :: "exprtk_node \<Rightarrow> exprtk_node option list" where
  "block_statements (Node l c (NODE_BLOCK ss)) = ss"
| "block_statements n = []"

lemma scan_exports_ok:
  assumes "ts_host_scan_exports utf8 init mem m (Some root) = Inr table"
  shows "table_ok utf8 m root table \<and> map ex_declaration_node table = export_statements (block_statements root) \<and>
    map (\<lambda>e. Some (ex_name e)) table = map declared_name (export_statements (block_statements root))"
proof (cases "\<exists>l c ss. root = Node l c (NODE_BLOCK ss)")
  case True
  then obtain l c ss where root: "root = Node l c (NODE_BLOCK ss)" by blast
  with assms have "scan_statements utf8 mem m root [] ss = Inr table"
    by (auto simp: ts_host_scan_exports_def split: if_splits sum.splits)
  from scan_statements_ok [OF this] show ?thesis by (auto simp: root table_ok_def)
next
  case False
  then have "block_statements root = []" by (cases root rule: block_statements.cases) auto
  moreover have "table = []"
    using assms False by (auto simp: ts_host_scan_exports_def split: if_splits exprtk_node.splits node_data.splits)
  ultimately show ?thesis by (simp add: table_ok_def export_statements_def)
qed

text \<open>
  the export table is what the module declares.  When \<^verbatim>\<open>ts_host_scan_exports\<close> succeeds, the
  table has one entry per top-level \<^verbatim>\<open>export("name")\<close> statement, in the order of the statements; the
  names are distinct, nonempty, without NUL and valid UTF-8, there are at most \<open>max_exports\<close> of them,
  and each entry refers to the first top-level function of that name, whose parameters are at most 16
  plain variables, their number being the arity of the entry.
\<close>

theorem export_table_matches_source:
  assumes "ts_host_scan_exports utf8 init mem m (Some root) = Inr table"
  shows "map ex_declaration_node table = export_statements (block_statements root) \<and>
    map (\<lambda>e. Some (ex_name e)) table = map declared_name (export_statements (block_statements root)) \<and>
    distinct (map ex_name table) \<and> length table \<le> unat (mo_max_exports m) \<and>
    list_all (entry_ok utf8 root) table"
  using scan_exports_ok [OF assms] by (simp add: table_ok_def)

lemma example_scan:
  "\<exists>table. ts_host_scan_exports ascii_valid STL_OK (\<lambda>i. (True, STL_OK)) turbo_script_module_options_init (Some example_ast) = Inr table"
  by (simp add: ts_host_scan_exports_def example_ast_def export_call_args_def ts_host_scan_export_def ascii_valid_def
      ts_host_find_top_function_def function_params_def is_variable_node_def turbo_script_module_options_init_def MODULE_EXPORT_LIMIT_def)

theorem export_table_matches_source_witness:
  "\<exists>table. ts_host_scan_exports ascii_valid STL_OK (\<lambda>i. (True, STL_OK)) turbo_script_module_options_init (Some example_ast) = Inr table \<and>
     map (\<lambda>e. Some (ex_name e)) table = [Some ''main'']"
proof -
  from example_scan obtain table where run:
    "ts_host_scan_exports ascii_valid STL_OK (\<lambda>i. (True, STL_OK)) turbo_script_module_options_init (Some example_ast) = Inr table" by blast
  from export_table_matches_source [OF run] run show ?thesis
    by (simp add: example_ast_def export_statements_def export_call_args_def declared_name_def)
qed

section \<open>Compilation succeeds as a whole or leaves no trace\<close>

lemma acquire_cases:
  assumes "ts_host_registry_acquire_module C thread (Some c) = (s, C')"
  obtains (acquired) "s = STATUS_OK" "owner_thread_token (C c) = thread" "active_host_modules (C c) \<noteq> SIZE_MAX"
      "C' = C(c := (C c)\<lparr>active_host_modules := active_host_modules (C c) + 1\<rparr>)"
    | (refused) "s \<noteq> STATUS_OK" "C' = C"
  using assms by (auto simp: ts_host_registry_acquire_module_def ts_host_check_owner_thread_def check_thread_ok
      Let_def split: if_splits)

lemma release_acquired:
  assumes "owner_thread_token (C c) = thread" and "active_host_modules (C c) \<noteq> SIZE_MAX"
  shows "ts_host_registry_release_module (C(c := (C c)\<lparr>active_host_modules := active_host_modules (C c) + 1\<rparr>))
    thread (Some c) = (STATUS_OK, C)"
proof -
  have "active_host_modules (C c) + 1 \<noteq> 0"
    using unat_size_succ [OF assms(2)] by (auto simp: word_unat_eq_iff)
  then show ?thesis
    using assms(1) by (simp add: ts_host_registry_release_module_def ts_host_check_owner_thread_def check_thread_ok)
qed

lemma set_error_status: "fst (ts_host_module_fail E A C thread r s n msg l c) = s"
  by (simp add: ts_host_module_fail_def)

text \<open>What a successful compilation has checked and made.\<close>

definition compiled ::
  "('x, 'b) salts \<Rightarrow> 'art toolchain \<Rightarrow> ctx_store \<Rightarrow> nat \<Rightarrow> addr \<Rightarrow> sview \<Rightarrow> module_options \<Rightarrow> bool \<Rightarrow> 'art module \<Rightarrow> bool" where
  "compiled E T C thread c source m force mo \<longleftrightarrow>
     m_ctx mo = c \<and> m_source mo = buf_elems source \<and> m_ref_count mo = 1 \<and> m_accepting_instances mo \<and> \<not> m_freed mo \<and>
     tc_parse T force (m_source mo) = Inr (m_ast mo) \<and>
     ts_host_ast_usage m (Some (m_ast mo))
       \<lparr>au_nodes = 0, au_imports = 0, au_string_bytes = buf_size (mo_module_name m)\<rparr> \<noteq> None \<and>
     table_ok (utf8_valid E) m (m_ast mo) (m_exports mo) \<and>
     tc_lower T (m_ast mo) (m_exports mo) = Inr (m_artifact mo)"

lemma compile_front_ok:
  assumes "compile_front utf8 T force src m = Inr (ast, exports)"
  shows "tc_parse T force src = Inr ast \<and>
    ts_host_ast_usage m (Some ast) \<lparr>au_nodes = 0, au_imports = 0, au_string_bytes = buf_size (mo_module_name m)\<rparr> \<noteq> None \<and>
    table_ok utf8 m ast exports"
proof -
  from assms have "tc_parse T force src = Inr ast \<and>
    ts_host_ast_usage m (Some ast) \<lparr>au_nodes = 0, au_imports = 0, au_string_bytes = buf_size (mo_module_name m)\<rparr> \<noteq> None \<and>
    ts_host_scan_exports utf8 (tc_vec_init T) (tc_vec T) m (Some ast) = Inr exports"
    by (auto simp: compile_front_def split: if_splits sum.splits option.splits)
  with scan_exports_ok [of utf8 "tc_vec_init T" "tc_vec T" m ast exports] show ?thesis by blast
qed

lemma compile_front_failed:
  assumes "compile_front utf8 T force src m = Inl (s, l, c)"
  shows "s \<noteq> STATUS_OK"
proof -
  have vec: "ts_host_vec_status t = STATUS_OK \<longleftrightarrow> t = STL_OK" for t by (cases t) (simp_all add: ts_host_vec_status_def)
  have one: "e \<noteq> STATUS_OK" if "ts_host_scan_export utf8 mem m root table node args = Inl e" for mem root table node args e
    using that vec unfolding ts_host_scan_export_def
    by (auto split: list.splits option.splits exprtk_node.splits node_data.splits buf.splits if_splits)
  have stmts: "e \<noteq> STATUS_OK" if "scan_statements utf8 mem m root table ss = Inl (e, n)" for mem root table ss e n
    using that one by (induction utf8 mem m root table ss rule: scan_statements.induct) (auto split: option.splits sum.splits)
  have "e \<noteq> STATUS_OK" if "ts_host_scan_exports utf8 init mem m root = Inl (e, n)" for init mem root e n
    using that vec by (auto dest: stmts simp: ts_host_scan_exports_def split: if_splits option.splits exprtk_node.splits node_data.splits sum.splits)
  with assms show ?thesis by (fastforce simp: compile_front_def split: if_splits sum.splits option.splits)
qed

lemma compile_back_failed: "compile_back T C thread c ast exports = Inl s \<Longrightarrow> s \<noteq> STATUS_OK"
  by (auto simp: compile_back_def split: prod.splits if_splits sum.splits)

lemma compile_arguments_failed: "compile_arguments utf8 x source options has_out = Some (s, n, msg) \<Longrightarrow> s \<noteq> STATUS_OK"
  by (auto simp: compile_arguments_def Let_def split: if_splits)

text \<open>What a failed compilation reports: its status and the phase, at a position of the source.\<close>

definition compile_report :: "status \<Rightarrow> sview \<Rightarrow> u32 \<Rightarrow> u32 \<Rightarrow> bytes \<Rightarrow> error_info" where
  "compile_report s name line column msg = error_report s 0 PHASE_COMPILE line column 1 name (NullBuf 0) msg"

lemma begin_api_cases:
  assumes "ts_host_registry_begin_api A C thread ctx r = (s, r1)"
  obtains (ready) x where "s = STATUS_OK" "r1 = Some x" "\<not> has_value x" "\<not> has_error x"
      "ts_host_result_check_thread C thread (Some x) = STATUS_OK"
    | (refused) "s \<noteq> STATUS_OK" "r1 = r"
proof (cases "s = STATUS_OK")
  case True
  with assms have "ts_host_result_check_thread C thread r = STATUS_OK"
    by (auto simp: ts_host_registry_begin_api_def ts_host_result_check_context_def Let_def split: if_splits)
  then obtain y where y: "r = Some y" "owner_thread_token (C (res_ctx y)) = thread" by (auto simp: result_check_ok)
  with True assms have "r1 = Some (ts_host_result_clear_unchecked A y)"
    by (auto simp: ts_host_registry_begin_api_def ts_host_result_reset_checked_def Let_def split: if_splits)
  with True y show ?thesis by (intro ready [of "ts_host_result_clear_unchecked A y"]) (auto simp: result_check_ok)
next
  case False
  with assms refused show ?thesis
    by (auto simp: ts_host_registry_begin_api_def ts_host_result_reset_checked_def Let_def split: if_splits)
qed

definition reported_failure ::
  "('x, 'b) salts \<Rightarrow> 'p arena \<Rightarrow> ctx_store \<Rightarrow> nat \<Rightarrow> 'p result option \<Rightarrow> module_options option \<Rightarrow> status \<Rightarrow>
   'p result option \<Rightarrow> bool" where
  "reported_failure E A C thread r1 options s r' \<longleftrightarrow>
     (\<exists>name line column msg.
        (name = NullBuf 0 \<or> (\<exists>m. options = Some m \<and> name = mo_module_name m)) \<and>
        r' = snd (ts_host_result_set_error E A C thread r1
                    (Some (compile_report s name line column msg)) MODULE_STRING_LIMIT))"

lemma failure_reported:
  assumes "(case ts_host_module_fail E A C thread r1 s0 name msg line column of (s, r) \<Rightarrow> (s, D, r, None)) = (s, C', r', mo)"
    and "name = NullBuf 0 \<or> (\<exists>m. options = Some m \<and> name = mo_module_name m)"
  shows "s = s0" and "C' = D" and "mo = None" and "reported_failure E A C thread r1 options s r'"
  using assms unfolding ts_host_module_fail_def reported_failure_def compile_report_def by auto

lemma compile_arguments_name:
  "compile_arguments utf8 x source options has_out = Some (s, name, msg) \<Longrightarrow>
   name = NullBuf 0 \<or> (\<exists>m. options = Some m \<and> name = mo_module_name m)"
  by (cases options) (auto simp: compile_arguments_def ts_host_options_valid_def Let_def split: if_splits)

lemma compile_cases:
  assumes run: "ts_host_module_compile_impl E A T C thread ctx source options r has_out force = (s, C', r', mo)"
  obtains (ok) c m x where "s = STATUS_OK" "ctx = Some c" "options = Some m" "mo = Some x"
      "compiled E T C thread c source m force x" "compile_arguments (utf8_valid E) (C c) source options has_out = None"
      "C' = C(c := (C c)\<lparr>active_host_modules := active_host_modules (C c) + 1, ref_count := ref_count (C c) + 1\<rparr>)"
      "ts_host_registry_begin_api A C thread ctx r = (STATUS_OK, r')"
    | (failed) "s \<noteq> STATUS_OK" "C' = C" "mo = None"
      "\<And>s1 r1. ctx \<noteq> None \<Longrightarrow> ts_host_registry_begin_api A C thread ctx r = (s1, r1) \<Longrightarrow>
         if s1 = STATUS_OK then reported_failure E A C thread r1 options s r' else s = s1 \<and> r' = r"
proof (cases ctx)
  case None
  with run failed show ?thesis by (simp add: ts_host_module_compile_impl_def)
next
  case (Some c)
  note ctx = Some
  obtain s1 r1 where b: "ts_host_registry_begin_api A C thread (Some c) r = (s1, r1)" by fastforce
  have report: thesis
    if "(case ts_host_module_fail E A C thread r1 s0 name msg line column of (s, r) \<Rightarrow> (s, C, r, None)) = (s, C', r', mo)"
      and "name = NullBuf 0 \<or> (\<exists>m. options = Some m \<and> name = mo_module_name m)"
      and "s0 \<noteq> STATUS_OK" "s1 = STATUS_OK" for s0 name msg line column
    using failure_reported [OF that(1,2)] that(3,4) b ctx by (intro failed) auto
  show ?thesis
  proof (cases "s1 = STATUS_OK \<and> compile_arguments (utf8_valid E) (C c) source options has_out = None \<and> tc_calloc T")
    case True
    then have args: "compile_arguments (utf8_valid E) (C c) source options has_out = None" by blast
    then obtain m where m: "options = Some m"
      by (cases options) (auto simp: compile_arguments_def ts_host_options_valid_def split: if_splits)
    show ?thesis
    proof (cases "compile_front (utf8_valid E) T force (buf_elems source) m")
      case (Inl e)
      obtain s2 l col where e: "e = (s2, l, col)" by (cases e)
      with compile_front_failed Inl have "s2 \<noteq> STATUS_OK" by blast
      moreover have "(case ts_host_module_fail E A C thread r1 s2 (mo_module_name m) (compile_message s2) l col of
          (s, r) \<Rightarrow> (s, C, r, None)) = (s, C', r', mo)"
        using run b True m Inl e Some by (simp add: ts_host_module_compile_impl_def)
      ultimately show ?thesis using True m report by blast
    next
      case (Inr y)
      obtain ast exports where y: "y = (ast, exports)" by (cases y)
      note front = compile_front_ok [OF Inr [unfolded y]]
      obtain s2 C1 where acq: "ts_host_registry_acquire_module C thread (Some c) = (s2, C1)" by fastforce
      then show ?thesis
      proof (cases rule: acquire_cases)
        case acquired
        show ?thesis
        proof (cases "compile_back T C1 thread c ast exports")
          case (Inl s3)
          with compile_back_failed have "s3 \<noteq> STATUS_OK" by blast
          moreover have "(case ts_host_module_fail E A C thread r1 s3 (mo_module_name m) (compile_message s3) 0 0 of
              (s, r) \<Rightarrow> (s, C, r, None)) = (s, C', r', mo)"
            using run b True m Inr y Inl acq acquired Some release_acquired [of C c thread, OF acquired(2,3)]
            by (simp add: ts_host_module_compile_impl_def)
          ultimately show ?thesis using True m report by blast
        next
          case art: (Inr artifact)
          then have "tc_lower T ast exports = Inr artifact"
            by (auto simp: compile_back_def split: prod.splits if_splits sum.splits)
          with front run b True m Inr y art acq acquired Some args show ?thesis
            by (intro ok [of c m "the mo"])
              (auto simp: ts_host_module_compile_impl_def compiled_def ts_context_retain_def)
        qed
      next
        case refused
        moreover have "(case ts_host_module_fail E A C thread r1 s2 (mo_module_name m) (compile_message s2) 0 0 of
            (s, r) \<Rightarrow> (s, C, r, None)) = (s, C', r', mo)"
          using run b True m Inr y acq Some refused by (simp add: ts_host_module_compile_impl_def)
        ultimately show ?thesis using True m report by blast
      qed
    qed
  next
    case False
    show ?thesis
    proof (cases "s1 = STATUS_OK")
      case True
      show ?thesis
      proof (cases "compile_arguments (utf8_valid E) (C c) source options has_out")
        case (Some q)
        obtain s2 name msg where q: "q = (s2, name, msg)" by (cases q)
        note args = Some [unfolded q]
        have "(case ts_host_module_fail E A C thread r1 s2 name msg 0 0 of
            (s, r) \<Rightarrow> (s, C, r, None)) = (s, C', r', mo)"
          using run b True args ctx by (simp add: ts_host_module_compile_impl_def)
        from report [OF this compile_arguments_name [OF args] compile_arguments_failed [OF args] True]
        show ?thesis .
      next
        case None
        then obtain m where m: "options = Some m"
          by (cases options) (auto simp: compile_arguments_def ts_host_options_valid_def split: if_splits)
        have "(case ts_host_module_fail E A C thread r1 STATUS_OUT_OF_MEMORY (mo_module_name m)
              ''module allocation failed'' 0 0 of
            (s, r) \<Rightarrow> (s, C, r, None)) = (s, C', r', mo)"
          using run b True None False ctx m by (simp add: ts_host_module_compile_impl_def)
        from report [OF this] True m show ?thesis by simp
      qed
    next
      case no: False
      with run b ctx have out: "s = s1" "C' = C" "mo = None" "r' = r1"
        by (auto simp: ts_host_module_compile_impl_def)
      have "r1 = r" by (rule begin_api_cases [OF b]) (use no in auto)
      with out b ctx no show ?thesis by (intro failed) auto
    qed
  qed
qed

text \<open>
  C5: compilation succeeds as a whole or leaves no trace but its report.  When it fails, at whatever
  stage, there is no module and the context is exactly as it was, so that the count of active modules
  and the references are not leaked.  If the call was refused because of its thread, context or result,
  the result is untouched; otherwise the result shows no value, and it shows an error report with the
  status of the failure and the compile phase, unless that report could not be stored, when it shows
  no error either.  When compilation succeeds, the context was open and has one more active module,
  which freezes its registry, and one more reference; the result is empty; the module holds the given source, the tree the
  parser made of it, which is within the limits of the options, and a well-formed export table, and
  is referenced once.
\<close>

theorem compile_all_or_nothing:
  assumes "ts_host_module_compile_impl E A T C thread (Some c) source (Some m) r has_out force = (s, C', r', mo)"
    and "ts_host_registry_begin_api A C thread (Some c) r = (s1, r1)"
  shows "if s = STATUS_OK
    then (\<exists>x. mo = Some x \<and> compiled E T C thread c source m force x) \<and> \<not> closing (C c) \<and>
      C' = C(c := (C c)\<lparr>active_host_modules := active_host_modules (C c) + 1, ref_count := ref_count (C c) + 1\<rparr>) \<and>
      result_empty r'
    else C' = C \<and> mo = None \<and>
      (if s1 \<noteq> STATUS_OK then s = s1 \<and> r' = r
       else turbo_script_result_get_value C thread r' True = (STATUS_INVALID_STATE, None) \<and>
         (\<exists>name line column msg stored.
            name \<in> {NullBuf 0, mo_module_name m} \<and>
            ts_host_result_set_error E A C thread r1 (Some (compile_report s name line column msg))
              MODULE_STRING_LIMIT = (stored, r') \<and>
            turbo_script_result_get_error C thread r' True =
              (if stored = STATUS_OK
               then (STATUS_OK, Some (owned_error (compile_report s name line column msg)))
               else (STATUS_INVALID_STATE, None))))"
  using assms(1)
proof (cases rule: compile_cases)
  case (ok c' m' x)
  with assms(2) show ?thesis
    by (auto simp: compile_arguments_def split: if_splits elim: begin_api_cases)
next
  case failed
  from assms(2) show ?thesis
  proof (cases rule: begin_api_cases)
    case (ready x)
    with failed(4) [OF _ assms(2)] obtain name line column msg where
      name: "name \<in> {NullBuf 0, mo_module_name m}" and
      r': "r' = snd (ts_host_result_set_error E A C thread (Some x)
                       (Some (compile_report s name line column msg)) MODULE_STRING_LIMIT)"
      by (auto simp: reported_failure_def)
    from r' obtain stored where "ts_host_result_set_error E A C thread (Some x)
        (Some (compile_report s name line column msg)) MODULE_STRING_LIMIT = (stored, r')"
      by (metis prod.collapse)
    note stored = this
    with name set_error_shown [OF ready(5) stored] have "\<exists>name line column msg stored.
        name \<in> {NullBuf 0, mo_module_name m} \<and>
        ts_host_result_set_error E A C thread r1 (Some (compile_report s name line column msg))
          MODULE_STRING_LIMIT = (stored, r') \<and>
        turbo_script_result_get_error C thread r' True =
          (if stored = STATUS_OK
           then (STATUS_OK, Some (owned_error (compile_report s name line column msg)))
           else (STATUS_INVALID_STATE, None))"
      unfolding ready(2) by blast
    with ready(1) failed(1-3) set_error_shown(2) [OF ready(5) stored] show ?thesis by simp
  next
    case refused
    with failed(4) [OF _ assms(2)] failed(1-3) show ?thesis by simp
  qed
qed

definition example_toolchain :: "nat toolchain" where
  "example_toolchain =
     \<lparr>tc_calloc = True, tc_dup_source = True, tc_dup_name = True, tc_parse = (\<lambda>force s. Inr example_ast),
      tc_vec_init = STL_OK, tc_vec = (\<lambda>i. (True, STL_OK)), tc_malloc = (\<lambda>i. True), tc_ctx_funcs = [],
      tc_validate = (\<lambda>ast env. 0), tc_lower = (\<lambda>ast exports. Inr 0)\<rparr>"

theorem compile_all_or_nothing_witness:
  "\<exists>C' r' mo. ts_host_module_compile_impl list_salts bump_arena example_toolchain (\<lambda>a. example_ctx) 7 (Some 1)
     (Buf ''...'') (Some turbo_script_module_options_init) (Some example_result) True False = (STATUS_OK, C', r', Some mo) \<and>
   compiled list_salts example_toolchain (\<lambda>a. example_ctx) 7 1 (Buf ''...'') turbo_script_module_options_init False mo"
proof -
  let ?run = "ts_host_module_compile_impl list_salts bump_arena example_toolchain (\<lambda>a. example_ctx) 7 (Some 1)
     (Buf ''...'') (Some turbo_script_module_options_init) (Some example_result) True False"
  let ?m = turbo_script_module_options_init
  from example_scan obtain table where scan:
    "ts_host_scan_exports ascii_valid STL_OK (\<lambda>i. (True, STL_OK)) ?m (Some example_ast) = Inr table" by blast
  have usage: "ts_host_ast_usage ?m (Some example_ast) \<lparr>au_nodes = 0, au_imports = 0, au_string_bytes = 0\<rparr> \<noteq> None"
  proof -
    let ?u = "\<lparr>au_nodes = 0, au_imports = 0, au_string_bytes = 0\<rparr>"
    have "usage_ok ?m ?u" by (simp add: usage_ok_def within_def total_imports_def total_strings_def)
    moreover have "within ?m ?u (subnodes (Some example_ast))"
      using example_subnodes by (simp add: within_def turbo_script_module_options_init_def MODULE_STRING_LIMIT_def
          MODULE_AST_LIMIT_def MODULE_IMPORT_LIMIT_def)
    ultimately show ?thesis using usage_counted(1) [of ?m ?u "Some example_ast"]
      by (auto simp: counted_def split: option.splits)
  qed
  then obtain u where u: "ts_host_ast_usage ?m (Some example_ast) \<lparr>au_nodes = 0, au_imports = 0, au_string_bytes = 0\<rparr> = Some u"
    by blast
  have "fst ?run = STATUS_OK"
    using scan u
    by (simp add: ts_host_module_compile_impl_def ts_host_registry_begin_api_def ts_host_check_owner_thread_def
        check_thread_ok example_ctx_def ts_host_result_check_context_def result_check_ok example_result_def
        ts_host_result_reset_checked_def compile_arguments_def ts_host_options_valid_def turbo_script_module_options_init_def
        MODULE_SOURCE_LIMIT_def MODULE_AST_LIMIT_def MODULE_IMPORT_LIMIT_def MODULE_EXPORT_LIMIT_def MODULE_STRING_LIMIT_def
        list_salts_def ascii_valid_def example_toolchain_def compile_front_def compile_back_def ts_host_registry_acquire_module_def
        ts_host_registry_bind_runtime_def ts_host_registry_bind_runtime_impl_def
        exprtk_env_register_funcs_checked_with_fault_def Let_def)
  then obtain C' r' mo where run: "?run = (STATUS_OK, C', r', mo)" by (metis prod.collapse)
  obtain s1 r1 where "ts_host_registry_begin_api bump_arena (\<lambda>a. example_ctx) 7 (Some 1) (Some example_result) = (s1, r1)"
    by fastforce
  from compile_all_or_nothing [OF run this] run show ?thesis by auto
qed

section \<open>The life of a module\<close>

text \<open>
  The state of a module at \<open>a\<close> that \<open>n\<close> instances hold, in a context at \<open>c\<close> that had \<open>k\<close> active
  modules and \<open>j\<close> references when the module was made.
\<close>

definition module_state ::
  "nat \<Rightarrow> addr \<Rightarrow> addr \<Rightarrow> size_t \<Rightarrow> u32 \<Rightarrow> nat \<Rightarrow> ctx_store \<Rightarrow> 'art module_store \<Rightarrow> bool" where
  "module_state thread a c k j n C M \<longleftrightarrow>
     n < 2 ^ 64 - 2 \<and> k \<noteq> 0 \<and> m_ctx (M a) = c \<and> owner_thread_token (C c) = thread \<and>
     unat (m_ref_count (M a)) = n + (if m_accepting_instances (M a) then 1 else 0) \<and>
     (m_freed (M a) \<longleftrightarrow> m_ref_count (M a) = 0) \<and>
     active_host_modules (C c) = (if m_freed (M a) then k - 1 else k) \<and>
     ref_count (C c) = (if m_freed (M a) then j - 1 else j)"

lemma retain_state:
  assumes st: "module_state thread a c k j n C M" and "\<not> m_freed (M a)" and "Suc n < 2 ^ 64 - 2"
  shows "\<exists>M'. ts_host_module_retain M a = Some M' \<and> module_state thread a c k j (Suc n) C M'"
proof -
  have "unat (m_ref_count (M a)) < 2 ^ 64 - 1" using st assms(3) by (auto simp: module_state_def split: if_splits)
  then have ne: "m_ref_count (M a) \<noteq> SIZE_MAX" by (auto simp: word_unat_eq_iff)
  have "unat (m_ref_count (M a) + 1) = unat (m_ref_count (M a)) + 1" using unat_size_succ [OF ne] by simp
  moreover from this have "m_ref_count (M a) + 1 \<noteq> 0" by (metis add_is_0 unat_0 zero_neq_one)
  ultimately show ?thesis
    using st assms(2,3) ne by (auto simp: module_state_def ts_host_module_retain_def)
qed

text \<open>Giving up one reference: \<open>n'\<close> instances and \<open>acc\<close> are what is left afterwards.\<close>

lemma release_state:
  assumes own: "m_ctx (M a) = c" "owner_thread_token (C c) = thread" "k \<noteq> 0" "n' < 2 ^ 64 - 2"
    and ref: "unat (m_ref_count (M a)) = Suc (n' + (if m_accepting_instances (M a) then 1 else 0))"
    and live: "\<not> m_freed (M a)" "active_host_modules (C c) = k" "ref_count (C c) = j"
  shows "\<exists>C' M'. ts_host_module_release thread C M a = Some (C', M') \<and> module_state thread a c k j n' C' M' \<and>
    m_accepting_instances (M' a) = m_accepting_instances (M a)"
proof -
  have nz: "m_ref_count (M a) \<noteq> 0" using ref by (auto simp: unat_eq_0 [symmetric])
  then have "unat (1 :: size_t) \<le> unat (m_ref_count (M a))" by (simp add: Suc_le_eq unat_gt_0)
  from unat_sub_le [OF this] ref
  have minus: "unat (m_ref_count (M a) - 1) = n' + (if m_accepting_instances (M a) then 1 else 0)" by simp
  show ?thesis
  proof (cases "m_ref_count (M a) = 1")
    case True
    then have left: "n' = 0" "\<not> m_accepting_instances (M a)" using ref by (auto split: if_splits)
    have "ts_host_registry_release_module C thread (Some c) =
        (STATUS_OK, C(c := (C c)\<lparr>active_host_modules := k - 1\<rparr>))"
      using own live by (simp add: ts_host_registry_release_module_def ts_host_check_owner_thread_def check_thread_ok)
    with True left own live nz show ?thesis
      by (auto simp: ts_host_module_release_def module_state_def ts_context_release_def Let_def)
  next
    case False
    then have "m_ref_count (M a) - 1 \<noteq> 0" by simp
    with nz own live minus show ?thesis
      by (auto simp: ts_host_module_release_def module_state_def Let_def)
  qed
qed

lemma release_instance_state:
  assumes "module_state thread a c k j (Suc n) C M"
  shows "\<exists>C' M'. ts_host_module_release thread C M a = Some (C', M') \<and> module_state thread a c k j n C' M'"
proof -
  have "m_ref_count (M a) \<noteq> 0" using assms by (auto simp: module_state_def unat_eq_0 [symmetric])
  with assms release_state [of M a c C thread k n j] show ?thesis by (fastforce simp: module_state_def)
qed

lemma destroy_state:
  assumes st: "module_state thread a c k j n C M" and live: "\<not> m_freed (M a)"
  shows "\<exists>s C' M' r'. turbo_script_module_destroy A thread C M (Some a) r = Some (s, C', M', r') \<and>
    module_state thread a c k j n C' M'"
proof -
  obtain s1 r1 where b: "ts_host_registry_begin_api A C thread (Some (m_ctx (M a))) r = (s1, r1)" by fastforce
  show ?thesis
  proof (cases "s1 = STATUS_OK \<and> m_accepting_instances (M a)")
    case True
    let ?M = "M(a := (M a)\<lparr>m_accepting_instances := False\<rparr>)"
    have "\<exists>C' M'. ts_host_module_release thread C ?M a = Some (C', M') \<and> module_state thread a c k j n C' M' \<and>
        m_accepting_instances (M' a) = m_accepting_instances (?M a)"
      using st live True by (intro release_state) (auto simp: module_state_def)
    with b True show ?thesis by (auto simp: turbo_script_module_destroy_def)
  next
    case False
    with b st show ?thesis by (auto simp: turbo_script_module_destroy_def)
  qed
qed

text \<open>
  The states a module can reach: instances take references to a live module and give back what they
  took, and the embedder may call destroy on it while it is live, any number of times.
\<close>

inductive module_reachable ::
  "'p arena \<Rightarrow> nat \<Rightarrow> addr \<Rightarrow> ctx_store \<Rightarrow> 'art module_store \<Rightarrow> nat \<Rightarrow> ctx_store \<Rightarrow> 'art module_store \<Rightarrow> bool"
  for A thread a C0 M0 where
  start: "module_reachable A thread a C0 M0 0 C0 M0"
| retain: "module_reachable A thread a C0 M0 n C M \<Longrightarrow> \<not> m_freed (M a) \<Longrightarrow> Suc n < 2 ^ 64 - 2 \<Longrightarrow>
    ts_host_module_retain M a = Some M' \<Longrightarrow> module_reachable A thread a C0 M0 (Suc n) C M'"
| release: "module_reachable A thread a C0 M0 (Suc n) C M \<Longrightarrow>
    ts_host_module_release thread C M a = Some (C', M') \<Longrightarrow> module_reachable A thread a C0 M0 n C' M'"
| destroy: "module_reachable A thread a C0 M0 n C M \<Longrightarrow> \<not> m_freed (M a) \<Longrightarrow>
    turbo_script_module_destroy A thread C M (Some a) r = Some (s, C', M', r') \<Longrightarrow>
    module_reachable A thread a C0 M0 n C' M'"

lemma module_reachable_state:
  assumes "module_reachable A thread a C0 M0 n C M" and "module_state thread a c k j 0 C0 M0"
  shows "module_state thread a c k j n C M"
  using assms
proof (induction rule: module_reachable.induct)
  case (retain n C M M')
  with retain_state [of thread a c k j n C M] show ?case by auto
next
  case (release n C M C' M')
  with release_instance_state [of thread a c k j n C M] show ?case by auto
next
  case (destroy n C M r s C' M' r')
  with destroy_state [of thread a c k j n C M A r] show ?case by auto
qed

text \<open>
  C31: a module lives exactly as long as somebody holds it.  In every history of a compiled module,
  it is freed exactly when it was destroyed and no instance is left; at that moment, and not before,
  the context loses one active module and one reference.  None of the \<^verbatim>\<open>abort\<close> calls is reached: an
  instance can always give back its reference, and a live module can always be retained (below the
  limit of the counter) and destroyed.
\<close>

theorem module_freed_iff_unheld:
  assumes "m_ref_count (M0 a) = 1" and "m_accepting_instances (M0 a)" and "\<not> m_freed (M0 a)"
    and "owner_thread_token (C0 (m_ctx (M0 a))) = thread" and "active_host_modules (C0 (m_ctx (M0 a))) \<noteq> 0"
    and "module_reachable A thread a C0 M0 n C M"
  shows "(m_freed (M a) \<longleftrightarrow> n = 0 \<and> \<not> m_accepting_instances (M a)) \<and>
    active_host_modules (C (m_ctx (M0 a))) = active_host_modules (C0 (m_ctx (M0 a))) - (if m_freed (M a) then 1 else 0) \<and>
    ref_count (C (m_ctx (M0 a))) = ref_count (C0 (m_ctx (M0 a))) - (if m_freed (M a) then 1 else 0) \<and>
    (0 < n \<longrightarrow> ts_host_module_release thread C M a \<noteq> None) \<and>
    (\<not> m_freed (M a) \<longrightarrow> Suc n < 2 ^ 64 - 2 \<longrightarrow> ts_host_module_retain M a \<noteq> None) \<and>
    (\<not> m_freed (M a) \<longrightarrow> turbo_script_module_destroy A thread C M (Some a) r \<noteq> None)"
proof -
  let ?c = "m_ctx (M0 a)"
  let ?k = "active_host_modules (C0 ?c)" and ?j = "ref_count (C0 ?c)"
  have "module_state thread a ?c ?k ?j 0 C0 M0" using assms by (simp add: module_state_def)
  from module_reachable_state [OF assms(6) this] have st: "module_state thread a ?c ?k ?j n C M" .
  then have "m_freed (M a) \<longleftrightarrow> n = 0 \<and> \<not> m_accepting_instances (M a)"
    by (auto simp: module_state_def unat_eq_0 [symmetric] split: if_splits)
  moreover have "active_host_modules (C ?c) = ?k - (if m_freed (M a) then 1 else 0)"
    "ref_count (C ?c) = ?j - (if m_freed (M a) then 1 else 0)"
    using st by (auto simp: module_state_def)
  moreover have "0 < n \<longrightarrow> ts_host_module_release thread C M a \<noteq> None"
    using release_instance_state [of thread a ?c ?k ?j "n - 1" C M] st by auto
  moreover have "\<not> m_freed (M a) \<longrightarrow> Suc n < 2 ^ 64 - 2 \<longrightarrow> ts_host_module_retain M a \<noteq> None"
    using retain_state [OF st] by auto
  moreover have "\<not> m_freed (M a) \<longrightarrow> turbo_script_module_destroy A thread C M (Some a) r \<noteq> None"
    using destroy_state [OF st, of A r] by auto
  ultimately show ?thesis by blast
qed

definition example_module :: "nat module" where
  "example_module =
     \<lparr>m_ctx = 1, m_source = ''...'', m_module_name = [], m_ast = example_ast, m_exports = [], m_artifact = 0,
      m_parse_count = 1, m_lower_count = 1, m_ref_count = 1, m_accepting_instances = True, m_freed = False\<rparr>"

text \<open>An instance takes a reference, the embedder destroys the module: it is still there.\<close>

theorem module_freed_iff_unheld_witness:
  "\<exists>C M. module_reachable bump_arena 7 5 (\<lambda>a. example_ctx\<lparr>active_host_modules := 1\<rparr>) (\<lambda>a. example_module) 1 C M \<and>
     \<not> m_accepting_instances (M 5) \<and> \<not> m_freed (M 5) \<and> active_host_modules (C 1) = 1"
proof -
  let ?C = "\<lambda>a :: addr. example_ctx\<lparr>active_host_modules := 1\<rparr>" and ?M = "\<lambda>a :: addr. example_module"
  have c: "ts_host_registry_begin_api bump_arena ?C 7 (Some (Suc 0)) (Some example_result) =
      (STATUS_OK, Some (ts_host_result_clear_unchecked bump_arena example_result))"
    by (simp add: ts_host_registry_begin_api_def ts_host_check_owner_thread_def check_thread_ok example_ctx_def
        ts_host_result_check_context_def result_check_ok example_result_def ts_host_result_reset_checked_def)
  have "\<exists>M1 C2 M2. module_reachable bump_arena 7 5 ?C ?M (Suc 0) ?C M1 \<and>
      module_reachable bump_arena 7 5 ?C ?M (Suc 0) C2 M2 \<and> \<not> m_accepting_instances (M2 5)"
  proof -
    let ?M1 = "?M(5 := example_module\<lparr>m_ref_count := 2\<rparr>)"
    have 1: "module_reachable bump_arena 7 5 ?C ?M (Suc 0) ?C ?M1"
      by (rule module_reachable.retain [OF module_reachable.start]) (simp_all add: example_module_def ts_host_module_retain_def)
    have "module_reachable bump_arena 7 5 ?C ?M (Suc 0) ?C (?M1(5 := example_module\<lparr>m_ref_count := 1, m_accepting_instances := False\<rparr>))"
      by (rule module_reachable.destroy [OF 1, where r = "Some example_result" and s = STATUS_OK])
        (simp_all add: turbo_script_module_destroy_def c example_module_def ts_host_module_release_def)
    with 1 show ?thesis by fastforce
  qed
  then obtain C2 M2 where r: "module_reachable bump_arena 7 5 ?C ?M (Suc 0) C2 M2" "\<not> m_accepting_instances (M2 5)" by blast
  from module_freed_iff_unheld [OF _ _ _ _ _ r(1), of None]
  have "\<not> m_freed (M2 5) \<and> active_host_modules (C2 1) = 1" by (auto simp: example_module_def example_ctx_def)
  with r show ?thesis by auto
qed

end
