(* ===== verification/Host_Budget.thy ===== *)
theory Host_Budget
  imports Exprtk_Value Native_Registration
begin

text \<open>
  The call budget of the host ABI (\<^verbatim>\<open>turbo_script/src/host/turbo_script_host_limits.c\<close>):
  the counters a call may spend, the safe points at which the interpreter and the JIT spend
  them, and the cooperative interrupt.  The lemmas show that no run of accepted safe points
  spends more than the limits of the call and of the instance allow.
\<close>

section \<open>State\<close>

text \<open>
  \<^verbatim>\<open>ts_host_call_budget_s\<close>.  The interrupt callback belongs to the embedder: it is the
  sequence of its answers, and \<open>polls\<close> counts how many have been asked for.
\<close>

record call_budget =
  steps_left :: u32
  loops_left :: u32
  callbacks_left :: u32
  recursion_left :: u32
  recursion_limit :: u32
  interrupt_step_accumulator :: u32
  stack_bytes_left :: size_t
  stack_bytes_limit :: size_t
  result_bytes_left :: size_t
  retained_bytes_limit :: size_t
  interrupt :: "(nat \<Rightarrow> bool) option"
  polls :: nat
  failure_status :: status
  failure_phase :: phase
  failure_message :: "bytes option"

text \<open>\<^verbatim>\<open>turbo_script_instance_options_t\<close> and \<^verbatim>\<open>turbo_script_call_options_t\<close>.\<close>

record instance_options =
  io_struct_size :: u32
  io_mode :: u32
  io_max_retained_bytes :: size_t
  io_max_stack_bytes :: size_t
  io_max_recursion :: u32
  io_max_globals :: u32
  io_max_value_depth :: u32
  io_reserved0 :: u32
  io_max_value_nodes :: size_t
  io_max_result_bytes :: size_t
  io_reserved :: "u64 list"

record call_options =
  co_struct_size :: u32
  co_max_recursion :: u32
  co_max_steps :: u32
  co_max_loop_iterations :: u32
  co_max_host_callbacks :: u32
  co_reserved0 :: u32
  co_max_result_bytes :: size_t
  co_interrupt :: "(nat \<Rightarrow> bool) option"
  co_reserved :: "u64 list"

text \<open>\<^verbatim>\<open>exprtk_safe_point_kind_t\<close>; any other integer reaches the default branch.\<close>

datatype safe_point_kind =
    SP_STEP | SP_LOOP | SP_CALLBACK_BEFORE | SP_CALLBACK_AFTER
  | SP_FUNCTION_ENTER | SP_FUNCTION_LEAVE | SP_RETAINED_BYTES | SP_INVALID int

text \<open>
  The functions \<^verbatim>\<open>env.safe_point\<close> points to, and the fields of a script context and of its
  environment that the host layer reads and writes.  \<open>rt_self\<close> is the address of the context
  itself, \<open>env_pool\<close> stands for the arena of the environment, \<open>env_funcs\<close> for its functions and
  those of its parents; \<open>rt_interrupt\<close> answers the polls of the interrupt callback that
  \<^verbatim>\<open>turbo_script_set_interrupt\<close> installs.
\<close>

datatype safe_point_fn = TS_HOST_EXPRTK_SAFE_POINT | TS_CONTEXT_INTERRUPT_SAFE_POINT

record runtime =
  rt_self :: addr
  active_host_budget :: "call_budget option"
  env_safe_point :: "safe_point_fn option"
  env_safe_point_user_data :: "addr option"
  env_aborted :: bool
  env_flow_throw :: bool
  env_error_msg :: bytes
  env_error_line :: int
  env_error_column :: int
  env_last_line :: int
  env_last_column :: int
  env_error_value :: exprtk_value
  env_pool :: pool
  env_funcs :: func_chain
  env_max_recursion :: u32
  env_max_nodes :: u32
  env_max_loop_iterations :: u32
  rt_error_code :: error_code
  rt_error_msg :: bytes
  rt_export_functions :: "exprtk_func list"
  rt_interrupt :: "(nat \<Rightarrow> bool) option"
  rt_polls :: nat

definition HARD_STEP_LIMIT :: u32 where "HARD_STEP_LIMIT = 100000"
definition HARD_LOOP_LIMIT :: u32 where "HARD_LOOP_LIMIT = 10000"
definition HARD_CALLBACK_LIMIT :: u32 where "HARD_CALLBACK_LIMIT = 1024"
definition HARD_RECURSION_LIMIT :: u32 where "HARD_RECURSION_LIMIT = 100"
definition INTERRUPT_STEP_INTERVAL :: u32 where "INTERRUPT_STEP_INTERVAL = 256"

lemmas hard_limits =
  HARD_STEP_LIMIT_def HARD_LOOP_LIMIT_def HARD_CALLBACK_LIMIT_def HARD_RECURSION_LIMIT_def

section \<open>Operations\<close>

definition ts_host_min_u32 :: "u32 \<Rightarrow> u32 \<Rightarrow> u32" where
  "ts_host_min_u32 lhs rhs = (if lhs < rhs then lhs else rhs)"

definition ts_host_min_size :: "size_t \<Rightarrow> size_t \<Rightarrow> size_t" where
  "ts_host_min_size lhs rhs = (if lhs < rhs then lhs else rhs)"

text \<open>The first failure wins; the result is always \<open>-1\<close>.\<close>

definition ts_host_budget_fail ::
  "call_budget \<Rightarrow> status \<Rightarrow> phase \<Rightarrow> bytes \<Rightarrow> int \<times> call_budget" where
  "ts_host_budget_fail b st ph msg =
     (-1, if failure_status b = STATUS_OK
          then b\<lparr>failure_status := st, failure_phase := ph, failure_message := Some msg\<rparr>
          else b)"

definition ts_host_budget_poll_interrupt :: "call_budget \<Rightarrow> int \<times> call_budget" where
  "ts_host_budget_poll_interrupt b =
     (case interrupt b of
        None \<Rightarrow> (0, b)
      | Some f \<Rightarrow>
          let b' = b\<lparr>polls := Suc (polls b)\<rparr> in
          if \<not> f (polls b) then (0, b')
          else ts_host_budget_fail b' STATUS_INTERRUPTED PHASE_INTERRUPT ''call interrupted'')"

text \<open>
  \<^verbatim>\<open>ts_host_budget_charge_u32\<close> receives a pointer to one of three counters of the budget; a
  meter names the counter.
\<close>

datatype meter = Steps | Loops | Callbacks

fun meter_left :: "meter \<Rightarrow> call_budget \<Rightarrow> u32" where
  "meter_left Steps b = steps_left b"
| "meter_left Loops b = loops_left b"
| "meter_left Callbacks b = callbacks_left b"

fun meter_set :: "meter \<Rightarrow> u32 \<Rightarrow> call_budget \<Rightarrow> call_budget" where
  "meter_set Steps v b = b\<lparr>steps_left := v\<rparr>"
| "meter_set Loops v b = b\<lparr>loops_left := v\<rparr>"
| "meter_set Callbacks v b = b\<lparr>callbacks_left := v\<rparr>"

definition ts_host_budget_charge_u32 ::
  "call_budget \<Rightarrow> meter \<Rightarrow> size_t \<Rightarrow> bytes \<Rightarrow> int \<times> call_budget" where
  "ts_host_budget_charge_u32 b m cost msg =
     (if unat cost > UINT32_MAX \<or> meter_left m b < ucast cost
      then ts_host_budget_fail b STATUS_LIMIT_EXCEEDED PHASE_CALL msg
      else (0, meter_set m (meter_left m b - ucast cost) b))"

definition call_budget_of :: "instance_options \<Rightarrow> call_options \<Rightarrow> call_budget" where
  "call_budget_of limits options =
     (let rec = ts_host_min_u32
                  (ts_host_min_u32 (co_max_recursion options) (io_max_recursion limits))
                  HARD_RECURSION_LIMIT
      in \<lparr> steps_left = ts_host_min_u32 (co_max_steps options) HARD_STEP_LIMIT,
           loops_left = ts_host_min_u32 (co_max_loop_iterations options) HARD_LOOP_LIMIT,
           callbacks_left = ts_host_min_u32 (co_max_host_callbacks options) HARD_CALLBACK_LIMIT,
           recursion_left = rec,
           recursion_limit = rec,
           interrupt_step_accumulator = 0,
           stack_bytes_left = io_max_stack_bytes limits,
           stack_bytes_limit = io_max_stack_bytes limits,
           result_bytes_left =
             ts_host_min_size (co_max_result_bytes options) (io_max_result_bytes limits),
           retained_bytes_limit = io_max_retained_bytes limits,
           interrupt = co_interrupt options,
           polls = 0,
           failure_status = STATUS_OK,
           failure_phase = PHASE_NONE,
           failure_message = None \<rparr>)"

text \<open>The instance is present at the only call site; the options come from the embedder.\<close>

definition ts_host_call_budget_init ::
  "instance_options \<Rightarrow> call_options option \<Rightarrow> status \<times> call_budget option" where
  "ts_host_call_budget_init limits options =
     (case options of
        None \<Rightarrow> (STATUS_INVALID_ARGUMENT, None)
      | Some opts \<Rightarrow> (STATUS_OK, Some (call_budget_of limits opts)))"

definition ts_host_call_budget_attach :: "runtime \<Rightarrow> call_budget \<Rightarrow> status \<times> runtime" where
  "ts_host_call_budget_attach rt b =
     (if active_host_budget rt \<noteq> None \<or> env_safe_point rt \<noteq> None \<or> env_safe_point_user_data rt \<noteq> None
      then (STATUS_INVALID_STATE, rt)
      else (STATUS_OK,
            rt\<lparr>active_host_budget := Some b,
               env_safe_point := Some TS_HOST_EXPRTK_SAFE_POINT,
               env_safe_point_user_data := Some (rt_self rt)\<rparr>))"

text \<open>
  Detaching compares the attached pointer with the caller's; in the model the caller detaches
  the budget it attached exactly when there is an attached one.
\<close>

definition ts_host_call_budget_detach :: "runtime \<Rightarrow> runtime" where
  "ts_host_call_budget_detach rt =
     (if active_host_budget rt = None then rt
      else rt\<lparr>env_safe_point := None, env_safe_point_user_data := None,
              active_host_budget := None\<rparr>)"

text \<open>The switch of \<^verbatim>\<open>ts_host_safe_point\<close>, on the attached budget.\<close>

fun ts_host_safe_point_switch ::
  "call_budget \<Rightarrow> safe_point_kind \<Rightarrow> size_t \<Rightarrow> int \<times> call_budget" where
  "ts_host_safe_point_switch b SP_STEP cost =
     (let (r, b1) = ts_host_budget_charge_u32 b Steps cost ''call step quota exceeded'' in
      if r \<noteq> 0 then (r, b1)
      else
        let increment = (if unat cost > UINT32_MAX then 4294967295 else ucast cost :: u32);
            acc = (if interrupt_step_accumulator b1 > 4294967295 - increment
                   then INTERRUPT_STEP_INTERVAL
                   else interrupt_step_accumulator b1 + increment);
            b2 = b1\<lparr>interrupt_step_accumulator := acc\<rparr>
        in if acc \<ge> INTERRUPT_STEP_INTERVAL
           then ts_host_budget_poll_interrupt (b2\<lparr>interrupt_step_accumulator := 0\<rparr>)
           else (0, b2))"
| "ts_host_safe_point_switch b SP_LOOP cost =
     (let (r, b1) = ts_host_budget_charge_u32 b Loops cost ''call loop quota exceeded'' in
      if r \<noteq> 0 then (r, b1) else ts_host_budget_poll_interrupt b1)"
| "ts_host_safe_point_switch b SP_CALLBACK_BEFORE cost =
     (let (r, b1) =
        ts_host_budget_charge_u32 b Callbacks cost ''call callback quota exceeded'' in
      if r \<noteq> 0 then (r, b1) else ts_host_budget_poll_interrupt b1)"
| "ts_host_safe_point_switch b SP_CALLBACK_AFTER cost = ts_host_budget_poll_interrupt b"
| "ts_host_safe_point_switch b SP_FUNCTION_ENTER cost =
     (if recursion_left b = 0
      then ts_host_budget_fail b STATUS_LIMIT_EXCEEDED PHASE_CALL
             ''call recursion quota exceeded''
      else if stack_bytes_left b < cost
      then ts_host_budget_fail b STATUS_LIMIT_EXCEEDED PHASE_CALL ''call stack quota exceeded''
      else ts_host_budget_poll_interrupt
             (b\<lparr>recursion_left := recursion_left b - 1,
                stack_bytes_left := stack_bytes_left b - cost\<rparr>))"
| "ts_host_safe_point_switch b SP_FUNCTION_LEAVE cost =
     (if cost > stack_bytes_limit b \<or> recursion_left b \<ge> recursion_limit b \<or>
         stack_bytes_left b > stack_bytes_limit b - cost
      then ts_host_budget_fail b STATUS_INVALID_STATE PHASE_CALL
             ''call frame accounting is inconsistent''
      else (0, b\<lparr>recursion_left := recursion_left b + 1,
                 stack_bytes_left := stack_bytes_left b + cost\<rparr>))"
| "ts_host_safe_point_switch b SP_RETAINED_BYTES cost =
     (if cost > retained_bytes_limit b
      then ts_host_budget_fail b STATUS_LIMIT_EXCEEDED PHASE_CALL
             ''call retained memory quota exceeded''
      else (0, b))"
| "ts_host_safe_point_switch b (SP_INVALID k) cost =
     ts_host_budget_fail b STATUS_INVALID_STATE PHASE_CALL ''invalid call safe point''"

definition ts_host_call_budget_status :: "call_budget option \<Rightarrow> status" where
  "ts_host_call_budget_status b =
     (case b of Some x \<Rightarrow> failure_status x | None \<Rightarrow> STATUS_INVALID_ARGUMENT)"

definition ts_host_call_budget_phase :: "call_budget option \<Rightarrow> phase" where
  "ts_host_call_budget_phase b = (case b of Some x \<Rightarrow> failure_phase x | None \<Rightarrow> PHASE_NONE)"

definition ts_host_call_budget_message :: "call_budget option \<Rightarrow> bytes" where
  "ts_host_call_budget_message b =
     (case b of
        Some x \<Rightarrow> (case failure_message x of Some m \<Rightarrow> m | None \<Rightarrow> ''call budget failed'')
      | None \<Rightarrow> ''call budget failed'')"

definition ts_host_safe_point ::
  "runtime \<Rightarrow> safe_point_kind \<Rightarrow> size_t \<Rightarrow> int \<times> runtime" where
  "ts_host_safe_point rt kind cost =
     (case active_host_budget rt of
        None \<Rightarrow> (0, rt)
      | Some b \<Rightarrow>
          if failure_status b \<noteq> STATUS_OK then (-1, rt)
          else
            let (r, b') = ts_host_safe_point_switch b kind cost;
                rt' = rt\<lparr>active_host_budget := Some b'\<rparr>
            in if r = 0 then (0, rt')
               else
                 let msg = snprintf_s 256
                             (case failure_message b' of Some m \<Rightarrow> m
                              | None \<Rightarrow> ''call budget failed'')
                 in (r, rt'\<lparr>env_aborted := True,
                           rt_error_code :=
                             (if failure_status b' = STATUS_INTERRUPTED
                              then ERROR_CANCELLED else ERROR_RUNTIME),
                           env_error_msg := msg,
                           rt_error_msg := snprintf_s 1024 msg\<rparr>))"

text \<open>A backend issues safe points in sequence and goes on only while they return 0.\<close>

type_synonym event = "safe_point_kind \<times> size_t"

definition safe_point_step :: "runtime \<Rightarrow> event \<Rightarrow> runtime option" where
  "safe_point_step rt e =
     (case ts_host_safe_point rt (fst e) (snd e) of (r, rt') \<Rightarrow> if r = 0 then Some rt' else None)"

definition safe_points :: "runtime \<Rightarrow> event list \<Rightarrow> runtime option" where
  "safe_points = opt_run safe_point_step"

section \<open>One safe point\<close>

text \<open>
  The invariant of an attached budget: the frame counters stay within their limits, the step
  accumulator stays below the polling interval, and a budget that has not failed carries no
  failure data.
\<close>

definition budget_ok :: "call_budget \<Rightarrow> bool" where
  "budget_ok b \<longleftrightarrow>
     recursion_left b \<le> recursion_limit b \<and> recursion_limit b \<le> HARD_RECURSION_LIMIT \<and>
     stack_bytes_left b \<le> stack_bytes_limit b \<and>
     interrupt_step_accumulator b < INTERRUPT_STEP_INTERVAL \<and>
     steps_left b \<le> HARD_STEP_LIMIT \<and> loops_left b \<le> HARD_LOOP_LIMIT \<and>
     callbacks_left b \<le> HARD_CALLBACK_LIMIT"

lemma min_u32_le: "ts_host_min_u32 a b \<le> a" "ts_host_min_u32 a b \<le> b"
  by (auto simp: ts_host_min_u32_def)

lemma min_size_le: "ts_host_min_size a b \<le> a" "ts_host_min_size a b \<le> b"
  by (auto simp: ts_host_min_size_def)

lemma call_budget_of_ok: "budget_ok (call_budget_of limits options)"
  by (simp add: budget_ok_def call_budget_of_def Let_def min_u32_le INTERRUPT_STEP_INTERVAL_def)

lemma call_budget_of_clean: "failure_status (call_budget_of limits options) = STATUS_OK"
  by (simp add: call_budget_of_def Let_def)

text \<open>Failing and polling touch the failure fields and the poll counter only.\<close>

lemma fail_fields [simp]:
  "fst (ts_host_budget_fail b st ph m) = -1"
  "budget_ok (snd (ts_host_budget_fail b st ph m)) = budget_ok b"
  by (auto simp: ts_host_budget_fail_def budget_ok_def)

lemma poll_ok [simp]: "budget_ok (snd (ts_host_budget_poll_interrupt b)) = budget_ok b"
  by (auto simp: ts_host_budget_poll_interrupt_def ts_host_budget_fail_def budget_ok_def Let_def
      split: option.split)

lemma poll_accept:
  "ts_host_budget_poll_interrupt b = (0, b') \<Longrightarrow>
     \<exists>n. b' = b\<lparr>polls := n\<rparr> \<and> n \<ge> polls b \<and> (interrupt b \<noteq> None \<longrightarrow> n > polls b)"
  by (auto simp: ts_host_budget_poll_interrupt_def ts_host_budget_fail_def Let_def
      split: option.splits if_splits intro: exI [of _ "polls b"] exI [of _ "Suc (polls b)"])

lemma poll_result: "fst (ts_host_budget_poll_interrupt b) \<in> {0, -1}"
  by (auto simp: ts_host_budget_poll_interrupt_def ts_host_budget_fail_def Let_def
      split: option.split)

text \<open>The charge is exact on natural numbers: the 32-bit subtraction never wraps.\<close>

lemma unat_ucast_cost: "unat (cost :: size_t) \<le> UINT32_MAX \<Longrightarrow> unat (ucast cost :: u32) = unat cost"
  by (simp add: unsigned_ucast_eq take_bit_eq_mod)

lemma charge_accept:
  assumes "ts_host_budget_charge_u32 b m cost msg = (0, b')"
  shows "\<exists>v. b' = meter_set m v b \<and> unat v + unat cost = unat (meter_left m b)"
proof -
  from assms have small: "unat cost \<le> UINT32_MAX" and le: "ucast cost \<le> meter_left m b"
    and b': "b' = meter_set m (meter_left m b - ucast cost) b"
    by (auto simp: ts_host_budget_charge_u32_def ts_host_budget_fail_def split: if_splits)
  from le small have "unat cost \<le> unat (meter_left m b)"
    by (simp add: word_le_nat_alt unat_ucast_cost)
  then have "unat (meter_left m b - ucast cost) + unat cost = unat (meter_left m b)"
    by (simp add: unat_sub_le unat_ucast_cost [OF small])
  with b' show ?thesis by blast
qed

lemma charge_refuse:
  "ts_host_budget_charge_u32 b m cost msg = (r, b') \<Longrightarrow> r \<noteq> 0 \<Longrightarrow>
   (r, b') = ts_host_budget_fail b STATUS_LIMIT_EXCEEDED PHASE_CALL msg"
  by (auto simp: ts_host_budget_charge_u32_def split: if_splits)

lemma meter_set_ok:
  "budget_ok b \<Longrightarrow> v \<le> meter_left m b \<Longrightarrow> budget_ok (meter_set m v b)"
  by (cases m) (auto simp: budget_ok_def)

lemma charge_ok:
  assumes "budget_ok b" and eq: "ts_host_budget_charge_u32 b m cost msg = (r, b')"
  shows "budget_ok b'"
proof (cases "r = 0")
  case True
  with charge_accept [of b m cost msg b'] eq
  obtain v where "b' = meter_set m v b" "unat v + unat cost = unat (meter_left m b)" by blast
  with assms(1) show ?thesis by (auto simp: word_le_nat_alt intro!: meter_set_ok)
next
  case False
  from charge_refuse [OF eq False] assms(1) show ?thesis by (metis fail_fields(2) snd_conv)
qed

text \<open>What an accepted safe point takes from each counter.\<close>

fun meter_of :: "safe_point_kind \<Rightarrow> meter option" where
  "meter_of SP_STEP = Some Steps"
| "meter_of SP_LOOP = Some Loops"
| "meter_of SP_CALLBACK_BEFORE = Some Callbacks"
| "meter_of _ = None"

definition meter_cost :: "meter \<Rightarrow> event \<Rightarrow> int" where
  "meter_cost m e = (if meter_of (fst e) = Some m then int (unat (snd e)) else 0)"

definition frame_cost :: "event \<Rightarrow> int" where
  "frame_cost e = (if fst e = SP_FUNCTION_ENTER then 1
                   else if fst e = SP_FUNCTION_LEAVE then -1 else 0)"

definition stack_cost :: "event \<Rightarrow> int" where
  "stack_cost e = (if fst e = SP_FUNCTION_ENTER then int (unat (snd e))
                   else if fst e = SP_FUNCTION_LEAVE then - int (unat (snd e)) else 0)"

lemma meter_left_frame [simp]:
  "meter_left m (b\<lparr>polls := n\<rparr>) = meter_left m b"
  "meter_left m (b\<lparr>interrupt_step_accumulator := v\<rparr>) = meter_left m b"
  "meter_left m (b\<lparr>recursion_left := r\<rparr>) = meter_left m b"
  "meter_left m (b\<lparr>stack_bytes_left := w\<rparr>) = meter_left m b"
  by (cases m; simp)+

lemma meter_left_set:
  "meter_left m (meter_set m' v b) = (if m = m' then v else meter_left m b)"
  by (cases m; cases m'; simp)

lemma meter_set_frame [simp]:
  "recursion_left (meter_set m v b) = recursion_left b"
  "recursion_limit (meter_set m v b) = recursion_limit b"
  "stack_bytes_left (meter_set m v b) = stack_bytes_left b"
  "stack_bytes_limit (meter_set m v b) = stack_bytes_limit b"
  "failure_status (meter_set m v b) = failure_status b"
  "interrupt_step_accumulator (meter_set m v b) = interrupt_step_accumulator b"
  "interrupt (meter_set m v b) = interrupt b"
  "polls (meter_set m v b) = polls b"
  by (cases m; simp)+

text \<open>
  The shape of an accepted safe point, by kind: which field moved, and that at most the poll
  counter and the step accumulator moved besides.
\<close>

lemma step_accept:
  assumes "ts_host_safe_point_switch b SP_STEP cost = (0, b')"
  shows "\<exists>v acc n. b' = (meter_set Steps v b)\<lparr>interrupt_step_accumulator := acc, polls := n\<rparr> \<and>
           unat v + unat cost = unat (steps_left b) \<and> acc < INTERRUPT_STEP_INTERVAL \<and>
           n \<ge> polls b \<and>
           (interrupt b \<noteq> None \<and> n = polls b \<longrightarrow>
              unat acc = unat (interrupt_step_accumulator b) + unat cost)"
proof -
  obtain r b1 where ch: "ts_host_budget_charge_u32 b Steps cost ''call step quota exceeded'' = (r, b1)"
    by (cases "ts_host_budget_charge_u32 b Steps cost ''call step quota exceeded''") auto
  with assms have r: "r = 0" by (auto simp: Let_def split: if_splits)
  from charge_accept [OF ch [unfolded r]] obtain v
    where b1: "b1 = meter_set Steps v b" and v: "unat v + unat cost = unat (steps_left b)" by auto
  have small: "unat cost \<le> UINT32_MAX"
    using v unat_lt_2_32 [of "steps_left b"] by simp
  define acc where "acc = (if interrupt_step_accumulator b > 4294967295 - (ucast cost :: u32)
     then INTERRUPT_STEP_INTERVAL else interrupt_step_accumulator b + ucast cost)"
  show ?thesis
  proof (cases "acc \<ge> INTERRUPT_STEP_INTERVAL")
    case True
    with assms small have "ts_host_budget_poll_interrupt
        (b1\<lparr>interrupt_step_accumulator := 0\<rparr>) = (0, b')"
      by (simp add: ch r Let_def b1 acc_def split: if_splits)
    from poll_accept [OF this] obtain n
      where "b' = b1\<lparr>interrupt_step_accumulator := 0, polls := n\<rparr>" "n \<ge> polls b"
        "interrupt b \<noteq> None \<longrightarrow> n > polls b" by (auto simp: b1)
    with v have "b' = (meter_set Steps v b)\<lparr>interrupt_step_accumulator := 0, polls := n\<rparr> \<and>
           unat v + unat cost = unat (steps_left b) \<and> (0 :: u32) < INTERRUPT_STEP_INTERVAL \<and>
           n \<ge> polls b \<and>
           (interrupt b \<noteq> None \<and> n = polls b \<longrightarrow>
              unat (0 :: u32) = unat (interrupt_step_accumulator b) + unat cost)"
      by (auto simp: b1 INTERRUPT_STEP_INTERVAL_def)
    then show ?thesis by blast
  next
    case False
    then have nowrap: "\<not> interrupt_step_accumulator b > 4294967295 - (ucast cost :: u32)"
      and acc: "acc = interrupt_step_accumulator b + ucast cost"
      by (auto simp: acc_def split: if_splits)
    have "unat (ucast cost :: u32) \<le> unat (4294967295 :: u32)"
      using unat_lt_2_32 [of "ucast cost"] by simp
    then have "unat (4294967295 - (ucast cost :: u32)) = 4294967295 - unat cost"
      by (simp add: unat_sub_le unat_ucast_cost [OF small])
    with nowrap small have "unat (interrupt_step_accumulator b) + unat cost < 2 ^ 32"
      by (simp add: not_less word_le_nat_alt)
    then have "unat acc = unat (interrupt_step_accumulator b) + unat cost"
      by (simp add: acc unat_word_ariths unat_ucast_cost [OF small])
    moreover from assms False small have "b' = b1\<lparr>interrupt_step_accumulator := acc\<rparr>"
      by (simp add: ch r Let_def b1 acc_def split: if_splits)
    ultimately have "b' = (meter_set Steps v b)\<lparr>interrupt_step_accumulator := acc,
             polls := polls b\<rparr> \<and>
           unat v + unat cost = unat (steps_left b) \<and> acc < INTERRUPT_STEP_INTERVAL \<and>
           polls b \<ge> polls b \<and>
           (interrupt b \<noteq> None \<and> polls b = polls b \<longrightarrow>
              unat acc = unat (interrupt_step_accumulator b) + unat cost)"
      using v False by (auto simp: b1 not_le)
    then show ?thesis by blast
  qed
qed

lemma metered_accept:
  assumes "(let (r, b1) = ts_host_budget_charge_u32 b m cost msg in
            if r \<noteq> 0 then (r, b1) else ts_host_budget_poll_interrupt b1) = (0, b')"
  shows "\<exists>v n. b' = (meter_set m v b)\<lparr>polls := n\<rparr> \<and>
           unat v + unat cost = unat (meter_left m b) \<and> n \<ge> polls b \<and>
           (interrupt b \<noteq> None \<longrightarrow> n > polls b)"
proof -
  obtain r b1 where ch: "ts_host_budget_charge_u32 b m cost msg = (r, b1)"
    by (cases "ts_host_budget_charge_u32 b m cost msg") auto
  with assms have r: "r = 0" and p: "ts_host_budget_poll_interrupt b1 = (0, b')"
    by (auto split: if_splits)
  from charge_accept [OF ch [unfolded r]] obtain v
    where b1: "b1 = meter_set m v b" and v: "unat v + unat cost = unat (meter_left m b)" by auto
  from poll_accept [OF p] v show ?thesis by (auto simp: b1 intro!: exI [of _ v])
qed

lemma enter_accept:
  assumes "ts_host_safe_point_switch b SP_FUNCTION_ENTER cost = (0, b')"
  shows "\<exists>n. b' = b\<lparr>recursion_left := recursion_left b - 1,
                   stack_bytes_left := stack_bytes_left b - cost, polls := n\<rparr> \<and>
           0 < recursion_left b \<and> cost \<le> stack_bytes_left b \<and> n \<ge> polls b"
proof -
  from assms have "0 < recursion_left b" "cost \<le> stack_bytes_left b"
    and p: "ts_host_budget_poll_interrupt
      (b\<lparr>recursion_left := recursion_left b - 1,
         stack_bytes_left := stack_bytes_left b - cost\<rparr>) = (0, b')"
    by (auto simp: ts_host_budget_fail_def word_neq_0_conv not_less split: if_splits)
  with poll_accept [OF p] show ?thesis by auto
qed

lemma leave_accept:
  "ts_host_safe_point_switch b SP_FUNCTION_LEAVE cost = (0, b') \<longleftrightarrow>
     cost \<le> stack_bytes_limit b \<and> recursion_left b < recursion_limit b \<and>
     stack_bytes_left b \<le> stack_bytes_limit b - cost \<and>
     b' = b\<lparr>recursion_left := recursion_left b + 1, stack_bytes_left := stack_bytes_left b + cost\<rparr>"
  by (auto simp: ts_host_budget_fail_def not_less not_le)

text \<open>Every outcome of a safe point, refusals included, keeps the invariant.\<close>

lemma frame_push_ok:
  assumes "budget_ok b" "0 < recursion_left b" "cost \<le> stack_bytes_left b"
  shows "budget_ok (b\<lparr>recursion_left := recursion_left b - 1,
                       stack_bytes_left := stack_bytes_left b - cost\<rparr>)"
proof -
  have "recursion_left b - 1 \<le> recursion_left b"
    using assms(2) unat_sub_le [of 1 "recursion_left b"]
    by (simp add: word_le_nat_alt word_less_nat_alt)
  moreover have "stack_bytes_left b - cost \<le> stack_bytes_left b"
    using assms(3) by (simp add: word_le_nat_alt unat_sub_le)
  ultimately show ?thesis using assms(1) by (auto simp: budget_ok_def intro: order_trans)
qed

lemma frame_pop_nat:
  assumes "cost \<le> stack_bytes_limit b" "recursion_left b < recursion_limit b"
    "stack_bytes_left b \<le> stack_bytes_limit b - cost"
  shows "unat (recursion_left b + 1) = unat (recursion_left b) + 1"
    and "unat (stack_bytes_left b + cost) = unat (stack_bytes_left b) + unat cost"
    and "unat (stack_bytes_left b) + unat cost \<le> unat (stack_bytes_limit b)"
proof -
  have "unat (recursion_left b) + 1 < 2 ^ 32"
    using assms(2) unat_lt_2_32 [of "recursion_limit b"] by (simp add: word_less_nat_alt)
  then show "unat (recursion_left b + 1) = unat (recursion_left b) + 1"
    by (simp add: unat_word_ariths)
  have le: "unat (stack_bytes_left b) + unat cost \<le> unat (stack_bytes_limit b)"
    using assms(1,3) by (simp add: word_le_nat_alt unat_sub_le)
  then have "unat (stack_bytes_left b) + unat cost < 2 ^ 64"
    using unat_lt_2_64 [of "stack_bytes_limit b"] by simp
  then show "unat (stack_bytes_left b + cost) = unat (stack_bytes_left b) + unat cost"
    by (rule unat_add_fits)
  show "unat (stack_bytes_left b) + unat cost \<le> unat (stack_bytes_limit b)" by (fact le)
qed

lemma frame_pop_ok:
  assumes "budget_ok b" "cost \<le> stack_bytes_limit b" "recursion_left b < recursion_limit b"
    "stack_bytes_left b \<le> stack_bytes_limit b - cost"
  shows "budget_ok (b\<lparr>recursion_left := recursion_left b + 1,
                       stack_bytes_left := stack_bytes_left b + cost\<rparr>)"
  using assms(1,3) frame_pop_nat [OF assms(2-4)]
  by (simp add: budget_ok_def word_le_nat_alt word_less_nat_alt)

lemma accumulator_ok:
  "budget_ok b \<Longrightarrow> acc < INTERRUPT_STEP_INTERVAL \<Longrightarrow>
   budget_ok (b\<lparr>interrupt_step_accumulator := acc\<rparr>)"
  by (simp add: budget_ok_def)

lemma switch_ok: "budget_ok b \<Longrightarrow> budget_ok (snd (ts_host_safe_point_switch b k cost))"
proof (cases k)
  case SP_STEP
  assume ok: "budget_ok b"
  obtain r b1 where ch: "ts_host_budget_charge_u32 b Steps cost ''call step quota exceeded'' = (r, b1)"
    by (cases "ts_host_budget_charge_u32 b Steps cost ''call step quota exceeded''") auto
  have "budget_ok b1" by (rule charge_ok [OF ok ch])
  then show ?thesis
    by (auto simp: SP_STEP ch Let_def INTERRUPT_STEP_INTERVAL_def
        intro!: accumulator_ok [unfolded INTERRUPT_STEP_INTERVAL_def])
next
  case SP_LOOP
  assume "budget_ok b"
  then show ?thesis by (auto simp: SP_LOOP Let_def split: prod.split dest: charge_ok)
next
  case SP_CALLBACK_BEFORE
  assume "budget_ok b"
  then show ?thesis by (auto simp: SP_CALLBACK_BEFORE Let_def split: prod.split dest: charge_ok)
next
  case SP_FUNCTION_ENTER
  assume "budget_ok b"
  then show ?thesis
    by (auto simp: SP_FUNCTION_ENTER word_neq_0_conv not_less intro: frame_push_ok)
next
  case SP_FUNCTION_LEAVE
  assume "budget_ok b"
  then show ?thesis by (auto simp: SP_FUNCTION_LEAVE not_less not_le intro: frame_pop_ok)
qed auto

lemma switch_spends:
  assumes "ts_host_safe_point_switch b k cost = (0, b')"
  shows "int (unat (meter_left m b')) + meter_cost m (k, cost) = int (unat (meter_left m b))"
    and "int (unat (recursion_left b')) + frame_cost (k, cost) = int (unat (recursion_left b))"
    and "int (unat (stack_bytes_left b')) + stack_cost (k, cost) = int (unat (stack_bytes_left b))"
    and "failure_status b' = failure_status b"
proof -
  note costs = meter_cost_def frame_cost_def stack_cost_def
  have "int (unat (meter_left m b')) + meter_cost m (k, cost) = int (unat (meter_left m b)) \<and>
    int (unat (recursion_left b')) + frame_cost (k, cost) = int (unat (recursion_left b)) \<and>
    int (unat (stack_bytes_left b')) + stack_cost (k, cost) = int (unat (stack_bytes_left b)) \<and>
    failure_status b' = failure_status b"
  proof (cases k)
    case SP_STEP
    from step_accept [OF assms [unfolded SP_STEP]] obtain v acc n
      where "b' = (meter_set Steps v b)\<lparr>interrupt_step_accumulator := acc, polls := n\<rparr>"
        "unat v + unat cost = unat (steps_left b)" by blast
    then show ?thesis by (cases m) (simp_all add: SP_STEP costs uint_sum)
  next
    case SP_LOOP
    from metered_accept [OF assms [unfolded SP_LOOP ts_host_safe_point_switch.simps]] obtain v n
      where "b' = (meter_set Loops v b)\<lparr>polls := n\<rparr>"
        "unat v + unat cost = unat (meter_left Loops b)" by blast
    then show ?thesis by (cases m) (simp_all add: SP_LOOP costs uint_sum)
  next
    case SP_CALLBACK_BEFORE
    from metered_accept [OF assms [unfolded SP_CALLBACK_BEFORE ts_host_safe_point_switch.simps]]
    obtain v n where "b' = (meter_set Callbacks v b)\<lparr>polls := n\<rparr>"
        "unat v + unat cost = unat (meter_left Callbacks b)" by blast
    then show ?thesis by (cases m) (simp_all add: SP_CALLBACK_BEFORE costs uint_sum)
  next
    case SP_CALLBACK_AFTER
    with assms poll_accept [of b b'] show ?thesis by (auto simp: costs)
  next
    case SP_FUNCTION_ENTER
    from enter_accept [OF assms [unfolded SP_FUNCTION_ENTER]] obtain n
      where "b' = b\<lparr>recursion_left := recursion_left b - 1,
                   stack_bytes_left := stack_bytes_left b - cost, polls := n\<rparr>"
        "0 < recursion_left b" "cost \<le> stack_bytes_left b" by blast
    then show ?thesis
      by (simp add: SP_FUNCTION_ENTER costs word_le_nat_alt word_less_nat_alt unat_sub_le
          unat_minus_one)
  next
    case SP_FUNCTION_LEAVE
    with assms have "cost \<le> stack_bytes_limit b" "recursion_left b < recursion_limit b"
      "stack_bytes_left b \<le> stack_bytes_limit b - cost"
      "b' = b\<lparr>recursion_left := recursion_left b + 1, stack_bytes_left := stack_bytes_left b + cost\<rparr>"
      by (simp_all only: leave_accept)
    then show ?thesis by (simp add: SP_FUNCTION_LEAVE costs frame_pop_nat)
  next
    case SP_RETAINED_BYTES
    with assms show ?thesis by (auto simp: costs ts_host_budget_fail_def split: if_splits)
  next
    case (SP_INVALID i)
    with assms show ?thesis by (simp add: ts_host_budget_fail_def)
  qed
  then show "int (unat (meter_left m b')) + meter_cost m (k, cost) = int (unat (meter_left m b))"
    and "int (unat (recursion_left b')) + frame_cost (k, cost) = int (unat (recursion_left b))"
    and "int (unat (stack_bytes_left b')) + stack_cost (k, cost) = int (unat (stack_bytes_left b))"
    and "failure_status b' = failure_status b" by blast+
qed

section \<open>Runs of safe points\<close>

definition attached :: "runtime \<Rightarrow> bool" where
  "attached rt =
     (case active_host_budget rt of
        Some b \<Rightarrow> failure_status b = STATUS_OK \<and> budget_ok b | None \<Rightarrow> False)"

definition budget_nat :: "(call_budget \<Rightarrow> nat) \<Rightarrow> runtime \<Rightarrow> int" where
  "budget_nat f rt = (case active_host_budget rt of Some b \<Rightarrow> int (f b) | None \<Rightarrow> 0)"

abbreviation rt_left :: "meter \<Rightarrow> runtime \<Rightarrow> int" where
  "rt_left m \<equiv> budget_nat (\<lambda>b. unat (meter_left m b))"

lemma attached_cases:
  assumes "attached rt"
  obtains b where "active_host_budget rt = Some b" "failure_status b = STATUS_OK" "budget_ok b"
  using assms by (auto simp: attached_def split: option.splits)

lemma safe_point_step_Some:
  assumes "attached rt" and "safe_point_step rt e = Some rt'"
  obtains b b' where "active_host_budget rt = Some b" "failure_status b = STATUS_OK"
    "budget_ok b" "ts_host_safe_point_switch b (fst e) (snd e) = (0, b')"
    "rt' = rt\<lparr>active_host_budget := Some b'\<rparr>"
proof -
  from assms(1) obtain b where b: "active_host_budget rt = Some b" "failure_status b = STATUS_OK"
    "budget_ok b" by (rule attached_cases)
  obtain r b' where sw: "ts_host_safe_point_switch b (fst e) (snd e) = (r, b')"
    by (cases "ts_host_safe_point_switch b (fst e) (snd e)") auto
  with assms(2) b have "r = 0" "rt' = rt\<lparr>active_host_budget := Some b'\<rparr>"
    by (auto simp: safe_point_step_def ts_host_safe_point_def Let_def split: if_splits)
  with b sw show ?thesis by (auto intro: that)
qed

lemma attached_step:
  assumes "attached rt" "safe_point_step rt e = Some rt'"
  shows "attached rt'"
proof -
  from assms obtain b b' where "active_host_budget rt = Some b" "failure_status b = STATUS_OK"
    "budget_ok b" and sw: "ts_host_safe_point_switch b (fst e) (snd e) = (0, b')"
    and "rt' = rt\<lparr>active_host_budget := Some b'\<rparr>" by (rule safe_point_step_Some)
  then show ?thesis
    using switch_ok [of b "fst e" "snd e"] switch_spends(4) [OF sw] by (simp add: attached_def)
qed

lemma budget_nat_step:
  assumes "attached rt" "safe_point_step rt e = Some rt'"
    and "\<And>b b'. ts_host_safe_point_switch b (fst e) (snd e) = (0, b') \<Longrightarrow>
           int (f b') + cost e = int (f b)"
  shows "budget_nat f rt' + cost e = budget_nat f rt"
proof -
  from assms(1,2) obtain b b' where "active_host_budget rt = Some b"
    "ts_host_safe_point_switch b (fst e) (snd e) = (0, b')"
    "rt' = rt\<lparr>active_host_budget := Some b'\<rparr>" by (rule safe_point_step_Some)
  then show ?thesis using assms(3) by (simp add: budget_nat_def)
qed

lemma budget_nat_nonneg: "0 \<le> budget_nat f rt"
  by (simp add: budget_nat_def split: option.split)

lemma meter_spending: "spending safe_point_step attached (rt_left m) (meter_cost m)"
proof unfold_locales
  show "attached rt \<Longrightarrow> safe_point_step rt e = Some rt' \<Longrightarrow> attached rt'" for rt e rt'
    by (rule attached_step)
  show "attached rt \<Longrightarrow> safe_point_step rt e = Some rt' \<Longrightarrow>
      rt_left m rt' + meter_cost m e = rt_left m rt" for rt e rt'
    using switch_spends(1) [of _ "fst e" "snd e"] by (auto intro!: budget_nat_step)
  show "0 \<le> rt_left m rt" for rt by (rule budget_nat_nonneg)
qed

interpretation steps: spending safe_point_step attached "rt_left Steps" "meter_cost Steps"
  by (rule meter_spending)

interpretation loops: spending safe_point_step attached "rt_left Loops" "meter_cost Loops"
  by (rule meter_spending)

interpretation callbacks:
  spending safe_point_step attached "rt_left Callbacks" "meter_cost Callbacks"
  by (rule meter_spending)

interpretation frames:
  spending safe_point_step attached "budget_nat (\<lambda>b. unat (recursion_left b))" frame_cost
proof unfold_locales
  show "attached rt \<Longrightarrow> safe_point_step rt e = Some rt' \<Longrightarrow>
      budget_nat (\<lambda>b. unat (recursion_left b)) rt' + frame_cost e =
      budget_nat (\<lambda>b. unat (recursion_left b)) rt" for rt e rt'
    using switch_spends(2) [of _ "fst e" "snd e"] by (auto intro!: budget_nat_step)
qed (auto intro: attached_step budget_nat_nonneg)

interpretation stack:
  spending safe_point_step attached "budget_nat (\<lambda>b. unat (stack_bytes_left b))" stack_cost
proof unfold_locales
  show "attached rt \<Longrightarrow> safe_point_step rt e = Some rt' \<Longrightarrow>
      budget_nat (\<lambda>b. unat (stack_bytes_left b)) rt' + stack_cost e =
      budget_nat (\<lambda>b. unat (stack_bytes_left b)) rt" for rt e rt'
    using switch_spends(3) [of _ "fst e" "snd e"] by (auto intro!: budget_nat_step)
qed (auto intro: attached_step budget_nat_nonneg)

lemma attach_accept:
  "ts_host_call_budget_attach rt b = (STATUS_OK, rt') \<Longrightarrow> active_host_budget rt' = Some b"
  by (auto simp: ts_host_call_budget_attach_def split: if_splits)

lemma attach_attached:
  "budget_ok b \<Longrightarrow> failure_status b = STATUS_OK \<Longrightarrow>
   ts_host_call_budget_attach rt b = (STATUS_OK, rt') \<Longrightarrow> attached rt'"
  by (simp add: attached_def attach_accept)

lemma min_u32_uint: "uint (ts_host_min_u32 a b) = min (uint a) (uint b)"
  by (auto simp: ts_host_min_u32_def word_less_def)

text \<open>
  The limits on bytes are not spent by safe points: the one on retained bytes bounds each amount that
  is reported, and the one on result bytes waits for the conversion of the result.
\<close>

definition byte_limits :: "call_budget \<Rightarrow> size_t \<times> size_t" where
  "byte_limits b = (retained_bytes_limit b, result_bytes_left b)"

lemma byte_limits_fields [simp]:
  "byte_limits (snd (ts_host_budget_fail b st ph m)) = byte_limits b"
  "byte_limits (snd (ts_host_budget_poll_interrupt b)) = byte_limits b"
  "byte_limits (snd (ts_host_budget_charge_u32 b mt cost m)) = byte_limits b"
  by (cases mt; auto simp: byte_limits_def ts_host_budget_fail_def ts_host_budget_poll_interrupt_def
      ts_host_budget_charge_u32_def Let_def split: option.split)+

lemma byte_limits_updates [simp]:
  "byte_limits (b\<lparr>interrupt_step_accumulator := x\<rparr>) = byte_limits b"
  "byte_limits (b\<lparr>recursion_left := y\<rparr>) = byte_limits b"
  "byte_limits (b\<lparr>recursion_left := y, stack_bytes_left := z\<rparr>) = byte_limits b"
  by (simp_all add: byte_limits_def)

lemma switch_byte_limits: "byte_limits (snd (ts_host_safe_point_switch b k cost)) = byte_limits b"
  by (cases k) (auto simp: Let_def split_beta)

lemma run_byte_limits:
  assumes "attached rt" "opt_run safe_point_step rt es = Some rt'" "active_host_budget rt = Some b"
  shows "(\<forall>e \<in> set es. fst e = SP_RETAINED_BYTES \<longrightarrow> snd e \<le> retained_bytes_limit b) \<and>
    (\<exists>b'. active_host_budget rt' = Some b' \<and> byte_limits b' = byte_limits b)"
  using assms
proof (induction es arbitrary: rt b)
  case (Cons e es)
  from Cons.prems(2) obtain rt1 where 1: "safe_point_step rt e = Some rt1" "opt_run safe_point_step rt1 es = Some rt'"
    by (auto simp: opt_run_Cons_Some simp del: opt_run.simps)
  obtain b1 where
    b1: "ts_host_safe_point_switch b (fst e) (snd e) = (0, b1)" "active_host_budget rt1 = Some b1"
    by (rule safe_point_step_Some [OF Cons.prems(1) 1(1)]) (use Cons.prems(3) in auto)
  from switch_byte_limits [of b "fst e" "snd e"] b1(1) have same: "byte_limits b1 = byte_limits b" by simp
  have "fst e = SP_RETAINED_BYTES \<Longrightarrow> snd e \<le> retained_bytes_limit b"
    using b1(1) by (auto simp: ts_host_budget_fail_def split: if_splits)
  with Cons.IH [OF attached_step [OF Cons.prems(1) 1(1)] 1(2) b1(2)] same
  show ?case by (auto simp: byte_limits_def)
qed simp

text \<open>
  C3: the limits of a call are never exceeded.  Take any call whose budget was made from the
  options of the instance and of the call and attached to a runtime, and any sequence of safe
  points that all let the backend go on.  At every moment of the run the steps, loop iterations
  and host callbacks spent are at most the limit of the call options and the built-in hard limit
  (100000, 10000, 1024), the number of open script frames is at most the smaller of both
  recursion limits and 100, and the stack bytes they hold are at most the instance's stack limit.
  Each amount of retained bytes that was reported is at most the instance's limit on them, and the
  limit that is left for the bytes of the result is still the smaller of both limits on them.
\<close>

theorem call_spends_within_limits:
  assumes init: "ts_host_call_budget_init limits (Some opts) = (STATUS_OK, Some b)"
    and att: "ts_host_call_budget_attach rt b = (STATUS_OK, rt0)"
    and run: "safe_points rt0 es = Some rt'"
  shows "sum_list (map (meter_cost Steps) (take n es)) \<le> min (uint (co_max_steps opts)) 100000 \<and>
    sum_list (map (meter_cost Loops) (take n es))
      \<le> min (uint (co_max_loop_iterations opts)) 10000 \<and>
    sum_list (map (meter_cost Callbacks) (take n es))
      \<le> min (uint (co_max_host_callbacks opts)) 1024 \<and>
    sum_list (map frame_cost (take n es))
      \<le> min (min (uint (co_max_recursion opts)) (uint (io_max_recursion limits))) 100 \<and>
    sum_list (map stack_cost (take n es)) \<le> uint (io_max_stack_bytes limits) \<and>
    (\<forall>cost. (SP_RETAINED_BYTES, cost) \<in> set es \<longrightarrow> cost \<le> io_max_retained_bytes limits) \<and>
    (\<exists>b'. active_host_budget rt' = Some b' \<and>
       uint (result_bytes_left b') = min (uint (co_max_result_bytes opts)) (uint (io_max_result_bytes limits)))"
proof -
  from init have b: "b = call_budget_of limits opts" by (simp add: ts_host_call_budget_init_def)
  have inv: "attached rt0"
    by (rule attach_attached [OF _ _ att]) (simp_all add: b call_budget_of_ok call_budget_of_clean)
  have act: "active_host_budget rt0 = Some b" by (rule attach_accept [OF att])
  from opt_run_take [OF run [unfolded safe_points_def], of n]
  obtain u where u: "opt_run safe_point_step rt0 (take n es) = Some u" by blast
  note lefts = budget_nat_def act b call_budget_of_def Let_def min_u32_uint hard_limits
  have "uint (result_bytes_left b) = min (uint (co_max_result_bytes opts)) (uint (io_max_result_bytes limits))"
    by (auto simp: b call_budget_of_def Let_def ts_host_min_size_def word_less_def)
  moreover have "retained_bytes_limit b = io_max_retained_bytes limits"
    by (simp add: b call_budget_of_def Let_def)
  ultimately have bytes: "(\<forall>cost. (SP_RETAINED_BYTES, cost) \<in> set es \<longrightarrow> cost \<le> io_max_retained_bytes limits) \<and>
    (\<exists>b'. active_host_budget rt' = Some b' \<and>
       uint (result_bytes_left b') = min (uint (co_max_result_bytes opts)) (uint (io_max_result_bytes limits)))"
    using run_byte_limits [OF inv run [unfolded safe_points_def] act] by (auto simp: byte_limits_def)
  from steps.run_within [OF inv u] loops.run_within [OF inv u] callbacks.run_within [OF inv u]
    frames.run_within [OF inv u] stack.run_within [OF inv u]
  show ?thesis using bytes by (simp add: lefts)
qed

definition example_instance_options :: instance_options where
  "example_instance_options =
     \<lparr> io_struct_size = 88, io_mode = 1, io_max_retained_bytes = 4096, io_max_stack_bytes = 1024,
       io_max_recursion = 3, io_max_globals = 16, io_max_value_depth = 8, io_reserved0 = 0,
       io_max_value_nodes = 64, io_max_result_bytes = 512, io_reserved = [0, 0, 0, 0] \<rparr>"

definition example_call_options :: call_options where
  "example_call_options =
     \<lparr> co_struct_size = 80, co_max_recursion = 10, co_max_steps = 1000, co_max_loop_iterations = 20,
       co_max_host_callbacks = 2, co_reserved0 = 0, co_max_result_bytes = 256,
       co_interrupt = Some (\<lambda>n. n \<ge> 5), co_reserved = [0, 0, 0, 0] \<rparr>"

definition idle_runtime :: runtime where
  "idle_runtime =
     \<lparr> rt_self = 0, active_host_budget = None, env_safe_point = None, env_safe_point_user_data = None,
       env_aborted = False, env_flow_throw = False, env_error_msg = [], env_error_line = 0, env_error_column = 0,
       env_last_line = 0, env_last_column = 0, env_error_value = ENull, env_pool = 0,
       env_funcs = [[]], env_max_recursion = 3,
       env_max_nodes = 64, env_max_loop_iterations = 0, rt_error_code = ERROR_NONE,
       rt_error_msg = [], rt_export_functions = [], rt_interrupt = None, rt_polls = 0 \<rparr>"

lemmas example_budget_defs =
  example_instance_options_def example_call_options_def idle_runtime_def

text \<open>A run with two nested frames, a loop iteration, a callback and 300 steps.\<close>

definition example_events :: "event list" where
  "example_events =
     [(SP_FUNCTION_ENTER, 100), (SP_STEP, 300), (SP_FUNCTION_ENTER, 50), (SP_LOOP, 1),
      (SP_CALLBACK_BEFORE, 1), (SP_CALLBACK_AFTER, 0), (SP_FUNCTION_LEAVE, 50)]"

lemma example_run:
  "\<exists>rt'. safe_points
     (snd (ts_host_call_budget_attach idle_runtime
             (call_budget_of example_instance_options
                (example_call_options\<lparr>co_interrupt := None\<rparr>)))) example_events = Some rt'"
  by (simp add: safe_points_def example_events_def safe_point_step_def ts_host_safe_point_def
      ts_host_call_budget_attach_def call_budget_of_def Let_def ts_host_min_u32_def
      ts_host_budget_charge_u32_def ts_host_budget_poll_interrupt_def hard_limits
      INTERRUPT_STEP_INTERVAL_def ts_host_min_size_def example_budget_defs word_le_nat_alt)

theorem call_spends_within_limits_witness:
  "sum_list (map (meter_cost Steps) (take 7 example_events)) \<le> 1000 \<and>
   sum_list (map frame_cost (take 3 example_events)) \<le> 3"
proof -
  define opts where "opts = example_call_options\<lparr>co_interrupt := None\<rparr>"
  define b where "b = call_budget_of example_instance_options opts"
  define rt0 where "rt0 = snd (ts_host_call_budget_attach idle_runtime b)"
  have init: "ts_host_call_budget_init example_instance_options (Some opts) = (STATUS_OK, Some b)"
    by (simp add: ts_host_call_budget_init_def b_def)
  have att: "ts_host_call_budget_attach idle_runtime b = (STATUS_OK, rt0)"
    by (simp add: rt0_def ts_host_call_budget_attach_def idle_runtime_def)
  obtain rt' where run: "safe_points rt0 example_events = Some rt'"
    using example_run by (auto simp: rt0_def b_def opts_def)
  show ?thesis
    using call_spends_within_limits [OF init att run, of 7]
      call_spends_within_limits [OF init att run, of 3]
    by (simp add: opts_def example_budget_defs)
qed

section \<open>Refusal, interruption, frames\<close>

lemma switch_refuse:
  assumes "failure_status b = STATUS_OK" "ts_host_safe_point_switch b k cost = (r, b')" "r \<noteq> 0"
  shows "r = -1 \<and> failure_status b' \<in> {STATUS_LIMIT_EXCEEDED, STATUS_INVALID_STATE, STATUS_INTERRUPTED}"
proof -
  have poll: "ts_host_budget_poll_interrupt c = (r, b') \<Longrightarrow> failure_status c = STATUS_OK \<Longrightarrow>
      r = -1 \<and> failure_status b' = STATUS_INTERRUPTED" for c
    using assms(3)
    by (auto simp: ts_host_budget_poll_interrupt_def ts_host_budget_fail_def Let_def
        split: option.splits if_splits)
  show ?thesis
    using assms poll
    by (cases k; auto simp: Let_def ts_host_budget_charge_u32_def ts_host_budget_fail_def
        split: if_splits prod.splits)
qed

text \<open>
  C16: a refused safe point ends the call.  When a safe point of an attached, not yet failed
  budget refuses, it reports \<open>-1\<close>, the runtime is aborted with the matching error code
  (cancelled for an interrupt, a runtime error otherwise), the budget keeps the status of this
  first failure, and every later safe point of any kind and cost refuses without changing
  anything.
\<close>

theorem refused_safe_point_is_final:
  assumes "attached rt" and "ts_host_safe_point rt k cost = (r, rt')" and "r \<noteq> 0"
  shows "r = -1 \<and> env_aborted rt' \<and>
    (\<exists>b. active_host_budget rt' = Some b \<and>
         failure_status b \<in> {STATUS_LIMIT_EXCEEDED, STATUS_INVALID_STATE, STATUS_INTERRUPTED} \<and>
         rt_error_code rt' = (if failure_status b = STATUS_INTERRUPTED
                              then ERROR_CANCELLED else ERROR_RUNTIME)) \<and>
    (\<forall>k' cost'. ts_host_safe_point rt' k' cost' = (-1, rt'))"
proof -
  from assms(1) obtain b where b: "active_host_budget rt = Some b" "failure_status b = STATUS_OK"
    by (rule attached_cases)
  obtain r' b' where sw: "ts_host_safe_point_switch b k cost = (r', b')"
    by (cases "ts_host_safe_point_switch b k cost") auto
  with assms(2,3) b have "r' = r" by (auto simp: ts_host_safe_point_def Let_def split: if_splits)
  with sw have sw: "ts_host_safe_point_switch b k cost = (r, b')" by simp
  note refuse = switch_refuse [OF b(2) sw assms(3)]
  obtain m m' where rt': "rt' = rt\<lparr>active_host_budget := Some b', env_aborted := True,
      rt_error_code := (if failure_status b' = STATUS_INTERRUPTED
                        then ERROR_CANCELLED else ERROR_RUNTIME),
      env_error_msg := m, rt_error_msg := m'\<rparr>"
  proof (rule that)
    show "rt' = rt\<lparr>active_host_budget := Some b', env_aborted := True,
      rt_error_code := (if failure_status b' = STATUS_INTERRUPTED
                        then ERROR_CANCELLED else ERROR_RUNTIME),
      env_error_msg := snprintf_s 256 (case failure_message b' of None \<Rightarrow> ''call budget failed''
                                       | Some m \<Rightarrow> m),
      rt_error_msg := snprintf_s 1024 (snprintf_s 256
        (case failure_message b' of None \<Rightarrow> ''call budget failed'' | Some m \<Rightarrow> m))\<rparr>"
      using assms(2,3) b sw by (simp add: ts_host_safe_point_def Let_def)
  qed
  have act: "active_host_budget rt' = Some b'" by (simp add: rt')
  have bad: "failure_status b' \<noteq> STATUS_OK" using refuse by auto
  have "\<forall>k' cost'. ts_host_safe_point rt' k' cost' = (-1, rt')"
    by (simp add: ts_host_safe_point_def act bad)
  moreover have "rt_error_code rt' = (if failure_status b' = STATUS_INTERRUPTED
      then ERROR_CANCELLED else ERROR_RUNTIME)" "env_aborted rt'"
    by (simp_all add: rt')
  ultimately show ?thesis using refuse act by blast
qed

theorem refused_safe_point_is_final_witness:
  "\<exists>rt'. ts_host_safe_point
     (snd (ts_host_call_budget_attach idle_runtime
             (call_budget_of example_instance_options example_call_options)))
     SP_STEP 2000 = (-1, rt') \<and> env_aborted rt'"
proof -
  define b where "b = call_budget_of example_instance_options example_call_options"
  define rt where "rt = snd (ts_host_call_budget_attach idle_runtime b)"
  have "ts_host_call_budget_attach idle_runtime b = (STATUS_OK, rt)"
    by (simp add: rt_def ts_host_call_budget_attach_def idle_runtime_def)
  then have inv: "attached rt"
    by (rule attach_attached [rotated 2]) (simp_all add: b_def call_budget_of_ok call_budget_of_clean)
  obtain r rt' where sp: "ts_host_safe_point rt SP_STEP 2000 = (r, rt')"
    by (cases "ts_host_safe_point rt SP_STEP 2000") auto
  have "r \<noteq> 0"
    using sp by (simp add: ts_host_safe_point_def rt_def b_def ts_host_call_budget_attach_def
        call_budget_of_def Let_def ts_host_min_u32_def ts_host_budget_charge_u32_def
        ts_host_budget_fail_def hard_limits example_budget_defs split: if_splits)
  from refused_safe_point_is_final [OF inv sp this] sp show ?thesis
    by (auto simp: rt_def b_def)
qed

text \<open>
  The embedder's interrupt is asked often enough: as long as no poll happens, the accumulator
  holds exactly the steps spent since the last one.
\<close>

lemma switch_polls:
  assumes "ts_host_safe_point_switch b k cost = (0, b')"
  shows "polls b \<le> polls b' \<and> interrupt b' = interrupt b \<and>
    (interrupt b \<noteq> None \<and> polls b' = polls b \<longrightarrow>
       int (unat (interrupt_step_accumulator b')) =
       int (unat (interrupt_step_accumulator b)) + meter_cost Steps (k, cost))"
proof (cases k)
  case SP_STEP
  from step_accept [OF assms [unfolded SP_STEP]] show ?thesis
    by (auto simp: SP_STEP meter_cost_def dest: uint_sum [OF sym])
next
  case SP_LOOP
  from metered_accept [OF assms [unfolded SP_LOOP ts_host_safe_point_switch.simps]]
  show ?thesis by (auto simp: SP_LOOP meter_cost_def)
next
  case SP_CALLBACK_BEFORE
  from metered_accept [OF assms [unfolded SP_CALLBACK_BEFORE ts_host_safe_point_switch.simps]]
  show ?thesis by (auto simp: SP_CALLBACK_BEFORE meter_cost_def)
next
  case SP_CALLBACK_AFTER
  with poll_accept [of b b'] assms show ?thesis by (auto simp: meter_cost_def)
next
  case SP_FUNCTION_ENTER
  from enter_accept [OF assms [unfolded SP_FUNCTION_ENTER]]
  show ?thesis by (auto simp: SP_FUNCTION_ENTER meter_cost_def)
next
  case SP_FUNCTION_LEAVE
  with assms show ?thesis
    by (auto simp: meter_cost_def leave_accept simp del: ts_host_safe_point_switch.simps)
qed (use assms in \<open>auto simp: meter_cost_def ts_host_budget_fail_def split: if_splits\<close>)

definition rt_polls :: "runtime \<Rightarrow> nat" where
  "rt_polls rt = (case active_host_budget rt of Some b \<Rightarrow> polls b | None \<Rightarrow> 0)"

definition rt_interruptible :: "runtime \<Rightarrow> bool" where
  "rt_interruptible rt =
     (case active_host_budget rt of Some b \<Rightarrow> interrupt b \<noteq> None | None \<Rightarrow> False)"

abbreviation rt_accumulator :: "runtime \<Rightarrow> int" where
  "rt_accumulator \<equiv> budget_nat (\<lambda>b. unat (interrupt_step_accumulator b))"

lemma step_polls:
  assumes "attached rt" "safe_point_step rt e = Some rt'"
  shows "rt_polls rt \<le> rt_polls rt' \<and> rt_interruptible rt' = rt_interruptible rt \<and>
    (rt_interruptible rt \<and> rt_polls rt' = rt_polls rt \<longrightarrow>
       rt_accumulator rt' = rt_accumulator rt + meter_cost Steps e)"
proof -
  from assms obtain b b' where "active_host_budget rt = Some b"
    "ts_host_safe_point_switch b (fst e) (snd e) = (0, b')"
    "rt' = rt\<lparr>active_host_budget := Some b'\<rparr>" by (rule safe_point_step_Some)
  then show ?thesis
    using switch_polls [of b "fst e" "snd e" b']
    by (simp add: rt_polls_def rt_interruptible_def budget_nat_def)
qed

lemma run_polls:
  "attached rt \<Longrightarrow> opt_run safe_point_step rt es = Some rt' \<Longrightarrow>
   rt_polls rt \<le> rt_polls rt' \<and>
   (rt_interruptible rt \<and> rt_polls rt' = rt_polls rt \<longrightarrow>
      rt_accumulator rt' = rt_accumulator rt + sum_list (map (meter_cost Steps) es))"
proof (induction es arbitrary: rt)
  case Nil
  then show ?case by simp
next
  case (Cons e es)
  from Cons.prems(2) obtain u where u: "safe_point_step rt e = Some u"
    "opt_run safe_point_step u es = Some rt'"
    by (auto simp: opt_run_Cons_Some simp del: opt_run.simps)
  from step_polls [OF Cons.prems(1) u(1)]
    Cons.IH [OF attached_step [OF Cons.prems(1) u(1)] u(2)]
  show ?case by auto
qed

lemma accumulator_bound: "attached rt \<Longrightarrow> rt_accumulator rt < 256"
  by (auto simp: budget_nat_def budget_ok_def INTERRUPT_STEP_INTERVAL_def word_less_def
      elim!: attached_cases)

text \<open>
  interrupt latency.  If the call has an interrupt callback, then any accepted run of safe
  points that spends 256 or more steps has asked the callback at least once.
\<close>

theorem interrupt_is_polled:
  assumes "attached rt" and "rt_interruptible rt" and "safe_points rt es = Some rt'"
    and "sum_list (map (meter_cost Steps) es) \<ge> 256"
  shows "rt_polls rt < rt_polls rt'"
proof (rule ccontr)
  assume "\<not> rt_polls rt < rt_polls rt'"
  with run_polls [OF assms(1) assms(3) [unfolded safe_points_def]] assms(2)
  have "rt_accumulator rt' = rt_accumulator rt + sum_list (map (meter_cost Steps) es)" by auto
  moreover have "rt_accumulator rt' < 256"
    using accumulator_bound steps.run_inv [OF assms(1) assms(3) [unfolded safe_points_def]] by blast
  moreover have "0 \<le> rt_accumulator rt" by (rule budget_nat_nonneg)
  ultimately show False using assms(4) by simp
qed

theorem interrupt_is_polled_witness:
  "\<exists>rt'. safe_points
     (snd (ts_host_call_budget_attach idle_runtime
             (call_budget_of example_instance_options example_call_options)))
     [(SP_STEP, 200), (SP_STEP, 100)] = Some rt' \<and> rt_polls rt' > 0"
proof -
  define b where "b = call_budget_of example_instance_options example_call_options"
  define rt where "rt = snd (ts_host_call_budget_attach idle_runtime b)"
  have "ts_host_call_budget_attach idle_runtime b = (STATUS_OK, rt)"
    by (simp add: rt_def ts_host_call_budget_attach_def idle_runtime_def)
  then have inv: "attached rt"
    by (rule attach_attached [rotated 2]) (simp_all add: b_def call_budget_of_ok call_budget_of_clean)
  note eval = rt_def b_def ts_host_call_budget_attach_def call_budget_of_def Let_def
    ts_host_min_u32_def hard_limits example_budget_defs
  have int: "rt_interruptible rt" "rt_polls rt = 0"
    by (simp_all add: rt_interruptible_def rt_polls_def eval)
  obtain rt' where run: "safe_points rt [(SP_STEP, 200), (SP_STEP, 100)] = Some rt'"
    by (simp add: safe_points_def safe_point_step_def ts_host_safe_point_def eval
        ts_host_budget_charge_u32_def ts_host_budget_poll_interrupt_def
        INTERRUPT_STEP_INTERVAL_def)
  have "sum_list (map (meter_cost Steps) [(SP_STEP, 200), (SP_STEP, 100)]) \<ge> 256"
    by (simp add: meter_cost_def)
  from interrupt_is_polled [OF inv int(1) run this] int(2) run show ?thesis
    by (auto simp: rt_def b_def)
qed

text \<open>
  Frame accounting round trip.  If entering a script function is accepted, then leaving it
  with the same frame size is accepted too, and it restores the runtime exactly as it was before
  the call but for the number of polls.
\<close>

theorem enter_leave_restores:
  assumes "attached rt" and "ts_host_safe_point rt SP_FUNCTION_ENTER cost = (0, rt1)"
  shows "\<exists>b n. active_host_budget rt = Some b \<and>
    ts_host_safe_point rt1 SP_FUNCTION_LEAVE cost =
      (0, rt\<lparr>active_host_budget := Some (b\<lparr>polls := n\<rparr>)\<rparr>)"
proof -
  have "safe_point_step rt (SP_FUNCTION_ENTER, cost) = Some rt1"
    using assms(2) by (simp add: safe_point_step_def)
  with assms(1) obtain b b' where b: "active_host_budget rt = Some b" "budget_ok b"
    "failure_status b = STATUS_OK" and rt1: "rt1 = rt\<lparr>active_host_budget := Some b'\<rparr>"
    and "ts_host_safe_point_switch b (fst (SP_FUNCTION_ENTER, cost))
      (snd (SP_FUNCTION_ENTER, cost)) = (0, b')" by (rule safe_point_step_Some)
  then have sw: "ts_host_safe_point_switch b SP_FUNCTION_ENTER cost = (0, b')"
    by (simp only: fst_conv snd_conv)
  from enter_accept [OF sw] obtain n where
    b': "b' = b\<lparr>recursion_left := recursion_left b - 1,
                stack_bytes_left := stack_bytes_left b - cost, polls := n\<rparr>"
    and pos: "0 < recursion_left b" and le: "cost \<le> stack_bytes_left b" by blast
  have lim: "recursion_left b \<le> recursion_limit b" "stack_bytes_left b \<le> stack_bytes_limit b"
    using b(2) by (simp_all add: budget_ok_def)
  have "recursion_left b - 1 < recursion_limit b"
    using pos lim(1) unat_sub_le [of 1 "recursion_left b"]
    by (simp add: word_less_nat_alt word_le_nat_alt)
  moreover have "cost \<le> stack_bytes_limit b" using le lim(2) by simp
  moreover from this le lim(2) have "stack_bytes_left b - cost \<le> stack_bytes_limit b - cost"
    by (simp add: word_le_nat_alt unat_sub_le)
  ultimately have "ts_host_safe_point_switch b' SP_FUNCTION_LEAVE cost = (0, b\<lparr>polls := n\<rparr>)"
    by (simp add: leave_accept b' del: ts_host_safe_point_switch.simps)
  then have "ts_host_safe_point rt1 SP_FUNCTION_LEAVE cost =
      (0, rt\<lparr>active_host_budget := Some (b\<lparr>polls := n\<rparr>)\<rparr>)"
    by (simp add: ts_host_safe_point_def rt1 b' b(3) Let_def del: ts_host_safe_point_switch.simps)
  with b(1) show ?thesis by blast
qed

theorem enter_leave_restores_witness:
  "\<exists>rt1 rt2 b. ts_host_safe_point
      (snd (ts_host_call_budget_attach idle_runtime
              (call_budget_of example_instance_options example_call_options)))
      SP_FUNCTION_ENTER 100 = (0, rt1) \<and>
    ts_host_safe_point rt1 SP_FUNCTION_LEAVE 100 = (0, rt2) \<and>
    active_host_budget rt2 = Some b \<and> recursion_left b = 3 \<and> stack_bytes_left b = 1024"
proof -
  define b where "b = call_budget_of example_instance_options example_call_options"
  define rt where "rt = snd (ts_host_call_budget_attach idle_runtime b)"
  have att: "ts_host_call_budget_attach idle_runtime b = (STATUS_OK, rt)"
    by (simp add: rt_def ts_host_call_budget_attach_def idle_runtime_def)
  then have inv: "attached rt"
    by (rule attach_attached [rotated 2]) (simp_all add: b_def call_budget_of_ok call_budget_of_clean)
  note eval = call_budget_of_def Let_def ts_host_min_u32_def hard_limits example_budget_defs
  obtain rt1 where en: "ts_host_safe_point rt SP_FUNCTION_ENTER 100 = (0, rt1)"
    by (simp add: ts_host_safe_point_def attach_accept [OF att] b_def eval
        ts_host_budget_poll_interrupt_def)
  from enter_leave_restores [OF inv en] obtain n where
    "ts_host_safe_point rt1 SP_FUNCTION_LEAVE 100 =
       (0, rt\<lparr>active_host_budget := Some (b\<lparr>polls := n\<rparr>)\<rparr>)"
    using attach_accept [OF att] by auto
  moreover have "recursion_left b = 3" "stack_bytes_left b = 1024" by (simp_all add: b_def eval)
  ultimately show ?thesis using en by (auto simp: rt_def b_def)
qed

end
