(* ===== verification/Call_State.thy ===== *)
theory Call_State
  imports Host_Module Host_Budget
begin

text \<open>
  The call state of contexts and instances (first part of
  \<^verbatim>\<open>turbo_script/src/host/turbo_script_host_instance.c\<close>) and the safe points of an environment
  (\<^verbatim>\<open>turbo_script/src/turbo_script.c\<close>).  Objects that refer to each other live in a world of
  stores indexed by address.  The main result is a protocol: however calls and callbacks are
  interleaved, at most one call is active in a context, its end finds the state its beginning left,
  and no other call can begin before.
\<close>

section \<open>State\<close>

text \<open>\<^verbatim>\<open>ts_host_instance_state_t\<close>, \<^verbatim>\<open>ts_host_runtime_diagnostic_t\<close> and \<^verbatim>\<open>turbo_script_instance_s\<close>.\<close>

datatype instance_state =
    INSTANCE_READY | INSTANCE_CALLING | INSTANCE_CALLING_HOST | INSTANCE_FAULTED | INSTANCE_DESTROYED

record diagnostic =
  d_status :: status
  d_error_code :: int
  d_phase :: phase
  d_line :: u32
  d_column :: u32
  d_length :: u32
  d_cause_code :: int
  d_function_name :: sview
  d_message :: "bytes option"
  d_present :: bool

definition no_diagnostic :: diagnostic where
  "no_diagnostic =
     \<lparr>d_status = 0, d_error_code = 0, d_phase = 0, d_line = 0, d_column = 0, d_length = 0,
      d_cause_code = 0, d_function_name = NullBuf 0, d_message = None, d_present = False\<rparr>"

record host_instance =
  i_module :: addr
  i_runtime :: addr
  i_limits :: instance_options
  i_generation :: u32
  i_mode :: u32
  i_state :: instance_state
  i_diagnostic :: diagnostic
  i_initializer_count :: size_t

text \<open>
  The stores.  \<open>w_env\<close> holds the environments: that of a context or of the runtime context of an
  instance at the address of the context, and those of script function frames at addresses of their
  own.  \<open>w_heap\<close> decides the allocations and \<open>w_mem\<close> is the memory of value views.
\<close>

record 'art world =
  w_ctx :: ctx_store
  w_mod :: "'art module_store"
  w_inst :: "addr \<Rightarrow> host_instance"
  w_env :: "addr \<Rightarrow> runtime"
  w_heap :: heap
  w_mem :: view_mem

definition set_ctx :: "addr \<Rightarrow> (host_ctx \<Rightarrow> host_ctx) \<Rightarrow> 'art world \<Rightarrow> 'art world" where
  "set_ctx c f W = W\<lparr>w_ctx := (w_ctx W)(c := f (w_ctx W c))\<rparr>"

definition set_inst :: "addr \<Rightarrow> (host_instance \<Rightarrow> host_instance) \<Rightarrow> 'art world \<Rightarrow> 'art world" where
  "set_inst i f W = W\<lparr>w_inst := (w_inst W)(i := f (w_inst W i))\<rparr>"

definition set_env :: "addr \<Rightarrow> (runtime \<Rightarrow> runtime) \<Rightarrow> 'art world \<Rightarrow> 'art world" where
  "set_env e f W = W\<lparr>w_env := (w_env W)(e := f (w_env W e))\<rparr>"

lemmas set_defs = set_ctx_def set_inst_def set_env_def

text \<open>\<^verbatim>\<open>instance->module->ctx\<close>.\<close>

definition instance_ctx :: "'art world \<Rightarrow> addr \<Rightarrow> addr" where
  "instance_ctx W i = m_ctx (w_mod W (i_module (w_inst W i)))"

text \<open>The values of \<^verbatim>\<open>turbo_script_error_code_t\<close>.\<close>

fun error_code_value :: "error_code \<Rightarrow> int" where
  "error_code_value ERROR_NONE = 0"
| "error_code_value ERROR_ARGUMENT = 1"
| "error_code_value ERROR_PARSE = 2"
| "error_code_value ERROR_VALIDATE = 3"
| "error_code_value ERROR_RUNTIME = 4"
| "error_code_value ERROR_IO = 5"
| "error_code_value ERROR_PLUGIN = 6"
| "error_code_value ERROR_JIT = 7"
| "error_code_value ERROR_OOM = 8"
| "error_code_value ERROR_STATE = 9"
| "error_code_value ERROR_CANCELLED = 10"

section \<open>Safe points of an environment\<close>

text \<open>\<^verbatim>\<open>set_error\<close>, with the \<^verbatim>\<open>strncpy\<close> of \<^verbatim>\<open>set_error_msg\<close> into 1024 bytes.\<close>

definition set_error :: "error_code \<Rightarrow> bytes \<Rightarrow> runtime \<Rightarrow> runtime" where
  "set_error code msg rt = rt\<lparr>rt_error_code := code, rt_error_msg := take 1023 msg\<rparr>"

definition ts_context_interrupt_safe_point :: "runtime \<Rightarrow> int \<times> runtime" where
  "ts_context_interrupt_safe_point rt =
     (case rt_interrupt rt of
        None \<Rightarrow> (0, rt)
      | Some f \<Rightarrow>
          let rt1 = rt\<lparr>rt_polls := Suc (rt_polls rt)\<rparr> in
          if \<not> f (rt_polls rt) then (0, rt1)
          else
            (1, (set_error ERROR_CANCELLED ''script execution interrupted'' rt1)
                  \<lparr>env_aborted := True,
                   env_error_msg := snprintf_s 256 ''script execution interrupted''\<rparr>))"

definition turbo_script_set_interrupt ::
  "'art world \<Rightarrow> addr option \<Rightarrow> (nat \<Rightarrow> bool) option \<Rightarrow> int \<times> 'art world" where
  "turbo_script_set_interrupt W ctx f =
     (case ctx of
        None \<Rightarrow> (-1, W)
      | Some c \<Rightarrow>
          if closing (w_ctx W c) then (-1, W)
          else
            (0, set_env c
                  (\<lambda>rt.
                     if f \<noteq> None
                     then rt\<lparr>rt_interrupt := f, rt_polls := 0,
                             env_safe_point := Some TS_CONTEXT_INTERRUPT_SAFE_POINT,
                             env_safe_point_user_data := Some c\<rparr>
                     else if env_safe_point rt = Some TS_CONTEXT_INTERRUPT_SAFE_POINT \<and>
                             env_safe_point_user_data rt = Some c
                     then rt\<lparr>rt_interrupt := None, rt_polls := 0, env_safe_point := None,
                             env_safe_point_user_data := None\<rparr>
                     else rt\<lparr>rt_interrupt := None, rt_polls := 0\<rparr>) W))"

text \<open>
  \<^verbatim>\<open>env->safe_point(env->safe_point_user_data, kind, cost)\<close>, 0 when there is no safe point: the
  function acts on the context that the user data points to, which for the frame of a script
  function is not the frame's own environment.
\<close>

definition call_safe_point ::
  "'art world \<Rightarrow> addr \<Rightarrow> safe_point_kind \<Rightarrow> size_t \<Rightarrow> int \<times> 'art world" where
  "call_safe_point W e kind cost =
     (case (env_safe_point (w_env W e), env_safe_point_user_data (w_env W e)) of
        (Some TS_HOST_EXPRTK_SAFE_POINT, Some u) \<Rightarrow>
          (case ts_host_safe_point (w_env W u) kind cost of (r, rt) \<Rightarrow> (r, set_env u (\<lambda>_. rt) W))
      | (Some TS_CONTEXT_INTERRUPT_SAFE_POINT, Some u) \<Rightarrow>
          (case ts_context_interrupt_safe_point (w_env W u) of (r, rt) \<Rightarrow> (r, set_env u (\<lambda>_. rt) W))
      | _ \<Rightarrow> (0, W))"

section \<open>Transitions\<close>

definition ts_host_instance_clear_diagnostic :: "host_instance \<Rightarrow> host_instance" where
  "ts_host_instance_clear_diagnostic x = x\<lparr>i_diagnostic := no_diagnostic\<rparr>"

definition ts_host_instance_begin_call :: "'art world \<Rightarrow> addr \<Rightarrow> status \<times> 'art world" where
  "ts_host_instance_begin_call W i =
     (let x = w_inst W i; c = instance_ctx W i in
      if i_state x = INSTANCE_FAULTED then (STATUS_INVALID_STATE, W)
      else if i_state x \<noteq> INSTANCE_READY \<or> host_callback_depth (w_ctx W c) \<noteq> 0 \<or>
              active_host_instance (w_ctx W c) \<noteq> None
      then (STATUS_REENTRANT_CALL, W)
      else
        (STATUS_OK,
         set_inst i (\<lambda>x. (ts_host_instance_clear_diagnostic x)\<lparr>i_state := INSTANCE_CALLING\<rparr>)
           (set_ctx c (\<lambda>k. k\<lparr>active_host_instance := Some i\<rparr>)
             (set_env (i_runtime x)
                (\<lambda>rt. rt\<lparr>rt_error_code := ERROR_NONE, rt_error_msg := [], env_error_msg := [],
                        env_error_line := 0, env_error_column := 0, env_last_line := 0,
                        env_last_column := 0, env_error_value := ENull\<rparr>) W))))"

definition ts_host_instance_enter_callback ::
  "'art world \<Rightarrow> addr \<Rightarrow> status \<times> addr option \<times> 'art world" where
  "ts_host_instance_enter_callback W c =
     (if host_callback_depth (w_ctx W c) = SIZE_MAX then (STATUS_LIMIT_EXCEEDED, None, W)
      else
        let deeper = set_ctx c (\<lambda>k. k\<lparr>host_callback_depth := host_callback_depth k + 1\<rparr>) W in
        (case active_host_instance (w_ctx W c) of
           None \<Rightarrow> (STATUS_OK, None, deeper)
         | Some i \<Rightarrow>
             if i_state (w_inst W i) \<noteq> INSTANCE_CALLING then (STATUS_REENTRANT_CALL, None, W)
             else (STATUS_OK, Some i,
                   set_inst i (\<lambda>x. x\<lparr>i_state := INSTANCE_CALLING_HOST\<rparr>) deeper)))"

definition ts_host_instance_leave_callback ::
  "'art world \<Rightarrow> addr \<Rightarrow> addr option \<Rightarrow> 'art world" where
  "ts_host_instance_leave_callback W c inst =
     (if host_callback_depth (w_ctx W c) = 0 then W
      else
        let W1 =
          (case inst of
             Some i \<Rightarrow>
               if active_host_instance (w_ctx W c) = Some i \<and>
                  i_state (w_inst W i) = INSTANCE_CALLING_HOST
               then set_inst i (\<lambda>x. x\<lparr>i_state := INSTANCE_CALLING\<rparr>) W
               else W
           | None \<Rightarrow> W)
        in set_ctx c (\<lambda>k. k\<lparr>host_callback_depth := host_callback_depth k - 1\<rparr>) W1)"

definition ts_host_instance_finish_call :: "'art world \<Rightarrow> addr \<Rightarrow> status \<Rightarrow> status \<times> 'art world" where
  "ts_host_instance_finish_call W i status =
     (let c = instance_ctx W i; inactive = set_ctx c (\<lambda>k. k\<lparr>active_host_instance := None\<rparr>) W in
      if active_host_instance (w_ctx W c) \<noteq> Some i \<or> i_state (w_inst W i) \<noteq> INSTANCE_CALLING \<or>
         host_callback_depth (w_ctx W c) \<noteq> 0
      then (STATUS_INVALID_STATE,
            set_inst i (\<lambda>x. x\<lparr>i_state := INSTANCE_FAULTED\<rparr>)
              (if active_host_instance (w_ctx W c) = Some i then inactive else W))
      else
        (status,
         set_inst i
           (\<lambda>x. x\<lparr>i_state := (if status = STATUS_OK then INSTANCE_READY else INSTANCE_FAULTED)\<rparr>)
           inactive))"

text \<open>The copy of the message may fail, which leaves a diagnostic without a message.\<close>

definition ts_host_instance_record_callback_error ::
  "'art world \<Rightarrow> addr \<Rightarrow> status \<Rightarrow> int \<Rightarrow> sview \<Rightarrow> sview \<Rightarrow> u32 \<Rightarrow> u32 \<Rightarrow> 'art world" where
  "ts_host_instance_record_callback_error W i status cause_code function_name message line column =
     (case alloc (w_heap W) of
        (ok, h) \<Rightarrow>
          set_inst i
            (\<lambda>x. (ts_host_instance_clear_diagnostic x)
               \<lparr>i_diagnostic :=
                  \<lparr>d_status = STATUS_HOST_ERROR,
                   d_error_code =
                     error_code_value
                       (if status = STATUS_OUT_OF_MEMORY then ERROR_OOM
                        else if status = STATUS_INTERRUPTED then ERROR_CANCELLED
                        else ERROR_RUNTIME),
                   d_phase = PHASE_HOST_CALLBACK, d_line = line, d_column = column,
                   d_length = (if line \<noteq> 0 then 1 else 0), d_cause_code = cause_code,
                   d_function_name = function_name,
                   d_message = (if ok then Some (buf_elems message) else None),
                   d_present = True\<rparr>\<rparr>)
            (W\<lparr>w_heap := h\<rparr>))"

section \<open>The frame of a context\<close>

text \<open>
  What the transitions depend on: the active instance, the callback depth, and of the active
  instance its state, module, runtime and context.  Everything else may change during a call.
\<close>

definition instance_frame :: "'art world \<Rightarrow> addr \<Rightarrow> instance_state \<times> addr \<times> addr \<times> addr" where
  "instance_frame W i =
     (i_state (w_inst W i), i_module (w_inst W i), i_runtime (w_inst W i), instance_ctx W i)"

definition call_frame ::
  "addr \<Rightarrow> 'art world \<Rightarrow> (addr \<times> instance_state \<times> addr \<times> addr \<times> addr) option \<times> size_t" where
  "call_frame c W =
     (map_option (\<lambda>i. (i, instance_frame W i)) (active_host_instance (w_ctx W c)),
      host_callback_depth (w_ctx W c))"

lemma call_frame_cong:
  assumes "w_ctx W' c = w_ctx W c" "w_mod W' = w_mod W" "w_inst W' = w_inst W"
  shows "call_frame c W' = call_frame c W"
  using assms by (simp add: call_frame_def instance_frame_def instance_ctx_def)

lemma call_frame_active: "call_frame c W' = call_frame c W \<Longrightarrow>
    active_host_instance (w_ctx W' c) = active_host_instance (w_ctx W c)"
  by (cases "active_host_instance (w_ctx W' c)"; cases "active_host_instance (w_ctx W c)")
    (auto simp: call_frame_def)

lemma call_frame_depth: "call_frame c W' = call_frame c W \<Longrightarrow>
    host_callback_depth (w_ctx W' c) = host_callback_depth (w_ctx W c)"
  by (simp add: call_frame_def)

lemma call_frame_instance:
  "call_frame c W' = call_frame c W \<Longrightarrow> active_host_instance (w_ctx W c) = Some i \<Longrightarrow>
   instance_frame W' i = instance_frame W i"
proof -
  assume same: "call_frame c W' = call_frame c W" and active: "active_host_instance (w_ctx W c) = Some i"
  from call_frame_active [OF same] same active show ?thesis by (simp add: call_frame_def)
qed

lemma set_env_frame [simp]: "call_frame c (set_env e f W) = call_frame c W"
  by (rule call_frame_cong) (simp_all add: set_env_def)

lemma heap_frame [simp]: "call_frame c (W\<lparr>w_heap := h\<rparr>) = call_frame c W"
  by (rule call_frame_cong) simp_all

lemma mem_frame [simp]: "call_frame c (W\<lparr>w_mem := M\<rparr>) = call_frame c W"
  by (rule call_frame_cong) simp_all

lemma safe_point_frame: "call_safe_point W e kind cost = (r, W') \<Longrightarrow> call_frame c W' = call_frame c W"
  by (auto simp: call_safe_point_def split: option.splits safe_point_fn.splits prod.splits)

lemma record_error_frame [simp]:
  "call_frame c (ts_host_instance_record_callback_error W i s k f m line col) = call_frame c W"
  by (auto simp: ts_host_instance_record_callback_error_def call_frame_def instance_frame_def
      instance_ctx_def set_defs ts_host_instance_clear_diagnostic_def split: prod.splits
      intro!: option.map_cong)

text \<open>A context in which no host call and no callback is under way.\<close>

definition quiescent :: "addr \<Rightarrow> 'art world \<Rightarrow> bool" where
  "quiescent c W \<longleftrightarrow> call_frame c W = (None, 0)"

lemma quiescent_iff:
  "quiescent c W \<longleftrightarrow> active_host_instance (w_ctx W c) = None \<and> host_callback_depth (w_ctx W c) = 0"
  by (auto simp: quiescent_def call_frame_def)

text \<open>
  The hook of a runtime: whether a budget is attached, and the safe point of its environment.  They
  belong to the host layer.
\<close>

definition host_hook :: "runtime \<Rightarrow> bool \<times> safe_point_fn option \<times> addr option" where
  "host_hook rt = (active_host_budget rt \<noteq> None, env_safe_point rt, env_safe_point_user_data rt)"

lemma safe_point_hook: "ts_host_safe_point rt kind cost = (q, rt') \<Longrightarrow> host_hook rt' = host_hook rt"
  by (auto simp: ts_host_safe_point_def host_hook_def Let_def split: option.splits prod.splits if_splits)

lemma interrupt_hook: "ts_context_interrupt_safe_point rt = (q, rt') \<Longrightarrow> host_hook rt' = host_hook rt"
  by (auto simp: ts_context_interrupt_safe_point_def host_hook_def set_error_def Let_def
      split: option.splits if_splits)

lemma set_env_hook:
  "host_hook (f (w_env W e)) = host_hook (w_env W e) \<Longrightarrow>
   host_hook (w_env (set_env e f W) a) = host_hook (w_env W a)"
  by (simp add: set_env_def)

lemma call_safe_point_hook:
  "call_safe_point W e kind cost = (q, W') \<Longrightarrow> host_hook (w_env W' a) = host_hook (w_env W a)"
  by (auto simp: call_safe_point_def split: option.splits safe_point_fn.splits prod.splits
      intro!: set_env_hook intro: safe_point_hook interrupt_hook)

section \<open>The protocol of calls and callbacks\<close>

text \<open>
  A history of one context as its stack of calls and callbacks in progress.  Between transitions the
  scripts, the callbacks and the rest of the interface run: they may change the world in any way that
  keeps the frame.
\<close>

datatype activity = Call addr | Callback "addr option"

inductive protocol :: "addr \<Rightarrow> 'art world \<Rightarrow> 'art world \<Rightarrow> activity list \<Rightarrow> bool"
  for c :: addr and W0 :: "'art world" where
  start: "protocol c W0 W0 []"
| begin_call: "protocol c W0 W fs \<Longrightarrow> instance_ctx W i = c \<Longrightarrow>
    ts_host_instance_begin_call W i = (STATUS_OK, W') \<Longrightarrow> protocol c W0 W' (Call i # fs)"
| enter_callback: "protocol c W0 W fs \<Longrightarrow>
    ts_host_instance_enter_callback W c = (STATUS_OK, inst, W') \<Longrightarrow>
    protocol c W0 W' (Callback inst # fs)"
| leave_callback: "protocol c W0 W (Callback inst # fs) \<Longrightarrow>
    protocol c W0 (ts_host_instance_leave_callback W c inst) fs"
| finish_call: "protocol c W0 W (Call i # fs) \<Longrightarrow>
    protocol c W0 (snd (ts_host_instance_finish_call W i s)) fs"
| between: "protocol c W0 W fs \<Longrightarrow> call_frame c W' = call_frame c W \<Longrightarrow> protocol c W0 W' fs"

text \<open>The three shapes a stack can have: callbacks outside of calls, a call, a callback in a call.\<close>

definition protocol_ok :: "addr \<Rightarrow> 'art world \<Rightarrow> activity list \<Rightarrow> bool" where
  "protocol_ok c W fs \<longleftrightarrow>
     active_host_instance (w_ctx W c) = None \<and> set fs \<subseteq> {Callback None} \<and>
       unat (host_callback_depth (w_ctx W c)) = length fs \<or>
     (\<exists>i. active_host_instance (w_ctx W c) = Some i \<and> instance_ctx W i = c \<and>
        (fs = [Call i] \<and> i_state (w_inst W i) = INSTANCE_CALLING \<and>
           host_callback_depth (w_ctx W c) = 0 \<or>
         fs = [Callback (Some i), Call i] \<and> i_state (w_inst W i) = INSTANCE_CALLING_HOST \<and>
           host_callback_depth (w_ctx W c) = 1))"

lemma protocol_ok_frame:
  assumes "protocol_ok c W fs" "call_frame c W' = call_frame c W"
  shows "protocol_ok c W' fs"
proof -
  note same = call_frame_active [OF assms(2)] call_frame_depth [OF assms(2)]
  have "instance_frame W' i = instance_frame W i" if "active_host_instance (w_ctx W c) = Some i" for i
    using call_frame_instance [OF assms(2) that] .
  with assms(1) show ?thesis by (fastforce simp: protocol_ok_def same instance_frame_def)
qed

lemma begin_call_ok:
  assumes "ts_host_instance_begin_call W i = (STATUS_OK, W')"
  shows "i_state (w_inst W i) = INSTANCE_READY" "quiescent (instance_ctx W i) W"
    "active_host_instance (w_ctx W' (instance_ctx W i)) = Some i"
    "host_callback_depth (w_ctx W' (instance_ctx W i)) = 0"
    "instance_frame W' i = (INSTANCE_CALLING, snd (instance_frame W i))"
  using assms
  by (auto simp: ts_host_instance_begin_call_def Let_def set_defs quiescent_iff instance_frame_def
      instance_ctx_def ts_host_instance_clear_diagnostic_def split: if_splits)

lemma begin_call_refused:
  "ts_host_instance_begin_call W i = (s, W') \<Longrightarrow> s \<noteq> STATUS_OK \<Longrightarrow> W' = W"
  by (auto simp: ts_host_instance_begin_call_def Let_def split: if_splits)

lemma enter_callback_ok:
  assumes "ts_host_instance_enter_callback W c = (STATUS_OK, inst, W')"
  shows "inst = active_host_instance (w_ctx W c)"
    "active_host_instance (w_ctx W' c) = inst"
    "unat (host_callback_depth (w_ctx W' c)) = Suc (unat (host_callback_depth (w_ctx W c)))"
    "inst = Some i \<Longrightarrow> i_state (w_inst W i) = INSTANCE_CALLING \<and>
       instance_frame W' i = (INSTANCE_CALLING_HOST, snd (instance_frame W i))"
  using assms unat_size_succ [of "host_callback_depth (w_ctx W c)"]
  by (auto simp: ts_host_instance_enter_callback_def Let_def set_defs instance_frame_def
      instance_ctx_def split: if_splits option.splits)

lemma enter_callback_refused:
  "ts_host_instance_enter_callback W c = (s, inst, W') \<Longrightarrow> s \<noteq> STATUS_OK \<Longrightarrow> W' = W \<and> inst = None"
  by (auto simp: ts_host_instance_enter_callback_def Let_def split: if_splits option.splits)

lemma leave_callback_outside:
  assumes "host_callback_depth (w_ctx W c) \<noteq> 0"
  shows "active_host_instance (w_ctx (ts_host_instance_leave_callback W c None) c) =
       active_host_instance (w_ctx W c)"
    "unat (host_callback_depth (w_ctx (ts_host_instance_leave_callback W c None) c)) =
       unat (host_callback_depth (w_ctx W c)) - 1"
proof -
  have "unat (host_callback_depth (w_ctx W c)) \<noteq> 0" using assms by (simp add: unat_eq_zero)
  then have "unat (1 :: size_t) \<le> unat (host_callback_depth (w_ctx W c))" by simp
  with assms unat_sub_le [of "1 :: size_t" "host_callback_depth (w_ctx W c)"]
  show "active_host_instance (w_ctx (ts_host_instance_leave_callback W c None) c) =
       active_host_instance (w_ctx W c)"
    "unat (host_callback_depth (w_ctx (ts_host_instance_leave_callback W c None) c)) =
       unat (host_callback_depth (w_ctx W c)) - 1"
    by (simp_all add: ts_host_instance_leave_callback_def set_ctx_def)
qed

lemma leave_callback_inside:
  assumes "active_host_instance (w_ctx W c) = Some i" "i_state (w_inst W i) = INSTANCE_CALLING_HOST"
    "host_callback_depth (w_ctx W c) \<noteq> 0"
  shows "active_host_instance (w_ctx (ts_host_instance_leave_callback W c (Some i)) c) = Some i"
    "host_callback_depth (w_ctx (ts_host_instance_leave_callback W c (Some i)) c) =
       host_callback_depth (w_ctx W c) - 1"
    "instance_frame (ts_host_instance_leave_callback W c (Some i)) i =
       (INSTANCE_CALLING, snd (instance_frame W i))"
  using assms
  by (simp_all add: ts_host_instance_leave_callback_def set_defs instance_frame_def instance_ctx_def)

lemma finish_call_ok:
  assumes "active_host_instance (w_ctx W (instance_ctx W i)) = Some i"
    "i_state (w_inst W i) = INSTANCE_CALLING" "host_callback_depth (w_ctx W (instance_ctx W i)) = 0"
  shows "fst (ts_host_instance_finish_call W i s) = s"
    "quiescent (instance_ctx W i) (snd (ts_host_instance_finish_call W i s))"
    "instance_frame (snd (ts_host_instance_finish_call W i s)) i =
       (if s = STATUS_OK then INSTANCE_READY else INSTANCE_FAULTED, snd (instance_frame W i))"
  using assms
  by (simp_all add: ts_host_instance_finish_call_def Let_def set_defs quiescent_iff instance_frame_def
      instance_ctx_def)

lemma protocol_keeps_ok:
  assumes "protocol c W0 W fs" "quiescent c W0"
  shows "protocol_ok c W fs"
  using assms
proof (induction rule: protocol.induct)
  case start
  then show ?case by (simp add: protocol_ok_def quiescent_iff)
next
  case (begin_call W fs i W')
  note ok = begin_call_ok [OF begin_call.hyps(3), unfolded begin_call.hyps(2)]
  have "fs = []" using begin_call.IH begin_call.prems ok(2) by (auto simp: protocol_ok_def quiescent_iff)
  with ok begin_call.hyps(2) show ?case by (simp add: protocol_ok_def instance_frame_def)
next
  case (enter_callback W fs inst W')
  note ok = enter_callback_ok [OF enter_callback.hyps(2)]
  show ?case
  proof (cases inst)
    case None
    with enter_callback ok(1-3) show ?thesis by (auto simp: protocol_ok_def)
  next
    case (Some i)
    with enter_callback.IH enter_callback.prems ok(1) ok(4) [OF Some]
    have fs: "fs = [Call i]" "host_callback_depth (w_ctx W c) = 0" "instance_ctx W i = c"
      by (auto simp: protocol_ok_def)
    then have "unat (host_callback_depth (w_ctx W' c)) = unat (1 :: size_t)" using ok(3) by simp
    then have "host_callback_depth (w_ctx W' c) = 1" by (simp only: word_unat_eq_iff)
    with Some fs ok(2) ok(4) [OF Some] show ?thesis by (simp add: protocol_ok_def instance_frame_def)
  qed
next
  case (leave_callback W inst fs)
  show ?case
  proof (cases inst)
    case None
    with leave_callback.IH leave_callback.prems
    have outside: "active_host_instance (w_ctx W c) = None" "set fs \<subseteq> {Callback None}"
      "unat (host_callback_depth (w_ctx W c)) = Suc (length fs)" by (auto simp: protocol_ok_def)
    then have "host_callback_depth (w_ctx W c) \<noteq> 0" by auto
    with leave_callback_outside [of W c] outside None show ?thesis by (simp add: protocol_ok_def)
  next
    case (Some i)
    with leave_callback.IH leave_callback.prems
    have inside: "active_host_instance (w_ctx W c) = Some i" "fs = [Call i]" "instance_ctx W i = c"
      "i_state (w_inst W i) = INSTANCE_CALLING_HOST" "host_callback_depth (w_ctx W c) = 1"
      by (auto simp: protocol_ok_def)
    with leave_callback_inside [of W c i] Some show ?thesis by (simp add: protocol_ok_def instance_frame_def)
  qed
next
  case (finish_call W i fs s)
  then have top: "active_host_instance (w_ctx W c) = Some i" "fs = []" "instance_ctx W i = c"
    "i_state (w_inst W i) = INSTANCE_CALLING" "host_callback_depth (w_ctx W c) = 0"
    by (auto simp: protocol_ok_def)
  with finish_call_ok(2) [of W i s] show ?case by (simp add: protocol_ok_def quiescent_iff)
next
  case (between W fs W')
  then show ?case using protocol_ok_frame by blast
qed

text \<open>
  C2: calls and callbacks of a context.  Starting from a context with no call and no callback under
  way, and after any interleaving of beginning and finishing calls, entering and leaving callbacks
  and other work that keeps the call state: (1) while anything is under way, no instance of the context
  can begin a call, and the attempt changes nothing; (2) a call in progress is alone at the bottom
  of the stack, and when nothing runs above it, finishing it returns the status it was given, leaves
  the instance ready if that was OK and faulted otherwise, and the context with nothing under way;
  (3) a callback entered from a call leaves back to that call, and a second callback cannot be
  entered from it.
\<close>

theorem calls_never_nest:
  assumes "protocol c W0 W fs" "quiescent c W0"
  shows "(\<forall>i. fs \<noteq> [] \<and> instance_ctx W i = c \<longrightarrow>
            snd (ts_host_instance_begin_call W i) = W \<and>
            fst (ts_host_instance_begin_call W i) \<in> {STATUS_INVALID_STATE, STATUS_REENTRANT_CALL}) \<and>
         (\<forall>i rest s. fs = Call i # rest \<longrightarrow>
            rest = [] \<and> fst (ts_host_instance_finish_call W i s) = s \<and>
            quiescent c (snd (ts_host_instance_finish_call W i s)) \<and>
            i_state (w_inst (snd (ts_host_instance_finish_call W i s)) i) =
              (if s = STATUS_OK then INSTANCE_READY else INSTANCE_FAULTED)) \<and>
         (\<forall>i rest. fs = Callback (Some i) # rest \<longrightarrow>
            rest = [Call i] \<and> ts_host_instance_enter_callback W c = (STATUS_REENTRANT_CALL, None, W) \<and>
            i_state (w_inst (ts_host_instance_leave_callback W c (Some i)) i) = INSTANCE_CALLING)"
proof -
  note ok = protocol_keeps_ok [OF assms]
  have "fs = [] \<or> \<not> quiescent c W" using ok by (auto simp: protocol_ok_def quiescent_iff)
  then have refused: "fs \<noteq> [] \<and> instance_ctx W i = c \<longrightarrow>
      snd (ts_host_instance_begin_call W i) = W \<and>
      fst (ts_host_instance_begin_call W i) \<in> {STATUS_INVALID_STATE, STATUS_REENTRANT_CALL}" for i
    by (auto simp: ts_host_instance_begin_call_def Let_def quiescent_iff)
  have finish: "rest = [] \<and> fst (ts_host_instance_finish_call W i s) = s \<and>
      quiescent c (snd (ts_host_instance_finish_call W i s)) \<and>
      i_state (w_inst (snd (ts_host_instance_finish_call W i s)) i) =
        (if s = STATUS_OK then INSTANCE_READY else INSTANCE_FAULTED)" if "fs = Call i # rest" for i rest s
    using ok that finish_call_ok [of W i s] by (auto simp: protocol_ok_def instance_frame_def)
  have callback: "rest = [Call i] \<and>
      ts_host_instance_enter_callback W c = (STATUS_REENTRANT_CALL, None, W) \<and>
      i_state (w_inst (ts_host_instance_leave_callback W c (Some i)) i) = INSTANCE_CALLING"
    if "fs = Callback (Some i) # rest" for i rest
    using ok that leave_callback_inside [of W c i]
    by (auto simp: protocol_ok_def ts_host_instance_enter_callback_def instance_frame_def)
  from refused finish callback show ?thesis by blast
qed

definition idle_ctx :: host_ctx where
  "idle_ctx =
     \<lparr>ref_count = 2, closing = False, owner_thread_token = 7, ctx_freed = False, host_functions = [],
      active_host_modules = 1, host_callback_depth = 0, active_host_instance = None,
      next_instance_generation = 2\<rparr>"

definition ready_instance :: host_instance where
  "ready_instance =
     \<lparr>i_module = 20, i_runtime = 40, i_limits = example_instance_options, i_generation = 1, i_mode = 1,
      i_state = INSTANCE_READY, i_diagnostic = no_diagnostic, i_initializer_count = 1\<rparr>"

text \<open>A context at 10, with a module at 20 and a ready instance at 30 whose runtime is at 40.\<close>

definition example_world :: "nat world" where
  "example_world =
     \<lparr>w_ctx = \<lambda>_. idle_ctx, w_mod = \<lambda>_. example_module\<lparr>m_ctx := 10\<rparr>, w_inst = \<lambda>_. ready_instance,
      w_env = \<lambda>e. idle_runtime\<lparr>rt_self := e\<rparr>, w_heap = \<lparr>outcomes = \<lambda>_. True, next_pool = 100\<rparr>,
      w_mem = example_mem\<rparr>"

lemma example_quiescent: "quiescent 10 example_world"
  by (simp add: quiescent_iff example_world_def idle_ctx_def)

lemma example_instance_ctx: "instance_ctx example_world i = 10"
  by (simp add: instance_ctx_def example_world_def)

lemma example_begins:
  "\<exists>W. ts_host_instance_begin_call example_world 30 = (STATUS_OK, W)"
  by (simp add: ts_host_instance_begin_call_def Let_def example_instance_ctx)
    (simp add: example_world_def idle_ctx_def ready_instance_def)

theorem calls_never_nest_witness:
  "\<exists>W. ts_host_instance_begin_call example_world 30 = (STATUS_OK, W) \<and>
     fst (ts_host_instance_begin_call W 30) \<noteq> STATUS_OK \<and>
     i_state (w_inst (snd (ts_host_instance_finish_call W 30 STATUS_OK)) 30) = INSTANCE_READY"
proof -
  obtain W where W: "ts_host_instance_begin_call example_world 30 = (STATUS_OK, W)"
    using example_begins by blast
  have run: "protocol 10 example_world W [Call 30]"
    using protocol.begin_call [OF protocol.start example_instance_ctx W] .
  have "instance_ctx W 30 = 10"
    using begin_call_ok(5) [OF W] by (simp add: instance_frame_def example_instance_ctx)
  with calls_never_nest [OF run example_quiescent] W show ?thesis by auto
qed

end
