(* ===== verification/Host_Callback.thy ===== *)
theory Host_Callback
  imports Call_State
begin

text \<open>
  Host callbacks (last part of \<^verbatim>\<open>turbo_script/src/host/turbo_script_host_registry.c\<close>): the
  adapter through which a script calls a function of the embedder, the builder through which that
  function answers, and the errors thrown into the script.
\<close>

section \<open>Errors thrown into the script\<close>

definition ts_host_registry_charge :: "'p xstate \<Rightarrow> size_t \<Rightarrow> size_t \<Rightarrow> status \<times> 'p xstate" where
  "ts_host_registry_charge st count element_size =
     (if count \<noteq> 0 \<and> element_size > SIZE_MAX div count then (STATUS_LIMIT_EXCEEDED, st)
      else
        let amount = count * element_size in
        if xs_bytes st > TS_HOST_MAX_STRING_BYTES \<or> amount > TS_HOST_MAX_STRING_BYTES - xs_bytes st
        then (STATUS_LIMIT_EXCEEDED, st)
        else (STATUS_OK, st\<lparr>xs_bytes := xs_bytes st + amount\<rparr>))"

definition ts_host_status_name :: "status \<Rightarrow> bytes" where
  "ts_host_status_name status =
     (if status = STATUS_INVALID_ARGUMENT then ''INVALID_ARGUMENT''
      else if status = STATUS_OUT_OF_MEMORY then ''OUT_OF_MEMORY''
      else if status = STATUS_WRONG_THREAD then ''WRONG_THREAD''
      else if status = STATUS_INVALID_STATE then ''INVALID_STATE''
      else if status = STATUS_LIMIT_EXCEEDED then ''LIMIT_EXCEEDED''
      else if status = STATUS_INVALID_UTF8 then ''INVALID_UTF8''
      else ''HOST_ERROR'')"

definition throw_message :: "status \<Rightarrow> int \<Rightarrow> bytes \<Rightarrow> bytes \<Rightarrow> bytes" where
  "throw_message status cause_code message function_name =
     snprintf_s 256
       (ts_host_status_name status @ '': '' @ c_string (take 128 message) @ '' (function='' @
        c_string function_name @
        (if cause_code \<noteq> 0 then '', cause='' @ print_d cause_code else []) @ '')'')"

text \<open>The part of an environment that \<^verbatim>\<open>exprtk_value_copy_to_env\<close> works on.\<close>

definition env_of :: "runtime \<Rightarrow> exprtk_env" where
  "env_of rt = \<lparr>env_arena = env_pool rt, ee_aborted = env_aborted rt, ee_error_msg = env_error_msg rt\<rparr>"

definition env_back :: "exprtk_env \<Rightarrow> runtime \<Rightarrow> runtime" where
  "env_back env rt = rt\<lparr>env_aborted := ee_aborted env, env_error_msg := ee_error_msg env\<rparr>"

text \<open>
  \<^verbatim>\<open>ts_host_runtime_throw_view\<close>: \<open>c\<close> is the owner context and \<open>e\<close> the environment the script runs
  in.  The error value is a copy of the message; when the copy fails, the environment is aborted
  and the error value stays null.
\<close>

definition ts_host_runtime_throw_view ::
  "order \<Rightarrow> 'art world \<Rightarrow> addr \<Rightarrow> addr \<Rightarrow> status \<Rightarrow> int \<Rightarrow> sview \<Rightarrow> bytes \<Rightarrow> 'art world" where
  "ts_host_runtime_throw_view order W c e status cause_code message function_name =
     (let message = (case message of NullBuf n \<Rightarrow> ''host callback failed'' | Buf bs \<Rightarrow> bs);
          msg = throw_message status cause_code message function_name;
          rt1 = (w_env W e)\<lparr>env_error_msg := msg, env_error_value := ENull\<rparr>
      in
      (case exprtk_value_copy_to_env order (w_heap W) (EString None (Buf (c_string msg))) (env_of rt1) of
         (copy, env, h) \<Rightarrow>
           let rt2 = (env_back env rt1)
                 \<lparr>env_error_value := (case copy of Some v \<Rightarrow> v | None \<Rightarrow> ENull),
                  env_error_line := env_last_line rt1, env_error_column := env_last_column rt1,
                  env_flow_throw := True\<rparr>;
               W1 = set_env e (\<lambda>_. rt2) (W\<lparr>w_heap := h\<rparr>)
           in
           (case active_host_instance (w_ctx W c) of
              None \<Rightarrow> W1
            | Some i \<Rightarrow>
                ts_host_instance_record_callback_error W1 i status cause_code (Buf (c_string function_name))
                  (Buf message) (u32_of_pos (env_error_line rt2)) (u32_of_pos (env_error_column rt2)))))"

definition ts_host_runtime_throw ::
  "order \<Rightarrow> 'art world \<Rightarrow> addr \<Rightarrow> addr \<Rightarrow> status \<Rightarrow> int \<Rightarrow> bytes \<Rightarrow> bytes \<Rightarrow> 'art world" where
  "ts_host_runtime_throw order W c e status cause_code message function_name =
     ts_host_runtime_throw_view order W c e status cause_code (Buf message) function_name"

section \<open>The result builder\<close>

datatype builder_state = BUILDER_EMPTY | BUILDER_VALUE | BUILDER_ERROR

record builder =
  hb_ctx :: addr
  hb_state :: builder_state
  hb_terminal_status :: status
  hb_value :: exprtk_value
  hb_cause_code :: int
  hb_error_message :: "bytes option"

text \<open>\<^verbatim>\<open>ts_host_value_from_view\<close>: the conversion into the environment of a context.\<close>

definition ts_host_value_from_view ::
  "('x, 'b) salts \<Rightarrow> order \<Rightarrow> nat \<Rightarrow> 'art world \<Rightarrow> addr \<Rightarrow> addr option \<Rightarrow> value_limits option \<Rightarrow>
   (status \<times> exprtk_value \<times> 'art world) option" where
  "ts_host_value_from_view E order thread W c view limits =
     (let s = ts_host_context_check_thread (w_ctx W) thread (Some c) in
      if s \<noteq> STATUS_OK then Some (s, ENull, W)
      else
        (case ts_host_value_from_view_in_env E order (w_mem W) (w_heap W) (Some (env_of (w_env W c)))
                view limits of
           None \<Rightarrow> None
         | Some (s, v, env, h) \<Rightarrow>
             Some (s, v, set_env c (env_back (the env)) (W\<lparr>w_heap := h\<rparr>))))"

definition turbo_script_host_result_set_value ::
  "('x, 'b) salts \<Rightarrow> order \<Rightarrow> nat \<Rightarrow> 'art world \<Rightarrow> builder option \<Rightarrow> addr option \<Rightarrow>
   (status \<times> builder option \<times> 'art world) option" where
  "turbo_script_host_result_set_value E order thread W builder view =
     (case builder of
        None \<Rightarrow> Some (STATUS_INVALID_ARGUMENT, None, W)
      | Some b \<Rightarrow>
          if hb_state b \<noteq> BUILDER_EMPTY then Some (STATUS_INVALID_STATE, builder, W)
          else
            (case ts_host_value_from_view E order thread W (hb_ctx b) view (Some callback_limits) of
               None \<Rightarrow> None
             | Some (s, v, W') \<Rightarrow>
                 Some (s, Some (b\<lparr>hb_state := BUILDER_VALUE, hb_terminal_status := s, hb_value := v\<rparr>), W')))"

definition turbo_script_host_result_set_error ::
  "('x, 'b) salts \<Rightarrow> 'art world \<Rightarrow> builder option \<Rightarrow> int \<Rightarrow> sview \<Rightarrow>
   status \<times> builder option \<times> 'art world" where
  "turbo_script_host_result_set_error E W builder cause_code message =
     (case builder of
        None \<Rightarrow> (STATUS_INVALID_ARGUMENT, None, W)
      | Some b \<Rightarrow>
          if hb_state b \<noteq> BUILDER_EMPTY then (STATUS_INVALID_STATE, builder, W)
          else
            let b1 = b\<lparr>hb_state := BUILDER_ERROR, hb_cause_code := cause_code\<rparr>;
                terminal = (\<lambda>s b W. (s, Some (b\<lparr>hb_terminal_status := s\<rparr>), W))
            in
            if buf_broken message then terminal STATUS_INVALID_ARGUMENT b1 W
            else if buf_size message > TS_HOST_MAX_STRING_BYTES then terminal STATUS_LIMIT_EXCEEDED b1 W
            else if \<not> utf8_valid E (buf_elems message) then terminal STATUS_INVALID_UTF8 b1 W
            else
              (case alloc (w_heap W) of
                 (ok, h) \<Rightarrow>
                   if \<not> ok then terminal STATUS_OUT_OF_MEMORY b1 (W\<lparr>w_heap := h\<rparr>)
                   else terminal STATUS_OK (b1\<lparr>hb_error_message := Some (buf_elems message)\<rparr>)
                          (W\<lparr>w_heap := h\<rparr>)))"

section \<open>The adapter\<close>

text \<open>
  A callback of the embedder: given the world, its user data, the address of the argument views,
  their number and the builder, it gives its status, the builder and the world it leaves.
\<close>

type_synonym 'art callback =
  "'art world \<Rightarrow> addr \<Rightarrow> addr option \<Rightarrow> size_t \<Rightarrow> builder \<Rightarrow> status \<times> builder \<times> 'art world"

text \<open>The loop over the arguments and the allocation of their views.\<close>

fun adapt_args ::
  "(bytes \<Rightarrow> bool) \<Rightarrow> 'p arena \<Rightarrow> 'p xstate \<Rightarrow> addr \<Rightarrow> nat \<Rightarrow> exprtk_value list \<Rightarrow> status \<times> 'p xstate" where
  "adapt_args utf8 A st q i [] = (STATUS_OK, st)"
| "adapt_args utf8 A st q i (x # xs) =
     (case ts_host_arg_view_from_exprtk utf8 A st x 1 of
        (s, v, st1) \<Rightarrow>
          if s \<noteq> STATUS_OK then (s, st1)
          else adapt_args utf8 A (st1\<lparr>xs_mem := write_view (xs_mem st1) (item_addr q i) v\<rparr>) q (Suc i) xs)"

definition adapt_arguments ::
  "(bytes \<Rightarrow> bool) \<Rightarrow> 'p arena \<Rightarrow> 'p \<Rightarrow> view_mem \<Rightarrow> exprtk_value list \<Rightarrow> status \<times> addr option \<times> view_mem"
  where
  "adapt_arguments utf8 A pool M args =
     (if args = [] then (STATUS_OK, None, M)
      else
        let n = of_nat (length args);
            (s, st) = ts_host_registry_charge \<lparr>xs_mem = M, xs_pool = pool, xs_nodes = 0, xs_bytes = 0\<rparr> n 24
        in if s \<noteq> STATUS_OK then (s, None, M)
           else
             (case mem_alloc_array A (xs_pool st) 24 n of
                (None, pool) \<Rightarrow> (STATUS_OUT_OF_MEMORY, None, M)
              | (Some q, pool) \<Rightarrow>
                  (case adapt_args utf8 A (st\<lparr>xs_pool := pool\<rparr>) q 0 args of
                     (s, st) \<Rightarrow> (s, Some q, xs_mem st))))"

text \<open>What the adapter makes of the callback's status \<open>status\<close> and builder \<open>b\<close>.\<close>

definition callback_result ::
  "order \<Rightarrow> 'art world \<Rightarrow> addr \<Rightarrow> addr \<Rightarrow> bytes \<Rightarrow> status \<Rightarrow> builder \<Rightarrow> exprtk_value \<times> 'art world" where
  "callback_result order W c e name status b =
     (case (if status = STATUS_OK \<and> hb_terminal_status b = STATUS_OK \<and> hb_state b = BUILDER_VALUE
            then call_safe_point W e SP_CALLBACK_AFTER 0 else (0, W)) of
        (r, W1) \<Rightarrow>
          if r \<noteq> 0 then (ENull, set_env e (\<lambda>rt. rt\<lparr>env_aborted := True\<rparr>) W1)
          else
            let message = Buf (case hb_error_message b of Some m \<Rightarrow> m | None \<Rightarrow> ''host callback failed'') in
            if status = STATUS_OK \<and> hb_state b = BUILDER_EMPTY
            then (ENull, ts_host_runtime_throw order W1 c e STATUS_HOST_ERROR 0
                           ''callback returned success without a result'' name)
            else if hb_terminal_status b \<noteq> STATUS_OK
            then (ENull, ts_host_runtime_throw order W1 c e (hb_terminal_status b) (hb_cause_code b)
                           ''host result builder rejected its terminal write'' name)
            else if status \<noteq> STATUS_OK
            then (ENull, ts_host_runtime_throw_view order W1 c e status (hb_cause_code b) message name)
            else if hb_state b = BUILDER_ERROR
            then (ENull, ts_host_runtime_throw_view order W1 c e STATUS_HOST_ERROR (hb_cause_code b)
                           message name)
            else (hb_value b, W1))"

definition new_builder :: "addr \<Rightarrow> builder" where
  "new_builder c =
     \<lparr>hb_ctx = c, hb_state = BUILDER_EMPTY, hb_terminal_status = STATUS_OK, hb_value = ENull,
      hb_cause_code = 0, hb_error_message = None\<rparr>"

text \<open>
  \<open>pool\<close> is the view arena, if \<^verbatim>\<open>mem_init\<close> succeeds, \<open>e\<close> the environment that the script calls the
  function from.
\<close>

definition ts_host_registry_callback_adapter ::
  "(bytes \<Rightarrow> bool) \<Rightarrow> 'p arena \<Rightarrow> order \<Rightarrow> (addr \<Rightarrow> 'art callback) \<Rightarrow> nat \<Rightarrow> 'p option \<Rightarrow> 'art world \<Rightarrow>
   addr \<Rightarrow> function_entry \<Rightarrow> exprtk_value buf \<Rightarrow> exprtk_value \<times> 'art world" where
  "ts_host_registry_callback_adapter utf8 A order callbacks thread pool W e entry args =
     (let c = fe_ctx entry; name = fe_name entry; n = buf_size args;
          throw = (\<lambda>W s msg. (ENull, ts_host_runtime_throw order W c e s 0 msg name));
          s = ts_host_check_owner_thread (w_ctx W) thread (Some c)
      in
      if s \<noteq> STATUS_OK then throw W s ''host callback ran outside its owner thread''
      else if n < ucast (fe_min_arity entry) \<or> n > ucast (fe_max_arity entry)
      then throw W STATUS_HOST_ERROR ''host function arity mismatch''
      else if buf_broken args
      then throw W STATUS_INVALID_ARGUMENT ''host arguments have no backing storage''
      else
        (case pool of
           None \<Rightarrow> throw W STATUS_OUT_OF_MEMORY ''failed to initialize host argument arena''
         | Some pool \<Rightarrow>
             (case adapt_arguments utf8 A pool (w_mem W) (buf_elems args) of
                (s, views, M) \<Rightarrow>
                  let W1 = W\<lparr>w_mem := M\<rparr> in
                  if s \<noteq> STATUS_OK then throw W1 s ''failed to adapt host arguments''
                  else
                    (case call_safe_point W1 e SP_CALLBACK_BEFORE 1 of
                       (r, W2) \<Rightarrow>
                         if r \<noteq> 0 then (ENull, set_env e (\<lambda>rt. rt\<lparr>env_aborted := True\<rparr>) W2)
                         else
                           (case ts_host_instance_enter_callback W2 c of
                              (s, inst, W3) \<Rightarrow>
                                if s \<noteq> STATUS_OK
                                then throw W3 s ''host callback state transition failed''
                                else
                                  (case callbacks (fe_callback entry) W3 (fe_user_data entry) views n
                                          (new_builder c) of
                                     (s, b, W4) \<Rightarrow>
                                       callback_result order
                                         (ts_host_instance_leave_callback W4 c inst) c e name s b))))))"

text \<open>
  The conversion of an \<^verbatim>\<open>int64_t\<close> to \<^verbatim>\<open>double\<close>, as the bit pattern of the nearest double, ties to
  even: the exponent is that of the highest bit, and a magnitude of more than 53 bits is rounded.
\<close>

fun bit_length :: "nat \<Rightarrow> nat" where
  "bit_length n = (if n = 0 then 0 else Suc (bit_length (n div 2)))"

declare bit_length.simps [simp del]

definition double_of_nat :: "nat \<Rightarrow> nat" where
  "double_of_nat m =
     (if m = 0 then 0
      else
        let len = bit_length m;
            significand =
              (if len \<le> 53 then m * 2 ^ (53 - len)
               else
                 let d = len - 53; q = m div 2 ^ d; r = m mod 2 ^ d in
                 if r > 2 ^ (d - 1) \<or> r = 2 ^ (d - 1) \<and> odd q then Suc q else q)
        in (len + 1021) * 2 ^ 52 + significand)"

definition double_of_int64 :: "u64 \<Rightarrow> u64" where
  "double_of_int64 i =
     (if sint i < 0 then of_nat (2 ^ 63 + double_of_nat (nat (- sint i)))
      else of_nat (double_of_nat (nat (sint i))))"

definition DOUBLE_ONE :: u64 where "DOUBLE_ONE = 4607182418800017408"

definition ts_host_registry_invoke_numeric_slot ::
  "(bytes \<Rightarrow> bool) \<Rightarrow> 'p arena \<Rightarrow> order \<Rightarrow> (addr \<Rightarrow> 'art callback) \<Rightarrow> nat \<Rightarrow> 'p option \<Rightarrow> 'art world \<Rightarrow>
   addr option \<Rightarrow> addr option \<Rightarrow> size_t \<Rightarrow> u64 buf \<Rightarrow> u64 \<times> 'art world" where
  "ts_host_registry_invoke_numeric_slot utf8 A order callbacks thread pool W owner runtime slot numeric_args =
     (case ts_host_registry_get_slot (w_ctx W) thread owner slot True of
        (s, entry) \<Rightarrow>
          if owner = None \<or> runtime = None \<or> buf_size numeric_args > 16 \<or> buf_broken numeric_args \<or>
             s \<noteq> STATUS_OK
          then (0, W)
          else
            (case ts_host_registry_callback_adapter utf8 A order callbacks thread pool W (the runtime)
                    (the entry) (Buf (map ENumber (buf_elems numeric_args))) of
               (v, W') \<Rightarrow>
                 (case v of
                    ENumber d \<Rightarrow> d
                  | EInteger i \<Rightarrow> double_of_int64 i
                  | EBool b \<Rightarrow> if b \<noteq> 0 then DOUBLE_ONE else 0
                  | _ \<Rightarrow> 0,
                  W')))"

section \<open>What a throw does\<close>

lemma registry_charge_eq: "ts_host_registry_charge = ts_host_exprtk_view_charge callback_limits"
  by (simp add: fun_eq_iff ts_host_registry_charge_def ts_host_exprtk_view_charge_def callback_limits_def)

interpretation argument_account:
  charge_account ts_host_registry_charge "\<lambda>st. unat (xs_bytes st)" "unat (max_bytes callback_limits)"
  unfolding registry_charge_eq by (rule export_account.charge_account_axioms)

lemma throw_view_frame [simp]:
  "call_frame k (ts_host_runtime_throw_view order W c e s cause m name) = call_frame k W"
  by (simp add: ts_host_runtime_throw_view_def Let_def split: prod.split option.split)

lemma throw_frame [simp]: "call_frame k (ts_host_runtime_throw order W c e s cause m name) = call_frame k W"
  by (simp add: ts_host_runtime_throw_def)

text \<open>
  The script sees a throw: the flow of the environment is set, and if an instance of the owner
  context is in a call, its diagnostic tells of a host error.
\<close>

definition thrown :: "'art world \<Rightarrow> addr \<Rightarrow> addr \<Rightarrow> bool" where
  "thrown W c e \<longleftrightarrow> env_flow_throw (w_env W e) \<and>
     (\<forall>i. active_host_instance (w_ctx W c) = Some i \<longrightarrow>
        d_present (i_diagnostic (w_inst W i)) \<and>
        d_status (i_diagnostic (w_inst W i)) = STATUS_HOST_ERROR \<and>
        d_phase (i_diagnostic (w_inst W i)) = PHASE_HOST_CALLBACK)"

lemma record_error_fields [simp]:
  "w_env (ts_host_instance_record_callback_error W i s k f m line col) = w_env W"
  "w_ctx (ts_host_instance_record_callback_error W i s k f m line col) = w_ctx W"
  "d_present (i_diagnostic (w_inst (ts_host_instance_record_callback_error W i s k f m line col) i))"
  "d_status (i_diagnostic (w_inst (ts_host_instance_record_callback_error W i s k f m line col) i)) =
     STATUS_HOST_ERROR"
  "d_phase (i_diagnostic (w_inst (ts_host_instance_record_callback_error W i s k f m line col) i)) =
     PHASE_HOST_CALLBACK"
  by (simp_all add: ts_host_instance_record_callback_error_def set_inst_def split: prod.split)

lemma set_env_fields [simp]:
  "w_ctx (set_env e f W) = w_ctx W" "w_inst (set_env e f W) = w_inst W" "w_mod (set_env e f W) = w_mod W"
  "w_mem (set_env e f W) = w_mem W" "w_heap (set_env e f W) = w_heap W"
  "w_env (set_env e f W) e = f (w_env W e)"
  by (simp_all add: set_env_def)

lemma throw_view_thrown: "thrown (ts_host_runtime_throw_view order W c e s cause m name) c e"
  by (auto simp: thrown_def ts_host_runtime_throw_view_def Let_def split: prod.split option.split)

lemma throw_thrown: "thrown (ts_host_runtime_throw order W c e s cause m name) c e"
  by (simp add: ts_host_runtime_throw_def throw_view_thrown)

section \<open>A callback restores the call state\<close>

text \<open>What is expected of the embedder's functions: they leave the call state as they found it.\<close>

definition callback_keeps_frame :: "addr \<Rightarrow> 'art callback \<Rightarrow> bool" where
  "callback_keeps_frame c callback \<longleftrightarrow>
     (\<forall>W u views n b. call_frame c (snd (snd (callback W u views n b))) = call_frame c W)"

lemma enter_leave_frame:
  assumes enter: "ts_host_instance_enter_callback W c = (STATUS_OK, inst, W1)"
    and keep: "call_frame c W2 = call_frame c W1"
  shows "call_frame c (ts_host_instance_leave_callback W2 c inst) = call_frame c W"
proof -
  note ok = enter_callback_ok [OF enter]
  note same = call_frame_active [OF keep] call_frame_depth [OF keep]
  have depth: "host_callback_depth (w_ctx W2 c) - 1 = host_callback_depth (w_ctx W c)"
    using enter by (auto simp: same ts_host_instance_enter_callback_def Let_def set_defs
        split: if_splits option.splits)
  have nonzero: "host_callback_depth (w_ctx W2 c) \<noteq> 0" using ok(3) by (auto simp: same)
  show ?thesis
  proof (cases inst)
    case None
    with ok(1,2) same nonzero depth show ?thesis
      by (simp add: ts_host_instance_leave_callback_def set_ctx_def call_frame_def)
  next
    case (Some i)
    have fr: "instance_frame W2 i = (INSTANCE_CALLING_HOST, snd (instance_frame W i))"
      and st: "i_state (w_inst W i) = INSTANCE_CALLING"
      using call_frame_instance [OF keep] ok(2) ok(4) [OF Some] Some by simp_all
    have "i_state (w_inst W2 i) = INSTANCE_CALLING_HOST" using fr by (simp add: instance_frame_def)
    with leave_callback_inside [of W2 c i] fr st Some ok(1,2) same nonzero depth show ?thesis
      by (auto simp: call_frame_def instance_frame_def)
  qed
qed

lemma throw_view_hook [simp]:
  "host_hook (w_env (ts_host_runtime_throw_view order W c e s cause m name) a) = host_hook (w_env W a)"
  by (auto simp: ts_host_runtime_throw_view_def Let_def set_env_def env_back_def host_hook_def
      split: prod.split option.split)

lemma throw_hook [simp]:
  "host_hook (w_env (ts_host_runtime_throw order W c e s cause m name) a) = host_hook (w_env W a)"
  by (simp add: ts_host_runtime_throw_def)

lemma abort_hook [simp]:
  "host_hook (w_env (set_env e (\<lambda>rt. rt\<lparr>env_aborted := True\<rparr>) W) a) = host_hook (w_env W a)"
  by (rule set_env_hook) (simp add: host_hook_def)

lemma enter_env: "ts_host_instance_enter_callback W c = (s, inst, W') \<Longrightarrow> w_env W' = w_env W"
  by (auto simp: ts_host_instance_enter_callback_def Let_def set_defs split: if_splits option.splits)

lemma leave_env [simp]: "w_env (ts_host_instance_leave_callback W c inst) = w_env W"
  by (auto simp: ts_host_instance_leave_callback_def Let_def set_defs split: option.split)

lemma callback_result_frame [simp]:
  "call_frame k (snd (callback_result order W c e name s b)) = call_frame k W"
proof -
  obtain r W1 where sp: "(if s = STATUS_OK \<and> hb_terminal_status b = STATUS_OK \<and> hb_state b = BUILDER_VALUE
      then call_safe_point W e SP_CALLBACK_AFTER 0 else (0, W)) = (r, W1)" by fastforce
  then have "call_frame k W1 = call_frame k W" by (auto split: if_splits intro: safe_point_frame)
  then show ?thesis by (simp add: callback_result_def sp Let_def)
qed

text \<open>The three ways through the adapter: a throw or an abort before the callback, or the callback.\<close>

lemma adapter_cases:
  fixes W :: "'art world" and pool :: "'p option"
  assumes run: "ts_host_registry_callback_adapter utf8 A order callbacks thread pool W e entry args = (v, W')"
  obtains
    (throw) W1 s m where "v = ENull" "call_frame (fe_ctx entry) W1 = call_frame (fe_ctx entry) W"
      "\<And>a. host_hook (w_env W1 a) = host_hook (w_env W a)"
      "W' = ts_host_runtime_throw order W1 (fe_ctx entry) e s 0 m (fe_name entry)"
  | (abort) W2 where "v = ENull" "call_frame (fe_ctx entry) W2 = call_frame (fe_ctx entry) W"
      "\<And>a. host_hook (w_env W2 a) = host_hook (w_env W a)"
      "W' = set_env e (\<lambda>rt. rt\<lparr>env_aborted := True\<rparr>) W2"
  | (ran) p views M W2 inst W3 s b W4 where
      "owner_thread_token (w_ctx W (fe_ctx entry)) = thread"
      "ucast (fe_min_arity entry) \<le> buf_size args" "buf_size args \<le> ucast (fe_max_arity entry)"
      "pool = Some p" "adapt_arguments utf8 A p (w_mem W) (buf_elems args) = (STATUS_OK, views, M)"
      "call_safe_point (W\<lparr>w_mem := M\<rparr>) e SP_CALLBACK_BEFORE 1 = (0, W2)"
      "call_frame (fe_ctx entry) W2 = call_frame (fe_ctx entry) W"
      "ts_host_instance_enter_callback W2 (fe_ctx entry) = (STATUS_OK, inst, W3)"
      "callbacks (fe_callback entry) W3 (fe_user_data entry) views (buf_size args)
         (new_builder (fe_ctx entry)) = (s, b, W4)"
      "callback_result order (ts_host_instance_leave_callback W4 (fe_ctx entry) inst) (fe_ctx entry) e
         (fe_name entry) s b = (v, W')"
proof -
  let ?c = "fe_ctx entry"
  note run = run [unfolded ts_host_registry_callback_adapter_def Let_def]
  consider "ts_host_check_owner_thread (w_ctx W) thread (Some ?c) \<noteq> STATUS_OK"
    | "buf_size args < ucast (fe_min_arity entry) \<or> buf_size args > ucast (fe_max_arity entry)"
    | "buf_broken args" | "pool = None"
    | p where "ts_host_check_owner_thread (w_ctx W) thread (Some ?c) = STATUS_OK"
      "ucast (fe_min_arity entry) \<le> buf_size args" "buf_size args \<le> ucast (fe_max_arity entry)"
      "\<not> buf_broken args" "pool = Some p"
    by (metis not_less option.exhaust)
  then show thesis
  proof cases
    case 1
    with run show thesis by (auto intro: throw [of W])
  next
    case 2
    with run show thesis by (auto intro: throw [of W] split: if_splits)
  next
    case 3
    with run show thesis by (auto intro: throw [of W] split: if_splits)
  next
    case 4
    with run show thesis by (auto intro: throw [of W] split: if_splits)
  next
    case 5
    have owner: "owner_thread_token (w_ctx W ?c) = thread"
      using 5(1) by (simp add: ts_host_check_owner_thread_def check_thread_ok)
    obtain s views M where ad: "adapt_arguments utf8 A p (w_mem W) (buf_elems args) = (s, views, M)"
      by (metis prod_cases3)
    have nl: "\<not> buf_size args < ucast (fe_min_arity entry)" "\<not> ucast (fe_max_arity entry) < buf_size args"
      using 5(2,3) by (simp_all only: not_less simp_thms)
    note through = run 5(1,4,5) nl ad
    show thesis
    proof (cases "s = STATUS_OK")
      case False
      with through show thesis by (auto intro: throw [of "W\<lparr>w_mem := M\<rparr>"])
    next
      case True
      obtain r W2 where sp: "call_safe_point (W\<lparr>w_mem := M\<rparr>) e SP_CALLBACK_BEFORE 1 = (r, W2)" by fastforce
      have fr: "call_frame ?c W2 = call_frame ?c W" using safe_point_frame [OF sp] by simp
      have hk: "host_hook (w_env W2 a) = host_hook (w_env W a)" for a
        using call_safe_point_hook [OF sp, of a] by simp
      show thesis
      proof (cases "r = 0")
        case False
        with through sp True fr hk show thesis by (auto intro: abort)
      next
        case r: True
        obtain s1 inst W3 where en: "ts_host_instance_enter_callback W2 ?c = (s1, inst, W3)"
          by (metis prod_cases3)
        show thesis
        proof (cases "s1 = STATUS_OK")
          case False
          with enter_callback_refused [OF en] have "W3 = W2" by blast
          with through sp True r en False fr hk show thesis by (auto intro: throw [of W2])
        next
          case s1: True
          obtain s2 b W4 where cb: "callbacks (fe_callback entry) W3 (fe_user_data entry) views
              (buf_size args) (new_builder ?c) = (s2, b, W4)" by (metis prod_cases3)
          from through sp True r en s1 cb
          have "callback_result order (ts_host_instance_leave_callback W4 ?c inst) ?c e
              (fe_name entry) s2 b = (v, W')" by auto
          then show thesis
            using ran [OF owner 5(2,3,5) ad [unfolded True] sp [unfolded r] fr en [unfolded s1] cb] by blast
        qed
      qed
    qed
  qed
qed

lemma adapter_frame:
  assumes keeps: "callback_keeps_frame (fe_ctx entry) (callbacks (fe_callback entry))"
    and run: "ts_host_registry_callback_adapter utf8 A order callbacks thread pool W e entry args = (v, W')"
  shows "call_frame (fe_ctx entry) W' = call_frame (fe_ctx entry) W"
  using run
proof (cases rule: adapter_cases)
  case (ran p views M W2 inst W3 s b W4)
  have "call_frame (fe_ctx entry) W4 = call_frame (fe_ctx entry) W3"
    using keeps [unfolded callback_keeps_frame_def, rule_format, of W3 "fe_user_data entry" views] ran(9)
    by (metis snd_conv)
  from enter_leave_frame [OF ran(8) this] ran(7) callback_result_frame [of "fe_ctx entry"] ran(10)
  show ?thesis by (metis snd_conv)
qed simp_all

text \<open>A host function of up to two arguments that answers 42.\<close>

definition example_entry :: function_entry where
  "example_entry =
     \<lparr>fe_ctx = 10, fe_name = ''answer'', fe_min_arity = 0, fe_max_arity = 2, fe_callback = 1, fe_user_data = 2\<rparr>"

definition example_callback :: "nat callback" where
  "example_callback = (\<lambda>W u views n b. (STATUS_OK, b\<lparr>hb_state := BUILDER_VALUE, hb_value := EInteger 42\<rparr>, W))"

abbreviation (input) example_adapter :: "exprtk_value \<times> nat world" where
  "example_adapter \<equiv>
     ts_host_registry_callback_adapter ascii_valid bump_arena id (\<lambda>_. example_callback) 7 (Some 5000)
       example_world 40 example_entry (Buf [ENumber 3, ENull])"

lemma example_keeps_frame: "callback_keeps_frame c example_callback"
  by (simp add: callback_keeps_frame_def example_callback_def)

lemma example_adapts:
  "\<exists>M. adapt_arguments ascii_valid bump_arena 5000 M0 [ENumber 3, ENull] = (STATUS_OK, Some 5000, M)"
  by (simp add: adapt_arguments_def ts_host_registry_charge_def TS_HOST_MAX_STRING_BYTES_def Let_def
      bump_arena_def ts_host_arg_view_from_exprtk_def value_to_view.simps callback_limits_def
      TS_HOST_MAX_VALUE_DEPTH_def TS_HOST_MAX_VALUE_NODES_def)

lemma example_adapter_value: "fst example_adapter = EInteger 42"
proof -
  obtain M where "adapt_arguments ascii_valid bump_arena 5000 (w_mem example_world) [ENumber 3, ENull]
      = (STATUS_OK, Some 5000, M)" using example_adapts by blast
  then show ?thesis
    by (simp add: ts_host_registry_callback_adapter_def Let_def example_entry_def
        ts_host_check_owner_thread_def ts_host_context_check_thread_def ts_context_is_owner_thread_def
        call_safe_point_def example_world_def idle_ctx_def idle_runtime_def
        ts_host_instance_enter_callback_def example_callback_def callback_result_def new_builder_def
        ts_host_instance_leave_callback_def set_defs)
qed

text \<open>
  C10: a host callback leaves the call state as it found it.  If the embedder's function keeps the
  call state of the context (the active instance with its state, module and runtime, and the
  callback depth), then so does the whole adapter, on every path: refused arguments, exhausted
  budget, refused entry, error, value.
\<close>

theorem callback_restores_call_state:
  assumes "callback_keeps_frame (fe_ctx entry) (callbacks (fe_callback entry))"
  shows "call_frame (fe_ctx entry)
      (snd (ts_host_registry_callback_adapter utf8 A order callbacks thread pool W e entry args)) =
    call_frame (fe_ctx entry) W"
  using adapter_frame [of entry callbacks utf8 A order thread pool W e args, OF assms] by (metis prod.collapse)

theorem callback_restores_call_state_witness:
  "fst example_adapter = EInteger 42 \<and> call_frame 10 (snd example_adapter) = call_frame 10 example_world"
  using callback_restores_call_state [of example_entry "\<lambda>_. example_callback" ascii_valid bump_arena id 7
      "Some 5000" example_world 40 "Buf [ENumber 3, ENull]"] example_adapter_value
  by (simp add: example_keeps_frame) (simp add: example_entry_def)

section \<open>Every failure reaches the script\<close>

lemma callback_result_cases:
  assumes "callback_result order W c e name s b = (v, W')"
  shows "v = ENull \<and> (thrown W' c e \<or> env_aborted (w_env W' e)) \<or>
    s = STATUS_OK \<and> hb_state b = BUILDER_VALUE \<and> hb_terminal_status b = STATUS_OK \<and> v = hb_value b"
proof -
  obtain r W1 where sp: "(if s = STATUS_OK \<and> hb_terminal_status b = STATUS_OK \<and> hb_state b = BUILDER_VALUE
      then call_safe_point W e SP_CALLBACK_AFTER 0 else (0, W)) = (r, W1)" by fastforce
  note run = assms [unfolded callback_result_def sp prod.case Let_def]
  show ?thesis
    using run by (cases "hb_state b") (auto simp: throw_thrown throw_view_thrown split: if_splits)
qed

text \<open>
  C15: what a script gets from a host function.  Either the function ran, one level deeper, on the
  owner thread, with a number of arguments within its arity, returned OK and stored a value
  successfully, and the script gets that value; or the script gets null and cannot miss the
  failure: the environment throws, with a host-callback diagnostic recorded in the instance of the
  call in progress, or it is aborted.
\<close>

theorem failed_callback_is_visible:
  assumes "ts_host_registry_callback_adapter utf8 A order callbacks thread pool W e entry args = (v, W')"
  shows "v = ENull \<and> (thrown W' (fe_ctx entry) e \<or> env_aborted (w_env W' e)) \<or>
    (\<exists>W3 views b W4.
       callbacks (fe_callback entry) W3 (fe_user_data entry) views (buf_size args)
         (new_builder (fe_ctx entry)) = (STATUS_OK, b, W4) \<and>
       host_callback_depth (w_ctx W3 (fe_ctx entry)) = host_callback_depth (w_ctx W (fe_ctx entry)) + 1 \<and>
       owner_thread_token (w_ctx W (fe_ctx entry)) = thread \<and>
       ucast (fe_min_arity entry) \<le> buf_size args \<and> buf_size args \<le> ucast (fe_max_arity entry) \<and>
       hb_state b = BUILDER_VALUE \<and> hb_terminal_status b = STATUS_OK \<and> v = hb_value b)"
  using assms
proof (cases rule: adapter_cases)
  case (throw W1 s m)
  then show ?thesis by (simp add: throw_thrown)
next
  case (abort W2)
  then show ?thesis by simp
next
  case (ran p views M W2 inst W3 s b W4)
  have "host_callback_depth (w_ctx W3 (fe_ctx entry)) = host_callback_depth (w_ctx W2 (fe_ctx entry)) + 1"
    using ran(8) by (auto simp: ts_host_instance_enter_callback_def Let_def set_defs
        split: if_splits option.splits)
  also have "\<dots> = host_callback_depth (w_ctx W (fe_ctx entry)) + 1" using call_frame_depth [OF ran(7)] by simp
  finally have depth: "host_callback_depth (w_ctx W3 (fe_ctx entry)) =
    host_callback_depth (w_ctx W (fe_ctx entry)) + 1" .
  from callback_result_cases [OF ran(10)] show ?thesis
  proof
    assume "s = STATUS_OK \<and> hb_state b = BUILDER_VALUE \<and> hb_terminal_status b = STATUS_OK \<and> v = hb_value b"
    with ran(1-3,9) depth show ?thesis by blast
  qed blast
qed

theorem failed_callback_is_visible_witness:
  "\<exists>b :: builder. fst example_adapter = EInteger 42 \<and> hb_state b = BUILDER_VALUE \<and> hb_value b = EInteger 42"
proof -
  obtain v W' where run: "example_adapter = (v, W')" by fastforce
  with example_adapter_value have v: "v = EInteger 42" by simp
  then have "v \<noteq> ENull" by simp
  with failed_callback_is_visible [OF run] obtain b :: builder
    where "hb_state b = BUILDER_VALUE" "v = hb_value b" by blast
  with v example_adapter_value show ?thesis by metis
qed

section \<open>What the callback sees\<close>

lemma adapt_args_elems:
  "adapt_args utf8 A st q i xs =
   value_to_elems (argument_style utf8) A callback_limits st False q i (map (Pair []) xs) 1"
  by (induction xs arbitrary: st i)
    (simp_all add: ts_host_arg_view_from_exprtk_def export_key_def elem_addr_def split: prod.split)

text \<open>
  the arguments of a host callback.  When the adaptation succeeds, the callback is given, for
  every argument, a view that denotes a tree with the content of the script value (lists and
  vectors as arrays, maps and objects as records); the views were written only to memory that the
  arena of this callback handed out.
\<close>

theorem callback_sees_arguments:
  assumes laws: "arena_laws A free_in" and wf: "list_all vwf args" and len: "length args < 2 ^ 64"
    and run: "adapt_arguments utf8 A pool M args = (STATUS_OK, views, M')"
  shows "agree (- free_in pool) M M' \<and>
    (args = [] \<and> views = None \<or>
     (\<exists>q. views = Some q \<and>
        (\<forall>j < length args. \<exists>t. tree_of 65 M' (item_addr q j) = Some t \<and>
           tval t = export (content (args ! j)))))"
proof (cases "args = []")
  case True
  with run show ?thesis by (simp add: adapt_arguments_def)
next
  case False
  let ?st = "\<lparr>xs_mem = M, xs_pool = pool, xs_nodes = 0, xs_bytes = 0\<rparr>"
  let ?n = "of_nat (length args) :: size_t"
  obtain s st where ch: "ts_host_registry_charge ?st ?n 24 = (s, st)" by fastforce
  obtain r pool' where al: "mem_alloc_array A (xs_pool st) 24 ?n = (r, pool')" by fastforce
  from run False ch al have s: "s = STATUS_OK" and r: "r \<noteq> None"
    by (auto simp: adapt_arguments_def Let_def split: if_splits option.splits)
  then obtain q where q: "r = Some q" by blast
  obtain st' where el: "adapt_args utf8 A (st\<lparr>xs_pool := pool'\<rparr>) q 0 args = (STATUS_OK, st')"
    and out: "views = Some q" "M' = xs_mem st'"
    using run False ch al s q by (auto simp: adapt_arguments_def Let_def split: prod.splits)
  have st: "xs_mem st = M" "xs_pool st = pool" "xs_nodes st = 0"
    using ch s by (auto simp: ts_host_registry_charge_def Let_def split: if_splits)
  have ok: "xs_ok callback_limits (st\<lparr>xs_pool := pool'\<rparr>)"
    using argument_account.charge_within [OF _ ch [unfolded s]] st(3) by (simp add: xs_ok_def)
  have n: "unat ?n = length args" using len by (simp add: unat_of_nat)
  let ?Q = "{q..<q + unat (24 :: size_t) * unat ?n}"
  note fresh = alloc_array_ok [OF laws al [unfolded q]]
  have "?Q \<inter> free_in (xs_pool (st\<lparr>xs_pool := pool'\<rparr>)) = {}" using fresh(2) [OF refl] by simp
  from to_view_ok(2) [OF laws ok _ _ this el [unfolded adapt_args_elems]] array_slots [OF n, of False q] wf
  have ex: "elems_exported free_in callback_limits 0 (st\<lparr>xs_pool := pool'\<rparr>) st' 65 False q 0 (map (Pair []) args)"
    by (simp add: list_all_iff callback_limits_def TS_HOST_MAX_VALUE_DEPTH_def)
  then have "loop_frame (free_in pool') False q [0..<length args] M M'"
    by (simp add: elems_exported_def out st)
  then have "agree (- (free_in pool' \<union> ?Q)) M M'"
    by (rule loop_frame_agree) (use n in \<open>auto simp: elem_addr_def item_addr_def\<close>)
  then have "agree (- free_in pool) M M'"
    by (rule agree_subset) (use fresh(1) fresh(2) [OF refl] st(2) in auto)
  moreover have "\<exists>t. tree_of 65 M' (item_addr q j) = Some t \<and> tval t = export (content (args ! j))"
    if "j < length args" for j
    using ex that unfolding elems_exported_def elem_exported_def tree_of_tree_at out
    by (auto simp: elem_addr_def simp del: tree_at.simps)
  ultimately show ?thesis using out by blast
qed

theorem callback_sees_arguments_witness:
  "\<exists>M t. adapt_arguments ascii_valid bump_arena 5000 example_mem [ENumber 3, ENull]
       = (STATUS_OK, Some 5000, M) \<and> tree_of 65 M 5000 = Some t \<and> tval t = export (CNumber 3)"
proof -
  obtain M where run: "adapt_arguments ascii_valid bump_arena 5000 example_mem [ENumber 3, ENull]
      = (STATUS_OK, Some 5000, M)" using example_adapts by blast
  have "list_all vwf [ENumber 3, ENull]" by simp
  from callback_sees_arguments [OF bump_arena_laws this _ run] run show ?thesis
    by (auto simp: item_addr_def simp del: tree_of.simps)
qed

section \<open>The builder keeps the first answer\<close>

text \<open>A callback writes to its builder any number of times.\<close>

datatype builder_write = SetValue "addr option" | SetError int sview

fun builder_writes ::
  "('x, 'b) salts \<Rightarrow> order \<Rightarrow> nat \<Rightarrow> 'art world \<Rightarrow> builder \<Rightarrow> builder_write list \<Rightarrow>
   (status list \<times> builder \<times> 'art world) option" where
  "builder_writes E order thread W b [] = Some ([], b, W)"
| "builder_writes E order thread W b (w # ws) =
     (case (case w of SetValue view \<Rightarrow> turbo_script_host_result_set_value E order thread W (Some b) view
              | SetError cause message \<Rightarrow>
                  Some (turbo_script_host_result_set_error E W (Some b) cause message)) of
        None \<Rightarrow> None
      | Some (s, b', W') \<Rightarrow>
          (case builder_writes E order thread W' (the b') ws of
             None \<Rightarrow> None
           | Some (ss, b'', W'') \<Rightarrow> Some (s # ss, b'', W'')))"

lemma builder_full:
  "hb_state b \<noteq> BUILDER_EMPTY \<Longrightarrow>
   builder_writes E order thread W b ws = Some (replicate (length ws) STATUS_INVALID_STATE, b, W)"
  by (induction ws) (auto simp: turbo_script_host_result_set_value_def
      turbo_script_host_result_set_error_def split: builder_write.split)

text \<open>
  The first answer of a callback is final.  Whatever a callback writes to its builder after a
  first value, every later write is refused as an invalid state and changes nothing, and the writes
  always return.  If the first write was accepted, the view it was given denotes a tree within the
  callback limits and the builder holds a value with exactly the content of that tree; if it was
  refused, the builder holds null with the refusing status.
\<close>

theorem builder_keeps_first_value:
  assumes laws: "key_set_laws E keys_of" "order_laws order" and fits: "mem_fits (w_mem W)"
  shows "\<exists>s b W'. builder_writes E order thread W (new_builder c) (SetValue view # ws) =
      Some (s # replicate (length ws) STATUS_INVALID_STATE, b, W') \<and>
    hb_state b = BUILDER_VALUE \<and> hb_terminal_status b = s \<and> call_frame k W' = call_frame k W \<and>
    (if s = STATUS_OK
     then \<exists>a t. view = Some a \<and> tree_of (unat TS_HOST_MAX_VALUE_DEPTH) (w_mem W) a = Some t \<and>
            content (hb_value b) = tval t
     else hb_value b = ENull)"
proof -
  let ?b = "new_builder c"
  have "\<exists>s v W'. ts_host_value_from_view E order thread W c view (Some callback_limits) = Some (s, v, W') \<and>
      call_frame k W' = call_frame k W \<and>
      (if s = STATUS_OK
       then \<exists>a t. view = Some a \<and> tree_of (unat TS_HOST_MAX_VALUE_DEPTH) (w_mem W) a = Some t \<and>
              content v = tval t
       else v = ENull)"
  proof (cases "ts_host_context_check_thread (w_ctx W) thread (Some c) = STATUS_OK")
    case False
    then show ?thesis by (simp add: ts_host_value_from_view_def Let_def)
  next
    case True
    note fv = value_from_view_ok [OF laws fits, where h = "w_heap W" and env = "env_of (w_env W c)"
        and arg = view and limits = "Some callback_limits"]
    then obtain s v env h where run: "ts_host_value_from_view_in_env E order (w_mem W) (w_heap W)
        (Some (env_of (w_env W c))) view (Some callback_limits) = Some (s, v, env, h)"
      by (cases "ts_host_value_from_view_in_env E order (w_mem W) (w_heap W)
        (Some (env_of (w_env W c))) view (Some callback_limits)") auto
    let ?W' = "set_env c (env_back (the env)) (W\<lparr>w_heap := h\<rparr>)"
    from True run have "ts_host_value_from_view E order thread W c view (Some callback_limits) = Some (s, v, ?W')"
      by (simp add: ts_host_value_from_view_def)
    moreover have "if s = STATUS_OK
       then \<exists>a t. view = Some a \<and> tree_of (unat TS_HOST_MAX_VALUE_DEPTH) (w_mem W) a = Some t \<and>
              content v = tval t
       else v = ENull" using fv unfolding run by (auto simp: callback_limits_def split: if_splits)
    ultimately show ?thesis by (intro exI [of _ s] exI [of _ v] exI [of _ ?W']) simp
  qed
  then obtain s v W' where fv:
    "ts_host_value_from_view E order thread W c view (Some callback_limits) = Some (s, v, W')"
    "call_frame k W' = call_frame k W"
    "if s = STATUS_OK
     then \<exists>a t. view = Some a \<and> tree_of (unat TS_HOST_MAX_VALUE_DEPTH) (w_mem W) a = Some t \<and>
            content v = tval t
     else v = ENull" by blast
  let ?b' = "?b\<lparr>hb_state := BUILDER_VALUE, hb_terminal_status := s, hb_value := v\<rparr>"
  have "turbo_script_host_result_set_value E order thread W (Some ?b) view = Some (s, Some ?b', W')"
    using fv(1) by (simp add: turbo_script_host_result_set_value_def new_builder_def)
  moreover have "builder_writes E order thread W' ?b' ws =
      Some (replicate (length ws) STATUS_INVALID_STATE, ?b', W')" by (rule builder_full) simp
  ultimately show ?thesis using fv(2,3)
    by (intro exI [of _ s] exI [of _ ?b'] exI [of _ W']) (cases "s = STATUS_OK"; simp)
qed

theorem builder_keeps_first_value_witness:
  "\<exists>s b W'. builder_writes list_salts id 7 example_world (new_builder 10)
      [SetValue (Some 1000), SetError 3 (Buf ''late''), SetValue None] =
      Some ([s, STATUS_INVALID_STATE, STATUS_INVALID_STATE], b, W') \<and>
    hb_state b = BUILDER_VALUE \<and> hb_terminal_status b = s"
proof -
  let ?ws = "[SetError 3 (Buf ''late''), SetValue None]"
  have "mem_fits (w_mem example_world)" using example_mem_fits by (simp add: example_world_def)
  from builder_keeps_first_value [OF list_salts_laws order_laws_id this, of 7 10 "Some 1000" ?ws 10]
  obtain s b W' where "builder_writes list_salts id 7 example_world (new_builder 10) (SetValue (Some 1000) # ?ws) =
      Some (s # replicate (length ?ws) STATUS_INVALID_STATE, b, W')"
    "hb_state b = BUILDER_VALUE" "hb_terminal_status b = s" by blast
  then show ?thesis
    by (intro exI [of _ s] exI [of _ b] exI [of _ W']) (simp add: numeral_2_eq_2 del: builder_writes.simps)
qed

end
