(* ===== verification/Host_Instance.thy ===== *)
theory Host_Instance
  imports Host_Callback
begin

text \<open>
  Instances of modules (\<^verbatim>\<open>turbo_script/src/host/turbo_script_host_instance.c\<close>): options, export
  handles, creation with its clean-up path, destruction, and the resolution of exports.
\<close>

section \<open>Options\<close>

definition INSTANCE_RETAINED_LIMIT :: size_t where "INSTANCE_RETAINED_LIMIT = 128 * 1024 * 1024"
definition INSTANCE_STACK_LIMIT :: size_t where "INSTANCE_STACK_LIMIT = 1024 * 1024"
definition INSTANCE_RECURSION_LIMIT :: u32 where "INSTANCE_RECURSION_LIMIT = 100"
definition INSTANCE_GLOBAL_LIMIT :: u32 where "INSTANCE_GLOBAL_LIMIT = 4096"
definition INSTANCE_VALUE_DEPTH_LIMIT :: u32 where "INSTANCE_VALUE_DEPTH_LIMIT = 64"
definition INSTANCE_VALUE_NODE_LIMIT :: size_t where "INSTANCE_VALUE_NODE_LIMIT = 65536"
definition INSTANCE_RESULT_LIMIT :: size_t where "INSTANCE_RESULT_LIMIT = 4 * 1024 * 1024"
definition INSTANCE_NAME_LIMIT :: size_t where "INSTANCE_NAME_LIMIT = 4 * 1024 * 1024"
definition CALL_STEP_LIMIT :: u32 where "CALL_STEP_LIMIT = 100000"
definition CALL_LOOP_LIMIT :: u32 where "CALL_LOOP_LIMIT = 10000"
definition CALL_CALLBACK_LIMIT :: u32 where "CALL_CALLBACK_LIMIT = 1024"

lemmas instance_limits =
  INSTANCE_RETAINED_LIMIT_def INSTANCE_STACK_LIMIT_def INSTANCE_RECURSION_LIMIT_def
  INSTANCE_GLOBAL_LIMIT_def INSTANCE_VALUE_DEPTH_LIMIT_def INSTANCE_VALUE_NODE_LIMIT_def
  INSTANCE_RESULT_LIMIT_def INSTANCE_NAME_LIMIT_def CALL_STEP_LIMIT_def CALL_LOOP_LIMIT_def
  CALL_CALLBACK_LIMIT_def

abbreviation (input) EXEC_INTERPRETER :: u32 where "EXEC_INTERPRETER \<equiv> 1"
abbreviation (input) EXEC_JIT :: u32 where "EXEC_JIT \<equiv> 2"

definition turbo_script_instance_options_init :: instance_options where
  "turbo_script_instance_options_init =
     \<lparr>io_struct_size = 88, io_mode = EXEC_INTERPRETER, io_max_retained_bytes = INSTANCE_RETAINED_LIMIT,
      io_max_stack_bytes = INSTANCE_STACK_LIMIT, io_max_recursion = INSTANCE_RECURSION_LIMIT,
      io_max_globals = INSTANCE_GLOBAL_LIMIT, io_max_value_depth = INSTANCE_VALUE_DEPTH_LIMIT,
      io_reserved0 = 0, io_max_value_nodes = INSTANCE_VALUE_NODE_LIMIT,
      io_max_result_bytes = INSTANCE_RESULT_LIMIT, io_reserved = [0, 0, 0, 0]\<rparr>"

definition turbo_script_call_options_init :: call_options where
  "turbo_script_call_options_init =
     \<lparr>co_struct_size = 80, co_max_recursion = INSTANCE_RECURSION_LIMIT, co_max_steps = CALL_STEP_LIMIT,
      co_max_loop_iterations = CALL_LOOP_LIMIT, co_max_host_callbacks = CALL_CALLBACK_LIMIT,
      co_reserved0 = 0, co_max_result_bytes = INSTANCE_RESULT_LIMIT, co_interrupt = None,
      co_reserved = [0, 0, 0, 0]\<rparr>"

definition ts_host_instance_options_valid :: "instance_options option \<Rightarrow> bool" where
  "ts_host_instance_options_valid options =
     (case options of
        None \<Rightarrow> False
      | Some x \<Rightarrow>
          if io_struct_size x \<noteq> 88 \<or> (io_mode x \<noteq> EXEC_INTERPRETER \<and> io_mode x \<noteq> EXEC_JIT) \<or>
             io_max_retained_bytes x = 0 \<or> io_max_stack_bytes x = 0 \<or> io_max_recursion x = 0 \<or>
             io_max_globals x = 0 \<or> io_max_value_depth x = 0 \<or> io_reserved0 x \<noteq> 0 \<or>
             io_max_value_nodes x = 0 \<or> io_max_result_bytes x = 0
          then False
          else list_all (\<lambda>w. w = 0) (io_reserved x))"

definition ts_host_call_options_valid :: "call_options option \<Rightarrow> bool" where
  "ts_host_call_options_valid options =
     (case options of
        None \<Rightarrow> False
      | Some x \<Rightarrow>
          if co_struct_size x \<noteq> 80 \<or> co_max_recursion x = 0 \<or> co_max_steps x = 0 \<or>
             co_max_loop_iterations x = 0 \<or> co_max_host_callbacks x = 0 \<or> co_reserved0 x \<noteq> 0 \<or>
             co_max_result_bytes x = 0
          then False
          else list_all (\<lambda>w. w = 0) (co_reserved x))"

section \<open>Errors\<close>

definition instance_error_code :: "status \<Rightarrow> error_code" where
  "instance_error_code s =
     (if s \<in> {STATUS_INVALID_ARGUMENT, STATUS_VALIDATION_ERROR, STATUS_INVALID_UTF8,
              STATUS_DUPLICATE_RECORD_KEY, STATUS_INVALID_EXPORT_HANDLE, STATUS_NOT_FOUND}
      then ERROR_ARGUMENT
      else if s = STATUS_OUT_OF_MEMORY then ERROR_OOM
      else if s \<in> {STATUS_INVALID_STATE, STATUS_REENTRANT_CALL, STATUS_CONTEXT_MISMATCH,
                   STATUS_WRONG_THREAD}
      then ERROR_STATE
      else if s = STATUS_INTERRUPTED then ERROR_CANCELLED
      else ERROR_RUNTIME)"

definition ts_host_instance_fail ::
  "('x, 'b) salts \<Rightarrow> 'p arena \<Rightarrow> ctx_store \<Rightarrow> nat \<Rightarrow> 'p result option \<Rightarrow> status \<Rightarrow> phase \<Rightarrow> sview \<Rightarrow>
   sview \<Rightarrow> bytes \<Rightarrow> size_t \<Rightarrow> status \<times> 'p result option" where
  "ts_host_instance_fail E A C thread r status phase module_name function_name message limit =
     (status,
      snd (ts_host_result_set_error E A C thread r
             (Some (error_report status (error_code_value (instance_error_code status)) phase 0 0 0
                      module_name function_name message))
             limit))"

definition ts_host_instance_module_name :: "'art module \<Rightarrow> sview" where
  "ts_host_instance_module_name m = Buf (m_module_name m)"

definition ts_host_instance_export_span :: "'art module \<Rightarrow> size_t \<Rightarrow> u32 \<times> u32" where
  "ts_host_instance_export_span m slot =
     (case ts_host_module_entry (Some m) slot of
        None \<Rightarrow> (0, 0)
      | Some entry \<Rightarrow>
          (u32_of_pos (node_line (ex_function_node entry)),
           u32_of_pos (node_column (ex_function_node entry))))"

text \<open>
  \<^verbatim>\<open>ts_host_instance_publish_execution_error\<close>: the diagnostic of a host callback wins over the
  error of the runtime; a missing position falls back to that of the export.
\<close>

definition runtime_error_message :: "runtime \<Rightarrow> sview" where
  "runtime_error_message rt =
     (if env_error_msg rt \<noteq> [] then Buf (env_error_msg rt)
      else (case env_error_value rt of EString p (Buf s) \<Rightarrow> Buf s | _ \<Rightarrow> NullBuf 0))"

definition execution_error ::
  "'art world \<Rightarrow> addr \<Rightarrow> status \<Rightarrow> phase \<Rightarrow> sview \<Rightarrow> size_t \<Rightarrow> bytes \<Rightarrow> error_info" where
  "execution_error W i status phase function_name slot default_message =
     (let x = w_inst W i; d = i_diagnostic x; rt = w_env W (i_runtime x);
          m = w_mod W (i_module x);
          base = no_error
            \<lparr>ei_struct_size := 112, ei_status := status,
             ei_error_code :=
               error_code_value (if status = STATUS_INTERRUPTED then ERROR_CANCELLED else ERROR_RUNTIME),
             ei_phase := phase, ei_module_name := ts_host_instance_module_name m,
             ei_function_name := function_name\<rparr>;
          (err, message) =
            (if d_present d
             then (base\<lparr>ei_status := d_status d, ei_error_code := d_error_code d, ei_phase := d_phase d,
                        ei_line := d_line d, ei_column := d_column d, ei_length := d_length d,
                        ei_cause_code := d_cause_code d, ei_function_name := d_function_name d\<rparr>,
                   case d_message d of Some s \<Rightarrow> Buf s | None \<Rightarrow> NullBuf 0)
             else (base\<lparr>ei_line := (if env_error_line rt > 0 then u32_of_pos (env_error_line rt)
                                    else u32_of_pos (env_last_line rt)),
                        ei_column := (if env_error_column rt > 0 then u32_of_pos (env_error_column rt)
                                      else u32_of_pos (env_last_column rt))\<rparr>,
                   runtime_error_message rt));
          (fallback_line, fallback_column) = ts_host_instance_export_span m slot;
          line = (if ei_line err = 0 then fallback_line else ei_line err);
          column = (if ei_column err = 0 then fallback_column else ei_column err)
      in err\<lparr>ei_line := line, ei_column := column, ei_length := (if line \<noteq> 0 then 1 else 0),
             ei_message := (case message of NullBuf n \<Rightarrow> Buf default_message | Buf s \<Rightarrow> Buf s)\<rparr>)"

definition ts_host_instance_publish_execution_error ::
  "('x, 'b) salts \<Rightarrow> 'p arena \<Rightarrow> nat \<Rightarrow> 'art world \<Rightarrow> addr \<Rightarrow> 'p result option \<Rightarrow> status \<Rightarrow> phase \<Rightarrow> sview \<Rightarrow>
   size_t \<Rightarrow> bytes \<Rightarrow> status \<times> 'p result option \<times> 'art world" where
  "ts_host_instance_publish_execution_error E A thread W i r status phase function_name slot
       default_message =
     (let err = execution_error W i status phase function_name slot default_message in
      (case ts_host_result_set_error E A (w_ctx W) thread r (Some err)
              (io_max_result_bytes (i_limits (w_inst W i))) of
         (store_status, r') \<Rightarrow>
           (if store_status = STATUS_OK then ei_status err else store_status, r',
            set_inst i ts_host_instance_clear_diagnostic W)))"

section \<open>Names, handles and memory\<close>

definition ts_host_instance_validate_name :: "(bytes \<Rightarrow> bool) \<Rightarrow> sview \<Rightarrow> status" where
  "ts_host_instance_validate_name utf8 name =
     (if buf_broken name then STATUS_INVALID_ARGUMENT
      else if buf_size name = 0 \<or> buf_size name > INSTANCE_NAME_LIMIT \<or> CHR 0x00 \<in> set (buf_elems name)
      then (if buf_size name > INSTANCE_NAME_LIMIT then STATUS_LIMIT_EXCEEDED else STATUS_VALIDATION_ERROR)
      else if utf8 (buf_elems name) then STATUS_OK else STATUS_INVALID_UTF8)"

text \<open>
  \<^verbatim>\<open>ts_host_instance_retained_bytes\<close>, given what \<^verbatim>\<open>mem_pool_total_used\<close> answers for the arena of
  the runtime and for those of its closures.
\<close>

fun ts_host_instance_retained_bytes :: "size_t \<Rightarrow> size_t list \<Rightarrow> size_t" where
  "ts_host_instance_retained_bytes used [] = used"
| "ts_host_instance_retained_bytes used (b # bs) =
     (if used > SIZE_MAX - b then SIZE_MAX else ts_host_instance_retained_bytes (used + b) bs)"

definition ts_host_instance_decode_handle ::
  "'art module \<Rightarrow> host_instance \<Rightarrow> u64 \<Rightarrow> status \<times> size_t" where
  "ts_host_instance_decode_handle m x handle =
     (if handle = 0 then (STATUS_INVALID_EXPORT_HANDLE, 0)
      else
        let generation = ucast (drop_bit 32 handle) :: u32; encoded_slot = ucast handle :: u32 in
        if generation = 0 \<or> encoded_slot = 0 \<or> generation \<noteq> i_generation x \<or>
           (ucast (encoded_slot - 1) :: size_t) \<ge> ts_host_module_export_count (Some m)
        then (STATUS_INVALID_EXPORT_HANDLE, 0)
        else (STATUS_OK, ucast (encoded_slot - 1)))"

definition ts_host_export_handle :: "u32 \<Rightarrow> u32 \<Rightarrow> u64" where
  "ts_host_export_handle generation slot =
     or (push_bit 32 (ucast generation)) (ucast slot + 1)"

section \<open>The runtime of an instance\<close>

text \<open>The first script function of that name, from the innermost environment outwards.\<close>

definition find_script_func :: "func_chain \<Rightarrow> bytes \<Rightarrow> exprtk_func option" where
  "find_script_func chain name =
     List.find (\<lambda>f. (case func_data f of ScriptFunc body n \<Rightarrow> True | _ \<Rightarrow> False) \<and> func_name f = Some name)
       (concat chain)"

definition bind_export :: "func_chain \<Rightarrow> export_entry \<Rightarrow> exprtk_func option" where
  "bind_export chain e =
     (case find_script_func chain (ex_name e) of
        Some f \<Rightarrow>
          (case func_data f of
             ScriptFunc (Some body) n \<Rightarrow> if n = ucast (ex_arity e) then Some f else None
           | _ \<Rightarrow> None)
      | None \<Rightarrow> None)"

text \<open>\<open>array_ok\<close> says whether \<^verbatim>\<open>mem_alloc_array\<close> has room for the bindings.\<close>

definition ts_host_instance_bind_exports :: "bool \<Rightarrow> 'art module \<Rightarrow> runtime \<Rightarrow> status \<times> runtime" where
  "ts_host_instance_bind_exports array_ok m rt =
     (if m_exports m = [] then (STATUS_OK, rt)
      else if \<not> array_ok then (STATUS_OUT_OF_MEMORY, rt)
      else
        (case those (map (bind_export (env_funcs rt)) (m_exports m)) of
           None \<Rightarrow> (STATUS_INVALID_STATE, rt)
         | Some fs \<Rightarrow> (STATUS_OK, rt\<lparr>rt_export_functions := fs\<rparr>)))"

text \<open>
  The runtime context after \<^verbatim>\<open>calloc\<close>, \<^verbatim>\<open>exprtk_env_init\<close> and the limits of the options, before
  the host functions are bound.
\<close>

definition new_runtime :: "addr \<Rightarrow> pool \<Rightarrow> instance_options \<Rightarrow> runtime" where
  "new_runtime a pool options =
     \<lparr>rt_self = a, active_host_budget = None, env_safe_point = None, env_safe_point_user_data = None,
      env_aborted = False, env_flow_throw = False, env_error_msg = [], env_error_line = 0,
      env_error_column = 0, env_last_line = 0, env_last_column = 0, env_error_value = ENull,
      env_pool = pool, env_funcs = [[]], env_max_recursion = io_max_recursion options,
      env_max_nodes =
        (if unat (io_max_value_nodes options) > UINT32_MAX then 4294967295
         else ucast (io_max_value_nodes options)),
      env_max_loop_iterations = 10000, rt_error_code = ERROR_NONE, rt_error_msg = [],
      rt_export_functions = [], rt_interrupt = None, rt_polls = 0\<rparr>"

text \<open>\<open>block\<close> is the address \<^verbatim>\<open>calloc\<close> gives, \<open>malloc_ok\<close> the outcomes of the registration.\<close>

definition ts_host_instance_runtime_create ::
  "nat \<Rightarrow> 'art world \<Rightarrow> addr \<Rightarrow> instance_options \<Rightarrow> addr option \<Rightarrow> (nat \<Rightarrow> bool) \<Rightarrow>
   status \<times> addr option \<times> 'art world" where
  "ts_host_instance_runtime_create thread W m options block malloc_ok =
     (case block of
        None \<Rightarrow> (STATUS_OUT_OF_MEMORY, None, W)
      | Some a \<Rightarrow>
          (case new_pool (w_heap W) of
             (pool, h) \<Rightarrow>
               let rt = new_runtime a pool options in
               (case ts_host_registry_bind_runtime malloc_ok (w_ctx W) thread (Some (m_ctx (w_mod W m)))
                       (Some (env_funcs rt)) of
                  (s, funcs) \<Rightarrow>
                    if s \<noteq> STATUS_OK then (s, None, W)
                    else (STATUS_OK, Some a,
                          set_env a (\<lambda>_. rt\<lparr>env_funcs := the funcs\<rparr>) (W\<lparr>w_heap := h\<rparr>)))))"

section \<open>Creation and destruction\<close>

text \<open>
  The execution engine: the initializer of a module, a call of an export, its numeric variant, and
  the bytes in use in the arenas of a runtime.  \<open>bool\<close> tells the JIT from the interpreter.
\<close>

record 'art backend =
  be_initialize :: "'art \<Rightarrow> bool \<Rightarrow> 'art world \<Rightarrow> addr \<Rightarrow> int \<times> 'art world"
  be_call :: "'art \<Rightarrow> bool \<Rightarrow> 'art world \<Rightarrow> addr \<Rightarrow> size_t \<Rightarrow> exprtk_value list \<Rightarrow> int \<times> exprtk_value \<times> 'art world"
  be_numeric :: "'art \<Rightarrow> bool \<Rightarrow> 'art world \<Rightarrow> addr \<Rightarrow> size_t \<Rightarrow> u64 list \<Rightarrow> int \<times> u64 \<times> 'art world"
  be_used :: "'art world \<Rightarrow> addr \<Rightarrow> size_t \<times> size_t list"

definition ts_host_module_execute_initializer_with_runtime ::
  "'art backend \<Rightarrow> nat \<Rightarrow> 'art world \<Rightarrow> addr option \<Rightarrow> addr option \<Rightarrow> bool \<Rightarrow> status \<times> 'art world" where
  "ts_host_module_execute_initializer_with_runtime B thread W module runtime use_jit =
     (case (module, runtime) of
        (Some m, Some rt) \<Rightarrow>
          if ts_host_check_owner_thread (w_ctx W) thread (Some (m_ctx (w_mod W m))) \<noteq> STATUS_OK
          then (STATUS_WRONG_THREAD, W)
          else
            (case be_initialize B (m_artifact (w_mod W m)) use_jit W rt of
               (r, W') \<Rightarrow> (if r = 0 then STATUS_OK else STATUS_RUNTIME_ERROR, W'))
      | _ \<Rightarrow> (STATUS_INVALID_ARGUMENT, W))"

text \<open>The initializer run in the module's own context, which only tests use.\<close>

definition ts_host_module_execute_initializer ::
  "'art backend \<Rightarrow> nat \<Rightarrow> 'art world \<Rightarrow> addr option \<Rightarrow> bool \<Rightarrow> status \<times> 'art world" where
  "ts_host_module_execute_initializer B thread W module use_jit =
     ts_host_module_execute_initializer_with_runtime B thread W module
       (map_option (\<lambda>m. m_ctx (w_mod W m)) module) use_jit"

text \<open>The allocations of a creation: the instance, its runtime, the registrations, the bindings.\<close>

record create_mem =
  cm_instance :: "addr option"
  cm_runtime :: "addr option"
  cm_malloc :: "nat \<Rightarrow> bool"
  cm_bindings :: bool

definition new_instance :: "addr \<Rightarrow> instance_options \<Rightarrow> host_instance" where
  "new_instance m options =
     \<lparr>i_module = m, i_runtime = 0, i_limits = options, i_generation = 0, i_mode = io_mode options,
      i_state = INSTANCE_READY, i_diagnostic = no_diagnostic, i_initializer_count = 0\<rparr>"

text \<open>The checks before anything is allocated: the refusal, its message and its byte limit.\<close>

definition create_arguments ::
  "'art world \<Rightarrow> addr \<Rightarrow> instance_options option \<Rightarrow> bool \<Rightarrow> (status \<times> bytes \<times> size_t) option" where
  "create_arguments W m options has_out =
     (let c = w_ctx W (m_ctx (w_mod W m)) in
      if \<not> has_out
      then Some (STATUS_INVALID_ARGUMENT, ''instance output is required'', INSTANCE_RESULT_LIMIT)
      else if closing c \<or> \<not> m_accepting_instances (w_mod W m)
      then Some (STATUS_INVALID_STATE, ''module context is closing'', INSTANCE_RESULT_LIMIT)
      else if \<not> ts_host_instance_options_valid options
      then Some (STATUS_INVALID_ARGUMENT, ''invalid instance options'', INSTANCE_RESULT_LIMIT)
      else if next_instance_generation c = 0 \<or> unat (next_instance_generation c) > UINT32_MAX
      then Some (STATUS_LIMIT_EXCEEDED, ''instance generation exhausted'',
                 io_max_result_bytes (the options))
      else None)"

text \<open>
  The body between the pinning of the module and the publication of the instance at \<open>i\<close>: runtime,
  initializer, bindings, retained memory.
\<close>

definition create_body ::
  "'art backend \<Rightarrow> nat \<Rightarrow> create_mem \<Rightarrow> 'art world \<Rightarrow> addr \<Rightarrow> addr \<Rightarrow> instance_options \<Rightarrow> status \<times> 'art world"
  where
  "create_body B thread mem W m i options =
     (case ts_host_instance_runtime_create thread W m options (cm_runtime mem) (cm_malloc mem) of
        (s, rt, W1) \<Rightarrow>
          if s \<noteq> STATUS_OK then (s, W1)
          else
            let W2 = set_inst i (\<lambda>x. x\<lparr>i_runtime := the rt\<rparr>) W1 in
            (case ts_host_module_execute_initializer_with_runtime B thread W2 (Some m) rt
                    (io_mode options = EXEC_JIT) of
               (s, W3) \<Rightarrow>
                 if s \<noteq> STATUS_OK then (s, W3)
                 else
                   (case ts_host_instance_bind_exports (cm_bindings mem) (w_mod W3 m) (w_env W3 (the rt)) of
                      (s, rt') \<Rightarrow>
                        let W4 = set_env (the rt) (\<lambda>_. rt') W3 in
                        if s \<noteq> STATUS_OK then (s, W4)
                        else
                          let W5 = set_inst i (\<lambda>x. x\<lparr>i_initializer_count := 1\<rparr>) W4;
                              (arena, closures) = be_used B W5 (the rt)
                          in
                          if ts_host_instance_retained_bytes arena closures > io_max_retained_bytes options
                          then (STATUS_LIMIT_EXCEEDED, W5)
                          else (STATUS_OK, W5))))"

text \<open>\<^verbatim>\<open>turbo_script_instance_create\<close>; the outer \<open>None\<close> is \<^verbatim>\<open>abort\<close>.\<close>

definition turbo_script_instance_create ::
  "('x, 'b) salts \<Rightarrow> 'p arena \<Rightarrow> 'art backend \<Rightarrow> nat \<Rightarrow> create_mem \<Rightarrow> 'art world \<Rightarrow> addr option \<Rightarrow>
   instance_options option \<Rightarrow> 'p result option \<Rightarrow> bool \<Rightarrow>
   (status \<times> addr option \<times> 'p result option \<times> 'art world) option" where
  "turbo_script_instance_create E A B thread mem W module options r has_out =
     (case module of
        None \<Rightarrow> Some (STATUS_INVALID_ARGUMENT, None, r, W)
      | Some m \<Rightarrow>
          let c = m_ctx (w_mod W m); name = ts_host_instance_module_name (w_mod W m);
              failed = (\<lambda>r W s msg limit.
                case ts_host_instance_fail E A (w_ctx W) thread r s PHASE_INSTANTIATE name (NullBuf 0)
                       msg limit of (s, r) \<Rightarrow> (s, None, r, W))
          in
          (case ts_host_registry_begin_api A (w_ctx W) thread (Some c) r of
             (s, r) \<Rightarrow>
               if s \<noteq> STATUS_OK then Some (s, None, r, W)
               else
                 (case create_arguments W m options has_out of
                    Some (s, msg, limit) \<Rightarrow> Some (failed r W s msg limit)
                  | None \<Rightarrow>
                      let opts = the options; limit = io_max_result_bytes opts in
                      (case cm_instance mem of
                         None \<Rightarrow>
                           Some (failed r W STATUS_OUT_OF_MEMORY ''instance allocation failed'' limit)
                       | Some i \<Rightarrow>
                           (case ts_host_module_retain (w_mod W) m of
                              None \<Rightarrow> None
                            | Some M \<Rightarrow>
                                (case create_body B thread mem
                                        (set_inst i (\<lambda>_. new_instance m opts) (W\<lparr>w_mod := M\<rparr>)) m i opts of
                                   (s, W1) \<Rightarrow>
                                     if s = STATUS_OK
                                     then
                                       let g = next_instance_generation (w_ctx W1 c) in
                                       Some (STATUS_OK, Some i, r,
                                         set_ctx c (\<lambda>k. k\<lparr>next_instance_generation := g + 1\<rparr>)
                                           (set_inst i (\<lambda>x. x\<lparr>i_generation := ucast g\<rparr>) W1))
                                     else
                                       (case failed r W1 s
                                               (if s = STATUS_LIMIT_EXCEEDED
                                                then ''instance retained memory limit exceeded''
                                                else ''instance initialization failed'') limit of
                                          (s, out, r, W2) \<Rightarrow>
                                            (case ts_host_module_release thread (w_ctx W2) (w_mod W2) m of
                                               None \<Rightarrow> None
                                             | Some (C, M) \<Rightarrow>
                                                 Some (s, out, r, W2\<lparr>w_ctx := C, w_mod := M\<rparr>)))))))))"

text \<open>The common start of the operations on an instance.\<close>

definition ts_host_instance_begin ::
  "('x, 'b) salts \<Rightarrow> 'p arena \<Rightarrow> nat \<Rightarrow> 'art world \<Rightarrow> addr option \<Rightarrow> 'p result option \<Rightarrow> phase \<Rightarrow>
   status \<times> 'p result option" where
  "ts_host_instance_begin E A thread W inst r phase =
     (case inst of
        None \<Rightarrow> (STATUS_INVALID_ARGUMENT, r)
      | Some i \<Rightarrow>
          let c = instance_ctx W i in
          (case ts_host_registry_begin_api A (w_ctx W) thread (Some c) r of
             (s, r) \<Rightarrow>
               if s \<noteq> STATUS_OK then (s, r)
               else if closing (w_ctx W c) \<and> phase \<noteq> PHASE_NONE
               then ts_host_instance_fail E A (w_ctx W) thread r STATUS_INVALID_STATE phase
                      (ts_host_instance_module_name (w_mod W (i_module (w_inst W i)))) (NullBuf 0)
                      ''context is closing'' (io_max_result_bytes (i_limits (w_inst W i)))
               else (STATUS_OK, r)))"

definition turbo_script_instance_destroy ::
  "('x, 'b) salts \<Rightarrow> 'p arena \<Rightarrow> nat \<Rightarrow> 'art world \<Rightarrow> addr option \<Rightarrow> 'p result option \<Rightarrow>
   (status \<times> 'p result option \<times> 'art world) option" where
  "turbo_script_instance_destroy E A thread W inst r =
     (case ts_host_instance_begin E A thread W inst r PHASE_NONE of
        (s, r) \<Rightarrow>
          if s \<noteq> STATUS_OK then Some (s, r, W)
          else
            let i = the inst; x = w_inst W i in
            if i_state x \<noteq> INSTANCE_READY \<and> i_state x \<noteq> INSTANCE_FAULTED
            then
              (case ts_host_instance_fail E A (w_ctx W) thread r STATUS_INVALID_STATE PHASE_NONE
                      (ts_host_instance_module_name (w_mod W (i_module x))) (NullBuf 0)
                      ''instance cannot be destroyed while executing'' (io_max_result_bytes (i_limits x)) of
                 (s, r) \<Rightarrow> Some (s, r, W))
            else
              let W1 = set_inst i
                    (\<lambda>x. (ts_host_instance_clear_diagnostic x)\<lparr>i_state := INSTANCE_DESTROYED\<rparr>) W
              in
              (case ts_host_module_release thread (w_ctx W1) (w_mod W1) (i_module x) of
                 None \<Rightarrow> None
               | Some (C, M) \<Rightarrow> Some (STATUS_OK, r, W1\<lparr>w_ctx := C, w_mod := M\<rparr>)))"

section \<open>Exports\<close>

fun find_export :: "export_entry list \<Rightarrow> bytes \<Rightarrow> nat option" where
  "find_export [] name = None"
| "find_export (e # es) name = (if ex_name e = name then Some 0 else map_option Suc (find_export es name))"

text \<open>The handle that was written to the output, if anything was.\<close>

definition turbo_script_instance_resolve_export ::
  "('x, 'b) salts \<Rightarrow> 'p arena \<Rightarrow> nat \<Rightarrow> 'art world \<Rightarrow> addr option \<Rightarrow> sview \<Rightarrow> 'p result option \<Rightarrow> bool \<Rightarrow>
   status \<times> 'p result option \<times> u64 option" where
  "turbo_script_instance_resolve_export E A thread W inst name r has_out =
     (case ts_host_instance_begin E A thread W inst r PHASE_RESOLVE of
        (s, r) \<Rightarrow>
          if s \<noteq> STATUS_OK then (s, r, None)
          else
            let x = w_inst W (the inst); m = w_mod W (i_module x);
                failed = (\<lambda>s msg out.
                  case ts_host_instance_fail E A (w_ctx W) thread r s PHASE_RESOLVE
                         (ts_host_instance_module_name m) name msg (io_max_result_bytes (i_limits x)) of
                    (s, r) \<Rightarrow> (s, r, out))
            in
            if \<not> has_out then failed STATUS_INVALID_ARGUMENT ''export handle output is required'' None
            else
              let s = ts_host_instance_validate_name (utf8_valid E) name in
              if s \<noteq> STATUS_OK then failed s ''invalid export name'' (Some 0)
              else
                (case find_export (m_exports m) (buf_elems name) of
                   None \<Rightarrow> failed STATUS_NOT_FOUND ''export was not found'' (Some 0)
                 | Some k \<Rightarrow>
                     if k \<ge> UINT32_MAX
                     then failed STATUS_LIMIT_EXCEEDED ''export slot cannot be encoded'' (Some 0)
                     else (STATUS_OK, r, Some (ts_host_export_handle (i_generation x) (of_nat k)))))"

record export_info =
  xi_struct_size :: u32
  xi_min_arity :: u32
  xi_max_arity :: u32
  xi_reserved0 :: u32
  xi_name :: sview
  xi_reserved :: "u64 list"

definition turbo_script_instance_get_export_info ::
  "('x, 'b) salts \<Rightarrow> 'p arena \<Rightarrow> nat \<Rightarrow> 'art world \<Rightarrow> addr option \<Rightarrow> u64 \<Rightarrow> 'p result option \<Rightarrow>
   export_info option \<Rightarrow> status \<times> 'p result option \<times> export_info option" where
  "turbo_script_instance_get_export_info E A thread W inst handle r out_info =
     (case ts_host_instance_begin E A thread W inst r PHASE_RESOLVE of
        (s, r) \<Rightarrow>
          if s \<noteq> STATUS_OK then (s, r, out_info)
          else
            let x = w_inst W (the inst); m = w_mod W (i_module x);
                failed = (\<lambda>s msg.
                  case ts_host_instance_fail E A (w_ctx W) thread r s PHASE_RESOLVE
                         (ts_host_instance_module_name m) (NullBuf 0) msg
                         (io_max_result_bytes (i_limits x)) of
                    (s, r) \<Rightarrow> (s, r, out_info))
            in
            if (case out_info of
                  None \<Rightarrow> True
                | Some info \<Rightarrow> xi_struct_size info \<noteq> 64 \<or> xi_reserved0 info \<noteq> 0 \<or>
                    \<not> list_all (\<lambda>w. w = 0) (xi_reserved info))
            then failed STATUS_INVALID_ARGUMENT ''invalid export info structure''
            else
              (case ts_host_instance_decode_handle m x handle of
                 (s, slot) \<Rightarrow>
                   if s \<noteq> STATUS_OK then failed s ''invalid export handle''
                   else
                     (case ts_host_module_export_name (Some m) slot of
                        None \<Rightarrow> (STATUS_INVALID_STATE, r, out_info)
                      | Some name \<Rightarrow>
                          let arity = ts_host_module_export_arity (Some m) slot in
                          (STATUS_OK, r,
                           Some \<lparr>xi_struct_size = 64, xi_min_arity = arity, xi_max_arity = arity,
                                 xi_reserved0 = 0, xi_name = Buf name, xi_reserved = [0, 0, 0, 0]\<rparr>))))"

definition ts_host_instance_mode :: "host_instance option \<Rightarrow> u32" where
  "ts_host_instance_mode x = (case x of Some i \<Rightarrow> i_mode i | None \<Rightarrow> 0)"

definition ts_host_instance_generation :: "host_instance option \<Rightarrow> u32" where
  "ts_host_instance_generation x = (case x of Some i \<Rightarrow> i_generation i | None \<Rightarrow> 0)"

definition ts_host_instance_initializer_count :: "host_instance option \<Rightarrow> size_t" where
  "ts_host_instance_initializer_count x = (case x of Some i \<Rightarrow> i_initializer_count i | None \<Rightarrow> 0)"

section \<open>Handles\<close>

definition pack_handle :: "u32 \<Rightarrow> u32 \<Rightarrow> u64" where
  "pack_handle g e = or (push_bit 32 (ucast g)) (ucast e)"

lemma pack_high: "ucast (drop_bit 32 (pack_handle g e)) = g"
  by (rule bit_word_eqI) (auto simp: pack_handle_def bit_simps dest: bit_imp_le_length)

lemma pack_low: "ucast (pack_handle g e) = e"
  by (rule bit_word_eqI) (auto simp: pack_handle_def bit_simps)

lemma pack_halves: "pack_handle (ucast (drop_bit 32 h)) (ucast h) = h"
  by (rule bit_word_eqI) (auto simp: pack_handle_def bit_simps not_less)

lemma unat_ucast_mod: "unat (ucast (w :: 'a::len word) :: 'b::len word) = unat w mod 2 ^ LENGTH('b)"
  by (simp add: unsigned_ucast_eq take_bit_eq_mod)

lemma ucast_succ: "(s :: u32) \<noteq> 4294967295 \<Longrightarrow> (ucast s + 1 :: u64) = ucast (s + 1)"
proof -
  assume "s \<noteq> 4294967295"
  then have "unat s \<noteq> unat (4294967295 :: u32)" by (simp only: word_unat_eq_iff simp_thms)
  then have "unat s + 1 < 2 ^ 32" using unat_lt_2_32 [of s] by simp
  then have "unat (ucast s + 1 :: u64) = unat (ucast (s + 1) :: u64)"
    by (simp add: unat_word_ariths unat_ucast_mod)
  then show ?thesis by (simp only: word_unat_eq_iff)
qed

lemma ucast_up_down: "(ucast (ucast (w :: u32) :: size_t) :: u32) = w"
  by (rule bit_word_eqI) (auto simp: bit_simps)

lemma export_handle_pack: "slot \<noteq> 4294967295 \<Longrightarrow> ts_host_export_handle g slot = pack_handle g (slot + 1)"
  by (simp add: ts_host_export_handle_def pack_handle_def ucast_succ)

lemma pack_eq_iff: "pack_handle g e = pack_handle g' e' \<longleftrightarrow> g = g' \<and> e = e'"
  by (metis pack_high pack_low)

lemma decode_pack:
  "ts_host_instance_decode_handle m x (pack_handle g e) =
     (if g \<noteq> 0 \<and> e \<noteq> 0 \<and> g = i_generation x \<and>
         (ucast (e - 1) :: size_t) < of_nat (length (m_exports m))
      then (STATUS_OK, ucast (e - 1)) else (STATUS_INVALID_EXPORT_HANDLE, 0))"
proof (cases "pack_handle g e = 0")
  case True
  then have "pack_handle g e = pack_handle 0 0" by (simp add: pack_handle_def)
  then have "g = 0" "e = 0" by (simp_all add: pack_eq_iff)
  then show ?thesis by (simp add: ts_host_instance_decode_handle_def pack_handle_def)
next
  case False
  then show ?thesis
    by (auto simp: ts_host_instance_decode_handle_def pack_high pack_low ts_host_module_export_count_def not_le)
qed

lemma decode_handle_iff:
  assumes "i_generation x \<noteq> 0" and "length (m_exports m) \<le> unat MODULE_EXPORT_LIMIT"
  shows "ts_host_instance_decode_handle m x h = (STATUS_OK, slot) \<longleftrightarrow>
      unat slot < length (m_exports m) \<and> h = ts_host_export_handle (i_generation x) (ucast slot)"
proof -
  have few: "length (m_exports m) \<le> 256" using assms(2) by (simp add: MODULE_EXPORT_LIMIT_def)
  have small: "(ucast (ucast s :: u32) :: size_t) = s" "(ucast s :: u32) \<noteq> 4294967295" "(ucast s + 1 :: u32) \<noteq> 0"
    if "unat s < length (m_exports m)" for s :: size_t
  proof -
    have "unat s < 256" using that few by simp
    then have u: "unat (ucast s :: u32) = unat s" by (simp add: unat_ucast_mod)
    then show "(ucast (ucast s :: u32) :: size_t) = s" by (simp add: word_unat_eq_iff unat_ucast_mod)
    from u \<open>unat s < 256\<close> show "(ucast s :: u32) \<noteq> 4294967295" by auto
    have "unat (ucast s + 1 :: u32) = unat s + 1" using u \<open>unat s < 256\<close> by (simp add: unat_word_ariths)
    then show "(ucast s + 1 :: u32) \<noteq> 0" by auto
  qed
  have below: "(s :: size_t) < of_nat (length (m_exports m)) \<longleftrightarrow> unat s < length (m_exports m)" for s
    using few by (simp add: word_less_nat_alt unat_of_nat)
  obtain g e where h: "h = pack_handle g e" by (metis pack_halves)
  show ?thesis
  proof
    assume d: "ts_host_instance_decode_handle m x h = (STATUS_OK, slot)"
    then have ok: "g = i_generation x" "slot = ucast (e - 1)" "unat slot < length (m_exports m)"
      unfolding h decode_pack below by (auto split: if_splits)
    have "(ucast slot :: u32) = e - 1" using ok(2) by (simp add: ucast_up_down)
    with small [OF ok(3)] ok h show "unat slot < length (m_exports m) \<and>
        h = ts_host_export_handle (i_generation x) (ucast slot)" by (simp add: export_handle_pack)
  next
    assume "unat slot < length (m_exports m) \<and> h = ts_host_export_handle (i_generation x) (ucast slot)"
    with small [of slot] assms(1) show "ts_host_instance_decode_handle m x h = (STATUS_OK, slot)"
      by (simp add: export_handle_pack decode_pack below)
  qed
qed

text \<open>
  C4: export handles.  An instance with a nonzero generation accepts exactly the handles that were
  issued for its generation and one of its export slots, and reads that slot from them; the handles
  of any other generation, whatever slot they carry, are refused.
\<close>

theorem handle_accepted_iff_issued:
  assumes "i_generation x \<noteq> 0" and "length (m_exports m) \<le> unat MODULE_EXPORT_LIMIT"
  shows "(ts_host_instance_decode_handle m x h = (STATUS_OK, slot) \<longleftrightarrow>
      unat slot < length (m_exports m) \<and> h = ts_host_export_handle (i_generation x) (ucast slot)) \<and>
    (\<forall>g k. g \<noteq> i_generation x \<and> k \<noteq> 4294967295 \<longrightarrow>
      ts_host_instance_decode_handle m x (ts_host_export_handle g k) = (STATUS_INVALID_EXPORT_HANDLE, 0))"
  using decode_handle_iff [OF assms] by (simp add: export_handle_pack decode_pack)

definition example_export :: export_entry where
  "example_export =
     \<lparr>ex_name = ''area'', ex_arity = 2, ex_line = 4, ex_column = 1, ex_declaration_node = example_ast,
      ex_function_node = example_ast\<rparr>"

theorem handle_accepted_iff_issued_witness:
  "ts_host_instance_decode_handle (example_module\<lparr>m_exports := [example_export]\<rparr>) ready_instance
     (ts_host_export_handle 1 0) = (STATUS_OK, 0) \<and>
   fst (ts_host_instance_decode_handle (example_module\<lparr>m_exports := [example_export]\<rparr>) ready_instance
     (ts_host_export_handle 2 0)) = STATUS_INVALID_EXPORT_HANDLE"
  using handle_accepted_iff_issued [of ready_instance "example_module\<lparr>m_exports := [example_export]\<rparr>"
      "ts_host_export_handle 1 0" 0]
  by (simp add: ready_instance_def MODULE_EXPORT_LIMIT_def)

section \<open>Resolving an export\<close>

lemma find_export_Some: "find_export es name = Some k \<Longrightarrow> k < length es \<and> ex_name (es ! k) = name"
  by (induction es arbitrary: k) (auto split: if_splits)

lemma find_export_None: "find_export es name = None \<longleftrightarrow> name \<notin> ex_name ` set es"
  by (induction es) auto

lemma decode_issued:
  assumes "i_generation x \<noteq> 0" "length (m_exports m) \<le> unat MODULE_EXPORT_LIMIT" "k < length (m_exports m)"
  shows "ts_host_instance_decode_handle m x (ts_host_export_handle (i_generation x) (of_nat k)) =
    (STATUS_OK, of_nat k)"
proof -
  have k: "k < 256" using assms(2,3) by (simp add: MODULE_EXPORT_LIMIT_def)
  then have "unat (of_nat k :: size_t) = k" by (simp add: unat_of_nat)
  moreover have "(ucast (of_nat k :: size_t) :: u32) = of_nat k"
    using k by (simp add: word_unat_eq_iff unat_ucast_mod unat_of_nat)
  ultimately show ?thesis using decode_handle_iff [OF assms(1,2), of _ "of_nat k"] assms(3) by simp
qed

definition blank_info :: "export_info \<Rightarrow> bool" where
  "blank_info info \<longleftrightarrow> xi_struct_size info = 64 \<and> xi_reserved0 info = 0 \<and> list_all (\<lambda>w. w = 0) (xi_reserved info)"

lemma info_of_issued:
  fixes W :: "'art world" and i
  defines "m \<equiv> w_mod W (i_module (w_inst W i))"
  assumes "i_generation (w_inst W i) \<noteq> 0" "length (m_exports m) \<le> unat MODULE_EXPORT_LIMIT"
    "k < length (m_exports m)" and begin_ok: "ts_host_instance_begin E A thread W (Some i) r PHASE_RESOLVE = (STATUS_OK, r')"
    and "blank_info info"
  shows "turbo_script_instance_get_export_info E A thread W (Some i)
      (ts_host_export_handle (i_generation (w_inst W i)) (of_nat k)) r (Some info) =
    (STATUS_OK, r', Some \<lparr>xi_struct_size = 64, xi_min_arity = ex_arity (m_exports m ! k),
       xi_max_arity = ex_arity (m_exports m ! k), xi_reserved0 = 0, xi_name = Buf (ex_name (m_exports m ! k)),
       xi_reserved = [0, 0, 0, 0]\<rparr>)"
proof -
  have "k < 256" using assms(3,4) by (simp add: MODULE_EXPORT_LIMIT_def)
  then have "ts_host_module_entry (Some m) (of_nat k) = Some (m_exports m ! k)"
    using assms(4) by (simp add: ts_host_module_entry_def unat_of_nat)
  moreover note decode_issued [OF assms(2-4)]
  ultimately show ?thesis
    using assms(6) begin_ok
    by (simp add: turbo_script_instance_get_export_info_def Let_def blank_info_def
        ts_host_module_export_name_def ts_host_module_export_arity_def m_def [symmetric])
qed

text \<open>
  resolving an export and asking about it.  For an instance of a compiled module, a well-formed
  name resolves exactly when the module exports it; the handle then describes, through the same
  instance, the export of that name with its arity.  A failed resolution hands out no handle but 0,
  which is never valid.
\<close>

theorem resolved_export_is_described:
  fixes W :: "'art world" and i
  defines "m \<equiv> w_mod W (i_module (w_inst W i))"
  assumes "i_generation (w_inst W i) \<noteq> 0" "length (m_exports m) \<le> unat MODULE_EXPORT_LIMIT"
    and start: "ts_host_instance_begin E A thread W (Some i) r PHASE_RESOLVE = (STATUS_OK, r0)"
    and name: "ts_host_instance_validate_name (utf8_valid E) (Buf name) = STATUS_OK"
    and run: "turbo_script_instance_resolve_export E A thread W (Some i) (Buf name) r True = (s, r1, out)"
  shows "(s = STATUS_OK \<longleftrightarrow> name \<in> ex_name ` set (m_exports m)) \<and>
    (if s = STATUS_OK
     then \<exists>h e. out = Some h \<and> e \<in> set (m_exports m) \<and> ex_name e = name \<and>
       (\<forall>r2 r3 info. ts_host_instance_begin E A thread W (Some i) r2 PHASE_RESOLVE = (STATUS_OK, r3) \<and>
          blank_info info \<longrightarrow>
          turbo_script_instance_get_export_info E A thread W (Some i) h r2 (Some info) =
            (STATUS_OK, r3, Some \<lparr>xi_struct_size = 64, xi_min_arity = ex_arity e, xi_max_arity = ex_arity e,
               xi_reserved0 = 0, xi_name = Buf name, xi_reserved = [0, 0, 0, 0]\<rparr>))
     else out = Some 0 \<and> fst (ts_host_instance_decode_handle m (w_inst W i) 0) \<noteq> STATUS_OK)"
proof (cases "find_export (m_exports m) name")
  case None
  with run start name show ?thesis
    unfolding turbo_script_instance_resolve_export_def m_def [symmetric]
    by (simp add: Let_def ts_host_instance_fail_def find_export_None ts_host_instance_decode_handle_def
        m_def [symmetric])
next
  case (Some k)
  note k = find_export_Some [OF Some]
  then have "k < 256" using assms(3) by (simp add: MODULE_EXPORT_LIMIT_def)
  then have s: "s = STATUS_OK" and out: "out = Some (ts_host_export_handle (i_generation (w_inst W i)) (of_nat k))"
    using run start name Some unfolding turbo_script_instance_resolve_export_def m_def [symmetric]
    by (simp_all add: Let_def m_def [symmetric])
  have e: "m_exports m ! k \<in> set (m_exports m)" "ex_name (m_exports m ! k) = name" using k by auto
  then have "name \<in> ex_name ` set (m_exports m)" by blast
  moreover have "\<forall>r2 r3 info. ts_host_instance_begin E A thread W (Some i) r2 PHASE_RESOLVE = (STATUS_OK, r3) \<and>
      blank_info info \<longrightarrow> turbo_script_instance_get_export_info E A thread W (Some i)
        (ts_host_export_handle (i_generation (w_inst W i)) (of_nat k)) r2 (Some info) =
      (STATUS_OK, r3, Some \<lparr>xi_struct_size = 64, xi_min_arity = ex_arity (m_exports m ! k),
         xi_max_arity = ex_arity (m_exports m ! k), xi_reserved0 = 0, xi_name = Buf name,
         xi_reserved = [0, 0, 0, 0]\<rparr>)"
    using info_of_issued [OF assms(2,3) [unfolded m_def], of k E A thread, folded m_def] k by simp
  ultimately show ?thesis using s out e by fastforce
qed

definition export_world :: "nat world" where
  "export_world =
     example_world\<lparr>w_mod := \<lambda>_. example_module\<lparr>m_ctx := 10, m_ref_count := 2, m_exports := [example_export]\<rparr>\<rparr>"

abbreviation (input) world_result :: "addr result" where "world_result \<equiv> example_result\<lparr>res_ctx := 10\<rparr>"

lemma export_world_begin:
  "ts_host_instance_begin list_salts bump_arena 7 export_world (Some i) (Some world_result) phase =
     (STATUS_OK, Some (ts_host_result_clear_unchecked bump_arena world_result))"
  by (simp add: ts_host_instance_begin_def instance_ctx_def export_world_def example_world_def idle_ctx_def
      ts_host_registry_begin_api_def ts_host_check_owner_thread_def check_thread_ok Let_def
      ts_host_result_check_context_def result_check_ok ts_host_result_reset_checked_def)

theorem resolved_export_is_described_witness:
  "\<exists>r1 h. turbo_script_instance_resolve_export list_salts bump_arena 7 export_world (Some 30) (Buf ''area'')
     (Some world_result) True = (STATUS_OK, r1, Some h)"
proof -
  obtain s r1 out where run: "turbo_script_instance_resolve_export list_salts bump_arena 7 export_world (Some 30)
      (Buf ''area'') (Some world_result) True = (s, r1, out)" by (metis prod_cases3)
  have gen: "i_generation (w_inst export_world 30) \<noteq> 0"
    and few: "length (m_exports (w_mod export_world (i_module (w_inst export_world 30)))) \<le> unat MODULE_EXPORT_LIMIT"
    and name: "ts_host_instance_validate_name (utf8_valid list_salts) (Buf ''area'') = STATUS_OK"
    by (simp_all add: export_world_def example_world_def ready_instance_def MODULE_EXPORT_LIMIT_def
        ts_host_instance_validate_name_def INSTANCE_NAME_LIMIT_def list_salts_def ascii_valid_def)
  have "s = STATUS_OK" and "s = STATUS_OK \<longrightarrow> (\<exists>h. out = Some h)"
    using resolved_export_is_described [OF gen few export_world_begin name run]
    by (auto simp: export_world_def example_export_def split: if_splits)
  with run show ?thesis by auto
qed

section \<open>Creation is all or nothing\<close>

text \<open>
  An initializer that leaves alone the module, the context and the new instance: it may run host
  callbacks and change everything else.
\<close>

definition initializer_keeps :: "'art backend \<Rightarrow> addr \<Rightarrow> addr \<Rightarrow> addr \<Rightarrow> bool" where
  "initializer_keeps B m c i \<longleftrightarrow>
     (\<forall>art use_jit W rt.
        let W' = snd (be_initialize B art use_jit W rt) in
        w_mod W' m = w_mod W m \<and> w_ctx W' c = w_ctx W c \<and> w_inst W' i = w_inst W i)"

lemma runtime_create_cases:
  assumes "ts_host_instance_runtime_create thread W m options block malloc_ok = (s, rt, W')"
  shows "s \<noteq> STATUS_OK \<and> W' = W \<or>
    s = STATUS_OK \<and> rt = block \<and> block \<noteq> None \<and>
    w_mod W' = w_mod W \<and> w_ctx W' = w_ctx W \<and> w_inst W' = w_inst W"
  using assms
  by (cases block) (auto simp: ts_host_instance_runtime_create_def Let_def split: prod.splits if_splits)

lemma initializer_cases:
  assumes keeps: "initializer_keeps B m c i"
    and run: "ts_host_module_execute_initializer_with_runtime B thread W (Some m) rt use_jit = (s, W')"
  shows "w_mod W' m = w_mod W m \<and> w_ctx W' c = w_ctx W c \<and> w_inst W' i = w_inst W i"
proof (cases rt)
  case None
  with run show ?thesis by (simp add: ts_host_module_execute_initializer_with_runtime_def)
next
  case (Some a)
  obtain r W1 where be: "be_initialize B (m_artifact (w_mod W m)) use_jit W a = (r, W1)" by fastforce
  from keeps [unfolded initializer_keeps_def Let_def, rule_format, of "m_artifact (w_mod W m)" use_jit W a]
  have "w_mod W1 m = w_mod W m \<and> w_ctx W1 c = w_ctx W c \<and> w_inst W1 i = w_inst W i" by (simp add: be)
  with run Some be show ?thesis
    by (auto simp: ts_host_module_execute_initializer_with_runtime_def split: if_splits)
qed

lemma bind_exports_ok:
  "ts_host_instance_bind_exports array_ok m rt = (STATUS_OK, rt') \<Longrightarrow>
   m_exports m = [] \<or> those (map (bind_export (env_funcs rt')) (m_exports m)) = Some (rt_export_functions rt')"
  by (auto simp: ts_host_instance_bind_exports_def split: if_splits option.splits)

lemma set_inst_fields [simp]:
  "w_ctx (set_inst i f W) = w_ctx W" "w_mod (set_inst i f W) = w_mod W" "w_env (set_inst i f W) = w_env W"
  "w_mem (set_inst i f W) = w_mem W" "w_heap (set_inst i f W) = w_heap W"
  "w_inst (set_inst i f W) i = f (w_inst W i)"
  by (simp_all add: set_inst_def)

text \<open>What the body of a creation leaves of the module, the context and the instance.\<close>

definition instance_built ::
  "'art world \<Rightarrow> 'art world \<Rightarrow> addr \<Rightarrow> addr \<Rightarrow> addr \<Rightarrow> bool" where
  "instance_built W W' m i rt \<longleftrightarrow>
     w_inst W' i = (w_inst W i)\<lparr>i_runtime := rt, i_initializer_count := 1\<rparr> \<and>
     (m_exports (w_mod W m) = [] \<or>
      those (map (bind_export (env_funcs (w_env W' rt))) (m_exports (w_mod W m))) =
        Some (rt_export_functions (w_env W' rt)))"

lemma create_body_keeps:
  assumes keeps: "initializer_keeps B m c i"
    and run: "create_body B thread mem W m i options = (s, W')"
  shows "w_mod W' m = w_mod W m \<and> w_ctx W' c = w_ctx W c \<and>
    (s = STATUS_OK \<longrightarrow> (\<exists>rt. cm_runtime mem = Some rt \<and> instance_built W W' m i rt))"
proof -
  obtain s1 rt W1 where rc: "ts_host_instance_runtime_create thread W m options (cm_runtime mem) (cm_malloc mem)
      = (s1, rt, W1)" by (metis prod_cases3)
  show ?thesis
  proof (cases "s1 = STATUS_OK")
    case False
    with run rc runtime_create_cases [OF rc] show ?thesis by (simp add: create_body_def)
  next
    case True
    with runtime_create_cases [OF rc] obtain a where a: "rt = Some a" "cm_runtime mem = Some a"
      and W1: "w_mod W1 = w_mod W" "w_ctx W1 = w_ctx W" "w_inst W1 = w_inst W" by auto
    let ?W2 = "set_inst i (\<lambda>x. x\<lparr>i_runtime := a\<rparr>) W1"
    obtain s3 W3 where ini: "ts_host_module_execute_initializer_with_runtime B thread ?W2 (Some m) (Some a)
        (io_mode options = EXEC_JIT) = (s3, W3)" by fastforce
    note W3 = initializer_cases [OF keeps ini, unfolded set_inst_fields W1]
    obtain s4 rt' where be: "ts_host_instance_bind_exports (cm_bindings mem) (w_mod W3 m) (w_env W3 a)
        = (s4, rt')" by fastforce
    show ?thesis
    proof (cases "s3 = STATUS_OK \<and> s4 = STATUS_OK")
      case False
      with run rc a True ini be W3 show ?thesis by (auto simp: create_body_def split: if_splits)
    next
      case ok: True
      note bound = bind_exports_ok [OF be [unfolded conjunct2 [OF ok]]]
      from run rc a True ini be ok W3 bound show ?thesis
        by (auto simp: create_body_def instance_built_def Let_def split: prod.splits if_splits)
    qed
  qed
qed

lemma create_arguments_cases:
  assumes "create_arguments W m options has_out = x"
  obtains (refused) s msg limit where "x = Some (s, msg, limit)" "s \<noteq> STATUS_OK"
  | (accepted) opts where "x = None" "options = Some opts"
      "next_instance_generation (w_ctx W (m_ctx (w_mod W m))) \<noteq> 0"
      "unat (next_instance_generation (w_ctx W (m_ctx (w_mod W m)))) \<le> UINT32_MAX"
  using assms
  by (cases options)
    (auto simp: create_arguments_def Let_def ts_host_instance_options_valid_def not_less split: if_splits)

lemma retain_release:
  assumes "m_ref_count (w_mod W m) \<noteq> 0" "m_ref_count (w_mod W m) \<noteq> SIZE_MAX"
  obtains M where "ts_host_module_retain (w_mod W) m = Some M"
    "M m = (w_mod W m)\<lparr>m_ref_count := m_ref_count (w_mod W m) + 1\<rparr>"
    "\<And>C M'. M' m = M m \<Longrightarrow> \<exists>M''. ts_host_module_release thread C M' m = Some (C, M'') \<and> M'' m = w_mod W m"
proof -
  let ?n = "m_ref_count (w_mod W m)"
  let ?M = "(w_mod W)(m := (w_mod W m)\<lparr>m_ref_count := ?n + 1\<rparr>)"
  have "?n + 1 \<noteq> 0" using unat_size_succ [OF assms(2)] by auto
  then have "\<exists>M''. ts_host_module_release thread C M' m = Some (C, M'') \<and> M'' m = w_mod W m"
    if "M' m = ?M m" for C M'
    using that assms(1) by (simp add: ts_host_module_release_def Let_def)
  then show thesis using assms(2) that [of ?M] by (simp add: ts_host_module_retain_def)
qed

text \<open>
  C6: creating an instance is all or nothing.  For a live module whose initializer leaves the
  module, its context and the new instance alone, a creation always returns.  If it succeeds, the
  instance is ready, has the nonzero generation that the context had in store, holds one more
  reference to the module, has run its initializer once, and every export of the module is bound to
  a script function of that name and arity in its runtime.  Otherwise no instance is given, and the
  module and the context are as before: the module is as referenced as it was, and no generation
  was used up.
\<close>

theorem create_all_or_nothing:
  assumes keeps: "\<And>i. cm_instance mem = Some i \<Longrightarrow> initializer_keeps B m (m_ctx (w_mod W m)) i"
    and live: "m_ref_count (w_mod W m) \<noteq> 0" "m_ref_count (w_mod W m) \<noteq> SIZE_MAX"
  shows "\<exists>s out r' W'. turbo_script_instance_create E A B thread mem W (Some m) options r has_out =
      Some (s, out, r', W') \<and>
    (if s = STATUS_OK
     then \<exists>i rt. out = Some i \<and> i_state (w_inst W' i) = INSTANCE_READY \<and>
       i_module (w_inst W' i) = m \<and> i_runtime (w_inst W' i) = rt \<and>
       unat (i_generation (w_inst W' i)) = unat (next_instance_generation (w_ctx W (m_ctx (w_mod W m)))) \<and>
       i_generation (w_inst W' i) \<noteq> 0 \<and>
       next_instance_generation (w_ctx W' (m_ctx (w_mod W m))) =
         next_instance_generation (w_ctx W (m_ctx (w_mod W m))) + 1 \<and>
       m_ref_count (w_mod W' m) = m_ref_count (w_mod W m) + 1 \<and>
       i_initializer_count (w_inst W' i) = 1 \<and>
       (m_exports (w_mod W m) = [] \<or>
        those (map (bind_export (env_funcs (w_env W' rt))) (m_exports (w_mod W m))) =
          Some (rt_export_functions (w_env W' rt)))
     else out = None \<and> w_mod W' m = w_mod W m \<and>
       w_ctx W' (m_ctx (w_mod W m)) = w_ctx W (m_ctx (w_mod W m)))"
proof -
  let ?c = "m_ctx (w_mod W m)"
  obtain s0 r0 where ap: "ts_host_registry_begin_api A (w_ctx W) thread (Some ?c) r = (s0, r0)" by fastforce
  show ?thesis
  proof (cases "s0 = STATUS_OK")
    case False
    with ap show ?thesis by (simp add: turbo_script_instance_create_def Let_def)
  next
    case s0: True
    obtain x where ca: "create_arguments W m options has_out = x" by simp
    from ca show ?thesis
    proof (cases rule: create_arguments_cases)
      case (refused s msg limit)
      with ap s0 ca show ?thesis by (simp add: turbo_script_instance_create_def Let_def ts_host_instance_fail_def)
    next
      case (accepted opts)
      show ?thesis
      proof (cases "cm_instance mem")
        case None
        with ap s0 ca accepted show ?thesis
          by (simp add: turbo_script_instance_create_def Let_def ts_host_instance_fail_def)
      next
        case (Some i)
        obtain M where M: "ts_host_module_retain (w_mod W) m = Some M"
          "M m = (w_mod W m)\<lparr>m_ref_count := m_ref_count (w_mod W m) + 1\<rparr>"
          and rel: "\<And>C M'. M' m = M m \<Longrightarrow>
            \<exists>M''. ts_host_module_release thread C M' m = Some (C, M'') \<and> M'' m = w_mod W m"
          using retain_release [of W m, OF live] by blast
        let ?W0 = "set_inst i (\<lambda>_. new_instance m opts) (W\<lparr>w_mod := M\<rparr>)"
        obtain s1 W1 where body: "create_body B thread mem ?W0 m i opts = (s1, W1)" by fastforce
        note kept = create_body_keeps [OF keeps [OF Some] body, simplified]
        show ?thesis
        proof (cases "s1 = STATUS_OK")
          case False
          from rel [of "w_mod W1" "w_ctx W1"] kept obtain M'' where
            M'': "ts_host_module_release thread (w_ctx W1) (w_mod W1) m = Some (w_ctx W1, M'')"
              "M'' m = w_mod W m" by auto
          with False ap s0 ca accepted Some M body kept show ?thesis
            by (simp add: turbo_script_instance_create_def Let_def ts_host_instance_fail_def)
        next
          case True
          let ?g = "next_instance_generation (w_ctx W ?c)"
          have g: "unat (ucast ?g :: u32) = unat ?g" using accepted(4) by (simp add: unat_ucast_mod)
          then have "(ucast ?g :: u32) \<noteq> 0" using accepted(3) by (metis unat_0 unat_eq_zero)
          with True g ap s0 ca accepted Some M body kept show ?thesis
            by (auto simp: turbo_script_instance_create_def Let_def instance_built_def new_instance_def set_ctx_def)
        qed
      qed
    qed
  qed
qed

text \<open>An engine whose initializer defines the exported function, and whose calls return their first argument.\<close>

definition example_backend :: "nat backend" where
  "example_backend =
     \<lparr>be_initialize = (\<lambda>art use_jit W rt.
        (0, set_env rt (\<lambda>x. x\<lparr>env_funcs :=
              [[\<lparr>func_name = Some ''area'', func_access_level = 0, func_data = ScriptFunc (Some 1) 2\<rparr>]]\<rparr>) W)),
      be_call = (\<lambda>art use_jit W rt slot args. (0, hd args, W)),
      be_numeric = (\<lambda>art use_jit W rt slot args. (0, hd args, W)),
      be_used = (\<lambda>W rt. (100, [20]))\<rparr>"

definition example_create_mem :: create_mem where
  "example_create_mem =
     \<lparr>cm_instance = Some 50, cm_runtime = Some 60, cm_malloc = \<lambda>_. True, cm_bindings = True\<rparr>"

lemma example_backend_keeps: "initializer_keeps example_backend m c i"
  by (simp add: initializer_keeps_def example_backend_def)

lemma example_binds:
  "ts_host_registry_bind_runtime (\<lambda>_. True) (w_ctx export_world) 7 (Some 10) (Some [[]]) = (STATUS_OK, Some [[]])"
  by (simp add: ts_host_registry_bind_runtime_def ts_host_registry_bind_runtime_impl_def Let_def
      ts_host_check_owner_thread_def check_thread_ok export_world_def example_world_def idle_ctx_def
      exprtk_env_register_funcs_checked_with_fault_def)

lemma example_body:
  assumes "W = set_inst 50 f (export_world\<lparr>w_mod := M\<rparr>)" "m_ctx (M 20) = 10" "m_exports (M 20) = [example_export]"
  shows "fst (create_body example_backend 7 example_create_mem W 20 50 turbo_script_instance_options_init) = STATUS_OK"
proof -
  have "ts_host_check_owner_thread (w_ctx W) 7 (Some 10) = STATUS_OK"
    using assms(1) by (simp add: ts_host_check_owner_thread_def check_thread_ok export_world_def example_world_def idle_ctx_def)
  then show ?thesis using assms example_binds
    by (simp add: create_body_def example_create_mem_def ts_host_instance_runtime_create_def new_pool_def
        Let_def new_runtime_def ts_host_module_execute_initializer_with_runtime_def example_backend_def
        ts_host_instance_bind_exports_def bind_export_def find_script_func_def example_export_def
        turbo_script_instance_options_init_def instance_limits)
qed

lemma example_creates:
  "\<exists>r' W'. turbo_script_instance_create list_salts bump_arena example_backend 7 example_create_mem export_world
     (Some 20) (Some turbo_script_instance_options_init) (Some world_result) True =
     Some (STATUS_OK, Some 50, r', W')"
proof -
  have api: "\<exists>r'. ts_host_registry_begin_api bump_arena (w_ctx export_world) 7 (Some 10) (Some world_result) = (STATUS_OK, r')"
    by (simp add: export_world_def example_world_def idle_ctx_def ts_host_registry_begin_api_def Let_def
      ts_host_check_owner_thread_def check_thread_ok ts_host_result_check_context_def result_check_ok
      ts_host_result_reset_checked_def)
  have args: "create_arguments export_world 20 (Some turbo_script_instance_options_init) True = None"
    by (simp add: create_arguments_def export_world_def example_world_def idle_ctx_def example_module_def
        ts_host_instance_options_valid_def turbo_script_instance_options_init_def instance_limits)
  have mod: "m_ctx (w_mod export_world 20) = 10" "m_exports (w_mod export_world 20) = [example_export]"
    "m_ref_count (w_mod export_world 20) = 2" by (simp_all add: export_world_def)
  let ?M = "(w_mod export_world)(20 := (w_mod export_world 20)\<lparr>m_ref_count := 3\<rparr>)"
  have ret: "ts_host_module_retain (w_mod export_world) 20 = Some ?M"
    by (simp add: ts_host_module_retain_def mod)
  let ?body = "create_body example_backend 7 example_create_mem
      (set_inst 50 (\<lambda>_. new_instance 20 turbo_script_instance_options_init) (export_world\<lparr>w_mod := ?M\<rparr>)) 20 50
      turbo_script_instance_options_init"
  have "fst ?body = STATUS_OK" by (rule example_body [OF refl]) (simp_all add: mod)
  then obtain W1 where "?body = (STATUS_OK, W1)" by (metis prod.collapse)
  with api args mod ret show ?thesis
    by (auto simp: turbo_script_instance_create_def Let_def example_create_mem_def)
qed

theorem create_all_or_nothing_witness:
  "\<exists>r' W'. turbo_script_instance_create list_salts bump_arena example_backend 7 example_create_mem export_world
     (Some 20) (Some turbo_script_instance_options_init) (Some world_result) True =
     Some (STATUS_OK, Some 50, r', W') \<and> i_state (w_inst W' 50) = INSTANCE_READY \<and>
     i_generation (w_inst W' 50) \<noteq> 0 \<and> m_ref_count (w_mod W' 20) = 3"
proof -
  have mod: "m_ctx (w_mod export_world 20) = 10" "m_ref_count (w_mod export_world 20) = 2"
    by (simp_all add: export_world_def)
  obtain r' W' where run: "turbo_script_instance_create list_salts bump_arena example_backend 7 example_create_mem
      export_world (Some 20) (Some turbo_script_instance_options_init) (Some world_result) True =
      Some (STATUS_OK, Some 50, r', W')" using example_creates by blast
  from create_all_or_nothing [OF example_backend_keeps, where W = export_world and m = 20 and mem = example_create_mem and
      E = list_salts and A = bump_arena and thread = 7 and options = "Some turbo_script_instance_options_init" and
      r = "Some world_result" and has_out = True] run mod
  show ?thesis by (auto split: if_splits)
qed

end
