(* ===== verification/Host_Call.thy ===== *)
theory Host_Call
  imports Host_Instance
begin

text \<open>
  Calls of exports (last part of \<^verbatim>\<open>turbo_script/src/host/turbo_script_host_instance.c\<close> and of
  \<^verbatim>\<open>turbo_script_host_module.c\<close>): the numeric entry point and \<^verbatim>\<open>turbo_script_instance_call\<close>, which
  puts every other component together: validation and conversion of the arguments, the call
  state, the budget, the engine with its host callbacks, the result and the error report.
\<close>

section \<open>Numeric calls\<close>

definition ts_host_module_execute_numeric_with_runtime ::
  "'art backend \<Rightarrow> nat \<Rightarrow> 'art world \<Rightarrow> addr option \<Rightarrow> addr option \<Rightarrow> size_t \<Rightarrow> bool \<Rightarrow> u64 buf \<Rightarrow> bool \<Rightarrow>
   status \<times> u64 option \<times> 'art world" where
  "ts_host_module_execute_numeric_with_runtime B thread W module runtime slot use_jit args has_out =
     (case (module, runtime) of
        (Some m, Some rt) \<Rightarrow>
          if buf_broken args \<or> \<not> has_out then (STATUS_INVALID_ARGUMENT, None, W)
          else if ts_host_check_owner_thread (w_ctx W) thread (Some (m_ctx (w_mod W m))) \<noteq> STATUS_OK
          then (STATUS_WRONG_THREAD, None, W)
          else
            (case ts_host_module_entry (Some (w_mod W m)) slot of
               None \<Rightarrow> (STATUS_INVALID_ARGUMENT, None, W)
             | Some entry \<Rightarrow>
                 if buf_size args > 16 \<or> buf_size args \<noteq> ucast (ex_arity entry)
                 then (STATUS_INVALID_ARGUMENT, None, W)
                 else
                   (case be_numeric B (m_artifact (w_mod W m)) use_jit W rt slot (buf_elems args) of
                      (r, d, W') \<Rightarrow>
                        (if r = 0 then STATUS_OK else STATUS_RUNTIME_ERROR, Some d, W')))
      | _ \<Rightarrow> (STATUS_INVALID_ARGUMENT, None, W))"

definition ts_host_module_execute_numeric ::
  "'art backend \<Rightarrow> nat \<Rightarrow> 'art world \<Rightarrow> addr option \<Rightarrow> size_t \<Rightarrow> bool \<Rightarrow> u64 buf \<Rightarrow> bool \<Rightarrow>
   status \<times> u64 option \<times> 'art world" where
  "ts_host_module_execute_numeric B thread W module slot use_jit args has_out =
     ts_host_module_execute_numeric_with_runtime B thread W module
       (map_option (\<lambda>m. m_ctx (w_mod W m)) module) slot use_jit args has_out"

definition ts_host_instance_execute_numeric ::
  "'art backend \<Rightarrow> nat \<Rightarrow> 'art world \<Rightarrow> addr option \<Rightarrow> u64 \<Rightarrow> u64 buf \<Rightarrow> bool \<Rightarrow>
   status \<times> u64 option \<times> 'art world" where
  "ts_host_instance_execute_numeric B thread W inst handle args has_out =
     (case inst of
        None \<Rightarrow> (STATUS_INVALID_ARGUMENT, None, W)
      | Some i \<Rightarrow>
          if buf_broken args \<or> \<not> has_out then (STATUS_INVALID_ARGUMENT, None, W)
          else
            let x = w_inst W i; c = instance_ctx W i;
                s = ts_host_check_owner_thread (w_ctx W) thread (Some c)
            in
            if s \<noteq> STATUS_OK then (s, None, W)
            else if closing (w_ctx W c) then (STATUS_INVALID_STATE, None, W)
            else if i_state x = INSTANCE_FAULTED then (STATUS_INVALID_STATE, None, W)
            else if i_state x \<noteq> INSTANCE_READY \<or> host_callback_depth (w_ctx W c) \<noteq> 0
            then (STATUS_REENTRANT_CALL, None, W)
            else
              (case ts_host_instance_decode_handle (w_mod W (i_module x)) x handle of
                 (s, slot) \<Rightarrow>
                   if s \<noteq> STATUS_OK then (s, None, W)
                   else
                     (case ts_host_instance_begin_call W i of
                        (s, W1) \<Rightarrow>
                          if s \<noteq> STATUS_OK then (s, None, W1)
                          else
                            (case ts_host_module_execute_numeric_with_runtime B thread W1
                                    (Some (i_module x)) (Some (i_runtime x)) slot (i_mode x = EXEC_JIT)
                                    args has_out of
                               (s, d, W2) \<Rightarrow>
                                 (case ts_host_instance_finish_call W2 i s of
                                    (s, W3) \<Rightarrow>
                                      (s, d, set_inst i ts_host_instance_clear_diagnostic W3))))))"

section \<open>Calls\<close>

definition input_limits :: "instance_options \<Rightarrow> value_limits" where
  "input_limits x =
     \<lparr>max_depth = io_max_value_depth x, max_nodes = io_max_value_nodes x,
      max_bytes = io_max_retained_bytes x\<rparr>"

definition output_limits :: "instance_options \<Rightarrow> call_budget \<Rightarrow> value_limits" where
  "output_limits x budget =
     \<lparr>max_depth = io_max_value_depth x, max_nodes = io_max_value_nodes x,
      max_bytes = result_bytes_left budget\<rparr>"

text \<open>
  The checks before anything changes: the refusal with its function name and message, or the slot,
  the name of the export and the budget.
\<close>

definition call_preflight ::
  "('x, 'b) salts \<Rightarrow> 'art world \<Rightarrow> addr \<Rightarrow> u64 \<Rightarrow> addr option \<Rightarrow> size_t \<Rightarrow> call_options option \<Rightarrow>
   (status \<times> sview \<times> bytes) + size_t \<times> sview \<times> call_budget" where
  "call_preflight E W i handle args arg_count options =
     (let x = w_inst W i; m = w_mod W (i_module x); k = w_ctx W (m_ctx m) in
      if i_state x = INSTANCE_FAULTED
      then Inl (STATUS_INVALID_STATE, NullBuf 0, ''faulted instance rejects future calls'')
      else if i_state x \<noteq> INSTANCE_READY \<or> host_callback_depth k \<noteq> 0 \<or> active_host_instance k \<noteq> None
      then Inl (STATUS_REENTRANT_CALL, NullBuf 0, ''instance call is not reentrant'')
      else if \<not> ts_host_call_options_valid options
      then Inl (STATUS_INVALID_ARGUMENT, NullBuf 0, ''invalid call options'')
      else if (args = None \<and> arg_count \<noteq> 0) \<or> arg_count > 16
      then Inl (STATUS_INVALID_ARGUMENT, NullBuf 0, ''invalid call arguments'')
      else
        (case ts_host_instance_decode_handle m x handle of
           (s, slot) \<Rightarrow>
             if s \<noteq> STATUS_OK then Inl (s, NullBuf 0, ''invalid export handle'')
             else
               (case ts_host_module_export_name (Some m) slot of
                  None \<Rightarrow> Inl (STATUS_INVALID_STATE, NullBuf 0, ''export metadata is unavailable'')
                | Some name \<Rightarrow>
                    if arg_count \<noteq> ucast (ts_host_module_export_arity (Some m) slot)
                    then Inl (STATUS_INVALID_ARGUMENT, Buf name, ''export arity mismatch'')
                    else
                      (case ts_host_call_budget_init (i_limits x) options of
                         (s, budget) \<Rightarrow>
                           if s \<noteq> STATUS_OK then Inl (s, Buf name, ''invalid call budget'')
                           else
                             let s = ts_host_validate_value_views E (w_mem W) args arg_count
                                       (Some (input_limits (i_limits x)))
                             in if s \<noteq> STATUS_OK
                                then Inl (s, Buf name, ''call argument validation failed'')
                                else Inr (slot, Buf name, the budget)))))"

text \<open>The conversion of the arguments into the environment of the call.\<close>

fun convert_args ::
  "('x, 'b) salts \<Rightarrow> order \<Rightarrow> view_mem \<Rightarrow> value_limits \<Rightarrow> heap \<Rightarrow> exprtk_env \<Rightarrow> addr list \<Rightarrow>
   (status \<times> exprtk_value list \<times> heap) option" where
  "convert_args E order M L h env [] = Some (STATUS_OK, [], h)"
| "convert_args E order M L h env (a # as) =
     (case ts_host_value_from_view_in_env E order M h (Some env) (Some a) (Some L) of
        None \<Rightarrow> None
      | Some (s, v, env', h1) \<Rightarrow>
          if s \<noteq> STATUS_OK then Some (s, [], h1)
          else
            (case convert_args E order M L h1 (the env') as of
               None \<Rightarrow> None
             | Some (s, vs, h2) \<Rightarrow> Some (s, v # vs, h2)))"

text \<open>
  From the engine's answer to the status of the call, with the phase and the message that an error
  report falls back on.  \<open>tmp\<close> is the temporary arena, if \<^verbatim>\<open>mem_init\<close> succeeds, and \<open>local\<close> the
  address of the local view.
\<close>

definition call_outcome ::
  "('x, 'b) salts \<Rightarrow> 'p arena \<Rightarrow> 'art backend \<Rightarrow> nat \<Rightarrow> 'p option \<Rightarrow> addr \<Rightarrow> 'art world \<Rightarrow> addr \<Rightarrow> call_budget \<Rightarrow>
   'p result option \<Rightarrow> int \<Rightarrow> exprtk_value \<Rightarrow> (status \<times> phase \<times> bytes \<times> 'p result option \<times> 'art world) option" where
  "call_outcome E A B thread tmp local W i budget0 r backend_status output =
     (let x = w_inst W i; a = i_runtime x; budget = active_host_budget (w_env W a) in
      if backend_status \<noteq> 0 then
        Some
          (if ts_host_call_budget_status budget \<noteq> STATUS_OK
           then (ts_host_call_budget_status budget, ts_host_call_budget_phase budget,
                 ts_host_call_budget_message budget, r, W)
           else if d_present (i_diagnostic x)
           then (d_status (i_diagnostic x), d_phase (i_diagnostic x),
                 ''export execution failed: recursion or runtime error'', r, W)
           else (STATUS_RUNTIME_ERROR, PHASE_CALL,
                 ''export execution failed: recursion or runtime error'', r, W))
      else
        (case ts_host_result_store_exprtk E A (w_ctx W) thread (w_mem W) tmp local r (Some output)
                (Some (output_limits (i_limits x) budget0)) of
           None \<Rightarrow> None
         | Some (s, M, r) \<Rightarrow>
             let W1 = W\<lparr>w_mem := M\<rparr> in
             if s \<noteq> STATUS_OK then
               Some (s, PHASE_CALL,
                     if s = STATUS_LIMIT_EXCEEDED then ''call result quota exceeded''
                     else ''call result conversion failed'', r, W1)
             else
               let (arena, closures) = be_used B W1 a in
               (case ts_host_safe_point (w_env W1 a) SP_RETAINED_BYTES
                       (ts_host_instance_retained_bytes arena closures) of
                  (q, rt) \<Rightarrow>
                    let W2 = set_env a (\<lambda>_. rt) W1 in
                    if q \<noteq> 0
                    then Some (ts_host_call_budget_status (active_host_budget rt),
                               ts_host_call_budget_phase (active_host_budget rt),
                               ts_host_call_budget_message (active_host_budget rt), r, W2)
                    else Some (STATUS_OK, PHASE_CALL, ''call value conversion failed'', r, W2))))"

definition set_limits :: "u32 \<Rightarrow> u32 \<Rightarrow> u32 \<Rightarrow> runtime \<Rightarrow> runtime" where
  "set_limits recursion nodes loops rt =
     rt\<lparr>env_max_recursion := recursion, env_max_nodes := nodes, env_max_loop_iterations := loops\<rparr>"

text \<open>The label \<^verbatim>\<open>finish\<close>: \<open>saved\<close> is the runtime at the start of the call, for its limits.\<close>

definition call_finish ::
  "('x, 'b) salts \<Rightarrow> 'p arena \<Rightarrow> nat \<Rightarrow> 'art world \<Rightarrow> addr \<Rightarrow> addr \<Rightarrow> runtime \<Rightarrow> bool \<Rightarrow> sview \<Rightarrow> size_t \<Rightarrow>
   status \<Rightarrow> phase \<Rightarrow> bytes \<Rightarrow> 'p result option \<Rightarrow> status \<times> 'p result option \<times> 'art world" where
  "call_finish E A thread W i a saved was_attached function_name slot status phase message r =
     (let W1 = set_env a
                 (\<lambda>rt. set_limits (env_max_recursion saved) (env_max_nodes saved)
                        (env_max_loop_iterations saved)
                        (if was_attached then ts_host_call_budget_detach rt else rt)) W
      in
      (case ts_host_instance_finish_call W1 i status of
         (s, W2) \<Rightarrow>
           if s = STATUS_OK then (STATUS_OK, r, set_inst i ts_host_instance_clear_diagnostic W2)
           else ts_host_instance_publish_execution_error E A thread W2 i r s phase function_name slot message))"

text \<open>
  The call proper, with the arguments \<open>vs\<close> converted: the limits of the budget, the begin of the
  call, the budget, the engine.
\<close>

definition call_execute ::
  "('x, 'b) salts \<Rightarrow> 'p arena \<Rightarrow> 'art backend \<Rightarrow> nat \<Rightarrow> 'p option \<Rightarrow> addr \<Rightarrow> 'art world \<Rightarrow> addr \<Rightarrow> size_t \<Rightarrow> sview \<Rightarrow>
   call_budget \<Rightarrow> exprtk_value list \<Rightarrow> 'p result option \<Rightarrow>
   ((status \<times> 'p result option \<times> 'art world) + (status \<times> 'art world)) option" where
  "call_execute E A B thread tmp local W i slot function_name budget vs r =
     (let x = w_inst W i; a = i_runtime x; saved = w_env W a;
          W1 = set_env a (set_limits (recursion_left budget) (steps_left budget) (loops_left budget)) W
      in
      (case ts_host_instance_begin_call W1 i of
         (s, W2) \<Rightarrow>
           if s \<noteq> STATUS_OK
           then
             Some (Inr (s, set_env a (set_limits (env_max_recursion saved) (env_max_nodes saved)
                                       (env_max_loop_iterations saved)) W2))
           else
             (case ts_host_call_budget_attach (w_env W2 a) budget of
                (s, rt) \<Rightarrow>
                  if s \<noteq> STATUS_OK
                  then Some (Inl (call_finish E A thread W2 i a saved False function_name slot s PHASE_CALL
                                    ''call budget attachment failed'' r))
                  else
                    (case be_call B (m_artifact (w_mod W (i_module x))) (i_mode x = EXEC_JIT)
                            (set_env a (\<lambda>_. rt) W2) a slot vs of
                       (backend_status, output, W3) \<Rightarrow>
                         (case call_outcome E A B thread tmp local W3 i budget r backend_status output of
                            None \<Rightarrow> None
                          | Some (s, phase, msg, r, W4) \<Rightarrow>
                              Some (Inl (call_finish E A thread W4 i a saved True function_name slot s
                                           phase msg r)))))))"

text \<open>\<^verbatim>\<open>turbo_script_instance_call\<close>; \<open>None\<close> would be running out of fuel in a conversion.\<close>

definition turbo_script_instance_call ::
  "('x, 'b) salts \<Rightarrow> 'p arena \<Rightarrow> order \<Rightarrow> 'art backend \<Rightarrow> nat \<Rightarrow> 'p option \<Rightarrow> addr \<Rightarrow> 'art world \<Rightarrow> addr option \<Rightarrow>
   u64 \<Rightarrow> addr option \<Rightarrow> size_t \<Rightarrow> call_options option \<Rightarrow> 'p result option \<Rightarrow>
   (status \<times> 'p result option \<times> 'art world) option" where
  "turbo_script_instance_call E A order B thread tmp local W inst handle args arg_count options r =
     (case ts_host_instance_begin E A thread W inst r PHASE_CALL of
        (s, r) \<Rightarrow>
          if s \<noteq> STATUS_OK then Some (s, r, W)
          else
            let i = the inst; x = w_inst W i;
                failed = (\<lambda>W s name msg.
                  case ts_host_instance_fail E A (w_ctx W) thread r s PHASE_CALL
                         (ts_host_instance_module_name (w_mod W (i_module x))) name msg
                         (io_max_result_bytes (i_limits x)) of (s, r) \<Rightarrow> (s, r, W))
            in
            (case call_preflight E W i handle args arg_count options of
               Inl (s, name, msg) \<Rightarrow> Some (failed W s name msg)
             | Inr (slot, name, budget) \<Rightarrow>
                 (case new_pool (w_heap W) of
                    (pool, h) \<Rightarrow>
                      (case convert_args E order (w_mem W) (input_limits (i_limits x)) h
                              \<lparr>env_arena = pool, ee_aborted = False, ee_error_msg = []\<rparr>
                              (map (item_addr (the args)) [0..<unat arg_count]) of
                         None \<Rightarrow> None
                       | Some (s, vs, h) \<Rightarrow>
                           let W1 = W\<lparr>w_heap := h\<rparr> in
                           if s \<noteq> STATUS_OK
                           then Some (failed W1 s name ''call value conversion failed'')
                           else
                             (case call_execute E A B thread tmp local W1 i slot name budget vs r of
                                None \<Rightarrow> None
                              | Some (Inr (s, W2)) \<Rightarrow>
                                  Some (failed W2 s name ''call value conversion failed'')
                              | Some (Inl out) \<Rightarrow> Some out)))))"

section \<open>What the engine may do\<close>

definition callback_keeps :: "addr \<Rightarrow> addr \<Rightarrow> 'art callback \<Rightarrow> bool" where
  "callback_keeps c a callback \<longleftrightarrow>
     (\<forall>W u views n b. let W' = snd (snd (callback W u views n b)) in
        call_frame c W' = call_frame c W \<and> host_hook (w_env W' a) = host_hook (w_env W a))"

text \<open>
  An execution in the context \<open>c\<close> on the runtime \<open>a\<close>: safe points, calls of host functions of the
  context, and steps of its own, which touch neither contexts, modules and instances nor the hook.
\<close>

inductive engine_run ::
  "(bytes \<Rightarrow> bool) \<Rightarrow> 'p arena \<Rightarrow> order \<Rightarrow> (addr \<Rightarrow> 'art callback) \<Rightarrow> nat \<Rightarrow> addr \<Rightarrow> addr \<Rightarrow> 'art world \<Rightarrow>
   'art world \<Rightarrow> bool"
  for utf8 A order callbacks thread c a W0 where
  start: "engine_run utf8 A order callbacks thread c a W0 W0"
| safe_point: "engine_run utf8 A order callbacks thread c a W0 W \<Longrightarrow>
    call_safe_point W e kind cost = (q, W') \<Longrightarrow> engine_run utf8 A order callbacks thread c a W0 W'"
| host_call: "engine_run utf8 A order callbacks thread c a W0 W \<Longrightarrow> fe_ctx entry = c \<Longrightarrow>
    ts_host_registry_callback_adapter utf8 A order callbacks thread pool W e entry args = (v, W') \<Longrightarrow>
    engine_run utf8 A order callbacks thread c a W0 W'"
| internal: "engine_run utf8 A order callbacks thread c a W0 W \<Longrightarrow>
    w_ctx W' = w_ctx W \<Longrightarrow> w_mod W' = w_mod W \<Longrightarrow> w_inst W' = w_inst W \<Longrightarrow>
    host_hook (w_env W' a) = host_hook (w_env W a) \<Longrightarrow>
    engine_run utf8 A order callbacks thread c a W0 W'"

lemma callback_result_hook:
  assumes "callback_result order W c e name s b = (v, W')"
  shows "host_hook (w_env W' a) = host_hook (w_env W a)"
proof -
  obtain r W1 where sp: "(if s = STATUS_OK \<and> hb_terminal_status b = STATUS_OK \<and> hb_state b = BUILDER_VALUE
      then call_safe_point W e SP_CALLBACK_AFTER 0 else (0, W)) = (r, W1)" by fastforce
  then have "host_hook (w_env W1 a) = host_hook (w_env W a)"
    by (auto split: if_splits intro: call_safe_point_hook)
  with assms [unfolded callback_result_def sp prod.case Let_def] show ?thesis by (auto split: if_splits)
qed

lemma adapter_keeps:
  assumes keeps: "callback_keeps (fe_ctx entry) a (callbacks (fe_callback entry))"
    and run: "ts_host_registry_callback_adapter utf8 A order callbacks thread pool W e entry args = (v, W')"
  shows "call_frame (fe_ctx entry) W' = call_frame (fe_ctx entry) W \<and>
    host_hook (w_env W' a) = host_hook (w_env W a)"
proof
  show "call_frame (fe_ctx entry) W' = call_frame (fe_ctx entry) W"
    using keeps by (intro adapter_frame [OF _ run]) (simp add: callback_keeps_def callback_keeps_frame_def Let_def)
  from run show "host_hook (w_env W' a) = host_hook (w_env W a)"
  proof (cases rule: adapter_cases)
    case (ran p views M W2 inst W3 s b W4)
    have "host_hook (w_env W4 a) = host_hook (w_env W3 a)"
      using keeps [unfolded callback_keeps_def Let_def, rule_format, of W3 "fe_user_data entry" views] ran(9)
      by (metis snd_conv)
    with callback_result_hook [OF ran(10), of a] enter_env [OF ran(8)] call_safe_point_hook [OF ran(6), of a]
    show ?thesis by simp
  qed simp_all
qed

lemma engine_keeps:
  assumes "engine_run utf8 A order callbacks thread c a W W'" "\<And>k. callback_keeps c a (callbacks k)"
  shows "call_frame c W' = call_frame c W \<and> host_hook (w_env W' a) = host_hook (w_env W a)"
  using assms
proof (induction rule: engine_run.induct)
  case (safe_point W e kind cost q W')
  then show ?case using safe_point_frame call_safe_point_hook by metis
next
  case (host_call W entry pool e args v W')
  then show ?case using adapter_keeps [of entry a callbacks utf8 A order thread pool W e args v W'] by metis
next
  case (internal W W')
  then show ?case using call_frame_cong [of W' c W] by simp
qed simp

section \<open>The parts of a call\<close>

lemma preflight_refused: "call_preflight E W i handle args n options = Inl (s, name, msg) \<Longrightarrow> s \<noteq> STATUS_OK"
  by (auto simp: call_preflight_def Let_def split: if_splits prod.splits option.splits)

lemma preflight_ready:
  "call_preflight E W i handle args n options = Inr x \<Longrightarrow>
   i_state (w_inst W i) = INSTANCE_READY \<and> quiescent (instance_ctx W i) W"
  by (auto simp: call_preflight_def Let_def quiescent_iff instance_ctx_def split: if_splits)

lemma begin_call_accepts:
  "i_state (w_inst W i) = INSTANCE_READY \<Longrightarrow> quiescent (instance_ctx W i) W \<Longrightarrow>
   \<exists>W'. ts_host_instance_begin_call W i = (STATUS_OK, W')"
  by (simp add: ts_host_instance_begin_call_def Let_def quiescent_iff)

lemma begin_call_env:
  "ts_host_instance_begin_call W i = (s, W') \<Longrightarrow> host_hook (w_env W' a) = host_hook (w_env W a)"
  by (auto simp: ts_host_instance_begin_call_def Let_def set_defs host_hook_def split: if_splits)

lemma set_limits_hook [simp]: "host_hook (set_limits x y z rt) = host_hook rt"
  by (simp add: set_limits_def host_hook_def)

lemma set_error_not_OK: "ts_host_result_set_error E A C thread r (Some err) limit = (STATUS_OK, r') \<Longrightarrow>
    ei_status err \<noteq> STATUS_OK"
  by (auto simp: ts_host_result_set_error_def ts_host_validate_error_info_def Let_def split: if_splits)

lemma publish_cases:
  assumes "ts_host_instance_publish_execution_error E A thread W i r s phase name slot msg = (s', r', W')"
  shows "s' \<noteq> STATUS_OK \<and> W' = set_inst i ts_host_instance_clear_diagnostic W \<and>
    (\<exists>err s0. ts_host_result_set_error E A (w_ctx W) thread r (Some err)
       (io_max_result_bytes (i_limits (w_inst W i))) = (s0, r'))"
  using assms set_error_not_OK [of E A "w_ctx W" thread r]
  by (auto simp: ts_host_instance_publish_execution_error_def Let_def split: prod.splits if_splits)

text \<open>An instance in a call of its context, with no callback under way.\<close>

definition in_call :: "'art world \<Rightarrow> addr \<Rightarrow> addr \<Rightarrow> addr \<Rightarrow> bool" where
  "in_call W c i a \<longleftrightarrow> active_host_instance (w_ctx W c) = Some i \<and> host_callback_depth (w_ctx W c) = 0 \<and>
     i_state (w_inst W i) = INSTANCE_CALLING \<and> i_runtime (w_inst W i) = a \<and> instance_ctx W i = c"

lemma in_call_frame:
  assumes "in_call W c i a" "call_frame c W' = call_frame c W"
  shows "in_call W' c i a"
  using assms call_frame_active [OF assms(2)] call_frame_depth [OF assms(2)] call_frame_instance [OF assms(2), of i]
  by (auto simp: in_call_def instance_frame_def)

lemma begin_call_in_call:
  "ts_host_instance_begin_call W i = (STATUS_OK, W') \<Longrightarrow> in_call W' (instance_ctx W i) i (i_runtime (w_inst W i))"
  using begin_call_ok [of W i W'] by (auto simp: in_call_def instance_frame_def)

lemma clear_quiescent [simp]:
  "quiescent c (set_inst i ts_host_instance_clear_diagnostic W) = quiescent c W"
  "i_state (ts_host_instance_clear_diagnostic x) = i_state x"
  by (simp_all add: quiescent_iff ts_host_instance_clear_diagnostic_def)

lemma finish_env: "ts_host_instance_finish_call W i s = (s', W') \<Longrightarrow> w_env W' = w_env W"
  by (auto simp: ts_host_instance_finish_call_def Let_def set_defs split: if_splits)

text \<open>The end of every call that began.\<close>

definition call_ended :: "'art world \<Rightarrow> addr \<Rightarrow> addr \<Rightarrow> addr \<Rightarrow> runtime \<Rightarrow> status \<Rightarrow> bool" where
  "call_ended W c i a rt s \<longleftrightarrow>
     quiescent c W \<and> i_state (w_inst W i) = (if s = STATUS_OK then INSTANCE_READY else INSTANCE_FAULTED) \<and>
     env_max_recursion (w_env W a) = env_max_recursion rt \<and> env_max_nodes (w_env W a) = env_max_nodes rt \<and>
     env_max_loop_iterations (w_env W a) = env_max_loop_iterations rt \<and>
     host_hook (w_env W a) = host_hook rt"

lemma call_finish_ended:
  assumes call: "in_call W c i a" and run: "call_finish E A thread W i a rt was_attached name slot s phase msg r = (s', r', W')"
    and hook: "host_hook (if was_attached then ts_host_call_budget_detach (w_env W a) else w_env W a) = host_hook rt"
  shows "call_ended W' c i a rt s'"
proof -
  let ?W1 = "set_env a (\<lambda>x. set_limits (env_max_recursion rt) (env_max_nodes rt) (env_max_loop_iterations rt)
      (if was_attached then ts_host_call_budget_detach x else x)) W"
  obtain s2 W2 where fin: "ts_host_instance_finish_call ?W1 i s = (s2, W2)" by fastforce
  have c: "in_call ?W1 c i a" by (rule in_call_frame [OF call]) simp
  then have ok: "s2 = s" "quiescent c W2" "i_state (w_inst W2 i) = (if s = STATUS_OK then INSTANCE_READY else INSTANCE_FAULTED)"
    using finish_call_ok [of ?W1 i s] fin by (auto simp: in_call_def instance_frame_def)
  have env: "w_env W2 = w_env ?W1" by (rule finish_env [OF fin])
  have limits: "env_max_recursion (w_env W2 a) = env_max_recursion rt" "env_max_nodes (w_env W2 a) = env_max_nodes rt"
    "env_max_loop_iterations (w_env W2 a) = env_max_loop_iterations rt"
    by (simp_all add: env set_limits_def)
  have hooked: "host_hook (w_env W2 a) = host_hook rt" using hook by (cases was_attached) (simp_all add: env)
  show ?thesis
  proof (cases "s = STATUS_OK")
    case True
    with run fin ok limits hooked show ?thesis by (auto simp: call_finish_def call_ended_def)
  next
    case False
    with run fin ok(1) have "ts_host_instance_publish_execution_error E A thread W2 i r s phase name slot msg = (s', r', W')"
      by (simp add: call_finish_def)
    from publish_cases [OF this] ok limits hooked False show ?thesis by (simp add: call_ended_def)
  qed
qed

lemma call_outcome_frame:
  assumes "call_outcome E A B thread tmp local W i budget r q output = Some (s, phase, msg, r', W')"
  shows "call_frame c W' = call_frame c W" "host_hook (w_env W' a) = host_hook (w_env W a)"
  using assms
  by (auto simp: call_outcome_def Let_def split: if_splits option.splits prod.splits
      intro!: set_env_hook [of _ "W\<lparr>w_mem := _\<rparr>", simplified] dest: safe_point_hook)

text \<open>The engine of a backend, in the context \<open>c\<close> and on the runtime \<open>a\<close>.\<close>

definition engine_laws ::
  "(bytes \<Rightarrow> bool) \<Rightarrow> 'q arena \<Rightarrow> order \<Rightarrow> (addr \<Rightarrow> 'art callback) \<Rightarrow> 'art backend \<Rightarrow> nat \<Rightarrow> addr \<Rightarrow> addr \<Rightarrow> bool"
  where
  "engine_laws utf8 A order callbacks B thread c a \<longleftrightarrow>
     (\<forall>art use_jit W slot vs.
        engine_run utf8 A order callbacks thread c a W (snd (snd (be_call B art use_jit W a slot vs)))) \<and>
     (\<forall>k. callback_keeps c a (callbacks k))"

lemma engine_laws_keep:
  assumes "engine_laws utf8 A order callbacks B thread c a" "be_call B art use_jit W a slot vs = (q, output, W')"
  shows "call_frame c W' = call_frame c W \<and> host_hook (w_env W' a) = host_hook (w_env W a)"
proof -
  have "engine_run utf8 A order callbacks thread c a W W'"
    using assms [unfolded engine_laws_def] by (metis snd_conv)
  with assms(1) show ?thesis by (intro engine_keeps) (auto simp: engine_laws_def)
qed

lemma call_execute_ended:
  fixes W :: "'art world" and i
  defines "c \<equiv> instance_ctx W i" and "a \<equiv> i_runtime (w_inst W i)"
  assumes ready: "i_state (w_inst W i) = INSTANCE_READY" "quiescent c W"
    and engine: "engine_laws utf8 A' order callbacks B thread c a"
    and run: "call_execute E A B thread tmp local W i slot name budget vs r = Some x"
  shows "\<exists>s r' W'. x = Inl (s, r', W') \<and> call_ended W' c i a (w_env W a) s"
proof -
  let ?W1 = "set_env a (set_limits (recursion_left budget) (steps_left budget) (loops_left budget)) W"
  have ctx: "instance_ctx ?W1 i = c" by (simp add: c_def instance_ctx_def)
  obtain W2 where b: "ts_host_instance_begin_call ?W1 i = (STATUS_OK, W2)"
    using begin_call_accepts [of ?W1 i] ready by (auto simp: ctx quiescent_iff)
  have rt: "i_runtime (w_inst ?W1 i) = a" by (simp add: a_def)
  have call: "in_call W2 c i a" using begin_call_in_call [OF b] unfolding ctx rt .
  have hook: "host_hook (w_env W2 a) = host_hook (w_env W a)"
    using begin_call_env [OF b, of a] by simp
  obtain s rt where at: "ts_host_call_budget_attach (w_env W2 a) budget = (s, rt)" by fastforce
  note parts = run [unfolded call_execute_def Let_def, folded a_def] b at
  show ?thesis
  proof (cases "s = STATUS_OK")
    case False
    with parts obtain y where y: "x = Inl y"
      "y = call_finish E A thread W2 i a (w_env W a) False name slot s PHASE_CALL ''call budget attachment failed'' r"
      by auto
    then show ?thesis using call_finish_ended [OF call, where was_attached = False] hook by (metis prod_cases3)
  next
    case True
    let ?W3 = "set_env a (\<lambda>_. rt) W2"
    have idle: "host_hook (w_env W2 a) = (False, None, None)" and on: "active_host_budget rt \<noteq> None"
      using at True by (auto simp: ts_host_call_budget_attach_def host_hook_def split: if_splits)
    obtain q answer W4 where be: "be_call B (m_artifact (w_mod W (i_module (w_inst W i))))
        (i_mode (w_inst W i) = EXEC_JIT) ?W3 a slot vs = (q, answer, W4)" by (metis prod_cases3)
    note kept = engine_laws_keep [OF engine be]
    obtain s5 phase msg r5 W5 where co: "call_outcome E A B thread tmp local W4 i budget r q answer =
        Some (s5, phase, msg, r5, W5)"
      and x: "x = Inl (call_finish E A thread W5 i a (w_env W a) True name slot s5 phase msg r5)"
      using parts True be by (auto split: option.splits)
    have "call_frame c W5 = call_frame c W2" using call_outcome_frame(1) [OF co, of c] kept by simp
    from in_call_frame [OF call this] have call5: "in_call W5 c i a" .
    have "host_hook (w_env W5 a) = host_hook rt" using call_outcome_frame(2) [OF co, of a] kept by simp
    with on have "active_host_budget (w_env W5 a) \<noteq> None" by (simp add: host_hook_def)
    then have "host_hook (ts_host_call_budget_detach (w_env W5 a)) = (False, None, None)"
      by (auto simp: ts_host_call_budget_detach_def host_hook_def)
    with idle hook call_finish_ended [OF call5, where was_attached = True] x show ?thesis
      by (metis (full_types) prod_cases3)
  qed
qed

text \<open>
  C1: the life of a call.  Let the engine act only through safe points, host functions of the
  context and steps of its own, and let the host functions keep the call state and the hook.  Then a
  call of an export either is refused, with an error status, no call having begun: contexts' call
  state, instances and environments are unchanged; or it ran to its end, from a ready instance in
  a context with nothing under way: afterwards again nothing is under way, the budget is detached,
  the limits of the runtime are what they were, and the instance is ready if the status is OK and
  faulted otherwise.
\<close>

theorem call_ends_ready_or_faulted:
  fixes W :: "'art world"
  assumes engine: "engine_laws utf8 A' order callbacks B thread (instance_ctx W i) (i_runtime (w_inst W i))"
    and run: "turbo_script_instance_call E A order' B thread tmp local W (Some i) handle args n options r =
      Some (s, r', W')"
  shows "s \<noteq> STATUS_OK \<and> w_ctx W' = w_ctx W \<and> w_mod W' = w_mod W \<and> w_inst W' = w_inst W \<and> w_env W' = w_env W \<or>
    i_state (w_inst W i) = INSTANCE_READY \<and> quiescent (instance_ctx W i) W \<and>
    call_ended W' (instance_ctx W i) i (i_runtime (w_inst W i)) (w_env W (i_runtime (w_inst W i))) s"
proof -
  obtain s0 r0 where beg: "ts_host_instance_begin E A thread W (Some i) r PHASE_CALL = (s0, r0)" by fastforce
  note run = run [unfolded turbo_script_instance_call_def beg prod.case Let_def option.sel]
  show ?thesis
  proof (cases "s0 = STATUS_OK")
    case False
    with run show ?thesis by simp
  next
    case s0: True
    show ?thesis
    proof (cases "call_preflight E W i handle args n options")
      case (Inl e)
      obtain s1 name msg where e: "e = (s1, name, msg)" by (metis prod_cases3)
      with run s0 Inl preflight_refused [OF Inl [unfolded e]] show ?thesis by (auto simp: ts_host_instance_fail_def)
    next
      case (Inr e)
      obtain slot name budget where e: "e = (slot, name, budget)" by (metis prod_cases3)
      note ready = preflight_ready [OF Inr]
      obtain pool h where np: "new_pool (w_heap W) = (pool, h)" by fastforce
      let ?conv = "convert_args E order' (w_mem W) (input_limits (i_limits (w_inst W i))) h
          \<lparr>env_arena = pool, ee_aborted = False, ee_error_msg = []\<rparr>
          (map (item_addr (the args)) [0..<unat n])"
      have "?conv \<noteq> None"
      proof
        assume "?conv = None"
        with run s0 Inr e np show False by simp
      qed
      then obtain s1 vs h1 where conv: "?conv = Some (s1, vs, h1)" by auto
      note run = run s0 Inr e np conv
      let ?W1 = "W\<lparr>w_heap := h1\<rparr>"
      have ctx: "instance_ctx ?W1 i = instance_ctx W i" by (simp add: instance_ctx_def)
      show ?thesis
      proof (cases "s1 = STATUS_OK")
        case False
        with run show ?thesis by (auto simp: ts_host_instance_fail_def)
      next
        case True
        with run obtain x where ex: "call_execute E A B thread tmp local ?W1 i slot name budget vs r0 = Some x"
          by (auto split: option.splits)
        from call_execute_ended [of ?W1 i utf8 A' order callbacks B thread E A tmp local slot name budget vs r0 x, OF _ _ _ ex]
          ready engine obtain s2 r2 W2 where x: "x = Inl (s2, r2, W2)"
          and ended: "call_ended W2 (instance_ctx W i) i (i_runtime (w_inst W i))
            (w_env W (i_runtime (w_inst W i))) s2"
          by (auto simp: ctx quiescent_iff)
        from run True ex x have "(s, r', W') = (s2, r2, W2)" by simp
        with ended ready show ?thesis by simp
      qed
    qed
  qed
qed

text \<open>An export without parameters, and an engine that answers 42.\<close>

definition call_world :: "nat world" where
  "call_world =
     example_world\<lparr>w_mod := \<lambda>_. example_module\<lparr>m_ctx := 10, m_exports := [example_export\<lparr>ex_arity := 0\<rparr>]\<rparr>\<rparr>"

definition quiet_backend :: "nat backend" where
  "quiet_backend = example_backend\<lparr>be_call := \<lambda>art use_jit W rt slot args. (0, EInteger 42, W)\<rparr>"

lemma quiet_engine: "engine_laws utf8 A order (\<lambda>_. example_callback) quiet_backend thread c a"
  by (simp add: engine_laws_def quiet_backend_def engine_run.start callback_keeps_def example_callback_def)

lemma store_integer:
  assumes "owner_thread_token (C (res_ctx x)) = 7" "max_depth L \<noteq> 0" "max_nodes L \<noteq> 0" "max_bytes L \<noteq> 0"
  shows "\<exists>M' y. ts_host_result_store_exprtk list_salts bump_arena C 7 M (Some 5000) 10 (Some x) (Some (EInteger i)) (Some L)
    = Some (STATUS_OK, M', Some y) \<and> has_value y \<and> \<not> has_error y"
proof -
  have own: "ts_host_result_check_thread C 7 (Some x) = STATUS_OK"
    "ts_host_result_check_thread C 7 (Some (ts_host_result_clear_unchecked bump_arena x)) = STATUS_OK"
    using assms(1) by (simp_all add: result_check_ok)
  have d: "\<not> unat (max_depth L) < 1" "0 < unat (max_depth L)"
    using assms(2) by (simp_all add: unat_gt_0)
  then obtain f where f: "unat (max_depth L) = Suc f" using gr0_conv_Suc by blast
  have view: "ts_host_exprtk_to_view (utf8_valid list_salts) bump_arena L
      \<lparr>xs_mem = M, xs_pool = 5000, xs_nodes = 0, xs_bytes = 0\<rparr> (EInteger i) 1 =
      (STATUS_OK, view_of (VInt64 i), \<lparr>xs_mem = M, xs_pool = 5000, xs_nodes = 1, xs_bytes = 0\<rparr>)"
    using d assms(3) by (simp add: ts_host_exprtk_to_view_def value_to_view.simps)
  have "ts_host_validate_value_view list_salts (write_view M 10 (view_of (VInt64 i))) (Some 10) (Some L) = STATUS_OK"
    using assms d
    by (simp add: ts_host_validate_value_view_def ts_host_validate_value_views_def list_salts_def Let_def
        ts_host_validate_values_loop_def ts_host_validate_items.simps ts_host_validate_node.simps
        write_view_def item_addr_def view_of_def)
  then show ?thesis
    by (simp add: ts_host_result_store_exprtk_def own view [unfolded One_nat_def]
        ts_host_result_store_view_def Let_def f write_view_def view_of_def ts_host_copy_view.simps)
qed

lemma example_preflight:
  "call_preflight list_salts call_world 30 (ts_host_export_handle 1 0) None 0 (Some turbo_script_call_options_init) =
     Inr (0, Buf ''area'', call_budget_of example_instance_options turbo_script_call_options_init)"
proof -
  have "ts_host_instance_decode_handle (w_mod call_world 20) ready_instance (ts_host_export_handle 1 0) = (STATUS_OK, 0)"
    using decode_issued [of ready_instance "w_mod call_world 20" 0]
    by (simp add: call_world_def ready_instance_def MODULE_EXPORT_LIMIT_def)
  then show ?thesis
    by (simp add: call_preflight_def call_world_def example_world_def ready_instance_def idle_ctx_def Let_def
        ts_host_call_options_valid_def turbo_script_call_options_init_def instance_limits
        ts_host_module_export_name_def ts_host_module_entry_def ts_host_module_export_arity_def example_export_def
        ts_host_call_budget_init_def ts_host_validate_value_views_def input_limits_def example_instance_options_def
        list_salts_def ts_host_validate_values_loop_def ts_host_validate_items.simps)
qed

lemma call_world_begin:
  "ts_host_instance_begin list_salts bump_arena 7 call_world (Some i) (Some world_result) phase =
     (STATUS_OK, Some (ts_host_result_clear_unchecked bump_arena world_result))"
  by (simp add: ts_host_instance_begin_def instance_ctx_def call_world_def example_world_def idle_ctx_def
      ts_host_registry_begin_api_def ts_host_check_owner_thread_def check_thread_ok Let_def
      ts_host_result_check_context_def result_check_ok ts_host_result_reset_checked_def)

abbreviation (input) example_call :: "(status \<times> addr result option \<times> nat world) option" where
  "example_call \<equiv> turbo_script_instance_call list_salts bump_arena id quiet_backend 7 (Some 5000) 10 call_world (Some 30)
     (ts_host_export_handle 1 0) None 0 (Some turbo_script_call_options_init) (Some world_result)"

lemma call_finish_succeeds:
  assumes "in_call W c i a"
  shows "\<exists>W'. call_finish E A thread W i a rt was_attached name slot STATUS_OK phase msg r = (STATUS_OK, r, W')"
proof -
  let ?W1 = "set_env a (\<lambda>x. set_limits (env_max_recursion rt) (env_max_nodes rt) (env_max_loop_iterations rt)
      (if was_attached then ts_host_call_budget_detach x else x)) W"
  have "in_call ?W1 c i a" by (rule in_call_frame [OF assms]) simp
  then have "fst (ts_host_instance_finish_call ?W1 i STATUS_OK) = STATUS_OK"
    using finish_call_ok(1) [of ?W1 i STATUS_OK] by (simp add: in_call_def)
  then obtain W2 where "ts_host_instance_finish_call ?W1 i STATUS_OK = (STATUS_OK, W2)" by (metis prod.collapse)
  then show ?thesis by (simp add: call_finish_def)
qed

lemma example_executes:
  assumes "res_ctx x = 10" "w_inst W 30 = ready_instance" "instance_ctx W 30 = 10" "w_ctx W = (\<lambda>_. idle_ctx)"
    "w_env W 40 = idle_runtime\<lparr>rt_self := 40\<rparr>"
    and budget: "budget = call_budget_of example_instance_options turbo_script_call_options_init"
  shows "\<exists>r' W'. call_execute list_salts bump_arena quiet_backend 7 (Some 5000) 10 W 30 0 name budget [] (Some x) =
    Some (Inl (STATUS_OK, r', W'))"
proof -
  let ?W1 = "set_env 40 (set_limits (recursion_left budget) (steps_left budget) (loops_left budget)) W"
  have ctx: "instance_ctx ?W1 30 = 10" using assms(3) by (simp add: instance_ctx_def)
  have rt: "i_runtime (w_inst ?W1 30) = 40" using assms(2) by (simp add: ready_instance_def)
  have "i_state (w_inst ?W1 30) = INSTANCE_READY" "quiescent (instance_ctx ?W1 30) ?W1"
    unfolding ctx using assms by (simp_all add: ready_instance_def quiescent_iff idle_ctx_def)
  from begin_call_accepts [OF this] obtain W2 where b: "ts_host_instance_begin_call ?W1 30 = (STATUS_OK, W2)" by blast
  have call: "in_call W2 10 30 40" using begin_call_in_call [OF b] unfolding ctx rt .
  have W2: "i_limits (w_inst W2 30) = example_instance_options" "owner_thread_token (w_ctx W2 10) = 7"
    using b assms(2,4) by (auto simp: ts_host_instance_begin_call_def Let_def set_defs ready_instance_def
        idle_ctx_def ts_host_instance_clear_diagnostic_def split: if_splits)
  have "host_hook (w_env W2 40) = (False, None, None)"
    using begin_call_env [OF b, of 40] assms(5) by (simp add: host_hook_def idle_runtime_def set_limits_def)
  then obtain rt where at: "ts_host_call_budget_attach (w_env W2 40) budget = (STATUS_OK, rt)"
    and rt: "active_host_budget rt = Some budget"
    by (auto simp: ts_host_call_budget_attach_def host_hook_def)
  let ?W3 = "set_env 40 (\<lambda>_. rt) W2"
  have call3: "in_call ?W3 10 30 40" by (rule in_call_frame [OF call]) simp
  have a: "i_runtime (w_inst W2 30) = 40" using call by (simp add: in_call_def)
  from store_integer [where C = "w_ctx W2" and x = x and L = "output_limits example_instance_options budget"
      and M = "w_mem W2" and i = 42] assms(1) W2(2)
  obtain M' y where st: "ts_host_result_store_exprtk list_salts bump_arena (w_ctx W2) 7 (w_mem W2) (Some 5000) 10
      (Some x) (Some (EInteger 42)) (Some (output_limits example_instance_options budget)) = Some (STATUS_OK, M', Some y)"
    by (auto simp: output_limits_def example_instance_options_def budget call_budget_of_def Let_def
        turbo_script_call_options_init_def instance_limits ts_host_min_size_def)
  have sp: "ts_host_safe_point rt SP_RETAINED_BYTES 120 = (0, rt\<lparr>active_host_budget := Some budget\<rparr>)"
    using rt by (simp add: ts_host_safe_point_def budget call_budget_of_def Let_def example_instance_options_def)
  obtain phase msg W4 where co: "call_outcome list_salts bump_arena quiet_backend 7 (Some 5000) 10 ?W3 30 budget
      (Some x) 0 (EInteger 42) = Some (STATUS_OK, phase, msg, Some y, W4)"
    using st sp W2 a by (simp add: call_outcome_def Let_def quiet_backend_def example_backend_def)
  have "in_call W4 10 30 40" by (rule in_call_frame [OF call3]) (rule call_outcome_frame(1) [OF co])
  from call_finish_succeeds [OF this, of list_salts bump_arena 7 "w_env W 40" True name 0 phase msg "Some y"]
  obtain W5 where "call_finish list_salts bump_arena 7 W4 30 40 (w_env W 40) True name 0 STATUS_OK phase msg (Some y) =
      (STATUS_OK, Some y, W5)" by blast
  with b at co assms(2) show ?thesis
    by (simp add: call_execute_def Let_def ready_instance_def) (simp add: quiet_backend_def)
qed

lemma example_call_ok: "\<exists>r' W'. example_call = Some (STATUS_OK, r', W')"
proof -
  obtain pool h where np: "new_pool (w_heap call_world) = (pool, h)" by fastforce
  have facts: "w_inst (call_world\<lparr>w_heap := h\<rparr>) 30 = ready_instance" "instance_ctx (call_world\<lparr>w_heap := h\<rparr>) 30 = 10"
    "w_ctx (call_world\<lparr>w_heap := h\<rparr>) = (\<lambda>_. idle_ctx)"
    "w_env (call_world\<lparr>w_heap := h\<rparr>) 40 = idle_runtime\<lparr>rt_self := 40\<rparr>"
    by (simp_all add: call_world_def example_world_def instance_ctx_def)
  from example_executes [OF _ facts refl, of "ts_host_result_clear_unchecked bump_arena world_result" "Buf ''area''"]
  obtain r' W' where "call_execute list_salts bump_arena quiet_backend 7 (Some 5000) 10 (call_world\<lparr>w_heap := h\<rparr>) 30 0
      (Buf ''area'') (call_budget_of example_instance_options turbo_script_call_options_init) []
      (Some (ts_host_result_clear_unchecked bump_arena world_result)) = Some (Inl (STATUS_OK, r', W'))" by auto
  then show ?thesis
    by (simp add: turbo_script_instance_call_def call_world_begin example_preflight np Let_def)
qed

theorem call_ends_ready_or_faulted_witness:
  "\<exists>r' W'. example_call = Some (STATUS_OK, r', W') \<and> quiescent (instance_ctx call_world 30) W' \<and>
     i_state (w_inst W' 30) = INSTANCE_READY"
proof -
  obtain r' W' where run: "example_call = Some (STATUS_OK, r', W')" using example_call_ok by blast
  from call_ends_ready_or_faulted [OF quiet_engine run] run show ?thesis by (auto simp: call_ended_def)
qed

section \<open>What the engine is given and what the embedder gets\<close>

lemma convert_args_ok:
  assumes laws: "key_set_laws E keys_of" "order_laws order" and fits: "mem_fits M"
  shows "\<exists>s vs h'. convert_args E order M L h env as = Some (s, vs, h') \<and>
    (s = STATUS_OK \<longrightarrow> list_all2 (\<lambda>a v. \<exists>t. tree_of (unat (max_depth L)) M a = Some t \<and> content v = tval t) as vs)"
proof (induction as arbitrary: h env)
  case Nil
  then show ?case by simp
next
  case (Cons a as)
  let ?run = "ts_host_value_from_view_in_env E order M h (Some env) (Some a) (Some L)"
  note fv = value_from_view_ok [OF laws fits, where h = h and env = env and arg = "Some a" and limits = "Some L"]
  then obtain s v env' h1 where run: "?run = Some (s, v, env', h1)" by (cases ?run) auto
  show ?case
  proof (cases "s = STATUS_OK")
    case False
    with run show ?thesis by simp
  next
    case True
    with fv run have t: "\<exists>t. tree_of (unat (max_depth L)) M a = Some t \<and> content v = tval t" by auto
    from Cons.IH [of h1 "the env'"] obtain s2 vs h2 where
      "convert_args E order M L h1 (the env') as = Some (s2, vs, h2)"
      "s2 = STATUS_OK \<longrightarrow> list_all2 (\<lambda>a v. \<exists>t. tree_of (unat (max_depth L)) M a = Some t \<and> content v = tval t) as vs"
      by blast
    with run True t show ?thesis by simp
  qed
qed

lemma call_finish_OK:
  assumes "call_finish E A thread W i a rt was_attached name slot s phase msg r = (STATUS_OK, r', W')"
  shows "s = STATUS_OK \<and> r' = r"
proof -
  let ?W1 = "set_env a (\<lambda>x. set_limits (env_max_recursion rt) (env_max_nodes rt) (env_max_loop_iterations rt)
      (if was_attached then ts_host_call_budget_detach x else x)) W"
  obtain s2 W2 where fin: "ts_host_instance_finish_call ?W1 i s = (s2, W2)" by fastforce
  then have "s2 = s \<or> s2 = STATUS_INVALID_STATE" by (auto simp: ts_host_instance_finish_call_def Let_def split: if_splits)
  with assms fin publish_cases [of E A thread W2 i r s2 phase name slot msg STATUS_OK r' W'] show ?thesis
    by (auto simp: call_finish_def split: if_splits)
qed

lemma safe_point_status:
  assumes "ts_host_safe_point rt kind cost = (q, rt')" "q \<noteq> 0"
  shows "ts_host_call_budget_status (active_host_budget rt') \<noteq> STATUS_OK"
proof -
  from assms obtain b where b: "active_host_budget rt = Some b"
    by (cases "active_host_budget rt") (auto simp: ts_host_safe_point_def)
  show ?thesis
  proof (cases "failure_status b = STATUS_OK")
    case False
    with assms b show ?thesis by (simp add: ts_host_safe_point_def ts_host_call_budget_status_def)
  next
    case True
    obtain r b' where sw: "ts_host_safe_point_switch b kind cost = (r, b')" by fastforce
    with assms b True have "r \<noteq> 0" "active_host_budget rt' = Some b'"
      by (auto simp: ts_host_safe_point_def Let_def split: if_splits)
    with switch_refuse [of b kind cost r b'] sw True show ?thesis
      by (auto simp: ts_host_call_budget_status_def)
  qed
qed

lemma call_outcome_OK:
  assumes run: "call_outcome E A B thread tmp local W i budget r q answer = Some (STATUS_OK, phase, msg, r', W')"
    and "d_present (i_diagnostic (w_inst W i)) \<Longrightarrow> d_status (i_diagnostic (w_inst W i)) \<noteq> STATUS_OK"
  shows "q = 0 \<and> (\<exists>M. ts_host_result_store_exprtk E A (w_ctx W) thread (w_mem W) tmp local r (Some answer)
      (Some (output_limits (i_limits (w_inst W i)) budget)) = Some (STATUS_OK, M, r'))"
proof (cases "q = 0")
  case False
  with assms show ?thesis by (auto simp: call_outcome_def Let_def split: if_splits)
next
  case True
  with run show ?thesis
    by (auto simp: call_outcome_def Let_def split: option.splits if_splits prod.splits dest: safe_point_status)
qed

text \<open>
  The engine starts without a diagnostic, and a diagnostic it leaves reports an error:
  \<^verbatim>\<open>ts_host_instance_record_callback_error\<close>, their only writer, sets \<open>STATUS_HOST_ERROR\<close>.
\<close>

definition diagnostics_are_errors :: "'art backend \<Rightarrow> addr \<Rightarrow> bool" where
  "diagnostics_are_errors B i \<longleftrightarrow>
     (\<forall>art use_jit X a slot vs. let d = i_diagnostic (w_inst (snd (snd (be_call B art use_jit X a slot vs))) i) in
        \<not> d_present (i_diagnostic (w_inst X i)) \<longrightarrow> d_present d \<longrightarrow> d_status d \<noteq> STATUS_OK)"

lemma call_execute_OK:
  assumes run: "call_execute E A B thread tmp local W i slot name budget vs r = Some (Inl (STATUS_OK, r', W'))"
    and honest: "diagnostics_are_errors B i"
  shows "\<exists>W3 v W4 M. be_call B (m_artifact (w_mod W (i_module (w_inst W i)))) (i_mode (w_inst W i) = EXEC_JIT)
      W3 (i_runtime (w_inst W i)) slot vs = (0, v, W4) \<and> w_heap W3 = w_heap W \<and>
    ts_host_result_store_exprtk E A (w_ctx W4) thread (w_mem W4) tmp local r (Some v)
      (Some (output_limits (i_limits (w_inst W4 i)) budget)) = Some (STATUS_OK, M, r')"
proof -
  let ?a = "i_runtime (w_inst W i)"
  let ?W1 = "set_env ?a (set_limits (recursion_left budget) (steps_left budget) (loops_left budget)) W"
  obtain s W2 where b: "ts_host_instance_begin_call ?W1 i = (s, W2)" by fastforce
  obtain s3 rt where at: "ts_host_call_budget_attach (w_env W2 ?a) budget = (s3, rt)" by fastforce
  note run = run [unfolded call_execute_def Let_def b at prod.case]
  from run have s: "s = STATUS_OK" by (auto split: if_splits)
  have heap: "w_heap W2 = w_heap W"
    using b by (auto simp: ts_host_instance_begin_call_def Let_def set_defs split: if_splits)
  have clear: "\<not> d_present (i_diagnostic (w_inst (set_env ?a (\<lambda>_. rt) W2) i))"
    using b s by (auto simp: ts_host_instance_begin_call_def Let_def set_defs ts_host_instance_clear_diagnostic_def
        no_diagnostic_def split: if_splits)
  have s3: "s3 = STATUS_OK"
  proof (rule ccontr)
    assume "s3 \<noteq> STATUS_OK"
    with run s call_finish_OK [of E A thread W2 i ?a "w_env W ?a" False name slot s3 PHASE_CALL
        "''call budget attachment failed''" r r' W'] show False by (auto split: if_splits)
  qed
  let ?W3 = "set_env ?a (\<lambda>_. rt) W2"
  obtain q v W4 where be: "be_call B (m_artifact (w_mod W (i_module (w_inst W i)))) (i_mode (w_inst W i) = EXEC_JIT)
      ?W3 ?a slot vs = (q, v, W4)" by (metis prod_cases3)
  from run s s3 be obtain s5 phase msg r5 W5 where
    co: "call_outcome E A B thread tmp local W4 i budget r q v = Some (s5, phase, msg, r5, W5)"
    and fin: "call_finish E A thread W5 i ?a (w_env W ?a) True name slot s5 phase msg r5 = (STATUS_OK, r', W')"
    by (auto split: option.splits)
  have err: "d_present (i_diagnostic (w_inst W4 i)) \<Longrightarrow> d_status (i_diagnostic (w_inst W4 i)) \<noteq> STATUS_OK"
    using honest [unfolded diagnostics_are_errors_def Let_def] be clear by (metis snd_conv)
  from call_finish_OK [OF fin] have "s5 = STATUS_OK" "r' = r5" by simp_all
  with call_outcome_OK [of E A B thread tmp local W4 i budget r q v phase msg r' W5] co err
  have "q = 0" "\<exists>M. ts_host_result_store_exprtk E A (w_ctx W4) thread (w_mem W4) tmp local r (Some v)
      (Some (output_limits (i_limits (w_inst W4 i)) budget)) = Some (STATUS_OK, M, r')" by auto
  with be heap show ?thesis by (intro exI [of _ ?W3]) auto
qed

lemma call_execute_refusal:
  assumes "call_execute E A B thread tmp local W i slot name budget vs r = Some (Inr (s, W'))"
  shows "s \<noteq> STATUS_OK"
  using assms by (auto simp: call_execute_def Let_def split: prod.splits option.splits if_splits)

lemma preflight_accepts:
  assumes "call_preflight E W i handle args n options = Inr (slot, name, budget)"
  shows "ts_host_instance_decode_handle (w_mod W (i_module (w_inst W i))) (w_inst W i) handle = (STATUS_OK, slot) \<and>
    n = ucast (ts_host_module_export_arity (Some (w_mod W (i_module (w_inst W i)))) slot) \<and>
    ts_host_call_budget_init (i_limits (w_inst W i)) options = (STATUS_OK, Some budget)"
  using assms
  by (auto simp: call_preflight_def Let_def ts_host_call_budget_init_def split: if_splits option.splits prod.splits)

text \<open>
  C7: a call that succeeds is a call of the engine.  Let the engine leave no diagnostic with
  status OK, the set and pool operations keep their laws, and the memory of the argument views fit
  the address space.  Then, when a call reports success, its handle denotes a slot of the module
  whose arity is the number of arguments, the engine ran that slot of the instance's artifact, in
  the mode of the instance, on values with the content of the trees that the argument views
  denote, in order, it answered success, and the result is the one that storing its answer, within
  the output limits of the call, gives.
\<close>

theorem successful_call_is_engine_call:
  fixes W :: "'art world"
  assumes laws: "key_set_laws E keys_of" "order_laws order" and fits: "mem_fits (w_mem W)"
    and honest: "diagnostics_are_errors B i"
    and run: "turbo_script_instance_call E A order B thread tmp local W (Some i) handle args n options r =
      Some (STATUS_OK, r', W')"
  shows "\<exists>slot budget vs W3 v W4 M r0.
    ts_host_instance_decode_handle (w_mod W (i_module (w_inst W i))) (w_inst W i) handle = (STATUS_OK, slot) \<and>
    n = ucast (ts_host_module_export_arity (Some (w_mod W (i_module (w_inst W i)))) slot) \<and>
    ts_host_call_budget_init (i_limits (w_inst W i)) options = (STATUS_OK, Some budget) \<and>
    list_all2 (\<lambda>k v. \<exists>t. tree_of (unat (io_max_value_depth (i_limits (w_inst W i)))) (w_mem W) (item_addr (the args) k) = Some t \<and>
      content v = tval t) [0..<unat n] vs \<and>
    be_call B (m_artifact (w_mod W (i_module (w_inst W i)))) (i_mode (w_inst W i) = EXEC_JIT)
      W3 (i_runtime (w_inst W i)) slot vs = (0, v, W4) \<and>
    ts_host_result_store_exprtk E A (w_ctx W4) thread (w_mem W4) tmp local r0 (Some v)
      (Some (output_limits (i_limits (w_inst W4 i)) budget)) = Some (STATUS_OK, M, r')"
proof -
  obtain s0 r0 where beg: "ts_host_instance_begin E A thread W (Some i) r PHASE_CALL = (s0, r0)" by fastforce
  note run = run [unfolded turbo_script_instance_call_def beg prod.case Let_def option.sel]
  from run have s0: "s0 = STATUS_OK" by (auto split: if_splits)
  obtain slot name budget where pre: "call_preflight E W i handle args n options = Inr (slot, name, budget)"
  proof (cases "call_preflight E W i handle args n options")
    case (Inl e)
    obtain s1 nm msg where e: "e = (s1, nm, msg)" by (metis prod_cases3)
    with run s0 Inl preflight_refused [OF Inl [unfolded e]] show thesis by (auto simp: ts_host_instance_fail_def)
  qed (metis prod_cases3)
  obtain pool h where np: "new_pool (w_heap W) = (pool, h)" by fastforce
  let ?as = "map (item_addr (the args)) [0..<unat n]" and ?L = "input_limits (i_limits (w_inst W i))"
  let ?env = "\<lparr>env_arena = pool, ee_aborted = False, ee_error_msg = []\<rparr>"
  from convert_args_ok [OF laws fits, of ?L h ?env ?as] obtain s1 vs h1 where
    conv: "convert_args E order (w_mem W) ?L h ?env ?as = Some (s1, vs, h1)"
    and sound: "s1 = STATUS_OK \<Longrightarrow>
      list_all2 (\<lambda>a v. \<exists>t. tree_of (unat (max_depth ?L)) (w_mem W) a = Some t \<and> content v = tval t) ?as vs" by blast
  note run = run s0 pre np conv
  have s1: "s1 = STATUS_OK"
    using run by (auto simp: ts_host_instance_fail_def split: if_splits)
  obtain x where ex: "call_execute E A B thread tmp local (W\<lparr>w_heap := h1\<rparr>) i slot name budget vs r0 = Some x"
    using run s1 by (auto split: option.splits)
  have "x = Inl (STATUS_OK, r', W')"
  proof (cases x)
    case (Inr y)
    with run s1 ex call_execute_refusal [of E A B thread tmp local "W\<lparr>w_heap := h1\<rparr>" i slot name budget vs r0 "fst y" "snd y"] show ?thesis
      by (auto simp: ts_host_instance_fail_def split: prod.splits)
  qed (use run s1 ex in simp)
  from call_execute_OK [OF ex [unfolded this] honest] preflight_accepts [OF pre] sound [OF s1]
  show ?thesis by (auto simp: list_all2_map1 input_limits_def) blast
qed

theorem successful_call_is_engine_call_witness:
  "\<exists>r' W' slot. example_call = Some (STATUS_OK, r', W') \<and>
     ts_host_instance_decode_handle (w_mod call_world 20) ready_instance (ts_host_export_handle 1 0) = (STATUS_OK, slot) \<and>
     0 = (ucast (ts_host_module_export_arity (Some (w_mod call_world 20)) slot) :: size_t)"
proof -
  obtain r' W' where run: "example_call = Some (STATUS_OK, r', W')" using example_call_ok by blast
  have facts: "w_inst call_world 30 = ready_instance" "i_module ready_instance = 20"
    by (simp_all add: call_world_def example_world_def ready_instance_def)
  have "diagnostics_are_errors quiet_backend 30" by (simp add: diagnostics_are_errors_def quiet_backend_def)
  moreover have "mem_fits (w_mem call_world)" by (simp add: call_world_def example_world_def example_mem_fits)
  moreover have "order_laws id" by (simp add: order_laws_def)
  ultimately show ?thesis
    using successful_call_is_engine_call [OF list_salts_laws _ _ _ run] run unfolding facts by blast
qed

section \<open>The report of a failed call\<close>

lemma finish_call_keeps:
  assumes "ts_host_instance_finish_call W i s = (s', W')"
  shows "w_env W' = w_env W" "w_mod W' = w_mod W" "i_diagnostic (w_inst W' i) = i_diagnostic (w_inst W i)"
    "i_limits (w_inst W' i) = i_limits (w_inst W i)" "i_module (w_inst W' i) = i_module (w_inst W i)"
    "i_runtime (w_inst W' i) = i_runtime (w_inst W i)"
  using assms by (auto simp: ts_host_instance_finish_call_def Let_def set_defs split: if_splits)

lemma runtime_error_message_kept [simp]:
  "runtime_error_message (set_limits x y z rt) = runtime_error_message rt"
  "runtime_error_message (ts_host_call_budget_detach rt) = runtime_error_message rt"
  by (simp_all add: runtime_error_message_def set_limits_def ts_host_call_budget_detach_def split: option.split)

lemma execution_error_fields:
  fixes W i defines "d \<equiv> i_diagnostic (w_inst W i)"
  shows "ei_module_name (execution_error W i s phase name slot msg) =
      ts_host_instance_module_name (w_mod W (i_module (w_inst W i)))"
    and "ei_status (execution_error W i s phase name slot msg) = (if d_present d then d_status d else s)"
    and "ei_phase (execution_error W i s phase name slot msg) = (if d_present d then d_phase d else phase)"
    and "ei_cause_code (execution_error W i s phase name slot msg) = (if d_present d then d_cause_code d else 0)"
    and "ei_function_name (execution_error W i s phase name slot msg) =
      (if d_present d then d_function_name d else name)"
    and "ei_message (execution_error W i s phase name slot msg) =
      (case if d_present d then case d_message d of Some t \<Rightarrow> Buf t | None \<Rightarrow> NullBuf 0
         else runtime_error_message (w_env W (i_runtime (w_inst W i))) of
       NullBuf n \<Rightarrow> Buf msg | Buf t \<Rightarrow> Buf t)"
  by (simp_all add: execution_error_def Let_def d_def no_error_def split: prod.split)

text \<open>
  C19: what a failed call reports.  At the end of a call that ran and failed with status \<open>s\<close>, the
  report is stored in the result and its status returned (or the status of a failed store).  When
  the instance holds the diagnostic of a host callback, the report is that of the diagnostic: its
  status, phase, cause, function and message, whatever \<open>s\<close> is and even if the script had caught
  the error of the callback before it failed for another reason.  Without a diagnostic, the report
  has the status, the phase and the export of the call, and the message of the environment, or the
  given one if the environment has none.
\<close>

theorem failed_call_report:
  assumes call: "in_call W c i a" and failed: "s \<noteq> STATUS_OK"
    and run: "call_finish E A thread W i a rt was_attached name slot s phase msg r = (s', r', W')"
  shows "\<exists>C err store. ts_host_result_set_error E A C thread r (Some err)
      (io_max_result_bytes (i_limits (w_inst W i))) = (store, r') \<and>
    s' = (if store = STATUS_OK then ei_status err else store) \<and>
    ei_module_name err = ts_host_instance_module_name (w_mod W (i_module (w_inst W i))) \<and>
    (let d = i_diagnostic (w_inst W i) in
     if d_present d
     then ei_status err = d_status d \<and> ei_phase err = d_phase d \<and> ei_cause_code err = d_cause_code d \<and>
       ei_function_name err = d_function_name d \<and>
       ei_message err = Buf (case d_message d of Some t \<Rightarrow> t | None \<Rightarrow> msg)
     else ei_status err = s \<and> ei_phase err = phase \<and> ei_cause_code err = 0 \<and> ei_function_name err = name \<and>
       ei_message err = (case runtime_error_message (w_env W a) of NullBuf n \<Rightarrow> Buf msg | Buf t \<Rightarrow> Buf t))"
proof -
  let ?W1 = "set_env a (\<lambda>x. set_limits (env_max_recursion rt) (env_max_nodes rt) (env_max_loop_iterations rt)
      (if was_attached then ts_host_call_budget_detach x else x)) W"
  obtain s2 W2 where fin: "ts_host_instance_finish_call ?W1 i s = (s2, W2)" by fastforce
  have "in_call ?W1 c i a" by (rule in_call_frame [OF call]) simp
  then have "s2 = s" using finish_call_ok(1) [of ?W1 i s] fin by (auto simp: in_call_def)
  with run fin failed have pub:
    "ts_host_instance_publish_execution_error E A thread W2 i r s phase name slot msg = (s', r', W')"
    by (simp add: call_finish_def)
  let ?err = "execution_error W2 i s phase name slot msg"
  note kept = finish_call_keeps [OF fin]
  have a: "i_runtime (w_inst W i) = a" using call by (simp add: in_call_def)
  have env: "runtime_error_message (w_env W2 a) = runtime_error_message (w_env W a)"
    by (cases was_attached) (simp_all add: kept)
  obtain store where st: "ts_host_result_set_error E A (w_ctx W2) thread r (Some ?err)
      (io_max_result_bytes (i_limits (w_inst W i))) = (store, r')" "s' = (if store = STATUS_OK then ei_status ?err else store)"
    using pub by (auto simp: ts_host_instance_publish_execution_error_def Let_def kept split: prod.splits)
  show ?thesis
    by (intro exI [of _ "w_ctx W2"] exI [of _ ?err] exI [of _ store])
      (simp add: st execution_error_fields kept a env Let_def split: option.split)
qed

text \<open>A callback failed, the script went on, and then a quota ran out.\<close>

definition masked_world :: "nat world" where
  "masked_world = ts_host_instance_record_callback_error (snd (ts_host_instance_begin_call example_world 30)) 30
     STATUS_HOST_ERROR 7 (Buf ''log'') (Buf ''disk full'') 3 1"

lemma masked_in_call: "in_call masked_world 10 30 40"
proof -
  have "ts_host_instance_begin_call example_world 30 = (STATUS_OK, snd (ts_host_instance_begin_call example_world 30))"
    using example_begins by (metis snd_conv)
  from begin_call_in_call [OF this] have "in_call (snd (ts_host_instance_begin_call example_world 30)) 10 30 40"
    by (simp add: example_instance_ctx) (simp add: example_world_def ready_instance_def)
  then show ?thesis unfolding masked_world_def by (rule in_call_frame) simp
qed

theorem failed_call_report_witness:
  "\<exists>s' r' W' C err store.
     call_finish list_salts bump_arena 7 masked_world 30 40 idle_runtime False (Buf ''area'') 0
       STATUS_LIMIT_EXCEEDED PHASE_CALL ''call step quota exceeded'' (Some world_result) = (s', r', W') \<and>
     ts_host_result_set_error list_salts bump_arena C 7 (Some world_result) (Some err)
       (io_max_result_bytes (i_limits (w_inst masked_world 30))) = (store, r') \<and>
     s' = (if store = STATUS_OK then STATUS_HOST_ERROR else store) \<and> ei_status err = STATUS_HOST_ERROR"
proof -
  obtain s' r' W' where run: "call_finish list_salts bump_arena 7 masked_world 30 40 idle_runtime False (Buf ''area'') 0
      STATUS_LIMIT_EXCEEDED PHASE_CALL ''call step quota exceeded'' (Some world_result) = (s', r', W')"
    by (metis prod_cases3)
  have d: "d_present (i_diagnostic (w_inst masked_world 30))"
    "d_status (i_diagnostic (w_inst masked_world 30)) = STATUS_HOST_ERROR" by (simp_all add: masked_world_def)
  from failed_call_report [OF masked_in_call _ run, unfolded Let_def if_P [OF d(1)] d(2)] obtain C err store
    where "ts_host_result_set_error list_salts bump_arena C 7 (Some world_result) (Some err)
      (io_max_result_bytes (i_limits (w_inst masked_world 30))) = (store, r')"
      "s' = (if store = STATUS_OK then ei_status err else store)" "ei_status err = STATUS_HOST_ERROR" by auto
  with run show ?thesis by metis
qed

end
