(* ===== verification/Script_Env.thy ===== *)
theory Script_Env
  imports Exprtk_Value Native_Registration
begin

text \<open>
  The environments scripts run in (\<^verbatim>\<open>exprtk/src/exprtk_runtime.c\<close>): each has a table of variables,
  and a lookup walks from the innermost environment outwards.  The main results are that an
  assignment changes the nearest binding of its name and no other, and that no operation changes
  a constant.
\<close>

section \<open>Tables of variables\<close>

text \<open>
  \<^verbatim>\<open>exprtk_var_entry_t\<close>; the name is the key.  \<^verbatim>\<open>exprtk_var_entry_t_htab_t\<close> holds a hash table of
  the Salts library, listed in the order of its slots, and a snapshot of it for enumeration:
  \<open>vt_els\<close> is the array, null or not, and \<open>vt_els_bound\<close> the number of elements it should have.
\<close>

record var_entry =
  ve_value :: exprtk_value
  ve_is_constant :: bool
  ve_is_borrowed :: bool

record var_table =
  vt_map :: "(bytes \<times> var_entry) list"
  vt_els :: "(bytes \<times> var_entry) list option"
  vt_els_bound :: nat

definition exprtk_var_entry_t_htab_sync :: "heap \<Rightarrow> var_table \<Rightarrow> int \<times> var_table \<times> heap" where
  "exprtk_var_entry_t_htab_sync h t =
     (let count = length (vt_map t); t1 = t\<lparr>vt_els := None, vt_els_bound := count\<rparr> in
      if count = 0 then (1, t1, h)
      else
        let (ok, h') = alloc h in
        if \<not> ok then (0, t1, h') else (1, t1\<lparr>vt_els := Some (vt_map t)\<rparr>, h'))"

text \<open>\<open>None\<close> is a null table: the block and the hash map are two allocations.\<close>

definition exprtk_var_entry_t_htab_new :: "heap \<Rightarrow> var_table option \<times> heap" where
  "exprtk_var_entry_t_htab_new h =
     (let (ok, h') = alloc_all 2 h in
      (if ok then Some \<lparr>vt_map = [], vt_els = None, vt_els_bound = 0\<rparr> else None, h'))"

text \<open>
  \<^verbatim>\<open>exprtk_var_entry_t_htab_do\<close>, one function per operation.  \<^verbatim>\<open>hash_map_put\<close> may fail; when it does
  not, the entry is stored even if the snapshot cannot be renewed.
\<close>

definition htab_find :: "var_table option \<Rightarrow> bytes \<Rightarrow> var_entry option" where
  "htab_find t name = (case t of None \<Rightarrow> None | Some x \<Rightarrow> map_of (vt_map x) name)"

definition htab_put :: "order \<Rightarrow> heap \<Rightarrow> var_table \<Rightarrow> bytes \<Rightarrow> var_entry \<Rightarrow> int \<times> var_table \<times> heap" where
  "htab_put order h t name e =
     (let (ok, h1) = alloc h in
      if \<not> ok then (0, t, h1)
      else exprtk_var_entry_t_htab_sync h1 (t\<lparr>vt_map := entries_update order (vt_map t) name e\<rparr>))"

definition htab_replace ::
  "order \<Rightarrow> heap \<Rightarrow> var_table option \<Rightarrow> bytes \<Rightarrow> var_entry \<Rightarrow> int \<times> var_table option \<times> heap" where
  "htab_replace order h t name e =
     (case t of
        None \<Rightarrow> (0, None, h)
      | Some x \<Rightarrow> (case htab_put order h x name e of (r, x', h') \<Rightarrow> (r, Some x', h')))"

text \<open>Insertion; the name is null when \<^verbatim>\<open>strdup\<close> has failed.\<close>

definition htab_insert ::
  "order \<Rightarrow> heap \<Rightarrow> var_table option \<Rightarrow> bytes option \<Rightarrow> var_entry \<Rightarrow> int \<times> var_table option \<times> heap" where
  "htab_insert order h t name e =
     (case (t, name) of
        (Some x, Some n) \<Rightarrow>
          if map_of (vt_map x) n \<noteq> None then (0, t, h)
          else (case htab_put order h x n e of (r, x', h') \<Rightarrow> (r, Some x', h'))
      | _ \<Rightarrow> (0, t, h))"

definition htab_delete :: "heap \<Rightarrow> var_table option \<Rightarrow> bytes \<Rightarrow> int \<times> var_table option \<times> heap" where
  "htab_delete h t name =
     (case t of
        None \<Rightarrow> (0, None, h)
      | Some x \<Rightarrow>
          if map_of (vt_map x) name = None then (0, t, h)
          else
            (case exprtk_var_entry_t_htab_sync h
                    (x\<lparr>vt_map := filter (\<lambda>e. fst e \<noteq> name) (vt_map x)\<rparr>) of
               (r, x', h') \<Rightarrow> (r, Some x', h')))"

section \<open>Storing a value in an environment\<close>

text \<open>The tags of \<^verbatim>\<open>exprtk_value_type_t\<close> whose values are references.\<close>

definition REFERENCE_TAGS :: "nat list" where "REFERENCE_TAGS = [10, 11, 12, 13, 14]"

fun exprtk_value_is_reference_type :: "exprtk_value \<Rightarrow> bool" where
  "exprtk_value_is_reference_type (EOpaque tag a) = (tag \<in> set REFERENCE_TAGS)"
| "exprtk_value_is_reference_type v = False"

text \<open>The test whether the managed payload of an owned value lies in a pool already.\<close>

fun payload_in_pool :: "exprtk_value \<Rightarrow> pool \<Rightarrow> bool" where
  "payload_in_pool (EString s v) pool = (s = Some pool)"
| "payload_in_pool (EBytes s v) pool = (s = Some pool)"
| "payload_in_pool (EBigint s v) pool = (s = Some pool)"
| "payload_in_pool (EEnum t s a n m v) pool =
     ((s \<noteq> None \<or> a \<noteq> None) \<and> (s = None \<or> s = Some pool) \<and> (a = None \<or> a = Some pool))"
| "payload_in_pool (EVector s v) pool = (s = Some pool)"
| "payload_in_pool (ETypedArray k s v) pool = (s = Some pool)"
| "payload_in_pool v pool = False"

text \<open>
  The part of \<^verbatim>\<open>exprtk_value_clone_to_env\<close> that \<^verbatim>\<open>exprtk_value_store_to_env\<close> reaches: values that
  are neither references nor containers.  A failed copy gives null (and aborts the environment).
\<close>

definition clone_plain ::
  "order \<Rightarrow> heap \<Rightarrow> exprtk_env \<Rightarrow> exprtk_value \<Rightarrow> exprtk_value \<times> exprtk_env \<times> heap" where
  "clone_plain order h env v =
     (case exprtk_value_copy_to_env order h v env of
        (Some copied, env', h') \<Rightarrow> (copied, env', h')
      | (None, env', h') \<Rightarrow> (ENull, env', h'))"

fun has_managed_payload :: "exprtk_value \<Rightarrow> bool" where
  "has_managed_payload (EString s v) = True"
| "has_managed_payload (EBytes s v) = True"
| "has_managed_payload (EBigint s v) = True"
| "has_managed_payload (EEnum t s a n m v) = True"
| "has_managed_payload (EVector s v) = True"
| "has_managed_payload (ETypedArray k s v) = True"
| "has_managed_payload v = False"

text \<open>
  \<^verbatim>\<open>exprtk_value_store_to_env\<close>: \<open>owned\<close> says that the value has ownership \<^verbatim>\<open>EXPRTK_VALUE_OWNED\<close>; the
  items of a container are handed on as borrowed.  When there is no memory for the items of a
  list, the stored list is empty; an entry that cannot be set is missing from a stored map.
\<close>

function (sequential)
  exprtk_value_store_to_env ::
    "order \<Rightarrow> bool \<Rightarrow> heap \<Rightarrow> exprtk_env \<Rightarrow> exprtk_value \<Rightarrow> exprtk_value \<times> exprtk_env \<times> heap"
  and store_items ::
    "order \<Rightarrow> heap \<Rightarrow> exprtk_env \<Rightarrow> exprtk_value list \<Rightarrow> exprtk_value list \<times> exprtk_env \<times> heap"
  and store_map ::
    "order \<Rightarrow> heap \<Rightarrow> exprtk_env \<Rightarrow> (bytes \<times> exprtk_value) list \<Rightarrow> exprtk_value \<Rightarrow>
     exprtk_value \<times> exprtk_env \<times> heap"
  where
  "exprtk_value_store_to_env order owned h env v =
     (if exprtk_value_is_reference_type v then (v, env, h)
      else if owned \<and> payload_in_pool v (env_arena env) then (v, env, h)
      else
        (case v of
           ESeq k vp items \<Rightarrow>
             if buf_elems items = [] then (ESeq k None (NullBuf 0), env, h)
             else
               let (ok, h1) = alloc h in
               if \<not> ok then (ESeq k None (NullBuf 0), env, h1)
               else
                 (case store_items order h1 env (buf_elems items) of
                    (xs, env', h') \<Rightarrow> (ESeq k None (Buf xs), env', h'))
         | EMap t s \<Rightarrow>
             (case exprtk_val_map t h of
                (m, h1) \<Rightarrow> store_map order h1 env (store_entries s) m)
         | _ \<Rightarrow> if has_managed_payload v then clone_plain order h env v else (v, env, h)))"
| "store_items order h env [] = ([], env, h)"
| "store_items order h env (x # xs) =
     (case exprtk_value_store_to_env order False h env x of
        (y, env1, h1) \<Rightarrow>
          (case store_items order h1 env1 xs of (ys, env2, h2) \<Rightarrow> (y # ys, env2, h2)))"
| "store_map order h env [] m = (m, env, h)"
| "store_map order h env (e # es) m =
     (case exprtk_value_store_to_env order False h env (snd e) of
        (stored_child, env1, h1) \<Rightarrow>
          (case exprtk_map_set order h1 m (fst e) stored_child of
             (r, m', h2) \<Rightarrow> store_map order h2 env1 es m'))"
  by pat_completeness auto

termination
  by (relation "measure
       (\<lambda>x. case x of
            Inl (order, owned, h, env, v) \<Rightarrow> size v
          | Inr (Inl (order, h, env, xs)) \<Rightarrow> size_list size xs
          | Inr (Inr (order, h, env, es, m)) \<Rightarrow> size_list (\<lambda>e. size (snd e)) es)")
    (auto simp: less_Suc_eq_le size_buf_elems size_store_entries)

declare exprtk_value_store_to_env.simps [simp del]

lemmas store_induct =
  exprtk_value_store_to_env_store_items_store_map.induct

section \<open>Environments\<close>

text \<open>
  \<^verbatim>\<open>exprtk_env_s\<close>, as far as variables, functions, modules and limits go.  The hooks (\<^verbatim>\<open>eval_node\<close>,
  \<^verbatim>\<open>exec_script_body\<close>, \<^verbatim>\<open>safe_point\<close> and its user data) are opaque addresses.  \<^verbatim>\<open>exprtk_module_t\<close> is its
  name and the names of its functions.  An environment with its parents is the list of them, the
  innermost first; the empty list is a null pointer.
\<close>

record script_module =
  md_module_name :: "bytes option"
  md_entries :: "bytes list"

datatype flow = FLOW_NORMAL | FLOW_BREAK | FLOW_CONTINUE | FLOW_RETURN | FLOW_THROW | FLOW_YIELD

record scope =
  sc_env :: exprtk_env
  sc_vars :: "var_table option"
  sc_funcs :: "exprtk_func list"
  sc_modules :: "script_module list"
  sc_mod_cache :: "bytes list option"
  sc_flow :: flow
  sc_return_value :: exprtk_value
  sc_error_value :: exprtk_value
  sc_max_recursion :: u32
  sc_curr_recursion :: u32
  sc_max_loop_iterations :: u32
  sc_curr_loop_iterations :: u32
  sc_max_nodes :: u32
  sc_curr_nodes :: u32
  sc_last_line :: int
  sc_last_column :: int
  sc_max_external_value_bytes :: size_t
  sc_error_line :: int
  sc_error_column :: int
  sc_hooks :: "addr option \<times> addr option \<times> addr option \<times> addr option"

type_synonym env_chain = "scope list"

text \<open>\<^verbatim>\<open>exprtk_env_init_storage\<close>: \<open>pool\<close> is the new arena.\<close>

definition exprtk_env_init_storage :: "heap \<Rightarrow> scope \<times> heap" where
  "exprtk_env_init_storage h =
     (let (vars, h1) = exprtk_var_entry_t_htab_new h; (pool, h2) = new_pool h1 in
      (\<lparr>sc_env = \<lparr>env_arena = pool, ee_aborted = False, ee_error_msg = []\<rparr>, sc_vars = vars, sc_funcs = [],
        sc_modules = [], sc_mod_cache = None, sc_flow = FLOW_NORMAL, sc_return_value = ENumber 0,
        sc_error_value = ENumber 0, sc_max_recursion = 100, sc_curr_recursion = 0, sc_max_loop_iterations = 10000,
        sc_curr_loop_iterations = 0, sc_max_nodes = 100000, sc_curr_nodes = 0, sc_last_line = 0, sc_last_column = 0,
        sc_max_external_value_bytes = 4 * 1024 * 1024, sc_error_line = 0, sc_error_column = 0,
        sc_hooks = (None, None, None, None)\<rparr>, h2))"

definition exprtk_env_init_child :: "heap \<Rightarrow> env_chain \<Rightarrow> env_chain \<times> heap" where
  "exprtk_env_init_child h parents =
     (case parents of
        [] \<Rightarrow> ([], h)
      | parent # _ \<Rightarrow>
          (case exprtk_env_init_storage h of
             (sc, h') \<Rightarrow>
               (sc\<lparr>sc_hooks := sc_hooks parent, sc_max_recursion := sc_max_recursion parent,
                   sc_max_loop_iterations := sc_max_loop_iterations parent,
                   sc_max_nodes := sc_max_nodes parent,
                   sc_max_external_value_bytes := sc_max_external_value_bytes parent\<rparr> # parents, h')))"

section \<open>Reading variables\<close>

text \<open>\<^verbatim>\<open>exprtk_env_get\<close>: the number 0 when the name is not bound.\<close>

fun env_find :: "env_chain \<Rightarrow> bytes \<Rightarrow> var_entry option" where
  "env_find [] name = None"
| "env_find (sc # scs) name =
     (case htab_find (sc_vars sc) name of Some e \<Rightarrow> Some e | None \<Rightarrow> env_find scs name)"

definition exprtk_env_get :: "env_chain \<Rightarrow> bytes option \<Rightarrow> exprtk_value" where
  "exprtk_env_get env name =
     (case name of
        None \<Rightarrow> ENumber 0
      | Some n \<Rightarrow> (case env_find env n of Some e \<Rightarrow> ve_value e | None \<Rightarrow> ENumber 0))"

definition exprtk_env_has :: "env_chain \<Rightarrow> bytes option \<Rightarrow> bool" where
  "exprtk_env_has env name = (case name of None \<Rightarrow> False | Some n \<Rightarrow> env_find env n \<noteq> None)"

definition exprtk_env_has_local_var :: "scope \<Rightarrow> bytes \<Rightarrow> bool" where
  "exprtk_env_has_local_var sc name = (htab_find (sc_vars sc) name \<noteq> None)"

section \<open>Writing variables\<close>

text \<open>The common part of a write to an existing entry: the new value is stored, then the entry replaced.\<close>

definition rebind ::
  "order \<Rightarrow> bool \<Rightarrow> heap \<Rightarrow> scope \<Rightarrow> bytes \<Rightarrow> var_entry \<Rightarrow> exprtk_value \<Rightarrow> scope \<times> heap" where
  "rebind order owned h sc name e v =
     (case exprtk_value_store_to_env order owned h (sc_env sc) v of
        (stored, env', h1) \<Rightarrow>
          (case htab_replace order h1 (sc_vars sc) name (e\<lparr>ve_value := stored, ve_is_borrowed := False\<rparr>) of
             (r, t, h2) \<Rightarrow> (sc\<lparr>sc_env := env', sc_vars := t\<rparr>, h2)))"

definition exprtk_env_set_local ::
  "order \<Rightarrow> bool \<Rightarrow> heap \<Rightarrow> scope \<Rightarrow> bytes option \<Rightarrow> exprtk_value \<Rightarrow> scope \<times> heap" where
  "exprtk_env_set_local order owned h sc name v =
     (case name of
        None \<Rightarrow> (sc, h)
      | Some n \<Rightarrow>
          (case htab_find (sc_vars sc) n of
             Some e \<Rightarrow> if ve_is_constant e then (sc, h) else rebind order owned h sc n e v
           | None \<Rightarrow>
               (case exprtk_value_store_to_env order owned h (sc_env sc) v of
                  (stored, env', h1) \<Rightarrow>
                    (case alloc h1 of
                       (dup, h2) \<Rightarrow>
                         (case htab_insert order h2 (sc_vars sc) (if dup then Some n else None)
                                 \<lparr>ve_value = stored, ve_is_constant = False, ve_is_borrowed = False\<rparr> of
                            (r, t, h3) \<Rightarrow> (sc\<lparr>sc_env := env', sc_vars := t\<rparr>, h3))))))"

definition exprtk_env_set_local_borrowed ::
  "order \<Rightarrow> heap \<Rightarrow> scope \<Rightarrow> bytes option \<Rightarrow> exprtk_value \<Rightarrow> scope \<times> heap" where
  "exprtk_env_set_local_borrowed order h sc name v =
     (case name of
        None \<Rightarrow> (sc, h)
      | Some n \<Rightarrow>
          (case htab_find (sc_vars sc) n of
             Some e \<Rightarrow>
               if ve_is_constant e then (sc, h)
               else
                 (case htab_replace order h (sc_vars sc) n (e\<lparr>ve_value := v, ve_is_borrowed := True\<rparr>) of
                    (r, t, h') \<Rightarrow> (sc\<lparr>sc_vars := t\<rparr>, h'))
           | None \<Rightarrow>
               (case alloc h of
                  (dup, h1) \<Rightarrow>
                    (case htab_insert order h1 (sc_vars sc) (if dup then Some n else None)
                            \<lparr>ve_value = v, ve_is_constant = False, ve_is_borrowed = True\<rparr> of
                       (r, t, h2) \<Rightarrow> (sc\<lparr>sc_vars := t\<rparr>, h2)))))"

text \<open>
  \<^verbatim>\<open>exprtk_env_set\<close>: the loop over the environments.  \<open>None\<close> is the end of the loop without a binding.
\<close>

fun set_bound ::
  "order \<Rightarrow> bool \<Rightarrow> heap \<Rightarrow> env_chain \<Rightarrow> bytes \<Rightarrow> exprtk_value \<Rightarrow> (env_chain \<times> heap) option" where
  "set_bound order owned h [] name v = None"
| "set_bound order owned h (sc # scs) name v =
     (case htab_find (sc_vars sc) name of
        Some e \<Rightarrow>
          Some (if ve_is_constant e then (sc # scs, h)
                else (case rebind order owned h sc name e v of (sc', h') \<Rightarrow> (sc' # scs, h')))
      | None \<Rightarrow>
          (case set_bound order owned h scs name v of
             None \<Rightarrow> None
           | Some (scs', h') \<Rightarrow> Some (sc # scs', h')))"

definition exprtk_env_set ::
  "order \<Rightarrow> bool \<Rightarrow> heap \<Rightarrow> env_chain \<Rightarrow> bytes option \<Rightarrow> exprtk_value \<Rightarrow> env_chain \<times> heap" where
  "exprtk_env_set order owned h env name v =
     (case (env, name) of
        (sc # scs, Some n) \<Rightarrow>
          (case set_bound order owned h env n v of
             Some r \<Rightarrow> r
           | None \<Rightarrow> (case exprtk_env_set_local order owned h sc name v of (sc', h') \<Rightarrow> (sc' # scs, h')))
      | _ \<Rightarrow> (env, h))"

text \<open>
  \<^verbatim>\<open>exprtk_env_set_constant\<close>: an assignment as above, then the entry of the innermost environment, if
  the name is bound there, becomes constant.
\<close>

definition exprtk_env_set_constant ::
  "order \<Rightarrow> bool \<Rightarrow> heap \<Rightarrow> env_chain \<Rightarrow> bytes \<Rightarrow> exprtk_value \<Rightarrow> env_chain \<times> heap" where
  "exprtk_env_set_constant order owned h env name v =
     (case exprtk_env_set order owned h env (Some name) v of
        ([], h1) \<Rightarrow> ([], h1)
      | (sc # scs, h1) \<Rightarrow>
          (case htab_find (sc_vars sc) name of
             None \<Rightarrow> (sc # scs, h1)
           | Some e \<Rightarrow>
               (case htab_replace order h1 (sc_vars sc) name (e\<lparr>ve_is_constant := True\<rparr>) of
                  (r, t, h2) \<Rightarrow> (sc\<lparr>sc_vars := t\<rparr> # scs, h2))))"

definition exprtk_env_init :: "order \<Rightarrow> heap \<Rightarrow> env_chain \<times> heap" where
  "exprtk_env_init order h =
     (case exprtk_env_init_storage h of
        (sc, h0) \<Rightarrow>
          fold (\<lambda>(name, v) (env, h). exprtk_env_set_constant order False h env name v)
            [(''pi'', ENumber 0x400921FB54442D18), (''e'', ENumber 0x4005BF0A8B145769),
             (''inf'', ENumber 0x7FF0000000000000), (''nan'', ENumber 0x7FF8000000000000),
             (''true'', exprtk_val_bool 1), (''false'', exprtk_val_bool 0)]
            ([sc], h0))"

text \<open>
  \<^verbatim>\<open>exprtk_env_import_vars\<close>: the snapshot of the source is enumerated up to its bound.  \<open>None\<close> is the
  access through a null array, when the last snapshot could not be allocated.
\<close>

fun import_entries ::
  "order \<Rightarrow> heap \<Rightarrow> env_chain \<Rightarrow> (bytes \<times> var_entry) list \<Rightarrow> env_chain \<times> heap" where
  "import_entries order h dst [] = (dst, h)"
| "import_entries order h [] (x # xs) = ([], h)"
| "import_entries order h (sc # scs) ((name, e) # xs) =
     (if exprtk_env_has_local_var sc name \<or> name = ''this'' then import_entries order h (sc # scs) xs
      else
        (case exprtk_env_set_local order False h sc (Some name) (ve_value e) of
           (sc1, h1) \<Rightarrow>
             if ve_is_constant e
             then (case exprtk_env_set_constant order False h1 (sc1 # scs) name (ve_value e) of
                     (dst, h2) \<Rightarrow> import_entries order h2 dst xs)
             else import_entries order h1 (sc1 # scs) xs))"

definition exprtk_env_import_vars ::
  "order \<Rightarrow> heap \<Rightarrow> env_chain \<Rightarrow> env_chain \<Rightarrow> (env_chain \<times> heap) option" where
  "exprtk_env_import_vars order h dst src =
     (case (dst, src) of
        (_ # _, s # _) \<Rightarrow>
          (case sc_vars s of
             None \<Rightarrow> Some (dst, h)
           | Some t \<Rightarrow>
               if vt_els_bound t = 0 then Some (dst, h)
               else (case vt_els t of None \<Rightarrow> None | Some els \<Rightarrow> Some (import_entries order h dst els)))
      | _ \<Rightarrow> Some (dst, h))"

text \<open>\<^verbatim>\<open>exprtk_env_add_module\<close>: the cache of sorted names is dropped.\<close>

definition exprtk_env_add_module :: "heap \<Rightarrow> scope \<Rightarrow> script_module option \<Rightarrow> scope \<times> heap" where
  "exprtk_env_add_module h sc m =
     (case m of
        None \<Rightarrow> (sc, h)
      | Some x \<Rightarrow>
          (case alloc h of
             (ok, h') \<Rightarrow>
               (if ok then sc\<lparr>sc_modules := sc_modules sc @ [x], sc_mod_cache := None\<rparr> else sc, h')))"

section \<open>Stored values keep their content\<close>

lemma copied_view_copyable:
  "exprtk_copy_view h pool v nul = (Some (s, v'), h') \<Longrightarrow> buf_fits v \<Longrightarrow>
   \<not> buf_broken v' \<and> (buf_size v \<noteq> SIZE_MAX \<longrightarrow> buf_size v' \<noteq> SIZE_MAX)"
  by (cases v) (auto simp: exprtk_copy_view_def Let_def split: if_splits prod.splits)

lemma copy_payload_copyable:
  "exprtk_copy_payload h pool v e = (Some (s, v'), h') \<Longrightarrow> buf_fits v \<Longrightarrow>
   \<not> buf_broken v' \<and> (buf_size v \<le> n \<longrightarrow> buf_size v' \<le> n)"
  by (cases v) (auto simp: exprtk_copy_payload_def Let_def split: if_splits prod.splits)

lemma map_set_copies:
  assumes "exprtk_map_set_with order copy h (EMap t (Some (p, es))) key v = (0, m, h')"
  obtains stored h1 where "copy h p = (Some stored, h1)" "next_pool h' = next_pool h1"
    "m = EMap t (Some (p, entries_update order es key stored))"
  using assms by (auto simp: exprtk_map_set_with_def exprtk_map_insert_def entries_update_def Let_def
      split: prod.splits option.splits if_splits dest: alloc_all_next_pool)

lemma entries_update_set:
  "order_laws order \<Longrightarrow> distinct (map fst es) \<Longrightarrow> e \<in> set (entries_update order es k v) \<Longrightarrow> e \<in> set es \<or> e = (k, v)"
  using put_keys(2) [of order es k v]
  by (cases "map_of es k") (auto simp: entries_update_def hash_map_replace_def split: if_splits)

lemma copy_copyable:
  shows "order_laws order \<Longrightarrow> vwf v \<Longrightarrow> copyable v \<Longrightarrow>
      exprtk_value_copy_to_pool order h v pool = (Some v', h') \<Longrightarrow> copyable v'"
    and "order_laws order \<Longrightarrow> \<forall>x \<in> set xs. vwf x \<and> copyable x \<Longrightarrow> acc = ESeq k vp b \<Longrightarrow>
      copyable acc \<Longrightarrow> exprtk_copy_items order h xs acc = (Some v', h') \<Longrightarrow> copyable v'"
    and "order_laws order \<Longrightarrow> \<forall>e \<in> set es. vwf (snd e) \<and> copyable (snd e) \<Longrightarrow>
      acc = EMap t (Some (q, es0)) \<Longrightarrow> distinct (map fst es0) \<Longrightarrow> copyable acc \<Longrightarrow>
      exprtk_copy_entries order h es acc = (Some v', h') \<Longrightarrow> copyable v'"
proof (induction order h v pool and order h xs acc and order h es acc
    arbitrary: v' h' and v' h' k vp b and v' h' t q es0 rule: copy_induct)
  case (1 order h v pool)
  note run = "1.prems"(4) [unfolded exprtk_value_copy_to_pool.simps [of order h v pool]]
  show ?case
  proof (cases "exprtk_value_in_pool v pool")
    case True
    with run "1.prems"(3) show ?thesis by simp
  next
    case False
    note run = run [unfolded if_not_P [OF False]]
    show ?thesis
    proof (cases v)
      case (ESeq k vp items)
      with run "1.IH"(1) [OF False ESeq "1.prems"(1) _ refl] "1.prems"(2,3) show ?thesis by auto
    next
      case (EMap t s)
      obtain m h1 where m: "exprtk_val_map t h = (EMap t m, h1)"
        by (cases "exprtk_map_storage_create h") (auto simp: exprtk_val_map_def)
      with run EMap obtain ps where ps: "m = Some ps" "snd ps = []"
        by (cases m) (auto simp: exprtk_val_map_def exprtk_map_storage_create_def new_pool_def Let_def
            split: if_splits prod.splits)
      then obtain p where p: "m = Some (p, [])" by (cases ps) auto
      have "exprtk_copy_entries order h1 (store_entries s) (EMap t (Some (p, []))) = (Some v', h')"
        using run EMap m p by simp
      from "1.IH"(2) [OF False EMap m [unfolded p, symmetric] refl refl "1.prems"(1) _ refl _ _ this]
      show ?thesis using "1.prems"(2,3) unfolding EMap by auto
    next
      case (ETypedArray kind st b)
      with run "1.prems"(2,3) show ?thesis
        by (auto simp: map_prod_option_eq split: option.splits dest!: copy_payload_copyable [where n = "SIZE_MAX div 8"])
    qed (use run "1.prems"(2,3) in \<open>auto simp: map_prod_option_eq split: prod.splits option.splits
          dest!: copied_view_copyable copy_payload_copyable [where n = "SIZE_MAX div 8"]\<close>)
  qed
next
  case (3 order h x xs acc)
  from "3.prems"(5) obtain acc' h1 where push:
    "exprtk_list_push_with (\<lambda>h p. exprtk_value_copy_to_pool order h x p) h acc = (0, acc', h1)"
    "exprtk_copy_items order h1 xs acc' = (Some v', h')" by (auto split: prod.splits if_splits)
  from push(1) [unfolded "3.prems"(3)] obtain p stored ha hb where
    c: "exprtk_value_copy_to_pool order ha x p = (Some stored, hb)"
    and acc': "acc' = ESeq k (Some p) (Buf (buf_elems b @ [stored]))" by (rule list_push_ok)
  have "copyable stored" using "3.IH"(1) [OF "3.prems"(1) _ _ c] "3.prems"(2) by simp
  then have "copyable acc'" using "3.prems"(3,4) acc' by auto
  with "3.IH"(2) [OF push(1) [symmetric] refl _ "3.prems"(1) _ acc' _ push(2)] "3.prems"(2) show ?case by simp
next
  case (5 order h e es acc)
  from "5.prems"(6) obtain acc' h1 where set:
    "exprtk_map_set_with order (\<lambda>h p. exprtk_value_copy_to_pool order h (snd e) p) h acc (fst e) (snd e) = (0, acc', h1)"
    "exprtk_copy_entries order h1 es acc' = (Some v', h')" by (auto split: prod.splits if_splits)
  from set(1) [unfolded "5.prems"(3)] obtain stored hb where
    c: "exprtk_value_copy_to_pool order h (snd e) q = (Some stored, hb)"
    and acc': "acc' = EMap t (Some (q, entries_update order es0 (fst e) stored))" by (rule map_set_copies)
  have "copyable stored" using "5.IH"(1) [OF "5.prems"(1) _ _ c] "5.prems"(2) by simp
  then have "copyable acc'" using "5.prems"(3,5) entries_update_set [OF "5.prems"(1,4)] acc' by fastforce
  moreover have "distinct (map fst (entries_update order es0 (fst e) stored))"
    using map_entries.inv_update [of order es0 "fst e" stored] "5.prems"(1,4) by simp
  ultimately show ?case
    using "5.IH"(2) [OF set(1) [symmetric] refl _ "5.prems"(1) _ acc' _ _ set(2)] "5.prems"(2) by simp
qed auto

text \<open>A value \<open>v\<close> stored as \<open>v'\<close> in an environment with the given arena, with memory to spare.\<close>

definition stored_as :: "heap \<Rightarrow> heap \<Rightarrow> pool \<Rightarrow> exprtk_value \<Rightarrow> exprtk_value \<Rightarrow> bool" where
  "stored_as h h' arena v v' \<longleftrightarrow>
     content v' = content v \<and> vwf v' \<and> copyable v' \<and> never_fails h' \<and> next_pool h \<le> next_pool h' \<and>
     pools v' \<subseteq> pools v \<union> insert arena {next_pool h..<next_pool h'}"

text \<open>Values that can be stored: well-formed, copyable, with pools that exist.\<close>

definition storable :: "heap \<Rightarrow> exprtk_value \<Rightarrow> bool" where
  "storable h v \<longleftrightarrow> vwf v \<and> copyable v \<and> (\<forall>p \<in> pools v. p < next_pool h)"

lemma storable_mono: "storable h v \<Longrightarrow> next_pool h \<le> next_pool h' \<Longrightarrow> storable h' v"
  by (fastforce simp: storable_def)

lemma copy_stores:
  assumes "order_laws order" "never_fails h" "storable h v"
  shows "\<exists>v' h'. exprtk_value_copy_to_pool order h v pool = (Some v', h') \<and> stored_as h h' pool v v' \<and>
    pools v' \<subseteq> insert pool {next_pool h..<next_pool h'}"
proof -
  from copy_plenty(1) [OF assms(2), of v order pool] assms(3) obtain v' h' where
    run: "exprtk_value_copy_to_pool order h v pool = (Some v', h')" "never_fails h'" "next_pool h \<le> next_pool h'"
    by (auto simp: copies_ok_def storable_def)
  with copy_ok(1) [OF assms(1) _ run(1)] copy_copyable(1) [OF assms(1) _ _ run(1)] assms(3)
  show ?thesis by (auto simp: stored_as_def copied_as_def storable_def)
qed

lemma clone_plain_stores:
  assumes "order_laws order" "never_fails h" "storable h v"
  shows "\<exists>v' h'. clone_plain order h env v = (v', env, h') \<and> stored_as h h' (env_arena env) v v'"
  using copy_stores [OF assms, of "env_arena env"] by (auto simp: clone_plain_def exprtk_value_copy_to_env_def)

text \<open>One more entry of a stored map.\<close>

lemma map_set_stores:
  assumes laws: "order_laws order" and nf: "never_fails h" and v: "storable h v" and q: "q \<notin> pools v"
    and es: "distinct (map fst es)" "map_of es key = None"
  shows "\<exists>v' h'. exprtk_map_set order h (EMap t (Some (q, es))) key v =
      (0, EMap t (Some (q, hash_map_put order es key v')), h') \<and> stored_as h h' q v v' \<and>
      pools v' \<subseteq> insert q {next_pool h..<next_pool h'}"
proof -
  from copy_stores [OF laws nf v, of q] obtain v' h' where
    c: "exprtk_value_copy_to_pool order h v q = (Some v', h')" "stored_as h h' q v v'"
      "pools v' \<subseteq> insert q {next_pool h..<next_pool h'}" by blast
  have "\<not> same_storage v (EMap t (Some (q, es)))" using same_storage_pools q by blast
  with c es(2) show ?thesis
    by (auto simp: exprtk_map_set_def exprtk_map_set_with_def exprtk_map_insert_def stored_as_def alloc_all_plenty)
qed

definition items_stored ::
  "heap \<Rightarrow> exprtk_env \<Rightarrow> exprtk_value list \<Rightarrow> exprtk_value list \<times> exprtk_env \<times> heap \<Rightarrow> bool" where
  "items_stored h env xs r \<longleftrightarrow>
     (\<exists>ys h'. r = (ys, env, h') \<and> never_fails h' \<and> next_pool h \<le> next_pool h' \<and>
        list_all2 (\<lambda>x y. content y = content x \<and> vwf y \<and> copyable y \<and>
          pools y \<subseteq> pools x \<union> insert (env_arena env) {next_pool h..<next_pool h'}) xs ys)"

definition map_stored ::
  "heap \<Rightarrow> exprtk_env \<Rightarrow> (bytes \<times> exprtk_value) list \<Rightarrow> map_type \<Rightarrow> pool \<Rightarrow> (bytes \<times> exprtk_value) list \<Rightarrow>
   exprtk_value \<times> exprtk_env \<times> heap \<Rightarrow> bool" where
  "map_stored h env es t q es0 r \<longleftrightarrow>
     (\<exists>es' h'. r = (EMap t (Some (q, es')), env, h') \<and> never_fails h' \<and> next_pool h \<le> next_pool h' \<and>
        distinct (map fst es') \<and> length es' = length es0 + length es \<and>
        fst ` set es' = fst ` set es0 \<union> fst ` set es \<and>
        map_option content \<circ> map_of es' = (map_option content \<circ> map_of es0) ++ (map_option content \<circ> map_of es) \<and>
        (\<forall>e \<in> set es'. e \<in> set es0 \<or> vwf (snd e) \<and> copyable (snd e) \<and>
           pools (snd e) \<subseteq> insert q {next_pool h..<next_pool h'}))"

lemma items_stored_Cons:
  assumes x: "stored_as h h1 (env_arena env) x y" and xs: "items_stored h1 env xs (ys, env, h2)"
  shows "items_stored h env (x # xs) (y # ys, env, h2)"
proof -
  have "list_all2 (\<lambda>x y. content y = content x \<and> vwf y \<and> copyable y \<and>
      pools y \<subseteq> pools x \<union> insert (env_arena env) {next_pool h..<next_pool h2}) xs ys"
    using xs x unfolding items_stored_def
    by (auto elim!: list_all2_mono simp: stored_as_def)
  with x xs show ?thesis by (fastforce simp: items_stored_def stored_as_def)
qed

lemma map_stored_Cons:
  assumes laws: "order_laws order" and d: "distinct (map fst (e # es))" and d0: "distinct (map fst es0)"
    and dis: "fst ` set (e # es) \<inter> fst ` set es0 = {}"
    and v: "content v = content (snd e)" "vwf v" "copyable v" "pools v \<subseteq> insert q {next_pool h..<next_pool h1}"
    and mono: "next_pool h \<le> next_pool h1"
    and rest: "map_stored h1 env es t q (hash_map_put order es0 (fst e) v) r"
  shows "map_stored h env (e # es) t q es0 r"
proof -
  have new: "map_of es0 (fst e) = None" using dis by (auto simp: map_of_eq_None_iff)
  note put = put_keys [OF laws d0 new, of v] put_length [OF laws d0 new, of v] put_map_of [OF laws d0 new, of v]
  from rest obtain es' h' where r: "r = (EMap t (Some (q, es')), env, h')" "never_fails h'" "next_pool h1 \<le> next_pool h'"
    "distinct (map fst es')" "length es' = Suc (length es0) + length es"
    "fst ` set es' = insert (fst e) (fst ` set es0) \<union> fst ` set es"
    "map_option content \<circ> map_of es' =
       (map_option content \<circ> (map_of es0)(fst e \<mapsto> v)) ++ (map_option content \<circ> map_of es)"
    "\<forall>x \<in> set es'. x \<in> insert (fst e, v) (set es0) \<or> vwf (snd x) \<and> copyable (snd x) \<and>
       pools (snd x) \<subseteq> insert q {next_pool h1..<next_pool h'}"
    unfolding map_stored_def put by auto
  have ne: "map_of es (fst e) = None" using d by (simp add: map_of_eq_None_iff)
  have "map_option content \<circ> map_of es' =
      (map_option content \<circ> map_of es0) ++ (map_option content \<circ> map_of (e # es))"
    unfolding r(7) using v(1) ne by (cases e) (auto simp: fun_eq_iff map_add_def split: option.splits)
  moreover have "\<forall>x \<in> set es'. x \<in> set es0 \<or> vwf (snd x) \<and> copyable (snd x) \<and>
      pools (snd x) \<subseteq> insert q {next_pool h..<next_pool h'}"
    using r(3,8) v mono by fastforce
  ultimately show ?thesis unfolding map_stored_def using r(1-6) mono by (auto simp: insert_commute)
qed

lemma seq_stored:
  assumes st: "items_stored h env (buf_elems items) r" and fits: "vwf (ESeq k vp items)"
  shows "\<exists>ys h'. r = (ys, env, h') \<and> stored_as h h' (env_arena env) (ESeq k vp items) (ESeq k None (Buf ys))"
proof -
  from st obtain ys h' where r: "r = (ys, env, h')" "never_fails h'" "next_pool h \<le> next_pool h'"
    and all: "list_all2 (\<lambda>x y. content y = content x \<and> vwf y \<and> copyable y \<and>
      pools y \<subseteq> pools x \<union> insert (env_arena env) {next_pool h..<next_pool h'}) (buf_elems items) ys"
    unfolding items_stored_def by blast
  have "length ys = length (buf_elems items)" using all by (simp add: list_all2_lengthD)
  moreover have "map content ys = map content (buf_elems items)" "\<forall>y \<in> set ys. vwf y \<and> copyable y"
    "(\<Union>y \<in> set ys. pools y) \<subseteq> (\<Union>x \<in> set (buf_elems items). pools x) \<union>
       insert (env_arena env) {next_pool h..<next_pool h'}"
    using all by (induction rule: list_all2_induct) auto
  ultimately show ?thesis using r fits by (auto simp: stored_as_def buf_fits_def)
qed

lemma map_stored_whole:
  assumes st: "map_stored h1 env es t q [] r" and es: "es = store_entries s"
    and h1: "q = next_pool h" "h1 = h\<lparr>next_pool := Suc q\<rparr>" and wf: "vwf (EMap t s)"
  shows "\<exists>v' h'. r = (v', env, h') \<and> stored_as h h' arena (EMap t s) v'"
proof -
  from st obtain es' h' where r: "r = (EMap t (Some (q, es')), env, h')" "never_fails h'"
    "Suc q \<le> next_pool h'" "distinct (map fst es')" "length es' = length es" "fst ` set es' = fst ` set es"
    "map_option content \<circ> map_of es' = map_option content \<circ> map_of es"
    "\<forall>e \<in> set es'. vwf (snd e) \<and> copyable (snd e) \<and> pools (snd e) \<subseteq> insert q {Suc q..<next_pool h'}"
    unfolding map_stored_def h1 by auto
  have "content (EMap t (Some (q, es'))) = content (EMap t s)" unfolding content_map using r(7) es by simp
  moreover have "vwf (EMap t (Some (q, es')))" "copyable (EMap t (Some (q, es')))"
    using r(4-6,8) wf by (auto simp: es)
  moreover have "pools (EMap t (Some (q, es'))) \<subseteq> {next_pool h..<next_pool h'}" using r(3,8) h1(1) by fastforce
  ultimately have "stored_as h h' arena (EMap t s) (EMap t (Some (q, es')))"
    unfolding stored_as_def using r(2,3) h1(1) by auto
  with r(1) show ?thesis by blast
qed

lemma store_ok:
  shows "order_laws order \<Longrightarrow> never_fails h \<Longrightarrow> storable h v \<Longrightarrow> env_arena env < next_pool h \<Longrightarrow>
      \<exists>v' h'. exprtk_value_store_to_env order owned h env v = (v', env, h') \<and> stored_as h h' (env_arena env) v v'"
    and "order_laws order \<Longrightarrow> never_fails h \<Longrightarrow> \<forall>x \<in> set xs. storable h x \<Longrightarrow> env_arena env < next_pool h \<Longrightarrow>
      items_stored h env xs (store_items order h env xs)"
    and "order_laws order \<Longrightarrow> never_fails h \<Longrightarrow> \<forall>e \<in> set es. storable h (snd e) \<and> q \<notin> pools (snd e) \<Longrightarrow>
      env_arena env < next_pool h \<Longrightarrow> env_arena env \<noteq> q \<Longrightarrow> q < next_pool h \<Longrightarrow> m = EMap t (Some (q, es0)) \<Longrightarrow>
      distinct (map fst es) \<Longrightarrow> distinct (map fst es0) \<Longrightarrow> fst ` set es \<inter> fst ` set es0 = {} \<Longrightarrow>
      map_stored h env es t q es0 (store_map order h env es m)"
proof (induction order owned h env v and order h env xs and order h env es m
    arbitrary: and and t q es0 rule: store_induct)
  case (1 order owned h env v)
  note unf = exprtk_value_store_to_env.simps [of order owned h env v]
  have self: "stored_as h h (env_arena env) v v" using "1.prems"(2,3) by (auto simp: stored_as_def storable_def)
  show ?case
  proof (cases "exprtk_value_is_reference_type v \<or> owned \<and> payload_in_pool v (env_arena env)")
    case True
    with self show ?thesis by (auto simp: unf)
  next
    case False
    then have nr: "\<not> exprtk_value_is_reference_type v" "\<not> (owned \<and> payload_in_pool v (env_arena env))" by auto
    show ?thesis
    proof (cases v)
      case (ESeq k vp items)
      show ?thesis
      proof (cases "buf_elems items = []")
        case True
        with nr "1.prems"(2) show ?thesis unfolding unf by (simp add: ESeq stored_as_def buf_fits_def)
      next
        case ne: False
        have "\<forall>x \<in> set (buf_elems items). storable h x" using "1.prems"(3) by (auto simp: ESeq storable_def)
        with "1.IH"(1) [OF nr ESeq ne alloc_plenty [OF "1.prems"(2), symmetric] refl _ "1.prems"(1,2) _ "1.prems"(4)]
        have "items_stored h env (buf_elems items) (store_items order h env (buf_elems items))" by simp
        from seq_stored [OF this, of k vp] "1.prems"(3) obtain ys h' where
          "store_items order h env (buf_elems items) = (ys, env, h')"
          "stored_as h h' (env_arena env) v (ESeq k None (Buf ys))" unfolding ESeq storable_def by auto
        with nr ne "1.prems"(2) show ?thesis unfolding unf by (simp add: ESeq alloc_plenty)
      qed
    next
      case (EMap t s)
      let ?q = "next_pool h" and ?h1 = "h\<lparr>next_pool := Suc (next_pool h)\<rparr>"
      have mk: "exprtk_val_map t h = (EMap t (Some (?q, [])), ?h1)"
        using "1.prems"(2) by (simp add: exprtk_val_map_def exprtk_map_storage_create_def alloc_all_plenty new_pool_def)
      have "storable ?h1 (snd e) \<and> ?q \<notin> pools (snd e)" if "e \<in> set (store_entries s)" for e
      proof -
        have "\<forall>p \<in> pools (snd e). p < ?q" using that "1.prems"(3) unfolding storable_def EMap by auto
        then show ?thesis using that "1.prems"(3) unfolding storable_def EMap by (auto intro: less_SucI)
      qed
      moreover have "distinct (map fst (store_entries s))" using "1.prems"(3) by (simp add: EMap storable_def)
      ultimately have "map_stored ?h1 env (store_entries s) t ?q [] (store_map order ?h1 env (store_entries s) (EMap t (Some (?q, []))))"
        using "1.IH"(2) [OF nr EMap mk [symmetric] "1.prems"(1), of ?q t "[]"] "1.prems"(2,4) by simp
      from map_stored_whole [OF this refl refl refl, of "env_arena env"] "1.prems"(3) obtain v' h' where
        "store_map order ?h1 env (store_entries s) (EMap t (Some (?q, []))) = (v', env, h')"
        "stored_as h h' (env_arena env) v v'" unfolding EMap storable_def by auto
      with nr show ?thesis unfolding unf by (simp add: EMap mk)
    qed (use nr self clone_plain_stores [OF "1.prems"(1-3), of env] in \<open>unfold unf, auto\<close>)
  qed
next
  case (2 order h env)
  then show ?case by (simp add: items_stored_def)
next
  case (3 order h env x xs)
  from "3.IH"(1) "3.prems" obtain y h1 where y: "exprtk_value_store_to_env order False h env x = (y, env, h1)"
    "stored_as h h1 (env_arena env) x y" by auto
  have "never_fails h1" "\<forall>x \<in> set xs. storable h1 x" "env_arena env < next_pool h1"
    using y(2) "3.prems"(3,4) storable_mono [of h _ h1] by (auto simp: stored_as_def)
  with "3.IH"(2) [OF y(1) [symmetric] refl "3.prems"(1)] have "items_stored h1 env xs (store_items order h1 env xs)" by simp
  then obtain ys h2 where ys: "store_items order h1 env xs = (ys, env, h2)" "items_stored h1 env xs (ys, env, h2)"
    unfolding items_stored_def by blast
  with items_stored_Cons [OF y(2) ys(2)] y(1) show ?case by simp
next
  case (4 order h env m)
  then show ?case by (auto simp: map_stored_def)
next
  case (5 order h env e es m)
  from "5.IH"(1) "5.prems" obtain y h1 where y: "exprtk_value_store_to_env order False h env (snd e) = (y, env, h1)"
    "stored_as h h1 (env_arena env) (snd e) y" by auto
  have y': "never_fails h1" "storable h1 y" "q \<notin> pools y" "next_pool h \<le> next_pool h1"
    using y(2) "5.prems"(3-6) by (fastforce simp: stored_as_def storable_def)+
  have new: "map_of es0 (fst e) = None" using "5.prems"(10) by (auto simp: map_of_eq_None_iff)
  from map_set_stores [OF "5.prems"(1) y'(1-3) "5.prems"(9) new, of t] obtain v h2 where
    v: "exprtk_map_set order h1 m (fst e) y = (0, EMap t (Some (q, hash_map_put order es0 (fst e) v)), h2)"
      "stored_as h1 h2 q y v" "pools v \<subseteq> insert q {next_pool h1..<next_pool h2}" unfolding "5.prems"(7) by blast
  note put = put_keys [OF "5.prems"(1,9) new, of v]
  have h2: "never_fails h2" "next_pool h1 \<le> next_pool h2" using v(2) by (auto simp: stored_as_def)
  have st: "\<forall>x \<in> set es. storable h2 (snd x) \<and> q \<notin> pools (snd x)"
    using "5.prems"(3) y'(4) h2(2) storable_mono [of h _ h2] by auto
  have "fst ` set es \<inter> fst ` set (hash_map_put order es0 (fst e) v) = {}"
    using "5.prems"(8,10) by (auto simp: put(2))
  with "5.IH"(2) [OF y(1) [symmetric] refl v(1) [symmetric] refl "5.prems"(1) h2(1) st _ "5.prems"(5) _ refl]
    "5.prems"(4,6,8) y'(4) h2(2) put(1)
  have rest: "map_stored h2 env es t q (hash_map_put order es0 (fst e) v)
      (store_map order h2 env es (EMap t (Some (q, hash_map_put order es0 (fst e) v))))" by simp
  have "pools v \<subseteq> insert q {next_pool h..<next_pool h2}" using v(3) y'(4) by auto
  with map_stored_Cons [OF "5.prems"(1,8,9,10) _ _ _ _ _ rest] v(2) y(2) y'(4) h2(2) v(1) y(1) show ?case
    by (simp add: stored_as_def)
qed

section \<open>Tables under writes\<close>

text \<open>Whatever memory does, a put leaves the table as it was or updates one entry.\<close>

lemma sync_map: "exprtk_var_entry_t_htab_sync h t = (r, t', h') \<Longrightarrow> vt_map t' = vt_map t"
  by (auto simp: exprtk_var_entry_t_htab_sync_def Let_def split: if_splits prod.splits)

lemma put_cases:
  assumes "htab_put order h t name e = (r, t', h')"
  shows "vt_map t' = vt_map t \<or> vt_map t' = entries_update order (vt_map t) name e"
  using assms by (auto simp: htab_put_def Let_def split: if_splits prod.splits dest!: sync_map)

lemma put_plenty:
  "never_fails h \<Longrightarrow> \<exists>r t'. htab_put order h t name e = (r, t', h) \<and> vt_map t' = entries_update order (vt_map t) name e"
  by (auto simp: htab_put_def alloc_plenty exprtk_var_entry_t_htab_sync_def Let_def)

definition vars_ok :: "var_table option \<Rightarrow> bool" where
  "vars_ok t \<longleftrightarrow> (\<forall>x. t = Some x \<longrightarrow> distinct (map fst (vt_map x)))"

definition env_ok :: "env_chain \<Rightarrow> bool" where
  "env_ok env \<longleftrightarrow> (\<forall>sc \<in> set env. vars_ok (sc_vars sc))"

lemma env_ok_simps [simp]:
  "env_ok []" "env_ok (sc # scs) \<longleftrightarrow> vars_ok (sc_vars sc) \<and> env_ok scs"
  by (simp_all add: env_ok_def)

lemma find_update:
  assumes "order_laws order" "vars_ok (Some t)" "vt_map t' = entries_update order (vt_map t) name e"
  shows "htab_find (Some t') = (htab_find (Some t))(name \<mapsto> e)" "vars_ok (Some t')"
  using assms map_entries.lookup_update [of order "vt_map t" name e] map_entries.inv_update [of order "vt_map t" name e]
  by (auto simp: htab_find_def vars_ok_def fun_eq_iff)

text \<open>What a write to a table may do: nothing, or bind one name.\<close>

definition table_step :: "var_table option \<Rightarrow> bytes \<Rightarrow> var_entry \<Rightarrow> var_table option \<Rightarrow> bool" where
  "table_step t name e t' \<longleftrightarrow>
     vars_ok t' \<and> (htab_find t' = htab_find t \<or> htab_find t' = (htab_find t)(name \<mapsto> e))"

lemma put_step:
  assumes "order_laws order" "vars_ok (Some t)" "htab_put order h t name e = (r, t', h')"
  shows "table_step (Some t) name e (Some t')"
proof (cases "vt_map t' = vt_map t")
  case True
  with assms(2) show ?thesis by (simp add: table_step_def vars_ok_def htab_find_def fun_eq_iff)
next
  case False
  with put_cases [OF assms(3)] find_update [OF assms(1,2)] show ?thesis by (simp add: table_step_def)
qed

lemma replace_step:
  "order_laws order \<Longrightarrow> vars_ok t \<Longrightarrow> htab_replace order h t name e = (r, t', h') \<Longrightarrow> table_step t name e t'"
  by (cases t) (auto simp: htab_replace_def table_step_def [of None] split: prod.splits dest: put_step)

lemma insert_step:
  assumes laws: "order_laws order" and ok: "vars_ok t"
    and run: "htab_insert order h t (if dup then Some name else None) e = (r, t', h')"
  shows "table_step t name e t'"
proof -
  have same: "table_step t name e t" using ok by (simp add: table_step_def)
  show ?thesis
  proof (cases t)
    case None
    with run same show ?thesis by (simp add: htab_insert_def)
  next
    case (Some x)
    obtain r1 x1 h1 where put: "htab_put order h x name e = (r1, x1, h1)" by (metis prod_cases3)
    have "t' = t \<or> t' = Some x1" using run put Some by (auto simp: htab_insert_def split: if_splits)
    with same put_step [OF laws _ put] ok Some show ?thesis by auto
  qed
qed

lemma replace_plenty:
  assumes "order_laws order" "never_fails h" "vars_ok (Some t)"
  shows "\<exists>r t'. htab_replace order h (Some t) name e = (r, Some t', h) \<and> vars_ok (Some t') \<and>
    htab_find (Some t') = (htab_find (Some t))(name \<mapsto> e)"
  using put_plenty [OF assms(2), of order t name e] find_update [OF assms(1,3)]
  by (auto simp: htab_replace_def)

lemma insert_plenty:
  assumes "order_laws order" "never_fails h" "vars_ok (Some t)" "htab_find (Some t) name = None"
  shows "\<exists>r t'. htab_insert order h (Some t) (Some name) e = (r, Some t', h) \<and> vars_ok (Some t') \<and>
    htab_find (Some t') = (htab_find (Some t))(name \<mapsto> e)"
proof -
  have "map_of (vt_map t) name = None" using assms(4) by (simp add: htab_find_def)
  with put_plenty [OF assms(2), of order t name e] find_update [OF assms(1,3)] show ?thesis
    by (auto simp: htab_insert_def)
qed

section \<open>Constants\<close>

definition keeps_constants :: "scope \<Rightarrow> scope \<Rightarrow> bool" where
  "keeps_constants sc sc' \<longleftrightarrow> vars_ok (sc_vars sc') \<and>
     (\<forall>n e. htab_find (sc_vars sc) n = Some e \<longrightarrow> ve_is_constant e \<longrightarrow> htab_find (sc_vars sc') n = Some e)"

lemma keeps_refl: "vars_ok (sc_vars sc) \<Longrightarrow> keeps_constants sc sc"
  by (simp add: keeps_constants_def)

lemma keeps_all_refl: "env_ok env \<Longrightarrow> list_all2 keeps_constants env env"
  by (induction env) (simp_all add: keeps_refl)

lemma keeps_all_ok: "list_all2 keeps_constants env env' \<Longrightarrow> env_ok env'"
  by (induction rule: list_all2_induct) (simp_all add: keeps_constants_def)

lemma keeps_all_trans:
  "list_all2 keeps_constants a b \<Longrightarrow> list_all2 keeps_constants b c \<Longrightarrow> list_all2 keeps_constants a c"
  by (rule list_all2_trans) (auto simp: keeps_constants_def)

lemma step_keeps:
  assumes "table_step (sc_vars sc) name e' (sc_vars sc')"
    "\<And>e. htab_find (sc_vars sc) name = Some e \<Longrightarrow> ve_is_constant e \<Longrightarrow> e' = e"
  shows "keeps_constants sc sc'"
  using assms by (auto simp: table_step_def keeps_constants_def)

lemma rebind_step:
  assumes "order_laws order" "vars_ok (sc_vars sc)" "rebind order owned h sc name e v = (sc', h')"
  shows "\<exists>x. table_step (sc_vars sc) name (e\<lparr>ve_value := x, ve_is_borrowed := False\<rparr>) (sc_vars sc')"
  using assms by (auto simp: rebind_def split: prod.splits dest!: replace_step)

lemma set_local_keeps:
  assumes "order_laws order" "vars_ok (sc_vars sc)" "exprtk_env_set_local order owned h sc name v = (sc', h')"
  shows "keeps_constants sc sc'"
proof (cases name)
  case None
  with assms show ?thesis by (simp add: exprtk_env_set_local_def keeps_refl)
next
  case (Some n)
  show ?thesis
  proof (cases "htab_find (sc_vars sc) n")
    case None
    with assms Some show ?thesis
      by (auto simp: exprtk_env_set_local_def split: prod.splits dest!: insert_step intro: step_keeps)
  next
    case (Some e)
    show ?thesis
    proof (cases "ve_is_constant e")
      case True
      with assms Some \<open>name = Some n\<close> show ?thesis by (simp add: exprtk_env_set_local_def keeps_refl)
    next
      case False
      with assms Some \<open>name = Some n\<close> rebind_step [OF assms(1,2), of owned h n e v sc' h'] show ?thesis
        by (auto simp: exprtk_env_set_local_def intro: step_keeps)
    qed
  qed
qed

lemma set_local_borrowed_keeps:
  assumes "order_laws order" "vars_ok (sc_vars sc)" "exprtk_env_set_local_borrowed order h sc name v = (sc', h')"
  shows "keeps_constants sc sc'"
proof (cases name)
  case None
  with assms show ?thesis by (simp add: exprtk_env_set_local_borrowed_def keeps_refl)
next
  case (Some n)
  show ?thesis
  proof (cases "htab_find (sc_vars sc) n")
    case None
    with assms(3) Some show ?thesis
      by (auto simp: exprtk_env_set_local_borrowed_def split: prod.splits
          dest!: insert_step [OF assms(1,2)] intro: step_keeps)
  next
    case (Some e)
    with assms \<open>name = Some n\<close> show ?thesis
      by (auto simp: exprtk_env_set_local_borrowed_def keeps_refl split: prod.splits if_splits
          dest!: replace_step [OF assms(1,2)] intro: step_keeps)
  qed
qed

lemma set_bound_keeps:
  assumes "order_laws order" "env_ok env" "set_bound order owned h env name v = Some (env', h')"
  shows "list_all2 keeps_constants env env'"
  using assms(2,3)
proof (induction env arbitrary: env' h')
  case (Cons sc scs)
  show ?case
  proof (cases "htab_find (sc_vars sc) name")
    case None
    with Cons show ?thesis by (auto simp: keeps_refl split: option.splits)
  next
    case (Some e)
    with Cons.prems rebind_step [OF assms(1), of sc owned h name e v] show ?thesis
      by (auto simp: keeps_refl keeps_all_refl split: if_splits prod.splits intro: step_keeps)
  qed
qed simp

lemma env_set_keeps:
  assumes "order_laws order" "env_ok env" "exprtk_env_set order owned h env name v = (env', h')"
  shows "list_all2 keeps_constants env env'"
  using assms set_bound_keeps [OF assms(1,2)] set_local_keeps [OF assms(1)] keeps_all_refl
  by (auto simp: exprtk_env_set_def keeps_refl split: list.splits option.splits prod.splits)

lemma set_constant_keeps:
  assumes "order_laws order" "env_ok env" "exprtk_env_set_constant order owned h env name v = (env', h')"
  shows "list_all2 keeps_constants env env'"
proof -
  obtain env1 h1 where run1: "exprtk_env_set order owned h env (Some name) v = (env1, h1)" by fastforce
  note kept = env_set_keeps [OF assms(1,2) run1]
  have "list_all2 keeps_constants env1 env'"
  proof (cases env1)
    case Nil
    with assms(3) run1 show ?thesis by (simp add: exprtk_env_set_constant_def)
  next
    case (Cons sc scs)
    have ok: "vars_ok (sc_vars sc)" "env_ok scs" using keeps_all_ok [OF kept] Cons by simp_all
    show ?thesis
    proof (cases "htab_find (sc_vars sc) name")
      case None
      with assms(3) run1 Cons keeps_all_refl [OF keeps_all_ok [OF kept]] show ?thesis
        by (simp add: exprtk_env_set_constant_def)
    next
      case (Some e)
      have "e\<lparr>ve_is_constant := True\<rparr> = e" if "ve_is_constant e" using that by (cases e) simp
      then have same: "ve_is_constant x \<Longrightarrow> e\<lparr>ve_is_constant := True\<rparr> = x" if "htab_find (sc_vars sc) name = Some x" for x
        using that Some by simp
      obtain r t h2 where rep: "htab_replace order h1 (sc_vars sc) name (e\<lparr>ve_is_constant := True\<rparr>) = (r, t, h2)"
        by (metis prod_cases3)
      have "table_step (sc_vars sc) name (e\<lparr>ve_is_constant := True\<rparr>) (sc_vars (sc\<lparr>sc_vars := t\<rparr>))"
        using replace_step [OF assms(1) ok(1) rep] by simp
      from step_keeps [OF this same] assms(3) run1 Cons Some rep ok(2) show ?thesis
        by (auto simp: exprtk_env_set_constant_def keeps_all_refl)
    qed
  qed
  with kept show ?thesis by (rule keeps_all_trans)
qed

lemma import_keeps:
  assumes "order_laws order" "env_ok dst" "import_entries order h dst xs = (env', h')"
  shows "list_all2 keeps_constants dst env'"
  using assms
proof (induction order h dst xs rule: import_entries.induct)
  case (3 order h sc scs name e xs)
  show ?case
  proof (cases "exprtk_env_has_local_var sc name \<or> name = ''this''")
    case True
    with 3 show ?thesis by simp
  next
    case False
    obtain sc1 h1 where set: "exprtk_env_set_local order False h sc (Some name) (ve_value e) = (sc1, h1)" by fastforce
    have k1: "list_all2 keeps_constants (sc # scs) (sc1 # scs)"
      using set_local_keeps [OF "3.prems"(1) _ set] "3.prems"(2) keeps_all_refl by auto
    note ok1 = keeps_all_ok [OF k1]
    show ?thesis
    proof (cases "ve_is_constant e")
      case True
      obtain d2 h2 where con: "exprtk_env_set_constant order False h1 (sc1 # scs) name (ve_value e) = (d2, h2)" by fastforce
      note k2 = set_constant_keeps [OF "3.prems"(1) ok1 con]
      show ?thesis
        using "3.IH"(2) [OF False set [symmetric] True con [symmetric] "3.prems"(1) keeps_all_ok [OF k2]] k1 k2 "3.prems"(3) False set True con
        by (auto intro: keeps_all_trans)
    next
      case con: False
      show ?thesis
        using "3.IH"(3) [OF False set [symmetric] con "3.prems"(1) ok1] k1 "3.prems"(3) False set con
        by (auto intro: keeps_all_trans)
    qed
  qed
qed (simp_all add: keeps_all_refl)

text \<open>The writes of a script and of the runtime to an environment.\<close>

datatype env_op =
    Assign bool "bytes option" exprtk_value
  | AssignLocal bool "bytes option" exprtk_value
  | BorrowLocal "bytes option" exprtk_value
  | DeclareConstant bool bytes exprtk_value
  | ImportFrom env_chain

text \<open>An import that would read through a null array does not return; the state stays as it is.\<close>

fun env_step :: "order \<Rightarrow> env_chain \<times> heap \<Rightarrow> env_op \<Rightarrow> env_chain \<times> heap" where
  "env_step order (env, h) (Assign owned name v) = exprtk_env_set order owned h env name v"
| "env_step order ([], h) (AssignLocal owned name v) = ([], h)"
| "env_step order (sc # scs, h) (AssignLocal owned name v) =
     (case exprtk_env_set_local order owned h sc name v of (sc', h') \<Rightarrow> (sc' # scs, h'))"
| "env_step order ([], h) (BorrowLocal name v) = ([], h)"
| "env_step order (sc # scs, h) (BorrowLocal name v) =
     (case exprtk_env_set_local_borrowed order h sc name v of (sc', h') \<Rightarrow> (sc' # scs, h'))"
| "env_step order (env, h) (DeclareConstant owned name v) = exprtk_env_set_constant order owned h env name v"
| "env_step order (env, h) (ImportFrom src) =
     (case exprtk_env_import_vars order h env src of None \<Rightarrow> (env, h) | Some s \<Rightarrow> s)"

lemma env_step_keeps:
  assumes "order_laws order" "env_ok env" "env_step order (env, h) op = (env', h')"
  shows "list_all2 keeps_constants env env'"
  using assms
proof (cases "(order, (env, h), op)" rule: env_step.cases)
  case (3 order' sc scs h owned name v)
  with assms set_local_keeps [OF assms(1), of sc owned h name v] show ?thesis
    by (auto simp: keeps_all_refl split: prod.splits)
next
  case (5 order' sc scs h name v)
  with assms set_local_borrowed_keeps [OF assms(1), of sc h name v] show ?thesis
    by (auto simp: keeps_all_refl split: prod.splits)
next
  case (7 order' env1 h1 src)
  with assms import_keeps [OF assms(1,2)] keeps_all_refl [OF assms(2)] show ?thesis
    by (auto simp: exprtk_env_import_vars_def split: list.splits option.splits if_splits)
qed (auto intro: env_set_keeps set_constant_keeps)

text \<open>The entry of a name in the environment at position \<open>j\<close>, and that it is a constant.\<close>

definition entry_at :: "nat \<Rightarrow> bytes \<Rightarrow> env_chain \<Rightarrow> var_entry option" where
  "entry_at j name env = (if j < length env then htab_find (sc_vars (env ! j)) name else None)"

definition constant_at :: "nat \<Rightarrow> bytes \<Rightarrow> env_chain \<Rightarrow> bool" where
  "constant_at j name env \<longleftrightarrow> (\<exists>e. entry_at j name env = Some e \<and> ve_is_constant e)"

lemma keeps_entry:
  assumes "list_all2 keeps_constants env env'" "constant_at j name env"
  shows "entry_at j name env' = entry_at j name env" "constant_at j name env'"
  using assms list_all2_nthD [OF assms(1), of j] list_all2_lengthD [OF assms(1)]
  by (auto simp: entry_at_def constant_at_def keeps_constants_def split: if_splits)

interpretation constants: freezable "env_step order"
    "\<lambda>s. order_laws order \<and> env_ok (fst s) \<and> constant_at j name (fst s)" "\<lambda>s. entry_at j name (fst s)"
  for order j name
proof unfold_locales
  fix s :: "env_chain \<times> heap" and op
  assume frozen: "order_laws order \<and> env_ok (fst s) \<and> constant_at j name (fst s)"
  obtain env h where s: "s = (env, h)" by fastforce
  obtain env' h' where step: "env_step order (env, h) op = (env', h')" by fastforce
  from keeps_entry(1) [OF env_step_keeps [OF _ _ step], of j name] frozen s step
  show "entry_at j name (fst (env_step order s op)) = entry_at j name (fst s)" by simp
qed

lemma run_keeps:
  "order_laws order \<Longrightarrow> env_ok (fst s) \<Longrightarrow> list_all2 keeps_constants (fst s) (fst (foldl (env_step order) s ops))"
proof (induction ops arbitrary: s)
  case Nil
  then show ?case by (simp add: keeps_all_refl)
next
  case (Cons op ops)
  have "list_all2 keeps_constants (fst s) (fst (env_step order s op))"
    using env_step_keeps [OF Cons.prems(1,2), of "snd s" op] by (cases "env_step order s op") simp
  with Cons.IH [OF Cons.prems(1) keeps_all_ok [OF this]] show ?case by (auto intro: keeps_all_trans)
qed

text \<open>
  C36: constants never change.  Whatever a script and the runtime write to a chain of
  environments, with whatever allocations failing: a name that is a constant in some environment
  of the chain keeps its entry there, value and all.
\<close>

theorem constants_never_change:
  assumes "order_laws order" "env_ok env" "constant_at j name env"
  shows "entry_at j name (fst (foldl (env_step order) (env, h) ops)) = entry_at j name env"
proof -
  have "order_laws order \<and> env_ok (fst (foldl (env_step order) (env, h) (take n ops))) \<and>
      constant_at j name (fst (foldl (env_step order) (env, h) (take n ops)))" for n
    using run_keeps [of order "(env, h)" "take n ops"] assms keeps_all_ok keeps_entry(2) by fastforce
  then show ?thesis using constants.run_frozen [of ops order "(env, h)" j name] by simp
qed

section \<open>Assignments\<close>

text \<open>The position of the nearest environment that binds a name.\<close>

fun binding_pos :: "env_chain \<Rightarrow> bytes \<Rightarrow> nat option" where
  "binding_pos [] name = None"
| "binding_pos (sc # scs) name =
     (if htab_find (sc_vars sc) name \<noteq> None then Some 0 else map_option Suc (binding_pos scs name))"

lemma env_find_pos:
  "env_find env name = (case binding_pos env name of None \<Rightarrow> None | Some k \<Rightarrow> entry_at k name env)"
  by (induction env) (auto simp: entry_at_def split: option.splits)

text \<open>Environments with tables and arenas, as initialisation makes them when memory suffices.\<close>

definition env_ready :: "heap \<Rightarrow> env_chain \<Rightarrow> bool" where
  "env_ready h env \<longleftrightarrow> env_ok env \<and> (\<forall>sc \<in> set env. sc_vars sc \<noteq> None \<and> env_arena (sc_env sc) < next_pool h)"

lemma env_ready_Cons [simp]:
  "env_ready h (sc # scs) \<longleftrightarrow>
     (\<exists>t. sc_vars sc = Some t) \<and> vars_ok (sc_vars sc) \<and> env_arena (sc_env sc) < next_pool h \<and> env_ready h scs"
  by (auto simp: env_ready_def)

text \<open>The environment at position \<open>k\<close> now binds the name to a variable with the content of \<open>v\<close>; all else is as before.\<close>

definition assigned_at :: "nat \<Rightarrow> bytes \<Rightarrow> exprtk_value \<Rightarrow> env_chain \<Rightarrow> env_chain \<Rightarrow> bool" where
  "assigned_at k name v env env' \<longleftrightarrow>
     length env' = length env \<and> (\<forall>j < length env. j \<noteq> k \<longrightarrow> env' ! j = env ! j) \<and>
     (\<exists>e. entry_at k name env' = Some e \<and> content (ve_value e) = content v \<and> \<not> ve_is_constant e) \<and>
     (\<forall>m. m \<noteq> name \<longrightarrow> entry_at k m env' = entry_at k m env)"

lemma assigned_at_Suc: "assigned_at k name v scs scs' \<Longrightarrow> assigned_at (Suc k) name v (sc # scs) (sc # scs')"
  by (auto simp: assigned_at_def entry_at_def nth_Cons split: nat.splits if_splits)

lemma entry_at_Suc [simp]: "entry_at (Suc j) m (sc # scs) = entry_at j m scs"
  by (simp add: entry_at_def)

lemma assigned_at_tail:
  assumes "assigned_at (Suc j) name v (sc # scs) (sc # scs')"
  shows "assigned_at j name v scs scs'"
proof -
  have "\<forall>i < length scs. i \<noteq> j \<longrightarrow> (sc # scs') ! Suc i = (sc # scs) ! Suc i"
    using assms unfolding assigned_at_def by (metis Suc_less_eq length_Cons nat.inject)
  with assms show ?thesis by (simp add: assigned_at_def)
qed

lemma assigned_at_0:
  assumes "htab_find (sc_vars sc') = (htab_find (sc_vars sc))(name \<mapsto> e)" "content (ve_value e) = content v"
    "\<not> ve_is_constant e"
  shows "assigned_at 0 name v (sc # scs) (sc' # scs)"
  using assms by (auto simp: assigned_at_def entry_at_def nth_Cons split: nat.splits)

lemma rebind_ok:
  assumes "order_laws order" "never_fails h" "storable h v" "env_ready h (sc # scs)" "\<not> ve_is_constant e"
    "rebind order owned h sc name e v = (sc', h')"
  shows "assigned_at 0 name v (sc # scs) (sc' # scs) \<and> never_fails h'"
proof -
  from assms(4) obtain t where t: "sc_vars sc = Some t" "vars_ok (Some t)" "env_arena (sc_env sc) < next_pool h" by auto
  from store_ok(1) [OF assms(1-3) t(3), of owned] obtain x h1 where
    st: "exprtk_value_store_to_env order owned h (sc_env sc) v = (x, sc_env sc, h1)" "content x = content v" "never_fails h1"
    by (auto simp: stored_as_def)
  from replace_plenty [OF assms(1) st(3) t(2), of name "e\<lparr>ve_value := x, ve_is_borrowed := False\<rparr>"] obtain r t' where
    rep: "htab_replace order h1 (Some t) name (e\<lparr>ve_value := x, ve_is_borrowed := False\<rparr>) = (r, Some t', h1)"
    "htab_find (Some t') = (htab_find (Some t))(name \<mapsto> e\<lparr>ve_value := x, ve_is_borrowed := False\<rparr>)" by blast
  have "sc_vars sc' = Some t'" "h' = h1" using assms(6) st rep t by (auto simp: rebind_def)
  then show ?thesis using rep(2) t(1) st(2,3) assms(5)
    by (intro conjI assigned_at_0 [where e = "e\<lparr>ve_value := x, ve_is_borrowed := False\<rparr>"]) simp_all
qed

lemma set_local_ok:
  assumes "order_laws order" "never_fails h" "storable h v" "env_ready h (sc # scs)"
    "htab_find (sc_vars sc) name = None" "exprtk_env_set_local order owned h sc (Some name) v = (sc', h')"
  shows "assigned_at 0 name v (sc # scs) (sc' # scs) \<and> never_fails h'"
proof -
  from assms(4) obtain t where t: "sc_vars sc = Some t" "vars_ok (Some t)" "env_arena (sc_env sc) < next_pool h" by auto
  from store_ok(1) [OF assms(1-3) t(3), of owned] obtain x h1 where
    st: "exprtk_value_store_to_env order owned h (sc_env sc) v = (x, sc_env sc, h1)" "content x = content v" "never_fails h1"
    by (auto simp: stored_as_def)
  let ?e = "\<lparr>ve_value = x, ve_is_constant = False, ve_is_borrowed = False\<rparr>"
  from insert_plenty [OF assms(1) st(3) t(2), of name ?e] assms(5) t(1) obtain r t' where
    ins: "htab_insert order h1 (Some t) (Some name) ?e = (r, Some t', h1)"
    "htab_find (Some t') = (htab_find (Some t))(name \<mapsto> ?e)" by auto
  have "sc_vars sc' = Some t'" "h' = h1"
    using assms(5,6) st ins t by (auto simp: exprtk_env_set_local_def alloc_plenty)
  then show ?thesis using ins(2) t(1) st(2,3) by (intro conjI assigned_at_0 [where e = ?e]) simp_all
qed

lemma set_bound_ok:
  assumes "order_laws order" "never_fails h" "storable h v" "env_ready h env"
  shows "case binding_pos env name of
      None \<Rightarrow> set_bound order owned h env name v = None
    | Some k \<Rightarrow> (\<exists>env' h'. set_bound order owned h env name v = Some (env', h') \<and>
        (if constant_at k name env then env' = env \<and> h' = h else assigned_at k name v env env' \<and> never_fails h'))"
  using assms(4)
proof (induction env)
  case (Cons sc scs)
  show ?case
  proof (cases "htab_find (sc_vars sc) name")
    case None
    have const: "constant_at (Suc k) name (sc # scs) = constant_at k name scs" for k
      by (simp add: constant_at_def entry_at_def)
    show ?thesis
    proof (cases "binding_pos scs name")
      case (Some k)
      with Cons \<open>htab_find (sc_vars sc) name = None\<close> obtain scs' h' where
        "set_bound order owned h scs name v = Some (scs', h')"
        "if constant_at k name scs then scs' = scs \<and> h' = h else assigned_at k name v scs scs' \<and> never_fails h'" by auto
      with Some \<open>htab_find (sc_vars sc) name = None\<close> show ?thesis
        by (auto simp: const assigned_at_Suc split: if_splits)
    qed (use Cons None in simp)
  next
    case (Some e)
    obtain sc' h' where rb: "rebind order owned h sc name e v = (sc', h')" by fastforce
    with Some rebind_ok [OF assms(1-3) Cons.prems _ rb] show ?thesis
      by (auto simp: constant_at_def entry_at_def)
  qed
qed simp

lemma assigned_find:
  assumes "assigned_at k name v env env'" "binding_pos env name = Some k \<or> binding_pos env name = None \<and> k = 0"
  shows "(\<exists>e. env_find env' name = Some e \<and> content (ve_value e) = content v) \<and>
    (\<forall>m. m \<noteq> name \<longrightarrow> env_find env' m = env_find env m)"
  using assms
proof (induction env arbitrary: k env')
  case Nil
  then show ?case by (auto simp: assigned_at_def entry_at_def)
next
  case (Cons sc scs)
  from Cons.prems(1) obtain sc' scs' where env': "env' = sc' # scs'" by (cases env') (auto simp: assigned_at_def)
  show ?case
  proof (cases k)
    case 0
    have "length scs' = length scs" "\<forall>i < length scs. (sc' # scs') ! Suc i = (sc # scs) ! Suc i"
      using Cons.prems(1) unfolding env' 0 assigned_at_def by auto
    then have "scs' = scs" by (auto intro!: nth_equalityI)
    moreover have "(\<exists>e. htab_find (sc_vars sc') name = Some e \<and> content (ve_value e) = content v) \<and>
        (\<forall>m. m \<noteq> name \<longrightarrow> htab_find (sc_vars sc') m = htab_find (sc_vars sc) m)"
      using Cons.prems(1) unfolding env' 0 by (auto simp: assigned_at_def entry_at_def)
    ultimately show ?thesis unfolding env' by (auto split: option.splits)
  next
    case (Suc j)
    have sc: "sc' = sc" using Cons.prems(1) unfolding env' Suc by (auto simp: assigned_at_def)
    have "assigned_at j name v scs scs'"
      using Cons.prems(1) unfolding env' Suc sc by (rule assigned_at_tail)
    moreover have "binding_pos scs name = Some j" "htab_find (sc_vars sc) name = None"
      using Cons.prems(2) Suc by (auto split: if_splits)
    ultimately show ?thesis using Cons.IH [of j scs'] unfolding env' sc by (auto split: option.splits)
  qed
qed

abbreviation (input) target_pos :: "env_chain \<Rightarrow> bytes \<Rightarrow> nat" where
  "target_pos env name \<equiv> (case binding_pos env name of Some k \<Rightarrow> k | None \<Rightarrow> 0)"

lemma env_set_ok:
  assumes "order_laws order" "never_fails h" "storable h v" "env_ready h env" "env \<noteq> []"
    and run: "exprtk_env_set order owned h env (Some name) v = (env', h')"
  shows "if constant_at (target_pos env name) name env then env' = env \<and> h' = h
    else assigned_at (target_pos env name) name v env env' \<and> never_fails h'"
proof (cases "binding_pos env name")
  case (Some k)
  with set_bound_ok [OF assms(1-4), where name = name and owned = owned] run assms(5) show ?thesis
    by (auto simp: exprtk_env_set_def split: list.splits)
next
  case None
  obtain sc scs where env: "env = sc # scs" using assms(5) by (cases env) auto
  have new: "htab_find (sc_vars sc) name = None" using None env by (auto split: if_splits)
  obtain sc' h1 where sl: "exprtk_env_set_local order owned h sc (Some name) v = (sc', h1)" by fastforce
  have "env' = sc' # scs \<and> h' = h1"
    using run set_bound_ok [OF assms(1-4), where name = name and owned = owned] None sl
    by (auto simp: exprtk_env_set_def env)
  with set_local_ok [OF assms(1-3) _ new sl] assms(4) None new show ?thesis
    by (auto simp: env constant_at_def entry_at_def)
qed


text \<open>A local environment without variables inside one in which \<open>x\<close> is 1 and \<open>k\<close> the constant 2.\<close>

definition example_scope :: "pool \<Rightarrow> (bytes \<times> var_entry) list \<Rightarrow> scope" where
  "example_scope arena vars =
     (fst (exprtk_env_init_storage plenty))
       \<lparr>sc_env := \<lparr>env_arena = arena, ee_aborted = False, ee_error_msg = []\<rparr>,
        sc_vars := Some \<lparr>vt_map = vars, vt_els = Some vars, vt_els_bound = length vars\<rparr>\<rparr>"

definition example_chain :: env_chain where
  "example_chain =
     [example_scope 1 [],
      example_scope 2
        [(''x'', \<lparr>ve_value = EInteger 1, ve_is_constant = False, ve_is_borrowed = False\<rparr>),
         (''k'', \<lparr>ve_value = EInteger 2, ve_is_constant = True, ve_is_borrowed = False\<rparr>)]]"

lemma example_chain_ready: "env_ready plenty example_chain"
  by (simp add: example_chain_def example_scope_def env_ready_def vars_ok_def plenty_def)

theorem constants_never_change_witness:
  "entry_at 1 ''k'' (fst (foldl (env_step id) (example_chain, plenty)
     [Assign True (Some ''k'') (EBool 1), DeclareConstant True ''k'' ENull, ImportFrom example_chain])) =
   entry_at 1 ''k'' example_chain"
proof -
  have "constant_at 1 ''k'' example_chain"
    by (simp add: constant_at_def entry_at_def example_chain_def example_scope_def htab_find_def)
  with example_chain_ready show ?thesis
    by (intro constants_never_change [OF order_laws_id]) (simp_all add: env_ready_def)
qed


section \<open>Declarations of constants\<close>

lemma mark_constant_ok:
  assumes "order_laws order" "never_fails h" "vars_ok (sc_vars sc)" "htab_find (sc_vars sc) name = Some e"
  shows "\<exists>r t. htab_replace order h (sc_vars sc) name (e\<lparr>ve_is_constant := True\<rparr>) = (r, t, h) \<and>
    htab_find t = (htab_find (sc_vars sc))(name \<mapsto> e\<lparr>ve_is_constant := True\<rparr>)"
proof -
  obtain t where t: "sc_vars sc = Some t" using assms(4) by (cases "sc_vars sc") (auto simp: htab_find_def)
  from replace_plenty [OF assms(1,2), of t name "e\<lparr>ve_is_constant := True\<rparr>"] assms(3) t show ?thesis by auto
qed

text \<open>
  a declaration of a constant.  With memory for it, \<^verbatim>\<open>exprtk_env_set_constant\<close> makes the name a
  constant of the innermost environment, with the content of the value unless it was a constant
  there before, provided that no outer environment binds the name while the innermost does not.
  If one does, the nearest such binding is overwritten (unless it is a constant) and stays a
  variable, and the innermost environment gets neither a constant nor a variable.
\<close>

theorem constant_declaration:
  assumes "order_laws order" "never_fails h" "storable h v" "env_ready h env" "env \<noteq> []"
    and run: "exprtk_env_set_constant order owned h env name v = (env', h')"
  shows "case binding_pos env name of
      Some (Suc k) \<Rightarrow>
        \<not> exprtk_env_has_local_var (hd env') name \<and>
        (if constant_at (Suc k) name env then env' = env else assigned_at (Suc k) name v env env')
    | _ \<Rightarrow>
        constant_at 0 name env' \<and> tl env' = tl env \<and>
        (\<not> constant_at 0 name env \<longrightarrow> content (exprtk_env_get env' (Some name)) = content v)"
proof -
  obtain env1 h1 where set: "exprtk_env_set order owned h env (Some name) v = (env1, h1)" by fastforce
  note ok = env_set_ok [OF assms(1-5) set]
  have kept: "env_ok env1" using env_set_keeps [OF assms(1) _ set] assms(4) keeps_all_ok by (auto simp: env_ready_def)
  have nf: "never_fails h1" using ok assms(2) by (auto split: if_splits)
  have len: "length env1 = length env" using ok by (auto simp: assigned_at_def split: if_splits)
  then obtain sc scs where env1: "env1 = sc # scs" using assms(5) by (cases env1) auto
  obtain sc0 scs0 where env: "env = sc0 # scs0" using assms(5) by (cases env) auto
  show ?thesis
  proof (cases "binding_pos env name = None \<or> binding_pos env name = Some 0")
    case True
    then have pos: "target_pos env name = 0" by auto
    have tail: "scs = scs0"
    proof (cases "constant_at 0 name env")
      case True
      with ok pos env env1 show ?thesis by simp
    next
      case False
      with ok pos env env1 have "length scs = length scs0"
        "\<forall>i < length scs0. (sc # scs) ! Suc i = (sc0 # scs0) ! Suc i" by (auto simp: assigned_at_def)
      then show ?thesis by (auto intro!: nth_equalityI)
    qed
    have "\<exists>e. htab_find (sc_vars sc) name = Some e \<and> (\<not> constant_at 0 name env \<longrightarrow> content (ve_value e) = content v)"
      using ok pos env1 env by (auto simp: constant_at_def entry_at_def assigned_at_def split: if_splits)
    then obtain e where e: "htab_find (sc_vars sc) name = Some e"
      "\<not> constant_at 0 name env \<Longrightarrow> content (ve_value e) = content v" by blast
    from mark_constant_ok [OF assms(1) nf _ e(1)] kept env1 obtain r t where
      "htab_replace order h1 (sc_vars sc) name (e\<lparr>ve_is_constant := True\<rparr>) = (r, t, h1)"
      "htab_find t = (htab_find (sc_vars sc))(name \<mapsto> e\<lparr>ve_is_constant := True\<rparr>)" by auto
    with run set env1 e tail env True show ?thesis
      by (auto simp: exprtk_env_set_constant_def constant_at_def entry_at_def exprtk_env_get_def)
  next
    case False
    then obtain k where k: "binding_pos env name = Some (Suc k)" by (metis not0_implies_Suc not_None_eq)
    then have "htab_find (sc_vars sc0) name = None" using env by (auto split: if_splits)
    moreover have "sc = sc0" using ok k env env1 by (auto simp: assigned_at_def split: if_splits)
    ultimately have "htab_find (sc_vars sc) name = None" by simp
    with run set env1 have "env' = env1" by (simp add: exprtk_env_set_constant_def)
    with ok k env1 \<open>htab_find (sc_vars sc) name = None\<close> show ?thesis
      by (auto simp: exprtk_env_has_local_var_def split: if_splits)
  qed
qed

theorem constant_declaration_witness:
  "\<exists>env' h'. exprtk_env_set_constant id True plenty example_chain ''x'' (EInteger 5) = (env', h') \<and>
     \<not> exprtk_env_has_local_var (hd env') ''x'' \<and> assigned_at 1 ''x'' (EInteger 5) example_chain env'"
proof -
  obtain env' h' where run: "exprtk_env_set_constant id True plenty example_chain ''x'' (EInteger 5) = (env', h')"
    by fastforce
  have "never_fails plenty" "storable plenty (EInteger 5)" "example_chain \<noteq> []"
    by (simp_all add: plenty_def storable_def example_chain_def)
  moreover have "binding_pos example_chain ''x'' = Some (Suc 0)" "\<not> constant_at (Suc 0) ''x'' example_chain"
    by (simp_all add: constant_at_def entry_at_def example_chain_def example_scope_def htab_find_def)
  ultimately show ?thesis
    using constant_declaration [OF order_laws_id _ _ example_chain_ready _ run] run by simp
qed

end
