(* ===== verification/Closure_Analysis.thy ===== *)
theory Closure_Analysis
  imports Module_Ast Script_Env
begin

text \<open>
  The analysis of captured variables (\<^verbatim>\<open>turbo_script/src/turbo_script_closure_analysis.c\<close>): which
  variables of its surroundings the body of a function uses, and whether the function can be
  compiled ahead.  The names it captures are compared with the names that the body reads, assigns
  and binds, over all nodes of the body: for bodies of the basic nodes the two agree, and the other
  nodes, which the traversal passes over, are named.
\<close>

section \<open>Sets of names\<close>

text \<open>\<^verbatim>\<open>ts_var_set_t\<close>.  When the array cannot grow, the name is dropped.\<close>

record var_set =
  vs_names :: "bytes list"
  vs_capacity :: nat

definition ts_var_set_init :: var_set where
  "ts_var_set_init = \<lparr>vs_names = [], vs_capacity = 0\<rparr>"

definition ts_var_set_contains :: "var_set \<Rightarrow> bytes \<Rightarrow> bool" where
  "ts_var_set_contains s name \<longleftrightarrow> name \<in> set (vs_names s)"

definition ts_var_set_add :: "heap \<Rightarrow> var_set \<Rightarrow> bytes \<Rightarrow> var_set \<times> heap" where
  "ts_var_set_add h s name =
     (if ts_var_set_contains s name then (s, h)
      else if length (vs_names s) \<ge> vs_capacity s then
        let new_cap = (if vs_capacity s = 0 then 8 else vs_capacity s * 2); (ok, h') = alloc h in
        if \<not> ok then (s, h') else (\<lparr>vs_names = vs_names s @ [name], vs_capacity = new_cap\<rparr>, h')
      else (s\<lparr>vs_names := vs_names s @ [name]\<rparr>, h))"

section \<open>The traversal\<close>

text \<open>\<^verbatim>\<open>ts_analysis_ctx_t\<close>, with the memory the sets grow in.\<close>

record analysis_ctx =
  an_used :: var_set
  an_defined :: var_set
  an_assigned :: var_set
  an_read_before_assignment :: var_set
  an_has_nested_closure :: bool
  an_has_modification :: bool
  an_heap :: heap

definition add_used :: "bytes \<Rightarrow> analysis_ctx \<Rightarrow> analysis_ctx" where
  "add_used n c = (case ts_var_set_add (an_heap c) (an_used c) n of (s, h) \<Rightarrow> c\<lparr>an_used := s, an_heap := h\<rparr>)"

definition add_defined :: "bytes \<Rightarrow> analysis_ctx \<Rightarrow> analysis_ctx" where
  "add_defined n c =
     (case ts_var_set_add (an_heap c) (an_defined c) n of (s, h) \<Rightarrow> c\<lparr>an_defined := s, an_heap := h\<rparr>)"

definition add_assigned :: "bytes \<Rightarrow> analysis_ctx \<Rightarrow> analysis_ctx" where
  "add_assigned n c =
     (case ts_var_set_add (an_heap c) (an_assigned c) n of (s, h) \<Rightarrow> c\<lparr>an_assigned := s, an_heap := h\<rparr>)"

definition add_read_before :: "bytes \<Rightarrow> analysis_ctx \<Rightarrow> analysis_ctx" where
  "add_read_before n c =
     (case ts_var_set_add (an_heap c) (an_read_before_assignment c) n of
        (s, h) \<Rightarrow> c\<lparr>an_read_before_assignment := s, an_heap := h\<rparr>)"

text \<open>
  \<open>None\<close> stands for a null name, which the sets would store and the next comparison would read; the
  parser gives every variable a name.
\<close>

definition ts_analyze_variable :: "bytes option \<Rightarrow> analysis_ctx \<Rightarrow> bool \<Rightarrow> analysis_ctx option" where
  "ts_analyze_variable name c in_assignment_lhs =
     (case name of
        None \<Rightarrow> None
      | Some n \<Rightarrow>
          Some (if in_assignment_lhs then add_defined n c
                else
                  let c1 = (if \<not> ts_var_set_contains (an_defined c) n \<and> \<not> ts_var_set_contains (an_assigned c) n
                            then add_read_before n c else c)
                  in add_used n c1))"

text \<open>\<^verbatim>\<open>ts_analyze_node\<close>; the bodies of nested functions are not visited.\<close>

function (sequential) ts_analyze_node :: "exprtk_node option \<Rightarrow> analysis_ctx \<Rightarrow> bool \<Rightarrow> analysis_ctx option"
  and ts_analyze_nodes :: "exprtk_node option list \<Rightarrow> analysis_ctx \<Rightarrow> analysis_ctx option"
  where
  "ts_analyze_node None c in_lhs = Some c"
| "ts_analyze_node (Some (Node line column d)) c in_lhs =
     (case d of
        NODE_VARIABLE name \<Rightarrow> ts_analyze_variable name c in_lhs
      | NODE_ASSIGNMENT name x \<Rightarrow>
          (case ts_analyze_node x c False of
             None \<Rightarrow> None
           | Some c1 \<Rightarrow> Some (case name of None \<Rightarrow> c1 | Some n \<Rightarrow> add_assigned n c1))
      | NODE_FUNCTION_DEFINITION name params body \<Rightarrow> Some (c\<lparr>an_has_nested_closure := True\<rparr>)
      | NODE_FUNCTION_EXPRESSION name params body \<Rightarrow> Some (c\<lparr>an_has_nested_closure := True\<rparr>)
      | NODE_BINARY_OP op left right \<Rightarrow> ts_analyze_nodes [left, right] c
      | NODE_FUNCTION_CALL name args \<Rightarrow> ts_analyze_nodes args c
      | NODE_IF condition if_branch else_branch \<Rightarrow> ts_analyze_nodes [condition, if_branch, else_branch] c
      | NODE_WHILE condition body \<Rightarrow> ts_analyze_nodes [condition, body] c
      | NODE_FOR init condition post body \<Rightarrow> ts_analyze_nodes [init, condition, post, body] c
      | NODE_BLOCK statements \<Rightarrow> ts_analyze_nodes statements c
      | NODE_FLOW kind x \<Rightarrow> ts_analyze_nodes [x] c
      | NODE_VECTOR elements \<Rightarrow> ts_analyze_nodes elements c
      | NODE_INDEX array index \<Rightarrow> ts_analyze_nodes [array, index] c
      | NODE_MEMBER_CALL object member args \<Rightarrow> ts_analyze_nodes (object # args) c
      | NODE_MEMBER_ACCESS object member \<Rightarrow> ts_analyze_nodes [object] c
      | NODE_FOR_IN var collection body \<Rightarrow>
          (case var of
             None \<Rightarrow> None
           | Some n \<Rightarrow> ts_analyze_nodes [collection, body] (add_defined n c))
      | _ \<Rightarrow> Some c)"
| "ts_analyze_nodes [] c = Some c"
| "ts_analyze_nodes (x # xs) c =
     (case ts_analyze_node x c False of None \<Rightarrow> None | Some c1 \<Rightarrow> ts_analyze_nodes xs c1)"
  by pat_completeness auto

termination
  by (relation "measures
       [\<lambda>x. case x of Inl (x, c, l) \<Rightarrow> child_size x | Inr (xs, c) \<Rightarrow> (\<Sum>x\<leftarrow>xs. child_size x),
        \<lambda>x. case x of Inl y \<Rightarrow> 0 | Inr (xs, c) \<Rightarrow> Suc (length xs)]")
    (auto simp: child_size_simps size_option_child size_list_children)

declare ts_analyze_node.simps(2) [simp del]

lemmas analyze_induct = ts_analyze_node_ts_analyze_nodes.induct

section \<open>The analysis\<close>

text \<open>\<^verbatim>\<open>ts_outer_scope_defines_name\<close>.\<close>

fun binds_name :: "exprtk_node option \<Rightarrow> bytes \<Rightarrow> bool" where
  "binds_name (Some (Node line column (NODE_ASSIGNMENT name x))) n = (name = Some n)"
| "binds_name (Some (Node line column (NODE_CONSTANT_DECL name x))) n = (name = Some n)"
| "binds_name x n = False"

definition ts_outer_scope_defines_name :: "exprtk_node option \<Rightarrow> bytes \<Rightarrow> bool" where
  "ts_outer_scope_defines_name outer_scope n =
     (case outer_scope of
        Some (Node line column (NODE_BLOCK statements)) \<Rightarrow> list_ex (\<lambda>s. binds_name s n) statements
      | _ \<Rightarrow> binds_name outer_scope n)"

text \<open>The parameters are marked as defined; \<open>None\<close> is a null parameter or a null name.\<close>

fun mark_params :: "exprtk_node option list \<Rightarrow> analysis_ctx \<Rightarrow> analysis_ctx option" where
  "mark_params [] c = Some c"
| "mark_params (None # ps) c = None"
| "mark_params (Some p # ps) c =
     (case node_data p of
        NODE_VARIABLE name \<Rightarrow>
          (case name of None \<Rightarrow> None | Some n \<Rightarrow> mark_params ps (add_defined n c))
      | NODE_ASSIGNMENT name x \<Rightarrow>
          (case name of None \<Rightarrow> None | Some n \<Rightarrow> mark_params ps (add_defined n c))
      | _ \<Rightarrow> mark_params ps c)"

text \<open>
  The loop over the names used: \<open>free_vars\<close>, whether an unbound local is read before it is assigned,
  and the memory.
\<close>

fun collect_free ::
  "analysis_ctx \<Rightarrow> (bytes \<Rightarrow> bool) \<Rightarrow> bytes list \<Rightarrow> var_set \<Rightarrow> bool \<Rightarrow> heap \<Rightarrow> var_set \<times> bool \<times> heap" where
  "collect_free c outside [] free unbound h = (free, unbound, h)"
| "collect_free c outside (n # ns) free unbound h =
     (if ts_var_set_contains (an_defined c) n then collect_free c outside ns free unbound h
      else if ts_var_set_contains (an_assigned c) n \<and> \<not> outside n
      then collect_free c outside ns free
             (unbound \<or> ts_var_set_contains (an_read_before_assignment c) n) h
      else (case ts_var_set_add h free n of (free', h') \<Rightarrow> collect_free c outside ns free' unbound h'))"

text \<open>\<^verbatim>\<open>ts_closure_analysis_t\<close>.\<close>

record closure_analysis =
  ca_captured_vars :: "bytes list"
  ca_captured_count :: nat
  ca_can_jit :: bool
  ca_reason :: "bytes option"

definition jit_reason :: "bool \<Rightarrow> bool \<Rightarrow> nat \<Rightarrow> bytes option" where
  "jit_reason unbound nested captured =
     (if unbound then Some ''unbound assignment requires interpreter scope''
      else if nested then Some ''nested closure not supported''
      else if captured > 10 then Some ''too many captured variables (max 10)''
      else None)"

text \<open>
  \<^verbatim>\<open>ts_analyze_closure\<close>; the inner \<open>None\<close> is the null result when there is no memory for it.
\<close>

definition ts_analyze_closure ::
  "heap \<Rightarrow> exprtk_node option \<Rightarrow> exprtk_node option list \<Rightarrow> env_chain \<Rightarrow> exprtk_node option \<Rightarrow>
   (closure_analysis option \<times> heap) option" where
  "ts_analyze_closure h func_body arg_params closure_env outer_scope =
     (case mark_params arg_params
             \<lparr>an_used = ts_var_set_init, an_defined = ts_var_set_init, an_assigned = ts_var_set_init,
              an_read_before_assignment = ts_var_set_init, an_has_nested_closure = False,
              an_has_modification = False, an_heap = h\<rparr> of
        None \<Rightarrow> None
      | Some c0 \<Rightarrow>
          (case ts_analyze_node func_body c0 False of
             None \<Rightarrow> None
           | Some c \<Rightarrow>
               (case collect_free c
                       (\<lambda>n. exprtk_env_has closure_env (Some n) \<or> ts_outer_scope_defines_name outer_scope n)
                       (vs_names (an_used c)) ts_var_set_init False (an_heap c) of
                  (free, unbound, h1) \<Rightarrow>
                    (case alloc h1 of
                       (ok, h2) \<Rightarrow>
                         if \<not> ok then Some (None, h2)
                         else
                           let reason = jit_reason unbound (an_has_nested_closure c) (length (vs_names free)) in
                           Some (Some \<lparr>ca_captured_vars = vs_names free,
                                       ca_captured_count = length (vs_names free),
                                       ca_can_jit = (reason = None), ca_reason = reason\<rparr>, h2)))))"

section \<open>What a body does with names\<close>

text \<open>
  The reads, assignments and bindings of a body in the order of its text, over all its nodes of
  every kind: a variable is a read, the variable of a \<^verbatim>\<open>for\<close>-\<^verbatim>\<open>in\<close> or a \<^verbatim>\<open>catch\<close> is bound before
  the parts of its statement, a constant after its value.  A nested function is one event.
\<close>

datatype event = EvRead bytes | EvAssign bytes | EvBind bytes | EvNested | EvUndefined

fun event_of :: "(bytes \<Rightarrow> event) \<Rightarrow> bytes option \<Rightarrow> event" where
  "event_of f None = EvUndefined"
| "event_of f (Some n) = f n"

fun nested_function :: "node_data \<Rightarrow> bool" where
  "nested_function (NODE_FUNCTION_DEFINITION name params body) = True"
| "nested_function (NODE_FUNCTION_EXPRESSION name params body) = True"
| "nested_function (NODE_GENERATOR_FUNCTION name params body) = True"
| "nested_function (NODE_METHOD name params body) = True"
| "nested_function d = False"

fun events_before :: "node_data \<Rightarrow> event list" where
  "events_before (NODE_VARIABLE name) = [event_of EvRead name]"
| "events_before (NODE_FOR_IN var collection body) = [event_of EvBind var]"
| "events_before (NODE_TRY_CATCH try_body (Some n) catch_body) = [EvBind n]"
| "events_before d = []"

fun events_after :: "node_data \<Rightarrow> event list" where
  "events_after (NODE_ASSIGNMENT (Some n) x) = [EvAssign n]"
| "events_after (NODE_CONSTANT_DECL (Some n) x) = [EvBind n]"
| "events_after d = []"

function (sequential) trace :: "exprtk_node option \<Rightarrow> event list" and traces :: "exprtk_node option list \<Rightarrow> event list"
  where
  "trace None = []"
| "trace (Some (Node line column d)) =
     (if nested_function d then [EvNested]
      else events_before d @ traces (node_children d) @ events_after d)"
| "traces [] = []"
| "traces (x # xs) = trace x @ traces xs"
  by pat_completeness auto

termination
  by (relation "measures
       [\<lambda>x. case x of Inl x \<Rightarrow> child_size x | Inr xs \<Rightarrow> (\<Sum>x\<leftarrow>xs. child_size x),
        \<lambda>x. case x of Inl y \<Rightarrow> 0 | Inr xs \<Rightarrow> Suc (length xs)]")
    (auto simp: child_size_simps le_imp_less_Suc [OF node_children_size])

text \<open>
  The bodies made of variables, literals, operators, calls, assignments, \<^verbatim>\<open>if\<close>, \<^verbatim>\<open>while\<close>, \<^verbatim>\<open>for\<close>, \<^verbatim>\<open>for\<close>-\<^verbatim>\<open>in\<close>,
  blocks, \<^verbatim>\<open>return\<close>, lists, element and member accesses, member calls and nested functions: none of the
  nodes below, which the analysis passes over.
\<close>

fun basic_node :: "node_data \<Rightarrow> bool" where
  "basic_node (NODE_SPREAD child) = False"
| "basic_node (NODE_SLICE array start stop) = False"
| "basic_node (NODE_CONSTANT_DECL name x) = False"
| "basic_node (NODE_SWITCH x cases default_case) = False"
| "basic_node (NODE_DO_WHILE body condition) = False"
| "basic_node (NODE_MAP_LITERAL keys elements) = False"
| "basic_node (NODE_MEMBER_SET object member x) = False"
| "basic_node (NODE_TEMPLATE_STRING v) = False"
| "basic_node (NODE_DESTRUCTURING_ASSIGNMENT is_constant targets x) = False"
| "basic_node (NODE_TRY_CATCH try_body catch_var catch_body) = False"
| "basic_node (NODE_THROW x) = False"
| "basic_node (NODE_YIELD x) = False"
| "basic_node (NODE_GENERATOR_FUNCTION name params body) = False"
| "basic_node (NODE_CLASS_DEF name constructor methods static_methods) = False"
| "basic_node (NODE_METHOD name params body) = False"
| "basic_node (NODE_FIELD_DECL name initializer) = False"
| "basic_node (NODE_NEW name args) = False"
| "basic_node NODE_THIS = False"
| "basic_node (NODE_SUPER member args) = False"
| "basic_node (NODE_INSTANCEOF object name class_expr) = False"
| "basic_node d = True"

function (sequential)
  basic_body :: "exprtk_node option \<Rightarrow> bool" and basic_bodies :: "exprtk_node option list \<Rightarrow> bool"
  where
  "basic_body None = True"
| "basic_body (Some (Node line column d)) =
     (basic_node d \<and> (nested_function d \<or> basic_bodies (node_children d)))"
| "basic_bodies [] = True"
| "basic_bodies (x # xs) = (basic_body x \<and> basic_bodies xs)"
  by pat_completeness auto

termination
  by (relation "measures
       [\<lambda>x. case x of Inl x \<Rightarrow> child_size x | Inr xs \<Rightarrow> (\<Sum>x\<leftarrow>xs. child_size x),
        \<lambda>x. case x of Inl y \<Rightarrow> 0 | Inr xs \<Rightarrow> Suc (length xs)]")
    (auto simp: child_size_simps le_imp_less_Suc [OF node_children_size])

section \<open>The events on the traversal\<close>

text \<open>What the traversal sees of the body: the nodes outside the basic ones are nothing to it.\<close>

function (sequential) seen :: "exprtk_node option \<Rightarrow> event list" and seens :: "exprtk_node option list \<Rightarrow> event list"
  where
  "seen None = []"
| "seen (Some (Node line column d)) =
     (if \<not> basic_node d then []
      else if nested_function d then [EvNested]
      else events_before d @ seens (node_children d) @ events_after d)"
| "seens [] = []"
| "seens (x # xs) = seen x @ seens xs"
  by pat_completeness auto

termination
  by (relation "measures
       [\<lambda>x. case x of Inl x \<Rightarrow> child_size x | Inr xs \<Rightarrow> (\<Sum>x\<leftarrow>xs. child_size x),
        \<lambda>x. case x of Inl y \<Rightarrow> 0 | Inr xs \<Rightarrow> Suc (length xs)]")
    (auto simp: child_size_simps le_imp_less_Suc [OF node_children_size])

lemma seen_basic:
  shows "basic_body x \<Longrightarrow> seen x = trace x" and "basic_bodies xs \<Longrightarrow> seens xs = traces xs"
  by (induction x and xs rule: basic_body_basic_bodies.induct) auto

lemma seen_in_trace:
  shows "set (seen x) \<subseteq> set (trace x)" and "set (seens xs) \<subseteq> set (traces xs)"
  by (induction x and xs rule: seen_seens.induct) auto

fun do_event :: "event \<Rightarrow> analysis_ctx \<Rightarrow> analysis_ctx option" where
  "do_event (EvRead n) c = ts_analyze_variable (Some n) c False"
| "do_event (EvAssign n) c = Some (add_assigned n c)"
| "do_event (EvBind n) c = Some (add_defined n c)"
| "do_event EvNested c = Some (c\<lparr>an_has_nested_closure := True\<rparr>)"
| "do_event EvUndefined c = None"

fun do_events :: "event list \<Rightarrow> analysis_ctx \<Rightarrow> analysis_ctx option" where
  "do_events [] c = Some c"
| "do_events (e # es) c = (case do_event e c of None \<Rightarrow> None | Some c1 \<Rightarrow> do_events es c1)"

lemma do_events_append:
  "do_events (xs @ ys) c = (case do_events xs c of None \<Rightarrow> None | Some c1 \<Rightarrow> do_events ys c1)"
  by (induction xs arbitrary: c) (auto split: option.split)

text \<open>The recursive traversal performs exactly the events of the body.\<close>

lemma analyze_seen:
  shows "\<not> in_lhs \<Longrightarrow> ts_analyze_node x c in_lhs = do_events (seen x) c"
    and "ts_analyze_nodes xs c = do_events (seens xs) c"
proof (induction x c in_lhs and xs c rule: analyze_induct)
  case (2 line column d c in_lhs)
  then show ?case
    by (cases d)
      (auto simp: ts_analyze_node.simps(2) ts_analyze_variable_def node_children_def do_events_append
        split: option.splits)
qed (simp_all add: do_events_append split: option.split)

section \<open>The sets, with memory for them\<close>

definition add_name :: "bytes \<Rightarrow> bytes list \<Rightarrow> bytes list" where
  "add_name n ns = (if n \<in> set ns then ns else ns @ [n])"

lemma add_plenty:
  "never_fails h \<Longrightarrow> \<exists>s'. ts_var_set_add h s n = (s', h) \<and> vs_names s' = add_name n (vs_names s)"
  by (auto simp: ts_var_set_add_def ts_var_set_contains_def add_name_def alloc_plenty Let_def)

lemma add_name_set [simp]: "set (add_name n ns) = insert n (set ns)"
  by (auto simp: add_name_def)

lemma fold_add_set: "set (fold add_name xs ns) = set ns \<union> set xs"
  by (induction xs arbitrary: ns) auto

text \<open>The first occurrence of each name, in order.\<close>

definition firsts :: "bytes list \<Rightarrow> bytes list" where
  "firsts ns = fold add_name ns []"

lemma firsts_distinct: "distinct (firsts ns)"
proof -
  have "distinct ms \<Longrightarrow> distinct (fold add_name ns ms)" for ms
    by (induction ns arbitrary: ms) (auto simp: add_name_def)
  then show ?thesis by (simp add: firsts_def)
qed

lemma firsts_set [simp]: "set (firsts ns) = set ns"
  by (simp add: firsts_def fold_add_set)

fun reads :: "event list \<Rightarrow> bytes list" where
  "reads [] = []"
| "reads (EvRead n # es) = n # reads es"
| "reads (e # es) = reads es"

definition assigns :: "event list \<Rightarrow> bytes set" where "assigns es = {n. EvAssign n \<in> set es}"
definition binds :: "event list \<Rightarrow> bytes set" where "binds es = {n. EvBind n \<in> set es}"

text \<open>A read of the name comes before any assignment to it or binding of it.\<close>

definition reads_first :: "bytes set \<Rightarrow> event list \<Rightarrow> bytes \<Rightarrow> bool" where
  "reads_first known es n \<longleftrightarrow> (\<exists>xs ys. es = xs @ EvRead n # ys \<and> n \<notin> known \<union> binds xs \<union> assigns xs)"

lemma reads_first_Nil [simp]: "\<not> reads_first known [] n"
  by (simp add: reads_first_def)

lemma reads_first_Cons:
  "reads_first known (e # es) n \<longleftrightarrow>
     e = EvRead n \<and> n \<notin> known \<or>
     reads_first (known \<union> (case e of EvAssign m \<Rightarrow> {m} | EvBind m \<Rightarrow> {m} | _ \<Rightarrow> {})) es n"
  (is "_ \<longleftrightarrow> _ \<or> reads_first (known \<union> ?new) es n")
proof -
  have step: "known \<union> binds (e # xs) \<union> assigns (e # xs) = known \<union> ?new \<union> binds xs \<union> assigns xs" for xs
    by (auto simp: binds_def assigns_def split: event.splits)
  show ?thesis
  proof
    assume "reads_first known (e # es) n"
    then obtain xs ys where split: "e # es = xs @ EvRead n # ys" "n \<notin> known \<union> binds xs \<union> assigns xs"
      unfolding reads_first_def by blast
    then show "e = EvRead n \<and> n \<notin> known \<or> reads_first (known \<union> ?new) es n"
    proof (cases xs)
      case (Cons a xs')
      with split step [of xs'] show ?thesis unfolding reads_first_def by auto
    qed simp
  next
    assume "e = EvRead n \<and> n \<notin> known \<or> reads_first (known \<union> ?new) es n"
    then show "reads_first known (e # es) n"
    proof
      assume "e = EvRead n \<and> n \<notin> known"
      then have "e # es = [] @ EvRead n # es \<and> n \<notin> known \<union> binds [] \<union> assigns []"
        by (simp add: binds_def assigns_def)
      then show ?thesis unfolding reads_first_def by blast
    next
      assume "reads_first (known \<union> ?new) es n"
      then obtain xs ys where "e # es = (e # xs) @ EvRead n # ys" "n \<notin> known \<union> binds (e # xs) \<union> assigns (e # xs)"
        unfolding reads_first_def step by auto
      then show ?thesis unfolding reads_first_def by blast
    qed
  qed
qed

text \<open>What the events leave in the sets.\<close>

definition analyzed :: "event list \<Rightarrow> analysis_ctx \<Rightarrow> analysis_ctx \<Rightarrow> bool" where
  "analyzed es c c' \<longleftrightarrow>
     an_heap c' = an_heap c \<and> vs_names (an_used c') = fold add_name (reads es) (vs_names (an_used c)) \<and>
     set (vs_names (an_defined c')) = set (vs_names (an_defined c)) \<union> binds es \<and>
     set (vs_names (an_assigned c')) = set (vs_names (an_assigned c)) \<union> assigns es \<and>
     set (vs_names (an_read_before_assignment c')) = set (vs_names (an_read_before_assignment c)) \<union>
       {n. reads_first (set (vs_names (an_defined c)) \<union> set (vs_names (an_assigned c))) es n} \<and>
     (an_has_nested_closure c' \<longleftrightarrow> an_has_nested_closure c \<or> EvNested \<in> set es)"

lemma adds_plenty:
  assumes "never_fails (an_heap c)"
  shows "\<exists>s. add_used n c = c\<lparr>an_used := s\<rparr> \<and> vs_names s = add_name n (vs_names (an_used c))"
    "\<exists>s. add_defined n c = c\<lparr>an_defined := s\<rparr> \<and> vs_names s = add_name n (vs_names (an_defined c))"
    "\<exists>s. add_assigned n c = c\<lparr>an_assigned := s\<rparr> \<and> vs_names s = add_name n (vs_names (an_assigned c))"
    "\<exists>s. add_read_before n c = c\<lparr>an_read_before_assignment := s\<rparr> \<and>
       vs_names s = add_name n (vs_names (an_read_before_assignment c))"
  using add_plenty [OF assms, of "an_used c" n] add_plenty [OF assms, of "an_defined c" n]
    add_plenty [OF assms, of "an_assigned c" n] add_plenty [OF assms, of "an_read_before_assignment c" n]
  by (auto simp: add_used_def add_defined_def add_assigned_def add_read_before_def)

lemma event_analyzed:
  assumes "never_fails (an_heap c)" "e \<noteq> EvUndefined"
  shows "\<exists>c'. do_event e c = Some c' \<and> analyzed [e] c c'"
proof (cases e)
  case (EvRead n)
  let ?known = "set (vs_names (an_defined c)) \<union> set (vs_names (an_assigned c))"
  define c1 where "c1 = (if n \<notin> ?known then add_read_before n c else c)"
  have run: "do_event e c = Some (add_used n c1)"
    by (simp add: EvRead ts_analyze_variable_def c1_def ts_var_set_contains_def)
  have "\<exists>s. c1 = c\<lparr>an_read_before_assignment := s\<rparr> \<and>
    set (vs_names s) = set (vs_names (an_read_before_assignment c)) \<union> (if n \<notin> ?known then {n} else {})"
  proof (cases "n \<in> ?known")
    case True
    then show ?thesis by (intro exI [of _ "an_read_before_assignment c"]) (auto simp: c1_def)
  next
    case False
    with adds_plenty(4) [OF assms(1), of n] show ?thesis by (auto simp: c1_def)
  qed
  then obtain s where s: "c1 = c\<lparr>an_read_before_assignment := s\<rparr>"
    "set (vs_names s) = set (vs_names (an_read_before_assignment c)) \<union> (if n \<notin> ?known then {n} else {})" by blast
  from adds_plenty(1) [of c1 n] assms(1) s(1) obtain u where
    "add_used n c1 = c1\<lparr>an_used := u\<rparr>" "vs_names u = add_name n (vs_names (an_used c))" by auto
  with run s show ?thesis
    by (auto simp: analyzed_def EvRead binds_def assigns_def reads_first_Cons)
next
  case (EvAssign n)
  with adds_plenty(3) [OF assms(1), of n] show ?thesis
    by (auto simp: analyzed_def binds_def assigns_def reads_first_Cons)
next
  case (EvBind n)
  with adds_plenty(2) [OF assms(1), of n] show ?thesis
    by (auto simp: analyzed_def binds_def assigns_def reads_first_Cons)
qed (use assms(2) in \<open>auto simp: analyzed_def binds_def assigns_def reads_first_Cons\<close>)

lemma events_analyzed:
  "never_fails (an_heap c) \<Longrightarrow> EvUndefined \<notin> set es \<Longrightarrow> \<exists>c'. do_events es c = Some c' \<and> analyzed es c c'"
proof (induction es arbitrary: c)
  case Nil
  then show ?case by (simp add: analyzed_def binds_def assigns_def)
next
  case (Cons e es)
  from event_analyzed [of c e] Cons.prems obtain c1 where c1: "do_event e c = Some c1" "analyzed [e] c c1" by auto
  then have "never_fails (an_heap c1)" using Cons.prems(1) by (simp add: analyzed_def)
  with Cons.IH [of c1] Cons.prems(2) obtain c2 where c2: "do_events es c1 = Some c2" "analyzed es c1 c2" by auto
  have known: "set (vs_names (an_defined c1)) \<union> set (vs_names (an_assigned c1)) =
      set (vs_names (an_defined c)) \<union> set (vs_names (an_assigned c)) \<union>
      (case e of EvAssign m \<Rightarrow> {m} | EvBind m \<Rightarrow> {m} | _ \<Rightarrow> {})"
    using c1(2) by (auto simp: analyzed_def binds_def assigns_def split: event.splits)
  have reads: "reads (e # es) = reads [e] @ reads es" by (cases e) simp_all
  have "analyzed (e # es) c c2"
    using c1(2) c2(2) unfolding analyzed_def known reads reads_first_Cons
    by (auto simp: binds_def assigns_def)
  with c1 c2 show ?case by simp
qed

section \<open>Captured variables\<close>

fun param_names :: "exprtk_node option list \<Rightarrow> bytes option list" where
  "param_names [] = []"
| "param_names (None # ps) = None # param_names ps"
| "param_names (Some p # ps) =
     (case node_data p of
        NODE_VARIABLE name \<Rightarrow> [name]
      | NODE_ASSIGNMENT name x \<Rightarrow> [name]
      | _ \<Rightarrow> []) @ param_names ps"

lemma mark_params_ok:
  "never_fails (an_heap c) \<Longrightarrow> None \<notin> set (param_names ps) \<Longrightarrow>
   \<exists>s. mark_params ps c = Some (c\<lparr>an_defined := s\<rparr>) \<and>
     set (vs_names s) = set (vs_names (an_defined c)) \<union> the ` set (param_names ps)"
proof (induction ps c rule: mark_params.induct)
  case (1 c)
  then show ?case by (intro exI [of _ "an_defined c"]) simp
next
  case (3 p ps c)
  have named: "\<exists>s. mark_params ps (add_defined n c) = Some (c\<lparr>an_defined := s\<rparr>) \<and>
      set (vs_names s) = insert n (set (vs_names (an_defined c)) \<union> the ` set (param_names ps))"
    if ih: "never_fails (an_heap (add_defined n c)) \<Longrightarrow> \<exists>s. mark_params ps (add_defined n c) =
        Some (add_defined n c\<lparr>an_defined := s\<rparr>) \<and>
        set (vs_names s) = set (vs_names (an_defined (add_defined n c))) \<union> the ` set (param_names ps)" for n
  proof -
    from adds_plenty(2) [OF "3.prems"(1), of n] obtain s where
      s: "add_defined n c = c\<lparr>an_defined := s\<rparr>" "vs_names s = add_name n (vs_names (an_defined c))" by blast
    with ih "3.prems"(1) show ?thesis by auto
  qed
  show ?case
  proof (cases "node_data p")
    case (NODE_VARIABLE name)
    with "3.prems" obtain n where "name = Some n" by (cases name) auto
    with NODE_VARIABLE named [OF "3.IH"(3) [OF NODE_VARIABLE]] "3.prems" show ?thesis by auto
  next
    case (NODE_ASSIGNMENT name x)
    with "3.prems" obtain n where "name = Some n" by (cases name) auto
    with NODE_ASSIGNMENT named [OF "3.IH"(6) [OF NODE_ASSIGNMENT]] "3.prems" show ?thesis by auto
  qed (use 3 in auto)
qed simp

lemma collect_free_ok:
  assumes "never_fails h" "distinct ns" "set (vs_names free) \<inter> set ns = {}"
  shows "\<exists>free'. collect_free c outside ns free unbound h =
      (free', unbound \<or> (\<exists>n \<in> set ns. n \<notin> set (vs_names (an_defined c)) \<and> n \<in> set (vs_names (an_assigned c)) \<and>
         \<not> outside n \<and> n \<in> set (vs_names (an_read_before_assignment c))), h) \<and>
    vs_names free' = vs_names free @
      filter (\<lambda>n. n \<notin> set (vs_names (an_defined c)) \<and> (n \<in> set (vs_names (an_assigned c)) \<longrightarrow> outside n)) ns"
  using assms(2,3)
proof (induction ns arbitrary: free unbound)
  case (Cons n ns)
  from add_plenty [OF assms(1), of free n] Cons.prems obtain free1 where
    add: "ts_var_set_add h free n = (free1, h)" "vs_names free1 = vs_names free @ [n]"
    by (auto simp: add_name_def)
  have dis: "set (vs_names free1) \<inter> set ns = {}" using add(2) Cons.prems by auto
  show ?case
    using Cons.IH [of free1 unbound] Cons.IH [of free "unbound \<or> n \<in> set (vs_names (an_read_before_assignment c))"]
      Cons.IH [of free unbound] Cons.prems add dis
    by (auto simp: ts_var_set_contains_def)
qed simp

text \<open>The names that are captured when the events of a body are these, and whether it can be compiled.\<close>

definition captured :: "bytes set \<Rightarrow> (bytes \<Rightarrow> bool) \<Rightarrow> event list \<Rightarrow> bytes list" where
  "captured ps outside es =
     filter (\<lambda>n. n \<notin> ps \<union> binds es \<and> (n \<in> assigns es \<longrightarrow> outside n)) (firsts (reads es))"

definition compilable :: "bytes set \<Rightarrow> (bytes \<Rightarrow> bool) \<Rightarrow> event list \<Rightarrow> bool" where
  "compilable ps outside es \<longleftrightarrow>
     EvNested \<notin> set es \<and> length (captured ps outside es) \<le> 10 \<and>
     \<not> (\<exists>n. reads_first ps es n \<and> n \<notin> ps \<union> binds es \<and> n \<in> assigns es \<and> \<not> outside n)"

lemma reads_mem: "n \<in> set (reads es) \<longleftrightarrow> EvRead n \<in> set es"
  by (induction es rule: reads.induct) auto

lemma analysis_of_seen:
  fixes body params env outer
  defines "es \<equiv> seen body" and "ps \<equiv> the ` set (param_names params)"
    and "outside \<equiv> \<lambda>n. exprtk_env_has env (Some n) \<or> ts_outer_scope_defines_name outer n"
  assumes "never_fails h" "EvUndefined \<notin> set es" "None \<notin> set (param_names params)"
  shows "\<exists>a. ts_analyze_closure h body params env outer = Some (Some a, h) \<and>
    ca_captured_vars a = captured ps outside es \<and> ca_captured_count a = length (ca_captured_vars a) \<and>
    (ca_can_jit a \<longleftrightarrow> compilable ps outside es)"
proof -
  let ?c = "\<lparr>an_used = ts_var_set_init, an_defined = ts_var_set_init, an_assigned = ts_var_set_init,
    an_read_before_assignment = ts_var_set_init, an_has_nested_closure = False,
    an_has_modification = False, an_heap = h\<rparr>"
  from mark_params_ok [of ?c params] assms(4,6) obtain s where
    mp: "mark_params params ?c = Some (?c\<lparr>an_defined := s\<rparr>)" "set (vs_names s) = ps"
    by (auto simp: ps_def ts_var_set_init_def)
  from events_analyzed [of "?c\<lparr>an_defined := s\<rparr>" es] assms(4,5) obtain c where
    ev: "do_events es (?c\<lparr>an_defined := s\<rparr>) = Some c" "analyzed es (?c\<lparr>an_defined := s\<rparr>) c" by auto
  have c: "an_heap c = h" "vs_names (an_used c) = firsts (reads es)" "set (vs_names (an_defined c)) = ps \<union> binds es"
    "set (vs_names (an_assigned c)) = assigns es"
    "set (vs_names (an_read_before_assignment c)) = {n. reads_first ps es n}"
    "an_has_nested_closure c \<longleftrightarrow> EvNested \<in> set es"
    using ev(2) mp(2) by (auto simp: analyzed_def firsts_def ts_var_set_init_def)
  have run: "ts_analyze_node body (?c\<lparr>an_defined := s\<rparr>) False = Some c"
    using ev(1) by (simp add: analyze_seen(1) es_def)
  have read: "n \<in> set (reads es)" if "reads_first ps es n" for n
    using that by (auto simp: reads_first_def reads_mem)
  from collect_free_ok [OF assms(4) firsts_distinct, of ts_var_set_init "reads es" c outside False]
  obtain free where cf: "collect_free c outside (firsts (reads es)) ts_var_set_init False h =
      (free, \<exists>n. reads_first ps es n \<and> n \<notin> ps \<union> binds es \<and> n \<in> assigns es \<and> \<not> outside n, h)"
    "vs_names free = captured ps outside es"
    unfolding c captured_def using read by (auto simp: ts_var_set_init_def) metis
  show ?thesis
    using mp(1) run c(1,2,6) cf assms(4)
    unfolding ts_analyze_closure_def outside_def [symmetric]
    by (auto simp: alloc_plenty jit_reason_def Let_def compilable_def)
qed

text \<open>
  C37: captured variables.  With memory for the sets, and no null name in the parameters or the body,
  \<^verbatim>\<open>ts_analyze_closure\<close> returns an analysis.  Each captured variable is listed once, occurs as a variable in the body
  outside nested functions, and is no parameter.  For a basic body (operators, calls, assignments,
  \<^verbatim>\<open>if\<close>, \<^verbatim>\<open>while\<close>, \<^verbatim>\<open>for\<close>, \<^verbatim>\<open>for\<close>-\<^verbatim>\<open>in\<close>, blocks, \<^verbatim>\<open>return\<close>, lists, accesses, member calls, nested functions) the
  captured variables are, in the order of their first reads, exactly the names that the body reads
  outside nested functions, that are neither parameters nor loop variables, and that are bound outside if the body
  assigns to them.  Such a function can be compiled ahead exactly when it holds no nested function,
  captures ten variables at most, and reads no local variable that is unbound outside before,
  in the order of the text, the body assigns to it.
\<close>

theorem captured_variables_exact:
  fixes body params env outer
  defines "es \<equiv> trace body" and "ps \<equiv> the ` set (param_names params)"
    and "outside \<equiv> \<lambda>n. exprtk_env_has env (Some n) \<or> ts_outer_scope_defines_name outer n"
  assumes "never_fails h" "EvUndefined \<notin> set es" "None \<notin> set (param_names params)"
  shows "\<exists>a. ts_analyze_closure h body params env outer = Some (Some a, h) \<and>
    ca_captured_count a = length (ca_captured_vars a) \<and> distinct (ca_captured_vars a) \<and>
    set (ca_captured_vars a) \<subseteq> set (reads es) - ps \<and>
    (basic_body body \<longrightarrow>
       ca_captured_vars a =
         filter (\<lambda>n. n \<notin> ps \<union> binds es \<and> (n \<in> assigns es \<longrightarrow> outside n)) (firsts (reads es)) \<and>
       (ca_can_jit a \<longleftrightarrow> EvNested \<notin> set es \<and> length (ca_captured_vars a) \<le> 10 \<and>
          \<not> (\<exists>n. reads_first ps es n \<and> n \<notin> ps \<union> binds es \<and> n \<in> assigns es \<and> \<not> outside n)))"
proof -
  have "EvUndefined \<notin> set (seen body)" using assms(5) seen_in_trace(1) by (auto simp: es_def)
  with analysis_of_seen [OF assms(4) _ assms(6), of body env outer] obtain a where
    a: "ts_analyze_closure h body params env outer = Some (Some a, h)"
      "ca_captured_vars a = captured ps outside (seen body)" "ca_captured_count a = length (ca_captured_vars a)"
      "ca_can_jit a \<longleftrightarrow> compilable ps outside (seen body)"
    by (auto simp: ps_def outside_def)
  moreover have "set (reads (seen body)) \<subseteq> set (reads es)"
    using seen_in_trace(1) [of body] by (auto simp: reads_mem es_def)
  moreover have "basic_body body \<Longrightarrow> seen body = es" by (simp add: seen_basic es_def)
  ultimately show ?thesis by (auto simp: captured_def compilable_def firsts_distinct)
qed

text \<open>
  The body \<^verbatim>\<open>{ total = total + rate; return total * x; }\<close> with a parameter \<^verbatim>\<open>x\<close> and an outer variable
  \<^verbatim>\<open>total\<close>; and \<^verbatim>\<open>{ const y = x; return y; }\<close>, where the constant declaration is passed over, so that the
  local constant \<^verbatim>\<open>y\<close> counts as captured and the variable \<^verbatim>\<open>x\<close> does not.
\<close>

definition at_1 :: "node_data \<Rightarrow> exprtk_node option" where "at_1 d = Some (Node 1 1 d)"

definition example_closure :: "exprtk_node option" where
  "example_closure = at_1 (NODE_BLOCK
     [at_1 (NODE_ASSIGNMENT (Some ''total'')
        (at_1 (NODE_BINARY_OP 1 (at_1 (NODE_VARIABLE (Some ''total''))) (at_1 (NODE_VARIABLE (Some ''rate'')))))),
      at_1 (NODE_FLOW 3
        (at_1 (NODE_BINARY_OP 3 (at_1 (NODE_VARIABLE (Some ''total''))) (at_1 (NODE_VARIABLE (Some ''x''))))))])"

theorem captured_variables_exact_witness:
  "\<exists>a. ts_analyze_closure plenty example_closure [at_1 (NODE_VARIABLE (Some ''x''))] []
      (at_1 (NODE_ASSIGNMENT (Some ''total'') None)) = Some (Some a, plenty) \<and>
    ca_captured_vars a = [''total'', ''rate''] \<and> ca_can_jit a"
proof -
  have es: "trace example_closure =
      [EvRead ''total'', EvRead ''rate'', EvAssign ''total'', EvRead ''total'', EvRead ''x'']"
    and basic: "basic_body example_closure"
    by (simp_all add: example_closure_def at_1_def node_children_def)
  have "firsts (reads (trace example_closure)) = [''total'', ''rate'', ''x'']"
    unfolding es by (simp add: firsts_def add_name_def)
  then show ?thesis
    using captured_variables_exact [of plenty example_closure "[at_1 (NODE_VARIABLE (Some ''x''))]" "[]"
        "at_1 (NODE_ASSIGNMENT (Some ''total'') None)"] basic
    unfolding es
    by (auto simp: plenty_def at_1_def binds_def assigns_def exprtk_env_has_def ts_outer_scope_defines_name_def)
qed

definition constant_body :: "exprtk_node option" where
  "constant_body = at_1 (NODE_BLOCK
     [at_1 (NODE_CONSTANT_DECL (Some ''y'') (at_1 (NODE_VARIABLE (Some ''x'')))),
      at_1 (NODE_FLOW 3 (at_1 (NODE_VARIABLE (Some ''y''))))])"

lemma constant_counts_as_captured:
  "\<exists>a. ts_analyze_closure plenty constant_body [] [] None = Some (Some a, plenty) \<and> ca_captured_vars a = [''y'']"
proof -
  have "seen constant_body = [EvRead ''y'']"
    by (simp add: constant_body_def at_1_def node_children_def)
  then show ?thesis
    using analysis_of_seen [of plenty constant_body "[]" "[]" None]
    by (auto simp: plenty_def captured_def firsts_def add_name_def binds_def assigns_def)
qed

end
