(* ===== verification/Script_Validate.thy ===== *)
theory Script_Validate
  imports Module_Ast Script_Env
begin

text \<open>
  The validator of syntax trees (\<^verbatim>\<open>exprtk/src/exprtk_validate.c\<close>), which every script and module
  passes before it is run or lowered.  It walks the tree with a stack of scopes and stops at the
  first fault: a parameter that repeats the name of an earlier one, or arithmetic on a map literal.
  The walk is compared with the list of all faults of a tree, wherever they stand: it reports faults
  of the list only, and the first one when the tree has none of the nodes that it does not enter.
\<close>

section \<open>Scopes\<close>

text \<open>
  \<^verbatim>\<open>struct scope_s\<close> and \<^verbatim>\<open>validate_ctx_t\<close>: the stack of scopes with the innermost first, where the empty
  list is the null pointer.  A name is null when there was no memory for its copy.  \<open>vc_error\<close> and
  \<open>vc_error_msg\<close> are those of the parse context.
\<close>

record vscope =
  vsc_vars :: "bytes option list"
  vsc_cap :: nat

record validate_ctx =
  vc_error :: bool
  vc_error_msg :: bytes
  vc_env :: env_chain
  vc_scope :: "vscope list"
  vc_heap :: heap

definition scope_push :: "validate_ctx \<Rightarrow> validate_ctx" where
  "scope_push c =
     (case alloc (vc_heap c) of
        (ok, h) \<Rightarrow>
          if ok then c\<lparr>vc_scope := \<lparr>vsc_vars = [], vsc_cap = 0\<rparr> # vc_scope c, vc_heap := h\<rparr>
          else c\<lparr>vc_heap := h\<rparr>)"

definition scope_pop :: "validate_ctx \<Rightarrow> validate_ctx" where
  "scope_pop c = c\<lparr>vc_scope := tl (vc_scope c)\<rparr>"

definition safe_strdup :: "heap \<Rightarrow> bytes \<Rightarrow> bytes option \<times> heap" where
  "safe_strdup h s = (case alloc h of (ok, h') \<Rightarrow> (if ok then Some s else None, h'))"

definition scope_append :: "heap \<Rightarrow> vscope \<Rightarrow> bytes \<Rightarrow> vscope \<times> heap" where
  "scope_append h s name =
     (case safe_strdup h name of (v, h') \<Rightarrow> (s\<lparr>vsc_vars := vsc_vars s @ [v]\<rparr>, h'))"

definition scope_add :: "validate_ctx \<Rightarrow> bytes option \<Rightarrow> validate_ctx" where
  "scope_add c name =
     (case (vc_scope c, name) of
        (s # rest, Some n) \<Rightarrow>
          if Some n \<in> set (vsc_vars s) then c
          else if length (vsc_vars s) \<ge> vsc_cap s then
            let new_cap = (if vsc_cap s = 0 then 8 else vsc_cap s * 2) in
            (case alloc (vc_heap c) of
               (ok, h) \<Rightarrow>
                 if \<not> ok then c\<lparr>vc_heap := h\<rparr>
                 else (case scope_append h (s\<lparr>vsc_cap := new_cap\<rparr>) n of
                         (s', h') \<Rightarrow> c\<lparr>vc_scope := s' # rest, vc_heap := h'\<rparr>))
          else (case scope_append (vc_heap c) s n of
                  (s', h') \<Rightarrow> c\<lparr>vc_scope := s' # rest, vc_heap := h'\<rparr>)
      | _ \<Rightarrow> c)"

text \<open>The search of the environments, where each one asks for its parents again.\<close>

fun env_knows :: "env_chain \<Rightarrow> bytes \<Rightarrow> bool" where
  "env_knows [] name = False"
| "env_knows (sc # scs) name =
     (exprtk_env_has (sc # scs) (Some name) \<or> list_ex (\<lambda>f. func_name f = Some name) (sc_funcs sc) \<or>
      env_knows scs name)"

definition scope_has :: "validate_ctx \<Rightarrow> bytes option \<Rightarrow> bool" where
  "scope_has c name =
     (case name of
        None \<Rightarrow> False
      | Some n \<Rightarrow> list_ex (\<lambda>s. Some n \<in> set (vsc_vars s)) (vc_scope c) \<or> env_knows (vc_env c) n)"

text \<open>\<^verbatim>\<open>is_module_prefix\<close>: a function is in the namespace when its name begins with the prefix and a dot.\<close>

definition in_namespace :: "bytes \<Rightarrow> bytes \<Rightarrow> bool" where
  "in_namespace name fn_name \<longleftrightarrow> take (length name + 1) fn_name = name @ ''.''"

definition is_module_prefix :: "validate_ctx \<Rightarrow> bytes option \<Rightarrow> bool" where
  "is_module_prefix c name =
     (case (vc_env c, name) of
        (sc # scs, Some n) \<Rightarrow>
          list_ex (\<lambda>e. list_ex (\<lambda>m. md_module_name m = Some n \<or> list_ex (in_namespace n) (md_entries m))
                              (sc_modules e)) (sc # scs) \<or>
          scope_has c name
      | _ \<Rightarrow> False)"

text \<open>\<^verbatim>\<open>report_error\<close>: the first report counts.\<close>

definition fault_text :: "int \<times> int \<times> bytes \<Rightarrow> bytes" where
  "fault_text f =
     (case f of
        (line, column, msg) \<Rightarrow>
          snprintf_s 256 (''Validation error at line '' @ print_d line @ '', col '' @ print_d column @ '': '' @
                          snprintf_s 128 msg))"

definition report_error :: "validate_ctx \<Rightarrow> int \<Rightarrow> int \<Rightarrow> bytes \<Rightarrow> validate_ctx" where
  "report_error c line column msg =
     (if vc_error c then c else c\<lparr>vc_error := True, vc_error_msg := fault_text (line, column, msg)\<rparr>)"

section \<open>The walk\<close>

text \<open>
  The comparison of a parameter with the names of the scope; \<open>None\<close> is \<^verbatim>\<open>strcmp\<close> of a null pointer.
\<close>

fun repeats :: "bytes option list \<Rightarrow> bytes option \<Rightarrow> bool option" where
  "repeats [] name = Some False"
| "repeats (Some v # vs) (Some n) = (if v = n then Some True else repeats vs (Some n))"
| "repeats (v # vs) name = None"

definition duplicate_message :: "bytes \<Rightarrow> bytes" where
  "duplicate_message name = ''Duplicate parameter '' @ [CHR 0x27] @ name @ [CHR 0x27]"

definition check_param :: "exprtk_node option \<Rightarrow> validate_ctx \<Rightarrow> validate_ctx option" where
  "check_param p c =
     (case p of
        None \<Rightarrow> None
      | Some (Node line column (NODE_VARIABLE name)) \<Rightarrow>
          (case vc_scope c of
             [] \<Rightarrow> None
           | s # rest \<Rightarrow>
               (case repeats (vsc_vars s) name of
                  None \<Rightarrow> None
                | Some dup \<Rightarrow>
                    Some (scope_add
                      (if dup then report_error c line column (duplicate_message (the name)) else c) name)))
      | Some _ \<Rightarrow> Some c)"

fun check_params :: "exprtk_node option list \<Rightarrow> validate_ctx \<Rightarrow> validate_ctx option" where
  "check_params [] c = Some c"
| "check_params (p # ps) c = (case check_param p c of None \<Rightarrow> None | Some c1 \<Rightarrow> check_params ps c1)"

text \<open>
  The names that an \<^verbatim>\<open>import\<close> brings into scope: the module, and the namespaces of all mounted modules.
  \<open>None\<close> is a null argument or a string with a length and no data.
\<close>

definition namespaces :: "env_chain \<Rightarrow> bytes list" where
  "namespaces env =
     [ns. e \<leftarrow> env, m \<leftarrow> sc_modules e, fn \<leftarrow> md_entries m, CHR ''.'' \<in> set fn,
          ns \<leftarrow> [takeWhile (\<lambda>ch. ch \<noteq> CHR ''.'') fn], length ns < 64]"

definition import_names :: "bytes option \<Rightarrow> exprtk_node option list \<Rightarrow> validate_ctx \<Rightarrow> validate_ctx option" where
  "import_names name args c =
     (if name \<noteq> Some ''import'' then Some c
      else
        (case args of
           [None] \<Rightarrow> None
         | [Some (Node line column (NODE_STRING v))] \<Rightarrow>
             if buf_broken v then None
             else Some (fold (\<lambda>n c. scope_add c (Some n)) (namespaces (vc_env c))
                         (scope_add c (Some (c_string (take 63 (buf_elems v))))))
         | _ \<Rightarrow> Some c))"

definition is_map_literal :: "exprtk_node option \<Rightarrow> bool" where
  "is_map_literal x =
     (case x of Some (Node line column (NODE_MAP_LITERAL keys elements)) \<Rightarrow> True | _ \<Rightarrow> False)"

definition object_is_module :: "validate_ctx \<Rightarrow> exprtk_node option \<Rightarrow> bool" where
  "object_is_module c x =
     (case x of Some (Node line column (NODE_VARIABLE name)) \<Rightarrow> is_module_prefix c name | _ \<Rightarrow> False)"

text \<open>
  \<^verbatim>\<open>validate_node\<close>.  \<open>arith\<close> says which token numbers are those of \<open>+\<close>, \<open>-\<close>, \<open>*\<close> and \<open>/\<close>: the numbers are in
  the header that the parser generator writes.  The lookups whose results the code does not use
  (of a variable, of a called function) are left out.  A \<^verbatim>\<open>do\<close> loop is read through the union member of
  \<^verbatim>\<open>while\<close> loops, whose first pointer is its body and whose second is its condition.  The result
  \<open>None\<close> is undefined behaviour in C.
\<close>

function (sequential)
  validate_node :: "(int \<Rightarrow> bool) \<Rightarrow> exprtk_node option \<Rightarrow> validate_ctx \<Rightarrow> validate_ctx option"
  and validate_nodes :: "(int \<Rightarrow> bool) \<Rightarrow> exprtk_node option list \<Rightarrow> validate_ctx \<Rightarrow> validate_ctx option"
  where
  "validate_node arith None c = Some c"
| "validate_node arith (Some (Node line column d)) c =
     (if vc_error c then Some c
      else
        (case d of
           NODE_ASSIGNMENT name x \<Rightarrow>
             (case validate_node arith x c of None \<Rightarrow> None | Some c1 \<Rightarrow> Some (scope_add c1 name))
         | NODE_CONSTANT_DECL name x \<Rightarrow>
             (case validate_node arith x c of None \<Rightarrow> None | Some c1 \<Rightarrow> Some (scope_add c1 name))
         | NODE_BINARY_OP op left right \<Rightarrow>
             (case validate_nodes arith [left, right] c of
                None \<Rightarrow> None
              | Some c1 \<Rightarrow>
                  Some (if arith op \<and> (is_map_literal left \<or> is_map_literal right)
                        then report_error c1 line column ''Invalid operation on Map type'' else c1))
         | NODE_FUNCTION_EXPRESSION name params body \<Rightarrow>
             (case check_params params (scope_push c) of
                None \<Rightarrow> None
              | Some c1 \<Rightarrow>
                  (case validate_node arith body c1 of
                     None \<Rightarrow> None | Some c2 \<Rightarrow> Some (scope_add (scope_pop c2) name)))
         | NODE_FUNCTION_DEFINITION name params body \<Rightarrow>
             (case check_params params (scope_push c) of
                None \<Rightarrow> None
              | Some c1 \<Rightarrow>
                  (case validate_node arith body c1 of
                     None \<Rightarrow> None | Some c2 \<Rightarrow> Some (scope_add (scope_pop c2) name)))
         | NODE_BLOCK statements \<Rightarrow> validate_nodes arith statements c
         | NODE_IF condition if_branch else_branch \<Rightarrow>
             validate_nodes arith [condition, if_branch, else_branch] c
         | NODE_WHILE condition body \<Rightarrow> validate_nodes arith [condition, body] c
         | NODE_DO_WHILE body condition \<Rightarrow> validate_nodes arith [body, condition] c
         | NODE_FOR init condition post body \<Rightarrow>
             (case validate_nodes arith [init, condition, post, body] (scope_push c) of
                None \<Rightarrow> None | Some c1 \<Rightarrow> Some (scope_pop c1))
         | NODE_FOR_IN var collection body \<Rightarrow>
             (case validate_node arith collection (scope_push c) of
                None \<Rightarrow> None
              | Some c1 \<Rightarrow>
                  (case validate_node arith body (scope_add c1 var) of
                     None \<Rightarrow> None | Some c2 \<Rightarrow> Some (scope_pop c2)))
         | NODE_FUNCTION_CALL name args \<Rightarrow>
             (case validate_nodes arith args c of None \<Rightarrow> None | Some c1 \<Rightarrow> import_names name args c1)
         | NODE_MEMBER_CALL object member args \<Rightarrow>
             (case (if object_is_module c object then Some c else validate_node arith object c) of
                None \<Rightarrow> None | Some c1 \<Rightarrow> validate_nodes arith args c1)
         | NODE_VECTOR elements \<Rightarrow> validate_nodes arith elements c
         | NODE_MAP_LITERAL keys elements \<Rightarrow> validate_nodes arith elements c
         | _ \<Rightarrow> Some c))"
| "validate_nodes arith [] c = Some c"
| "validate_nodes arith (x # xs) c =
     (case validate_node arith x c of None \<Rightarrow> None | Some c1 \<Rightarrow> validate_nodes arith xs c1)"
  by pat_completeness auto

termination
  by (relation "measures
       [\<lambda>x. case x of Inl (arith, x, c) \<Rightarrow> child_size x | Inr (arith, xs, c) \<Rightarrow> (\<Sum>x\<leftarrow>xs. child_size x),
        \<lambda>x. case x of Inl y \<Rightarrow> 0 | Inr (arith, xs, c) \<Rightarrow> Suc (length xs)]")
    (auto simp: child_size_simps size_option_child size_list_children)

declare validate_node.simps(2) [simp del]

lemmas validate_induct = validate_node_validate_nodes.induct

text \<open>
  \<^verbatim>\<open>exprtk_validate\<close>: the status, the message written (when there is room for one) and the memory.
\<close>

definition exprtk_validate ::
  "(int \<Rightarrow> bool) \<Rightarrow> heap \<Rightarrow> exprtk_node option \<Rightarrow> env_chain \<Rightarrow> bool \<Rightarrow> nat \<Rightarrow>
   (int \<times> bytes option \<times> heap) option" where
  "exprtk_validate arith h root env has_error_msg msg_len =
     (if root = None then Some (0, None, h)
      else
        let wanted = (\<lambda>msg. if has_error_msg \<and> msg_len > 0 then Some (snprintf_s msg_len msg) else None);
            (ok, h1) = alloc h
        in
          if \<not> ok then Some (1, wanted ''Validation error: out of memory'', h1)
          else
            (case validate_node arith root
                    (scope_push \<lparr>vc_error = False, vc_error_msg = [], vc_env = env, vc_scope = [], vc_heap = h1\<rparr>) of
               None \<Rightarrow> None
             | Some c \<Rightarrow>
                 Some (if vc_error (scope_pop c)
                       then (1, wanted (vc_error_msg (scope_pop c)), vc_heap (scope_pop c))
                       else (0, None, vc_heap (scope_pop c)))))"

section \<open>The faults of a tree\<close>

text \<open>
  All faults written in a tree, whatever its node kinds: names that a parameter list repeats, with
  plain, defaulted and rest parameters, and arithmetic with a map literal as an operand.  The faults of
  a node's parameters come first, then those of its children in order, then that of its operator.
\<close>

fun parameter_name :: "exprtk_node option \<Rightarrow> bytes option" where
  "parameter_name (Some (Node line column (NODE_VARIABLE name))) = name"
| "parameter_name (Some (Node line column (NODE_ASSIGNMENT name x))) = name"
| "parameter_name (Some (Node line column (NODE_REST_PARAMETER name))) = name"
| "parameter_name p = None"

fun parameter_list :: "node_data \<Rightarrow> exprtk_node option list" where
  "parameter_list (NODE_FUNCTION_EXPRESSION name params body) = params"
| "parameter_list (NODE_FUNCTION_DEFINITION name params body) = params"
| "parameter_list (NODE_GENERATOR_FUNCTION name params body) = params"
| "parameter_list (NODE_METHOD name params body) = params"
| "parameter_list d = []"

fun repeated_names :: "bytes set \<Rightarrow> exprtk_node option list \<Rightarrow> (int \<times> int \<times> bytes) list" where
  "repeated_names seen [] = []"
| "repeated_names seen (p # ps) =
     (case (p, parameter_name p) of
        (Some (Node line column d), Some n) \<Rightarrow>
          (if n \<in> seen then [(line, column, duplicate_message n)] else []) @ repeated_names (insert n seen) ps
      | _ \<Rightarrow> repeated_names seen ps)"

fun operator_fault :: "(int \<Rightarrow> bool) \<Rightarrow> int \<Rightarrow> int \<Rightarrow> node_data \<Rightarrow> (int \<times> int \<times> bytes) list" where
  "operator_fault arith line column (NODE_BINARY_OP op left right) =
     (if arith op \<and> (is_map_literal left \<or> is_map_literal right)
      then [(line, column, ''Invalid operation on Map type'')] else [])"
| "operator_fault arith line column d = []"

function (sequential)
  tree_faults :: "(int \<Rightarrow> bool) \<Rightarrow> exprtk_node option \<Rightarrow> (int \<times> int \<times> bytes) list"
  and trees_faults :: "(int \<Rightarrow> bool) \<Rightarrow> exprtk_node option list \<Rightarrow> (int \<times> int \<times> bytes) list"
  where
  "tree_faults arith None = []"
| "tree_faults arith (Some (Node line column d)) =
     repeated_names {} (parameter_list d) @ trees_faults arith (node_children d) @
     operator_fault arith line column d"
| "trees_faults arith [] = []"
| "trees_faults arith (x # xs) = tree_faults arith x @ trees_faults arith xs"
  by pat_completeness auto

termination
  by (relation "measures
       [\<lambda>x. case x of Inl (arith, x) \<Rightarrow> child_size x | Inr (arith, xs) \<Rightarrow> (\<Sum>x\<leftarrow>xs. child_size x),
        \<lambda>x. case x of Inl y \<Rightarrow> 0 | Inr (arith, xs) \<Rightarrow> Suc (length xs)]")
    (auto simp: child_size_simps le_imp_less_Suc [OF node_children_size])

text \<open>
  The trees without the kinds of nodes that the validator does not enter: values of \<^verbatim>\<open>return\<close>, element
  and member accesses, slices, \<^verbatim>\<open>switch\<close>, spreads, destructuring, \<^verbatim>\<open>try\<close>, \<^verbatim>\<open>throw\<close>, generators, classes
  and their operations, and parameters that are not plain names.
\<close>

fun plain_parameter :: "exprtk_node option \<Rightarrow> bool" where
  "plain_parameter (Some (Node line column (NODE_VARIABLE name))) = True"
| "plain_parameter p = False"

fun plain_node :: "node_data \<Rightarrow> bool" where
  "plain_node (NODE_FLOW kind x) = (x = None)"
| "plain_node (NODE_FUNCTION_EXPRESSION name params body) = list_all plain_parameter params"
| "plain_node (NODE_FUNCTION_DEFINITION name params body) = list_all plain_parameter params"
| "plain_node (NODE_INDEX array index) = False"
| "plain_node (NODE_SLICE array start stop) = False"
| "plain_node (NODE_SWITCH x cases default_case) = False"
| "plain_node (NODE_MEMBER_ACCESS object member) = False"
| "plain_node (NODE_MEMBER_SET object member x) = False"
| "plain_node (NODE_SPREAD child) = False"
| "plain_node (NODE_DESTRUCTURING_ASSIGNMENT is_constant targets x) = False"
| "plain_node (NODE_TRY_CATCH try_body catch_var catch_body) = False"
| "plain_node (NODE_THROW x) = False"
| "plain_node (NODE_YIELD x) = False"
| "plain_node (NODE_GENERATOR_FUNCTION name params body) = False"
| "plain_node (NODE_CLASS_DEF name constructor methods static_methods) = False"
| "plain_node (NODE_METHOD name params body) = False"
| "plain_node (NODE_FIELD_DECL name initializer) = False"
| "plain_node (NODE_NEW name args) = False"
| "plain_node (NODE_SUPER member args) = False"
| "plain_node (NODE_INSTANCEOF object name class_expr) = False"
| "plain_node d = True"

function (sequential)
  plain_tree :: "exprtk_node option \<Rightarrow> bool" and plain_trees :: "exprtk_node option list \<Rightarrow> bool"
  where
  "plain_tree None = True"
| "plain_tree (Some (Node line column d)) = (plain_node d \<and> plain_trees (node_children d))"
| "plain_trees [] = True"
| "plain_trees (x # xs) = (plain_tree x \<and> plain_trees xs)"
  by pat_completeness auto

termination
  by (relation "measures
       [\<lambda>x. case x of Inl x \<Rightarrow> child_size x | Inr xs \<Rightarrow> (\<Sum>x\<leftarrow>xs. child_size x),
        \<lambda>x. case x of Inl y \<Rightarrow> 0 | Inr xs \<Rightarrow> Suc (length xs)]")
    (auto simp: child_size_simps le_imp_less_Suc [OF node_children_size])

section \<open>The faults on the walk\<close>

text \<open>The part of a tree that the walk reaches, and the faults that lie there.\<close>

definition validated_children :: "node_data \<Rightarrow> exprtk_node option list" where
  "validated_children d =
     (case d of
        NODE_ASSIGNMENT name x \<Rightarrow> [x]
      | NODE_CONSTANT_DECL name x \<Rightarrow> [x]
      | NODE_BINARY_OP op left right \<Rightarrow> [left, right]
      | NODE_FUNCTION_EXPRESSION name params body \<Rightarrow> [body]
      | NODE_FUNCTION_DEFINITION name params body \<Rightarrow> [body]
      | NODE_BLOCK statements \<Rightarrow> statements
      | NODE_IF condition if_branch else_branch \<Rightarrow> [condition, if_branch, else_branch]
      | NODE_WHILE condition body \<Rightarrow> [condition, body]
      | NODE_DO_WHILE body condition \<Rightarrow> [body, condition]
      | NODE_FOR init condition post body \<Rightarrow> [init, condition, post, body]
      | NODE_FOR_IN var collection body \<Rightarrow> [collection, body]
      | NODE_FUNCTION_CALL name args \<Rightarrow> args
      | NODE_MEMBER_CALL object member args \<Rightarrow> object # args
      | NODE_VECTOR elements \<Rightarrow> elements
      | NODE_MAP_LITERAL keys elements \<Rightarrow> elements
      | _ \<Rightarrow> [])"

lemma validated_children_sub: "set (validated_children d) \<subseteq> set (node_children d)"
  by (cases d) (auto simp: validated_children_def node_children_def)

lemma validated_children_size: "(\<Sum>x\<leftarrow>validated_children d. child_size x) \<le> size d"
  by (cases d) (simp_all add: validated_children_def size_option_child size_list_children)

fun parameters :: "node_data \<Rightarrow> exprtk_node option list" where
  "parameters (NODE_FUNCTION_EXPRESSION name params body) = params"
| "parameters (NODE_FUNCTION_DEFINITION name params body) = params"
| "parameters d = []"

fun param_faults :: "bytes set \<Rightarrow> exprtk_node option list \<Rightarrow> (int \<times> int \<times> bytes) list" where
  "param_faults seen [] = []"
| "param_faults seen (Some (Node line column (NODE_VARIABLE (Some n))) # ps) =
     (if n \<in> seen then [(line, column, duplicate_message n)] else []) @ param_faults (insert n seen) ps"
| "param_faults seen (p # ps) = param_faults seen ps"

function (sequential)
  faults :: "(int \<Rightarrow> bool) \<Rightarrow> exprtk_node option \<Rightarrow> (int \<times> int \<times> bytes) list"
  and all_faults :: "(int \<Rightarrow> bool) \<Rightarrow> exprtk_node option list \<Rightarrow> (int \<times> int \<times> bytes) list"
  where
  "faults arith None = []"
| "faults arith (Some (Node line column d)) =
     param_faults {} (parameters d) @ all_faults arith (validated_children d) @
     operator_fault arith line column d"
| "all_faults arith [] = []"
| "all_faults arith (x # xs) = faults arith x @ all_faults arith xs"
  by pat_completeness auto

termination
  by (relation "measures
       [\<lambda>x. case x of Inl (arith, x) \<Rightarrow> child_size x | Inr (arith, xs) \<Rightarrow> (\<Sum>x\<leftarrow>xs. child_size x),
        \<lambda>x. case x of Inl y \<Rightarrow> 0 | Inr (arith, xs) \<Rightarrow> Suc (length xs)]")
    (auto simp: child_size_simps le_imp_less_Suc [OF validated_children_size])

text \<open>
  What the parser provides and the validator relies on: parameters are there and those that are
  variables have names, and the argument of an \<^verbatim>\<open>import\<close> is there with its text.
\<close>

definition param_named :: "exprtk_node option \<Rightarrow> bool" where
  "param_named p = (case p of None \<Rightarrow> False | Some n \<Rightarrow> node_data n \<noteq> NODE_VARIABLE None)"

fun import_named :: "node_data \<Rightarrow> bool" where
  "import_named (NODE_FUNCTION_CALL name [x]) =
     (name \<noteq> Some ''import'' \<or>
      (case x of
         None \<Rightarrow> False
       | Some n \<Rightarrow> (case node_data n of NODE_STRING v \<Rightarrow> \<not> buf_broken v | _ \<Rightarrow> True)))"
| "import_named d = True"

function (sequential)
  tree_named :: "exprtk_node option \<Rightarrow> bool" and trees_named :: "exprtk_node option list \<Rightarrow> bool"
  where
  "tree_named None = True"
| "tree_named (Some (Node line column d)) =
     (list_all param_named (parameters d) \<and> import_named d \<and> trees_named (node_children d))"
| "trees_named [] = True"
| "trees_named (x # xs) = (tree_named x \<and> trees_named xs)"
  by pat_completeness auto

termination
  by (relation "measures
       [\<lambda>x. case x of Inl x \<Rightarrow> child_size x | Inr xs \<Rightarrow> (\<Sum>x\<leftarrow>xs. child_size x),
        \<lambda>x. case x of Inl y \<Rightarrow> 0 | Inr xs \<Rightarrow> Suc (length xs)]")
    (auto simp: child_size_simps le_imp_less_Suc [OF node_children_size])

section \<open>The walk finds the first fault\<close>

text \<open>The effect of a walk past a list of faults: the first one is reported, unless one was before.\<close>

definition noted :: "(int \<times> int \<times> bytes) list \<Rightarrow> validate_ctx \<Rightarrow> validate_ctx \<Rightarrow> bool" where
  "noted fs c c' \<longleftrightarrow>
     vc_heap c' = vc_heap c \<and>
     (vc_error c', vc_error_msg c') =
       (if vc_error c \<or> fs = [] then (vc_error c, vc_error_msg c) else (True, fault_text (hd fs)))"

lemma noted_append: "noted fs c c1 \<Longrightarrow> noted gs c1 c2 \<Longrightarrow> noted (fs @ gs) c c2"
  by (auto simp: noted_def split: if_splits)

lemma noted_refl [simp]: "noted [] c c"
  by (simp add: noted_def)

lemma noted_after_error: "vc_error c \<Longrightarrow> noted fs c c"
  by (simp add: noted_def)

lemma noted_trans: "noted [] c c1 \<Longrightarrow> noted fs c1 c2 \<Longrightarrow> noted fs c c2"
  using noted_append [of "[]" c c1 fs c2] by simp

lemma noted_then: "noted fs c c1 \<Longrightarrow> noted [] c1 c2 \<Longrightarrow> noted fs c c2"
  using noted_append [of fs c c1 "[]" c2] by simp

lemma noted_heap: "noted fs c c' \<Longrightarrow> vc_heap c' = vc_heap c"
  by (simp add: noted_def)

lemma report_noted: "noted [(line, column, msg)] c (report_error c line column msg)"
  by (simp add: noted_def report_error_def)

text \<open>With memory the operations on scopes do what they are for.\<close>

lemma push_ok:
  "never_fails (vc_heap c) \<Longrightarrow> scope_push c = c\<lparr>vc_scope := \<lparr>vsc_vars = [], vsc_cap = 0\<rparr> # vc_scope c\<rparr>"
  by (simp add: scope_push_def alloc_plenty)

lemma push_noted: "never_fails (vc_heap c) \<Longrightarrow> noted [] c (scope_push c)"
  by (simp add: push_ok noted_def)

lemma pop_noted: "noted [] c (scope_pop c)"
  by (simp add: scope_pop_def noted_def)

lemma append_ok:
  "never_fails h \<Longrightarrow> scope_append h s n = (s\<lparr>vsc_vars := vsc_vars s @ [Some n]\<rparr>, h)"
  by (simp add: scope_append_def safe_strdup_def alloc_plenty)

lemma add_noted: "never_fails (vc_heap c) \<Longrightarrow> noted [] c (scope_add c name)"
  by (auto simp: scope_add_def append_ok alloc_plenty noted_def split: list.split option.split)

lemma add_names_noted: "never_fails (vc_heap c) \<Longrightarrow> noted [] c (fold (\<lambda>n c. scope_add c (Some n)) ns c)"
proof (induction ns arbitrary: c)
  case (Cons n ns)
  have "noted [] c (scope_add c (Some n))" using Cons.prems by (rule add_noted)
  moreover from this have "never_fails (vc_heap (scope_add c (Some n)))"
    using Cons.prems by (simp add: noted_heap)
  ultimately show ?case using Cons.IH noted_trans by simp
qed simp

lemma import_noted:
  assumes "never_fails (vc_heap c)" "import_named (NODE_FUNCTION_CALL name args)"
  shows "\<exists>c'. import_names name args c = Some c' \<and> noted [] c c'"
proof -
  have "noted [] c (fold (\<lambda>n c. scope_add c (Some n)) ns (scope_add c (Some n)))" for ns n
    using add_names_noted [of c "n # ns"] assms(1) by simp
  with assms(2) show ?thesis
    by (auto simp: import_names_def split: list.splits option.splits exprtk_node.splits node_data.splits)
qed

text \<open>The top scope holds the names of the parameters seen so far.\<close>

definition top_names :: "bytes set \<Rightarrow> validate_ctx \<Rightarrow> bool" where
  "top_names seen c \<longleftrightarrow> (\<exists>s rest. vc_scope c = s # rest \<and> set (vsc_vars s) = Some ` seen)"

lemma repeats_ok: "set vs = Some ` seen \<Longrightarrow> repeats vs (Some n) = Some (n \<in> seen)"
proof -
  have "None \<notin> set vs \<Longrightarrow> repeats vs (Some n) = Some (Some n \<in> set vs)"
  proof (induction vs)
    case (Cons v vs) then show ?case by (cases v) auto
  qed simp
  then show "set vs = Some ` seen \<Longrightarrow> ?thesis" by auto
qed

lemma report_scope [simp]: "vc_scope (report_error c line column msg) = vc_scope c"
  and report_heap [simp]: "vc_heap (report_error c line column msg) = vc_heap c"
  by (simp_all add: report_error_def)

lemma add_top:
  "top_names seen c \<Longrightarrow> never_fails (vc_heap c) \<Longrightarrow> top_names (insert n seen) (scope_add c (Some n))"
  by (auto simp: top_names_def scope_add_def append_ok alloc_plenty insert_absorb)

lemma check_params_noted:
  assumes "never_fails (vc_heap c)" "list_all param_named ps" "top_names seen c"
  shows "\<exists>c'. check_params ps c = Some c' \<and> noted (param_faults seen ps) c c'"
  using assms
proof (induction seen ps arbitrary: c rule: param_faults.induct)
  case (2 seen line column n ps)
  define c1 where "c1 = (if n \<in> seen then report_error c line column (duplicate_message n) else c)"
  define c2 where "c2 = scope_add c1 (Some n)"
  have top: "top_names seen c1" using "2.prems"(3) by (simp add: c1_def top_names_def)
  have nf: "never_fails (vc_heap c1)" using "2.prems"(1) by (simp add: c1_def)
  have step: "check_param (Some (Node line column (NODE_VARIABLE (Some n)))) c = Some c2"
    using "2.prems"(3) by (auto simp: check_param_def top_names_def repeats_ok c1_def c2_def)
  have "noted (if n \<in> seen then [(line, column, duplicate_message n)] else []) c c1"
    by (simp add: c1_def report_noted)
  then have "noted (if n \<in> seen then [(line, column, duplicate_message n)] else []) c c2"
    unfolding c2_def by (rule noted_then) (rule add_noted [OF nf])
  moreover have "\<exists>c'. check_params ps c2 = Some c' \<and> noted (param_faults (insert n seen) ps) c2 c'"
    using "2.IH" [of c2] "2.prems"(2) add_top [OF top nf, of n] noted_heap [OF add_noted [OF nf, of "Some n"]] nf
    by (simp add: c2_def)
  ultimately obtain c' where "check_params ps c2 = Some c'"
      "noted ((if n \<in> seen then [(line, column, duplicate_message n)] else []) @ param_faults (insert n seen) ps) c c'"
    using noted_append by blast
  then show ?case by (simp add: step)
qed (auto simp: check_param_def param_named_def)

lemma params_noted:
  assumes "never_fails (vc_heap c)" "list_all param_named ps"
  shows "\<exists>c'. check_params ps (scope_push c) = Some c' \<and> noted (param_faults {} ps) c c'"
proof -
  have "top_names {} (scope_push c)" "never_fails (vc_heap (scope_push c))"
    using assms(1) by (simp_all add: push_ok top_names_def)
  with check_params_noted assms(2) noted_trans push_noted [OF assms(1)] show ?thesis by meson
qed

text \<open>The parts of a walk put together; each part keeps the memory it was given.\<close>

definition walks :: "(validate_ctx \<Rightarrow> validate_ctx option) \<Rightarrow> (int \<times> int \<times> bytes) list \<Rightarrow> bool" where
  "walks f fs \<longleftrightarrow> (\<forall>c. never_fails (vc_heap c) \<longrightarrow> (\<exists>c'. f c = Some c' \<and> noted fs c c'))"

lemma walks_seq:
  assumes "walks f fs" "walks g gs"
  shows "walks (\<lambda>c. case f c of None \<Rightarrow> None | Some c1 \<Rightarrow> g c1) (fs @ gs)"
  unfolding walks_def
proof (intro allI impI)
  fix c :: validate_ctx
  assume nf: "never_fails (vc_heap c)"
  with assms(1) obtain c1 where 1: "f c = Some c1" "noted fs c c1" by (auto simp: walks_def)
  with nf have "never_fails (vc_heap c1)" by (simp add: noted_heap)
  with assms(2) obtain c2 where "g c1 = Some c2" "noted gs c1 c2" by (auto simp: walks_def)
  with 1 noted_append show "\<exists>c'. (case f c of None \<Rightarrow> None | Some c1 \<Rightarrow> g c1) = Some c' \<and> noted (fs @ gs) c c'"
    by auto
qed

lemma walks_quiet: "(\<And>c. never_fails (vc_heap c) \<Longrightarrow> noted [] c (q c)) \<Longrightarrow> walks (\<lambda>c. Some (q c)) []"
  by (simp add: walks_def)

lemma walks_then:
  assumes "walks f fs" "\<And>c. never_fails (vc_heap c) \<Longrightarrow> noted gs c (q c)"
  shows "walks (\<lambda>c. case f c of None \<Rightarrow> None | Some c1 \<Rightarrow> Some (q c1)) (fs @ gs)"
  using walks_seq [OF assms(1), of "\<lambda>c. Some (q c)" gs] assms(2) by (simp add: walks_def)

lemma walks_after:
  assumes "\<And>c. never_fails (vc_heap c) \<Longrightarrow> noted [] c (q c)" "walks f fs"
  shows "walks (\<lambda>c. f (q c)) fs"
  using walks_seq [OF walks_quiet [of q] assms(2)] assms(1) by simp

lemma walks_nodes:
  assumes "\<And>x. x \<in> set xs \<Longrightarrow> walks (validate_node arith x) (faults arith x)"
  shows "walks (validate_nodes arith xs) (all_faults arith xs)"
  using assms
proof (induction xs)
  case Nil then show ?case by (simp add: walks_def)
next
  case (Cons x xs)
  have "validate_nodes arith (x # xs) =
      (\<lambda>c. case validate_node arith x c of None \<Rightarrow> None | Some c1 \<Rightarrow> validate_nodes arith xs c1)"
    by (simp add: fun_eq_iff)
  then show ?case using walks_seq [of "validate_node arith x" "faults arith x"] Cons by simp
qed

lemma walks_function:
  assumes "list_all param_named params" "walks (validate_node arith body) fs"
  shows "walks (\<lambda>c. case check_params params (scope_push c) of
                      None \<Rightarrow> None
                    | Some c1 \<Rightarrow>
                        (case validate_node arith body c1 of
                           None \<Rightarrow> None | Some c2 \<Rightarrow> Some (scope_add (scope_pop c2) name)))
           (param_faults {} params @ fs)"
proof -
  have "walks (\<lambda>c. check_params params (scope_push c)) (param_faults {} params)"
    using params_noted [OF _ assms(1)] by (simp add: walks_def)
  moreover have "noted [] c (scope_add (scope_pop c) name)" if "never_fails (vc_heap c)" for c
    using that by (intro noted_trans [OF pop_noted add_noted]) (simp add: noted_heap [OF pop_noted])
  ultimately show ?thesis using walks_seq [OF _ walks_then [OF assms(2)]] by fastforce
qed

lemma walks_stepI:
  assumes "walks f fs"
    and "\<And>c. \<not> vc_error c \<Longrightarrow> validate_node arith (Some (Node line column d)) c = f c"
    and "fs = faults arith (Some (Node line column d))"
  shows "walks (validate_node arith (Some (Node line column d))) (faults arith (Some (Node line column d)))"
  unfolding walks_def
proof (intro allI impI)
  fix c :: validate_ctx
  assume "never_fails (vc_heap c)"
  with assms show "\<exists>c'. validate_node arith (Some (Node line column d)) c = Some c' \<and>
      noted (faults arith (Some (Node line column d))) c c'"
    by (cases "vc_error c") (auto simp: walks_def validate_node.simps(2) noted_after_error)
qed

lemma walks_member_call:
  assumes "walks (validate_node arith object) (faults arith object)" "walks g gs"
  shows "walks (\<lambda>c. case (if object_is_module c object then Some c else validate_node arith object c) of
                      None \<Rightarrow> None | Some c1 \<Rightarrow> g c1) (faults arith object @ gs)"
proof -
  have "object_is_module c object \<Longrightarrow> faults arith object = []" for c
    by (auto simp: object_is_module_def validated_children_def
        split: option.splits exprtk_node.splits node_data.splits)
  then have "walks (\<lambda>c. if object_is_module c object then Some c else validate_node arith object c)
      (faults arith object)"
    using assms(1) by (auto simp: walks_def)
  then show ?thesis using assms(2) by (rule walks_seq)
qed

lemma walks_node:
  assumes children: "\<And>x. x \<in> set (validated_children d) \<Longrightarrow> walks (validate_node arith x) (faults arith x)"
    and named: "list_all param_named (parameters d)" "import_named d"
  shows "walks (validate_node arith (Some (Node line column d))) (faults arith (Some (Node line column d)))"
proof -
  have all: "walks (validate_nodes arith (validated_children d)) (all_faults arith (validated_children d))"
    using children by (rule walks_nodes)
  note step = validate_node.simps(2) validated_children_def
  show ?thesis
  proof (cases d)
    case (NODE_ASSIGNMENT name x)
    then have sub: "walks (validate_node arith x) (faults arith x)" using children by (simp add: step)
    show ?thesis by (rule walks_stepI [OF walks_then [OF sub add_noted [of _ name]]]) (simp_all add: NODE_ASSIGNMENT step)
  next
    case (NODE_CONSTANT_DECL name x)
    then have sub: "walks (validate_node arith x) (faults arith x)" using children by (simp add: step)
    show ?thesis by (rule walks_stepI [OF walks_then [OF sub add_noted [of _ name]]]) (simp_all add: NODE_CONSTANT_DECL step)
  next
    case (NODE_BINARY_OP op left right)
    have sub: "walks (\<lambda>c. case validate_nodes arith (validated_children d) c of
                       None \<Rightarrow> None
                     | Some c1 \<Rightarrow>
                         Some (if arith op \<and> (is_map_literal left \<or> is_map_literal right)
                               then report_error c1 line column ''Invalid operation on Map type'' else c1))
        (all_faults arith (validated_children d) @ operator_fault arith line column d)"
      using all by (rule walks_then) (auto simp: NODE_BINARY_OP report_noted)
    show ?thesis by (rule walks_stepI [OF sub]) (simp_all add: NODE_BINARY_OP step)
  next
    case (NODE_FUNCTION_EXPRESSION name params body)
    then have sub: "walks (validate_node arith body) (faults arith body)" "list_all param_named params"
      using children named by (simp_all add: step)
    show ?thesis by (rule walks_stepI [OF walks_function [OF sub(2,1), of name]]) (simp_all add: NODE_FUNCTION_EXPRESSION step)
  next
    case (NODE_FUNCTION_DEFINITION name params body)
    then have sub: "walks (validate_node arith body) (faults arith body)" "list_all param_named params"
      using children named by (simp_all add: step)
    show ?thesis by (rule walks_stepI [OF walks_function [OF sub(2,1), of name]]) (simp_all add: NODE_FUNCTION_DEFINITION step)
  next
    case (NODE_FOR init condition post body)
    show ?thesis by (rule walks_stepI [OF walks_after [OF push_noted walks_then [OF all pop_noted]]]) (simp_all add: NODE_FOR step)
  next
    case (NODE_FOR_IN var collection body)
    then have 1: "walks (validate_node arith collection) (faults arith collection)"
      and 2: "walks (validate_node arith body) (faults arith body)" using children by (simp_all add: step)
    show ?thesis by (rule walks_stepI [OF walks_after [OF push_noted
          walks_seq [OF 1 walks_after [OF add_noted [of _ var] walks_then [OF 2 pop_noted]]]]]) (simp_all add: NODE_FOR_IN step)
  next
    case (NODE_FUNCTION_CALL name args)
    then have sub: "walks (import_names name args) []" using named import_noted by (simp add: walks_def)
    show ?thesis by (rule walks_stepI [OF walks_seq [OF all sub]]) (simp_all add: NODE_FUNCTION_CALL step)
  next
    case (NODE_MEMBER_CALL object member args)
    then have sub: "walks (validate_node arith object) (faults arith object)"
      and args: "walks (validate_nodes arith args) (all_faults arith args)"
      using children by (auto simp: step intro: walks_nodes)
    show ?thesis by (rule walks_stepI [OF walks_member_call [OF sub args]]) (simp_all add: NODE_MEMBER_CALL step)
  qed (rule walks_stepI [OF all]; simp add: step)+
qed

lemma walks_tree:
  shows "tree_named x \<Longrightarrow> walks (validate_node arith x) (faults arith x)"
    and "trees_named xs \<Longrightarrow> x' \<in> set xs \<Longrightarrow> walks (validate_node arith x') (faults arith x')"
proof (induction x and xs arbitrary: and x' rule: tree_named_trees_named.induct)
  case 1 then show ?case by (simp add: walks_def)
next
  case (2 line column d)
  then show ?case by (intro walks_node) (use validated_children_sub in auto)
qed auto

text \<open>The faults on the walk are faults of the tree, and in a plain tree they are all of them.\<close>

lemma param_faults_sub: "seen \<subseteq> seen' \<Longrightarrow> set (param_faults seen ps) \<subseteq> set (repeated_names seen' ps)"
proof (induction seen ps arbitrary: seen' rule: param_faults.induct)
  case (2 seen line column n ps)
  from "2.IH" [of "insert n seen'"] "2.prems" show ?case by auto
qed (auto split: option.split exprtk_node.split; blast)+

lemma faults_all: "set (all_faults arith xs) = (\<Union>x \<in> set xs. set (faults arith x))"
  and trees_faults_all: "set (trees_faults arith xs) = (\<Union>x \<in> set xs. set (tree_faults arith x))"
  by (induction xs) auto

lemma parameters_faults: "set (param_faults {} (parameters d)) \<subseteq> set (repeated_names {} (parameter_list d))"
  by (cases d) (simp_all add: param_faults_sub)

lemma walk_faults_real:
  shows "set (faults arith x) \<subseteq> set (tree_faults arith x)"
    and "x' \<in> set xs \<Longrightarrow> set (faults arith x') \<subseteq> set (tree_faults arith x')"
proof (induction arith x and arith xs arbitrary: and x' rule: tree_faults_trees_faults.induct)
  case (2 arith line column d)
  then show ?case
    using parameters_faults [of d] validated_children_sub [of d] by (fastforce simp: faults_all trees_faults_all)
qed auto

lemma plain_param_faults: "list_all plain_parameter ps \<Longrightarrow> param_faults seen ps = repeated_names seen ps"
proof (induction ps arbitrary: seen)
  case (Cons p ps)
  then obtain line column name where "p = Some (Node line column (NODE_VARIABLE name))"
    by (cases p rule: plain_parameter.cases) auto
  with Cons show ?case by (cases name) simp_all
qed simp

lemma plain_children_faults:
  "plain_node d \<Longrightarrow> trees_faults arith (node_children d) = trees_faults arith (validated_children d)"
proof -
  have append: "trees_faults arith (xs @ ys) = trees_faults arith xs @ trees_faults arith ys" for xs ys
    by (induction xs) simp_all
  have params: "list_all plain_parameter ps \<Longrightarrow> trees_faults arith ps = []" for ps
  proof (induction ps)
    case (Cons p ps)
    then show ?case by (cases p rule: plain_parameter.cases) (simp_all add: node_children_def)
  qed simp
  show "plain_node d \<Longrightarrow> ?thesis"
    by (cases d) (simp_all add: node_children_def validated_children_def append params)
qed

lemma plain_faults:
  shows "plain_tree x \<Longrightarrow> faults arith x = tree_faults arith x"
    and "plain_trees xs \<Longrightarrow> x' \<in> set xs \<Longrightarrow> faults arith x' = tree_faults arith x'"
proof (induction x and xs arbitrary: and x' rule: plain_tree_plain_trees.induct)
  case (2 line column d)
  then have plain: "plain_node d" "plain_trees (node_children d)" by simp_all
  have "param_faults {} (parameters d) = repeated_names {} (parameter_list d)"
    using plain(1) by (cases d) (simp_all add: plain_param_faults)
  moreover have "all_faults arith xs = trees_faults arith xs" if "set xs \<subseteq> set (node_children d)" for xs
    using that 2(1) [OF plain(2)] by (induction xs) auto
  ultimately show ?case by (simp add: plain_children_faults [OF plain(1)] validated_children_sub)
qed auto

text \<open>The answer of the validator that reports a fault.\<close>

definition fault_answer :: "bool \<Rightarrow> nat \<Rightarrow> heap \<Rightarrow> int \<times> int \<times> bytes \<Rightarrow> int \<times> bytes option \<times> heap" where
  "fault_answer has_error_msg msg_len h f =
     (1, if has_error_msg \<and> msg_len > 0 then Some (snprintf_s msg_len (fault_text f)) else None, h)"

lemma validation_walk:
  assumes "never_fails h" "tree_named root"
  shows "exprtk_validate arith h root env has_error_msg msg_len =
     Some (case faults arith root of
             [] \<Rightarrow> (0, None, h)
           | f # fs \<Rightarrow> fault_answer has_error_msg msg_len h f)"
proof (cases root)
  case (Some n)
  define c where "c = scope_push \<lparr>vc_error = False, vc_error_msg = [], vc_env = env, vc_scope = [], vc_heap = h\<rparr>"
  have c: "vc_heap c = h" "\<not> vc_error c" using assms(1) by (simp_all add: c_def push_ok)
  with assms walks_tree(1) obtain c' where "validate_node arith root c = Some c'" "noted (faults arith root) c c'"
    by (metis walks_def)
  with c Some assms(1) show ?thesis
    by (cases "faults arith root")
      (simp_all add: exprtk_validate_def fault_answer_def alloc_plenty noted_def scope_pop_def flip: c_def)
qed (simp add: exprtk_validate_def)

text \<open>
  C38: The validator answers for every tree and reports the first fault where it looks.  With memory,
  and for a tree in which parameters and imports have names as the parser makes them, validation
  performs no undefined operation.  It either returns 0 or returns 1 with the position and the text,
  cut to the room of the caller, of a repeated parameter or an arithmetic on a map literal that really
  is in the tree, so a tree without faults is never refused.  In a tree that has none of the nodes that the validator
  does not enter (values of \<^verbatim>\<open>return\<close>, element and member accesses, slices, \<^verbatim>\<open>switch\<close>, spreads,
  destructuring, \<^verbatim>\<open>try\<close>, \<^verbatim>\<open>throw\<close>, generators, classes, defaulted parameters) it returns 0 exactly when
  there is no fault, and reports the first one otherwise.  The environment plays no part.
\<close>

theorem validation_reports_first_fault:
  assumes "never_fails h" "tree_named root"
  shows "\<exists>answer. exprtk_validate arith h root env has_error_msg msg_len = Some answer \<and>
    (answer = (0, None, h) \<or>
     (\<exists>f. f \<in> set (tree_faults arith root) \<and> answer = fault_answer has_error_msg msg_len h f)) \<and>
    (plain_tree root \<longrightarrow>
       answer = (case tree_faults arith root of
                   [] \<Rightarrow> (0, None, h)
                 | f # fs \<Rightarrow> fault_answer has_error_msg msg_len h f))"
proof -
  have "\<exists>f. f \<in> set (tree_faults arith root) \<and> fault_answer has_error_msg msg_len h (hd (faults arith root)) =
      fault_answer has_error_msg msg_len h f" if "faults arith root \<noteq> []"
    using walk_faults_real(1) [of arith root] that by (metis list.set_sel(1) subsetD)
  then show ?thesis
    using plain_faults(1) [of root arith] by (auto simp: validation_walk [OF assms] split: list.split)
qed

text \<open>
  \<^verbatim>\<open>function f(a, b, a) { do { a + {} } while (b) }\<close> at line 3: two faults, of which the parameter's is
  reported; and \<^verbatim>\<open>return {} + 1\<close>, whose fault the validator does not see.
\<close>

definition map_fault :: exprtk_node where
  "map_fault = Node 3 30 (NODE_BINARY_OP 1 (Some (Node 3 30 (NODE_MAP_LITERAL [] []))) (Some (Node 3 33 (NODE_INTEGER 1))))"

definition example_function :: exprtk_node where
  "example_function =
     Node 3 1 (NODE_FUNCTION_DEFINITION (Some ''f'')
       [Some (Node 3 12 (NODE_VARIABLE (Some ''a''))), Some (Node 3 15 (NODE_VARIABLE (Some ''b''))),
        Some (Node 3 18 (NODE_VARIABLE (Some ''a'')))]
       (Some (Node 3 21 (NODE_DO_WHILE (Some map_fault) (Some (Node 3 40 (NODE_VARIABLE (Some ''b''))))))))"

theorem validation_reports_first_fault_witness:
  "exprtk_validate (\<lambda>op. op = 1) plenty (Some example_function) [] True 64 =
     Some (1, Some (''Validation error at line 3, col 18: Duplicate parameter '' @ [CHR 0x27] @ ''a'' @ [CHR 0x27]),
           plenty)"
proof -
  have named: "tree_named (Some example_function)" "plain_tree (Some example_function)"
    by (simp_all add: example_function_def map_fault_def param_named_def node_children_def)
  have f: "tree_faults (\<lambda>op. op = 1) (Some example_function) =
      [(3, 18, duplicate_message ''a''), (3, 30, ''Invalid operation on Map type'')]"
    by (simp add: example_function_def map_fault_def node_children_def is_map_literal_def)
  have msg: "snprintf_s 64 (fault_text (3, 18, duplicate_message ''a'')) =
      ''Validation error at line 3, col 18: Duplicate parameter '' @ [CHR 0x27] @ ''a'' @ [CHR 0x27]"
    by (code_simp)
  show ?thesis
    using validation_reports_first_fault
      [of plenty "Some example_function" "\<lambda>op. op = 1" "[]" True 64] named
    by (simp add: f msg fault_answer_def never_fails_def plenty_def)
qed

lemma returned_fault_missed:
  "tree_faults (\<lambda>op. op = 1) (Some (Node 3 1 (NODE_FLOW 0 (Some map_fault)))) = [(3, 30, ''Invalid operation on Map type'')]"
  "exprtk_validate (\<lambda>op. op = 1) plenty (Some (Node 3 1 (NODE_FLOW 0 (Some map_fault)))) [] True 64 = Some (0, None, plenty)"
  by (simp_all add: map_fault_def node_children_def is_map_literal_def validation_walk validated_children_def
      never_fails_def plenty_def)

end
