(* ===== verification/String_Codecs.thy ===== *)
theory String_Codecs
  imports Exprtk_Value
begin

text \<open>
  The text codecs of the string module (\<^verbatim>\<open>exprtk/src/mod_string.c\<close>): hexadecimal, URL, HTML, JSON
  and CSV encodings and their decoders, and the comparison in constant time.  Each function computes
  the size of its buffer first and writes into it afterwards; a write outside the buffer is an
  outcome of the model, and is shown not to happen.  Decoders undo encoders.
\<close>

section \<open>Buffers\<close>

text \<open>
  A buffer of \<open>cap\<close> bytes is filled from its start; \<open>None\<close> is a write outside it.  The sizes of the buffers
  are computed exactly here and in \<^verbatim>\<open>size_t\<close> by the code; they are named, and shown to be the same for texts
  whose length leaves room for the longest encoding in \<^verbatim>\<open>size_t\<close>.
\<close>

definition put :: "nat \<Rightarrow> bytes \<Rightarrow> bytes \<Rightarrow> bytes option" where
  "put cap out bs = (if length out + length bs \<le> cap then Some (out @ bs) else None)"

fun write_each :: "nat \<Rightarrow> (char \<Rightarrow> bytes) \<Rightarrow> bytes \<Rightarrow> bytes \<Rightarrow> bytes option" where
  "write_each cap f [] out = Some out"
| "write_each cap f (c # cs) out =
     (case put cap out (f c) of None \<Rightarrow> None | Some out' \<Rightarrow> write_each cap f cs out')"

text \<open>
  The frame of the functions: the allocation, the loop (which may give up with the value on the
  left), the final NUL and the view of what was written.
\<close>

definition in_buffer ::
  "heap \<Rightarrow> nat \<Rightarrow> (exprtk_value + bytes) option \<Rightarrow> (exprtk_value \<times> heap) option" where
  "in_buffer h cap written =
     (case alloc h of
        (ok, h') \<Rightarrow>
          if \<not> ok then Some (ENumber 0, h')
          else
            (case written of
               None \<Rightarrow> None
             | Some (Inl v) \<Rightarrow> Some (v, h')
             | Some (Inr out) \<Rightarrow> if length out < cap then Some (EString None (Buf out), h') else None))"

definition mod_copy_string :: "heap \<Rightarrow> bytes \<Rightarrow> exprtk_value \<times> heap" where
  "mod_copy_string h data = (case alloc h of (ok, h') \<Rightarrow> (if ok then EString None (Buf data) else ENumber 0, h'))"

text \<open>The check of the arguments: one string.\<close>

definition string_arg :: "exprtk_value list \<Rightarrow> bytes option" where
  "string_arg args = (case args of [EString p v] \<Rightarrow> Some (buf_elems v) | _ \<Rightarrow> None)"

text \<open>The buffer of the decoders that write no more than they read.\<close>

definition decoded_size :: "bytes \<Rightarrow> nat" where
  "decoded_size s = length s + 1"

section \<open>Hexadecimal\<close>

definition UPPER_HEX :: bytes where "UPPER_HEX = ''0123456789ABCDEF''"
definition LOWER_HEX :: bytes where "LOWER_HEX = ''0123456789abcdef''"

text \<open>\<^verbatim>\<open>hex[c >> 4]\<close> and \<^verbatim>\<open>hex[c & 0x0F]\<close>.\<close>

definition hex_pair :: "bytes \<Rightarrow> char \<Rightarrow> bytes" where
  "hex_pair digits c = [digits ! (of_char c div 16), digits ! (of_char c mod 16)]"

definition mod_hex_value :: "char \<Rightarrow> int" where
  "mod_hex_value c =
     (let n = of_char c in
      if 48 \<le> n \<and> n \<le> 57 then n - 48
      else if 97 \<le> n \<and> n \<le> 102 then n - 97 + 10
      else if 65 \<le> n \<and> n \<le> 70 then n - 65 + 10
      else - 1)"

text \<open>\<^verbatim>\<open>(char)((hi << 4) | lo)\<close> for two hexadecimal digits.\<close>

definition hex_byte :: "int \<Rightarrow> int \<Rightarrow> char" where
  "hex_byte hi lo = char_of (or (push_bit 4 hi) lo)"

definition mod_hex4_value :: "bytes \<Rightarrow> int" where
  "mod_hex4_value data =
     (let a = mod_hex_value (data ! 0); b = mod_hex_value (data ! 1);
          c = mod_hex_value (data ! 2); d = mod_hex_value (data ! 3) in
      if a < 0 \<or> b < 0 \<or> c < 0 \<or> d < 0 then - 1
      else or (or (or (push_bit 12 a) (push_bit 8 b)) (push_bit 4 c)) d)"

definition hex_encoded_size :: "bytes \<Rightarrow> nat" where
  "hex_encoded_size s = length s * 2 + 1"

definition fn_hex_encode :: "heap \<Rightarrow> exprtk_value list \<Rightarrow> (exprtk_value \<times> heap) option" where
  "fn_hex_encode h args =
     (case string_arg args of
        None \<Rightarrow> Some (ENumber 0, h)
      | Some s \<Rightarrow>
          let cap = hex_encoded_size s in
          in_buffer h cap (map_option Inr (write_each cap (hex_pair LOWER_HEX) s [])))"

fun hex_decode_loop :: "nat \<Rightarrow> bytes \<Rightarrow> bytes \<Rightarrow> (exprtk_value + bytes) option" where
  "hex_decode_loop cap (a # b # s) out =
     (let hi = mod_hex_value a; lo = mod_hex_value b in
      if hi < 0 \<or> lo < 0 then Some (Inl (ENumber 0))
      else (case put cap out [hex_byte hi lo] of None \<Rightarrow> None | Some out' \<Rightarrow> hex_decode_loop cap s out'))"
| "hex_decode_loop cap s out = Some (Inr out)"

definition hex_decoded_size :: "bytes \<Rightarrow> nat" where
  "hex_decoded_size s = length s div 2 + 1"

definition fn_hex_decode :: "heap \<Rightarrow> exprtk_value list \<Rightarrow> (exprtk_value \<times> heap) option" where
  "fn_hex_decode h args =
     (case string_arg args of
        None \<Rightarrow> Some (ENumber 0, h)
      | Some s \<Rightarrow>
          if length s mod 2 \<noteq> 0 then Some (ENumber 0, h)
          else let cap = hex_decoded_size s in in_buffer h cap (hex_decode_loop cap s []))"

section \<open>URL\<close>

text \<open>\<^verbatim>\<open>isalnum\<close> is that of the C locale.\<close>

definition mod_is_ascii_alnum :: "char \<Rightarrow> bool" where
  "mod_is_ascii_alnum c =
     (let n = of_char c :: nat in (48 \<le> n \<and> n \<le> 57) \<or> (65 \<le> n \<and> n \<le> 90) \<or> (97 \<le> n \<and> n \<le> 122))"

definition mod_is_unreserved_url_char :: "char \<Rightarrow> bool" where
  "mod_is_unreserved_url_char c =
     (mod_is_ascii_alnum c \<or> c = CHR ''-'' \<or> c = CHR ''_'' \<or> c = CHR ''.'' \<or> c = CHR ''~'')"

definition url_width :: "char \<Rightarrow> nat" where
  "url_width c = (if mod_is_unreserved_url_char c then 1 else 3)"

definition url_text :: "char \<Rightarrow> bytes" where
  "url_text c = (if mod_is_unreserved_url_char c then [c] else CHR ''%'' # hex_pair UPPER_HEX c)"

definition url_encoded_size :: "bytes \<Rightarrow> nat" where
  "url_encoded_size s = (\<Sum>c\<leftarrow>s. url_width c) + 1"

definition fn_url_encode :: "heap \<Rightarrow> exprtk_value list \<Rightarrow> (exprtk_value \<times> heap) option" where
  "fn_url_encode h args =
     (case string_arg args of
        None \<Rightarrow> Some (ENumber 0, h)
      | Some s \<Rightarrow>
          let cap = url_encoded_size s in
          in_buffer h cap (map_option Inr (write_each cap url_text s [])))"

definition url_plain :: "char \<Rightarrow> char" where
  "url_plain c = (if c = CHR ''+'' then CHR '' '' else c)"

fun url_decode_loop :: "nat \<Rightarrow> bytes \<Rightarrow> bytes \<Rightarrow> bytes option" where
  "url_decode_loop cap [] out = Some out"
| "url_decode_loop cap (c # a # b # s) out =
     (if c = CHR ''%'' \<and> mod_hex_value a \<ge> 0 \<and> mod_hex_value b \<ge> 0
      then (case put cap out [hex_byte (mod_hex_value a) (mod_hex_value b)] of
              None \<Rightarrow> None | Some out' \<Rightarrow> url_decode_loop cap s out')
      else (case put cap out [url_plain c] of
              None \<Rightarrow> None | Some out' \<Rightarrow> url_decode_loop cap (a # b # s) out'))"
| "url_decode_loop cap (c # s) out =
     (case put cap out [url_plain c] of None \<Rightarrow> None | Some out' \<Rightarrow> url_decode_loop cap s out')"

definition fn_url_decode :: "heap \<Rightarrow> exprtk_value list \<Rightarrow> (exprtk_value \<times> heap) option" where
  "fn_url_decode h args =
     (case string_arg args of
        None \<Rightarrow> Some (ENumber 0, h)
      | Some s \<Rightarrow> let cap = decoded_size s in in_buffer h cap (map_option Inr (url_decode_loop cap s [])))"

section \<open>HTML\<close>

definition html_width :: "char \<Rightarrow> nat" where
  "html_width c =
     (if c = CHR ''&'' then 5 else if c = CHR ''<'' \<or> c = CHR ''>'' then 4
      else if c = CHR 0x22 then 6 else if c = CHR 0x27 then 5 else 1)"

definition html_text :: "char \<Rightarrow> bytes" where
  "html_text c =
     (if c = CHR ''&'' then ''&amp;'' else if c = CHR ''<'' then ''&lt;''
      else if c = CHR ''>'' then ''&gt;'' else if c = CHR 0x22 then ''&quot;''
      else if c = CHR 0x27 then ''&#39;'' else [c])"

definition html_escaped_size :: "bytes \<Rightarrow> nat" where
  "html_escaped_size s = (\<Sum>c\<leftarrow>s. html_width c) + 1"

definition fn_html_escape :: "heap \<Rightarrow> exprtk_value list \<Rightarrow> (exprtk_value \<times> heap) option" where
  "fn_html_escape h args =
     (case string_arg args of
        None \<Rightarrow> Some (ENumber 0, h)
      | Some s \<Rightarrow>
          let cap = html_escaped_size s in
          in_buffer h cap (map_option Inr (write_each cap html_text s [])))"

text \<open>The entity at the head of the text: the character and the bytes consumed after the first.\<close>

definition html_entity :: "bytes \<Rightarrow> (char \<times> nat) option" where
  "html_entity s =
     (if take 5 s = ''&amp;'' then Some (CHR ''&'', 4)
      else if take 4 s = ''&lt;'' then Some (CHR ''<'', 3)
      else if take 4 s = ''&gt;'' then Some (CHR ''>'', 3)
      else if take 6 s = ''&quot;'' then Some (CHR 0x22, 5)
      else if take 6 s = ''&apos;'' then Some (CHR 0x27, 5)
      else if take 5 s = ''&#39;'' then Some (CHR 0x27, 4)
      else None)"

function html_unescape_loop :: "nat \<Rightarrow> bytes \<Rightarrow> bytes \<Rightarrow> bytes option" where
  "html_unescape_loop cap [] out = Some out"
| "html_unescape_loop cap (c # s) out =
     (case html_entity (c # s) of
        Some (d, n) \<Rightarrow>
          (case put cap out [d] of None \<Rightarrow> None | Some out' \<Rightarrow> html_unescape_loop cap (drop n s) out')
      | None \<Rightarrow> (case put cap out [c] of None \<Rightarrow> None | Some out' \<Rightarrow> html_unescape_loop cap s out'))"
  by pat_completeness auto

termination by (relation "measure (\<lambda>(cap, s, out). length s)") auto

definition fn_html_unescape :: "heap \<Rightarrow> exprtk_value list \<Rightarrow> (exprtk_value \<times> heap) option" where
  "fn_html_unescape h args =
     (case string_arg args of
        None \<Rightarrow> Some (ENumber 0, h)
      | Some s \<Rightarrow> let cap = decoded_size s in in_buffer h cap (map_option Inr (html_unescape_loop cap s [])))"

section \<open>JSON\<close>

definition json_short :: "char \<Rightarrow> char option" where
  "json_short c =
     (if c = CHR 0x22 then Some (CHR 0x22) else if c = CHR 0x5C then Some (CHR 0x5C)
      else if c = CHR 0x08 then Some (CHR ''b'') else if c = CHR 0x0C then Some (CHR ''f'')
      else if c = CHR 0x0A then Some (CHR ''n'') else if c = CHR 0x0D then Some (CHR ''r'')
      else if c = CHR 0x09 then Some (CHR ''t'') else None)"

definition json_width :: "char \<Rightarrow> nat" where
  "json_width c = (if json_short c \<noteq> None then 2 else if of_char c < (0x20 :: nat) then 6 else 1)"

definition json_text :: "char \<Rightarrow> bytes" where
  "json_text c =
     (case json_short c of
        Some e \<Rightarrow> [CHR 0x5C, e]
      | None \<Rightarrow>
          if of_char c < (0x20 :: nat) then [CHR 0x5C, CHR ''u'', CHR ''0'', CHR ''0''] @ hex_pair UPPER_HEX c
          else [c])"

definition json_escaped_size :: "bytes \<Rightarrow> nat" where
  "json_escaped_size s = (\<Sum>c\<leftarrow>s. json_width c) + 1"

definition fn_json_escape :: "heap \<Rightarrow> exprtk_value list \<Rightarrow> (exprtk_value \<times> heap) option" where
  "fn_json_escape h args =
     (case string_arg args of
        None \<Rightarrow> Some (ENumber 0, h)
      | Some s \<Rightarrow>
          let cap = json_escaped_size s in
          in_buffer h cap (map_option Inr (write_each cap json_text s [])))"

text \<open>
  \<open>utf8\<close> is \<^verbatim>\<open>tstr_utf8_from_cp\<close> of the Salts library, \<open>None\<close> its null result.  A write of length 0 is the
  failure of \<^verbatim>\<open>mod_utf8_write_codepoint\<close>.
\<close>

definition mod_utf8_write_codepoint :: "(int \<Rightarrow> bytes option) \<Rightarrow> nat \<Rightarrow> int \<Rightarrow> bytes" where
  "mod_utf8_write_codepoint utf8 cap cp =
     (case utf8 cp of None \<Rightarrow> [] | Some bs \<Rightarrow> if length bs > cap then [] else bs)"

text \<open>The text after \<^verbatim>\<open>\u\<close>: the code point, also from a surrogate pair, and what follows.\<close>

definition json_codepoint :: "bytes \<Rightarrow> (int \<times> bytes) option" where
  "json_codepoint s =
     (if length s < 4 \<or> mod_hex4_value s < 0 then None
      else
        let cp = mod_hex4_value s; r = drop 4 s; low = mod_hex4_value (drop 2 r) in
        if 0xD800 \<le> cp \<and> cp \<le> 0xDBFF \<and> length r \<ge> 6 \<and> take 2 r = [CHR 0x5C, CHR ''u''] \<and>
           0xDC00 \<le> low \<and> low \<le> 0xDFFF
        then Some (0x10000 + push_bit 10 (cp - 0xD800) + (low - 0xDC00), drop 6 r)
        else Some (cp, r))"

definition json_unescaped :: "char \<Rightarrow> char" where
  "json_unescaped e =
     (if e = CHR ''b'' then CHR 0x08 else if e = CHR ''f'' then CHR 0x0C else if e = CHR ''n'' then CHR 0x0A
      else if e = CHR ''r'' then CHR 0x0D else if e = CHR ''t'' then CHR 0x09 else e)"

lemma json_codepoint_shorter: "json_codepoint s = Some (cp, r) \<Longrightarrow> length r + 4 \<le> length s"
  by (auto simp: json_codepoint_def Let_def split: if_splits)

function json_unescape_loop ::
  "(int \<Rightarrow> bytes option) \<Rightarrow> nat \<Rightarrow> bytes \<Rightarrow> bytes \<Rightarrow> (exprtk_value + bytes) option" where
  "json_unescape_loop utf8 cap [] out = Some (Inr out)"
| "json_unescape_loop utf8 cap (c # s) out =
     (if c \<noteq> CHR 0x5C \<or> s = []
      then (case put cap out [c] of None \<Rightarrow> None | Some out' \<Rightarrow> json_unescape_loop utf8 cap s out')
      else if hd s \<noteq> CHR ''u''
      then (case put cap out [json_unescaped (hd s)] of
              None \<Rightarrow> None | Some out' \<Rightarrow> json_unescape_loop utf8 cap (tl s) out')
      else
        (case json_codepoint (tl s) of
           None \<Rightarrow>
             (case put cap out [CHR 0x5C, CHR ''u''] of
                None \<Rightarrow> None | Some out' \<Rightarrow> json_unescape_loop utf8 cap (tl s) out')
         | Some (cp, r) \<Rightarrow>
             let bs = mod_utf8_write_codepoint utf8 (cap - length out) cp in
             if bs = [] then Some (Inl (ENumber 0))
             else (case put cap out bs of None \<Rightarrow> None | Some out' \<Rightarrow> json_unescape_loop utf8 cap r out')))"
  by pat_completeness auto

termination
  by (relation "measure (\<lambda>(utf8, cap, s, out). length s)")
    (auto dest: json_codepoint_shorter simp: less_Suc_eq_le length_tl)

definition fn_json_unescape ::
  "(int \<Rightarrow> bytes option) \<Rightarrow> heap \<Rightarrow> exprtk_value list \<Rightarrow> (exprtk_value \<times> heap) option" where
  "fn_json_unescape utf8 h args =
     (case string_arg args of
        None \<Rightarrow> Some (ENumber 0, h)
      | Some s \<Rightarrow> let cap = decoded_size s in in_buffer h cap (json_unescape_loop utf8 cap s []))"

section \<open>CSV\<close>

definition csv_special :: "char \<Rightarrow> bool" where
  "csv_special c \<longleftrightarrow> c = CHR 0x22 \<or> c = CHR '','' \<or> c = CHR 0x0A \<or> c = CHR 0x0D"

definition csv_quoted :: "char \<Rightarrow> bytes" where
  "csv_quoted c = (if c = CHR 0x22 then [CHR 0x22, c] else [c])"

definition quote_count :: "bytes \<Rightarrow> nat" where
  "quote_count s = length (filter (\<lambda>c. c = CHR 0x22) s)"

text \<open>The cell between quotes, from \<open>out\<close> on.\<close>

definition csv_write_quoted :: "nat \<Rightarrow> bytes \<Rightarrow> bytes \<Rightarrow> bytes option" where
  "csv_write_quoted cap s out =
     (case put cap out [CHR 0x22] of
        None \<Rightarrow> None
      | Some out1 \<Rightarrow>
          (case write_each cap csv_quoted s out1 of
             None \<Rightarrow> None | Some out2 \<Rightarrow> put cap out2 [CHR 0x22]))"

definition csv_escaped_size :: "bytes \<Rightarrow> nat" where
  "csv_escaped_size s = length s + quote_count s + 3"

definition fn_csv_escape :: "heap \<Rightarrow> exprtk_value list \<Rightarrow> (exprtk_value \<times> heap) option" where
  "fn_csv_escape h args =
     (case string_arg args of
        None \<Rightarrow> Some (ENumber 0, h)
      | Some s \<Rightarrow>
          if \<not> list_ex csv_special s then Some (mod_copy_string h s)
          else let cap = csv_escaped_size s in
               in_buffer h cap (map_option Inr (csv_write_quoted cap s [])))"

fun csv_unescape_loop :: "nat \<Rightarrow> bytes \<Rightarrow> bytes \<Rightarrow> bytes option" where
  "csv_unescape_loop cap [] out = Some out"
| "csv_unescape_loop cap [c] out = put cap out [c]"
| "csv_unescape_loop cap (c # d # s) out =
     (if c = CHR 0x22 \<and> d = CHR 0x22
      then (case put cap out [d] of None \<Rightarrow> None | Some out' \<Rightarrow> csv_unescape_loop cap s out')
      else (case put cap out [c] of None \<Rightarrow> None | Some out' \<Rightarrow> csv_unescape_loop cap (d # s) out'))"

definition fn_csv_unescape :: "heap \<Rightarrow> exprtk_value list \<Rightarrow> (exprtk_value \<times> heap) option" where
  "fn_csv_unescape h args =
     (case string_arg args of
        None \<Rightarrow> Some (ENumber 0, h)
      | Some s \<Rightarrow>
          if length s < 2 \<or> hd s \<noteq> CHR 0x22 \<or> last s \<noteq> CHR 0x22 then Some (mod_copy_string h s)
          else let cap = length s - 1 in
               in_buffer h cap (map_option Inr (csv_unescape_loop cap (butlast (tl s)) [])))"

text \<open>Lines.  A string that cannot be copied ends the function; a failed push loses the cell.\<close>

definition mod_list_append_string ::
  "order \<Rightarrow> heap \<Rightarrow> exprtk_value \<Rightarrow> bytes \<Rightarrow> exprtk_value option \<times> heap" where
  "mod_list_append_string order h list data =
     (case mod_copy_string h data of
        (EString p v, h1) \<Rightarrow>
          (case exprtk_list_push order h1 list (EString p v) of (r, list', h2) \<Rightarrow> (Some list', h2))
      | (_, h1) \<Rightarrow> (None, h1))"

text \<open>
  The loop of \<^verbatim>\<open>fn_csv_split_line\<close>; the turn after the last byte reads a comma, which ends the cell or, in an
  unfinished quotation, is written to the cell.
\<close>

fun csv_split_loop ::
  "order \<Rightarrow> nat \<Rightarrow> bytes \<Rightarrow> bytes \<Rightarrow> bool \<Rightarrow> exprtk_value \<Rightarrow> heap \<Rightarrow> (exprtk_value \<times> heap) option" where
  "csv_split_loop order cap [] cell quoted list h =
     (if quoted
      then (case put cap cell [CHR '','' ] of None \<Rightarrow> None | Some cell' \<Rightarrow> Some (list, h))
      else (case mod_list_append_string order h list cell of
              (None, h') \<Rightarrow> Some (ENumber 0, h')
            | (Some list', h') \<Rightarrow> Some (list', h')))"
| "csv_split_loop order cap (c # s) cell quoted list h =
     (if quoted then
        if c = CHR 0x22 \<and> (case s of [] \<Rightarrow> False | d # _ \<Rightarrow> d = CHR 0x22)
        then (case put cap cell [CHR 0x22] of
                None \<Rightarrow> None
              | Some cell' \<Rightarrow> (case s of [] \<Rightarrow> None | d # s' \<Rightarrow> csv_split_loop order cap s' cell' True list h))
        else if c = CHR 0x22 then csv_split_loop order cap s cell False list h
        else (case put cap cell [c] of
                None \<Rightarrow> None | Some cell' \<Rightarrow> csv_split_loop order cap s cell' True list h)
      else if c = CHR 0x22 \<and> cell = [] then csv_split_loop order cap s cell True list h
      else if c = CHR '','' then
        (case mod_list_append_string order h list cell of
           (None, h') \<Rightarrow> Some (ENumber 0, h')
         | (Some list', h') \<Rightarrow> csv_split_loop order cap s [] False list' h')
      else (case put cap cell [c] of
              None \<Rightarrow> None | Some cell' \<Rightarrow> csv_split_loop order cap s cell' False list h))"

definition fn_csv_split_line :: "order \<Rightarrow> heap \<Rightarrow> exprtk_value list \<Rightarrow> (exprtk_value \<times> heap) option" where
  "fn_csv_split_line order h args =
     (case string_arg args of
        None \<Rightarrow> Some (ENumber 0, h)
      | Some s \<Rightarrow>
          (case alloc h of
             (ok, h') \<Rightarrow>
               if \<not> ok then Some (ENumber 0, h')
               else csv_split_loop order (decoded_size s) s [] False exprtk_val_list_empty h'))"

definition mod_csv_cell_encoded_len :: "bytes \<Rightarrow> nat" where
  "mod_csv_cell_encoded_len s = (if list_ex csv_special s then length s + quote_count s + 2 else length s)"

definition mod_csv_write_cell :: "nat \<Rightarrow> bytes \<Rightarrow> bytes \<Rightarrow> bytes option" where
  "mod_csv_write_cell cap s out = (if \<not> list_ex csv_special s then put cap out s else csv_write_quoted cap s out)"

text \<open>
  \<open>print_g\<close> is the text of \<^verbatim>\<open>snprintf\<close> for a number with \<^verbatim>\<open>%g\<close>.  Items of other types count and print nothing.
\<close>

fun csv_item_len :: "(exprtk_value \<Rightarrow> bytes) \<Rightarrow> exprtk_value \<Rightarrow> nat" where
  "csv_item_len print_g (EString p v) = mod_csv_cell_encoded_len (buf_elems v)"
| "csv_item_len print_g (EInteger n) = length (print_g (EInteger n))"
| "csv_item_len print_g (ENumber n) = length (print_g (ENumber n))"
| "csv_item_len print_g v = 0"

text \<open>\<^verbatim>\<open>snprintf\<close> keeps the last byte of the room it is told for its NUL.\<close>

fun csv_write_item :: "(exprtk_value \<Rightarrow> bytes) \<Rightarrow> nat \<Rightarrow> exprtk_value \<Rightarrow> bytes \<Rightarrow> bytes option" where
  "csv_write_item print_g cap (EString p v) out = mod_csv_write_cell cap (buf_elems v) out"
| "csv_write_item print_g cap (EInteger n) out = put (cap - 1) out (print_g (EInteger n))"
| "csv_write_item print_g cap (ENumber n) out = put (cap - 1) out (print_g (ENumber n))"
| "csv_write_item print_g cap v out = Some out"

fun csv_join_loop :: "(exprtk_value \<Rightarrow> bytes) \<Rightarrow> nat \<Rightarrow> bool \<Rightarrow> exprtk_value list \<Rightarrow> bytes \<Rightarrow> bytes option" where
  "csv_join_loop print_g cap first [] out = Some out"
| "csv_join_loop print_g cap first (x # xs) out =
     (case (if first then Some out else put cap out [CHR '','' ]) of
        None \<Rightarrow> None
      | Some out1 \<Rightarrow>
          (case csv_write_item print_g cap x out1 of
             None \<Rightarrow> None | Some out2 \<Rightarrow> csv_join_loop print_g cap False xs out2))"

definition csv_joined_size :: "(exprtk_value \<Rightarrow> bytes) \<Rightarrow> exprtk_value list \<Rightarrow> nat" where
  "csv_joined_size print_g xs = (length xs - 1) + (\<Sum>x\<leftarrow>xs. csv_item_len print_g x) + 1"

definition fn_csv_join_line ::
  "(exprtk_value \<Rightarrow> bytes) \<Rightarrow> heap \<Rightarrow> exprtk_value list \<Rightarrow> (exprtk_value \<times> heap) option" where
  "fn_csv_join_line print_g h args =
     (case args of
        [ESeq VAL_LIST p items] \<Rightarrow>
          let xs = buf_elems items; size = csv_joined_size print_g xs in
          in_buffer h size (map_option Inr (csv_join_loop print_g size True xs []))
      | _ \<Rightarrow> Some (ENumber 0, h))"

section \<open>Comparison in constant time\<close>

text \<open>The difference of the lengths is cut to 32 bits; the shorter string is continued with NUL bytes.\<close>

definition byte_at :: "bytes \<Rightarrow> nat \<Rightarrow> 32 word" where
  "byte_at s i = (if i < length s then of_nat (of_char (s ! i)) else 0)"

definition fn_constant_time_eq :: "exprtk_value list \<Rightarrow> exprtk_value" where
  "fn_constant_time_eq args =
     (case args of
        [EString p v, EString q w] \<Rightarrow>
          let a = buf_elems v; b = buf_elems w;
              start = (ucast (xor (of_nat (length a) :: size_t) (of_nat (length b))) :: 32 word);
              diff = fold (\<lambda>i d. or d (xor (byte_at a i) (byte_at b i))) [0 ..< max (length a) (length b)] start
          in ENumber (if diff = 0 then 0x3FF0000000000000 else 0)
      | _ \<Rightarrow> ENumber 0)"

section \<open>No write outside a buffer\<close>

lemma put_ok: "length out + length bs \<le> cap \<Longrightarrow> put cap out bs = Some (out @ bs)"
  by (simp add: put_def)

lemma write_each_ok:
  "length out + (\<Sum>c\<leftarrow>s. length (f c)) \<le> cap \<Longrightarrow> write_each cap f s out = Some (out @ concat (map f s))"
  by (induction s arbitrary: out) (simp_all add: put_ok)

text \<open>A loop result that leaves room for the NUL.\<close>

definition fits :: "nat \<Rightarrow> (exprtk_value + bytes) option \<Rightarrow> bool" where
  "fits cap r \<longleftrightarrow> r \<noteq> None \<and> (\<forall>out. r = Some (Inr out) \<longrightarrow> length out < cap)"

lemma fits_in_buffer: "fits cap r \<Longrightarrow> in_buffer h cap r \<noteq> None"
  by (auto simp: fits_def in_buffer_def split: prod.splits option.splits sum.splits)

lemma fits_Inr:
  "fits cap (map_option Inr r) \<longleftrightarrow> (\<exists>out. r = Some out \<and> length out < cap)"
  "fits cap (Some (Inr out)) \<longleftrightarrow> length out < cap"
  by (cases r) (auto simp: fits_def)

lemma in_buffer_plenty:
  "never_fails h \<Longrightarrow> length out < cap \<Longrightarrow> in_buffer h cap (Some (Inr out)) = Some (EString None (Buf out), h)"
  by (simp add: in_buffer_def alloc_plenty)

lemma hex_pair_length [simp]: "length (hex_pair digits c) = 2"
  by (simp add: hex_pair_def)

text \<open>
  The contract of the encoders that replace each character by a text: the width counted in the
  first pass is the length written in the second.
\<close>

locale char_encoding =
  fixes spell :: "char \<Rightarrow> bytes" and width :: "char \<Rightarrow> nat"
  assumes spell_length: "length (spell c) = width c"
    and width_positive: "0 < width c"
begin

lemma encoded_length: "length (concat (map spell s)) = (\<Sum>c\<leftarrow>s. width c)"
  by (induction s) (simp_all add: spell_length)

lemma written: "write_each ((\<Sum>c\<leftarrow>s. width c) + 1) spell s [] = Some (concat (map spell s))"
  by (simp add: write_each_ok spell_length)

lemma not_shorter: "length s \<le> (\<Sum>c\<leftarrow>s. width c)"
proof (induction s)
  case (Cons c s)
  with width_positive [of c] show ?case by simp
qed simp

lemmas encoding = encoded_length written [unfolded One_nat_def add_Suc_right add_0_right]

end

interpretation hex: char_encoding "hex_pair LOWER_HEX" "\<lambda>c. 2"
  by unfold_locales simp_all

interpretation url: char_encoding url_text url_width
  by unfold_locales (simp_all add: url_text_def url_width_def)

interpretation html: char_encoding html_text html_width
  by unfold_locales (simp_all add: html_text_def html_width_def)

interpretation json: char_encoding json_text json_width
  by unfold_locales (simp_all add: json_text_def json_width_def split: option.split)

lemma hex_decode_fits: "2 * length out + length s < 2 * cap \<Longrightarrow> fits cap (hex_decode_loop cap s out)"
  by (induction cap s out rule: hex_decode_loop.induct) (auto simp: put_ok Let_def fits_def)

lemma url_decode_fits:
  "length out + length s < cap \<Longrightarrow> \<exists>out'. url_decode_loop cap s out = Some out' \<and> length out' < cap"
  by (induction cap s out rule: url_decode_loop.induct) (auto simp: put_ok)

lemma html_unescape_fits:
  "length out + length s < cap \<Longrightarrow> \<exists>out'. html_unescape_loop cap s out = Some out' \<and> length out' < cap"
  by (induction cap s out rule: html_unescape_loop.induct) (auto simp: put_ok split: option.split prod.split)

lemma csv_unescape_fits:
  "length out + length s < cap \<Longrightarrow> \<exists>out'. csv_unescape_loop cap s out = Some out' \<and> length out' < cap"
  by (induction cap s out rule: csv_unescape_loop.induct) (auto simp: put_ok)

text \<open>The UTF-8 encoding of a code point has four bytes at most; a code point takes six bytes in JSON.\<close>

definition utf8_short :: "(int \<Rightarrow> bytes option) \<Rightarrow> bool" where
  "utf8_short utf8 \<longleftrightarrow> (\<forall>cp bs. utf8 cp = Some bs \<longrightarrow> length bs \<le> 4)"

lemma write_codepoint_short:
  "utf8_short utf8 \<Longrightarrow> length (mod_utf8_write_codepoint utf8 cap cp) \<le> 4"
  by (auto simp: mod_utf8_write_codepoint_def utf8_short_def split: option.split)

lemma json_unescape_fits:
  assumes "utf8_short utf8" "length out + length s < cap"
  shows "fits cap (json_unescape_loop utf8 cap s out)"
  using assms
proof (induction utf8 cap s out rule: json_unescape_loop.induct)
  case (2 utf8 cap c s out)
  show ?case
  proof (cases "c \<noteq> CHR 0x5C \<or> s = []")
    case True with 2 show ?thesis by (simp add: put_ok)
  next
    case False
    then obtain e r where s: "s = e # r" by (cases s) auto
    have len: "length (mod_utf8_write_codepoint utf8 (cap - length out) cp) \<le> 4" for cp
      using write_codepoint_short "2.prems"(1) .
    show ?thesis
    proof (cases "e = CHR ''u''")
      case True
      show ?thesis
      proof (cases "json_codepoint r")
        case None with 2 False True s show ?thesis by (simp add: put_ok)
      next
        case (Some x)
        then obtain cp r' where x: "json_codepoint r = Some (cp, r')" by (cases x) auto
        with json_codepoint_shorter have "length r' + 4 \<le> length r" by blast
        define bs where "bs = mod_utf8_write_codepoint utf8 (cap - length out) cp"
        from \<open>length r' + 4 \<le> length r\<close> "2.prems"(2) s len [of cp]
        have room: "length (out @ bs) + length r' < cap" by (simp add: bs_def)
        then have put: "put cap out bs = Some (out @ bs)" by (simp add: put_ok)
        have "fits cap (json_unescape_loop utf8 cap r' (out @ bs))" if "bs \<noteq> []"
          using "2.IH"(4) [of "(cp, r')" cp r' bs "out @ bs"] "2.prems"(1) room put False True s x that
          by (simp add: bs_def)
        with put False True s x show ?thesis by (auto simp: Let_def fits_def bs_def)
      qed
    next
      case False': False
      with 2 False s show ?thesis by (simp add: put_ok)
    qed
  qed
qed (simp add: fits_def)

declare csv_split_loop.simps [simp del]

lemma csv_split_fits: "length cell + length s < cap \<Longrightarrow> csv_split_loop order cap s cell quoted list h \<noteq> None"
proof (induction order cap s cell quoted list h rule: csv_split_loop.induct)
  case (1 order cap cell quoted list h)
  then show ?case by (auto simp: csv_split_loop.simps(1) put_ok split: prod.split option.split)
next
  case (2 order cap c s cell quoted list h)
  then show ?case
    by (subst csv_split_loop.simps(2)) (auto simp: put_ok split: prod.split option.split list.split)
qed

definition csv_cell :: "bytes \<Rightarrow> bytes" where
  "csv_cell s = (if list_ex csv_special s then [CHR 0x22] @ concat (map csv_quoted s) @ [CHR 0x22] else s)"

lemma csv_quoted_sum: "(\<Sum>c\<leftarrow>s. length (csv_quoted c)) = length s + quote_count s"
  by (induction s) (auto simp: csv_quoted_def quote_count_def)

lemma csv_cell_length: "length (csv_cell s) = mod_csv_cell_encoded_len s"
  by (simp add: csv_cell_def mod_csv_cell_encoded_len_def length_concat comp_def csv_quoted_sum)

lemma csv_write_quoted_ok:
  assumes "length out + length s + quote_count s + 2 \<le> cap"
  shows "csv_write_quoted cap s out = Some (out @ [CHR 0x22] @ concat (map csv_quoted s) @ [CHR 0x22])"
  using assms
  by (simp add: csv_write_quoted_def put_ok write_each_ok csv_quoted_sum length_concat comp_def)

lemma csv_write_cell_ok:
  "length out + mod_csv_cell_encoded_len s \<le> cap \<Longrightarrow> mod_csv_write_cell cap s out = Some (out @ csv_cell s)"
  by (auto simp: mod_csv_write_cell_def mod_csv_cell_encoded_len_def csv_cell_def csv_write_quoted_ok put_ok)

text \<open>The text of one item and of a line.\<close>

fun csv_item :: "(exprtk_value \<Rightarrow> bytes) \<Rightarrow> exprtk_value \<Rightarrow> bytes" where
  "csv_item print_g (EString p v) = csv_cell (buf_elems v)"
| "csv_item print_g (EInteger n) = print_g (EInteger n)"
| "csv_item print_g (ENumber n) = print_g (ENumber n)"
| "csv_item print_g v = []"

fun csv_tail :: "(exprtk_value \<Rightarrow> bytes) \<Rightarrow> exprtk_value list \<Rightarrow> bytes" where
  "csv_tail print_g [] = []"
| "csv_tail print_g (x # xs) = [CHR '',''] @ csv_item print_g x @ csv_tail print_g xs"

lemma csv_item_length: "length (csv_item print_g x) = csv_item_len print_g x"
  by (cases x) (simp_all add: csv_cell_length)

lemma csv_write_item_ok:
  "length out + csv_item_len print_g x < cap \<Longrightarrow> csv_write_item print_g cap x out = Some (out @ csv_item print_g x)"
  by (cases x) (simp_all add: csv_write_cell_ok put_ok)

lemma csv_join_tail:
  "length out + length (csv_tail print_g xs) < cap \<Longrightarrow>
   csv_join_loop print_g cap False xs out = Some (out @ csv_tail print_g xs)"
proof (induction xs arbitrary: out)
  case (Cons x xs)
  have "csv_write_item print_g cap x (out @ [CHR '','']) = Some (out @ [CHR '',''] @ csv_item print_g x)"
    using Cons.prems by (subst csv_write_item_ok) (simp_all add: csv_item_length)
  with Cons show ?case by (simp add: put_ok)
qed simp

lemma csv_tail_length:
  "length (csv_tail print_g xs) = length xs + (\<Sum>x\<leftarrow>xs. csv_item_len print_g x)"
  by (induction xs) (simp_all add: csv_item_length)

lemma csv_join_ok:
  assumes "cap = (length xs - 1) + (\<Sum>x\<leftarrow>xs. csv_item_len print_g x)"
  shows "csv_join_loop print_g (cap + 1) True xs [] = Some (tl (csv_tail print_g xs))"
    and "length (tl (csv_tail print_g xs)) < cap + 1"
proof -
  show "length (tl (csv_tail print_g xs)) < cap + 1"
    using assms by (cases xs) (simp_all add: csv_tail_length csv_item_length)
  show "csv_join_loop print_g (cap + 1) True xs [] = Some (tl (csv_tail print_g xs))"
  proof (cases xs)
    case (Cons x ys)
    then have "csv_write_item print_g (cap + 1) x [] = Some (csv_item print_g x)"
      using csv_write_item_ok [of "[]" print_g x "cap + 1"] assms by simp
    with Cons assms show ?thesis
      using csv_join_tail [of "csv_item print_g x" print_g ys "cap + 1"]
      by (simp add: csv_tail_length csv_item_length)
  qed simp
qed

lemma framed:
  assumes "\<And>s. string_arg args = Some s \<Longrightarrow> r s \<noteq> None"
  shows "(case string_arg args of None \<Rightarrow> Some (ENumber 0, h) | Some s \<Rightarrow> r s) \<noteq> None"
  using assms by (cases "string_arg args") simp_all

lemmas sizes = hex_encoded_size_def hex_decoded_size_def url_encoded_size_def html_escaped_size_def
  json_escaped_size_def csv_escaped_size_def decoded_size_def

lemma codecs_in_buffers:
  assumes "utf8_short utf8"
  shows "fn_hex_encode h args \<noteq> None" "fn_hex_decode h args \<noteq> None"
    and "fn_url_encode h args \<noteq> None" "fn_url_decode h args \<noteq> None"
    and "fn_html_escape h args \<noteq> None" "fn_html_unescape h args \<noteq> None"
    and "fn_json_escape h args \<noteq> None" "fn_json_unescape utf8 h args \<noteq> None"
    and "fn_csv_escape h args \<noteq> None" "fn_csv_unescape h args \<noteq> None"
    and "fn_csv_split_line order h args \<noteq> None" "fn_csv_join_line print_g h args \<noteq> None"
proof -
  note frame = framed [OF fits_in_buffer]
  show "fn_hex_encode h args \<noteq> None"
    unfolding fn_hex_encode_def Let_def sizes
    by (rule frame) (use hex.encoding in \<open>simp add: fits_Inr sum_list_triv\<close>)
  show "fn_hex_decode h args \<noteq> None"
    unfolding fn_hex_decode_def Let_def sizes
    by (rule framed) (simp add: fits_in_buffer hex_decode_fits del: not_None_eq)
  show "fn_url_encode h args \<noteq> None"
    unfolding fn_url_encode_def Let_def sizes
    by (rule frame) (simp add: fits_Inr url.encoding)
  show "fn_html_escape h args \<noteq> None"
    unfolding fn_html_escape_def Let_def sizes
    by (rule frame) (simp add: fits_Inr html.encoding)
  show "fn_json_escape h args \<noteq> None"
    unfolding fn_json_escape_def Let_def sizes
    by (rule frame) (simp add: fits_Inr json.encoding)
  show "fn_url_decode h args \<noteq> None"
    unfolding fn_url_decode_def Let_def sizes by (rule frame) (simp add: fits_Inr url_decode_fits)
  show "fn_html_unescape h args \<noteq> None"
    unfolding fn_html_unescape_def Let_def sizes by (rule frame) (simp add: fits_Inr html_unescape_fits)
  show "fn_json_unescape utf8 h args \<noteq> None"
    unfolding fn_json_unescape_def Let_def sizes by (rule frame) (simp add: json_unescape_fits assms)
  show "fn_csv_escape h args \<noteq> None"
    unfolding fn_csv_escape_def Let_def sizes
    by (rule framed) (simp add: fits_in_buffer fits_Inr csv_write_quoted_ok length_concat comp_def csv_quoted_sum
        del: not_None_eq)
  show "fn_csv_unescape h args \<noteq> None"
    unfolding fn_csv_unescape_def Let_def
  proof (rule framed)
    fix s :: bytes
    have "fits (length s - 1) (map_option Inr (csv_unescape_loop (length s - 1) (butlast (tl s)) []))"
      if "\<not> length s < 2" using that csv_unescape_fits [of "[]" "butlast (tl s)"] by (simp add: fits_Inr)
    then show "(if length s < 2 \<or> hd s \<noteq> CHR 0x22 \<or> last s \<noteq> CHR 0x22 then Some (mod_copy_string h s)
        else in_buffer h (length s - 1) (map_option Inr (csv_unescape_loop (length s - 1) (butlast (tl s)) []))) \<noteq> None"
      using fits_in_buffer by (simp del: not_None_eq)
  qed
  show "fn_csv_split_line order h args \<noteq> None"
    unfolding fn_csv_split_line_def sizes
    by (rule framed) (simp add: csv_split_fits split: prod.split del: not_None_eq)
  show "fn_csv_join_line print_g h args \<noteq> None"
    using csv_join_ok [where print_g = print_g, OF refl]
    by (auto simp: fn_csv_join_line_def Let_def in_buffer_def csv_joined_size_def
        split: list.split exprtk_value.split seq_type.split prod.split)
qed

text \<open>The sizes of the buffers for a text, and how large they get.\<close>

definition buffer_sizes :: "bytes \<Rightarrow> nat set" where
  "buffer_sizes s =
     {hex_encoded_size s, hex_decoded_size s, url_encoded_size s, html_escaped_size s, json_escaped_size s,
      csv_escaped_size s, decoded_size s}"

lemma sum_width: "(\<And>c. w c \<le> k) \<Longrightarrow> (\<Sum>c\<leftarrow>s. w c) \<le> k * length s" for w :: "char \<Rightarrow> nat"
  by (induction s) (simp_all add: add_mono)

lemma buffer_sizes_bound: "n \<in> buffer_sizes s \<Longrightarrow> n \<le> 6 * length s + 3"
proof -
  have "(\<Sum>c\<leftarrow>s. url_width c) \<le> 6 * length s" "(\<Sum>c\<leftarrow>s. html_width c) \<le> 6 * length s"
    "(\<Sum>c\<leftarrow>s. json_width c) \<le> 6 * length s"
    by (rule sum_width; simp add: url_width_def html_width_def json_width_def)+
  moreover have "quote_count s \<le> length s" by (simp add: quote_count_def)
  ultimately show "n \<in> buffer_sizes s \<Longrightarrow> ?thesis" by (auto simp: buffer_sizes_def sizes)
qed

fun item_bytes :: "(exprtk_value \<Rightarrow> bytes) \<Rightarrow> exprtk_value \<Rightarrow> nat" where
  "item_bytes print_g (EString p v) = 2 * length (buf_elems v)"
| "item_bytes print_g x = length (print_g x)"

lemma joined_size_bound: "csv_joined_size print_g xs \<le> (\<Sum>x\<leftarrow>xs. item_bytes print_g x + 3) + 1"
proof -
  have quotes: "quote_count s \<le> length s" for s by (simp add: quote_count_def)
  have "csv_item_len print_g x \<le> item_bytes print_g x + 2" for x
    using quotes by (cases x) (auto simp: mod_csv_cell_encoded_len_def)
  note item = this
  have "length xs + (\<Sum>x\<leftarrow>xs. csv_item_len print_g x) \<le> (\<Sum>x\<leftarrow>xs. item_bytes print_g x + 3)"
  proof (induction xs)
    case (Cons x xs)
    then show ?case using item [of x] by simp
  qed simp
  then show ?thesis unfolding csv_joined_size_def by linarith
qed

text \<open>
  C35: The text codecs write only into the buffers they have allocated.  Whatever their arguments and
  whichever allocations fail, the encoders and decoders for hexadecimal, URL, HTML, JSON and CSV
  text end with a value, and every byte they store, the final NUL included, lies inside the buffer whose
  size they computed beforehand.  These sizes are exact numbers here.  They are below \<open>M\<close>, the
  number of values of \<^verbatim>\<open>size_t\<close>, so that no sum on the way to them wraps and they are the
  ones that the code computes, for every byte string \<open>s\<close> with \<open>6 * length s + 3 < M\<close> and, for a list to be
  joined, when \<open>M\<close> is above one, three for each item, twice the length of each string and the length
  of each number's text, together.  Longer texts are not covered.
\<close>

theorem codecs_stay_in_buffers:
  assumes "utf8_short utf8"
    and "\<And>s. string_arg args = Some s \<Longrightarrow> 6 * length s + 3 < M"
    and "\<And>p items. args = [ESeq VAL_LIST p items] \<Longrightarrow> (\<Sum>x\<leftarrow>buf_elems items. item_bytes print_g x + 3) + 1 < M"
  shows "(\<forall>s n. string_arg args = Some s \<and> n \<in> buffer_sizes s \<longrightarrow> n < M) \<and>
     (\<forall>p items. args = [ESeq VAL_LIST p items] \<longrightarrow> csv_joined_size print_g (buf_elems items) < M) \<and>
     fn_hex_encode h args \<noteq> None \<and> fn_hex_decode h args \<noteq> None \<and>
     fn_url_encode h args \<noteq> None \<and> fn_url_decode h args \<noteq> None \<and>
     fn_html_escape h args \<noteq> None \<and> fn_html_unescape h args \<noteq> None \<and>
     fn_json_escape h args \<noteq> None \<and> fn_json_unescape utf8 h args \<noteq> None \<and>
     fn_csv_escape h args \<noteq> None \<and> fn_csv_unescape h args \<noteq> None \<and>
     fn_csv_split_line order h args \<noteq> None \<and> fn_csv_join_line print_g h args \<noteq> None"
proof -
  have "n < M" if "string_arg args = Some s" "n \<in> buffer_sizes s" for s n
    using assms(2) [OF that(1)] buffer_sizes_bound [OF that(2)] by linarith
  moreover have "csv_joined_size print_g (buf_elems items) < M" if "args = [ESeq VAL_LIST p items]" for p items
    using assms(3) [OF that] joined_size_bound [of print_g "buf_elems items"] by linarith
  ultimately show ?thesis using codecs_in_buffers [OF assms(1)] by (intro conjI) blast+
qed

text \<open>An encoder of code points that knows the ASCII range only.\<close>

definition ascii_only :: "int \<Rightarrow> bytes option" where
  "ascii_only cp = (if 0 \<le> cp \<and> cp < 128 then Some [char_of (nat cp)] else None)"

theorem codecs_stay_in_buffers_witness:
  "utf8_short ascii_only \<and>
   fn_json_unescape ascii_only plenty [EString None (Buf [CHR 0x5C, CHR ''u''])] \<noteq> None \<and>
   json_escaped_size [CHR 0x5C, CHR ''u''] < 100"
proof -
  have "utf8_short ascii_only" by (auto simp: utf8_short_def ascii_only_def split: if_splits)
  with codecs_stay_in_buffers [of ascii_only "[EString None (Buf [CHR 0x5C, CHR ''u''])]" 100 "\<lambda>x. []" plenty id]
  show ?thesis by (auto simp: buffer_sizes_def string_arg_def)
qed

section \<open>Decoders undo encoders\<close>

lemma hex_digit:
  assumes "n < 16"
  shows "mod_hex_value (LOWER_HEX ! n) = int n" "mod_hex_value (UPPER_HEX ! n) = int n"
proof -
  have "list_all (\<lambda>n. mod_hex_value (LOWER_HEX ! n) = int n \<and> mod_hex_value (UPPER_HEX ! n) = int n) [0 ..< 16]"
    by code_simp
  then show "mod_hex_value (LOWER_HEX ! n) = int n" "mod_hex_value (UPPER_HEX ! n) = int n"
    using assms by (simp_all add: list_all_iff)
qed

lemma or_nibble:
  assumes "0 \<le> lo" "lo < (16 :: int)"
  shows "or (push_bit 4 hi) lo = 16 * hi + lo"
proof -
  have "take_bit 4 lo = lo" using assms by (simp add: take_bit_int_eq_self)
  then have "\<not> bit lo n" if "4 \<le> n" for n using that by (metis bit_take_bit_iff linorder_not_less)
  then have "and (push_bit 4 hi) lo = 0" by (intro bit_eqI) (auto simp: bit_simps)
  with plus_and_or [of "push_bit 4 hi" lo] show ?thesis by (simp add: push_bit_eq_mult)
qed

lemma nibbles_joined: "16 * int (n div 16) + int (n mod 16) = int n"
proof -
  have "int n = int (16 * (n div 16) + n mod 16)" by simp
  then show ?thesis by (simp only: of_nat_add of_nat_mult of_nat_numeral)
qed

lemma hex_pair_decoded:
  assumes "digits = LOWER_HEX \<or> digits = UPPER_HEX"
  obtains a b where "hex_pair digits c = [a, b]" "mod_hex_value a \<ge> 0" "mod_hex_value b \<ge> 0"
    "hex_byte (mod_hex_value a) (mod_hex_value b) = c"
    "mod_hex_value a = int (of_char c div 16)" "mod_hex_value b = int (of_char c mod 16)"
proof -
  have n: "of_char c div 16 < (16 :: nat)" "of_char c mod 16 < (16 :: nat)"
    using nat_of_char_less_256 [of c] by (simp_all del: nat_of_char_less_256)
  have "hex_byte (int (of_char c div 16)) (int (of_char c mod 16)) = c"
    using n(2) by (simp add: hex_byte_def or_nibble nibbles_joined of_nat_of_char)
  with assms n that show ?thesis by (auto simp: hex_pair_def hex_digit)
qed

lemma hex_loop_undoes:
  "length out + length s \<le> cap \<Longrightarrow>
   hex_decode_loop cap (concat (map (hex_pair LOWER_HEX) s)) out = Some (Inr (out @ s))"
proof (induction s arbitrary: out)
  case (Cons c s)
  obtain a b where "hex_pair LOWER_HEX c = [a, b]" "mod_hex_value a \<ge> 0" "mod_hex_value b \<ge> 0"
      "hex_byte (mod_hex_value a) (mod_hex_value b) = c"
    by (rule hex_pair_decoded [of LOWER_HEX c]) auto
  with Cons show ?case by (simp add: put_ok Let_def)
qed simp

lemma url_step:
  "c \<noteq> CHR ''%'' \<Longrightarrow>
   url_decode_loop cap (c # s) out =
     (case put cap out [url_plain c] of None \<Rightarrow> None | Some out' \<Rightarrow> url_decode_loop cap s out')"
  by (cases s; cases "tl s") (auto split: option.split)

lemma url_loop_undoes:
  "length out + length s \<le> cap \<Longrightarrow> url_decode_loop cap (concat (map url_text s)) out = Some (out @ s)"
proof (induction s arbitrary: out)
  case (Cons c s)
  obtain a b where "hex_pair UPPER_HEX c = [a, b]" "mod_hex_value a \<ge> 0" "mod_hex_value b \<ge> 0"
      "hex_byte (mod_hex_value a) (mod_hex_value b) = c"
    by (rule hex_pair_decoded [of UPPER_HEX c]) auto
  moreover have "c \<noteq> CHR ''%'' \<and> c \<noteq> CHR ''+''" if "mod_is_unreserved_url_char c"
    using that by (auto simp: mod_is_unreserved_url_char_def mod_is_ascii_alnum_def)
  ultimately show ?case
    using Cons by (simp add: url_text_def url_step url_plain_def put_ok)
qed simp

lemma html_loop_undoes:
  "length out + length s \<le> cap \<Longrightarrow> html_unescape_loop cap (concat (map html_text s)) out = Some (out @ s)"
proof (induction s arbitrary: out)
  case (Cons c s)
  then show ?case by (simp add: html_text_def html_entity_def put_ok)
qed simp

text \<open>A control character is written as one byte of UTF-8.\<close>

definition utf8_ascii :: "(int \<Rightarrow> bytes option) \<Rightarrow> bool" where
  "utf8_ascii utf8 \<longleftrightarrow> (\<forall>n < 128. utf8 (int n) = Some [char_of n])"

lemma json_short_undone: "json_short c = Some e \<Longrightarrow> e \<noteq> CHR ''u'' \<and> json_unescaped e = c"
  by (auto simp: json_short_def json_unescaped_def split: if_splits)

lemma json_codepoint_control:
  assumes "of_char c < (32 :: nat)"
  shows "json_codepoint ([CHR ''0'', CHR ''0''] @ hex_pair UPPER_HEX c @ r) = Some (int (of_char c), r)"
proof -
  obtain a b where ab: "hex_pair UPPER_HEX c = [a, b]" "mod_hex_value a = int (of_char c div 16)"
      "mod_hex_value b = int (of_char c mod 16)"
    by (rule hex_pair_decoded [of UPPER_HEX c]) auto
  have "mod_hex_value CHR ''0'' = 0" by (simp add: mod_hex_value_def)
  moreover have "or (push_bit 4 (int (of_char c div 16))) (int (of_char c mod 16)) = int (of_char c)"
    by (subst or_nibble) (simp_all add: nibbles_joined)
  ultimately have "mod_hex4_value ([CHR ''0'', CHR ''0'', a, b] @ r) = int (of_char c)"
    unfolding mod_hex4_value_def by (simp add: Let_def ab)
  with ab assms show ?thesis by (simp add: json_codepoint_def Let_def)
qed

lemma json_loop_undoes:
  assumes "utf8_ascii utf8" "length out + length s < cap"
  shows "json_unescape_loop utf8 cap (concat (map json_text s)) out = Some (Inr (out @ s))"
  using assms(2)
proof (induction s arbitrary: out)
  case (Cons c s)
  note ih = Cons.IH [of "out @ [c]"]
  show ?case
  proof (cases "json_short c")
    case (Some e)
    with Cons json_short_undone [OF Some] show ?thesis by (simp add: json_text_def put_ok)
  next
    case None
    show ?thesis
    proof (cases "of_char c < (32 :: nat)")
      case True
      then have "of_char c < (128 :: nat)" by simp
      then have "utf8 (int (of_char c)) = Some [char_of (of_char c :: nat)]"
        using assms(1) unfolding utf8_ascii_def by blast
      with Cons.prems have "mod_utf8_write_codepoint utf8 (cap - length out) (int (of_char c)) = [c]"
        by (simp add: mod_utf8_write_codepoint_def)
      with None True ih Cons.prems json_codepoint_control [OF True] show ?thesis
        by (simp add: json_text_def put_ok Let_def)
    next
      case False
      with None have "c \<noteq> CHR 0x5C" by (auto simp: json_short_def)
      with None False ih Cons.prems show ?thesis by (simp add: json_text_def put_ok)
    qed
  qed
qed simp

lemma csv_step:
  "c \<noteq> CHR 0x22 \<Longrightarrow>
   csv_unescape_loop cap (c # s) out =
     (case put cap out [c] of None \<Rightarrow> None | Some out' \<Rightarrow> csv_unescape_loop cap s out')"
  by (cases s) (auto split: option.split)

lemma csv_loop_undoes:
  "length out + length s \<le> cap \<Longrightarrow> csv_unescape_loop cap (concat (map csv_quoted s)) out = Some (out @ s)"
  by (induction s arbitrary: out) (simp_all add: csv_quoted_def csv_step put_ok)

text \<open>Decoding what was encoded gives the string back.\<close>

definition recovers ::
  "(heap \<Rightarrow> exprtk_value list \<Rightarrow> (exprtk_value \<times> heap) option) \<Rightarrow>
   (heap \<Rightarrow> exprtk_value list \<Rightarrow> (exprtk_value \<times> heap) option) \<Rightarrow> heap \<Rightarrow> bytes \<Rightarrow> bool" where
  "recovers enc dec h s \<longleftrightarrow>
     (\<exists>e. enc h [EString None (Buf s)] = Some (EString None (Buf e), h) \<and>
          dec h [EString None (Buf e)] = Some (EString None (Buf s), h))"

lemma string_arg_string [simp]: "string_arg [EString p v] = Some (buf_elems v)"
  by (simp add: string_arg_def)

lemma codecs_undone:
  assumes "never_fails h" "utf8_ascii utf8"
  shows "recovers fn_hex_encode fn_hex_decode h s"
    and "recovers fn_url_encode fn_url_decode h s"
    and "recovers fn_html_escape fn_html_unescape h s"
    and "recovers fn_json_escape (fn_json_unescape utf8) h s"
    and "recovers fn_csv_escape fn_csv_unescape h s"
proof -
  note enc = in_buffer_plenty [OF assms(1)]
  show "recovers fn_hex_encode fn_hex_decode h s"
    using hex.encoded_length [of s] hex.written [of s]
    by (simp add: recovers_def fn_hex_encode_def fn_hex_decode_def Let_def sizes sum_list_triv enc hex_loop_undoes)
  show "recovers fn_url_encode fn_url_decode h s"
    using url.not_shorter [of s]
    by (simp add: recovers_def fn_url_encode_def fn_url_decode_def Let_def sizes enc url.encoding url_loop_undoes)
  show "recovers fn_html_escape fn_html_unescape h s"
    using html.not_shorter [of s]
    by (simp add: recovers_def fn_html_escape_def fn_html_unescape_def Let_def sizes enc html.encoding html_loop_undoes)
  show "recovers fn_json_escape (fn_json_unescape utf8) h s"
    using json.not_shorter [of s]
    by (simp add: recovers_def fn_json_escape_def fn_json_unescape_def Let_def sizes enc json.encoding
        json_loop_undoes [OF assms(2)])
  show "recovers fn_csv_escape fn_csv_unescape h s"
  proof (cases "list_ex csv_special s")
    case True
    then show ?thesis
      by (simp add: recovers_def fn_csv_escape_def fn_csv_unescape_def Let_def sizes csv_write_quoted_ok enc
          length_concat comp_def csv_quoted_sum csv_loop_undoes butlast_append)
  next
    case False
    then have "s = [] \<or> hd s \<noteq> CHR 0x22" by (cases s) (auto simp: csv_special_def)
    with False assms(1) show ?thesis
      by (auto simp: recovers_def fn_csv_escape_def fn_csv_unescape_def mod_copy_string_def alloc_plenty)
  qed
qed

text \<open>
  C34: The decoders undo the encoders.  With memory, for every byte string: decoding the hexadecimal,
  URL, HTML, JSON or CSV text that the encoder made of it gives the string back.
\<close>

theorem codecs_round_trip:
  assumes "never_fails h" "utf8_ascii utf8"
  shows "recovers fn_hex_encode fn_hex_decode h s \<and> recovers fn_url_encode fn_url_decode h s \<and>
     recovers fn_html_escape fn_html_unescape h s \<and> recovers fn_json_escape (fn_json_unescape utf8) h s \<and>
     recovers fn_csv_escape fn_csv_unescape h s"
  using codecs_undone [OF assms] by (intro conjI)

theorem codecs_round_trip_witness:
  "recovers fn_json_escape (fn_json_unescape ascii_only) plenty
     [CHR ''a'', CHR 0x22, CHR 0x07, CHR 0x0A] \<and>
   recovers fn_url_encode fn_url_decode plenty ''a b+c%''"
proof -
  have "utf8_ascii ascii_only" by (simp add: utf8_ascii_def ascii_only_def)
  moreover have "never_fails plenty" by (simp add: never_fails_def plenty_def)
  ultimately show ?thesis
    using codecs_round_trip [of plenty ascii_only] by blast
qed

section \<open>CSV lines\<close>

text \<open>The texts of the strings of a list.\<close>

fun text_of :: "exprtk_value \<Rightarrow> bytes" where
  "text_of (EString p v) = buf_elems v"
| "text_of v = []"

definition texts :: "exprtk_value \<Rightarrow> bytes list" where
  "texts v = (case v of ESeq k p items \<Rightarrow> map text_of (buf_elems items) | _ \<Rightarrow> [])"

definition is_list :: "exprtk_value \<Rightarrow> bool" where
  "is_list v \<longleftrightarrow> (\<exists>p items. v = ESeq VAL_LIST p items)"

lemma append_string:
  assumes "never_fails h" "is_list list" "length s < 2 ^ 64 - 1"
  obtains list' h' where "mod_list_append_string order h list s = (Some list', h')" "never_fails h'"
    "is_list list'" "texts list' = texts list @ [s]"
proof -
  obtain p items where list: "list = ESeq VAL_LIST p items" using assms(2) by (auto simp: is_list_def)
  obtain q h1 where pool: "exprtk_list_pool h p = (Some q, h1)" "never_fails h1"
    using assms(1) by (cases p) (simp_all add: exprtk_list_pool_def alloc_all_plenty new_pool_def Let_def)
  have size: "(of_nat (length s) :: size_t) \<noteq> SIZE_MAX" "(of_nat (length s) :: size_t) = 0 \<longleftrightarrow> s = []"
    using assms(3) by (auto simp: word_unat_eq_iff unat_of_nat)
  obtain r where "exprtk_value_copy_to_pool order h1 (EString None (Buf s)) q = (Some (EString r (Buf s)), h1)"
    using size pool(2)
    by (cases "s = []") (auto simp: exprtk_value_copy_to_pool.simps copied_view_plenty)
  with pool list have "mod_list_append_string order h list s =
      (Some (ESeq VAL_LIST (Some q) (Buf (buf_elems items @ [EString r (Buf s)]))), h1)"
    by (simp add: mod_list_append_string_def mod_copy_string_def alloc_plenty assms(1)
        exprtk_list_push_def exprtk_list_push_with_def)
  from that [OF this] pool(2) list show ?thesis by (simp add: is_list_def texts_def)
qed

lemma split_quoted:
  assumes "rest = [] \<or> hd rest \<noteq> CHR 0x22" "length cell + length s \<le> cap"
  shows "csv_split_loop order cap (concat (map csv_quoted s) @ CHR 0x22 # rest) cell True list h =
     csv_split_loop order cap rest (cell @ s) False list h"
  using assms(2)
proof (induction s arbitrary: cell)
  case Nil
  with assms(1) show ?case by (cases rest) (simp_all add: csv_split_loop.simps(2))
next
  case (Cons c s)
  then show ?case by (simp add: csv_quoted_def csv_split_loop.simps(2) [of _ _ c] csv_split_loop.simps(2) [of _ _ "CHR 0x22"] put_ok)
qed

lemma split_plain:
  assumes "\<not> list_ex csv_special s" "length cell + length s \<le> cap"
  shows "csv_split_loop order cap (s @ rest) cell False list h = csv_split_loop order cap rest (cell @ s) False list h"
  using assms
  by (induction s arbitrary: cell) (simp_all add: csv_split_loop.simps(2) csv_special_def put_ok)

lemma split_cell:
  assumes "rest = [] \<or> hd rest = CHR '',''" "length s \<le> cap"
  shows "csv_split_loop order cap (csv_cell s @ rest) [] False list h = csv_split_loop order cap rest s False list h"
proof (cases "list_ex csv_special s")
  case True
  with split_quoted [of rest "[]" s cap order list h] assms show ?thesis
    by (auto simp: csv_cell_def csv_split_loop.simps(2) [of _ _ "CHR 0x22"])
next
  case False
  with split_plain [of s "[]" cap order rest list h] assms show ?thesis by (simp add: csv_cell_def)
qed

abbreviation (input) string_items :: "bytes list \<Rightarrow> exprtk_value list" where
  "string_items ss \<equiv> map (\<lambda>s. EString None (Buf s)) ss"

lemma split_line:
  assumes "never_fails h" "is_list list" "\<forall>t \<in> set (s # ss). length t \<le> cap \<and> length t < 2 ^ 64 - 1"
  shows "\<exists>list' h'. csv_split_loop order cap (csv_cell s @ csv_tail print_g (string_items ss)) [] False list h =
      Some (list', h') \<and> texts list' = texts list @ s # ss"
  using assms
proof (induction ss arbitrary: s list h)
  case Nil
  obtain list' h' where "mod_list_append_string order h list s = (Some list', h')" "texts list' = texts list @ [s]"
    by (rule append_string [of h list s order]) (use Nil in auto)
  with Nil show ?case using split_cell [of "[]" s cap order list h] by (simp add: csv_split_loop.simps(1))
next
  case (Cons t ss)
  let ?rest = "csv_cell t @ csv_tail print_g (string_items ss)"
  obtain list1 h1 where 1: "mod_list_append_string order h list s = (Some list1, h1)" "never_fails h1" "is_list list1"
      "texts list1 = texts list @ [s]"
    by (rule append_string [of h list s order]) (use Cons.prems in auto)
  have "csv_split_loop order cap (csv_cell s @ CHR '','' # ?rest) [] False list h =
      csv_split_loop order cap ?rest [] False list1 h1"
    using split_cell [of "CHR '','' # ?rest" s cap order list h] Cons.prems(3)
      1(1) by (simp add: csv_split_loop.simps(2) [of _ _ "CHR '',''"])
  with Cons.IH [of h1 list1 t] Cons.prems(3) 1 show ?case by simp
qed

lemma csv_cell_longer: "length s \<le> length (csv_cell s)"
  by (simp add: csv_cell_length mod_csv_cell_encoded_len_def)

lemma csv_tail_longer: "s \<in> set ss \<Longrightarrow> length s < length (csv_tail print_g (string_items ss))"
proof (induction ss)
  case (Cons t ss)
  with csv_cell_longer [of t] show ?case by (cases "s = t") auto
qed simp

text \<open>
  C40: A line of CSV is split into the cells it was joined from.  With memory, for every nonempty list
  of strings whose joined line has a size of 64 bits, whatever quotes, commas and line ends they contain:
  splitting the joined line gives a list with the same strings in the same order.
\<close>

theorem csv_line_round_trip:
  assumes "never_fails h" "ss \<noteq> []" "(\<Sum>s\<leftarrow>ss. 2 * length s + 3) + 1 < 2 ^ 64"
  shows "\<exists>line list h'.
      fn_csv_join_line print_g h [ESeq VAL_LIST p (Buf (string_items ss))] = Some (EString None (Buf line), h) \<and>
      fn_csv_split_line order h [EString None (Buf line)] = Some (list, h') \<and> texts list = ss"
proof -
  obtain s ts where ss: "ss = s # ts" using assms(2) by (cases ss) auto
  have short: "length t < 2 ^ 64 - 1" if "t \<in> set ss" for t
    using member_le_sum_list [of "2 * length t + 3" "map (\<lambda>s. 2 * length s + 3) ss"] that assms(3) by simp
  let ?line = "tl (csv_tail print_g (string_items ss))"
  have line: "?line = csv_cell s @ csv_tail print_g (string_items ts)" by (simp add: ss)
  have join: "fn_csv_join_line print_g h [ESeq VAL_LIST p (Buf (string_items ss))] = Some (EString None (Buf ?line), h)"
    using csv_join_ok [where print_g = print_g and xs = "string_items ss", OF refl]
    by (simp add: fn_csv_join_line_def Let_def csv_joined_size_def in_buffer_plenty assms(1))
  have "length t \<le> length ?line + 1" if "t \<in> set ss" for t
    using csv_tail_longer [OF that, of print_g] by simp
  with assms(1,2) short ss have "\<exists>list h'. csv_split_loop order (length ?line + 1) ?line [] False exprtk_val_list_empty h =
      Some (list, h') \<and> texts list = texts exprtk_val_list_empty @ s # ts"
    unfolding line by (intro split_line) (auto simp: is_list_def exprtk_val_list_empty_def)
  then obtain list h' where "fn_csv_split_line order h [EString None (Buf ?line)] = Some (list, h')" "texts list = ss"
    by (auto simp: fn_csv_split_line_def sizes alloc_plenty assms(1) ss exprtk_val_list_empty_def texts_def)
  with join show ?thesis by blast
qed

theorem csv_line_round_trip_witness:
  "\<exists>line list h'.
      fn_csv_join_line (\<lambda>v. []) plenty
        [ESeq VAL_LIST None (Buf (string_items [''a,b'', [], [CHR 0x22]]))] =
          Some (EString None (Buf line), plenty) \<and>
      fn_csv_split_line (\<lambda>ks. ks) plenty [EString None (Buf line)] =
        Some (list, h') \<and> texts list = [''a,b'', [], [CHR 0x22]]"
  by (rule csv_line_round_trip) (simp_all add: never_fails_def plenty_def)

section \<open>Comparison\<close>

lemma xor_zero: "xor x y = 0 \<longleftrightarrow> x = (y :: 'a :: len word)"
  by (metis xor.assoc xor.left_neutral xor_self_eq xor.right_neutral)

lemma or_fold_zero: "fold (\<lambda>i d. or d (f i)) xs (d :: 32 word) = 0 \<longleftrightarrow> d = 0 \<and> (\<forall>i \<in> set xs. f i = 0)"
proof (induction xs arbitrary: d)
  case (Cons x xs)
  have "or d (f x) = 0 \<longleftrightarrow> d = 0 \<and> f x = 0" by (auto simp: bit_eq_iff bit_simps)
  with Cons show ?case by auto
qed simp

lemma byte_at_eq: "i < length a \<Longrightarrow> i < length b \<Longrightarrow> byte_at a i = byte_at b i \<longleftrightarrow> a ! i = b ! i"
proof -
  have "(of_nat (of_char c) :: 32 word) = of_nat (of_char d) \<longleftrightarrow> c = d" for c d :: char
  proof -
    have "unat (of_nat (of_char c) :: 32 word) = of_char c" for c :: char
      using nat_of_char_less_256 [of c] by (simp add: unat_of_nat del: nat_of_char_less_256)
    then show ?thesis by (metis of_char_eq_iff)
  qed
  then show "i < length a \<Longrightarrow> i < length b \<Longrightarrow> ?thesis" by (simp add: byte_at_def)
qed

lemma length_difference:
  assumes "m < 2 ^ 32" "n < 2 ^ 32"
  shows "(ucast (xor (of_nat m :: size_t) (of_nat n)) :: 32 word) = 0 \<longleftrightarrow> m = n"
proof -
  have "(ucast (xor (of_nat m :: size_t) (of_nat n)) :: 32 word) = xor (of_nat m) (of_nat n)"
    using assms by (simp add: unsigned_xor_eq unsigned_of_nat take_bit_nat_eq_self)
  moreover have "(of_nat m :: 32 word) = of_nat n \<longleftrightarrow> m = n"
    using assms by (simp add: of_nat_inverse word_unat_eq_iff unat_of_nat)
  ultimately show ?thesis by (simp add: xor_zero)
qed

text \<open>
  The comparison in constant time is equality.  For strings shorter than 4 GiB it returns 1 exactly
  when they are equal.
\<close>

theorem constant_time_eq_is_equality:
  assumes "length (buf_elems v) < 2 ^ 32" "length (buf_elems w) < 2 ^ 32"
  shows "fn_constant_time_eq [EString p v, EString q w] =
     ENumber (if buf_elems v = buf_elems w then 0x3FF0000000000000 else 0)"
proof -
  let ?a = "buf_elems v" and ?b = "buf_elems w"
  define same where
    "same \<longleftrightarrow> (\<forall>i \<in> set [0 ..< max (length ?a) (length ?b)]. xor (byte_at ?a i) (byte_at ?b i) = 0)"
  have "same \<longleftrightarrow> ?a = ?b" if len: "length ?a = length ?b"
  proof -
    have "same \<longleftrightarrow> (\<forall>i < length ?a. byte_at ?a i = byte_at ?b i)"
      by (simp add: same_def xor_zero len Ball_def)
    also have "\<dots> \<longleftrightarrow> (\<forall>i < length ?a. ?a ! i = ?b ! i)" using len byte_at_eq by metis
    also have "\<dots> \<longleftrightarrow> ?a = ?b" using len by (simp only: list_eq_iff_nth_eq simp_thms)
    finally show ?thesis .
  qed
  then have "length ?a = length ?b \<and> same \<longleftrightarrow> ?a = ?b" by auto
  then have "fold (\<lambda>i d. or d (xor (byte_at ?a i) (byte_at ?b i))) [0 ..< max (length ?a) (length ?b)]
      (ucast (xor (of_nat (length ?a) :: size_t) (of_nat (length ?b)))) = 0 \<longleftrightarrow> ?a = ?b"
    unfolding or_fold_zero length_difference [OF assms] same_def .
  then show ?thesis unfolding fn_constant_time_eq_def by (simp only: Let_def exprtk_value.case list.case)
qed

theorem constant_time_eq_is_equality_witness:
  "fn_constant_time_eq [EString None (Buf ''key''), EString None (Buf ''kez'')] = ENumber 0"
  using constant_time_eq_is_equality [of "Buf ''key''" "Buf ''kez''" None None] by simp

end
