(* ===== verification/Task_Scheduler.thy ===== *)
theory Task_Scheduler
  imports Exprtk_Value
begin

text \<open>
  The scheduler of script tasks (\<^verbatim>\<open>turbo_script/src/turbo_script_task.c\<close>).  Scripts and the embedder spawn,
  cancel, join and release tasks from one thread, the executor runs them on another; a mutex protects
  the table of jobs, but not every access.  Each section under the mutex, and each access outside
  it, is one atomic step here, and a run is an interleaving of the steps of all callers.
\<close>

section \<open>Jobs\<close>

datatype task_state =
    TASK_EMPTY | TASK_RESERVED | TASK_SCHEDULED | TASK_RUNNING | TASK_WAITING | TASK_CANCELLING
  | TASK_COMPLETED | TASK_FAILED | TASK_CANCELLED

text \<open>
  \<^verbatim>\<open>ts_task_job_s\<close>.  \<open>j_callback\<close> is the captured scope of the callback, on which the job holds a
  reference; \<open>j_env_failed\<close> says that the environment of the job is aborted or left by an exception, and
  \<open>j_env_error\<close> is the message there.
\<close>

record job =
  j_id :: int
  j_state :: task_state
  j_active :: bool
  j_cancelled :: bool
  j_await_active :: bool
  j_native_failed :: bool
  j_auto_release :: bool
  j_env_initialized :: bool
  j_callback :: "addr option"
  j_result :: exprtk_value
  j_env_failed :: bool
  j_env_error :: bytes
  j_completion :: "addr option"
  j_error :: bytes

definition empty_job :: job where
  "empty_job =
     \<lparr>j_id = 0, j_state = TASK_EMPTY, j_active = False, j_cancelled = False, j_await_active = False,
      j_native_failed = False, j_auto_release = False, j_env_initialized = False, j_callback = None,
      j_result = ENumber 0, j_env_failed = False, j_env_error = [], j_completion = None, j_error = []\<rparr>"

text \<open>
  \<^verbatim>\<open>ts_task_scheduler_s\<close>, with the number of references that jobs hold on captured scopes.  The identifiers
  are unbounded here: they stand for the first \<open>2 ^ 63 - 1\<close> tasks of a context.
\<close>

record scheduler =
  s_jobs :: "job list"
  s_active_count :: nat
  s_next_id :: int
  s_closing :: bool
  s_refs :: "addr \<Rightarrow> nat"

fun terminal :: "task_state \<Rightarrow> bool" where
  "terminal TASK_COMPLETED = True"
| "terminal TASK_FAILED = True"
| "terminal TASK_CANCELLED = True"
| "terminal st = False"

fun state_name :: "task_state \<Rightarrow> bytes" where
  "state_name TASK_EMPTY = ''invalid''"
| "state_name TASK_RESERVED = ''reserved''"
| "state_name TASK_SCHEDULED = ''scheduled''"
| "state_name TASK_RUNNING = ''running''"
| "state_name TASK_WAITING = ''waiting''"
| "state_name TASK_CANCELLING = ''cancelling''"
| "state_name TASK_COMPLETED = ''completed''"
| "state_name TASK_FAILED = ''failed''"
| "state_name TASK_CANCELLED = ''cancelled''"

text \<open>The first slot with a property.\<close>

fun slot_with :: "(job \<Rightarrow> bool) \<Rightarrow> nat \<Rightarrow> job list \<Rightarrow> nat option" where
  "slot_with P i [] = None"
| "slot_with P i (j # js) = (if P j then Some i else slot_with P (Suc i) js)"

definition find_locked :: "scheduler \<Rightarrow> int \<Rightarrow> nat option" where
  "find_locked s tid = slot_with (\<lambda>j. j_id j = tid \<and> j_state j \<noteq> TASK_EMPTY) 0 (s_jobs s)"

definition update_job :: "nat \<Rightarrow> (job \<Rightarrow> job) \<Rightarrow> scheduler \<Rightarrow> scheduler" where
  "update_job i f s = s\<lparr>s_jobs := (s_jobs s)[i := f (s_jobs s ! i)]\<rparr>"

text \<open>\<^verbatim>\<open>release_callback\<close>: the reference of the job, if it has one, is given back.\<close>

definition release_callback :: "nat \<Rightarrow> scheduler \<Rightarrow> scheduler" where
  "release_callback i s =
     (case j_callback (s_jobs s ! i) of
        None \<Rightarrow> s
      | Some e \<Rightarrow> update_job i (\<lambda>j. j\<lparr>j_callback := None\<rparr>) (s\<lparr>s_refs := (s_refs s)(e := s_refs s e - 1)\<rparr>))"

definition reset_job :: "nat \<Rightarrow> scheduler \<Rightarrow> scheduler" where
  "reset_job i s = update_job i (\<lambda>j. empty_job) (release_callback i s)"

definition deactivate_locked :: "nat \<Rightarrow> scheduler \<Rightarrow> scheduler" where
  "deactivate_locked i s =
     (if j_active (s_jobs s ! i)
      then update_job i (\<lambda>j. j\<lparr>j_active := False\<rparr>) (s\<lparr>s_active_count := s_active_count s - 1\<rparr>)
      else s)"

section \<open>The sections under the mutex\<close>

text \<open>\<^verbatim>\<open>spawn\<close>, up to its first unlock: the message of the refusal, or the slot.\<close>

definition spawn_reserve ::
  "bool \<Rightarrow> addr option \<Rightarrow> addr option \<Rightarrow> bool \<Rightarrow> scheduler \<Rightarrow> bytes + nat \<times> scheduler" where
  "spawn_reserve ctx_closing cb completion auto_drop s =
     (if s_closing s \<or> ctx_closing then Inl ''task.spawn: context is closing''
      else
        (case slot_with (\<lambda>j. j_state j = TASK_EMPTY) 0 (s_jobs s) of
           None \<Rightarrow> Inl ''task.spawn: registry capacity exhausted; release completed tasks''
         | Some i \<Rightarrow>
             let tid = (if s_next_id s + 1 \<le> 0 then 1 else s_next_id s + 1) in
             Inr (i, update_job i
                       (\<lambda>j. j\<lparr>j_id := tid, j_callback := cb, j_completion := completion, j_auto_release := auto_drop,
                              j_result := ENumber 0, j_active := True, j_state := TASK_SCHEDULED\<rparr>)
                       (s\<lparr>s_next_id := tid, s_active_count := s_active_count s + 1,
                          s_refs := (case cb of None \<Rightarrow> s_refs s | Some e \<Rightarrow> (s_refs s)(e := s_refs s e + 1))\<rparr>))))"

text \<open>\<^verbatim>\<open>init_env\<close>, before the job is submitted.\<close>

definition init_env :: "nat \<Rightarrow> scheduler \<Rightarrow> scheduler" where
  "init_env i s = update_job i (\<lambda>j. j\<lparr>j_env_initialized := True, j_env_failed := False, j_env_error := []\<rparr>) s"

text \<open>\<^verbatim>\<open>spawn\<close>, after the executor has refused the job.\<close>

definition spawn_rollback :: "nat \<Rightarrow> scheduler \<Rightarrow> scheduler" where
  "spawn_rollback i s = update_job i (\<lambda>j. j\<lparr>j_state := TASK_EMPTY\<rparr>) (deactivate_locked i s)"

text \<open>\<^verbatim>\<open>request_cancel\<close>: whether the request was accepted (\<^verbatim>\<open>SALTS_OK\<close>, not \<^verbatim>\<open>SALTS_EALREADY\<close>).\<close>

definition request_cancel :: "nat \<Rightarrow> scheduler \<Rightarrow> bool \<times> scheduler" where
  "request_cancel i s =
     (let j = s_jobs s ! i in
      if terminal (j_state j) \<or> j_cancelled j then (False, s)
      else (True, update_job i (\<lambda>j. j\<lparr>j_cancelled := True, j_state := TASK_CANCELLING\<rparr>) s))"

text \<open>\<^verbatim>\<open>run_task\<close>, the first section: whether the callback is to be called.\<close>

definition run_begin :: "bool \<Rightarrow> nat \<Rightarrow> scheduler \<Rightarrow> bool \<times> scheduler" where
  "run_begin ctx_closing i s =
     (let j = s_jobs s ! i in
      if s_closing s \<or> ctx_closing \<or> j_cancelled j \<or> j_state j \<noteq> TASK_SCHEDULED
      then (False, update_job i (\<lambda>j. j\<lparr>j_cancelled := True\<rparr>) s)
      else (True, update_job i (\<lambda>j. j\<lparr>j_state := TASK_RUNNING, j_env_failed := False, j_env_error := []\<rparr>) s))"

text \<open>\<^verbatim>\<open>wait_for\<close>: the sections before and after the wait.\<close>

definition wait_begin :: "nat \<Rightarrow> scheduler \<Rightarrow> scheduler" where
  "wait_begin i s =
     update_job i (\<lambda>j. j\<lparr>j_await_active := True,
                        j_state := (if j_cancelled j then TASK_CANCELLING else TASK_WAITING)\<rparr>) s"

definition wait_end :: "nat \<Rightarrow> scheduler \<Rightarrow> scheduler" where
  "wait_end i s =
     update_job i (\<lambda>j. j\<lparr>j_await_active := False,
                        j_state := (if \<not> terminal (j_state j) \<and> \<not> j_cancelled j then TASK_RUNNING else j_state j)\<rparr>) s"

text \<open>\<^verbatim>\<open>copy_error\<close> into the 256 bytes of a job.\<close>

definition copy_error :: "bytes \<Rightarrow> bytes" where
  "copy_error m = snprintf_s 256 m"

text \<open>\<^verbatim>\<open>fail\<close>, called by a function of the module inside the task.\<close>

definition task_fail :: "bytes \<Rightarrow> nat \<Rightarrow> scheduler \<Rightarrow> scheduler" where
  "task_fail m i s =
     update_job i (\<lambda>j. j\<lparr>j_native_failed := True, j_error := copy_error m, j_env_failed := True,
                        j_env_error := copy_error m\<rparr>) s"

text \<open>
  The return of the callback: its result, whether and with which message it failed, and whether it spent
  more than its memory quota.
\<close>

definition run_return :: "exprtk_value \<Rightarrow> bool \<Rightarrow> bytes \<Rightarrow> bool \<Rightarrow> nat \<Rightarrow> scheduler \<Rightarrow> scheduler" where
  "run_return result failed msg over_quota i s =
     update_job i
       (\<lambda>j. j\<lparr>j_result := result, j_native_failed := j_native_failed j \<or> over_quota,
              j_env_failed := j_env_failed j \<or> failed \<or> over_quota,
              j_env_error := (if failed then msg else j_env_error j),
              j_error := (if over_quota then ''task result exceeded the configured memory quota'' else j_error j)\<rparr>) s"

text \<open>\<^verbatim>\<open>finish\<close>: what precedes its mutex section (with \<open>cancelled\<close> read under the mutex), and the section.\<close>

definition finish_prepare :: "bool \<Rightarrow> nat \<Rightarrow> scheduler \<Rightarrow> bool \<times> bool \<times> scheduler" where
  "finish_prepare forced i s =
     (let j = s_jobs s ! i; cancelled = forced \<or> j_cancelled j; failed = j_native_failed j \<or> j_env_failed j;
          error = (if cancelled then ''task was cancelled''
                   else if failed \<and> j_error j = []
                   then (if j_env_error j \<noteq> [] then copy_error (j_env_error j) else ''task callback failed'')
                   else j_error j)
      in (cancelled, failed, release_callback i (update_job i (\<lambda>j. j\<lparr>j_error := error\<rparr>) s)))"

definition finish_commit :: "bool \<Rightarrow> bool \<Rightarrow> nat \<Rightarrow> scheduler \<Rightarrow> scheduler" where
  "finish_commit cancelled failed i s =
     deactivate_locked i
       (update_job i
         (\<lambda>j. j\<lparr>j_await_active := False,
                j_state := (if cancelled then TASK_CANCELLED
                            else if failed then TASK_FAILED else TASK_COMPLETED)\<rparr>) s)"

text \<open>\<^verbatim>\<open>fn_release\<close>, the section under the mutex: the slot to reset.\<close>

definition release_find :: "int \<Rightarrow> scheduler \<Rightarrow> nat option" where
  "release_find tid s =
     (case find_locked s tid of
        None \<Rightarrow> None
      | Some i \<Rightarrow> if terminal (j_state (s_jobs s ! i)) then Some i else None)"

definition ts_task_scheduler_init :: "nat \<Rightarrow> scheduler option" where
  "ts_task_scheduler_init cap =
     (if cap = 0 \<or> cap > 65536 then None
      else Some \<lparr>s_jobs = replicate cap empty_job, s_active_count = 0, s_next_id = 0, s_closing = False,
                 s_refs = (\<lambda>e. 0)\<rparr>)"

section \<open>Interleavings\<close>

text \<open>
  What is under way on some thread, with the slot it is about: a spawn between its sections, a refused
  spawn, a call of \<^verbatim>\<open>reset_job\<close>, a cancellation whose job has been found, a job in the queue of the
  executor, a callback that runs or waits, and the end of a job before and after \<open>cancelled\<close> is read.
\<close>

datatype work =
    Submit nat | Rollback nat | Reset nat | Cancel nat | Queued nat | Body nat | Awaiting nat
  | Finish nat bool | Commit nat bool bool

record task_world =
  tw_sched :: scheduler
  tw_ctx_closing :: bool
  tw_work :: "work list"

abbreviation (input) replace_work :: "work \<Rightarrow> work list \<Rightarrow> work list \<Rightarrow> work list" where
  "replace_work x ys ws \<equiv> ys @ remove1 x ws"

inductive task_step :: "task_world \<Rightarrow> task_world \<Rightarrow> bool" where
  spawn: "spawn_reserve (tw_ctx_closing w) cb completion auto_drop (tw_sched w) = Inr (i, s) \<Longrightarrow>
    task_step w (w\<lparr>tw_sched := s, tw_work := Submit i # tw_work w\<rparr>)"
| submitted: "Submit i \<in> set (tw_work w) \<Longrightarrow>
    task_step w (w\<lparr>tw_sched := init_env i (tw_sched w), tw_work := replace_work (Submit i) [Queued i] (tw_work w)\<rparr>)"
| refused: "Submit i \<in> set (tw_work w) \<Longrightarrow>
    task_step w (w\<lparr>tw_sched := init_env i (tw_sched w), tw_work := replace_work (Submit i) [Rollback i] (tw_work w)\<rparr>)"
| rollback: "Rollback i \<in> set (tw_work w) \<Longrightarrow>
    task_step w (w\<lparr>tw_sched := spawn_rollback i (tw_sched w), tw_work := replace_work (Rollback i) [Reset i] (tw_work w)\<rparr>)"
| reset: "Reset i \<in> set (tw_work w) \<Longrightarrow>
    task_step w (w\<lparr>tw_sched := reset_job i (tw_sched w), tw_work := replace_work (Reset i) [] (tw_work w)\<rparr>)"
| cancel_found: "find_locked (tw_sched w) tid = Some i \<Longrightarrow> task_step w (w\<lparr>tw_work := Cancel i # tw_work w\<rparr>)"
| cancel: "Cancel i \<in> set (tw_work w) \<Longrightarrow>
    task_step w (w\<lparr>tw_sched := snd (request_cancel i (tw_sched w)), tw_work := replace_work (Cancel i) [] (tw_work w)\<rparr>)"
| run: "Queued i \<in> set (tw_work w) \<Longrightarrow> run_begin (tw_ctx_closing w) i (tw_sched w) = (called, s) \<Longrightarrow>
    task_step w (w\<lparr>tw_sched := s,
      tw_work := replace_work (Queued i) [if called then Body i else Finish i True] (tw_work w)\<rparr>)"
| dropped: "Queued i \<in> set (tw_work w) \<Longrightarrow>
    task_step w (w\<lparr>tw_sched := update_job i (\<lambda>j. j\<lparr>j_cancelled := True\<rparr>) (tw_sched w),
      tw_work := replace_work (Queued i) [Finish i True] (tw_work w)\<rparr>)"
| wait: "Body i \<in> set (tw_work w) \<Longrightarrow>
    task_step w (w\<lparr>tw_sched := wait_begin i (tw_sched w), tw_work := replace_work (Body i) [Awaiting i] (tw_work w)\<rparr>)"
| resume: "Awaiting i \<in> set (tw_work w) \<Longrightarrow>
    task_step w (w\<lparr>tw_sched := wait_end i (tw_sched w), tw_work := replace_work (Awaiting i) [Body i] (tw_work w)\<rparr>)"
| fails: "Body i \<in> set (tw_work w) \<Longrightarrow> task_step w (w\<lparr>tw_sched := task_fail m i (tw_sched w)\<rparr>)"
| returns: "Body i \<in> set (tw_work w) \<Longrightarrow>
    task_step w (w\<lparr>tw_sched := run_return result failed m over_quota i (tw_sched w),
      tw_work := replace_work (Body i) [Finish i False] (tw_work w)\<rparr>)"
| finish: "Finish i forced \<in> set (tw_work w) \<Longrightarrow> finish_prepare forced i (tw_sched w) = (c, f, s) \<Longrightarrow>
    task_step w (w\<lparr>tw_sched := s, tw_work := replace_work (Finish i forced) [Commit i c f] (tw_work w)\<rparr>)"
| commit: "Commit i c f \<in> set (tw_work w) \<Longrightarrow>
    task_step w (w\<lparr>tw_sched := finish_commit c f i (tw_sched w),
      tw_work := replace_work (Commit i c f)
        (if j_auto_release (s_jobs (tw_sched w) ! i) then [Reset i] else []) (tw_work w)\<rparr>)"
| release: "release_find tid (tw_sched w) = Some i \<Longrightarrow> task_step w (w\<lparr>tw_work := Reset i # tw_work w\<rparr>)"
| shutdown: "task_step w (w\<lparr>tw_sched := (tw_sched w)\<lparr>s_closing := True\<rparr>,
      tw_work := map Cancel [0 ..< length (s_jobs (tw_sched w))] @ tw_work w\<rparr>)"
| close: "task_step w (w\<lparr>tw_ctx_closing := True\<rparr>)"

text \<open>The scheduler of a new context.\<close>

definition task_start :: "nat \<Rightarrow> task_world" where
  "task_start cap =
     \<lparr>tw_sched = the (ts_task_scheduler_init cap), tw_ctx_closing = False, tw_work = []\<rparr>"

section \<open>Accounting\<close>

text \<open>The slot whose job a piece of work carries to its end.\<close>

fun carries :: "work \<Rightarrow> nat option" where
  "carries (Submit i) = Some i"
| "carries (Rollback i) = Some i"
| "carries (Queued i) = Some i"
| "carries (Body i) = Some i"
| "carries (Awaiting i) = Some i"
| "carries (Finish i forced) = Some i"
| "carries (Commit i c f) = Some i"
| "carries x = None"

fun slot_of :: "work \<Rightarrow> nat" where
  "slot_of (Submit i) = i"
| "slot_of (Rollback i) = i"
| "slot_of (Reset i) = i"
| "slot_of (Cancel i) = i"
| "slot_of (Queued i) = i"
| "slot_of (Body i) = i"
| "slot_of (Awaiting i) = i"
| "slot_of (Finish i forced) = i"
| "slot_of (Commit i c f) = i"

definition carriers :: "nat \<Rightarrow> work list \<Rightarrow> nat" where
  "carriers i ws = length (filter (\<lambda>x. carries x = Some i) ws)"

definition active_jobs :: "scheduler \<Rightarrow> nat" where
  "active_jobs s = length (filter j_active (s_jobs s))"

definition ref_holders :: "addr \<Rightarrow> scheduler \<Rightarrow> nat" where
  "ref_holders e s = length (filter (\<lambda>j. j_callback j = Some e) (s_jobs s))"

text \<open>
  A slot is in order: an active job has exactly one carrier and is neither over nor empty; a reset
  concerns an inactive job; the reference on the scope of the callback lasts until the job is over
  or is about to be reset.
\<close>

definition slot_ok :: "nat \<Rightarrow> job \<Rightarrow> work list \<Rightarrow> bool" where
  "slot_ok i j ws \<longleftrightarrow>
     carriers i ws = (if j_active j then 1 else 0) \<and>
     (j_active j \<longrightarrow> \<not> terminal (j_state j) \<and> j_state j \<noteq> TASK_EMPTY) \<and>
     (Reset i \<in> set ws \<longrightarrow> \<not> j_active j) \<and>
     (j_callback j \<noteq> None \<longrightarrow> j_active j \<or> Reset i \<in> set ws) \<and>
     (\<forall>c f. Commit i c f \<in> set ws \<longrightarrow> j_callback j = None)"

definition task_inv :: "task_world \<Rightarrow> bool" where
  "task_inv w \<longleftrightarrow>
     (\<forall>x \<in> set (tw_work w). slot_of x < length (s_jobs (tw_sched w))) \<and>
     (\<forall>i < length (s_jobs (tw_sched w)). slot_ok i (s_jobs (tw_sched w) ! i) (tw_work w)) \<and>
     s_active_count (tw_sched w) = active_jobs (tw_sched w) \<and>
     (\<forall>e. s_refs (tw_sched w) e = ref_holders e (tw_sched w))"

text \<open>Resets that no other step comes before.\<close>

definition calm :: "task_world \<Rightarrow> bool" where
  "calm w \<longleftrightarrow> (\<forall>i. Reset i \<notin> set (tw_work w))"

inductive serial_step :: "task_world \<Rightarrow> task_world \<Rightarrow> bool" where
  other: "calm w \<Longrightarrow> task_step w w' \<Longrightarrow> serial_step w w'"
| reset_now: "Reset i \<in> set (tw_work w) \<Longrightarrow>
    serial_step w (w\<lparr>tw_sched := reset_job i (tw_sched w), tw_work := replace_work (Reset i) [] (tw_work w)\<rparr>)"

lemma count_update:
  "i < length xs \<Longrightarrow>
   length (filter P (xs[i := y])) + (if P (xs ! i) then 1 else 0) = length (filter P xs) + (if P y then 1 else 0)"
proof (induction xs arbitrary: i)
  case (Cons x xs)
  then show ?case by (cases i) auto
qed simp

lemma carriers_Cons [simp]: "carriers i (x # ws) = (if carries x = Some i then 1 else 0) + carriers i ws"
  by (simp add: carriers_def)

lemma carriers_append [simp]: "carriers i (xs @ ys) = carriers i xs + carriers i ys"
  by (simp add: carriers_def)

lemma carriers_Nil [simp]: "carriers i [] = 0"
  by (simp add: carriers_def)

lemma carriers_remove: "x \<in> set ws \<Longrightarrow> carriers i (remove1 x ws) + (if carries x = Some i then 1 else 0) = carriers i ws"
  by (induction ws) auto

text \<open>
  A step that changes one job and the work on its slot keeps the books when it counts right.
\<close>

lemma inv_update:
  assumes inv: "task_inv w" and i: "i < length (s_jobs (tw_sched w))"
    and jobs: "s_jobs s = (s_jobs (tw_sched w))[i := j]"
    and ok: "slot_ok i j ws"
    and others: "\<And>k. k \<noteq> i \<Longrightarrow> carriers k ws = carriers k (tw_work w)"
    and resets: "\<And>k. k \<noteq> i \<Longrightarrow> Reset k \<in> set ws \<longleftrightarrow> Reset k \<in> set (tw_work w)"
    and commits: "\<And>k c f. k \<noteq> i \<Longrightarrow> Commit k c f \<in> set ws \<Longrightarrow> Commit k c f \<in> set (tw_work w)"
    and slots: "\<forall>x \<in> set ws. slot_of x < length (s_jobs (tw_sched w))"
    and count: "s_active_count s + (if j_active (s_jobs (tw_sched w) ! i) then 1 else 0) =
      s_active_count (tw_sched w) + (if j_active j then 1 else 0)"
    and refs: "\<And>e. s_refs s e + (if j_callback (s_jobs (tw_sched w) ! i) = Some e then 1 else 0) =
      s_refs (tw_sched w) e + (if j_callback j = Some e then 1 else 0)"
  shows "task_inv (w\<lparr>tw_sched := s, tw_work := ws\<rparr>)"
proof -
  let ?js = "s_jobs (tw_sched w)"
  have "active_jobs s + (if j_active (?js ! i) then 1 else 0) = active_jobs (tw_sched w) + (if j_active j then 1 else 0)"
    using count_update [OF i, of j_active j] by (simp add: active_jobs_def jobs)
  moreover have "ref_holders e s + (if j_callback (?js ! i) = Some e then 1 else 0) =
      ref_holders e (tw_sched w) + (if j_callback j = Some e then 1 else 0)" for e
    using count_update [OF i, of "\<lambda>j. j_callback j = Some e" j] by (simp add: ref_holders_def jobs)
  moreover have "slot_ok k (s_jobs s ! k) ws" if "k < length ?js" for k
  proof (cases "k = i")
    case True with ok i jobs show ?thesis by simp
  next
    case False
    with inv that have "slot_ok k (?js ! k) (tw_work w)" by (simp add: task_inv_def)
    with False others [of k] resets [of k] commits [of k] show ?thesis by (auto simp: slot_ok_def jobs)
  qed
  moreover have "s_refs s e = ref_holders e s" for e
  proof -
    have "s_refs (tw_sched w) e = ref_holders e (tw_sched w)" using inv by (simp add: task_inv_def)
    with refs [of e] calculation(2) [of e] show ?thesis by linarith
  qed
  moreover have "s_active_count s = active_jobs s"
  proof -
    have "s_active_count (tw_sched w) = active_jobs (tw_sched w)" using inv by (simp add: task_inv_def)
    with count calculation(1) show ?thesis by linarith
  qed
  ultimately show ?thesis using slots by (simp add: task_inv_def jobs)
qed

lemma carries_slot: "carries x = Some i \<Longrightarrow> slot_of x = i"
  by (cases x) auto

lemma carriers_positive: "x \<in> set ws \<Longrightarrow> carries x = Some i \<Longrightarrow> 0 < carriers i ws"
  using carriers_remove [of x ws i] by auto

lemma carrier_active:
  assumes "task_inv w" "x \<in> set (tw_work w)" "carries x = Some i"
  shows "i < length (s_jobs (tw_sched w))" "slot_ok i (s_jobs (tw_sched w) ! i) (tw_work w)"
    "j_active (s_jobs (tw_sched w) ! i)"
    "\<not> terminal (j_state (s_jobs (tw_sched w) ! i))" "j_state (s_jobs (tw_sched w) ! i) \<noteq> TASK_EMPTY"
proof -
  show i: "i < length (s_jobs (tw_sched w))"
    using assms carries_slot by (fastforce simp: task_inv_def)
  then show ok: "slot_ok i (s_jobs (tw_sched w) ! i) (tw_work w)" using assms(1) by (simp add: task_inv_def)
  then show active: "j_active (s_jobs (tw_sched w) ! i)"
    using carriers_positive [OF assms(2,3)] by (simp add: slot_ok_def split: if_splits)
  with ok show "\<not> terminal (j_state (s_jobs (tw_sched w) ! i))" "j_state (s_jobs (tw_sched w) ! i) \<noteq> TASK_EMPTY"
    by (simp_all add: slot_ok_def)
qed

lemma carriers_zero: "carriers i ws = 0 \<Longrightarrow> x \<in> set ws \<Longrightarrow> carries x \<noteq> Some i"
  using carriers_positive by fastforce

text \<open>One piece of work on a slot is followed by the next, and the job stays active.\<close>

lemma inv_carry:
  assumes inv: "task_inv w" and calm: "calm w"
    and x: "x \<in> set (tw_work w)" "carries x = Some i" and y: "carries y = Some i"
    and s: "s = (tw_sched w)\<lparr>s_jobs := (s_jobs (tw_sched w))[i := j], s_refs := refs\<rparr>"
    and j: "j_active j" "\<not> terminal (j_state j)" "j_state j \<noteq> TASK_EMPTY"
    and commit: "\<And>c f. y = Commit i c f \<Longrightarrow> j_callback j = None"
    and refs: "\<And>e. refs e + (if j_callback (s_jobs (tw_sched w) ! i) = Some e then 1 else 0) =
      s_refs (tw_sched w) e + (if j_callback j = Some e then 1 else 0)"
  shows "task_inv (w\<lparr>tw_sched := s, tw_work := replace_work x [y] (tw_work w)\<rparr>)"
proof -
  note old = carrier_active [OF inv x]
  have carriers: "carriers k (y # remove1 x (tw_work w)) = carriers k (tw_work w)" for k
    using carriers_remove [OF x(1), of k] x(2) y by auto
  have none: "carriers i (remove1 x (tw_work w)) = 0"
    using carriers_remove [OF x(1), of i] x(2) old(2,3) by (simp add: slot_ok_def)
  have resets: "Reset k \<notin> set (y # remove1 x (tw_work w))" for k
    using calm y by (auto simp: calm_def dest: set_remove1_subset [THEN subsetD])
  have ok: "slot_ok i j (y # remove1 x (tw_work w))"
  proof -
    have "carriers i (y # remove1 x (tw_work w)) = 1" using none y by simp
    moreover have "Commit i c f \<notin> set (remove1 x (tw_work w))" for c f
      using carriers_zero [OF none] by fastforce
    ultimately show ?thesis using j commit calm y resets by (auto simp: slot_ok_def)
  qed
  show ?thesis
    unfolding append_Cons append_Nil
  proof (rule inv_update [OF inv old(1)])
    show "s_jobs s = (s_jobs (tw_sched w))[i := j]" by (simp add: s)
    show "Reset k \<in> set (y # remove1 x (tw_work w)) \<longleftrightarrow> Reset k \<in> set (tw_work w)" for k
      using calm resets by (simp add: calm_def)
    show "Commit k c f \<in> set (y # remove1 x (tw_work w)) \<Longrightarrow> Commit k c f \<in> set (tw_work w)" if "k \<noteq> i" for k c f
      using that y by (auto dest: set_remove1_subset [THEN subsetD])
    show "\<forall>z \<in> set (y # remove1 x (tw_work w)). slot_of z < length (s_jobs (tw_sched w))"
      using inv old(1) carries_slot [OF y] by (auto simp: task_inv_def dest: set_remove1_subset [THEN subsetD])
  qed (use ok carriers refs j(1) old(3) in \<open>simp_all add: s\<close>)
qed

lemma inv_carry_update:
  assumes "task_inv w" "calm w" "x \<in> set (tw_work w)" "carries x = Some i" "carries y = Some i"
    and "\<And>c f. y \<noteq> Commit i c f"
    and "j_active (f (s_jobs (tw_sched w) ! i))" "\<not> terminal (j_state (f (s_jobs (tw_sched w) ! i)))"
      "j_state (f (s_jobs (tw_sched w) ! i)) \<noteq> TASK_EMPTY"
      "j_callback (f (s_jobs (tw_sched w) ! i)) = j_callback (s_jobs (tw_sched w) ! i)"
  shows "task_inv (w\<lparr>tw_sched := update_job i f (tw_sched w), tw_work := y # remove1 x (tw_work w)\<rparr>)"
  using inv_carry [OF assms(1-5), where j = "f (s_jobs (tw_sched w) ! i)" and refs = "s_refs (tw_sched w)", OF refl]
    assms(6-) by (simp add: update_job_def)

lemma slot_with_sound: "slot_with P i xs = Some k \<Longrightarrow> i \<le> k \<and> k - i < length xs \<and> P (xs ! (k - i))"
proof (induction xs arbitrary: i)
  case (Cons x xs)
  then show ?case
    by (cases "P x") (auto simp: Suc_le_eq nth_Cons' dest!: Cons.IH split: if_splits)
qed simp

lemma find_sound: "find_locked s tid = Some i \<Longrightarrow> i < length (s_jobs s)"
  using slot_with_sound unfolding find_locked_def by fastforce

lemma calm_inactive:
  assumes "task_inv w" "calm w" "i < length (s_jobs (tw_sched w))" "\<not> j_active (s_jobs (tw_sched w) ! i)"
  shows "carriers i (tw_work w) = 0" "j_callback (s_jobs (tw_sched w) ! i) = None"
  using assms by (auto simp: task_inv_def slot_ok_def calm_def)

lemma inv_spawn:
  assumes inv: "task_inv w" and calm: "calm w"
    and spawn: "spawn_reserve ctx_closing cb completion auto_drop (tw_sched w) = Inr (i, s)"
  shows "task_inv (w\<lparr>tw_sched := s, tw_work := Submit i # tw_work w\<rparr>)"
proof -
  have "slot_with (\<lambda>j. j_state j = TASK_EMPTY) 0 (s_jobs (tw_sched w)) = Some i"
    using spawn by (auto simp: spawn_reserve_def Let_def split: if_splits option.splits)
  from slot_with_sound [OF this] have i: "i < length (s_jobs (tw_sched w))" "j_state (s_jobs (tw_sched w) ! i) = TASK_EMPTY"
    by simp_all
  with inv have inactive: "\<not> j_active (s_jobs (tw_sched w) ! i)" by (auto simp: task_inv_def slot_ok_def)
  note free = calm_inactive [OF inv calm i(1) inactive]
  show ?thesis
  proof (rule inv_update [OF inv i(1)])
    show "s_jobs s = (s_jobs (tw_sched w))[i := s_jobs s ! i]"
      using spawn i by (auto simp: spawn_reserve_def Let_def update_job_def split: if_splits option.splits)
    show "slot_ok i (s_jobs s ! i) (Submit i # tw_work w)"
      using spawn i free calm carriers_zero [OF free(1)]
      by (fastforce simp: spawn_reserve_def Let_def update_job_def slot_ok_def calm_def
          split: if_splits option.splits)
    show "s_refs s e + (if j_callback (s_jobs (tw_sched w) ! i) = Some e then 1 else 0) =
      s_refs (tw_sched w) e + (if j_callback (s_jobs s ! i) = Some e then 1 else 0)" for e
      using spawn i free by (auto simp: spawn_reserve_def Let_def update_job_def split: if_splits option.splits)
    show "s_active_count s + (if j_active (s_jobs (tw_sched w) ! i) then 1 else 0) =
      s_active_count (tw_sched w) + (if j_active (s_jobs s ! i) then 1 else 0)"
      using spawn i inactive by (auto simp: spawn_reserve_def Let_def update_job_def split: if_splits option.splits)
  qed (use inv i in \<open>auto simp: task_inv_def\<close>)
qed

lemma in_remove1: "z \<in> set (remove1 x ws) \<Longrightarrow> z \<in> set ws"
  using set_remove1_subset by fastforce

text \<open>The last carrier of a job goes, and the job is inactive from then on.\<close>

lemma inv_drop:
  assumes inv: "task_inv w" and calm: "calm w"
    and x: "x \<in> set (tw_work w)" "carries x = Some i" and ws: "ws = [] \<or> ws = [Reset i]"
    and s: "s_jobs s = (s_jobs (tw_sched w))[i := j]" "s_active_count s = s_active_count (tw_sched w) - 1"
      "s_refs s = s_refs (tw_sched w)"
    and j: "\<not> j_active j" "j_callback j = j_callback (s_jobs (tw_sched w) ! i)" "ws = [] \<Longrightarrow> j_callback j = None"
  shows "task_inv (w\<lparr>tw_sched := s, tw_work := replace_work x ws (tw_work w)\<rparr>)"
proof -
  note old = carrier_active [OF inv x]
  have none: "carriers i (remove1 x (tw_work w)) = 0"
    using carriers_remove [OF x(1), of i] x(2) old(2,3) by (simp add: slot_ok_def)
  have "Commit i c f \<notin> set (remove1 x (tw_work w))" for c f
    using carriers_zero [OF none] by fastforce
  then have ok: "slot_ok i j (ws @ remove1 x (tw_work w))"
    using none ws j calm by (auto simp: slot_ok_def calm_def)
  have "0 < s_active_count (tw_sched w)"
  proof -
    have "s_jobs (tw_sched w) ! i \<in> set (filter j_active (s_jobs (tw_sched w)))" using old(1,3) by simp
    then have "0 < active_jobs (tw_sched w)" unfolding active_jobs_def by (rule length_pos_if_in_set)
    with inv show ?thesis by (simp add: task_inv_def)
  qed
  moreover have "carriers k (ws @ remove1 x (tw_work w)) = carriers k (tw_work w)" if "k \<noteq> i" for k
    using carriers_remove [OF x(1), of k] x(2) that ws by auto
  moreover have "Reset k \<in> set (ws @ remove1 x (tw_work w)) \<longleftrightarrow> Reset k \<in> set (tw_work w)" if "k \<noteq> i" for k
    using calm that ws by (auto simp: calm_def dest: in_remove1)
  ultimately show ?thesis
    using inv old(1,3) ws j
    by (intro inv_update [OF inv old(1) _ ok]) (auto simp: s task_inv_def dest: in_remove1)
qed

lemma inv_rollback:
  assumes "task_inv w" "calm w" "Rollback i \<in> set (tw_work w)"
  shows "task_inv (w\<lparr>tw_sched := spawn_rollback i (tw_sched w), tw_work := replace_work (Rollback i) [Reset i] (tw_work w)\<rparr>)"
proof -
  note old = carrier_active [OF assms(1,3), of i, simplified]
  show ?thesis
    by (rule inv_drop [OF assms, where j = "(s_jobs (tw_sched w) ! i)\<lparr>j_active := False, j_state := TASK_EMPTY\<rparr>"])
      (use old(1,3) in \<open>simp_all add: spawn_rollback_def deactivate_locked_def update_job_def\<close>)
qed

lemma inv_commit:
  assumes "task_inv w" "calm w" "Commit i c f \<in> set (tw_work w)"
  shows "task_inv (w\<lparr>tw_sched := finish_commit c f i (tw_sched w),
      tw_work := replace_work (Commit i c f)
        (if j_auto_release (s_jobs (tw_sched w) ! i) then [Reset i] else []) (tw_work w)\<rparr>)"
proof -
  note old = carrier_active [OF assms(1,3), of i, simplified]
  let ?st = "if c then TASK_CANCELLED else if f then TASK_FAILED else TASK_COMPLETED"
  have "j_callback (s_jobs (tw_sched w) ! i) = None" using old(2) assms(3) by (auto simp: slot_ok_def)
  then show ?thesis
    by (intro inv_drop [OF assms, where j = "(s_jobs (tw_sched w) ! i)\<lparr>j_await_active := False, j_state := ?st, j_active := False\<rparr>"])
      (use old(1,3) in \<open>auto simp: finish_commit_def deactivate_locked_def update_job_def\<close>)
qed

lemma inv_finish:
  assumes "task_inv w" "calm w" "Finish i forced \<in> set (tw_work w)"
    and "finish_prepare forced i (tw_sched w) = (c, f, s)"
  shows "task_inv (w\<lparr>tw_sched := s, tw_work := replace_work (Finish i forced) [Commit i c f] (tw_work w)\<rparr>)"
proof -
  note old = carrier_active [OF assms(1,3), of i, simplified]
  let ?s = "tw_sched w" let ?j = "s_jobs ?s ! i"
  have pos: "0 < s_refs ?s e" if "j_callback ?j = Some e" for e
  proof -
    have "?j \<in> set (filter (\<lambda>j. j_callback j = Some e) (s_jobs ?s))" using old(1) that by simp
    then have "0 < ref_holders e ?s" unfolding ref_holders_def by (rule length_pos_if_in_set)
    with assms(1) show ?thesis by (simp add: task_inv_def)
  qed
  obtain error where s: "s = release_callback i (update_job i (\<lambda>j. j\<lparr>j_error := error\<rparr>) ?s)"
    using assms(4) by (auto simp: finish_prepare_def Let_def)
  define refs where "refs = (case j_callback ?j of None \<Rightarrow> s_refs ?s | Some e \<Rightarrow> (s_refs ?s)(e := s_refs ?s e - 1))"
  define j where "j = s_jobs s ! i"
  have "s = ?s\<lparr>s_jobs := (s_jobs ?s)[i := j], s_refs := refs\<rparr>"
    using old(1) by (auto simp: j_def s release_callback_def update_job_def refs_def split: option.split)
  moreover have "j_active j" "j_state j = j_state ?j" "j_callback j = None"
    using old(1,3) by (auto simp: j_def s release_callback_def update_job_def split: option.split)
  moreover have "s_refs ?s e = refs e + (if j_callback ?j = Some e then 1 else 0)" for e
    using pos by (auto simp: refs_def split: option.split)
  ultimately show ?thesis
    using old(4,5) by (intro inv_carry [OF assms(1-3), where j = j and refs = refs]) simp_all
qed

lemma inv_reset:
  assumes "task_inv w" "Reset i \<in> set (tw_work w)"
  shows "task_inv (w\<lparr>tw_sched := reset_job i (tw_sched w), tw_work := replace_work (Reset i) [] (tw_work w)\<rparr>)"
proof -
  let ?s = "tw_sched w" let ?j = "s_jobs ?s ! i"
  have i: "i < length (s_jobs ?s)" using assms by (auto simp: task_inv_def)
  with assms have old: "slot_ok i ?j (tw_work w)" by (simp add: task_inv_def)
  with assms(2) have inactive: "\<not> j_active ?j" by (simp add: slot_ok_def)
  have pos: "0 < s_refs ?s e" if "j_callback ?j = Some e" for e
  proof -
    have "?j \<in> set (filter (\<lambda>j. j_callback j = Some e) (s_jobs ?s))" using i that by simp
    then have "0 < ref_holders e ?s" unfolding ref_holders_def by (rule length_pos_if_in_set)
    with assms(1) show ?thesis by (simp add: task_inv_def)
  qed
  have carriers: "carriers k (remove1 (Reset i) (tw_work w)) = carriers k (tw_work w)" for k
    using carriers_remove [OF assms(2), of k] by simp
  have resets: "Reset k \<in> set (remove1 (Reset i) (tw_work w)) \<longleftrightarrow> Reset k \<in> set (tw_work w)" if "k \<noteq> i" for k
    using that by simp
  show ?thesis
    unfolding append_Nil
  proof (rule inv_update [OF assms(1) i])
    show "s_jobs (reset_job i ?s) = (s_jobs ?s)[i := empty_job]"
      by (auto simp: reset_job_def release_callback_def update_job_def split: option.split)
    show "slot_ok i empty_job (remove1 (Reset i) (tw_work w))"
      using old inactive carriers [of i] by (simp add: slot_ok_def empty_job_def)
    show "s_refs (reset_job i ?s) e + (if j_callback ?j = Some e then 1 else 0) =
        s_refs ?s e + (if j_callback empty_job = Some e then 1 else 0)" for e
      using pos by (auto simp: reset_job_def release_callback_def update_job_def empty_job_def split: option.split)
    show "s_active_count (reset_job i ?s) + (if j_active ?j then 1 else 0) =
        s_active_count ?s + (if j_active empty_job then 1 else 0)"
      using inactive by (auto simp: reset_job_def release_callback_def update_job_def empty_job_def split: option.split)
  qed (use assms(1) carriers resets in \<open>auto simp: task_inv_def dest: in_remove1\<close>)
qed

lemma inv_cancel:
  assumes "task_inv w" "Cancel i \<in> set (tw_work w)"
  shows "task_inv (w\<lparr>tw_sched := snd (request_cancel i (tw_sched w)), tw_work := replace_work (Cancel i) [] (tw_work w)\<rparr>)"
proof -
  let ?s = "tw_sched w" let ?j = "s_jobs ?s ! i" let ?ws = "remove1 (Cancel i) (tw_work w)"
  have i: "i < length (s_jobs ?s)" using assms by (auto simp: task_inv_def)
  with assms have old: "slot_ok i ?j (tw_work w)" by (simp add: task_inv_def)
  have carriers: "carriers k ?ws = carriers k (tw_work w)" for k
    using carriers_remove [OF assms(2), of k] by simp
  have kept: "Reset k \<in> set ?ws \<longleftrightarrow> Reset k \<in> set (tw_work w)" "Commit k c f \<in> set ?ws \<longleftrightarrow> Commit k c f \<in> set (tw_work w)"
    for k c f by (simp_all add: in_set_remove1)
  show ?thesis
    unfolding append_Nil
  proof (rule inv_update [OF assms(1) i, where j = "s_jobs (snd (request_cancel i ?s)) ! i"])
    show "slot_ok i (s_jobs (snd (request_cancel i ?s)) ! i) ?ws"
      using old i carriers [of i] kept by (auto simp: slot_ok_def request_cancel_def Let_def update_job_def)
  qed (use assms(1) i carriers kept in
      \<open>auto simp: task_inv_def request_cancel_def Let_def update_job_def dest: in_remove1\<close>)
qed

lemma inv_more_work:
  assumes "task_inv w"
    and "\<forall>x \<in> set xs. carries x = None \<and> slot_of x < length (s_jobs (tw_sched w)) \<and>
      (\<forall>i. x = Reset i \<longrightarrow> \<not> j_active (s_jobs (tw_sched w) ! i))"
  shows "task_inv (w\<lparr>tw_work := xs @ tw_work w\<rparr>)"
proof -
  have "carriers i xs = 0" for i using assms(2) by (auto simp: carriers_def filter_empty_conv)
  with assms show ?thesis by (fastforce simp: task_inv_def slot_ok_def)
qed

lemma inv_flags [simp]:
  "task_inv (w\<lparr>tw_ctx_closing := b\<rparr>) = task_inv w"
  "task_inv (w\<lparr>tw_sched := (tw_sched w)\<lparr>s_closing := b\<rparr>, tw_work := ws\<rparr>) = task_inv (w\<lparr>tw_work := ws\<rparr>)"
  by (simp_all add: task_inv_def active_jobs_def ref_holders_def)

lemma inv_same_work:
  assumes "task_inv w" "calm w" "Body i \<in> set (tw_work w)"
  shows "task_inv (w\<lparr>tw_sched := task_fail m i (tw_sched w)\<rparr>)"
proof -
  note old = carrier_active [OF assms(1,3), of i, simplified]
  have "task_inv (w\<lparr>tw_sched := task_fail m i (tw_sched w), tw_work := tw_work w\<rparr>)"
    by (rule inv_update [OF assms(1) old(1), where j = "s_jobs (task_fail m i (tw_sched w)) ! i"])
      (use assms(1) old in \<open>auto simp: task_fail_def update_job_def slot_ok_def task_inv_def\<close>)
  then show ?thesis by simp
qed

lemma step_keeps_inv:
  assumes "task_step w w'" "task_inv w" "calm w"
  shows "task_inv w'"
  using assms
proof (cases rule: task_step.cases)
  case (submitted i)
  with carrier_active [OF assms(2), of "Submit i" i] show ?thesis
    unfolding submitted init_env_def append_Cons append_Nil by (intro inv_carry_update [OF assms(2,3)]) simp_all
next
  case (refused i)
  with carrier_active [OF assms(2), of "Submit i" i] show ?thesis
    unfolding refused init_env_def append_Cons append_Nil by (intro inv_carry_update [OF assms(2,3)]) simp_all
next
  case (run i called s)
  with carrier_active [OF assms(2), of "Queued i" i] show ?thesis
    unfolding run(1) append_Cons append_Nil
    by (auto simp: run_begin_def Let_def split: if_splits intro!: inv_carry_update [OF assms(2,3)])
next
  case (dropped i)
  with carrier_active [OF assms(2), of "Queued i" i] show ?thesis
    unfolding dropped append_Cons append_Nil by (intro inv_carry_update [OF assms(2,3)]) simp_all
next
  case (wait i)
  with carrier_active [OF assms(2), of "Body i" i] show ?thesis
    unfolding wait wait_begin_def append_Cons append_Nil by (intro inv_carry_update [OF assms(2,3)]) simp_all
next
  case (resume i)
  with carrier_active [OF assms(2), of "Awaiting i" i] show ?thesis
    unfolding resume wait_end_def append_Cons append_Nil by (intro inv_carry_update [OF assms(2,3)]) simp_all
next
  case (returns i result failed m over_quota)
  with carrier_active [OF assms(2), of "Body i" i] show ?thesis
    unfolding returns run_return_def append_Cons append_Nil by (intro inv_carry_update [OF assms(2,3)]) simp_all
next
  case (cancel_found tid i)
  with inv_more_work [OF assms(2), of "[Cancel i]"] find_sound show ?thesis by simp
next
  case (release tid i)
  then have "i < length (s_jobs (tw_sched w))" "terminal (j_state (s_jobs (tw_sched w) ! i))"
    by (auto simp: release_find_def find_sound split: option.splits if_splits)
  with assms(2) have "\<not> j_active (s_jobs (tw_sched w) ! i)" by (auto simp: task_inv_def slot_ok_def)
  with inv_more_work [OF assms(2), of "[Reset i]"] \<open>i < _\<close> release show ?thesis by simp
next
  case shutdown
  with inv_more_work [OF assms(2), of "map Cancel [0 ..< length (s_jobs (tw_sched w))]"] show ?thesis by auto
next
  case (spawn cb completion auto_drop i s)
  show ?thesis unfolding spawn(1) by (rule inv_spawn [OF assms(2,3) spawn(2)])
next
  case (rollback i)
  show ?thesis unfolding rollback(1) by (rule inv_rollback [OF assms(2,3) rollback(2)])
next
  case (reset i)
  show ?thesis unfolding reset(1) by (rule inv_reset [OF assms(2) reset(2)])
next
  case (cancel i)
  show ?thesis unfolding cancel(1) by (rule inv_cancel [OF assms(2) cancel(2)])
next
  case (fails i m)
  show ?thesis unfolding fails(1) by (rule inv_same_work [OF assms(2,3) fails(2)])
next
  case (finish i forced c f s)
  show ?thesis unfolding finish(1) by (rule inv_finish [OF assms(2,3) finish(2,3)])
next
  case (commit i c f)
  show ?thesis unfolding commit(1) by (rule inv_commit [OF assms(2,3) commit(2)])
next
  case close
  then show ?thesis using assms(2) by simp
qed

lemma start_inv: "0 < cap \<Longrightarrow> cap \<le> 65536 \<Longrightarrow> task_inv (task_start cap)"
  by (auto simp: task_start_def ts_task_scheduler_init_def task_inv_def slot_ok_def active_jobs_def ref_holders_def
      empty_job_def)

lemma serial_keeps_inv: "serial_step w w' \<Longrightarrow> task_inv w \<Longrightarrow> task_inv w'"
  by (induction rule: serial_step.induct) (simp_all only: step_keeps_inv inv_reset)

lemma reachable_inv:
  assumes "serial_step\<^sup>*\<^sup>* (task_start cap) w" "0 < cap" "cap \<le> 65536"
  shows "task_inv w"
  using assms(1) start_inv [OF assms(2,3)] by (induction rule: rtranclp_induct) (auto intro: serial_keeps_inv)

text \<open>
  C32: The books of the task scheduler stay right.  When \<^verbatim>\<open>reset_job\<close> follows the section that decided on it
  without another step in between, then after every interleaving of spawns, submissions, cancellations,
  callbacks, waits, ends and releases: \<^verbatim>\<open>active_count\<close> is the number of active jobs; every active job is
  neither over nor empty and has exactly one piece of work under way that carries it to its end, so
  that no task is lost or run twice; and the references held on captured scopes are exactly those of
  the jobs that keep their callback.
\<close>

theorem task_books_balance:
  assumes "serial_step\<^sup>*\<^sup>* (task_start cap) w" "0 < cap" "cap \<le> 65536"
  shows "s_active_count (tw_sched w) = active_jobs (tw_sched w) \<and>
     (\<forall>e. s_refs (tw_sched w) e = ref_holders e (tw_sched w)) \<and>
     (\<forall>i < length (s_jobs (tw_sched w)).
        let j = s_jobs (tw_sched w) ! i in
        carriers i (tw_work w) = (if j_active j then 1 else 0) \<and>
        (j_active j \<longrightarrow> \<not> terminal (j_state j) \<and> j_state j \<noteq> TASK_EMPTY) \<and>
        (j_callback j \<noteq> None \<longrightarrow> j_active j \<or> Reset i \<in> set (tw_work w)))"
  using reachable_inv [OF assms] by (auto simp: task_inv_def slot_ok_def Let_def)

lemmas job_changes =
  update_job_def init_env_def spawn_rollback_def deactivate_locked_def release_callback_def request_cancel_def
  run_begin_def wait_begin_def wait_end_def task_fail_def run_return_def finish_prepare_def finish_commit_def
  reset_job_def Let_def

lemma ended_job_kept:
  assumes "task_step w w'" "task_inv w" "calm w"
    and "i < length (s_jobs (tw_sched w))" "terminal (j_state (s_jobs (tw_sched w) ! i))"
  shows "s_jobs (tw_sched w') ! i = s_jobs (tw_sched w) ! i"
proof -
  have other: "k \<noteq> i" if "x \<in> set (tw_work w)" "carries x = Some k" for x k
    using carrier_active(4) [OF assms(2) that] assms(5) by auto
  show ?thesis
    using assms(1)
  proof (cases rule: task_step.cases)
    case (spawn cb completion auto_drop k s)
    then have "slot_with (\<lambda>j. j_state j = TASK_EMPTY) 0 (s_jobs (tw_sched w)) = Some k"
      by (auto simp: spawn_reserve_def Let_def split: if_splits option.splits)
    from slot_with_sound [OF this] assms(5) have "k \<noteq> i" by auto
    with spawn show ?thesis by (auto simp: spawn_reserve_def job_changes split: if_splits option.splits)
  next
    case (submitted k) with other show ?thesis by (fastforce simp: job_changes)
  next
    case (refused k) with other show ?thesis by (fastforce simp: job_changes)
  next
    case (rollback k) with other show ?thesis by (fastforce simp: job_changes)
  next
    case (reset k) with assms(3) show ?thesis by (simp add: calm_def)
  next
    case (cancel k) with assms(5) show ?thesis by (cases "k = i") (auto simp: job_changes)
  next
    case (run k called s) with other show ?thesis by (fastforce simp: job_changes split: if_splits)
  next
    case (dropped k) with other show ?thesis by (fastforce simp: job_changes)
  next
    case (wait k) with other show ?thesis by (fastforce simp: job_changes)
  next
    case (resume k) with other show ?thesis by (fastforce simp: job_changes)
  next
    case (fails k m) with other show ?thesis by (fastforce simp: job_changes)
  next
    case (returns k result failed m over_quota) with other show ?thesis by (fastforce simp: job_changes)
  next
    case (finish k forced c f s) with other show ?thesis by (fastforce simp: job_changes split: option.splits)
  next
    case (commit k c f) with other show ?thesis by (fastforce simp: job_changes)
  qed auto
qed

text \<open>
  C33: The end of a task is final, in runs in which \<^verbatim>\<open>reset_job\<close> follows the section that decided on it
  without another step in between.  In such a run every step (of a spawn, submission, cancellation,
  callback, wait, end or release, of whatever task) leaves the state, result and error of a task that has
  completed, failed or been cancelled as they are, except the reset of its job; and its job is reset only
  when a release or its own automatic release has asked for that.  When other steps come between a
  decision and its reset, the job can be another one's by then; see the races below.
\<close>

theorem task_end_is_final:
  assumes "serial_step\<^sup>*\<^sup>* (task_start cap) w" "0 < cap" "cap \<le> 65536" "serial_step w w'"
    and "i < length (s_jobs (tw_sched w))" "terminal (j_state (s_jobs (tw_sched w) ! i))"
  shows "s_jobs (tw_sched w') ! i = s_jobs (tw_sched w) ! i \<or>
     Reset i \<in> set (tw_work w) \<and> s_jobs (tw_sched w') ! i = empty_job"
  using assms(4)
proof cases
  case other
  with ended_job_kept [OF _ reachable_inv [OF assms(1-3)]] assms(5,6) show ?thesis by blast
next
  case (reset_now k)
  with assms(5) show ?thesis
    by (cases "k = i") (auto simp: reset_job_def update_job_def release_callback_def split: option.split)
qed

section \<open>Races\<close>

text \<open>Concrete worlds with one slot, and their jobs.\<close>

definition world_1 :: "job \<Rightarrow> nat \<Rightarrow> int \<Rightarrow> work list \<Rightarrow> task_world" where
  "world_1 j n next ws =
     \<lparr>tw_sched = \<lparr>s_jobs = [j], s_active_count = n, s_next_id = next, s_closing = False, s_refs = (\<lambda>e. 0)\<rparr>,
      tw_ctx_closing = False, tw_work = ws\<rparr>"

definition example_job :: "int \<Rightarrow> task_state \<Rightarrow> bool \<Rightarrow> bool \<Rightarrow> bool \<Rightarrow> job" where
  "example_job tid st active auto_drop env =
     empty_job\<lparr>j_id := tid, j_state := st, j_active := active, j_auto_release := auto_drop,
               j_env_initialized := env, j_result := ENumber 0\<rparr>"

lemmas example_defs = world_1_def example_job_def empty_job_def

lemma start_world: "task_start 1 = world_1 empty_job 0 0 []"
  by (simp add: task_start_def ts_task_scheduler_init_def world_1_def)

lemma spawn_1:
  assumes "j_state j = TASK_EMPTY" "0 \<le> next"
  shows "task_step (world_1 j n next ws)
     (world_1 (j\<lparr>j_id := next + 1, j_callback := None, j_completion := None, j_auto_release := auto_drop,
                j_result := ENumber 0, j_active := True, j_state := TASK_SCHEDULED\<rparr>) (n + 1) (next + 1) (Submit 0 # ws))"
  using task_step.spawn [of "world_1 j n next ws" None None auto_drop 0] assms
  by (simp add: world_1_def spawn_reserve_def update_job_def Let_def)

lemma submit_1:
  "task_step (world_1 j n next (Submit 0 # ws))
     (world_1 (j\<lparr>j_env_initialized := True, j_env_failed := False, j_env_error := []\<rparr>) n next (Queued 0 # ws))"
  "task_step (world_1 j n next (Submit 0 # ws))
     (world_1 (j\<lparr>j_env_initialized := True, j_env_failed := False, j_env_error := []\<rparr>) n next (Rollback 0 # ws))"
  using task_step.submitted [of 0 "world_1 j n next (Submit 0 # ws)"]
    task_step.refused [of 0 "world_1 j n next (Submit 0 # ws)"]
  by (simp_all add: world_1_def init_env_def update_job_def)

lemma rollback_1:
  "j_active j \<Longrightarrow> task_step (world_1 j n next (Rollback 0 # ws))
     (world_1 (j\<lparr>j_active := False, j_state := TASK_EMPTY\<rparr>) (n - 1) next (Reset 0 # ws))"
  using task_step.rollback [of 0 "world_1 j n next (Rollback 0 # ws)"]
  by (simp add: world_1_def spawn_rollback_def deactivate_locked_def update_job_def)

lemma reset_1:
  "j_callback j = None \<Longrightarrow> Reset 0 \<in> set ws \<Longrightarrow>
   task_step (world_1 j n next ws) (world_1 empty_job n next (remove1 (Reset 0) ws))"
  using task_step.reset [of 0 "world_1 j n next ws"]
  by (simp add: world_1_def reset_job_def release_callback_def update_job_def)

lemma cancel_found_1:
  "j_id j = tid \<Longrightarrow> j_state j \<noteq> TASK_EMPTY \<Longrightarrow> task_step (world_1 j n next ws) (world_1 j n next (Cancel 0 # ws))"
  using task_step.cancel_found [of "world_1 j n next ws" tid 0] by (simp add: world_1_def find_locked_def)

lemma cancel_1:
  "\<not> terminal (j_state j) \<Longrightarrow> \<not> j_cancelled j \<Longrightarrow>
   task_step (world_1 j n next (Cancel 0 # ws)) (world_1 (j\<lparr>j_cancelled := True, j_state := TASK_CANCELLING\<rparr>) n next ws)"
  using task_step.cancel [of 0 "world_1 j n next (Cancel 0 # ws)"]
  by (simp add: world_1_def request_cancel_def update_job_def Let_def)

lemma run_1:
  "j_state j = TASK_SCHEDULED \<Longrightarrow> \<not> j_cancelled j \<Longrightarrow> Queued 0 \<in> set ws \<Longrightarrow>
   task_step (world_1 j n next ws)
     (world_1 (j\<lparr>j_state := TASK_RUNNING, j_env_failed := False, j_env_error := []\<rparr>) n next (Body 0 # remove1 (Queued 0) ws))"
  using task_step.run [of 0 "world_1 j n next ws" True] by (simp add: world_1_def run_begin_def update_job_def Let_def)

lemma return_1:
  "task_step (world_1 j n next (Body 0 # ws))
     (world_1 (j\<lparr>j_result := v, j_native_failed := j_native_failed j, j_env_failed := j_env_failed j,
                j_env_error := j_env_error j, j_error := j_error j\<rparr>) n next (Finish 0 False # ws))"
  using task_step.returns [of 0 "world_1 j n next (Body 0 # ws)" v False "[]" False]
  by (simp add: world_1_def run_return_def update_job_def)

lemma finish_1:
  "j_callback j = None \<Longrightarrow> \<not> j_cancelled j \<Longrightarrow> \<not> j_native_failed j \<Longrightarrow> \<not> j_env_failed j \<Longrightarrow>
   task_step (world_1 j n next (Finish 0 False # ws)) (world_1 (j\<lparr>j_error := j_error j\<rparr>) n next (Commit 0 False False # ws))"
  using task_step.finish [of 0 False "world_1 j n next (Finish 0 False # ws)" False False]
  by (simp add: world_1_def finish_prepare_def release_callback_def update_job_def Let_def)

lemma commit_1:
  "j_active j \<Longrightarrow> j_auto_release j \<Longrightarrow>
   task_step (world_1 j n next (Commit 0 False False # ws))
     (world_1 (j\<lparr>j_await_active := False, j_state := TASK_COMPLETED, j_active := False\<rparr>) (n - 1) next (Reset 0 # ws))"
  using task_step.commit [of 0 False False "world_1 j n next (Commit 0 False False # ws)"]
  by (simp add: world_1_def finish_commit_def deactivate_locked_def update_job_def)

lemma calm_1 [simp]: "calm (world_1 j n next ws) \<longleftrightarrow> (\<forall>i. Reset i \<notin> set ws)"
  by (simp add: calm_def world_1_def)

lemma serial_chain: "calm w \<Longrightarrow> task_step w w' \<Longrightarrow> serial_step\<^sup>*\<^sup>* w' v \<Longrightarrow> serial_step\<^sup>*\<^sup>* w v"
  by (rule converse_rtranclp_into_rtranclp [of serial_step, OF serial_step.other])

text \<open>A task that is spawned, runs, returns and ends, one step after the other.\<close>

definition ended_job :: job where
  "ended_job = (example_job 1 TASK_COMPLETED False True True)\<lparr>j_result := ENumber 7\<rparr>"

lemma serial_run:
  shows running_world: "serial_step\<^sup>*\<^sup>* (task_start 1) (world_1 (example_job 1 TASK_RUNNING True True True) 1 1 [Body 0])"
    and ended_world: "serial_step\<^sup>*\<^sup>* (task_start 1) (world_1 ended_job 0 1 [Reset 0])"
proof -
  note chain = serial_chain and last = serial_chain [OF _ _ rtranclp.rtrancl_refl]
  let ?running = "example_job 1 TASK_RUNNING True True True"
  show running: "serial_step\<^sup>*\<^sup>* (task_start 1) (world_1 ?running 1 1 [Body 0])"
    unfolding start_world
    apply (rule chain, simp, rule spawn_1 [where auto_drop = True], simp add: empty_job_def, simp)
    apply (rule chain, simp, rule submit_1(1))
    apply (rule last, simp)
    subgoal using run_1 [of "example_job 1 TASK_SCHEDULED True True True" "[Queued 0]" 1 1] by (simp add: example_job_def empty_job_def)
    done
  have "serial_step\<^sup>*\<^sup>* (world_1 ?running 1 1 [Body 0]) (world_1 ended_job 0 1 [Reset 0])"
    apply (rule chain, simp, rule return_1 [where v = "ENumber 7"])
    apply (rule chain, simp, rule finish_1)
        apply (simp_all add: example_job_def empty_job_def)
    apply (rule last, simp)
    subgoal using commit_1 [of "(example_job 1 TASK_RUNNING True True True)\<lparr>j_result := ENumber 7\<rparr>" 1 1 "[]"]
      by (simp add: ended_job_def example_job_def empty_job_def)
    done
  with running show "serial_step\<^sup>*\<^sup>* (task_start 1) (world_1 ended_job 0 1 [Reset 0])" by (rule rtranclp_trans)
qed

theorem task_books_balance_witness:
  "s_active_count (tw_sched (world_1 (example_job 1 TASK_RUNNING True True True) 1 1 [Body 0])) = 1 \<and>
   active_jobs (tw_sched (world_1 (example_job 1 TASK_RUNNING True True True) 1 1 [Body 0])) = 1 \<and>
   carriers 0 [Body 0] = 1"
  using task_books_balance [OF running_world] by (simp add: world_1_def example_job_def Let_def)

theorem task_end_is_final_witness:
  "\<exists>w'. serial_step (world_1 ended_job 0 1 [Reset 0]) w' \<and>
     (s_jobs (tw_sched w') ! 0 = ended_job \<or> s_jobs (tw_sched w') ! 0 = empty_job)"
  using serial_step.reset_now [of 0 "world_1 ended_job 0 1 [Reset 0]"]
    task_end_is_final [OF ended_world, of _ 0]
  by (fastforce simp: world_1_def ended_job_def example_job_def)

lemma refused_spawn_race:
  "\<exists>w. task_step\<^sup>*\<^sup>* (task_start 1) w \<and> s_active_count (tw_sched w) = 1 \<and> active_jobs (tw_sched w) = 0 \<and>
     tw_work w = [Queued 0]"
proof -
  note chain = converse_rtranclp_into_rtranclp
  have "task_step\<^sup>*\<^sup>* (task_start 1) (world_1 empty_job 1 2 [Queued 0])"
    unfolding start_world
    apply (rule chain, rule spawn_1 [where auto_drop = False], simp add: empty_job_def, simp)
    apply (rule chain, rule submit_1(2))
    apply (rule chain, rule rollback_1, simp)
    apply (rule chain, rule spawn_1 [where auto_drop = False], simp, simp)
    apply (rule chain, rule submit_1(1))
    apply (rule r_into_rtranclp)
    subgoal using reset_1 [of _ "[Queued 0, Reset 0]" 1 2] by simp
    done
  then show ?thesis by (intro exI conjI) (auto simp: world_1_def active_jobs_def empty_job_def)
qed

lemma late_cancel_race:
  "\<exists>w. task_step\<^sup>*\<^sup>* (task_start 1) w \<and> tw_work w = [] \<and> active_jobs (tw_sched w) = 0 \<and>
     (\<forall>cb completion auto_drop.
        spawn_reserve (tw_ctx_closing w) cb completion auto_drop (tw_sched w) =
          Inl ''task.spawn: registry capacity exhausted; release completed tasks'')"
proof -
  note chain = converse_rtranclp_into_rtranclp
  have "task_step\<^sup>*\<^sup>* (task_start 1)
      (world_1 (empty_job\<lparr>j_cancelled := True, j_state := TASK_CANCELLING\<rparr>) 0 1 [])"
    unfolding start_world
    apply (rule chain, rule spawn_1 [where auto_drop = True], simp add: empty_job_def, simp)
    apply (rule chain, rule submit_1(1))
    apply (rule chain, rule cancel_found_1 [where tid = 1], simp, simp)
    apply (rule chain, rule run_1, simp, simp add: empty_job_def, simp)
    apply (rule chain, rule return_1 [where v = ENull])
    apply (rule chain, rule finish_1, simp, simp add: empty_job_def, simp add: empty_job_def, simp)
    apply (rule chain, rule commit_1, simp, simp)
    apply (rule chain, rule reset_1, simp, simp)
    apply (rule r_into_rtranclp)
    subgoal using cancel_1 [of empty_job 0 1 "[]"] by (simp add: empty_job_def)
    done
  then show ?thesis
    by (intro exI conjI) (auto simp: world_1_def active_jobs_def empty_job_def spawn_reserve_def)
qed

text \<open>
  Two interleavings that go wrong.  In a scheduler with one slot, a spawn that the executor refuses
  sets the slot to empty and resets it after the mutex is released; a second spawn in between loses its
  job, and the count of active jobs is never right again: it is 1 with no active job.  And a cancellation
  that has found a job which then ends and is released marks the empty slot as cancelling: nothing is
  under way, no job is active, and yet every later spawn is refused for want of a slot.
\<close>

theorem task_races:
  "(\<exists>w. task_step\<^sup>*\<^sup>* (task_start 1) w \<and> s_active_count (tw_sched w) = 1 \<and> active_jobs (tw_sched w) = 0 \<and>
        tw_work w = [Queued 0]) \<and>
   (\<exists>w. task_step\<^sup>*\<^sup>* (task_start 1) w \<and> tw_work w = [] \<and> active_jobs (tw_sched w) = 0 \<and>
        (\<forall>cb completion auto_drop.
           spawn_reserve (tw_ctx_closing w) cb completion auto_drop (tw_sched w) =
             Inl ''task.spawn: registry capacity exhausted; release completed tasks''))"
  using refused_spawn_race late_cancel_race by blast

end
