(* ===== verification/Eval_Values.thy ===== *)
theory Eval_Values
  imports Exprtk_Value "HOL-Library.Signed_Division"
begin

unbundle bit_operations_syntax

text \<open>
  What the tree evaluator computes on values, without its state: truth, text, the operators, indexing
  and slices (\<^verbatim>\<open>exprtk/src/exprtk_eval.c\<close> and the helpers in \<^verbatim>\<open>exprtk/src/exprtk_runtime.c\<close>).  The
  results are the arithmetic on 64-bit integers and its exact domain, and the types that operators
  give.
\<close>

section \<open>Floating point\<close>

text \<open>
  A double is its bit pattern.  Sign, order and absolute value are read off the pattern; the
  operations that round, and the conversions, are those of the machine, a record of functions.
  \<open>fp_to_int\<close> is the conversion \<^verbatim>\<open>(int)x\<close>, \<open>fp_print_g\<close> the text that \<^verbatim>\<open>%g\<close> gives.
\<close>

record fpu =
  fp_add :: "u64 \<Rightarrow> u64 \<Rightarrow> u64"
  fp_sub :: "u64 \<Rightarrow> u64 \<Rightarrow> u64"
  fp_mul :: "u64 \<Rightarrow> u64 \<Rightarrow> u64"
  fp_div :: "u64 \<Rightarrow> u64 \<Rightarrow> u64"
  fp_mod :: "u64 \<Rightarrow> u64 \<Rightarrow> u64"
  fp_pow :: "u64 \<Rightarrow> u64 \<Rightarrow> u64"
  fp_of_int :: "u64 \<Rightarrow> u64"
  fp_of_single :: "u32 \<Rightarrow> u64"
  fp_to_int :: "u64 \<Rightarrow> int"
  fp_print_g :: "u64 \<Rightarrow> bytes"

definition FP_ONE :: u64 where "FP_ONE = 0x3FF0000000000000"
definition FP_1e9 :: u64 where "FP_1e9 = 0x3E112E0BE826D695"
definition FP_1e15 :: u64 where "FP_1e15 = 0x3CD203AF9EE75616"

definition fp_abs :: "u64 \<Rightarrow> u64" where "fp_abs x = x AND 0x7FFFFFFFFFFFFFFF"
definition fp_nan :: "u64 \<Rightarrow> bool" where "fp_nan x \<longleftrightarrow> 0x7FF0000000000000 < fp_abs x"
definition fp_rank :: "u64 \<Rightarrow> int" where "fp_rank x = (if bit x 63 then - uint (fp_abs x) else uint (fp_abs x))"
definition fp_lt :: "u64 \<Rightarrow> u64 \<Rightarrow> bool" where "fp_lt x y \<longleftrightarrow> \<not> fp_nan x \<and> \<not> fp_nan y \<and> fp_rank x < fp_rank y"
definition fp_le :: "u64 \<Rightarrow> u64 \<Rightarrow> bool" where "fp_le x y \<longleftrightarrow> \<not> fp_nan x \<and> \<not> fp_nan y \<and> fp_rank x \<le> fp_rank y"

text \<open>\<^verbatim>\<open>exprtk_val_num(b)\<close> and \<^verbatim>\<open>exprtk_val_int(b)\<close> of a comparison.\<close>

definition num_bool :: "bool \<Rightarrow> exprtk_value" where "num_bool b = ENumber (if b then FP_ONE else 0)"
definition int_bool :: "bool \<Rightarrow> exprtk_value" where "int_bool b = EInteger (if b then 1 else 0)"

section \<open>Types, truth and text\<close>

fun value_type :: "exprtk_value \<Rightarrow> nat" where
  "value_type (ENumber x) = 0"
| "value_type (EString s v) = 1"
| "value_type (EInteger i) = 2"
| "value_type (EBool b) = 3"
| "value_type (EBytes s v) = 4"
| "value_type (EVector s v) = 5"
| "value_type (EMap t s) = (if t = VAL_MAP then 6 else 7)"
| "value_type ENull = 8"
| "value_type (ESeq k p xs) = (if k = VAL_LIST then 9 else 25)"
| "value_type (EBigint s v) = 21"
| "value_type (EEnum t s a n m v) = (if t = VAL_ENUM then 23 else 24)"
| "value_type (ETypedArray k s v) = 27"
| "value_type (EOpaque tag a) = tag"

definition TYPE_NAMES :: "(nat \<times> bytes) list" where
  "TYPE_NAMES =
     [(0, ''number''), (2, ''int64''), (3, ''bool''), (1, ''string''), (4, ''bytes''), (5, ''vector''), (6, ''map''),
      (7, ''object''), (8, ''null''), (9, ''list''), (25, ''set''), (10, ''function''), (12, ''class''),
      (13, ''instance''), (14, ''bound_method''), (15, ''uuid''), (16, ''datetime''), (17, ''date''), (18, ''time''),
      (19, ''duration''), (20, ''decimal''), (21, ''bigint''), (22, ''money''), (23, ''enum''), (24, ''flags''),
      (26, ''offset_datetime''), (27, ''typed_array'')]"

definition type_name :: "nat \<Rightarrow> bytes" where
  "type_name t = (case map_of TYPE_NAMES t of Some name \<Rightarrow> name | None \<Rightarrow> ''unknown'')"

fun val_to_double :: "fpu \<Rightarrow> exprtk_value \<Rightarrow> u64" where
  "val_to_double F (EInteger i) = fp_of_int F i"
| "val_to_double F (ENumber x) = x"
| "val_to_double F (EBool b) = (if b \<noteq> 0 then FP_ONE else 0)"
| "val_to_double F v = 0"

text \<open>Every opaque type counts as true, except coroutines, which \<^verbatim>\<open>eval_value_truthy\<close> does not list.\<close>

fun eval_value_truthy :: "exprtk_value \<Rightarrow> bool" where
  "eval_value_truthy (EBool b) = (b \<noteq> 0)"
| "eval_value_truthy (EInteger i) = (i \<noteq> 0)"
| "eval_value_truthy (ENumber x) = fp_lt FP_1e9 (fp_abs x)"
| "eval_value_truthy (EString s v) = (buf_size v > 0)"
| "eval_value_truthy (EBytes s v) = (buf_size v > 0)"
| "eval_value_truthy (EBigint s v) = (buf_size v > 0)"
| "eval_value_truthy (EEnum t s a n m i) = True"
| "eval_value_truthy (ETypedArray k s v) = (buf_size v > 0)"
| "eval_value_truthy (EVector s v) = (buf_size v > 0)"
| "eval_value_truthy (ESeq k p xs) = (buf_size xs > 0)"
| "eval_value_truthy (EMap t s) = (exprtk_map_count (EMap t s) > 0)"
| "eval_value_truthy (EOpaque tag a) = (tag \<in> set [10, 12, 13, 14, 15, 16, 17, 18, 19, 20, 22, 26])"
| "eval_value_truthy ENull = False"

text \<open>
  \<^verbatim>\<open>eval_value_text\<close>.  The buffer of 64 bytes holds every text written into it here.  The payload of
  opaque values is not represented, so their text is a parameter.
\<close>

record payload_ops =
  po_text :: "nat \<Rightarrow> addr \<Rightarrow> bytes option"
  po_equal :: "nat \<Rightarrow> addr \<Rightarrow> addr \<Rightarrow> bool"

fun eval_value_text :: "fpu \<Rightarrow> payload_ops \<Rightarrow> exprtk_value \<Rightarrow> bytes option" where
  "eval_value_text F P (EString s v) = Some (buf_elems v)"
| "eval_value_text F P (EInteger i) = Some (print_d (sint i))"
| "eval_value_text F P (ENumber x) = Some (fp_print_g F x)"
| "eval_value_text F P (EBool b) = Some (if b \<noteq> 0 then ''true'' else ''false'')"
| "eval_value_text F P (EBytes s v) = Some (''bytes('' @ decimal (unat (buf_size v)) @ '')'')"
| "eval_value_text F P (EBigint s v) = Some (buf_elems v)"
| "eval_value_text F P (EEnum t s a n m i) =
     Some (if buf_elems m \<noteq> [] then buf_elems m else print_d (sint i))"
| "eval_value_text F P ENull = Some ''null''"
| "eval_value_text F P (EOpaque tag a) = po_text P tag a"
| "eval_value_text F P v = None"

section \<open>Binary operators\<close>

text \<open>The tokens of the generated grammar that the evaluator tells apart.\<close>

datatype token =
    TOKEN_PLUS | TOKEN_MINUS | TOKEN_MULTIPLY | TOKEN_DIVIDE | TOKEN_MOD | TOKEN_POWER | TOKEN_EQ | TOKEN_NE
  | TOKEN_LT | TOKEN_LE | TOKEN_GT | TOKEN_GE | TOKEN_AND | TOKEN_OR | TOKEN_RETURN | TOKEN_BREAK | TOKEN_CONTINUE
  | TOKEN_OTHER

text \<open>
  What an operation gives: a value, an error thrown with a message, the concatenation of two texts, a
  value to be copied into the environment (with the message when there is no memory), or a trap of
  the processor.  Signed addition, subtraction and multiplication wrap.
\<close>

datatype op_result =
    OpValue exprtk_value
  | OpThrow bytes
  | OpConcat bytes bytes
  | OpCopy exprtk_value bytes
  | OpTrap

definition INT64_MIN :: u64 where "INT64_MIN = 0x8000000000000000"

definition int_divide :: "(int \<Rightarrow> int \<Rightarrow> op_result) \<Rightarrow> bytes \<Rightarrow> u64 \<Rightarrow> u64 \<Rightarrow> op_result" where
  "int_divide f msg l r =
     (if r = 0 then OpThrow msg
      else if l = INT64_MIN \<and> r = -1 then OpTrap
      else f (sint l) (sint r))"

fun int_op :: "fpu \<Rightarrow> token \<Rightarrow> u64 \<Rightarrow> u64 \<Rightarrow> op_result option" where
  "int_op F TOKEN_PLUS l r = Some (OpValue (EInteger (l + r)))"
| "int_op F TOKEN_MINUS l r = Some (OpValue (EInteger (l - r)))"
| "int_op F TOKEN_MULTIPLY l r = Some (OpValue (EInteger (l * r)))"
| "int_op F TOKEN_DIVIDE l r =
     Some (int_divide
             (\<lambda>a b. OpValue (if a smod b = 0 then EInteger (word_of_int (a sdiv b))
                             else ENumber (fp_div F (fp_of_int F l) (fp_of_int F r))))
             ''Division by zero'' l r)"
| "int_op F TOKEN_MOD l r =
     Some (int_divide (\<lambda>a b. OpValue (EInteger (word_of_int (a smod b)))) ''Modulo by zero'' l r)"
| "int_op F TOKEN_POWER l r = Some (OpValue (ENumber (fp_pow F (fp_of_int F l) (fp_of_int F r))))"
| "int_op F TOKEN_EQ l r = Some (OpValue (int_bool (l = r)))"
| "int_op F TOKEN_NE l r = Some (OpValue (int_bool (l \<noteq> r)))"
| "int_op F TOKEN_LT l r = Some (OpValue (int_bool (sint l < sint r)))"
| "int_op F TOKEN_LE l r = Some (OpValue (int_bool (sint l \<le> sint r)))"
| "int_op F TOKEN_GT l r = Some (OpValue (int_bool (sint l > sint r)))"
| "int_op F TOKEN_GE l r = Some (OpValue (int_bool (sint l \<ge> sint r)))"
| "int_op F TOKEN_AND l r = Some (OpValue (int_bool (l \<noteq> 0 \<and> r \<noteq> 0)))"
| "int_op F TOKEN_OR l r = Some (OpValue (int_bool (l \<noteq> 0 \<or> r \<noteq> 0)))"
| "int_op F t l r = None"

fun num_op :: "fpu \<Rightarrow> token \<Rightarrow> u64 \<Rightarrow> u64 \<Rightarrow> op_result option" where
  "num_op F TOKEN_PLUS l r = Some (OpValue (ENumber (fp_add F l r)))"
| "num_op F TOKEN_MINUS l r = Some (OpValue (ENumber (fp_sub F l r)))"
| "num_op F TOKEN_MULTIPLY l r = Some (OpValue (ENumber (fp_mul F l r)))"
| "num_op F TOKEN_DIVIDE l r =
     Some (if fp_lt (fp_abs r) FP_1e15 then OpThrow ''Division by zero'' else OpValue (ENumber (fp_div F l r)))"
| "num_op F TOKEN_MOD l r =
     Some (if fp_lt (fp_abs r) FP_1e15 then OpThrow ''Modulo by zero'' else OpValue (ENumber (fp_mod F l r)))"
| "num_op F TOKEN_POWER l r = Some (OpValue (ENumber (fp_pow F l r)))"
| "num_op F TOKEN_EQ l r = Some (OpValue (num_bool (fp_lt (fp_abs (fp_sub F l r)) FP_1e9)))"
| "num_op F TOKEN_NE l r = Some (OpValue (num_bool (fp_le FP_1e9 (fp_abs (fp_sub F l r)))))"
| "num_op F TOKEN_LT l r = Some (OpValue (num_bool (fp_lt l r)))"
| "num_op F TOKEN_LE l r = Some (OpValue (num_bool (fp_le l r)))"
| "num_op F TOKEN_GT l r = Some (OpValue (num_bool (fp_lt r l)))"
| "num_op F TOKEN_GE l r = Some (OpValue (num_bool (fp_le r l)))"
| "num_op F TOKEN_AND l r = Some (OpValue (num_bool (fp_lt FP_1e9 (fp_abs l) \<and> fp_lt FP_1e9 (fp_abs r))))"
| "num_op F TOKEN_OR l r = Some (OpValue (num_bool (fp_lt FP_1e9 (fp_abs l) \<or> fp_lt FP_1e9 (fp_abs r))))"
| "num_op F t l r = None"

fun is_numeric :: "exprtk_value \<Rightarrow> bool" where
  "is_numeric (EInteger i) = True"
| "is_numeric (ENumber x) = True"
| "is_numeric (EBool b) = True"
| "is_numeric v = False"

fun is_string :: "exprtk_value \<Rightarrow> bool" where
  "is_string (EString s v) = True"
| "is_string v = False"

text \<open>The opaque types that \<^verbatim>\<open>==\<close> compares by their payload.\<close>

definition COMPARED_TYPES :: "nat list" where "COMPARED_TYPES = [15, 16, 17, 18, 19, 20, 22, 26]"

text \<open>The sections for two operands of one type: whether they are equal.\<close>

definition same_type_equal :: "payload_ops \<Rightarrow> exprtk_value \<Rightarrow> exprtk_value \<Rightarrow> bool option" where
  "same_type_equal P l r =
     (case l of
        EString s v \<Rightarrow> (case r of EString s' v' \<Rightarrow> Some (buf_elems v = buf_elems v') | _ \<Rightarrow> None)
      | EBool b \<Rightarrow> (case r of EBool b' \<Rightarrow> Some (b = b') | _ \<Rightarrow> None)
      | EBytes s v \<Rightarrow> (case r of EBytes s' v' \<Rightarrow> Some (buf_elems v = buf_elems v') | _ \<Rightarrow> None)
      | EBigint s v \<Rightarrow> (case r of EBigint s' v' \<Rightarrow> Some (buf_elems v = buf_elems v') | _ \<Rightarrow> None)
      | EEnum t s a n m i \<Rightarrow>
          (case r of
             EEnum t' s' a' n' m' i' \<Rightarrow> if t = t' then Some (i = i' \<and> buf_elems n = buf_elems n') else None
           | _ \<Rightarrow> None)
      | EOpaque tag a \<Rightarrow>
          (case r of
             EOpaque tag' a' \<Rightarrow>
               if tag = tag' \<and> tag \<in> set COMPARED_TYPES then Some (po_equal P tag a a') else None
           | _ \<Rightarrow> None)
      | ENull \<Rightarrow> (case r of ENull \<Rightarrow> Some True | _ \<Rightarrow> None)
      | _ \<Rightarrow> None)"

fun op_name :: "token \<Rightarrow> bytes" where
  "op_name TOKEN_PLUS = ''+''" | "op_name TOKEN_MINUS = ''-''" | "op_name TOKEN_MULTIPLY = ''*''"
| "op_name TOKEN_DIVIDE = ''/''" | "op_name TOKEN_MOD = ''%''" | "op_name TOKEN_POWER = ''**''"
| "op_name TOKEN_LT = ''<''" | "op_name TOKEN_LE = ''<=''" | "op_name TOKEN_GT = ''>''" | "op_name TOKEN_GE = ''>=''"
| "op_name TOKEN_AND = ''&&''" | "op_name TOKEN_OR = ''||''" | "op_name t = ''unknown''"

definition type_error :: "token \<Rightarrow> exprtk_value \<Rightarrow> exprtk_value \<Rightarrow> op_result" where
  "type_error t l r =
     OpThrow (''Type error: cannot apply '' @ [CHR 0x27] @ op_name t @ [CHR 0x27] @ '' to '' @
              type_name (value_type l) @ '' and '' @ type_name (value_type r))"

text \<open>The sections of \<^verbatim>\<open>EXPRTK_NODE_BINARY_OP\<close> after the numbers: concatenation, equality, the type error.\<close>

definition binary_other :: "fpu \<Rightarrow> payload_ops \<Rightarrow> token \<Rightarrow> exprtk_value \<Rightarrow> exprtk_value \<Rightarrow> op_result" where
  "binary_other F P t l r =
     (if t = TOKEN_PLUS \<and> (is_string l \<or> is_string r)
      then
        (case (eval_value_text F P l, eval_value_text F P r) of
           (Some a, Some b) \<Rightarrow>
             if unat SIZE_MAX < length a + length b then OpThrow ''String concatenation is too large''
             else OpConcat a b
         | _ \<Rightarrow> OpThrow (''Type error: cannot stringify '' @ type_name (value_type l) @ '' and '' @
                         type_name (value_type r)))
      else if t \<in> {TOKEN_EQ, TOKEN_NE} \<and> same_type_equal P l r \<noteq> None
      then OpValue (num_bool (the (same_type_equal P l r) = (t = TOKEN_EQ)))
      else if t \<in> {TOKEN_EQ, TOKEN_NE} \<and> (l = ENull \<or> r = ENull) then OpValue (num_bool (t = TOKEN_NE))
      else type_error t l r)"

definition eval_binary :: "fpu \<Rightarrow> payload_ops \<Rightarrow> token \<Rightarrow> exprtk_value \<Rightarrow> exprtk_value \<Rightarrow> op_result" where
  "eval_binary F P t l r =
     (case (case (l, r) of (EInteger a, EInteger b) \<Rightarrow> int_op F t a b | _ \<Rightarrow> None) of
        Some x \<Rightarrow> x
      | None \<Rightarrow>
          (case (if is_numeric l \<and> is_numeric r then num_op F t (val_to_double F l) (val_to_double F r) else None) of
             Some x \<Rightarrow> x
           | None \<Rightarrow> binary_other F P t l r))"

text \<open>\<^verbatim>\<open>values_match\<close>, with which \<^verbatim>\<open>switch\<close> compares.\<close>

fun is_plain_number :: "exprtk_value \<Rightarrow> bool" where
  "is_plain_number (EInteger i) = True"
| "is_plain_number (ENumber x) = True"
| "is_plain_number v = False"

definition values_match :: "fpu \<Rightarrow> payload_ops \<Rightarrow> exprtk_value \<Rightarrow> exprtk_value \<Rightarrow> bool" where
  "values_match F P l r =
     (if is_plain_number l \<and> is_plain_number r
      then fp_lt (fp_abs (fp_sub F (val_to_double F l) (val_to_double F r))) FP_1e9
      else (case same_type_equal P l r of Some b \<Rightarrow> b | None \<Rightarrow> value_type l = value_type r))"

text \<open>The types between which \<^verbatim>\<open>switch\<close> compares at all.\<close>

definition switchable :: "exprtk_value \<Rightarrow> bool" where
  "switchable v \<longleftrightarrow> value_type v \<in> set [0, 2, 3, 1, 4, 15, 8]"

section \<open>Indexing and slices\<close>

text \<open>\<^verbatim>\<open>(int)\<close> of an integer, of a size and of a double.\<close>

definition cast_int :: "u64 \<Rightarrow> int" where "cast_int x = sint (ucast x :: u32)"

fun index_int :: "fpu \<Rightarrow> exprtk_value \<Rightarrow> int option" where
  "index_int F (EInteger i) = Some (cast_int i)"
| "index_int F (ENumber x) = Some (fp_to_int F x)"
| "index_int F v = None"

definition exprtk_typed_array_get_value :: "fpu \<Rightarrow> nat \<Rightarrow> u64 buf \<Rightarrow> nat \<Rightarrow> exprtk_value" where
  "exprtk_typed_array_get_value F kind v i =
     (if length (buf_elems v) \<le> i then ENumber 0
      else
        let x = buf_elems v ! i in
        if kind = 1 then EInteger (word_of_int (cast_int x))
        else if kind = 2 then EInteger x
        else if kind = 3 then ENumber (fp_of_single F (ucast x))
        else if kind = 4 then ENumber x
        else ENumber 0)"

text \<open>
  The bounds check of an indexed access.  Reading behind a null pointer traps, except in a typed array,
  which looks at its pointer.
\<close>

definition index_range :: "bytes \<Rightarrow> 'a buf \<Rightarrow> int \<Rightarrow> op_result \<Rightarrow> op_result" where
  "index_range what b i r =
     (if i < 0 \<or> i \<ge> cast_int (buf_size b)
      then OpThrow (what @ '' index '' @ print_d i @ '' out of bounds [0, '' @ decimal (unat (buf_size b)) @ '')'')
      else r)"

definition index_at :: "bytes \<Rightarrow> 'a buf \<Rightarrow> int \<Rightarrow> (nat \<Rightarrow> exprtk_value) \<Rightarrow> op_result" where
  "index_at what b i get =
     index_range what b i (if length (buf_elems b) \<le> nat i then OpTrap else OpValue (get (nat i)))"

definition eval_index :: "fpu \<Rightarrow> exprtk_value \<Rightarrow> exprtk_value \<Rightarrow> op_result" where
  "eval_index F arr idx =
     (case (arr, index_int F idx) of
        (EVector s v, Some i) \<Rightarrow> index_at ''Array'' v i (\<lambda>n. ENumber (buf_elems v ! n))
      | (ESeq k p xs, Some i) \<Rightarrow> index_at ''List'' xs i (\<lambda>n. buf_elems xs ! n)
      | (ETypedArray kind s v, Some i) \<Rightarrow> 
          index_range ''Typed array'' v i (OpValue (exprtk_typed_array_get_value F kind v (nat i)))
      | (EBytes s v, Some i) \<Rightarrow> index_at ''Bytes'' v i (\<lambda>n. EInteger (of_char (buf_elems v ! n)))
      | (EMap t s, None) \<Rightarrow>
          (case idx of
             EString p (Buf key) \<Rightarrow> OpValue (exprtk_map_get arr (c_string key))
           | EString p (NullBuf n) \<Rightarrow> OpValue (ENumber 0)
           | _ \<Rightarrow> OpThrow (''Invalid indexing: expected vector[number], list[number], typed_array[number], or map[string], got ''
                           @ type_name (value_type arr) @ ''['' @ type_name (value_type idx) @ '']''))
      | _ \<Rightarrow> OpThrow (''Invalid indexing: expected vector[number], list[number], typed_array[number], or map[string], got ''
                      @ type_name (value_type arr) @ ''['' @ type_name (value_type idx) @ '']''))"

definition eval_slice :: "fpu \<Rightarrow> exprtk_value \<Rightarrow> exprtk_value \<Rightarrow> exprtk_value \<Rightarrow> op_result" where
  "eval_slice F arr start_val end_val =
     (case (arr, index_int F start_val, index_int F end_val) of
        (EVector s v, Some a, Some b) \<Rightarrow>
          let start = (if a < 0 then 0 else a);
              stop = (if b > cast_int (buf_size v) then cast_int (buf_size v) else b)
          in
          if start > stop
          then OpThrow (''Invalid slice range ['' @ print_d start @ '':'' @ print_d stop @ '']'')
          else if nat stop > length (buf_elems v) then OpTrap
          else
            let xs = take (nat (stop - start)) (drop (nat start) (buf_elems v)) in
            OpCopy (EVector None (if xs = [] then NullBuf 0 else Buf xs)) ''Out of memory creating slice''
      | _ \<Rightarrow> OpThrow (''Invalid slice: expected vector[number:number], got '' @ type_name (value_type arr) @ ''['' @
                      type_name (value_type start_val) @ '':'' @ type_name (value_type end_val) @ '']''))"

section \<open>Results of the operators\<close>

definition fits_int64 :: "int \<Rightarrow> bool" where
  "fits_int64 x \<longleftrightarrow> - (2 ^ 63) \<le> x \<and> x < 2 ^ 63"

lemma sint_exact: "fits_int64 x \<Longrightarrow> sint (word_of_int x :: u64) = x"
  by (simp add: fits_int64_def signed_of_int signed_take_bit_int_eq_self)

lemma sint_fits: "fits_int64 (sint (x :: u64))"
  using sint_ge [of x] sint_lt [of x] by (simp add: fits_int64_def)

lemma sint_min: "sint x = - (2 ^ 63) \<longleftrightarrow> (x :: u64) = INT64_MIN"
proof -
  have "sint INT64_MIN = - (2 ^ 63)" by (simp add: INT64_MIN_def)
  then show ?thesis by (metis signed_word_eqI)
qed

lemma sint_minus_one: "sint (x :: u64) = -1 \<longleftrightarrow> x = -1"
  by (metis signed_word_eqI sint_n1)

lemma sint_zero: "sint (x :: u64) = 0 \<longleftrightarrow> x = 0"
  by (metis signed_word_eqI sint_0)

lemma sdiv_fits:
  assumes "fits_int64 a" "\<not> (a = - (2 ^ 63) \<and> b = -1)"
  shows "fits_int64 (a sdiv b)"
proof (cases "a = - (2 ^ 63)")
  case True
  then have "a sdiv b \<noteq> - a" using assms(2) int_sdiv_negated_is_minus1 [of a b] by simp
  with sdiv_int_range [of a b] True show ?thesis by (auto simp: fits_int64_def)
next
  case False
  with sdiv_int_range [of a b] assms(1) show ?thesis by (auto simp: fits_int64_def)
qed

lemma smod_fits: "b \<noteq> 0 \<Longrightarrow> fits_int64 b \<Longrightarrow> fits_int64 (a smod b)"
  using smod_int_range [of b a] by (auto simp: fits_int64_def)

lemma int_divide_cases:
  assumes "\<And>a b. f a b \<noteq> OpTrap" "\<And>a b msg. f a b \<noteq> OpThrow msg"
  shows "int_divide f msg l r = OpTrap \<longleftrightarrow> l = INT64_MIN \<and> r = -1"
    "(\<exists>e. int_divide f msg l r = OpThrow e) \<longleftrightarrow> r = 0"
  using assms by (auto simp: int_divide_def)

lemma integer_quotient:
  assumes "eval_binary F P TOKEN_DIVIDE (EInteger l) (EInteger r) = OpValue (EInteger q)"
  shows "sint q * sint r = sint l"
proof -
  from assms have r: "r \<noteq> 0" and ok: "\<not> (l = INT64_MIN \<and> r = -1)" and q: "sint l smod sint r = 0"
      "q = word_of_int (sint l sdiv sint r)"
    by (auto simp: eval_binary_def int_divide_def split: if_splits)
  have "fits_int64 (sint l sdiv sint r)"
    using ok sint_fits [of l] sint_min [of l] sint_minus_one [of r] by (intro sdiv_fits) auto
  then have "sint q = sint l sdiv sint r" using q by (simp add: sint_exact)
  then show ?thesis using q(1) sdiv_mult_smod_eq [of "sint l" "sint r"] by simp
qed

lemma integer_remainder:
  assumes "eval_binary F P TOKEN_MOD (EInteger l) (EInteger r) = OpValue (EInteger m)"
  shows "sint m = sint l smod sint r"
proof -
  from assms have "r \<noteq> 0" "m = word_of_int (sint l smod sint r)"
    by (auto simp: eval_binary_def int_divide_def split: if_splits)
  moreover have "fits_int64 (sint l smod sint r)"
    using \<open>r \<noteq> 0\<close> sint_fits [of r] sint_zero [of r] by (intro smod_fits) auto
  ultimately show ?thesis by (simp add: sint_exact)
qed

text \<open>The exact result of the operators that cannot fail.\<close>

fun exact_result :: "token \<Rightarrow> int \<Rightarrow> int \<Rightarrow> int option" where
  "exact_result TOKEN_PLUS a b = Some (a + b)"
| "exact_result TOKEN_MINUS a b = Some (a - b)"
| "exact_result TOKEN_MULTIPLY a b = Some (a * b)"
| "exact_result t a b = None"

lemma exact_result_word:
  "exact_result t (sint l) (sint r) = Some x \<Longrightarrow> eval_binary F P t (EInteger l) (EInteger r) = OpValue (EInteger (word_of_int x))"
  by (cases t) (auto simp: eval_binary_def)

text \<open>The relations that comparisons and the logical operators decide.\<close>

fun int_relation :: "token \<Rightarrow> int \<Rightarrow> int \<Rightarrow> bool option" where
  "int_relation TOKEN_EQ a b = Some (a = b)"
| "int_relation TOKEN_NE a b = Some (a \<noteq> b)"
| "int_relation TOKEN_LT a b = Some (a < b)"
| "int_relation TOKEN_LE a b = Some (a \<le> b)"
| "int_relation TOKEN_GT a b = Some (a > b)"
| "int_relation TOKEN_GE a b = Some (a \<ge> b)"
| "int_relation TOKEN_AND a b = Some (a \<noteq> 0 \<and> b \<noteq> 0)"
| "int_relation TOKEN_OR a b = Some (a \<noteq> 0 \<or> b \<noteq> 0)"
| "int_relation t a b = None"

lemma sint_eq: "sint (a :: u64) = sint b \<longleftrightarrow> a = b"
  by (metis signed_word_eqI)

lemma int_relation_value:
  "int_relation t (sint l) (sint r) = Some b \<Longrightarrow>
   eval_binary F P t (EInteger l) (EInteger r) = OpValue (EInteger (if b then 1 else 0))"
  by (cases t) (auto simp: eval_binary_def int_bool_def sint_eq sint_zero)

lemma divisible:
  assumes "b \<noteq> 0"
  shows "b dvd a \<longleftrightarrow> a smod b = (0 :: int)"
proof
  assume "b dvd a"
  then have "b dvd a smod b" by (simp add: signed_modulo_int_def dvd_diff)
  moreover have "\<bar>a smod b\<bar> < \<bar>b\<bar>" using smod_int_range [OF assms, of a] by auto
  ultimately show "a smod b = 0" using dvd_imp_le_int [of "a smod b" b] by force
next
  assume "a smod b = 0"
  then show "b dvd a" using sdiv_mult_smod_eq [of a b] by (metis add.right_neutral dvd_triv_right)
qed

lemma divide_value:
  assumes "r \<noteq> 0" "\<not> (l = INT64_MIN \<and> r = -1)"
  shows "eval_binary F P TOKEN_DIVIDE (EInteger l) (EInteger r) =
      OpValue (if sint l smod sint r = 0 then EInteger (word_of_int (sint l sdiv sint r))
               else ENumber (fp_div F (fp_of_int F l) (fp_of_int F r)))"
    and "eval_binary F P TOKEN_MOD (EInteger l) (EInteger r) = OpValue (EInteger (word_of_int (sint l smod sint r)))"
  using assms by (simp_all only: eval_binary_def int_divide_def int_op.simps exprtk_value.case prod.case option.case
      if_False if_True)

lemma divide_failed:
  "eval_binary F P TOKEN_DIVIDE (EInteger l) (EInteger 0) = OpThrow ''Division by zero''"
  "eval_binary F P TOKEN_MOD (EInteger l) (EInteger 0) = OpThrow ''Modulo by zero''"
  "eval_binary F P TOKEN_DIVIDE (EInteger INT64_MIN) (EInteger (-1)) = OpTrap"
  "eval_binary F P TOKEN_MOD (EInteger INT64_MIN) (EInteger (-1)) = OpTrap"
  by (simp_all add: eval_binary_def int_divide_def)

text \<open>
  C22: the operators on two 64-bit integers.  Addition, subtraction and multiplication give the exact result
  whenever it fits 64 bits.  A comparison or a logical operator gives the integer 1 or 0 for what it says of
  the two numbers.  Division and remainder throw an error for the divisor 0, and trap the
  processor for the smallest integer divided by -1.  Otherwise a division gives the exact integer quotient when the
  divisor divides the dividend and the quotient of the two doubles when not, and a remainder is the integer one of truncating
  division.  The power is that of the two doubles.
\<close>

theorem integer_operators:
  "(exact_result t (sint l) (sint r) = Some x \<and> fits_int64 x \<longrightarrow>
      (\<exists>v. eval_binary F P t (EInteger l) (EInteger r) = OpValue (EInteger v) \<and> sint v = x)) \<and>
   (int_relation t (sint l) (sint r) = Some b \<longrightarrow>
      eval_binary F P t (EInteger l) (EInteger r) = OpValue (EInteger (if b then 1 else 0))) \<and>
   (if r = 0
    then eval_binary F P TOKEN_DIVIDE (EInteger l) (EInteger r) = OpThrow ''Division by zero'' \<and>
      eval_binary F P TOKEN_MOD (EInteger l) (EInteger r) = OpThrow ''Modulo by zero''
    else if l = INT64_MIN \<and> r = -1
    then eval_binary F P TOKEN_DIVIDE (EInteger l) (EInteger r) = OpTrap \<and>
      eval_binary F P TOKEN_MOD (EInteger l) (EInteger r) = OpTrap
    else
      (if sint r dvd sint l
       then \<exists>q. eval_binary F P TOKEN_DIVIDE (EInteger l) (EInteger r) = OpValue (EInteger q) \<and>
         sint q * sint r = sint l
       else eval_binary F P TOKEN_DIVIDE (EInteger l) (EInteger r) =
         OpValue (ENumber (fp_div F (fp_of_int F l) (fp_of_int F r)))) \<and>
      (\<exists>m. eval_binary F P TOKEN_MOD (EInteger l) (EInteger r) = OpValue (EInteger m) \<and>
         sint m = sint l smod sint r)) \<and>
   eval_binary F P TOKEN_POWER (EInteger l) (EInteger r) =
     OpValue (ENumber (fp_pow F (fp_of_int F l) (fp_of_int F r)))"
proof (intro conjI impI)
  assume x: "exact_result t (sint l) (sint r) = Some x \<and> fits_int64 x"
  then show "\<exists>v. eval_binary F P t (EInteger l) (EInteger r) = OpValue (EInteger v) \<and> sint v = x"
    using exact_result_word sint_exact by blast
next
  let ?div = "eval_binary F P TOKEN_DIVIDE (EInteger l) (EInteger r)"
  let ?mod = "eval_binary F P TOKEN_MOD (EInteger l) (EInteger r)"
  let ?real = "OpValue (ENumber (fp_div F (fp_of_int F l) (fp_of_int F r)))"
  show "if r = 0 then ?div = OpThrow ''Division by zero'' \<and> ?mod = OpThrow ''Modulo by zero''
    else if l = INT64_MIN \<and> r = -1 then ?div = OpTrap \<and> ?mod = OpTrap
    else (if sint r dvd sint l then \<exists>q. ?div = OpValue (EInteger q) \<and> sint q * sint r = sint l else ?div = ?real) \<and>
      (\<exists>m. ?mod = OpValue (EInteger m) \<and> sint m = sint l smod sint r)"
  proof (cases "r = 0 \<or> l = INT64_MIN \<and> r = -1")
    case True
    then show ?thesis using divide_failed by (metis (full_types))
  next
    case False
    then have ok: "r \<noteq> 0" "\<not> (l = INT64_MIN \<and> r = -1)" and "sint r \<noteq> 0" using sint_zero [of r] by blast+
    note vals = divide_value [OF ok, where F = F and P = P] divisible [OF \<open>sint r \<noteq> 0\<close>, of "sint l"]
    have "\<exists>m. ?mod = OpValue (EInteger m) \<and> sint m = sint l smod sint r"
      using integer_remainder [OF vals(2)] vals(2) by blast
    moreover have "if sint r dvd sint l then \<exists>q. ?div = OpValue (EInteger q) \<and> sint q * sint r = sint l else ?div = ?real"
    proof (cases "sint r dvd sint l")
      case True
      then have "?div = OpValue (EInteger (word_of_int (sint l sdiv sint r)))"
        using vals(1,3) by (simp only: if_True simp_thms)
      with integer_quotient [OF this] True show ?thesis by (simp only: if_True) blast
    next
      case False
      then show ?thesis using vals(1,3) by (simp only: if_False)
    qed
    ultimately show ?thesis using ok by (simp only: if_False)
  qed
qed (use int_relation_value in \<open>simp_all add: eval_binary_def\<close>)

text \<open>Parameters to evaluate with: a processor that rounds everything to its first operand, and no payloads.\<close>

definition plain_fpu :: fpu where
  "plain_fpu = \<lparr>fp_add = (\<lambda>a b. a), fp_sub = (\<lambda>a b. a), fp_mul = (\<lambda>a b. a), fp_div = (\<lambda>a b. a),
     fp_mod = (\<lambda>a b. a), fp_pow = (\<lambda>a b. a), fp_of_int = (\<lambda>a. 0), fp_of_single = (\<lambda>a. 0),
     fp_to_int = (\<lambda>a. 0), fp_print_g = (\<lambda>a. ''0'')\<rparr>"

definition plain_payload :: payload_ops where
  "plain_payload = \<lparr>po_text = (\<lambda>t a. None), po_equal = (\<lambda>t a b. a = b)\<rparr>"

theorem integer_operators_witness:
  "(\<exists>v. eval_binary plain_fpu plain_payload TOKEN_PLUS (EInteger 40) (EInteger 2) = OpValue (EInteger v) \<and> sint v = 42) \<and>
   eval_binary plain_fpu plain_payload TOKEN_LT (EInteger (-1)) (EInteger 2) = OpValue (EInteger 1) \<and>
   eval_binary plain_fpu plain_payload TOKEN_MOD (EInteger 40) (EInteger 0) = OpThrow ''Modulo by zero'' \<and>
   eval_binary plain_fpu plain_payload TOKEN_DIVIDE (EInteger INT64_MIN) (EInteger (-1)) = OpTrap"
  using integer_operators [of TOKEN_PLUS 40 2 42 plain_fpu plain_payload True]
    integer_operators [of TOKEN_LT "-1" 2 0 plain_fpu plain_payload True]
    integer_operators [of TOKEN_MOD 40 0 0 plain_fpu plain_payload True]
    integer_operators [of TOKEN_DIVIDE INT64_MIN "-1" 0 plain_fpu plain_payload True]
  by (simp add: fits_int64_def)

definition OPERATORS :: "token set" where
  "OPERATORS = {TOKEN_PLUS, TOKEN_MINUS, TOKEN_MULTIPLY, TOKEN_DIVIDE, TOKEN_MOD, TOKEN_POWER, TOKEN_EQ, TOKEN_NE,
     TOKEN_LT, TOKEN_LE, TOKEN_GT, TOKEN_GE, TOKEN_AND, TOKEN_OR}"

lemma int_op_result:
  "t \<in> OPERATORS \<Longrightarrow>
   (\<exists>n. int_op F t a b = Some (OpValue (ENumber n))) \<or>
   (\<exists>i. int_op F t a b = Some (OpValue (EInteger i)) \<and> t \<noteq> TOKEN_POWER) \<or>
   (\<exists>msg. int_op F t a b = Some (OpThrow msg) \<and> t \<in> {TOKEN_DIVIDE, TOKEN_MOD}) \<or>
   int_op F t a b = Some OpTrap \<and> t \<in> {TOKEN_DIVIDE, TOKEN_MOD} \<and> a = INT64_MIN \<and> b = -1"
  by (cases t) (auto simp: OPERATORS_def int_bool_def int_divide_def)

lemma num_op_result:
  "t \<in> OPERATORS \<Longrightarrow>
   (\<exists>n. num_op F t a b = Some (OpValue (ENumber n))) \<or>
   (\<exists>msg. num_op F t a b = Some (OpThrow msg) \<and> t \<in> {TOKEN_DIVIDE, TOKEN_MOD})"
  by (cases t) (auto simp: OPERATORS_def num_bool_def)

lemma not_operator: "t \<notin> OPERATORS \<Longrightarrow> int_op F t a b = None \<and> num_op F t c d = None"
  by (cases t) (auto simp: OPERATORS_def)

lemma binary_other_result:
  "case binary_other F P t l r of
     OpValue v \<Rightarrow> \<exists>x. v = ENumber x
   | OpThrow msg \<Rightarrow> True
   | OpConcat a b \<Rightarrow> t = TOKEN_PLUS \<and> (is_string l \<or> is_string r) \<and>
       eval_value_text F P l = Some a \<and> eval_value_text F P r = Some b \<and> length a + length b < 2 ^ 64
   | OpCopy v msg \<Rightarrow> False
   | OpTrap \<Rightarrow> False"
  by (auto simp: binary_other_def num_bool_def type_error_def split: option.split)


section \<open>Bounds of indexing\<close>

lemma cast_int_take_bit: "cast_int x = signed_take_bit 31 (sint x)"
proof -
  have "cast_int x = signed_take_bit 31 (uint x)" by (simp add: cast_int_def signed_ucast_eq)
  then show ?thesis by (simp add: sint_uint signed_take_bit_signed_take_bit)
qed

lemma cast_int_exact: "- (2 ^ 31) \<le> sint x \<Longrightarrow> sint x < 2 ^ 31 \<Longrightarrow> cast_int x = sint x"
  by (simp add: cast_int_take_bit signed_take_bit_int_eq_self)

lemma cast_int_size:
  assumes "unat x < 2 ^ 31"
  shows "cast_int x = int (unat x)"
proof -
  from assms have "int (unat x) < int (2 ^ 31)" by (simp only: of_nat_less_iff)
  then have "uint x < 2 ^ 31" by simp
  moreover have "- (2 ^ 31) \<le> uint x" by (rule order_trans [OF _ uint_ge_0]) simp
  ultimately show ?thesis by (simp add: cast_int_def signed_ucast_eq signed_take_bit_int_eq_self)
qed

lemma cast_int_periodic: "cast_int (x + 2 ^ 32) = cast_int x"
proof -
  have "ucast (x + 2 ^ 32) = (ucast x :: u32)"
    by transfer (simp only: take_bit_take_bit, simp add: take_bit_eq_mod)
  then show ?thesis by (simp add: cast_int_def)
qed

text \<open>
  C23: indexing a list or set of less than \<open>2 ^ 31\<close> elements by an integer.  An index of 32 bits gives the
  element when it is inside and an error otherwise, and no index reads outside the elements.  Since the index is
  cut to 32 bits before it is compared, two indices that differ by \<open>2 ^ 32\<close> give the same result.
\<close>

theorem list_index:
  assumes "length xs < 2 ^ 31" 
  shows "(- (2 ^ 31) \<le> sint i \<and> sint i < 2 ^ 31 \<longrightarrow>
      (if 0 \<le> sint i \<and> sint i < int (length xs)
       then eval_index F (ESeq k p (Buf xs)) (EInteger i) = OpValue (xs ! nat (sint i))
       else \<exists>msg. eval_index F (ESeq k p (Buf xs)) (EInteger i) = OpThrow msg)) \<and>
    eval_index F (ESeq k p (Buf xs)) (EInteger (i + 2 ^ 32)) = eval_index F (ESeq k p (Buf xs)) (EInteger i) \<and>
    eval_index F (ESeq k p (Buf xs)) (EInteger i) \<noteq> OpTrap"
proof -
  have "unat (of_nat (length xs) :: size_t) = length xs" using assms by (simp add: unat_of_nat)
  with assms have n: "cast_int (of_nat (length xs)) = int (length xs)" by (simp add: cast_int_size)
  have e: "eval_index F (ESeq k p (Buf xs)) (EInteger j) =
      (if cast_int j < 0 \<or> int (length xs) \<le> cast_int j
       then OpThrow (''List'' @ '' index '' @ print_d (cast_int j) @ '' out of bounds [0, '' @ decimal (unat (buf_size (Buf xs))) @ '')'')
       else OpValue (xs ! nat (cast_int j)))" for j
    by (auto simp: eval_index_def index_at_def index_range_def n)
  show ?thesis
    unfolding e cast_int_periodic using cast_int_exact [of i] by (auto simp del: One_nat_def)
qed

theorem list_index_witness:
  "eval_index plain_fpu (ESeq VAL_LIST None (Buf [ENumber 5, ENull])) (EInteger 1) = OpValue ENull \<and>
   eval_index plain_fpu (ESeq VAL_LIST None (Buf [ENumber 5, ENull])) (EInteger (1 + 2 ^ 32)) = OpValue ENull"
proof -
  have "length [ENumber 5, ENull] < 2 ^ 31" by simp
  note l = list_index [OF this, of 1 plain_fpu VAL_LIST None]
  from l [THEN conjunct1]
  have "eval_index plain_fpu (ESeq VAL_LIST None (Buf [ENumber 5, ENull])) (EInteger 1) = OpValue ENull" by simp
  with l [THEN conjunct2, THEN conjunct1] show ?thesis by (simp only: simp_thms)
qed

end
