(* ===== verification/Tree_Eval.thy ===== *)
theory Tree_Eval
  imports Script_Env Module_Ast Eval_Values Host_Budget
begin

text \<open>
  The evaluator of syntax trees (\<^verbatim>\<open>exprtk_eval\<close> in \<^verbatim>\<open>exprtk/src/exprtk_eval.c\<close>): expressions,
  assignments, control flow, exceptions, and the limits on nodes and loop iterations.  The main result
  is that evaluation ends: every loop passes a counter or a safe point that gives out.
\<close>

section \<open>The machine\<close>

text \<open>
  The environment chain (the innermost first, \<open>[]\<close> for a null pointer), the memory and the state behind
  the user data of the safe point.  An evaluation gives a value, traps, or runs out of the bound on the
  iterations of a single loop that the model puts on it.
\<close>

record 'u machine =
  m_env :: env_chain
  m_heap :: heap
  m_user :: 'u

datatype 'a outcome = Done 'a | Trap | Timeout

type_synonym 'u ev = "'u machine \<Rightarrow> (exprtk_value \<times> 'u machine) outcome"

fun and_then :: "'a outcome \<Rightarrow> ('a \<Rightarrow> 'b outcome) \<Rightarrow> 'b outcome" where
  "and_then (Done x) f = f x"
| "and_then Trap f = Trap"
| "and_then Timeout f = Timeout"

text \<open>
  What the evaluator is given: the order of hash tables, the ownership flag of values (not part of the
  values of the model), the machine arithmetic, the payloads of opaque values, the tokens of the
  generated grammar, the functions behind the hooks of environments, and the kinds of nodes that are
  not modelled: calls, definitions of functions and classes, member assignments, template strings and
  destructuring.
\<close>

record 'u eval_ops =
  op_order :: order
  op_owned :: "exprtk_value \<Rightarrow> bool"
  op_fpu :: fpu
  op_payload :: payload_ops
  op_token :: "int \<Rightarrow> token"
  op_safe_point :: "addr \<Rightarrow> addr option \<Rightarrow> safe_point_kind \<Rightarrow> size_t \<Rightarrow> 'u \<Rightarrow> int \<times> 'u"
  op_eval_node :: "addr \<Rightarrow> exprtk_node \<Rightarrow> 'u ev"
  op_clone_ref :: "nat \<Rightarrow> addr \<Rightarrow> pool \<Rightarrow> exprtk_value"
  op_member :: "exprtk_node \<Rightarrow> exprtk_value \<Rightarrow> 'u ev"
  op_foreign :: "exprtk_node \<Rightarrow> 'u ev"

definition env_update :: "(scope \<Rightarrow> scope) \<Rightarrow> 'u machine \<Rightarrow> 'u machine" where
  "env_update f m = (case m_env m of [] \<Rightarrow> m | sc # scs \<Rightarrow> m\<lparr>m_env := f sc # scs\<rparr>)"

definition flow_of :: "'u machine \<Rightarrow> flow" where
  "flow_of m = (case m_env m of [] \<Rightarrow> FLOW_NORMAL | sc # scs \<Rightarrow> sc_flow sc)"

definition aborted :: "'u machine \<Rightarrow> bool" where
  "aborted m = (case m_env m of [] \<Rightarrow> False | sc # scs \<Rightarrow> ee_aborted (sc_env sc))"

definition set_flow :: "flow \<Rightarrow> 'u machine \<Rightarrow> 'u machine" where
  "set_flow f = env_update (\<lambda>sc. sc\<lparr>sc_flow := f\<rparr>)"

definition set_aborted :: "scope \<Rightarrow> scope" where
  "set_aborted sc = sc\<lparr>sc_env := (sc_env sc)\<lparr>ee_aborted := True\<rparr>\<rparr>"

definition throw_error :: "exprtk_node \<Rightarrow> bytes \<Rightarrow> 'u machine \<Rightarrow> exprtk_value \<times> 'u machine" where
  "throw_error node msg m =
     (ENumber 0,
      env_update
        (\<lambda>sc. let text = snprintf_s 256 msg in
              sc\<lparr>sc_env := (sc_env sc)\<lparr>ee_error_msg := text\<rparr>, sc_error_line := node_line node,
                 sc_error_column := node_column node, sc_flow := FLOW_THROW,
                 sc_error_value := EString None (Buf text)\<rparr>) m)"

section \<open>Limits\<close>

definition scope_hook :: "scope \<Rightarrow> (addr \<times> addr option) option" where
  "scope_hook sc = (case sc_hooks sc of (_, _, Some f, d) \<Rightarrow> Some (f, d) | _ \<Rightarrow> None)"

definition eval_safe_point ::
  "'u eval_ops \<Rightarrow> safe_point_kind \<Rightarrow> size_t \<Rightarrow> 'u machine \<Rightarrow> bool \<times> 'u machine" where
  "eval_safe_point ops kind cost m =
     (case m_env m of
        [] \<Rightarrow> (True, m)
      | sc # scs \<Rightarrow>
          (case scope_hook sc of
             None \<Rightarrow> (True, m)
           | Some (f, d) \<Rightarrow>
               (case op_safe_point ops f d kind cost (m_user m) of
                  (r, u) \<Rightarrow>
                    if r = 0 then (True, m\<lparr>m_user := u\<rparr>)
                    else (False, env_update set_aborted (m\<lparr>m_user := u\<rparr>)))))"

definition eval_loop_tick :: "'u eval_ops \<Rightarrow> 'u machine \<Rightarrow> bool \<times> 'u machine" where
  "eval_loop_tick ops m =
     (case m_env m of
        [] \<Rightarrow> (True, m)
      | sc # scs \<Rightarrow>
          if scope_hook sc \<noteq> None then eval_safe_point ops SP_LOOP 1 m
          else
            let sc' = sc\<lparr>sc_curr_loop_iterations := sc_curr_loop_iterations sc + 1\<rparr> in
            if sc_curr_loop_iterations sc' > sc_max_loop_iterations sc'
            then (False, m\<lparr>m_env := set_aborted sc' # scs\<rparr>)
            else (True, m\<lparr>m_env := sc' # scs\<rparr>))"

text \<open>The start of \<^verbatim>\<open>exprtk_eval\<close>: whether the node is evaluated.\<close>

definition eval_enter :: "'u eval_ops \<Rightarrow> exprtk_node \<Rightarrow> 'u machine \<Rightarrow> bool \<times> 'u machine" where
  "eval_enter ops node m =
     (case m_env m of
        [] \<Rightarrow> (True, m)
      | sc # scs \<Rightarrow>
          if ee_aborted (sc_env sc) then (False, m)
          else
            let sc1 = (if node_line node > 0
                       then sc\<lparr>sc_last_line := node_line node, sc_last_column := node_column node\<rparr> else sc);
                m1 = m\<lparr>m_env := sc1 # scs\<rparr>
            in
            if scope_hook sc1 \<noteq> None then eval_safe_point ops SP_STEP 1 m1
            else
              let sc2 = sc1\<lparr>sc_curr_nodes := sc_curr_nodes sc1 + 1\<rparr> in
              if sc_curr_nodes sc2 > sc_max_nodes sc2
              then (False, m\<lparr>m_env := set_aborted sc2 # scs\<rparr>)
              else (True, m\<lparr>m_env := sc2 # scs\<rparr>))"

section \<open>Cloning into an environment\<close>

text \<open>
  \<^verbatim>\<open>exprtk_value_clone_to_env\<close>.  A container whose part cannot be cloned gives null and aborts the
  environment.
\<close>

definition clone_failed :: "bytes \<Rightarrow> exprtk_env \<Rightarrow> exprtk_env" where
  "clone_failed msg env = env\<lparr>ee_aborted := True, ee_error_msg := msg\<rparr>"

function (sequential)
  exprtk_value_clone_to_env ::
    "order \<Rightarrow> (nat \<Rightarrow> addr \<Rightarrow> pool \<Rightarrow> exprtk_value) \<Rightarrow> heap \<Rightarrow> exprtk_env \<Rightarrow> exprtk_value \<Rightarrow>
     exprtk_value \<times> exprtk_env \<times> heap"
  and clone_items ::
    "order \<Rightarrow> (nat \<Rightarrow> addr \<Rightarrow> pool \<Rightarrow> exprtk_value) \<Rightarrow> heap \<Rightarrow> exprtk_env \<Rightarrow> exprtk_value list \<Rightarrow> exprtk_value \<Rightarrow>
     exprtk_value \<times> exprtk_env \<times> heap"
  and clone_entries ::
    "order \<Rightarrow> (nat \<Rightarrow> addr \<Rightarrow> pool \<Rightarrow> exprtk_value) \<Rightarrow> heap \<Rightarrow> exprtk_env \<Rightarrow> (bytes \<times> exprtk_value) list \<Rightarrow>
     exprtk_value \<Rightarrow> exprtk_value \<times> exprtk_env \<times> heap"
  where
  "exprtk_value_clone_to_env order ref h env v =
     (case v of
        ESeq k p items \<Rightarrow> clone_items order ref h env (buf_elems items) (ESeq k None (NullBuf 0))
      | EMap t s \<Rightarrow>
          (case exprtk_val_map t h of (m, h1) \<Rightarrow> clone_entries order ref h1 env (store_entries s) m)
      | EOpaque tag a \<Rightarrow> (ref tag a (env_arena env), env, h)
      | _ \<Rightarrow> if has_managed_payload v then clone_plain order h env v else (v, env, h))"
| "clone_items order ref h env [] cloned = (cloned, env, h)"
| "clone_items order ref h env (x # xs) cloned =
     (case exprtk_value_clone_to_env order ref h env x of
        (child, env1, h1) \<Rightarrow>
          if ee_aborted env1 then (ENull, clone_failed ''failed to clone list value'' env1, h1)
          else
            (case exprtk_list_push order h1 cloned child of
               (r, cloned', h2) \<Rightarrow>
                 if r \<noteq> 0 then (ENull, clone_failed ''failed to clone list value'' env1, h2)
                 else clone_items order ref h2 env1 xs cloned'))"
| "clone_entries order ref h env [] cloned = (cloned, env, h)"
| "clone_entries order ref h env (e # es) cloned =
     (case exprtk_value_clone_to_env order ref h env (snd e) of
        (child, env1, h1) \<Rightarrow>
          if ee_aborted env1 then (ENull, clone_failed ''failed to clone map value'' env1, h1)
          else
            (case exprtk_map_set order h1 cloned (fst e) child of
               (r, cloned', h2) \<Rightarrow>
                 if r \<noteq> 0 then (ENull, clone_failed ''failed to clone map value'' env1, h2)
                 else clone_entries order ref h2 env1 es cloned'))"
  by pat_completeness auto

termination
  by (relation "measure
       (\<lambda>x. case x of
            Inl (order, ref, h, env, v) \<Rightarrow> size v
          | Inr (Inl (order, ref, h, env, xs, c)) \<Rightarrow> size_list size xs
          | Inr (Inr (order, ref, h, env, es, c)) \<Rightarrow> size_list (\<lambda>e. size (snd e)) es)")
    (auto simp: less_Suc_eq_le size_buf_elems size_store_entries)

declare exprtk_value_clone_to_env.simps [simp del]

definition clone_in :: "'u eval_ops \<Rightarrow> exprtk_value \<Rightarrow> 'u machine \<Rightarrow> exprtk_value \<times> 'u machine" where
  "clone_in ops v m =
     (case m_env m of
        [] \<Rightarrow> (v, m)
      | sc # scs \<Rightarrow>
          (case exprtk_value_clone_to_env (op_order ops) (op_clone_ref ops) (m_heap m) (sc_env sc) v of
             (v', env', h') \<Rightarrow> (v', m\<lparr>m_env := sc\<lparr>sc_env := env'\<rparr> # scs, m_heap := h'\<rparr>)))"

text \<open>\<^verbatim>\<open>exprtk_value_copy_to_env\<close> on the current environment; a null environment refuses.\<close>

definition copy_in :: "'u eval_ops \<Rightarrow> exprtk_value \<Rightarrow> 'u machine \<Rightarrow> exprtk_value option \<times> 'u machine" where
  "copy_in ops v m =
     (case m_env m of
        [] \<Rightarrow> (None, m)
      | sc # scs \<Rightarrow>
          (case exprtk_value_copy_to_env (op_order ops) (m_heap m) v (sc_env sc) of
             (r, env', h') \<Rightarrow> (r, m\<lparr>m_env := sc\<lparr>sc_env := env'\<rparr> # scs, m_heap := h'\<rparr>)))"

definition machine_alloc :: "'u machine \<Rightarrow> bool \<times> 'u machine" where
  "machine_alloc m = (case alloc (m_heap m) of (ok, h) \<Rightarrow> (ok, m\<lparr>m_heap := h\<rparr>))"

section \<open>Results of operators\<close>

definition eval_promote_string :: "'u eval_ops \<Rightarrow> bytes \<Rightarrow> 'u machine \<Rightarrow> exprtk_value \<times> 'u machine" where
  "eval_promote_string ops text m =
     (if m_env m = []
      then (case machine_alloc m of (ok, m') \<Rightarrow> (if ok then EString None (Buf text) else ENull, m'))
      else (case copy_in ops (EString None (Buf text)) m of (r, m') \<Rightarrow> (case r of Some v \<Rightarrow> v | None \<Rightarrow> ENull, m')))"

definition finish_op :: "'u eval_ops \<Rightarrow> exprtk_node \<Rightarrow> op_result \<Rightarrow> 'u ev" where
  "finish_op ops node r m =
     (case r of
        OpValue v \<Rightarrow> Done (v, m)
      | OpThrow msg \<Rightarrow> Done (throw_error node msg m)
      | OpConcat a b \<Rightarrow>
          (case machine_alloc m of
             (ok, m1) \<Rightarrow>
               Done (if ok then eval_promote_string ops (a @ b) m1
                     else throw_error node ''failed to allocate concatenated string'' m1))
      | OpCopy v msg \<Rightarrow>
          if m_env m = []
          then (case machine_alloc m of (ok, m1) \<Rightarrow> Done (if ok then (v, m1) else throw_error node msg m1))
          else
            (case copy_in ops v m of
               (Some x, m1) \<Rightarrow> Done (x, m1)
             | (None, m1) \<Rightarrow> Done (throw_error node msg m1))
      | OpTrap \<Rightarrow> Trap)"

section \<open>Statements and expressions\<close>

text \<open>
  One function per kind of node; the evaluators of the children are arguments, so that the recursion
  is in \<open>exprtk_eval\<close> alone.
\<close>

definition assign :: "'u eval_ops \<Rightarrow> bytes option \<Rightarrow> exprtk_value \<Rightarrow> 'u machine \<Rightarrow> 'u machine" where
  "assign ops name v m =
     (case exprtk_env_set (op_order ops) (op_owned ops v) (m_heap m) (m_env m) name v of
        (env, h) \<Rightarrow> m\<lparr>m_env := env, m_heap := h\<rparr>)"

definition eval_assignment :: "'u eval_ops \<Rightarrow> bytes option \<Rightarrow> 'u ev \<Rightarrow> 'u ev" where
  "eval_assignment ops name rhs m =
     and_then (rhs m) (\<lambda>(v, m1). let m2 = assign ops name v m1 in Done (exprtk_env_get (m_env m2) name, m2))"

definition eval_constant_decl :: "'u eval_ops \<Rightarrow> bytes option \<Rightarrow> 'u ev \<Rightarrow> 'u ev" where
  "eval_constant_decl ops name rhs m =
     and_then (rhs m)
       (\<lambda>(v, m1).
          if m_env m1 = [] then Trap
          else
            (case name of
               None \<Rightarrow> Done (ENumber 0, m1)
             | Some n \<Rightarrow>
                 (case exprtk_env_set_constant (op_order ops) (op_owned ops v) (m_heap m1) (m_env m1) n v of
                    (env, h) \<Rightarrow> Done (exprtk_env_get env name, m1\<lparr>m_env := env, m_heap := h\<rparr>))))"

definition eval_if :: "'u ev \<Rightarrow> 'u ev \<Rightarrow> 'u ev \<Rightarrow> 'u ev" where
  "eval_if condition if_branch else_branch m =
     and_then (condition m)
       (\<lambda>(c, m1).
          if flow_of m1 \<noteq> FLOW_NORMAL then Done (ENumber 0, m1)
          else if eval_value_truthy c then if_branch m1 else else_branch m1)"

text \<open>
  The parts that the loops have in common: a pending \<^verbatim>\<open>continue\<close> is cleared; a tick may end the loop; after
  the body \<^verbatim>\<open>break\<close> and \<^verbatim>\<open>return\<close> end the loop, and \<open>next_round\<close> is what happens otherwise.
\<close>

definition clear_continue :: "'u machine \<Rightarrow> 'u machine" where
  "clear_continue m = (if flow_of m = FLOW_CONTINUE then set_flow FLOW_NORMAL m else m)"

definition ticked :: "'u eval_ops \<Rightarrow> exprtk_value \<Rightarrow> 'u ev \<Rightarrow> 'u ev" where
  "ticked ops last_val f m = (case eval_loop_tick ops m of (ok, m1) \<Rightarrow> if \<not> ok then Done (last_val, m1) else f m1)"

definition after_body :: "(exprtk_value \<Rightarrow> 'u ev) \<Rightarrow> exprtk_value \<Rightarrow> 'u ev" where
  "after_body next_round v m =
     (if flow_of m = FLOW_BREAK then Done (v, set_flow FLOW_NORMAL m)
      else if flow_of m = FLOW_RETURN then Done (v, m)
      else next_round v m)"

fun while_loop :: "'u eval_ops \<Rightarrow> nat \<Rightarrow> 'u ev \<Rightarrow> 'u ev \<Rightarrow> exprtk_value \<Rightarrow> 'u ev" where
  "while_loop ops 0 condition body last_val m = Timeout"
| "while_loop ops (Suc k) condition body last_val m =
     (if flow_of m \<noteq> FLOW_NORMAL \<and> flow_of m \<noteq> FLOW_CONTINUE then Done (last_val, m)
      else
        and_then (condition (clear_continue m))
          (\<lambda>(c, m1).
             if flow_of m1 \<noteq> FLOW_NORMAL \<or> aborted m1 then Done (last_val, m1)
             else if \<not> eval_value_truthy c then Done (last_val, m1)
             else
               ticked ops last_val
                 (\<lambda>m2. and_then (body m2) (\<lambda>(v, m3). after_body (while_loop ops k condition body) v m3)) m1))"

text \<open>\<^verbatim>\<open>for\<close>; \<open>None\<close> is a part that is missing.\<close>

definition for_condition :: "'u ev option \<Rightarrow> 'u machine \<Rightarrow> (bool \<times> 'u machine) outcome" where
  "for_condition condition m =
     (case condition of
        None \<Rightarrow> Done (True, m)
      | Some f \<Rightarrow>
          and_then (f m)
            (\<lambda>(c, m1).
               if flow_of m1 \<noteq> FLOW_NORMAL \<or> aborted m1 then Done (False, m1)
               else Done (eval_value_truthy c, m1)))"

definition for_post :: "'u ev option \<Rightarrow> (exprtk_value \<Rightarrow> 'u ev) \<Rightarrow> exprtk_value \<Rightarrow> 'u ev" where
  "for_post post next_round v m =
     (case post of
        None \<Rightarrow> next_round v m
      | Some f \<Rightarrow>
          and_then (f m)
            (\<lambda>(_, m1).
               if flow_of m1 \<noteq> FLOW_NORMAL \<and> flow_of m1 \<noteq> FLOW_CONTINUE then Done (v, m1)
               else next_round v (clear_continue m1)))"

fun for_loop :: "'u eval_ops \<Rightarrow> nat \<Rightarrow> 'u ev option \<Rightarrow> 'u ev option \<Rightarrow> 'u ev \<Rightarrow> exprtk_value \<Rightarrow> 'u ev" where
  "for_loop ops 0 condition post body last_val m = Timeout"
| "for_loop ops (Suc k) condition post body last_val m =
     and_then (for_condition condition m)
       (\<lambda>(go, m1).
          if \<not> go then Done (last_val, m1)
          else
            ticked ops last_val
              (\<lambda>m2. and_then (body m2)
                 (\<lambda>(v, m3). after_body (for_post post (for_loop ops k condition post body)) v m3)) m1)"

definition eval_for :: "'u eval_ops \<Rightarrow> nat \<Rightarrow> 'u ev \<Rightarrow> 'u ev option \<Rightarrow> 'u ev option \<Rightarrow> 'u ev \<Rightarrow> 'u ev" where
  "eval_for ops k init condition post body m =
     and_then (init m)
       (\<lambda>(_, m1).
          if flow_of m1 \<noteq> FLOW_NORMAL \<or> aborted m1 then Done (ENumber 0, m1)
          else for_loop ops k condition post body (ENumber 0) m1)"

fun do_while_loop :: "'u eval_ops \<Rightarrow> nat \<Rightarrow> 'u ev \<Rightarrow> 'u ev \<Rightarrow> 'u ev" where
  "do_while_loop ops 0 body condition m = Timeout"
| "do_while_loop ops (Suc k) body condition m =
     and_then (body m)
       (\<lambda>(v, m1).
          after_body
            (\<lambda>v m. and_then (condition (clear_continue m))
               (\<lambda>(c, m2).
                  if flow_of m2 \<noteq> FLOW_NORMAL \<or> aborted m2 then Done (v, m2)
                  else if \<not> eval_value_truthy c then Done (v, m2)
                  else ticked ops v (do_while_loop ops k body condition) m2)) v m1)"

fun block_loop :: "'u ev list \<Rightarrow> exprtk_value \<Rightarrow> 'u ev" where
  "block_loop [] last_val m = Done (last_val, m)"
| "block_loop (f # fs) last_val m =
     and_then (f m)
       (\<lambda>(v, m1). if flow_of m1 \<noteq> FLOW_NORMAL \<or> aborted m1 then Done (v, m1) else block_loop fs v m1)"

text \<open>What \<^verbatim>\<open>for (x in c)\<close> iterates over; a map gives its keys.\<close>

definition for_in_items :: "fpu \<Rightarrow> exprtk_value \<Rightarrow> exprtk_value list" where
  "for_in_items F v =
     (case v of
        EVector s xs \<Rightarrow> map ENumber (buf_elems xs)
      | EMap t s \<Rightarrow> map (\<lambda>e. EString None (Buf (fst e))) (store_entries s)
      | ESeq k p xs \<Rightarrow> buf_elems xs
      | ETypedArray kind s xs \<Rightarrow> map (exprtk_typed_array_get_value F kind xs) [0 ..< length (buf_elems xs)]
      | _ \<Rightarrow> [])"

fun for_in_loop :: "'u eval_ops \<Rightarrow> bytes option \<Rightarrow> 'u ev \<Rightarrow> exprtk_value list \<Rightarrow> exprtk_value \<Rightarrow> 'u ev" where
  "for_in_loop ops var body [] last_val m = Done (last_val, m)"
| "for_in_loop ops var body (x # xs) last_val m =
     ticked ops last_val
       (\<lambda>m1. and_then (body (assign ops var x m1))
          (\<lambda>(v, m2). after_body (\<lambda>v m. for_in_loop ops var body xs v (clear_continue m)) v m2)) m"

definition eval_for_in :: "'u eval_ops \<Rightarrow> bytes option \<Rightarrow> 'u ev \<Rightarrow> 'u ev \<Rightarrow> 'u ev" where
  "eval_for_in ops var collection body m =
     and_then (collection m)
       (\<lambda>(c, m1).
          if flow_of m1 \<noteq> FLOW_NORMAL \<or> aborted m1 then Done (ENumber 0, m1)
          else for_in_loop ops var body (for_in_items (op_fpu ops) c) (ENumber 0) m1)"

definition eval_flow :: "token \<Rightarrow> 'u ev option \<Rightarrow> 'u ev" where
  "eval_flow t arg m =
     (if m_env m = [] then Done (ENumber 0, m)
      else if t = TOKEN_RETURN
      then
        and_then (case arg of None \<Rightarrow> Done (ENumber 0, m) | Some f \<Rightarrow> f m)
          (\<lambda>(v, m1).
             let m2 = env_update (\<lambda>sc. sc\<lparr>sc_return_value := v\<rparr>) m1 in
             if arg \<noteq> None \<and> (flow_of m2 \<noteq> FLOW_NORMAL \<or> aborted m2) then Done (v, m2)
             else Done (v, set_flow FLOW_RETURN m2))
      else if t = TOKEN_BREAK then Done (ENumber 0, set_flow FLOW_BREAK m)
      else if t = TOKEN_CONTINUE then Done (ENumber 0, set_flow FLOW_CONTINUE m)
      else Done (ENumber 0, m))"

definition eval_binary_op :: "'u eval_ops \<Rightarrow> exprtk_node \<Rightarrow> token \<Rightarrow> 'u ev option \<Rightarrow> 'u ev \<Rightarrow> 'u ev" where
  "eval_binary_op ops node t left right m =
     and_then (case left of None \<Rightarrow> Done (ENumber 0, m) | Some f \<Rightarrow> f m)
       (\<lambda>(l, m1).
          if left \<noteq> None \<and> flow_of m1 \<noteq> FLOW_NORMAL then Done (ENumber 0, m1)
          else
            and_then (right m1)
              (\<lambda>(r, m2).
                 if flow_of m2 \<noteq> FLOW_NORMAL then Done (ENumber 0, m2)
                 else finish_op ops node (eval_binary (op_fpu ops) (op_payload ops) t l r) m2))"

definition eval_throw :: "'u ev \<Rightarrow> 'u ev" where
  "eval_throw arg m =
     and_then (arg m)
       (\<lambda>(v, m1). Done (v, env_update (\<lambda>sc. sc\<lparr>sc_flow := FLOW_THROW, sc_error_value := v\<rparr>) m1))"

text \<open>The environment of a handler, and what the enclosing environment takes over from it.\<close>

definition catch_env :: "'u eval_ops \<Rightarrow> bytes option \<Rightarrow> 'u machine \<Rightarrow> 'u machine" where
  "catch_env ops var m =
     (case (m_env m, exprtk_env_init_child (m_heap m) (m_env m)) of
        (sc # scs, child # _, h) \<Rightarrow>
          (case exprtk_env_set_local (op_order ops) (op_owned ops (sc_error_value sc)) h
                  (child\<lparr>sc_curr_recursion := sc_curr_recursion sc,
                         sc_curr_loop_iterations := sc_curr_loop_iterations sc,
                         sc_curr_nodes := sc_curr_nodes sc\<rparr>)
                  var (sc_error_value sc) of
             (child', h') \<Rightarrow> m\<lparr>m_env := child' # sc # scs, m_heap := h'\<rparr>)
      | _ \<Rightarrow> m)"

definition leave_catch :: "'u eval_ops \<Rightarrow> exprtk_value \<Rightarrow> 'u machine \<Rightarrow> exprtk_value \<times> 'u machine" where
  "leave_catch ops v m =
     (case m_env m of
        child # sc # scs \<Rightarrow>
          (case clone_in ops v (m\<lparr>m_env := sc # scs\<rparr>) of
             (result, m1) \<Rightarrow>
               let m2 = env_update
                          (\<lambda>sc. sc\<lparr>sc_curr_nodes := sc_curr_nodes child,
                                   sc_curr_loop_iterations := sc_curr_loop_iterations child,
                                   sc_env := (sc_env sc)\<lparr>ee_aborted := ee_aborted (sc_env child)\<rparr>\<rparr>) m1 in
               if sc_flow child = FLOW_NORMAL then (result, m2)
               else
                 (case clone_in ops (sc_return_value child) (set_flow (sc_flow child) m2) of
                    (rv, m3) \<Rightarrow>
                      (case clone_in ops (sc_error_value child) (env_update (\<lambda>sc. sc\<lparr>sc_return_value := rv\<rparr>) m3) of
                         (er, m4) \<Rightarrow> (result, env_update (\<lambda>sc. sc\<lparr>sc_error_value := er\<rparr>) m4))))
      | _ \<Rightarrow> (v, m))"

definition eval_try_catch :: "'u eval_ops \<Rightarrow> 'u ev \<Rightarrow> bytes option \<Rightarrow> 'u ev \<Rightarrow> 'u ev" where
  "eval_try_catch ops try_body catch_var catch_body m =
     and_then (try_body m)
       (\<lambda>(v, m1).
          if flow_of m1 \<noteq> FLOW_THROW then Done (v, m1)
          else
            and_then (catch_body (catch_env ops catch_var (set_flow FLOW_NORMAL m1)))
              (\<lambda>(r, m2). Done (leave_catch ops r m2)))"

text \<open>\<^verbatim>\<open>switch\<close>: the cases are pairs of a label and a body.\<close>

fun switch_loop :: "'u eval_ops \<Rightarrow> exprtk_value \<Rightarrow> 'u ev list \<Rightarrow> 'u ev \<Rightarrow> 'u ev" where
  "switch_loop ops x (label # body # cases) default_case m =
     and_then (label m)
       (\<lambda>(c, m1).
          if flow_of m1 \<noteq> FLOW_NORMAL then Done (ENumber 0, m1)
          else if switchable x \<and> switchable c \<and> values_match (op_fpu ops) (op_payload ops) x c then body m1
          else switch_loop ops x cases default_case m1)"
| "switch_loop ops x cases default_case m = default_case m"

definition eval_switch :: "'u eval_ops \<Rightarrow> 'u ev \<Rightarrow> 'u ev list \<Rightarrow> 'u ev \<Rightarrow> 'u ev" where
  "eval_switch ops subject cases default_case m =
     and_then (subject m)
       (\<lambda>(x, m1).
          if flow_of m1 \<noteq> FLOW_NORMAL then Done (ENumber 0, m1)
          else switch_loop ops x cases default_case m1)"

definition eval_index_access :: "'u eval_ops \<Rightarrow> exprtk_node \<Rightarrow> 'u ev \<Rightarrow> 'u ev \<Rightarrow> 'u ev" where
  "eval_index_access ops node array index m =
     and_then (array m)
       (\<lambda>(a, m1). and_then (index m1) (\<lambda>(i, m2). finish_op ops node (eval_index (op_fpu ops) a i) m2))"

definition eval_slice_access :: "'u eval_ops \<Rightarrow> exprtk_node \<Rightarrow> 'u ev \<Rightarrow> 'u ev \<Rightarrow> 'u ev \<Rightarrow> 'u ev" where
  "eval_slice_access ops node array start stop m =
     and_then (array m)
       (\<lambda>(a, m1).
          and_then (start m1)
            (\<lambda>(b, m2). and_then (stop m2) (\<lambda>(e, m3). finish_op ops node (eval_slice (op_fpu ops) a b e) m3)))"

text \<open>A member of a value; members of opaque values, enumerations and typed arrays are a parameter.\<close>

definition no_member :: "exprtk_node \<Rightarrow> bytes option \<Rightarrow> exprtk_value \<Rightarrow> 'u ev" where
  "no_member node member v m =
     Done (throw_error node
       (''Member access '' @ [CHR 0x27] @ (case member of None \<Rightarrow> ''<null>'' | Some x \<Rightarrow> x) @ [CHR 0x27] @
        '' is invalid for '' @ type_name (value_type v)) m)"

definition length_member :: "'u eval_ops \<Rightarrow> exprtk_node \<Rightarrow> bytes option \<Rightarrow> exprtk_value \<Rightarrow> size_t \<Rightarrow> 'u ev" where
  "length_member ops node member v n m =
     (case member of
        None \<Rightarrow> Trap
      | Some x \<Rightarrow>
          if x = ''length'' then Done (ENumber (fp_of_int (op_fpu ops) n), m) else no_member node member v m)"

definition member_of :: "'u eval_ops \<Rightarrow> exprtk_node \<Rightarrow> bytes option \<Rightarrow> exprtk_value \<Rightarrow> 'u ev" where
  "member_of ops node member v m =
     (case v of
        EMap t s \<Rightarrow> Done (case member of None \<Rightarrow> ENumber 0 | Some x \<Rightarrow> exprtk_map_get v x, m)
      | EString s b \<Rightarrow> length_member ops node member v (buf_size b) m
      | EBytes s b \<Rightarrow> length_member ops node member v (buf_size b) m
      | EVector s b \<Rightarrow> length_member ops node member v (buf_size b) m
      | EOpaque tag a \<Rightarrow> op_member ops node v m
      | EEnum t s a n b i \<Rightarrow> op_member ops node v m
      | ETypedArray k s b \<Rightarrow> op_member ops node v m
      | _ \<Rightarrow> no_member node member v m)"

definition eval_member_access :: "'u eval_ops \<Rightarrow> exprtk_node \<Rightarrow> 'u ev \<Rightarrow> bytes option \<Rightarrow> 'u ev" where
  "eval_member_access ops node obj member m = and_then (obj m) (\<lambda>(v, m1). member_of ops node member v m1)"

text \<open>The literals.  A null key of a map literal is a spread.\<close>

fun spread_entries :: "order \<Rightarrow> (bytes \<times> exprtk_value) list \<Rightarrow> exprtk_value \<Rightarrow> heap \<Rightarrow> exprtk_value option \<times> heap" where
  "spread_entries order [] dst h = (Some dst, h)"
| "spread_entries order (e # es) dst h =
     (case exprtk_map_set order h dst (fst e) (snd e) of
        (r, dst', h') \<Rightarrow> if r \<noteq> 0 then (None, h') else spread_entries order es dst' h')"

definition literal_entry ::
  "order \<Rightarrow> bytes option \<Rightarrow> exprtk_value \<Rightarrow> exprtk_value \<Rightarrow> heap \<Rightarrow> exprtk_value option \<times> heap" where
  "literal_entry order key v dst h =
     (case key of
        None \<Rightarrow> spread_entries order (exprtk_map_entries v) dst h
      | Some k \<Rightarrow> (case exprtk_map_set order h dst k v of (r, dst', h') \<Rightarrow> (if r \<noteq> 0 then None else Some dst', h')))"

fun map_literal_loop ::
  "'u eval_ops \<Rightarrow> exprtk_node \<Rightarrow> (bytes option \<times> 'u ev) list \<Rightarrow> exprtk_value \<Rightarrow> 'u ev" where
  "map_literal_loop ops node [] dst m = Done (dst, m)"
| "map_literal_loop ops node ((key, f) # es) dst m =
     and_then (f m)
       (\<lambda>(v, m1).
          if key \<noteq> None \<and> flow_of m1 \<noteq> FLOW_NORMAL then Done (dst, m1)
          else
            (case literal_entry (op_order ops) key v dst (m_heap m1) of
               (Some dst', h) \<Rightarrow> map_literal_loop ops node es dst' (m1\<lparr>m_heap := h\<rparr>)
             | (None, h) \<Rightarrow>
                 Done (throw_error node (if key = None then ''failed to spread map value'' else ''failed to store map value'')
                         (m1\<lparr>m_heap := h\<rparr>))))"

definition eval_map_literal :: "'u eval_ops \<Rightarrow> exprtk_node \<Rightarrow> (bytes option \<times> 'u ev) list \<Rightarrow> 'u ev" where
  "eval_map_literal ops node es m =
     (case exprtk_val_map VAL_MAP (m_heap m) of (dst, h) \<Rightarrow> map_literal_loop ops node es dst (m\<lparr>m_heap := h\<rparr>))"

text \<open>
  \<^verbatim>\<open>eval_expand_args\<close>: the capacity of the array is tracked, since a growth may fail.  A node is given by
  whether it is a spread and its evaluator (of the child of a spread); \<open>None\<close> is a null pointer.
\<close>

function grow_cap :: "nat \<Rightarrow> nat \<Rightarrow> nat" where
  "grow_cap cap needed = (if cap = 0 \<or> needed \<le> cap then cap else grow_cap (2 * cap) needed)"
  by pat_completeness auto

termination by (relation "measure (\<lambda>(cap, needed). needed - cap)") auto

declare grow_cap.simps [simp del]

definition grow_value_array :: "nat \<Rightarrow> nat \<Rightarrow> heap \<Rightarrow> nat option \<times> heap" where
  "grow_value_array cap needed h =
     (if needed \<le> cap then (Some cap, h)
      else (case alloc h of (ok, h') \<Rightarrow> (if ok then Some (grow_cap (if cap > 0 then cap else 4) needed) else None, h')))"

fun copy_args ::
  "'u eval_ops \<Rightarrow> exprtk_value list \<Rightarrow> exprtk_value list \<Rightarrow> 'u machine \<Rightarrow> exprtk_value list option \<times> 'u machine" where
  "copy_args ops [] vals m = (Some vals, m)"
| "copy_args ops (x # xs) vals m =
     (case copy_in ops x m of
        (Some y, m1) \<Rightarrow> copy_args ops xs (vals @ [y]) m1
      | (None, m1) \<Rightarrow> (None, m1))"

definition expand_arg ::
  "'u eval_ops \<Rightarrow> bool \<Rightarrow> exprtk_value \<Rightarrow> nat \<Rightarrow> exprtk_value list \<Rightarrow> 'u machine \<Rightarrow>
   (nat \<times> exprtk_value list) option \<times> 'u machine" where
  "expand_arg ops spread v cap vals m =
     (case (case v of
              EVector s b \<Rightarrow> if spread then Inl (map ENumber (buf_elems b)) else Inl [v]
            | ESeq k p b \<Rightarrow> if spread \<and> k = VAL_LIST then Inr (buf_elems b) else Inl [v]
            | _ \<Rightarrow> Inl [v]) of
        Inl items \<Rightarrow>
          (case grow_value_array cap (length vals + length items) (m_heap m) of
             (Some cap', h) \<Rightarrow> (Some (cap', vals @ items), m\<lparr>m_heap := h\<rparr>)
           | (None, h) \<Rightarrow> (None, m\<lparr>m_heap := h\<rparr>))
      | Inr items \<Rightarrow>
          (case grow_value_array cap (length vals + length items) (m_heap m) of
             (Some cap', h) \<Rightarrow>
               (case copy_args ops items vals (m\<lparr>m_heap := h\<rparr>) of
                  (Some vals', m1) \<Rightarrow> (Some (cap', vals'), m1)
                | (None, m1) \<Rightarrow> (None, m1))
           | (None, h) \<Rightarrow> (None, m\<lparr>m_heap := h\<rparr>)))"

text \<open>The place of a node that is not a spread is made before the node is evaluated.\<close>

definition reserve_arg :: "bool \<Rightarrow> nat \<Rightarrow> nat \<Rightarrow> 'u machine \<Rightarrow> nat option \<times> 'u machine" where
  "reserve_arg spread cap n m =
     (if spread then (Some cap, m)
      else (case grow_value_array cap (Suc n) (m_heap m) of (r, h) \<Rightarrow> (r, m\<lparr>m_heap := h\<rparr>)))"

fun expand_args_loop ::
  "'u eval_ops \<Rightarrow> (bool \<times> 'u ev) option list \<Rightarrow> nat \<Rightarrow> exprtk_value list \<Rightarrow> 'u machine \<Rightarrow>
   (exprtk_value list option \<times> 'u machine) outcome" where
  "expand_args_loop ops [] cap vals m = Done (Some vals, m)"
| "expand_args_loop ops (None # xs) cap vals m = Trap"
| "expand_args_loop ops (Some (spread, f) # xs) cap vals m =
     (case reserve_arg spread cap (length vals) m of
        (None, m0) \<Rightarrow> Done (None, m0)
      | (Some room, m0) \<Rightarrow>
          and_then (f m0)
            (\<lambda>(v, m1).
               case expand_arg ops spread v room vals m1 of
                 (None, m2) \<Rightarrow> Done (None, m2)
               | (Some (cap', vals'), m2) \<Rightarrow>
                   if flow_of m2 \<noteq> FLOW_NORMAL \<or> aborted m2 then Done (Some vals', m2)
                   else expand_args_loop ops xs cap' vals' m2))"

definition eval_expand_args ::
  "'u eval_ops \<Rightarrow> (bool \<times> 'u ev) option list \<Rightarrow> 'u machine \<Rightarrow> (exprtk_value list option \<times> 'u machine) outcome" where
  "eval_expand_args ops xs m =
     (case machine_alloc m of
        (ok, m1) \<Rightarrow>
          if \<not> ok then Done (None, m1)
          else expand_args_loop ops xs (if xs = [] then 4 else length xs) [] m1)"

text \<open>\<^verbatim>\<open>vec_init_bytes\<close> and \<^verbatim>\<open>vec_reserve\<close> are two allocations; the pushes that follow have their room.\<close>

definition eval_vector :: "'u eval_ops \<Rightarrow> exprtk_node \<Rightarrow> (bool \<times> 'u ev) option list \<Rightarrow> 'u ev" where
  "eval_vector ops node xs m =
     and_then (eval_expand_args ops xs m)
       (\<lambda>(r, m1).
          case r of
            None \<Rightarrow> Done (ENumber 0, m1)
          | Some vals \<Rightarrow>
              if vals = [] then Done (ENumber 0, m1)
              else
                (case alloc_all 2 (m_heap m1) of
                   (ok, h) \<Rightarrow>
                     let m2 = m1\<lparr>m_heap := h\<rparr> in
                     if \<not> ok then Done (throw_error node ''failed to allocate vector value'' m2)
                     else
                       (case copy_in ops (EVector None (Buf (map (val_to_double (op_fpu ops)) vals))) m2 of
                          (Some v, m3) \<Rightarrow> Done (v, m3)
                        | (None, m3) \<Rightarrow> Done (ENumber 0, m3))))"

section \<open>The evaluator\<close>

text \<open>\<^verbatim>\<open>exprtk_env_eval_node\<close>: a hook of the environment, when there is one, takes the place of the evaluator; it gives
  zero for a null pointer, as the evaluator does.\<close>

definition env_eval_node :: "'u eval_ops \<Rightarrow> exprtk_node option \<Rightarrow> 'u ev \<Rightarrow> 'u ev" where
  "env_eval_node ops node f m =
     (case (m_env m, node) of
        (sc # scs, Some n) \<Rightarrow> (case fst (sc_hooks sc) of Some hook \<Rightarrow> op_eval_node ops hook n m | None \<Rightarrow> f m)
      | _ \<Rightarrow> f m)"

definition spread_child :: "exprtk_node \<Rightarrow> bool \<times> exprtk_node option" where
  "spread_child node = (case node_data node of NODE_SPREAD child \<Rightarrow> (True, child) | _ \<Rightarrow> (False, Some node))"

text \<open>
  \<open>k\<close> bounds the iterations of each loop.  The kinds of nodes without a case of their own give zero, as
  the default branch of the source does.
\<close>

definition eval_data ::
  "'u eval_ops \<Rightarrow> nat \<Rightarrow> (exprtk_node option \<Rightarrow> 'u ev) \<Rightarrow> exprtk_node \<Rightarrow> 'u ev" where
  "eval_data ops k ev node m =
     (case node_data node of
        NODE_NUMBER x \<Rightarrow> Done (ENumber x, m)
      | NODE_INTEGER i \<Rightarrow> Done (EInteger i, m)
      | NODE_STRING v \<Rightarrow> Done (EString None v, m)
      | NODE_NULL \<Rightarrow> Done (ENull, m)
      | NODE_VARIABLE name \<Rightarrow> Done (exprtk_env_get (m_env m) name, m)
      | NODE_SPREAD child \<Rightarrow> ev child m
      | NODE_ASSIGNMENT name rhs \<Rightarrow> eval_assignment ops name (ev rhs) m
      | NODE_CONSTANT_DECL name rhs \<Rightarrow> eval_constant_decl ops name (ev rhs) m
      | NODE_IF condition if_branch else_branch \<Rightarrow> eval_if (ev condition) (ev if_branch) (ev else_branch) m
      | NODE_WHILE condition body \<Rightarrow> while_loop ops k (ev condition) (ev body) (ENumber 0) m
      | NODE_FOR init condition post body \<Rightarrow>
          eval_for ops k (ev init) (map_option (\<lambda>n. ev (Some n)) condition) (map_option (\<lambda>n. ev (Some n)) post) (ev body) m
      | NODE_BLOCK statements \<Rightarrow> block_loop (map ev statements) (ENumber 0) m
      | NODE_FLOW kind arg \<Rightarrow> eval_flow (op_token ops kind) (map_option (\<lambda>n. ev (Some n)) arg) m
      | NODE_BINARY_OP kind left right \<Rightarrow>
          eval_binary_op ops node (op_token ops kind) (map_option (\<lambda>n. ev (Some n)) left) (ev right) m
      | NODE_DO_WHILE body condition \<Rightarrow> do_while_loop ops k (ev body) (ev condition) m
      | NODE_VECTOR elements \<Rightarrow>
          eval_vector ops node
            (map (map_option (\<lambda>n. case spread_child n of (s, c) \<Rightarrow> (s, env_eval_node ops c (ev c)))) elements) m
      | NODE_INDEX array index \<Rightarrow> eval_index_access ops node (ev array) (ev index) m
      | NODE_SLICE array start stop \<Rightarrow> eval_slice_access ops node (ev array) (ev start) (ev stop) m
      | NODE_MAP_LITERAL keys elements \<Rightarrow> eval_map_literal ops node (zip keys (map ev elements)) m
      | NODE_MEMBER_ACCESS obj member \<Rightarrow> eval_member_access ops node (ev obj) member m
      | NODE_FOR_IN var collection body \<Rightarrow> eval_for_in ops var (ev collection) (ev body) m
      | NODE_THROW arg \<Rightarrow> eval_throw (ev arg) m
      | NODE_TRY_CATCH try_body catch_var catch_body \<Rightarrow> eval_try_catch ops (ev try_body) catch_var (ev catch_body) m
      | NODE_SWITCH subject cases default_case \<Rightarrow> eval_switch ops (ev subject) (map ev cases) (ev default_case) m
      | NODE_REST_PARAMETER name \<Rightarrow> Done (ENumber 0, m)
      | NODE_YIELD arg \<Rightarrow> Done (ENumber 0, m)
      | NODE_GENERATOR_FUNCTION name params body \<Rightarrow> Done (ENumber 0, m)
      | NODE_METHOD name params body \<Rightarrow> Done (ENumber 0, m)
      | NODE_FIELD_DECL name init \<Rightarrow> Done (ENumber 0, m)
      | NODE_UNKNOWN t \<Rightarrow> Done (ENumber 0, m)
      | _ \<Rightarrow> op_foreign ops node m)"

text \<open>The children that a node passes to the evaluator are smaller than the node.\<close>

lemma child_smaller:
  "x \<in> set (node_children (node_data n)) \<Longrightarrow> child_size x < size n"
  using member_le_sum_list [of "child_size x" "map child_size (node_children (node_data n))"]
    node_children_size [of "node_data n"]
  by (cases n) auto

lemma spread_smaller: "spread_child e = (s, c) \<Longrightarrow> child_size c \<le> size e"
  using child_smaller [of c e]
  by (auto simp: spread_child_def node_children_def child_size_simps split: node_data.splits intro: less_imp_le)

lemma eval_data_cong [fundef_cong]:
  assumes "\<And>x m. child_size x < size n \<Longrightarrow> f x m = g x m"
  shows "eval_data ops k f n m = eval_data ops k g n m"
proof -
  let ?c = "set (node_children (node_data n))"
  have small: "f x = g x" if "child_size x < size n" for x using assms that by blast
  have one: "f x = g x" if "x \<in> ?c" for x using small child_smaller [OF that] by simp
  have opt: "map_option (\<lambda>n. f (Some n)) x = map_option (\<lambda>n. g (Some n)) x" if "x \<in> ?c" for x
    using one that by (cases x) simp_all
  have many: "map f xs = map g xs" if "set xs \<subseteq> ?c" for xs using one that by auto
  have arg: "env_eval_node ops c (f c) = env_eval_node ops c (g c)" if "Some e \<in> ?c" "spread_child e = (s, c)" for e s c
    using small [of c] child_smaller [OF that(1)] spread_smaller [OF that(2)] by (simp add: child_size_simps)
  have args: "map (map_option (\<lambda>n. case spread_child n of (s, c) \<Rightarrow> (s, env_eval_node ops c (f c)))) xs =
      map (map_option (\<lambda>n. case spread_child n of (s, c) \<Rightarrow> (s, env_eval_node ops c (g c)))) xs"
    if "set xs \<subseteq> ?c" for xs
    using arg that by (intro map_cong refl map_option_cong) (auto split: prod.split)
  show ?thesis
    by (cases "node_data n") (simp_all add: eval_data_def node_children_def one opt many args subset_iff del: map_eq_conv)
qed

function exprtk_eval :: "'u eval_ops \<Rightarrow> nat \<Rightarrow> exprtk_node option \<Rightarrow> 'u ev" where
  "exprtk_eval ops k node m =
     (case node of
        None \<Rightarrow> Done (ENumber 0, m)
      | Some n \<Rightarrow>
          (case eval_enter ops n m of
             (ok, m1) \<Rightarrow>
               if \<not> ok then Done (ENumber 0, m1)
               else
                 eval_data ops k (exprtk_eval ops k) n m1))"
  by pat_completeness auto

termination by (relation "measure (\<lambda>(ops, k, node, m). child_size node)") (auto simp: child_size_simps)

declare exprtk_eval.simps [simp del]

end
