(* ===== verification/Eval_Ends.thy ===== *)
theory Eval_Ends
  imports Tree_Eval
begin

text \<open>
  Evaluation ends.  Every loop of a script passes \<^verbatim>\<open>eval_loop_tick\<close>; when the environment has a safe point
  that gives out, or no safe point and a bound on its iterations, no loop goes on for ever.  For trees without
  calls and the other nodes that are left to parameters this holds as it stands, for all trees if the parameters end.
\<close>

section \<open>Guards\<close>

text \<open>
  What the evaluator relies on of a safe point: a measure that never grows and that an accepted loop
  iteration brings down.
\<close>

locale loop_guard =
  fixes sp :: "safe_point_kind \<Rightarrow> size_t \<Rightarrow> 'u \<Rightarrow> int \<times> 'u" and ok :: "'u \<Rightarrow> bool" and left :: "'u \<Rightarrow> nat"
  assumes guard_keeps: "ok u \<Longrightarrow> sp kind cost u = (r, u') \<Longrightarrow> ok u' \<and> left u' \<le> left u"
    and guard_spends: "ok u \<Longrightarrow> sp SP_LOOP 1 u = (0, u') \<Longrightarrow> left u' < left u"
begin

text \<open>A run of accepted iterations, whatever comes in between, is no longer than the measure.\<close>

inductive run :: "'u \<Rightarrow> nat \<Rightarrow> 'u \<Rightarrow> bool" where
  run_start: "run u 0 u"
| run_loop: "run u n v \<Longrightarrow> sp SP_LOOP 1 v = (0, w) \<Longrightarrow> run u (Suc n) w"
| run_other: "run u n v \<Longrightarrow> sp kind cost v = (r, w) \<Longrightarrow> run u n w"

lemma run_bounded: "run u n v \<Longrightarrow> ok u \<Longrightarrow> ok v \<and> left v + n \<le> left u"
proof (induction rule: run.induct)
  case (run_loop u n v w)
  then show ?case using guard_keeps [of v SP_LOOP 1 0 w] guard_spends [of v w] by fastforce
next
  case (run_other u n v kind cost r w)
  then show ?case using guard_keeps [of v kind cost r w] by fastforce
qed simp

end

section \<open>What evaluation leaves alone\<close>

text \<open>
  The part of a machine that the bound on loops depends on: of each environment the hooks, the bound
  and the counter, and the state of the safe point.
\<close>

definition loop_view ::
  "scope \<Rightarrow> (addr option \<times> addr option \<times> addr option \<times> addr option) \<times> u32 \<times> u32" where
  "loop_view sc = (sc_hooks sc, sc_max_loop_iterations sc, sc_curr_loop_iterations sc)"

definition view :: "'u machine \<Rightarrow> ((addr option \<times> addr option \<times> addr option \<times> addr option) \<times> u32 \<times> u32) list \<times> 'u" where
  "view m = (map loop_view (m_env m), m_user m)"

lemma view_heap [simp]: "view (m\<lparr>m_heap := h\<rparr>) = view m"
  by (simp add: view_def)

lemma view_env: "map loop_view env = map loop_view (m_env m) \<Longrightarrow> view (m\<lparr>m_env := env\<rparr>) = view m"
  by (simp add: view_def)

lemma view_env_update:
  "(\<And>sc. loop_view (f sc) = loop_view sc) \<Longrightarrow> view (env_update f m) = view m"
  by (auto simp: env_update_def view_def split: list.split)

lemma view_set_flow [simp]: "view (set_flow f m) = view m"
  by (simp add: set_flow_def view_env_update loop_view_def)

lemma view_set_value [simp]:
  "view (env_update (\<lambda>sc. sc\<lparr>sc_return_value := v\<rparr>) m) = view m"
  "view (env_update (\<lambda>sc. sc\<lparr>sc_error_value := v\<rparr>) m) = view m"
  by (simp_all add: view_env_update loop_view_def)

lemma view_clear_continue [simp]: "view (clear_continue m) = view m"
  by (simp add: clear_continue_def)

lemma view_throw [simp]: "throw_error node msg m = (v, m') \<Longrightarrow> view m' = view m"
  by (auto simp: throw_error_def Let_def loop_view_def intro!: view_env_update)

lemma set_bound_view:
  "set_bound order owned h env name v = Some (env', h') \<Longrightarrow> map loop_view env' = map loop_view env"
  by (induction env arbitrary: env' h')
     (auto simp: rebind_def loop_view_def split: option.splits if_splits prod.splits)

lemma set_local_view: "exprtk_env_set_local order owned h sc name v = (sc', h') \<Longrightarrow> loop_view sc' = loop_view sc"
  by (auto simp: exprtk_env_set_local_def rebind_def loop_view_def split: option.splits if_splits prod.splits)

lemma env_set_view: "exprtk_env_set order owned h env name v = (env', h') \<Longrightarrow> map loop_view env' = map loop_view env"
  by (auto simp: exprtk_env_set_def simp del: set_bound.simps dest: set_bound_view set_local_view
      split: list.splits option.splits prod.splits)

lemma set_constant_view:
  "exprtk_env_set_constant order owned h env name v = (env', h') \<Longrightarrow> map loop_view env' = map loop_view env"
  by (auto simp: exprtk_env_set_constant_def loop_view_def dest!: env_set_view
      split: list.splits option.splits prod.splits)

lemma view_assign [simp]: "view (assign ops name v m) = view m"
  by (auto simp: assign_def view_def dest: env_set_view split: prod.split)

lemma view_copy_in [simp]: "copy_in ops v m = (r, m') \<Longrightarrow> view m' = view m"
  by (auto simp: copy_in_def view_def loop_view_def split: list.splits prod.splits)

lemma view_clone_in [simp]: "clone_in ops v m = (r, m') \<Longrightarrow> view m' = view m"
  by (auto simp: clone_in_def view_def loop_view_def split: list.splits prod.splits)

lemma view_machine_alloc [simp]: "machine_alloc m = (r, m') \<Longrightarrow> view m' = view m"
  by (auto simp: machine_alloc_def split: prod.splits)

lemma view_promote [simp]: "eval_promote_string ops t m = (v, m') \<Longrightarrow> view m' = view m"
  by (auto simp: eval_promote_string_def split: if_splits prod.splits)

lemma view_finish_op: "finish_op ops node r m = Done (v, m') \<Longrightarrow> view m' = view m"
  by (auto simp: finish_op_def split: op_result.splits if_splits prod.splits option.splits)

lemma finish_op_returns: "finish_op ops node r m \<noteq> Timeout"
  by (auto simp: finish_op_def split: op_result.splits if_splits prod.splits option.splits)

section \<open>The measure\<close>

text \<open>
  How many iterations the current environment still admits.  The counter of an environment without a
  safe point may pass the bound, once for each loop that ends there; \<open>peak\<close> is the largest value that
  matters, and it has to stay below the width of the counter.
\<close>

definition guarded :: "'u machine \<Rightarrow> bool" where
  "guarded m \<longleftrightarrow> scope_hook (hd (m_env m)) \<noteq> None"

definition ticks_left :: "('u \<Rightarrow> nat) \<Rightarrow> 'u machine \<Rightarrow> nat" where
  "ticks_left left m =
     (if guarded m then left (m_user m)
      else unat (sc_max_loop_iterations (hd (m_env m))) - unat (sc_curr_loop_iterations (hd (m_env m))))"

definition loop_bound :: "'u machine \<Rightarrow> nat" where
  "loop_bound m = (if guarded m then 0 else unat (sc_max_loop_iterations (hd (m_env m))))"

definition peak :: "'u machine \<Rightarrow> nat" where
  "peak m = (if guarded m then 0
             else max (unat (sc_max_loop_iterations (hd (m_env m)))) (unat (sc_curr_loop_iterations (hd (m_env m)))))"

definition fixed :: "'u machine \<Rightarrow> ((addr option \<times> addr option \<times> addr option \<times> addr option) \<times> u32) list" where
  "fixed m = map (\<lambda>sc. (sc_hooks sc, sc_max_loop_iterations sc)) (m_env m)"

definition step_ok :: "('u \<Rightarrow> bool) \<Rightarrow> ('u \<Rightarrow> nat) \<Rightarrow> nat \<Rightarrow> 'u machine \<Rightarrow> 'u machine \<Rightarrow> bool" where
  "step_ok ok left w m m' \<longleftrightarrow>
     fixed m' = fixed m \<and> ok (m_user m') \<and> ticks_left left m' \<le> ticks_left left m \<and> peak m' \<le> peak m + w"

text \<open>When a run may start, and what holds at its end.  \<open>w\<close> is the number of loops it may end at their bound.\<close>

definition ready :: "('u \<Rightarrow> bool) \<Rightarrow> ('u \<Rightarrow> nat) \<Rightarrow> nat \<Rightarrow> nat \<Rightarrow> 'u machine \<Rightarrow> bool" where
  "ready ok left k w m \<longleftrightarrow>
     m_env m \<noteq> [] \<and> ok (m_user m) \<and> ticks_left left m < k \<and> peak m + w < 2 ^ 32 - 1"

definition ends :: "('u \<Rightarrow> bool) \<Rightarrow> ('u \<Rightarrow> nat) \<Rightarrow> nat \<Rightarrow> 'u machine \<Rightarrow> ('a \<times> 'u machine) outcome \<Rightarrow> bool" where
  "ends ok left w m r \<longleftrightarrow> r \<noteq> Timeout \<and> (\<forall>v m'. r = Done (v, m') \<longrightarrow> step_ok ok left w m m')"

definition good :: "('u \<Rightarrow> bool) \<Rightarrow> ('u \<Rightarrow> nat) \<Rightarrow> nat \<Rightarrow> nat \<Rightarrow> ('u machine \<Rightarrow> ('a \<times> 'u machine) outcome) \<Rightarrow> bool" where
  "good ok left k w f \<longleftrightarrow> (\<forall>m. ready ok left k w m \<longrightarrow> ends ok left w m (f m))"

lemma hd_view:
  assumes "map g (m_env m') = map g (m_env m)" "m_env m \<noteq> []"
  shows "g (hd (m_env m')) = g (hd (m_env m)) \<and> m_env m' \<noteq> []"
  using assms by (cases "m_env m"; cases "m_env m'") auto

lemma view_fixed:
  "map loop_view xs = map loop_view ys \<Longrightarrow>
   map (\<lambda>sc. (sc_hooks sc, sc_max_loop_iterations sc)) xs = map (\<lambda>sc. (sc_hooks sc, sc_max_loop_iterations sc)) ys"
  by (auto simp: list_eq_iff_nth_eq loop_view_def)

lemma loops_measures:
  assumes "map loop_view (m_env m') = map loop_view (m_env m)" "m_env m \<noteq> []"
  shows "peak m' = peak m" "loop_bound m' = loop_bound m" "fixed m' = fixed m" "m_env m' \<noteq> []" "guarded m' = guarded m"
    "ticks_left left m' = (if guarded m then left (m_user m') else ticks_left left m)"
proof -
  note h = hd_view [OF assms]
  then have "scope_hook (hd (m_env m')) = scope_hook (hd (m_env m))"
    by (simp add: loop_view_def scope_hook_def)
  with h show "peak m' = peak m" "loop_bound m' = loop_bound m" "m_env m' \<noteq> []" "guarded m' = guarded m"
      "ticks_left left m' = (if guarded m then left (m_user m') else ticks_left left m)"
    by (simp_all add: ticks_left_def peak_def loop_bound_def guarded_def loop_view_def)
  show "fixed m' = fixed m"
    using view_fixed [OF assms(1)] by (simp add: fixed_def)
qed

lemma view_measures:
  assumes "view m' = view m" "m_env m \<noteq> []"
  shows "ticks_left left m' = ticks_left left m" "peak m' = peak m" "loop_bound m' = loop_bound m" "fixed m' = fixed m"
    "m_user m' = m_user m" "m_env m' \<noteq> []" "guarded m' = guarded m"
  using assms loops_measures(1-5) [of m' m] loops_measures(6) [of m' m left]
  by (auto simp: view_def ticks_left_def)

lemma fixed_measures:
  assumes "fixed m' = fixed m" "m_env m \<noteq> []"
  shows "loop_bound m' = loop_bound m" "guarded m' = guarded m" "m_env m' \<noteq> []"
  using hd_view [OF assms(1) [unfolded fixed_def] assms(2)]
  by (auto simp: loop_bound_def guarded_def scope_hook_def)

lemma bound_peak: "loop_bound m \<le> peak m"
  by (simp add: loop_bound_def peak_def)

lemma step_ok_view: "view m' = view m \<Longrightarrow> m_env m \<noteq> [] \<Longrightarrow> ok (m_user m) \<Longrightarrow> step_ok ok left w m m'"
  using view_measures(1) [of m' m left] view_measures(2-) [of m' m] by (simp add: step_ok_def)

lemma step_ok_trans: "step_ok ok left w1 m m1 \<Longrightarrow> step_ok ok left w2 m1 m2 \<Longrightarrow> w1 + w2 \<le> w \<Longrightarrow> step_ok ok left w m m2"
  by (auto simp: step_ok_def)

lemma step_ok_ready:
  "step_ok ok left w1 m m1 \<Longrightarrow> ready ok left k w m \<Longrightarrow> w1 + w2 \<le> w \<Longrightarrow> ready ok left k w2 m1"
  by (auto simp: step_ok_def ready_def dest: fixed_measures(3))

lemma ready_mono: "ready ok left k w m \<Longrightarrow> w' \<le> w \<Longrightarrow> ready ok left k w' m"
  by (auto simp: ready_def)

lemma ends_mono: "ends ok left w m r \<Longrightarrow> w \<le> w' \<Longrightarrow> ends ok left w' m r"
  by (fastforce simp: ends_def step_ok_def)

lemma ends_Done:
  "view m' = view m \<Longrightarrow> ready ok left k w m \<Longrightarrow> ends ok left w' m (Done (v, m'))"
  by (auto simp: ends_def ready_def intro: step_ok_view)

lemma ends_step: "step_ok ok left w m m' \<Longrightarrow> ends ok left w m (Done (v, m'))"
  by (simp add: ends_def)

lemma ends_bind:
  assumes "ends ok left w1 m r" "w1 + w2 \<le> w"
    and "\<And>v m1. r = Done (v, m1) \<Longrightarrow> step_ok ok left w1 m m1 \<Longrightarrow> ends ok left w2 m1 (f v m1)"
  shows "ends ok left w m (and_then r (\<lambda>(v, m1). f v m1))"
proof (cases r)
  case (Done x)
  obtain v m1 where x: "x = (v, m1)" by force
  with Done assms(1) have s: "step_ok ok left w1 m m1" by (simp add: ends_def)
  from assms(3) [OF Done [unfolded x] this] show ?thesis
    using step_ok_trans [OF s _ assms(2)] by (auto simp: ends_def Done x)
qed (use assms in \<open>auto simp: ends_def\<close>)

lemma good_bind:
  assumes "good ok left k wa f" "wa + wb \<le> w" "\<And>v. good ok left k wb (g v)"
  shows "good ok left k w (\<lambda>m. and_then (f m) (\<lambda>(v, m1). g v m1))"
  unfolding good_def
proof (intro allI impI)
  fix m assume r: "ready ok left k w m"
  have "ends ok left wa m (f m)" using assms(1,2) ready_mono [OF r, of wa] by (simp add: good_def)
  then show "ends ok left w m (and_then (f m) (\<lambda>(v, m1). g v m1))"
    by (rule ends_bind [OF _ assms(2)]) (use assms(2,3) step_ok_ready [OF _ r] in \<open>auto simp: good_def\<close>)
qed

lemma good_Done: "(\<And>m. view (h m) = view m) \<Longrightarrow> good ok left k w (\<lambda>m. Done (v m, h m))"
  by (auto simp: good_def intro: ends_Done)

lemma good_if: "good ok left k w f \<Longrightarrow> good ok left k w g \<Longrightarrow> good ok left k w (\<lambda>m. if P m then f m else g m)"
  by (simp add: good_def)

lemma good_mono: "good ok left k w f \<Longrightarrow> w \<le> w' \<Longrightarrow> good ok left k w' f"
  by (auto simp: good_def intro: ends_mono ready_mono)

lemma good_Trap: "good ok left k w (\<lambda>m. Trap)"
  by (simp add: good_def ends_def)

lemma good_pre: "good ok left k w f \<Longrightarrow> (\<And>m. view (h m) = view m) \<Longrightarrow> good ok left k w (\<lambda>m. f (h m))"
  unfolding good_def ends_def step_ok_def ready_def by (metis view_measures)

section \<open>Limits\<close>

definition safe_points_end :: "'u eval_ops \<Rightarrow> ('u \<Rightarrow> bool) \<Rightarrow> ('u \<Rightarrow> nat) \<Rightarrow> bool" where
  "safe_points_end ops ok left \<longleftrightarrow> (\<forall>f d. loop_guard (op_safe_point ops f d) ok left)"

lemma aborted_view: "loop_view (set_aborted sc) = loop_view sc"
  by (simp add: set_aborted_def loop_view_def)

lemma safe_point_effect:
  assumes "m_env m = sc # scs" "scope_hook sc = Some (f, d)" "op_safe_point ops f d kind cost (m_user m) = (r, u)"
    and "eval_safe_point ops kind cost m = (b, m')"
  shows "b = (r = 0)" "m_user m' = u" "map loop_view (m_env m') = map loop_view (m_env m)"
  using assms by (auto simp: eval_safe_point_def env_update_def aborted_view split: if_splits)

lemma safe_point_step_ok:
  assumes g: "safe_points_end ops ok left" and m: "m_env m \<noteq> []" "ok (m_user m)"
    and e: "eval_safe_point ops kind cost m = (b, m')"
  shows "step_ok ok left 0 m m' \<and>
     (b \<longrightarrow> kind = SP_LOOP \<longrightarrow> cost = 1 \<longrightarrow> guarded m \<longrightarrow> ticks_left left m' < ticks_left left m)"
proof -
  obtain sc scs where sc: "m_env m = sc # scs" using m by (cases "m_env m") auto
  show ?thesis
  proof (cases "scope_hook sc")
    case None
    with e sc m show ?thesis by (auto simp: eval_safe_point_def guarded_def intro: step_ok_view)
  next
    case (Some fd)
    obtain f d r u where f: "fd = (f, d)" and u: "op_safe_point ops f d kind cost (m_user m) = (r, u)"
      by (metis surj_pair)
    have "loop_guard (op_safe_point ops f d) ok left" using g by (simp add: safe_points_end_def)
    note k = loop_guard.guard_keeps [OF this m(2) u] and l = loop_guard.guard_spends [OF this m(2)]
    note e = safe_point_effect [OF sc Some [unfolded f] u e]
    have "guarded m" using Some sc by (simp add: guarded_def)
    with e(1,2) k l u loops_measures(1,3) [OF e(3) m(1)] loops_measures(6) [OF e(3) m(1), of left] show ?thesis
      by (auto simp: step_ok_def ticks_left_def)
  qed
qed

lemma unat_next: "unat x < 2 ^ 32 - 1 \<Longrightarrow> unat (x + 1 :: u32) = unat x + 1"
  using unat_add_lem [of x "1 :: u32"] by simp

lemma tick_step:
  assumes g: "safe_points_end ops ok left" and r: "ready ok left k 1 m" and e: "eval_loop_tick ops m = (b, m')"
  shows "step_ok ok left 1 m m'"
    and "b \<Longrightarrow> step_ok ok left 0 m m' \<and> ticks_left left m' < ticks_left left m \<and> peak m' = loop_bound m"
proof -
  have m: "m_env m \<noteq> []" "ok (m_user m)" and p: "peak m + 1 < 2 ^ 32 - 1" using r by (auto simp: ready_def)
  obtain sc scs where sc: "m_env m = sc # scs" using m by (cases "m_env m") auto
  have "step_ok ok left 1 m m' \<and>
      (b \<longrightarrow> step_ok ok left 0 m m' \<and> ticks_left left m' < ticks_left left m \<and> peak m' = loop_bound m)"
  proof (cases "scope_hook sc = None")
    case True
    let ?n = "sc_curr_loop_iterations sc" and ?b = "sc_max_loop_iterations sc"
    have n: "unat (?n + 1) = unat ?n + 1"
      by (rule unat_next) (use p sc True in \<open>simp add: peak_def guarded_def\<close>)
    have "\<not> guarded m" using sc True by (simp add: guarded_def)
    moreover from e sc True obtain sc' where sc': "m_env m' = sc' # scs" "m_user m' = m_user m"
        "sc_hooks sc' = sc_hooks sc" "sc_max_loop_iterations sc' = ?b" "sc_curr_loop_iterations sc' = ?n + 1"
        "b \<longleftrightarrow> ?n + 1 \<le> ?b"
      by (auto simp: eval_loop_tick_def Let_def set_aborted_def not_less split: if_splits)
    moreover have "\<not> guarded m'" using sc' True by (simp add: guarded_def scope_hook_def)
    ultimately show ?thesis using sc n m
      by (auto simp: word_le_nat_alt step_ok_def ticks_left_def peak_def loop_bound_def fixed_def)
  next
    case False
    then have guard: "guarded m" using sc by (simp add: guarded_def)
    from e sc False have e': "eval_safe_point ops SP_LOOP 1 m = (b, m')" by (simp add: eval_loop_tick_def)
    note s = safe_point_step_ok [OF g m e']
    from s have "peak m' = loop_bound m"
      using guard fixed_measures(2) [of m' m] m(1) by (simp add: step_ok_def peak_def loop_bound_def)
    with s guard show ?thesis by (auto simp: step_ok_def)
  qed
  then show "step_ok ok left 1 m m'"
    and "b \<Longrightarrow> step_ok ok left 0 m m' \<and> ticks_left left m' < ticks_left left m \<and> peak m' = loop_bound m" by blast+
qed

lemma enter_step:
  assumes g: "safe_points_end ops ok left" and m: "m_env m \<noteq> []" "ok (m_user m)"
    and e: "eval_enter ops n m = (b, m')"
  shows "step_ok ok left 0 m m'"
proof -
  obtain sc scs where sc: "m_env m = sc # scs" using m by (cases "m_env m") auto
  define sc1 where "sc1 = (if node_line n > 0
    then sc\<lparr>sc_last_line := node_line n, sc_last_column := node_column n\<rparr> else sc)"
  let ?m1 = "m\<lparr>m_env := sc1 # scs\<rparr>"
  have v: "view ?m1 = view m" by (simp add: view_def sc sc1_def loop_view_def)
  note vm = view_measures(4-6) [OF v m(1)]
  have e: "(b, m') =
      (if ee_aborted (sc_env sc) then (False, m)
       else if scope_hook sc1 \<noteq> None then eval_safe_point ops SP_STEP 1 ?m1
       else
         let sc2 = sc1\<lparr>sc_curr_nodes := sc_curr_nodes sc1 + 1\<rparr> in
         if sc_curr_nodes sc2 > sc_max_nodes sc2 then (False, m\<lparr>m_env := set_aborted sc2 # scs\<rparr>)
         else (True, m\<lparr>m_env := sc2 # scs\<rparr>))"
    using e [symmetric] by (simp only: eval_enter_def sc list.case sc1_def Let_def)
  show ?thesis
  proof (cases "\<not> ee_aborted (sc_env sc) \<and> scope_hook sc1 \<noteq> None")
    case True
    then have "eval_safe_point ops SP_STEP 1 ?m1 = (b, m')" using e by simp
    then have s: "step_ok ok left 0 ?m1 m'" using safe_point_step_ok [OF g, of ?m1] vm m by simp
    have "step_ok ok left 0 m ?m1" using v m by (rule step_ok_view)
    from step_ok_trans [OF this s] show ?thesis by simp
  next
    case False
    then have "view m' = view m" using e
      by (auto simp: Let_def view_def sc aborted_view loop_view_def set_aborted_def sc1_def split: if_splits)
    then show ?thesis using m by (rule step_ok_view)
  qed
qed

section \<open>Loops\<close>

text \<open>
  A loop ends at most one of its own rounds at the bound, but its parts may be run many times.  Since an
  accepted tick shows that the counter is not above the bound, the peaks of earlier rounds do not add
  up: \<open>p\<close> is an absolute limit.
\<close>

definition runs_on :: "('u \<Rightarrow> bool) \<Rightarrow> ('u \<Rightarrow> nat) \<Rightarrow> nat \<Rightarrow> 'u machine \<Rightarrow> 'u machine \<Rightarrow> bool" where
  "runs_on ok left p m m' \<longleftrightarrow>
     fixed m' = fixed m \<and> ok (m_user m') \<and> ticks_left left m' \<le> ticks_left left m \<and> peak m' \<le> p"

definition ends_at :: "('u \<Rightarrow> bool) \<Rightarrow> ('u \<Rightarrow> nat) \<Rightarrow> nat \<Rightarrow> 'u machine \<Rightarrow> ('a \<times> 'u machine) outcome \<Rightarrow> bool" where
  "ends_at ok left p m r \<longleftrightarrow> r \<noteq> Timeout \<and> (\<forall>v m'. r = Done (v, m') \<longrightarrow> runs_on ok left p m m')"

lemma ends_at_ends: "ends ok left w m r \<longleftrightarrow> ends_at ok left (peak m + w) m r"
  by (simp add: ends_def ends_at_def step_ok_def runs_on_def)

lemma step_ok_runs_on: "step_ok ok left w m m' \<Longrightarrow> peak m + w \<le> p \<Longrightarrow> runs_on ok left p m m'"
  by (simp add: step_ok_def runs_on_def)

lemma runs_on_trans: "runs_on ok left p m m1 \<Longrightarrow> runs_on ok left q m1 m2 \<Longrightarrow> runs_on ok left q m m2"
  by (simp add: runs_on_def)

lemma runs_on_mono: "runs_on ok left p m m' \<Longrightarrow> p \<le> q \<Longrightarrow> runs_on ok left q m m'"
  by (simp add: runs_on_def)

lemma runs_on_view:
  assumes "view m' = view m" "m_env m \<noteq> []" "ok (m_user m)" "peak m \<le> p"
  shows "runs_on ok left p m m'"
  using assms step_ok_view [of m' m ok left 0] by (simp add: step_ok_def runs_on_def)

lemma runs_on_env: "runs_on ok left p m m' \<Longrightarrow> m_env m \<noteq> [] \<Longrightarrow> m_env m' \<noteq> [] \<and> ok (m_user m') \<and> loop_bound m' = loop_bound m"
  by (auto simp: runs_on_def dest: fixed_measures)

lemma ends_at_Done: "runs_on ok left p m m' \<Longrightarrow> ends_at ok left p m (Done (v, m'))"
  by (simp add: ends_at_def)

lemma ends_at_bind:
  assumes "ends_at ok left q m r" "\<And>v m1. r = Done (v, m1) \<Longrightarrow> runs_on ok left q m m1 \<Longrightarrow> ends_at ok left p m1 (f v m1)"
  shows "ends_at ok left p m (and_then r (\<lambda>(v, m1). f v m1))"
proof (cases r)
  case (Done x)
  obtain v m1 where x: "x = (v, m1)" by force
  with Done assms(1) have s: "runs_on ok left q m m1" by (simp add: ends_at_def)
  from assms(2) [OF Done [unfolded x] this] show ?thesis
    using runs_on_trans [OF s] by (auto simp: ends_at_def Done x)
qed (use assms in \<open>auto simp: ends_at_def\<close>)

lemma ends_at_mono: "ends_at ok left p m r \<Longrightarrow> p \<le> q \<Longrightarrow> ends_at ok left q m r"
  by (auto simp: ends_at_def intro: runs_on_mono)

lemma ends_at_back: "runs_on ok left q m m1 \<Longrightarrow> ends_at ok left p m1 r \<Longrightarrow> ends_at ok left p m r"
  by (auto simp: ends_at_def dest: runs_on_trans)

lemma good_at:
  assumes "good ok left k w f" "m_env m \<noteq> []" "ok (m_user m)" "ticks_left left m < k" "peak m + w < 2 ^ 32 - 1"
  shows "ends_at ok left (peak m + w) m (f m)"
  using assms by (simp add: good_def ready_def ends_at_ends)

lemma good_at_view:
  assumes "good ok left k w f" "view m' = view m"
    and "m_env m \<noteq> []" "ok (m_user m)" "ticks_left left m < k" "peak m + w < 2 ^ 32 - 1"
  shows "ends_at ok left (peak m + w) m (f m')"
proof -
  note v = view_measures [OF assms(2,3)]
  have "ends_at ok left (peak m' + w) m' (f m')" by (rule good_at [OF assms(1)]) (use v assms in auto)
  then show ?thesis
    using ends_at_back [OF runs_on_view [of m' m ok "peak m" left]] assms v(2) by simp
qed

lemma runs_on_refl: "m_env m \<noteq> [] \<Longrightarrow> ok (m_user m) \<Longrightarrow> peak m \<le> p \<Longrightarrow> runs_on ok left p m m"
  by (simp add: runs_on_def)

lemma ends_at_here:
  "view m' = view m \<Longrightarrow> m_env m \<noteq> [] \<Longrightarrow> ok (m_user m) \<Longrightarrow> peak m \<le> p \<Longrightarrow> ends_at ok left p m (Done (v, m'))"
  by (intro ends_at_Done runs_on_view)

text \<open>A tick and, when it is accepted, the round behind it.\<close>

lemma ticked_ends:
  assumes g: "safe_points_end ops ok left"
    and m: "m_env m \<noteq> []" "ok (m_user m)" "ticks_left left m < k" and p: "peak m < p" "p < 2 ^ 32 - 1"
    and rest: "\<And>m1. runs_on ok left (loop_bound m) m m1 \<Longrightarrow> ticks_left left m1 < ticks_left left m \<Longrightarrow> ends_at ok left p m1 (f m1)"
  shows "ends_at ok left p m (ticked ops last_val f m)"
proof -
  obtain b m1 where t: "eval_loop_tick ops m = (b, m1)" by force
  have r: "ready ok left k 1 m" using m p by (simp add: ready_def)
  note s = tick_step [OF g r t]
  show ?thesis
  proof (cases b)
    case False
    with step_ok_runs_on [OF s(1), of p] p t show ?thesis by (simp add: ticked_def ends_at_Done)
  next
    case True
    with s(2) have "runs_on ok left (loop_bound m) m m1" "ticks_left left m1 < ticks_left left m"
      by (auto simp: step_ok_def runs_on_def)
    with True t ends_at_back [OF _ rest] show ?thesis by (simp add: ticked_def)
  qed
qed

lemma after_body_ends:
  assumes "m_env m \<noteq> []" "ok (m_user m)" "peak m \<le> p" "ends_at ok left p m (f v m)"
  shows "ends_at ok left p m (after_body f v m)"
  using assms by (simp add: after_body_def ends_at_here)

lemma round_ends:
  assumes g: "safe_points_end ops ok left" and body: "good ok left k wb body"
    and m: "m_env m \<noteq> []" "ok (m_user m)" "ticks_left left m < k"
    and p: "peak m < p" "loop_bound m + wb \<le> p" "p < 2 ^ 32 - 1"
    and rest: "\<And>v m2. runs_on ok left (loop_bound m + wb) m m2 \<Longrightarrow> ticks_left left m2 < ticks_left left m \<Longrightarrow>
        ends_at ok left p m2 (f v m2)"
    and pre: "\<And>m. view (h m) = view m"
  shows "ends_at ok left p m (ticked ops last_val (\<lambda>m1. and_then (body (h m1)) (\<lambda>(v, m2). after_body f v m2)) m)"
proof (rule ticked_ends [OF g m p(1,3)])
  fix m1 assume m1: "runs_on ok left (loop_bound m) m m1" and t: "ticks_left left m1 < ticks_left left m"
  note e = runs_on_env [OF m1 m(1)]
  have "ends_at ok left (peak m1 + wb) m1 (body (h m1))"
    by (rule good_at_view [OF body pre]) (use e m1 p m in \<open>auto simp: runs_on_def\<close>)
  then show "ends_at ok left p m1 (and_then (body (h m1)) (\<lambda>(v, m2). after_body f v m2))"
  proof (rule ends_at_bind)
    fix v m2 assume m2: "runs_on ok left (peak m1 + wb) m1 m2"
    then have r: "runs_on ok left (loop_bound m + wb) m m2" "ticks_left left m2 < ticks_left left m"
      using m1 t by (auto simp: runs_on_def)
    show "ends_at ok left p m2 (after_body f v m2)"
      by (rule after_body_ends) (use rest [OF r] runs_on_env [OF r(1) m(1)] r p in \<open>auto simp: runs_on_def\<close>)
  qed
qed

lemma good_loop:
  assumes "\<And>m. m_env m \<noteq> [] \<Longrightarrow> ok (m_user m) \<Longrightarrow> ticks_left left m < k \<Longrightarrow>
      max (peak m) (loop_bound m + a) + b < 2 ^ 32 - 1 \<Longrightarrow> ends_at ok left (max (peak m) (loop_bound m + a) + b) m (f m)"
  shows "good ok left k (a + b) f"
  unfolding good_def
proof (intro allI impI)
  fix m assume r: "ready ok left k (a + b) m"
  have le: "max (peak m) (loop_bound m + a) + b \<le> peak m + (a + b)" using bound_peak [of m] by simp
  with r have "ends_at ok left (max (peak m) (loop_bound m + a) + b) m (f m)"
    by (intro assms) (auto simp: ready_def)
  from ends_at_mono [OF this le] show "ends ok left (a + b) m (f m)" by (simp add: ends_at_ends)
qed

lemma while_ends:
  assumes g: "safe_points_end ops ok left" and c: "good ok left k wc condition" and b: "good ok left k wb body"
  shows "m_env m \<noteq> [] \<Longrightarrow> ok (m_user m) \<Longrightarrow> ticks_left left m < j \<Longrightarrow> j \<le> k \<Longrightarrow>
     max (peak m) (loop_bound m + wb) + (wc + 1) < 2 ^ 32 - 1 \<Longrightarrow>
     ends_at ok left (max (peak m) (loop_bound m + wb) + (wc + 1)) m (while_loop ops j condition body last_val m)"
proof (induction j arbitrary: m last_val)
  case (Suc j)
  let ?p = "max (peak m) (loop_bound m + wb) + (wc + 1)"
  have cond: "ends_at ok left (peak m + wc) m (condition (clear_continue m))"
    by (rule good_at_view [OF c]) (use Suc.prems in auto)
  have round: "ends_at ok left ?p m1
      (ticked ops last_val
        (\<lambda>m2. and_then (body m2) (\<lambda>(v, m3). after_body (while_loop ops j condition body) v m3)) m1)"
    if m1: "runs_on ok left (peak m + wc) m m1" for m1
  proof (rule round_ends [OF g b, where h = "\<lambda>m. m"])
    fix v m3
    assume m3: "runs_on ok left (loop_bound m1 + wb) m1 m3" "ticks_left left m3 < ticks_left left m1"
    then show "ends_at ok left ?p m3 (while_loop ops j condition body v m3)"
      by (intro ends_at_mono [OF Suc.IH])
         (use runs_on_env [OF m1] runs_on_env [OF m3(1)] m1 m3 Suc.prems in \<open>auto simp: runs_on_def\<close>)
  qed (use runs_on_env [OF m1] m1 Suc.prems in \<open>auto simp: runs_on_def\<close>)
  have "ends_at ok left ?p m1
      (if flow_of m1 \<noteq> FLOW_NORMAL \<or> aborted m1 then Done (last_val, m1)
       else if \<not> eval_value_truthy c then Done (last_val, m1)
       else ticked ops last_val
         (\<lambda>m2. and_then (body m2) (\<lambda>(v, m3). after_body (while_loop ops j condition body) v m3)) m1)"
    if "runs_on ok left (peak m + wc) m m1" for c m1
    using round [OF that] runs_on_env [OF that Suc.prems(1)] that by (auto simp: runs_on_def intro!: ends_at_here)
  from ends_at_bind [OF cond this] show ?case
    using Suc.prems by (auto intro!: ends_at_here)
qed simp

lemma good_while:
  assumes "safe_points_end ops ok left" "good ok left k wc condition" "good ok left k wb body"
  shows "good ok left k (wb + (wc + 1)) (while_loop ops k condition body v)"
  by (rule good_loop) (use while_ends [OF assms] in simp)

text \<open>The parts of \<^verbatim>\<open>for\<close> that may be missing.\<close>

definition good_opt :: "('u \<Rightarrow> bool) \<Rightarrow> ('u \<Rightarrow> nat) \<Rightarrow> nat \<Rightarrow> nat \<Rightarrow> 'u ev option \<Rightarrow> bool" where
  "good_opt ok left k w x \<longleftrightarrow> (\<forall>f. x = Some f \<longrightarrow> good ok left k w f)"

lemma good_condition: "good_opt ok left k w condition \<Longrightarrow> good ok left k w (for_condition condition)"
proof (cases condition)
  case None
  then show ?thesis using good_Done [of "\<lambda>m. m"] by (simp add: for_condition_def [abs_def])
next
  case (Some f)
  moreover assume "good_opt ok left k w condition"
  ultimately have f: "good ok left k w f" by (simp add: good_opt_def)
  have "good ok left k 0 (\<lambda>m1. if flow_of m1 \<noteq> FLOW_NORMAL \<or> aborted m1 then Done (False, m1)
      else Done (eval_value_truthy c, m1))" for c
    by (intro good_if good_Done) simp_all
  from good_bind [OF f _ this] Some show ?thesis by (simp add: for_condition_def [abs_def])
qed

lemma for_post_ends:
  assumes q: "good_opt ok left k wq post" and m: "m_env m \<noteq> []" "ok (m_user m)" "ticks_left left m < k"
    and p: "peak m + wq \<le> p" "p < 2 ^ 32 - 1"
    and rest: "\<And>m1 m2. runs_on ok left (peak m + wq) m m1 \<Longrightarrow> view m2 = view m1 \<Longrightarrow> ends_at ok left p m2 (f v m2)"
  shows "ends_at ok left p m (for_post post f v m)"
proof (cases post)
  case None
  then show ?thesis using rest [of m m] m by (simp add: for_post_def runs_on_refl)
next
  case (Some g)
  with q m p have "ends_at ok left (peak m + wq) m (g m)" by (intro good_at) (auto simp: good_opt_def)
  then show ?thesis unfolding for_post_def Some option.case
  proof (rule ends_at_bind)
    fix x m1 assume m1: "runs_on ok left (peak m + wq) m m1"
    note e = runs_on_env [OF m1 m(1)]
    have "ends_at ok left p m1 (f v (clear_continue m1))"
      using ends_at_back [OF runs_on_view [of "clear_continue m1" m1 ok "peak m1" left] rest [OF m1]] e by simp
    then show "ends_at ok left p m1
        (if flow_of m1 \<noteq> FLOW_NORMAL \<and> flow_of m1 \<noteq> FLOW_CONTINUE then Done (v, m1) else f v (clear_continue m1))"
      using e m1 p by (simp add: runs_on_def ends_at_here)
  qed
qed

lemma for_ends:
  assumes g: "safe_points_end ops ok left" and c: "good_opt ok left k wc condition"
    and q: "good_opt ok left k wq post" and b: "good ok left k wb body"
  shows "m_env m \<noteq> [] \<Longrightarrow> ok (m_user m) \<Longrightarrow> ticks_left left m < j \<Longrightarrow> j \<le> k \<Longrightarrow>
     max (peak m) (loop_bound m + (wb + wq)) + (wc + 1) < 2 ^ 32 - 1 \<Longrightarrow>
     ends_at ok left (max (peak m) (loop_bound m + (wb + wq)) + (wc + 1)) m (for_loop ops j condition post body last_val m)"
proof (induction j arbitrary: m last_val)
  case (Suc j)
  let ?p = "max (peak m) (loop_bound m + (wb + wq)) + (wc + 1)"
  let ?next = "for_loop ops j condition post body"
  have cond: "ends_at ok left (peak m + wc) m (for_condition condition m)"
    by (rule good_at [OF good_condition [OF c]]) (use Suc.prems in auto)
  have round: "ends_at ok left ?p m1
      (ticked ops last_val (\<lambda>m2. and_then (body m2) (\<lambda>(v, m3). after_body (for_post post ?next) v m3)) m1)"
    if m1: "runs_on ok left (peak m + wc) m m1" for m1
  proof (rule round_ends [OF g b, where h = "\<lambda>m. m"])
    fix v m3
    assume m3: "runs_on ok left (loop_bound m1 + wb) m1 m3" "ticks_left left m3 < ticks_left left m1"
    note e = runs_on_env [OF m1 Suc.prems(1)] runs_on_env [OF m3(1)]
    show "ends_at ok left ?p m3 (for_post post ?next v m3)"
    proof (rule for_post_ends [OF q])
      fix m4 m5 assume m4: "runs_on ok left (peak m3 + wq) m3 m4" "view m5 = view m4"
      note e4 = runs_on_env [OF m4(1)] and v = view_measures [OF m4(2)]
      show "ends_at ok left ?p m5 (?next v m5)"
        by (rule ends_at_mono [OF Suc.IH]) (use e e4 v m1 m3 m4 Suc.prems in \<open>auto simp: runs_on_def\<close>)
    qed (use e m1 m3 Suc.prems in \<open>auto simp: runs_on_def\<close>)
  qed (use runs_on_env [OF m1] m1 Suc.prems in \<open>auto simp: runs_on_def\<close>)
  have "ends_at ok left ?p m1
      (if \<not> go then Done (last_val, m1)
       else ticked ops last_val (\<lambda>m2. and_then (body m2) (\<lambda>(v, m3). after_body (for_post post ?next) v m3)) m1)"
    if "runs_on ok left (peak m + wc) m m1" for go m1
    using round [OF that] runs_on_env [OF that Suc.prems(1)] that by (auto simp: runs_on_def intro!: ends_at_here)
  from ends_at_bind [OF cond this] show ?case by simp
qed simp

lemma do_while_ends:
  assumes g: "safe_points_end ops ok left" and b: "good ok left k wb body" and c: "good ok left k wc condition"
  shows "m_env m \<noteq> [] \<Longrightarrow> ok (m_user m) \<Longrightarrow> ticks_left left m < j \<Longrightarrow> j \<le> k \<Longrightarrow> peak m + (wb + wc + 1) < 2 ^ 32 - 1 \<Longrightarrow>
     ends_at ok left (peak m + (wb + wc + 1)) m (do_while_loop ops j body condition m)"
proof (induction j arbitrary: m)
  case (Suc j)
  let ?p = "peak m + (wb + wc + 1)"
  have body: "ends_at ok left (peak m + wb) m (body m)" by (rule good_at [OF b]) (use Suc.prems in auto)
  show ?case
    unfolding do_while_loop.simps
  proof (rule ends_at_bind [OF body])
    fix v m1 assume m1: "runs_on ok left (peak m + wb) m m1"
    note e = runs_on_env [OF m1 Suc.prems(1)]
    have cond: "ends_at ok left (peak m1 + wc) m1 (condition (clear_continue m1))"
      by (rule good_at_view [OF c]) (use e m1 Suc.prems in \<open>auto simp: runs_on_def\<close>)
    have "ends_at ok left ?p m1 (and_then (condition (clear_continue m1))
        (\<lambda>(c, m2).
           if flow_of m2 \<noteq> FLOW_NORMAL \<or> aborted m2 then Done (v, m2)
           else if \<not> eval_value_truthy c then Done (v, m2)
           else ticked ops v (do_while_loop ops j body condition) m2))"
    proof (rule ends_at_bind [OF cond])
      fix c m2 assume m2: "runs_on ok left (peak m1 + wc) m1 m2"
      note e2 = runs_on_env [OF m2]
      have "ends_at ok left ?p m2 (ticked ops v (do_while_loop ops j body condition) m2)"
      proof (rule ticked_ends [OF g, where k = k])
        fix m3 assume m3: "runs_on ok left (loop_bound m2) m2 m3" "ticks_left left m3 < ticks_left left m2"
        show "ends_at ok left ?p m3 (do_while_loop ops j body condition m3)"
          by (rule ends_at_mono [OF Suc.IH])
             (use runs_on_env [OF m3(1)] e e2 m1 m2 m3 Suc.prems bound_peak [of m] in \<open>auto simp: runs_on_def\<close>)
      qed (use e e2 m1 m2 Suc.prems in \<open>auto simp: runs_on_def\<close>)
      then show "ends_at ok left ?p m2
          (if flow_of m2 \<noteq> FLOW_NORMAL \<or> aborted m2 then Done (v, m2)
           else if \<not> eval_value_truthy c then Done (v, m2)
           else ticked ops v (do_while_loop ops j body condition) m2)"
        using e e2 m1 m2 by (auto simp: runs_on_def intro!: ends_at_here)
    qed
    then show "ends_at ok left ?p m1 (after_body
        (\<lambda>v m. and_then (condition (clear_continue m))
          (\<lambda>(c, m2).
             if flow_of m2 \<noteq> FLOW_NORMAL \<or> aborted m2 then Done (v, m2)
             else if \<not> eval_value_truthy c then Done (v, m2)
             else ticked ops v (do_while_loop ops j body condition) m2)) v m1)"
      by (intro after_body_ends) (use e m1 in \<open>auto simp: runs_on_def\<close>)
  qed
qed simp

lemma for_in_ends:
  assumes g: "safe_points_end ops ok left" and b: "good ok left k wb body"
  shows "m_env m \<noteq> [] \<Longrightarrow> ok (m_user m) \<Longrightarrow> ticks_left left m < k \<Longrightarrow>
     max (peak m) (loop_bound m + wb) + 1 < 2 ^ 32 - 1 \<Longrightarrow>
     ends_at ok left (max (peak m) (loop_bound m + wb) + 1) m (for_in_loop ops var body xs last_val m)"
proof (induction xs arbitrary: m last_val)
  case Nil
  then show ?case by (simp add: ends_at_here)
next
  case (Cons x xs)
  let ?p = "max (peak m) (loop_bound m + wb) + 1"
  show ?case
    unfolding for_in_loop.simps
  proof (rule round_ends [OF g b, where h = "assign ops var x"])
    fix v m2 assume m2: "runs_on ok left (loop_bound m + wb) m m2" "ticks_left left m2 < ticks_left left m"
    note e = runs_on_env [OF m2(1) Cons.prems(1)]
    note v = view_measures [OF view_clear_continue [of m2]]
    have "ends_at ok left ?p (clear_continue m2) (for_in_loop ops var body xs v (clear_continue m2))"
      by (rule ends_at_mono [OF Cons.IH]) (use e v m2 Cons.prems in \<open>auto simp: runs_on_def\<close>)
    then show "ends_at ok left ?p m2 (for_in_loop ops var body xs v (clear_continue m2))"
      using ends_at_back [OF runs_on_view [of "clear_continue m2" m2 ok "peak m2" left]] e by simp
  qed (use Cons.prems in auto)
qed

lemma good_for:
  assumes "safe_points_end ops ok left" "good_opt ok left k wc condition" "good_opt ok left k wq post" "good ok left k wb body"
  shows "good ok left k ((wb + wq) + (wc + 1)) (for_loop ops k condition post body v)"
  by (rule good_loop) (use for_ends [OF assms] in simp)

lemma good_do_while:
  assumes "safe_points_end ops ok left" "good ok left k wb body" "good ok left k wc condition"
  shows "good ok left k (wb + wc + 1) (do_while_loop ops k body condition)"
  using do_while_ends [OF assms] by (simp add: good_def ready_def ends_at_ends)

lemma good_for_in:
  assumes "safe_points_end ops ok left" "good ok left k wb body"
  shows "good ok left k (wb + 1) (for_in_loop ops var body xs v)"
  by (rule good_loop) (use for_in_ends [OF assms] in simp)

section \<open>The other kinds of nodes\<close>

lemma good_keep: "(\<And>m r. f m = r \<Longrightarrow> r \<noteq> Timeout \<and> (\<forall>v m'. r = Done (v, m') \<longrightarrow> view m' = view m)) \<Longrightarrow> good ok left k w f"
  by (auto simp: good_def ends_def ready_def intro: step_ok_view)

lemma good_finish: "good ok left k w (finish_op ops node r)"
  by (rule good_keep) (auto simp: finish_op_returns view_finish_op)

lemma good_assignment: "good ok left k w f \<Longrightarrow> good ok left k w (eval_assignment ops name f)"
  unfolding eval_assignment_def [abs_def] Let_def
  by (rule good_bind [where wb = 0]) (auto intro: good_Done)

lemma good_constant: "good ok left k w f \<Longrightarrow> good ok left k w (eval_constant_decl ops name f)"
  unfolding eval_constant_decl_def [abs_def]
  by (rule good_bind [where wb = 0])
     (auto intro!: good_keep view_env dest: set_constant_view simp: view_def
       split: option.splits prod.splits if_splits)

lemma good_if_node:
  "good ok left k w1 c \<Longrightarrow> good ok left k w2 f \<Longrightarrow> good ok left k w3 g \<Longrightarrow> good ok left k (w1 + w2 + w3) (eval_if c f g)"
  unfolding eval_if_def [abs_def]
  by (rule good_bind [where wb = "w2 + w3"])
     (auto intro!: good_if good_Done intro: good_mono [where w = w2] good_mono [where w = w3]
       good_mono [OF good_if [of _ _ _ "max w2 w3"]])

lemma good_throw: "good ok left k w f \<Longrightarrow> good ok left k w (eval_throw f)"
  unfolding eval_throw_def [abs_def]
  by (rule good_bind [where wb = 0]) (auto intro!: good_Done view_env_update simp: loop_view_def)

lemma good_binary:
  assumes "good_opt ok left k w1 f" "good ok left k w2 g"
  shows "good ok left k (w1 + w2) (eval_binary_op ops node t f g)"
  unfolding eval_binary_op_def [abs_def]
proof (rule good_bind [where wa = w1 and wb = w2])
  show "good ok left k w1 (\<lambda>m. case f of None \<Rightarrow> Done (ENumber 0, m) | Some h \<Rightarrow> h m)"
    using assms(1) by (cases f) (auto simp: good_opt_def intro: good_Done)
  show "good ok left k w2
      (\<lambda>m1. if f \<noteq> None \<and> flow_of m1 \<noteq> FLOW_NORMAL then Done (ENumber 0, m1)
            else and_then (g m1) (\<lambda>(r, m2). if flow_of m2 \<noteq> FLOW_NORMAL then Done (ENumber 0, m2)
              else finish_op ops node (eval_binary (op_fpu ops) (op_payload ops) t l r) m2))" for l
    by (intro good_if good_Done good_bind [OF assms(2), where wb = 0] good_finish) simp_all
qed simp

lemma good_flow:
  assumes "good_opt ok left k w f"
  shows "good ok left k w (eval_flow t f)"
proof -
  have "good ok left k w (\<lambda>m. and_then (case f of None \<Rightarrow> Done (ENumber 0, m) | Some h \<Rightarrow> h m)
      (\<lambda>(v, m1).
         let m2 = env_update (\<lambda>sc. sc\<lparr>sc_return_value := v\<rparr>) m1 in
         if f \<noteq> None \<and> (flow_of m2 \<noteq> FLOW_NORMAL \<or> aborted m2) then Done (v, m2)
         else Done (v, set_flow FLOW_RETURN m2)))"
  proof (rule good_bind [where wb = 0])
    show "good ok left k w (\<lambda>m. case f of None \<Rightarrow> Done (ENumber 0, m) | Some h \<Rightarrow> h m)"
      using assms by (cases f) (auto simp: good_opt_def intro: good_Done)
  qed (auto simp: Let_def loop_view_def intro!: good_keep view_env_update split: if_splits)
  then show ?thesis
    unfolding eval_flow_def [abs_def] by (intro good_if good_Done) simp_all
qed

lemma good_index:
  assumes "good ok left k w1 f" "good ok left k w2 g"
  shows "good ok left k (w1 + w2) (eval_index_access ops node f g)"
  unfolding eval_index_access_def [abs_def]
  by (rule good_bind [OF assms(1) order_refl], rule good_bind [OF assms(2), where wb = 0])
     (simp_all add: good_finish)

lemma good_slice:
  assumes "good ok left k w1 f" "good ok left k w2 g" "good ok left k w3 h"
  shows "good ok left k (w1 + (w2 + w3)) (eval_slice_access ops node f g h)"
  unfolding eval_slice_access_def [abs_def]
  by (rule good_bind [OF assms(1) order_refl], rule good_bind [OF assms(2) order_refl],
      rule good_bind [OF assms(3), where wb = 0])
     (simp_all add: good_finish)

lemma good_no_member: "good ok left k w (no_member node member v)"
  by (rule good_keep) (auto simp: no_member_def)

lemma good_length: "good ok left k w (length_member ops node member v n)"
  by (cases member) (auto simp: length_member_def [abs_def] intro!: good_Trap good_if good_Done good_no_member)

lemma good_member:
  assumes "good ok left k w f" "\<And>v. good ok left k g (op_member ops node v)"
  shows "good ok left k (w + g) (eval_member_access ops node f member)"
proof -
  have "good ok left k g (member_of ops node member v)" for v
    using assms(2) by (cases v) (auto simp: member_of_def [abs_def] intro!: good_Done good_no_member good_length)
  from good_bind [OF assms(1) _ this] show ?thesis by (simp add: eval_member_access_def [abs_def])
qed

lemma good_nil: "good ok left k w (block_loop [] v)" "good ok left k w (map_literal_loop ops node [] v)"
  by (auto intro: good_keep)

lemma good_block:
  "(\<And>x. x \<in> set xs \<Longrightarrow> good ok left k (W x) (ev x)) \<Longrightarrow> good ok left k (\<Sum>x\<leftarrow>xs. W x) (block_loop (map ev xs) v)"
proof (induction xs arbitrary: v)
  case (Cons x xs)
  have "good ok left k (\<Sum>x\<leftarrow>xs. W x)
      (\<lambda>m1. if flow_of m1 \<noteq> FLOW_NORMAL \<or> aborted m1 then Done (v, m1) else block_loop (map ev xs) v m1)" for v
    using Cons by (intro good_if good_Done) auto
  from good_bind [OF Cons.prems [of x] _ this] show ?case by simp
qed (simp add: good_nil)

lemma switch_default: "switch_loop ops v [] d = d" "switch_loop ops v [f] d = d"
  by (simp_all add: fun_eq_iff)

lemma good_switch_loop:
  assumes "good ok left k wd d"
  shows "(\<And>x. x \<in> set xs \<Longrightarrow> good ok left k (W x) (ev x)) \<Longrightarrow>
    good ok left k ((\<Sum>x\<leftarrow>xs. W x) + wd) (switch_loop ops v (map ev xs) d)"
proof (induction xs rule: induct_list012)
  case (3 x y xs)
  let ?w = "(\<Sum>x\<leftarrow>xs. W x) + wd"
  have rest: "good ok left k (W y + ?w) (switch_loop ops v (map ev xs) d)"
    by (rule good_mono [OF 3(1)]) (use 3(3) in auto)
  have body: "good ok left k (W y + ?w) (ev y)" by (rule good_mono [OF 3(3) [of y]]) auto
  have "good ok left k (W y + ?w)
      (\<lambda>m1. if flow_of m1 \<noteq> FLOW_NORMAL then Done (ENumber 0, m1)
        else if switchable v \<and> switchable c \<and> values_match (op_fpu ops) (op_payload ops) v c then ev y m1
        else switch_loop ops v (map ev xs) d m1)" for c
    by (intro good_if good_Done body rest) simp
  from good_bind [OF 3(3) [of x] _ this] show ?case by (simp add: add.assoc)
qed (use assms in \<open>auto simp: switch_default intro: good_mono\<close>)

lemma good_switch:
  assumes "good ok left k w f" "good ok left k wd d" "\<And>x. x \<in> set xs \<Longrightarrow> good ok left k (W x) (ev x)"
  shows "good ok left k (w + ((\<Sum>x\<leftarrow>xs. W x) + wd)) (eval_switch ops f (map ev xs) d)"
  unfolding eval_switch_def [abs_def]
  by (rule good_bind [OF assms(1) order_refl])
     (intro good_if good_Done good_switch_loop assms, simp_all)

lemma good_stored:
  assumes "\<And>d. good ok left k w (f d)"
  shows "good ok left k w (\<lambda>m. case F m of
        (Some d, h) \<Rightarrow> f d (m\<lparr>m_heap := h\<rparr>)
      | (None, h) \<Rightarrow> Done (throw_error node msg (m\<lparr>m_heap := h\<rparr>)))"
  unfolding good_def
proof (intro allI impI)
  fix m assume r: "ready ok left k w m"
  obtain d h where F: "F m = (d, h)" by force
  show "ends ok left w m (case F m of
        (Some d, h) \<Rightarrow> f d (m\<lparr>m_heap := h\<rparr>)
      | (None, h) \<Rightarrow> Done (throw_error node msg (m\<lparr>m_heap := h\<rparr>)))"
  proof (cases d)
    case (Some x)
    have "good ok left k w (\<lambda>m. f x (m\<lparr>m_heap := h\<rparr>))"
      using good_pre [OF assms, of "\<lambda>m. m\<lparr>m_heap := h\<rparr>"] by simp
    then show ?thesis using r F Some by (simp add: good_def)
  next
    case None
    obtain x m' where t: "throw_error node msg (m\<lparr>m_heap := h\<rparr>) = (x, m')" by force
    then have "view m' = view m" using view_throw [OF t] by simp
    then show ?thesis using r F None t by (simp add: ends_Done)
  qed
qed

lemma good_map_loop:
  "(\<And>x. x \<in> set xs \<Longrightarrow> good ok left k (W x) (ev x)) \<Longrightarrow>
   good ok left k (\<Sum>x\<leftarrow>xs. W x) (map_literal_loop ops node (zip keys (map ev xs)) dst)"
proof (induction xs arbitrary: keys dst)
  case (Cons x xs)
  show ?case
  proof (cases keys)
    case Nil
    then show ?thesis by (simp add: good_Done)
  next
    case (Cons key keys')
    have IH: "good ok left k (\<Sum>x\<leftarrow>xs. W x) (map_literal_loop ops node (zip keys' (map ev xs)) d)" for d
      using Cons.IH Cons.prems by auto
    have f: "good ok left k (W x) (ev x)" using Cons.prems by simp
    show ?thesis
      unfolding Cons map_literal_loop.simps list.map sum_list.Cons zip_Cons_Cons
      by (rule good_bind [OF f order_refl], intro good_if good_Done good_stored IH, simp)
  qed
qed (simp add: good_nil)

lemma good_map_literal:
  assumes "\<And>x. x \<in> set xs \<Longrightarrow> good ok left k (W x) (ev x)"
  shows "good ok left k (\<Sum>x\<leftarrow>xs. W x) (eval_map_literal ops node (zip keys (map ev xs)))"
  unfolding good_def
proof (intro allI impI)
  fix m assume r: "ready ok left k (\<Sum>x\<leftarrow>xs. W x) m"
  obtain d h where d: "exprtk_val_map VAL_MAP (m_heap m) = (d, h)" by force
  have "good ok left k (\<Sum>x\<leftarrow>xs. W x) (\<lambda>m. map_literal_loop ops node (zip keys (map ev xs)) d (m\<lparr>m_heap := h\<rparr>))"
    by (rule good_pre [where h = "\<lambda>m. m\<lparr>m_heap := h\<rparr>"]) (simp_all add: good_map_loop assms)
  then show "ends ok left (\<Sum>x\<leftarrow>xs. W x) m (eval_map_literal ops node (zip keys (map ev xs)) m)"
    using r d by (simp add: good_def eval_map_literal_def)
qed

text \<open>Arguments: a copy of an argument keeps the view.\<close>

lemma copy_args_view: "copy_args ops xs vals m = (r, m') \<Longrightarrow> view m' = view m"
  by (induction ops xs vals m rule: copy_args.induct) (auto split: prod.splits option.splits)

lemma expand_arg_view: "expand_arg ops spread v cap vals m = (r, m') \<Longrightarrow> view m' = view m"
  by (auto simp: expand_arg_def copy_args_view split: sum.splits prod.splits option.splits dest!: copy_args_view)

lemma reserve_arg_view: "reserve_arg spread cap n m = (r, m') \<Longrightarrow> view m' = view m"
  by (auto simp: reserve_arg_def split: if_splits prod.splits)

lemma good_expand_loop:
  "(\<And>x a. x \<in> set xs \<Longrightarrow> arg x = Some a \<Longrightarrow> good ok left k (W x) (snd a)) \<Longrightarrow>
   good ok left k (\<Sum>x\<leftarrow>xs. W x) (expand_args_loop ops (map arg xs) cap vals)"
proof (induction xs arbitrary: cap vals)
  case Nil
  then show ?case by (simp add: good_Done)
next
  case (Cons x xs)
  show ?case
  proof (cases "arg x")
    case None
    then show ?thesis by (simp add: good_Trap)
  next
    case (Some a)
    obtain spread f where a: "a = (spread, f)" by force
    have f: "good ok left k (W x) f" using Cons.prems [of x a] Some a by simp
    have IH: "good ok left k (\<Sum>x\<leftarrow>xs. W x) (expand_args_loop ops (map arg xs) c vs)" for c vs
      using Cons by auto
    have rest: "good ok left k (\<Sum>x\<leftarrow>xs. W x) (\<lambda>m1. case expand_arg ops spread v room vals m1 of
          (None, m2) \<Rightarrow> Done (None, m2)
        | (Some (cap', vals'), m2) \<Rightarrow>
            if flow_of m2 \<noteq> FLOW_NORMAL \<or> aborted m2 then Done (Some vals', m2)
            else expand_args_loop ops (map arg xs) cap' vals' m2)" for v room
      unfolding good_def
    proof (intro allI impI)
      fix m1 assume r: "ready ok left k (\<Sum>x\<leftarrow>xs. W x) m1"
      obtain y m2 where y: "expand_arg ops spread v room vals m1 = (y, m2)" by force
      note v = expand_arg_view [OF this]
      have "good ok left k (\<Sum>x\<leftarrow>xs. W x) (\<lambda>m. if flow_of m \<noteq> FLOW_NORMAL \<or> aborted m then Done (Some vs, m)
          else expand_args_loop ops (map arg xs) c vs m)" for c vs
        by (intro good_if good_Done IH) simp
      from good_at_view [OF this v, of _ _] r have
        "ends ok left (\<Sum>x\<leftarrow>xs. W x) m1 (if flow_of m2 \<noteq> FLOW_NORMAL \<or> aborted m2 then Done (Some vs, m2)
          else expand_args_loop ops (map arg xs) c vs m2)" for c vs
        by (simp add: ready_def ends_at_ends)
      then show "ends ok left (\<Sum>x\<leftarrow>xs. W x) m1 (case expand_arg ops spread v room vals m1 of
          (None, m2) \<Rightarrow> Done (None, m2)
        | (Some (cap', vals'), m2) \<Rightarrow>
            if flow_of m2 \<noteq> FLOW_NORMAL \<or> aborted m2 then Done (Some vals', m2)
            else expand_args_loop ops (map arg xs) cap' vals' m2)"
        using y v r by (auto simp: ends_Done split: option.split)
    qed
    have body: "good ok left k (W x + (\<Sum>x\<leftarrow>xs. W x)) (\<lambda>m. and_then (f m) (\<lambda>(v, m1).
        case expand_arg ops spread v room vals m1 of
          (None, m2) \<Rightarrow> Done (None, m2)
        | (Some (cap', vals'), m2) \<Rightarrow>
            if flow_of m2 \<noteq> FLOW_NORMAL \<or> aborted m2 then Done (Some vals', m2)
            else expand_args_loop ops (map arg xs) cap' vals' m2))" for room
      by (rule good_bind [OF f order_refl rest])
    show ?thesis unfolding list.map Some a sum_list.Cons good_def
    proof (intro allI impI)
      fix m assume r: "ready ok left k (W x + (\<Sum>x\<leftarrow>xs. W x)) m"
      obtain y m1 where y: "reserve_arg spread cap (length vals) m = (y, m1)" by force
      note v = reserve_arg_view [OF y]
      from good_at_view [OF body v] r ends_Done [OF v r]
      show "ends ok left (W x + (\<Sum>x\<leftarrow>xs. W x)) m (expand_args_loop ops (Some (spread, f) # map arg xs) cap vals m)"
        by (auto simp: y ready_def ends_at_ends split: option.split)
    qed
  qed
qed

lemma good_vector:
  assumes "\<And>x a. x \<in> set xs \<Longrightarrow> arg x = Some a \<Longrightarrow> good ok left k (W x) (snd a)"
  shows "good ok left k (\<Sum>x\<leftarrow>xs. W x) (eval_vector ops node (map arg xs))"
proof -
  have "good ok left k (\<Sum>x\<leftarrow>xs. W x) (eval_expand_args ops (map arg xs))"
    unfolding good_def
  proof (intro allI impI)
    fix m assume r: "ready ok left k (\<Sum>x\<leftarrow>xs. W x) m"
    obtain b m1 where a: "machine_alloc m = (b, m1)" by force
    note v = view_machine_alloc [OF a]
    from good_at_view [OF good_expand_loop [OF assms] v, of xs] r
    show "ends ok left (\<Sum>x\<leftarrow>xs. W x) m (eval_expand_args ops (map arg xs) m)"
      using a v ends_Done [OF v r] by (auto simp: eval_expand_args_def ready_def ends_at_ends)
  qed
  then show ?thesis
    unfolding eval_vector_def [abs_def]
    by (rule good_bind [where wb = 0])
       (auto intro!: good_keep simp: Let_def split: option.splits prod.splits if_splits)
qed

section \<open>Handlers\<close>

text \<open>The environment of a handler has the hooks, the bound and the counter of the one around it.\<close>

lemma hd_measures:
  assumes "loop_view (hd (m_env m')) = loop_view (hd (m_env m))" "m_user m' = m_user m"
  shows "ticks_left left m' = ticks_left left m" "peak m' = peak m"
  using assms
  by (simp_all add: ticks_left_def peak_def guarded_def scope_hook_def loop_view_def)

lemma catch_env_view:
  assumes "m_env m = sc # scs"
  shows "\<exists>child. m_env (catch_env ops var m) = child # sc # scs \<and> loop_view child = loop_view sc \<and>
     m_user (catch_env ops var m) = m_user m"
proof -
  obtain sc0 h0 where "exprtk_env_init_storage (m_heap m) = (sc0, h0)" by force
  then obtain child rest h where c: "exprtk_env_init_child (m_heap m) (m_env m) = (child # rest, h)"
      "sc_hooks child = sc_hooks sc" "sc_max_loop_iterations child = sc_max_loop_iterations sc"
    using assms by (auto simp: exprtk_env_init_child_def)
  obtain child' h' where s: "exprtk_env_set_local (op_order ops) (op_owned ops (sc_error_value sc)) h
      (child\<lparr>sc_curr_recursion := sc_curr_recursion sc, sc_curr_loop_iterations := sc_curr_loop_iterations sc,
             sc_curr_nodes := sc_curr_nodes sc\<rparr>) var (sc_error_value sc) = (child', h')" by force
  from set_local_view [OF s] c(2,3) have "loop_view child' = loop_view sc" by (simp add: loop_view_def)
  with s c(1) assms show ?thesis by (simp add: catch_env_def)
qed

lemma leave_catch_view:
  assumes "m_env m = child # sc # scs" "leave_catch ops v m = (r, m')"
  shows "\<exists>sc' scs'. m_env m' = sc' # scs' \<and> map loop_view scs' = map loop_view scs \<and> m_user m' = m_user m \<and>
     loop_view sc' = (sc_hooks sc, sc_max_loop_iterations sc, sc_curr_loop_iterations child)"
proof -
  obtain x m1 where c: "clone_in ops v (m\<lparr>m_env := sc # scs\<rparr>) = (x, m1)" by force
  let ?m2 = "env_update (\<lambda>sc. sc\<lparr>sc_curr_nodes := sc_curr_nodes child,
      sc_curr_loop_iterations := sc_curr_loop_iterations child,
      sc_env := (sc_env sc)\<lparr>ee_aborted := ee_aborted (sc_env child)\<rparr>\<rparr>) m1"
  have "view m1 = (loop_view sc # map loop_view scs, m_user m)"
    using view_clone_in [OF c] by (simp add: view_def)
  then have m2: "view ?m2 = ((sc_hooks sc, sc_max_loop_iterations sc, sc_curr_loop_iterations child) # map loop_view scs, m_user m)"
    by (auto simp: view_def env_update_def loop_view_def split: list.split)
  have "view m' = view ?m2"
    using assms c by (auto simp: leave_catch_def Let_def split: if_splits prod.splits dest!: view_clone_in)
  with m2 show ?thesis by (auto simp: view_def map_eq_Cons_conv)
qed

lemma good_try:
  assumes f: "good ok left k wa f" and g: "good ok left k wb g"
  shows "good ok left k (wa + wb) (eval_try_catch ops f var g)"
  unfolding eval_try_catch_def [abs_def]
proof (rule good_bind [OF f order_refl], rule good_if, rule good_Done)
  fix v
  show "good ok left k wb (\<lambda>m1. and_then (g (catch_env ops var (set_flow FLOW_NORMAL m1))) (\<lambda>(r, m2). Done (leave_catch ops r m2)))"
    unfolding good_def
  proof (intro allI impI)
    fix m assume r: "ready ok left k wb m"
    let ?m0 = "set_flow FLOW_NORMAL m" let ?c = "catch_env ops var ?m0"
    have m0: "m_env ?m0 \<noteq> []" "m_user ?m0 = m_user m" "fixed ?m0 = fixed m" "ticks_left left ?m0 = ticks_left left m"
        "peak ?m0 = peak m"
      using view_measures [of ?m0 m] r by (simp_all add: ready_def)
    then obtain sc scs where sc: "m_env ?m0 = sc # scs" by (cases "m_env ?m0") auto
    from catch_env_view [OF sc, of ops var] obtain child
      where c: "m_env ?c = child # sc # scs" "loop_view child = loop_view sc" "m_user ?c = m_user m"
      using m0 by auto
    have cm: "ticks_left left ?c = ticks_left left m" "peak ?c = peak m"
      using hd_measures [of ?c ?m0] c sc m0 by simp_all
    have "ends_at ok left (peak ?c + wb) ?c (g ?c)" by (rule good_at [OF g]) (use r c cm in \<open>auto simp: ready_def\<close>)
    moreover have "step_ok ok left wb m m3"
      if d: "g ?c = Done (x, m2)" "runs_on ok left (peak ?c + wb) ?c m2" and l: "leave_catch ops x m2 = (y, m3)" for x y m2 m3
    proof -
      have "fixed m2 = (sc_hooks sc, sc_max_loop_iterations sc) # fixed ?m0"
        using d(2) c by (simp add: runs_on_def fixed_def sc loop_view_def)
      then obtain child2 sc2 scs2 where m2: "m_env m2 = child2 # sc2 # scs2"
          "sc_hooks child2 = sc_hooks sc2" "sc_max_loop_iterations child2 = sc_max_loop_iterations sc2"
          "map (\<lambda>sc. (sc_hooks sc, sc_max_loop_iterations sc)) (sc2 # scs2) = fixed ?m0"
        by (auto simp: fixed_def sc map_eq_Cons_conv)
      from leave_catch_view [OF m2(1) l] obtain sc3 scs3 where m3: "m_env m3 = sc3 # scs3" "m_user m3 = m_user m2"
          "map loop_view scs3 = map loop_view scs2"
          "loop_view sc3 = (sc_hooks sc2, sc_max_loop_iterations sc2, sc_curr_loop_iterations child2)" by auto
      have "fixed m3 = fixed ?m0"
        using m3 m2(4) view_fixed [OF m3(3)] by (simp add: fixed_def loop_view_def)
      moreover have "ticks_left left m3 = ticks_left left m2" "peak m3 = peak m2"
        using hd_measures [of m3 m2] m2 m3 by (simp_all add: loop_view_def)
      ultimately show ?thesis using d(2) m0 m3(2) cm by (simp add: step_ok_def runs_on_def)
    qed
    ultimately show "ends ok left wb m (and_then (g ?c) (\<lambda>(r, m2). Done (leave_catch ops r m2)))"
      by (cases "g ?c") (auto simp: ends_at_def ends_def)
  qed
qed simp

section \<open>Evaluation ends\<close>

text \<open>
  What is assumed of the parts that are not modelled: they end too, pass on the hooks, do not turn back the
  counters, and end at most \<open>g\<close> loops at their bound.
\<close>

definition others_end :: "'u eval_ops \<Rightarrow> ('u \<Rightarrow> bool) \<Rightarrow> ('u \<Rightarrow> nat) \<Rightarrow> nat \<Rightarrow> bool" where
  "others_end ops ok left g \<longleftrightarrow>
     (\<forall>k n. good ok left k g (op_foreign ops n)) \<and> (\<forall>k n v. good ok left k g (op_member ops n v)) \<and>
     (\<forall>k a n. good ok left k g (op_eval_node ops a n))"

lemma good_option: "good ok left k w (ev x) \<Longrightarrow> good_opt ok left k w (map_option (\<lambda>n. ev (Some n)) x)"
  by (auto simp: good_opt_def)

lemma good_for_node:
  assumes "safe_points_end ops ok left" "good ok left k wi init" "good_opt ok left k wc condition"
    "good_opt ok left k wq post" "good ok left k wb body"
  shows "good ok left k (wi + ((wb + wq) + (wc + 1))) (eval_for ops k init condition post body)"
  unfolding eval_for_def [abs_def]
  by (rule good_bind [OF assms(2) order_refl], intro good_if good_Done good_for assms, simp)

lemma good_for_in_node:
  assumes "safe_points_end ops ok left" "good ok left k wc collection" "good ok left k wb body"
  shows "good ok left k (wc + (wb + 1)) (eval_for_in ops var collection body)"
  unfolding eval_for_in_def [abs_def]
  by (rule good_bind [OF assms(2) order_refl], intro good_if good_Done good_for_in assms, simp)

lemma good_argument:
  assumes "\<And>a n. good ok left k g (op_eval_node ops a n)" "good ok left k w f" "g \<le> w"
  shows "good ok left k w (env_eval_node ops c f)"
  using assms good_mono [OF assms(1) assms(3)]
  by (auto simp: good_def env_eval_node_def split: list.split option.split)

lemma good_data:
  assumes g: "safe_points_end ops ok left" and others: "others_end ops ok left g" and G: "g < G"
    and ev: "\<And>x. child_size x < size n \<Longrightarrow> good ok left k (G * child_size x) (ev x)"
  shows "good ok left k (G * size n) (eval_data ops k ev n)"
proof -
  let ?W = "\<lambda>x. G * child_size x"
  let ?c = "set (node_children (node_data n))"
  have "(\<Sum>x\<leftarrow>node_children (node_data n). child_size x) + 1 \<le> size n"
    using node_children_size [of "node_data n"] by (cases n) simp
  from mult_le_mono2 [OF this, of G]
  have total: "(\<Sum>x\<leftarrow>node_children (node_data n). ?W x) + G \<le> G * size n"
    by (simp add: sum_list_const_mult add_mult_distrib2)
  have one: "good ok left k (?W x) (ev x)" if "x \<in> ?c" for x using ev child_smaller [OF that] by simp
  have opt: "good_opt ok left k (?W x) (map_option (\<lambda>n. ev (Some n)) x)" if "x \<in> ?c" for x
    by (rule good_option) (rule one [OF that])
  have arg: "good ok left k (?W (Some e)) (env_eval_node ops c (ev c))"
    if "Some e \<in> ?c" "spread_child e = (s, c)" for e s c
  proof (rule good_argument)
    have "child_size c \<le> size e" "size e < size n"
      using spread_smaller [OF that(2)] child_smaller [OF that(1)] by (auto simp: child_size_simps)
    then show "good ok left k (?W (Some e)) (ev c)"
      using good_mono [OF ev [of c]] by (simp add: child_size_simps)
    show "g \<le> ?W (Some e)" using G by (cases e) (simp add: child_size_simps)
    show "good ok left k g (op_eval_node ops a n)" for a n using others by (simp add: others_end_def)
  qed
  have "good ok left k g (op_foreign ops n)" using others by (simp add: others_end_def)
  then have foreign: "good ok left k (G * size n) (op_foreign ops n)" by (rule good_mono) (use total G in linarith)
  note m = good_mono [OF _ order_trans [OF _ total]]
  show ?thesis
  proof (cases "node_data n")
    case (NODE_WHILE c b)
    then show ?thesis
      using m [OF good_while [OF g one one, of c b]] G by (simp add: eval_data_def [abs_def] node_children_def)
  next
    case (NODE_DO_WHILE b c)
    then show ?thesis
      using m [OF good_do_while [OF g one one, of b c]] G by (simp add: eval_data_def [abs_def] node_children_def)
  next
    case (NODE_FOR i c q b)
    then show ?thesis
      using m [OF good_for_node [OF g one opt opt one, of i c q b]] G by (simp add: eval_data_def [abs_def] node_children_def)
  next
    case (NODE_FOR_IN var c b)
    then show ?thesis
      using m [OF good_for_in_node [OF g one one, of c b]] G by (simp add: eval_data_def [abs_def] node_children_def)
  next
    case (NODE_ASSIGNMENT name x)
    then show ?thesis
      using m [OF good_assignment [OF one, of x]] G by (simp add: eval_data_def [abs_def] node_children_def)
  next
    case (NODE_CONSTANT_DECL name x)
    then show ?thesis
      using m [OF good_constant [OF one, of x]] G by (simp add: eval_data_def [abs_def] node_children_def)
  next
    case (NODE_IF c x y)
    then show ?thesis
      using m [OF good_if_node [OF one one one, of c x y]] G by (simp add: eval_data_def [abs_def] node_children_def)
  next
    case (NODE_FLOW t x)
    then show ?thesis
      using m [OF good_flow [OF opt, of x]] G by (simp add: eval_data_def [abs_def] node_children_def)
  next
    case (NODE_BINARY_OP t x y)
    then show ?thesis
      using m [OF good_binary [OF opt one, of x y]] G by (simp add: eval_data_def [abs_def] node_children_def)
  next
    case (NODE_INDEX x y)
    then show ?thesis
      using m [OF good_index [OF one one, of x y]] G by (simp add: eval_data_def [abs_def] node_children_def)
  next
    case (NODE_SLICE x y z)
    then show ?thesis
      using m [OF good_slice [OF one one one, of x y z]] G by (simp add: eval_data_def [abs_def] node_children_def)
  next
    case (NODE_THROW x)
    then show ?thesis
      using m [OF good_throw [OF one, of x]] G by (simp add: eval_data_def [abs_def] node_children_def)
  next
    case (NODE_TRY_CATCH x var y)
    then show ?thesis
      using m [OF good_try [OF one one, of x y]] G by (simp add: eval_data_def [abs_def] node_children_def)
  next
    case (NODE_VECTOR es)
    let ?arg = "map_option (\<lambda>n. case spread_child n of (s, c) \<Rightarrow> (s, env_eval_node ops c (ev c)))"
    have "good ok left k (\<Sum>x\<leftarrow>es. ?W x) (eval_vector ops n (map ?arg es))"
    proof (rule good_vector)
      fix x a assume x: "x \<in> set es" "?arg x = Some a"
      then obtain e where e: "x = Some e" by (cases x) auto
      obtain s c where "spread_child e = (s, c)" by force
      with arg [of e s c] x e NODE_VECTOR show "good ok left k (?W x) (snd a)"
        by (auto simp: node_children_def)
    qed
    from m [OF this] NODE_VECTOR show ?thesis by (simp add: eval_data_def [abs_def] node_children_def)
  next
    case (NODE_SPREAD c)
    then show ?thesis using m [OF one, of c] by (simp add: eval_data_def [abs_def] node_children_def)
  next
    case (NODE_BLOCK xs)
    then show ?thesis
      using m [OF good_block [of xs ok left k ?W ev]] one by (simp add: eval_data_def [abs_def] node_children_def)
  next
    case (NODE_SWITCH x cs d)
    have "good ok left k (?W x + ((\<Sum>x\<leftarrow>cs. ?W x) + ?W d)) (eval_switch ops (ev x) (map ev cs) (ev d))"
      by (rule good_switch) (use one NODE_SWITCH in \<open>auto simp: node_children_def\<close>)
    from m [OF this] NODE_SWITCH show ?thesis by (simp add: eval_data_def [abs_def] node_children_def)
  next
    case (NODE_MAP_LITERAL keys xs)
    have "good ok left k (\<Sum>x\<leftarrow>xs. ?W x) (eval_map_literal ops n (zip keys (map ev xs)))"
      by (rule good_map_literal) (use one NODE_MAP_LITERAL in \<open>auto simp: node_children_def\<close>)
    from m [OF this] NODE_MAP_LITERAL show ?thesis by (simp add: eval_data_def [abs_def] node_children_def)
  next
    case (NODE_MEMBER_ACCESS x member)
    have "good ok left k (?W x + g) (eval_member_access ops n (ev x) member)"
      by (rule good_member) (use one others NODE_MEMBER_ACCESS in \<open>auto simp: node_children_def others_end_def\<close>)
    from m [OF this] NODE_MEMBER_ACCESS G show ?thesis by (simp add: eval_data_def [abs_def] node_children_def)
  qed (use foreign in \<open>simp_all add: eval_data_def [abs_def] good_Done\<close>)
qed

lemma eval_good:
  assumes "safe_points_end ops ok left" "others_end ops ok left g"
  shows "good ok left k (Suc g * child_size x) (exprtk_eval ops k x)"
proof (induction "child_size x" arbitrary: x rule: less_induct)
  case less
  show ?case
  proof (cases x)
    case None
    then show ?thesis using good_Done [of "\<lambda>m. m"] by (simp add: exprtk_eval.simps [abs_def])
  next
    case (Some n)
    have data: "good ok left k (Suc g * size n) (eval_data ops k (exprtk_eval ops k) n)"
      by (rule good_data [OF assms]) (use less Some in \<open>auto simp: child_size_simps\<close>)
    show ?thesis
      unfolding good_def
    proof (intro allI impI)
      fix m assume r: "ready ok left k (Suc g * child_size x) m"
      obtain b m1 where e: "eval_enter ops n m = (b, m1)" by force
      have s: "step_ok ok left 0 m m1" using enter_step [OF assms(1) _ _ e] r by (simp add: ready_def)
      have "ends ok left (Suc g * size n) m1 (eval_data ops k (exprtk_eval ops k) n m1)"
        using data step_ok_ready [OF s r] Some by (simp add: good_def child_size_simps)
      then show "ends ok left (Suc g * child_size x) m (exprtk_eval ops k x m)"
        using s e Some step_ok_trans [OF s]
        by (auto simp: exprtk_eval.simps [of ops k "Some n" m] ends_def child_size_simps step_ok_def)
    qed
  qed
qed

section \<open>Evaluation ends\<close>

lemma evaluation_bounded:
  assumes "safe_points_end ops ok left" "others_end ops ok left g" "m_env m \<noteq> []" "ok (m_user m)"
    and "ticks_left left m < k" "peak m + Suc g * child_size x < 2 ^ 32 - 1"
  shows "ends ok left (Suc g * child_size x) m (exprtk_eval ops k x m)"
  using eval_good [OF assms(1,2), of k x] assms(3-) by (simp add: good_def ready_def)

text \<open>The hook that an instance installs is such a guard: it spends the loop iterations of the call.\<close>

definition has_budget :: "runtime \<Rightarrow> bool" where
  "has_budget rt \<longleftrightarrow> active_host_budget rt \<noteq> None"

definition loops_of :: "runtime \<Rightarrow> nat" where
  "loops_of rt = (case active_host_budget rt of Some b \<Rightarrow> unat (loops_left b) | None \<Rightarrow> 0)"

lemma fail_loops [simp]: "loops_left (snd (ts_host_budget_fail b st ph msg)) = loops_left b"
  by (simp add: ts_host_budget_fail_def)

lemma poll_loops [simp]: "loops_left (snd (ts_host_budget_poll_interrupt b)) = loops_left b"
  by (simp add: ts_host_budget_poll_interrupt_def Let_def split: option.split)

lemma charge_loops: "unat (loops_left (snd (ts_host_budget_charge_u32 b m cost msg))) \<le> unat (loops_left b)"
proof (cases "fst (ts_host_budget_charge_u32 b m cost msg) = 0")
  case True
  then obtain b' where "ts_host_budget_charge_u32 b m cost msg = (0, b')" by (metis prod.collapse)
  moreover from charge_accept [OF this] obtain v
    where "b' = meter_set m v b" "unat v + unat cost = unat (meter_left m b)" by blast
  ultimately show ?thesis by (cases m) auto
next
  case False
  then show ?thesis by (auto simp: ts_host_budget_charge_u32_def)
qed

lemma switch_loops: "unat (loops_left (snd (ts_host_safe_point_switch b kind cost))) \<le> unat (loops_left b)"
proof (cases kind)
  case SP_STEP
  then show ?thesis using charge_loops [of b Steps cost] by (auto simp: Let_def split: prod.split) (metis snd_conv)+
next
  case SP_LOOP
  then show ?thesis using charge_loops [of b Loops cost] by (auto simp: Let_def split: prod.split) (metis snd_conv)+
next
  case SP_CALLBACK_BEFORE
  then show ?thesis using charge_loops [of b Callbacks cost] by (auto simp: Let_def split: prod.split) (metis snd_conv)+
qed auto

lemma safe_point_loops:
  "has_budget rt \<Longrightarrow> ts_host_safe_point rt kind cost = (r, rt') \<Longrightarrow> has_budget rt' \<and> loops_of rt' \<le> loops_of rt"
  using switch_loops [of _ kind cost]
  by (auto simp: has_budget_def loops_of_def ts_host_safe_point_def Let_def split: option.splits if_splits prod.splits)
     (metis snd_conv)+

lemma safe_point_spends_loop:
  assumes "has_budget rt" "ts_host_safe_point rt SP_LOOP 1 = (0, rt')"
  shows "loops_of rt' < loops_of rt"
proof -
  obtain b where b: "active_host_budget rt = Some b" using assms(1) by (auto simp: has_budget_def)
  with assms(2) obtain b' where sw: "ts_host_safe_point_switch b SP_LOOP 1 = (0, b')"
    and b': "active_host_budget rt' = Some b'"
    by (auto simp: ts_host_safe_point_def Let_def simp del: ts_host_safe_point_switch.simps split: if_splits prod.splits)
  from switch_spends(1) [OF sw, of Loops] show ?thesis
    by (simp add: loops_of_def b b' meter_cost_def word_less_def flip: word_less_nat_alt)
qed

interpretation host_guard: loop_guard "\<lambda>kind cost rt. ts_host_safe_point rt kind cost" has_budget loops_of
  by unfold_locales (auto dest: safe_point_loops safe_point_spends_loop)

definition hosted :: "runtime eval_ops \<Rightarrow> bool" where
  "hosted ops \<longleftrightarrow> op_safe_point ops = (\<lambda>f d kind cost rt. ts_host_safe_point rt kind cost)"

lemma hosted_guard: "hosted ops \<Longrightarrow> safe_points_end ops has_budget loops_of"
  by (simp add: hosted_def safe_points_end_def host_guard.loop_guard_axioms)

lemma init_loops:
  assumes "ts_host_call_budget_init limits (Some opts) = (STATUS_OK, Some b)"
    and "ts_host_call_budget_attach rt b = (STATUS_OK, rt')"
  shows "has_budget rt'" "loops_of rt' \<le> 10000"
proof -
  from assms(1) have "b = call_budget_of limits opts"
    by (auto simp: ts_host_call_budget_init_def split: option.splits if_splits)
  moreover have "active_host_budget rt' = Some b" using assms(2) by (rule attach_accept)
  moreover have "loops_left (call_budget_of limits opts) \<le> 10000"
    by (simp add: call_budget_of_def Let_def ts_host_min_u32_def HARD_LOOP_LIMIT_def less_imp_le)
  ultimately show "has_budget rt'" "loops_of rt' \<le> 10000"
    by (simp_all add: has_budget_def loops_of_def word_le_nat_alt)
qed

lemma guarded_measures:
  assumes "m_env m = sc # scs" "scope_hook sc \<noteq> None"
  shows "ticks_left left m = left (m_user m)" "peak m = 0"
  using assms by (simp_all add: ticks_left_def peak_def guarded_def)

lemma unguarded_measures:
  assumes "m_env m = sc # scs" "scope_hook sc = None" "sc_curr_loop_iterations sc \<le> sc_max_loop_iterations sc"
  shows "ticks_left left m = unat (sc_max_loop_iterations sc) - unat (sc_curr_loop_iterations sc)"
    "peak m = unat (sc_max_loop_iterations sc)"
  using assms by (simp_all add: ticks_left_def peak_def guarded_def word_le_nat_alt)

text \<open>
  the evaluation of a syntax tree ends, also when its loops do not end by themselves.  Take an environment
  without a safe point whose counter of iterations is within its bound, and assume that the nodes that are not
  modelled end, do not turn the counter back and end at most \<open>g\<close> loops at the bound.  Then no loop of the tree
  runs more often than the bound, so that a fuel of one more is never used up, for every tree small enough
  for the 32 bits of the counter.  Afterwards the chain of environments has the same hooks and
  bounds, and no more iterations are left than before.
\<close>

theorem evaluation_ends:
  assumes env: "m_env m = sc # scs" "scope_hook sc = None" "sc_curr_loop_iterations sc \<le> sc_max_loop_iterations sc"
    and others: "safe_points_end ops ok left" "others_end ops ok left g" "ok (m_user m)"
    and k: "unat (sc_max_loop_iterations sc) < k"
    and size: "unat (sc_max_loop_iterations sc) + Suc g * child_size x < 2 ^ 32 - 1"
  shows "exprtk_eval ops k x m \<noteq> Timeout \<and>
    (\<forall>v m'. exprtk_eval ops k x m = Done (v, m') \<longrightarrow> fixed m' = fixed m \<and> ticks_left left m' \<le> ticks_left left m)"
proof -
  note u = unguarded_measures [OF env]
  have "ends ok left (Suc g * child_size x) m (exprtk_eval ops k x m)"
    by (rule evaluation_bounded [OF others(1,2) _ others(3)]) (use env(1) k size u(2) u(1) [of left] in auto)
  then show ?thesis by (auto simp: ends_def step_ok_def)
qed

text \<open>The same under the budget of a call, with the assumption on the parts that are not modelled.\<close>

lemma hosted_evaluation_with_others:
  assumes call: "ts_host_call_budget_init limits (Some opts) = (STATUS_OK, Some b)"
      "ts_host_call_budget_attach rt b = (STATUS_OK, m_user m)"
    and env: "m_env m = sc # scs" "scope_hook sc \<noteq> None"
    and others: "hosted ops" "others_end ops has_budget loops_of g"
    and size: "Suc g * child_size x < 2 ^ 32 - 1"
  shows "exprtk_eval ops 10001 x m \<noteq> Timeout \<and>
    (\<forall>v m'. exprtk_eval ops 10001 x m = Done (v, m') \<longrightarrow> has_budget (m_user m') \<and> loops_of (m_user m') \<le> loops_of (m_user m))"
proof -
  note u = guarded_measures [OF env] and i = init_loops [OF call]
  have e: "ends has_budget loops_of (Suc g * child_size x) m (exprtk_eval ops 10001 x m)"
    by (rule evaluation_bounded [OF hosted_guard [OF others(1)] others(2) _ i(1)])
       (use env i u(2) u(1) [of loops_of] size in auto)
  have "loops_of (m_user m') \<le> loops_of (m_user m)" if "step_ok has_budget loops_of w m m'" for w m'
    using that env u(1) [of loops_of] fixed_measures(2) [of m' m]
    by (auto simp: step_ok_def ticks_left_def guarded_def)
  with e show ?thesis by (auto simp: ends_def step_ok_def)
qed

section \<open>Trees without calls\<close>

text \<open>
  Trees of literals, variables, operators, assignments, constants, \<^verbatim>\<open>if\<close>, the loops, blocks, \<^verbatim>\<open>return\<close>, \<^verbatim>\<open>break\<close>
  and \<^verbatim>\<open>continue\<close>, element accesses, slices, map literals, \<^verbatim>\<open>switch\<close>, \<^verbatim>\<open>throw\<close> and \<^verbatim>\<open>try\<close>: none of the nodes whose
  evaluation is a parameter, and no list literal, whose elements a hook of the environment may evaluate.
\<close>

fun own_node :: "node_data \<Rightarrow> bool" where
  "own_node (NODE_FUNCTION_CALL name args) = False"
| "own_node (NODE_VECTOR elements) = False"
| "own_node (NODE_FUNCTION_DEFINITION name params body) = False"
| "own_node (NODE_FUNCTION_EXPRESSION name params body) = False"
| "own_node (NODE_MEMBER_CALL object member args) = False"
| "own_node (NODE_MEMBER_ACCESS object member) = False"
| "own_node (NODE_MEMBER_SET object member x) = False"
| "own_node (NODE_TEMPLATE_STRING v) = False"
| "own_node (NODE_DESTRUCTURING_ASSIGNMENT is_constant targets x) = False"
| "own_node (NODE_CLASS_DEF name constructor methods static_methods) = False"
| "own_node (NODE_NEW name args) = False"
| "own_node NODE_THIS = False"
| "own_node (NODE_SUPER member args) = False"
| "own_node (NODE_INSTANCEOF object name class_expr) = False"
| "own_node d = True"

function (sequential)
  self_contained :: "exprtk_node option \<Rightarrow> bool" and all_contained :: "exprtk_node option list \<Rightarrow> bool"
  where
  "self_contained None = True"
| "self_contained (Some (Node line column d)) = (own_node d \<and> all_contained (node_children d))"
| "all_contained [] = True"
| "all_contained (x # xs) = (self_contained x \<and> all_contained xs)"
  by pat_completeness auto

termination
  by (relation "measures
       [\<lambda>x. case x of Inl x \<Rightarrow> child_size x | Inr xs \<Rightarrow> (\<Sum>x\<leftarrow>xs. child_size x),
        \<lambda>x. case x of Inl y \<Rightarrow> 0 | Inr xs \<Rightarrow> Suc (length xs)]")
    (auto simp: child_size_simps le_imp_less_Suc [OF node_children_size])

text \<open>Such a tree is evaluated in the same way when the parameters do nothing.\<close>

definition alone :: "'u eval_ops \<Rightarrow> 'u eval_ops" where
  "alone ops = ops\<lparr>op_eval_node := (\<lambda>a n m. Done (ENull, m)), op_member := (\<lambda>n v m. Done (ENull, m)),
                 op_foreign := (\<lambda>n m. Done (ENull, m))\<rparr>"

lemma alone_fields [simp]:
  "op_order (alone ops) = op_order ops" "op_owned (alone ops) = op_owned ops" "op_fpu (alone ops) = op_fpu ops"
  "op_payload (alone ops) = op_payload ops" "op_token (alone ops) = op_token ops"
  "op_safe_point (alone ops) = op_safe_point ops" "op_clone_ref (alone ops) = op_clone_ref ops"
  by (simp_all add: alone_def)

lemma alone_steps [simp]:
  "eval_safe_point (alone ops) = eval_safe_point ops" "clone_in (alone ops) = clone_in ops"
  "copy_in (alone ops) = copy_in ops" "assign (alone ops) = assign ops"
  unfolding fun_eq_iff eval_safe_point_def clone_in_def copy_in_def assign_def alone_fields by blast+

lemma alone_parts [simp]:
  "eval_loop_tick (alone ops) = eval_loop_tick ops" "eval_enter (alone ops) = eval_enter ops"
  "eval_promote_string (alone ops) = eval_promote_string ops"
  unfolding fun_eq_iff eval_loop_tick_def eval_enter_def eval_promote_string_def alone_steps by blast+

lemma alone_finish [simp]:
  "finish_op (alone ops) = finish_op ops" "ticked (alone ops) = ticked ops" "catch_env (alone ops) = catch_env ops"
  "leave_catch (alone ops) = leave_catch ops"
  unfolding fun_eq_iff finish_op_def ticked_def catch_env_def leave_catch_def alone_fields alone_steps alone_parts
  by blast+

lemma alone_while [simp]: "while_loop (alone ops) k c b = while_loop ops k c b"
proof (induction k)
  case (Suc k)
  show ?case unfolding fun_eq_iff while_loop.simps Suc alone_finish by blast
qed (simp add: fun_eq_iff)

lemma alone_for_loop [simp]: "for_loop (alone ops) k c p b = for_loop ops k c p b"
proof (induction k)
  case (Suc k)
  show ?case unfolding fun_eq_iff for_loop.simps Suc alone_finish by blast
qed (simp add: fun_eq_iff)

lemma alone_do_while [simp]: "do_while_loop (alone ops) k b c = do_while_loop ops k b c"
proof (induction k)
  case (Suc k)
  show ?case unfolding fun_eq_iff do_while_loop.simps Suc alone_finish by blast
qed (simp add: fun_eq_iff)

lemma alone_for_in [simp]: "for_in_loop (alone ops) var b xs = for_in_loop ops var b xs"
proof (induction xs)
  case (Cons x xs)
  show ?case unfolding fun_eq_iff for_in_loop.simps Cons alone_finish alone_steps by blast
qed (simp add: fun_eq_iff)

lemma alone_switch [simp]: "switch_loop (alone ops) x cs d = switch_loop ops x cs d"
proof (induction cs rule: induct_list012)
  case (3 label body cs)
  show ?case unfolding fun_eq_iff switch_loop.simps 3 alone_fields by blast
qed (simp_all add: fun_eq_iff)

lemma alone_map [simp]: "map_literal_loop (alone ops) node es = map_literal_loop ops node es"
proof (induction es)
  case (Cons e es)
  obtain key f where e: "e = (key, f)" by (cases e)
  show ?case unfolding fun_eq_iff e map_literal_loop.simps Cons alone_fields by blast
qed (simp add: fun_eq_iff)

lemma alone_nodes [simp]:
  "eval_assignment (alone ops) = eval_assignment ops" "eval_constant_decl (alone ops) = eval_constant_decl ops"
  "eval_for (alone ops) = eval_for ops" "eval_for_in (alone ops) = eval_for_in ops"
  "eval_binary_op (alone ops) = eval_binary_op ops" "eval_try_catch (alone ops) = eval_try_catch ops"
  "eval_switch (alone ops) = eval_switch ops" "eval_index_access (alone ops) = eval_index_access ops"
  "eval_slice_access (alone ops) = eval_slice_access ops" "eval_map_literal (alone ops) = eval_map_literal ops"
  unfolding fun_eq_iff eval_assignment_def eval_constant_decl_def eval_for_def eval_for_in_def
    eval_binary_op_def eval_try_catch_def eval_switch_def eval_index_access_def eval_slice_access_def
    eval_map_literal_def alone_fields alone_steps alone_finish alone_for_loop alone_for_in alone_switch alone_map
  by blast+

lemma alone_data:
  assumes "own_node (node_data n)" "\<And>x. x \<in> set (node_children (node_data n)) \<Longrightarrow> f x = g x"
  shows "eval_data (alone ops) k f n = eval_data ops k g n"
proof -
  let ?c = "set (node_children (node_data n))"
  have opt: "map_option (\<lambda>n. f (Some n)) x = map_option (\<lambda>n. g (Some n)) x" if "x \<in> ?c" for x
    using assms(2) that by (cases x) simp_all
  have many: "map f xs = map g xs" if "set xs \<subseteq> ?c" for xs using assms(2) that by auto
  show ?thesis
    using assms(1) by (cases "node_data n")
      (simp_all add: fun_eq_iff eval_data_def node_children_def assms(2) opt many subset_iff del: map_eq_conv)
qed

lemma all_contained: "all_contained xs \<longleftrightarrow> (\<forall>x \<in> set xs. self_contained x)"
  by (induction xs) auto

lemma contained_alone: "self_contained x \<Longrightarrow> exprtk_eval (alone ops) k x = exprtk_eval ops k x"
proof (induction "child_size x" arbitrary: x rule: less_induct)
  case less
  show ?case
  proof (cases x)
    case (Some n)
    obtain line column d where n: "n = Node line column d" by (cases n)
    have "exprtk_eval (alone ops) k y = exprtk_eval ops k y" if "y \<in> set (node_children (node_data n))" for y
      using less child_smaller [OF that] that by (auto simp: Some n child_size_simps all_contained)
    with less.prems have "eval_data (alone ops) k (exprtk_eval (alone ops) k) n = eval_data ops k (exprtk_eval ops k) n"
      by (intro alone_data) (simp_all add: Some n)
    then show ?thesis
      unfolding Some fun_eq_iff exprtk_eval.simps [of _ _ "Some n"] option.case alone_parts by (auto split: prod.split)
  qed (simp add: fun_eq_iff exprtk_eval.simps)
qed

lemma alone_others: "others_end (alone ops) ok left 0"
  using good_Done [of "\<lambda>m. m" ok left _ 0 "\<lambda>m. ENull"] by (simp add: others_end_def alone_def)

text \<open>
  C20: a script that calls nothing and runs under the budget of a call ends.  Take a budget made from any options of the
  instance and the call and attached to the runtime, an environment whose safe point is the one of
  the host, and a tree without calls, definitions, member accesses, template strings, destructuring and list
  literals, of less than \<open>2 ^ 32 - 1\<close> units of size.  Then the evaluation ends, whatever the loops and the values do:
  no \<^verbatim>\<open>while\<close>, \<^verbatim>\<open>for\<close> or \<^verbatim>\<open>do\<close> loop begins more than 10001 rounds (10000 that the budget
  admits and the one in which it is refused, where the body of \<^verbatim>\<open>do\<close> has run and the others' has not), and a loop over a
  collection takes at most one round for each element.  The budget is still attached, with no more iterations left
  than before.
\<close>

theorem hosted_evaluation_ends:
  assumes call: "ts_host_call_budget_init limits (Some opts) = (STATUS_OK, Some b)"
      "ts_host_call_budget_attach rt b = (STATUS_OK, m_user m)"
    and env: "m_env m = sc # scs" "scope_hook sc \<noteq> None"
    and ops: "hosted ops"
    and tree: "self_contained x" "child_size x < 2 ^ 32 - 1"
  shows "exprtk_eval ops 10001 x m \<noteq> Timeout \<and>
    (\<forall>v m'. exprtk_eval ops 10001 x m = Done (v, m') \<longrightarrow> has_budget (m_user m') \<and> loops_of (m_user m') \<le> loops_of (m_user m))"
proof -
  have "hosted (alone ops)" using ops by (simp add: hosted_def)
  from hosted_evaluation_with_others [OF call env this alone_others, of x] tree(2)
  show ?thesis unfolding contained_alone [OF tree(1), of ops] by simp
qed

text \<open>
  An evaluator with concrete parameters, and the tree of \<open>while (1) { }\<close>: it ends because the loop
  is refused.
\<close>

definition plain_ops :: "runtime eval_ops" where
  "plain_ops = \<lparr>op_order = (\<lambda>xs. xs), op_owned = (\<lambda>v. False), op_fpu = plain_fpu,
     op_payload = plain_payload,
     op_token = (\<lambda>t. if t = 1 then TOKEN_PLUS else if t = 2 then TOKEN_LT else if t = 3 then TOKEN_CONTINUE
                     else if t = 4 then TOKEN_BREAK else TOKEN_OTHER),
     op_safe_point = (\<lambda>f d kind cost rt. ts_host_safe_point rt kind cost),
     op_eval_node = (\<lambda>a n m. Done (ENull, m)), op_clone_ref = (\<lambda>t a p. EOpaque t a),
     op_member = (\<lambda>n v m. Done (ENull, m)), op_foreign = (\<lambda>n m. Done (ENull, m))\<rparr>"

definition endless_loop :: "exprtk_node option" where
  "endless_loop = Some (Node 1 1 (NODE_WHILE (Some (Node 1 8 (NODE_INTEGER 1))) (Some (Node 1 11 (NODE_BLOCK [])))))"

definition plain_machine :: "addr option \<Rightarrow> runtime \<Rightarrow> runtime machine" where
  "plain_machine hook rt =
     (case exprtk_env_init_storage \<lparr>outcomes = (\<lambda>n. True), next_pool = 1\<rparr> of
        (sc, h) \<Rightarrow> \<lparr>m_env = [sc\<lparr>sc_hooks := (None, None, hook, None)\<rparr>], m_heap = h, m_user = rt\<rparr>)"

definition budgeted_runtime :: runtime where
  "budgeted_runtime = snd (ts_host_call_budget_attach idle_runtime (call_budget_of example_instance_options example_call_options))"

lemma plain_hosted: "hosted plain_ops"
  by (simp add: hosted_def plain_ops_def)

lemma plain_others: "others_end plain_ops ok left 0"
  using good_Done [of "\<lambda>m. m" ok left _ 0 "\<lambda>m. ENull"] by (simp add: others_end_def plain_ops_def)

lemma plain_machine_env:
  obtains sc where "m_env (plain_machine hook rt) = [sc]" "sc_hooks sc = (None, None, hook, None)"
    "sc_curr_loop_iterations sc = 0" "sc_max_loop_iterations sc = 10000" "m_user (plain_machine hook rt) = rt"
proof -
  let ?h = "\<lparr>outcomes = (\<lambda>n. True), next_pool = 1\<rparr>"
  obtain sc h where e: "exprtk_env_init_storage ?h = (sc, h)" by force
  then have "sc_curr_loop_iterations sc = 0 \<and> sc_max_loop_iterations sc = 10000"
    by (auto simp: exprtk_env_init_storage_def Let_def split: prod.splits)
  with e show thesis by (intro that [of "sc\<lparr>sc_hooks := (None, None, hook, None)\<rparr>"]) (auto simp: plain_machine_def)
qed

lemma endless_loop_size: "child_size endless_loop < 100"
  by (simp add: endless_loop_def child_size_simps)

theorem evaluation_ends_witness:
  "exprtk_eval plain_ops 10001 endless_loop (plain_machine None budgeted_runtime) \<noteq> Timeout"
proof -
  obtain sc where "m_env (plain_machine None budgeted_runtime) = [sc]" "sc_hooks sc = (None, None, None, None)"
    "sc_curr_loop_iterations sc = 0" "sc_max_loop_iterations sc = 10000" by (rule plain_machine_env)
  moreover have "has_budget (m_user (plain_machine None budgeted_runtime))"
    by (simp add: plain_machine_def has_budget_def budgeted_runtime_def ts_host_call_budget_attach_def
        idle_runtime_def split: prod.split)
  ultimately show ?thesis
    using evaluation_ends [of "plain_machine None budgeted_runtime" sc "[]" plain_ops has_budget loops_of 0 10001 endless_loop]
      hosted_guard [OF plain_hosted] plain_others endless_loop_size by (simp add: scope_hook_def)
qed

lemma endless_loop_contained: "self_contained endless_loop"
  by (simp add: endless_loop_def node_children_def)

theorem hosted_evaluation_ends_witness:
  "exprtk_eval plain_ops 10001 endless_loop (plain_machine (Some 7) budgeted_runtime) \<noteq> Timeout"
proof -
  obtain sc where "m_env (plain_machine (Some 7) budgeted_runtime) = [sc]" "sc_hooks sc = (None, None, Some 7, None)"
    by (rule plain_machine_env)
  moreover have "ts_host_call_budget_attach idle_runtime (call_budget_of example_instance_options example_call_options) =
      (STATUS_OK, m_user (plain_machine (Some 7) budgeted_runtime))"
    by (simp add: plain_machine_def budgeted_runtime_def ts_host_call_budget_attach_def idle_runtime_def split: prod.split)
  moreover have "ts_host_call_budget_init example_instance_options (Some example_call_options) =
      (STATUS_OK, Some (call_budget_of example_instance_options example_call_options))"
    by (simp add: ts_host_call_budget_init_def)
  ultimately show ?thesis
    using hosted_evaluation_ends [of example_instance_options example_call_options _ idle_runtime
        "plain_machine (Some 7) budgeted_runtime" sc "[]" plain_ops endless_loop]
      plain_hosted endless_loop_contained endless_loop_size by (simp add: scope_hook_def)
qed

section \<open>Control flow in loops\<close>

text \<open>
  A run in an environment that admits two iterations: the value, the variable \<open>i\<close>, the flow left behind,
  whether the environment is aborted, and the iterations counted.
\<close>

definition loop_report ::
  "exprtk_node option \<Rightarrow> (exprtk_value \<times> exprtk_value \<times> flow \<times> bool \<times> u32) outcome" where
  "loop_report x =
     and_then
       (exprtk_eval plain_ops 4 x (env_update (\<lambda>sc. sc\<lparr>sc_max_loop_iterations := 2\<rparr>) (plain_machine None idle_runtime)))
       (\<lambda>(v, m). Done (v, exprtk_env_get (m_env m) (Some ''i''), flow_of m, aborted m,
                       case m_env m of sc # scs \<Rightarrow> sc_curr_loop_iterations sc | [] \<Rightarrow> 0))"

definition stmt :: "node_data \<Rightarrow> exprtk_node option" where
  "stmt d = Some (Node 1 1 d)"

definition counter_next :: "exprtk_node option" where
  "counter_next =
     stmt (NODE_ASSIGNMENT (Some ''i'')
             (stmt (NODE_BINARY_OP 1 (stmt (NODE_VARIABLE (Some ''i''))) (stmt (NODE_INTEGER 1)))))"

definition counting_loop :: "exprtk_node option \<Rightarrow> exprtk_node option list \<Rightarrow> exprtk_node option" where
  "counting_loop post body =
     stmt (NODE_FOR (stmt (NODE_ASSIGNMENT (Some ''i'') (stmt (NODE_INTEGER 5))))
             (stmt (NODE_BINARY_OP 2 (stmt (NODE_VARIABLE (Some ''i''))) (stmt (NODE_INTEGER 6)))) post (stmt (NODE_BLOCK body)))"

text \<open>
  Runs of a counting loop and its variants, \<open>for (i = 5; i < 6; i = i + 1) { }\<close>.  With an empty body \<open>i\<close> ends as 6.
  With the increment in the body, followed by \<open>continue\<close>, and no last part, the loop ends with the
  flow still set, which ends the statements around it.  In \<open>for (;;) { throw 7; }\<close> the error does
  not end the loop: it runs until the limit is passed and the environment is aborted.  Inside
  \<open>try\<close>, the handler clears the abortion, so the script goes on after its limit.
\<close>

lemma loop_runs:
  "loop_report (counting_loop counter_next []) = Done (ENumber 0, EInteger 6, FLOW_NORMAL, False, 1)"
  "loop_report (counting_loop None [counter_next, stmt (NODE_FLOW 3 None)]) =
     Done (ENumber 0, EInteger 6, FLOW_CONTINUE, False, 1)"
  "loop_report (stmt (NODE_FOR None None None (stmt (NODE_THROW (stmt (NODE_INTEGER 7)))))) =
     Done (EInteger 7, ENumber 0, FLOW_THROW, True, 3)"
  "loop_report (stmt (NODE_TRY_CATCH (stmt (NODE_FOR None None None (stmt (NODE_THROW (stmt (NODE_INTEGER 7))))))
     (Some ''e'') (stmt (NODE_INTEGER 8)))) = Done (EInteger 8, ENumber 0, FLOW_NORMAL, False, 3)"
  by code_simp+

end
