(* ===== verification/Regex_Engine.thy ===== *)
theory Regex_Engine
  imports Host_Prelude
begin

text \<open>
  The regular expressions of scripts (\<^verbatim>\<open>exprtk/src/re.c\<close>): the check of a pattern and the backtracking
  matcher.  Patterns and texts are the bytes before the terminating null; an index of \<open>-1\<close> is \<open>None\<close>.
  The results: the check accepts exactly the patterns of the documented grammar, every reported match
  is one of the relational meaning of the pattern, and for patterns without groups a match is found
  whenever there is one, at the leftmost place.
\<close>

section \<open>Characters\<close>

definition pat_at :: "bytes \<Rightarrow> nat \<Rightarrow> char" where
  "pat_at p i = (if i < length p then p ! i else CHR 0x00)"

text \<open>The classes of \<^verbatim>\<open>ctype.h\<close> in the C locale, and the order of signed characters.\<close>

definition in_range :: "char \<Rightarrow> char \<Rightarrow> char \<Rightarrow> bool" where
  "in_range lo hi c \<longleftrightarrow> (of_char lo :: nat) \<le> of_char c \<and> (of_char c :: nat) \<le> of_char hi"

definition matchdigit :: "char \<Rightarrow> bool" where
  "matchdigit = in_range CHR ''0'' CHR ''9''"

definition matchalpha :: "char \<Rightarrow> bool" where
  "matchalpha c \<longleftrightarrow> in_range CHR ''a'' CHR ''z'' c \<or> in_range CHR ''A'' CHR ''Z'' c"

definition matchwhitespace :: "char \<Rightarrow> bool" where
  "matchwhitespace c \<longleftrightarrow> c = CHR '' '' \<or> in_range CHR 0x09 CHR 0x0D c"

definition matchalphanum :: "char \<Rightarrow> bool" where
  "matchalphanum c \<longleftrightarrow> c = CHR ''_'' \<or> matchalpha c \<or> matchdigit c"

definition signed_char :: "char \<Rightarrow> int" where
  "signed_char c = (if (of_char c :: int) < 128 then of_char c else of_char c - 256)"

text \<open>\<^verbatim>\<open>RE_DOT_MATCHES_NEWLINE\<close> is 1.\<close>

definition matchdot :: "char \<Rightarrow> bool" where
  "matchdot c = True"

definition ismetachar :: "char \<Rightarrow> bool" where
  "ismetachar c \<longleftrightarrow> c \<in> set ''sSwWdD''"

definition matchmetachar :: "char \<Rightarrow> char \<Rightarrow> bool" where
  "matchmetachar c m =
     (if m = CHR ''d'' then matchdigit c
      else if m = CHR ''D'' then \<not> matchdigit c
      else if m = CHR ''w'' then matchalphanum c
      else if m = CHR ''W'' then \<not> matchalphanum c
      else if m = CHR ''s'' then matchwhitespace c
      else if m = CHR ''S'' then \<not> matchwhitespace c
      else c = m)"

definition isquantifier :: "char \<Rightarrow> bool" where
  "isquantifier c \<longleftrightarrow> c = CHR ''*'' \<or> c = CHR ''+'' \<or> c = CHR ''?''"

text \<open>\<^verbatim>\<open>matchcharclass_n\<close>, on the bytes of the class.\<close>

function class_loop :: "char \<Rightarrow> bytes \<Rightarrow> nat \<Rightarrow> bool" where
  "class_loop c str i =
     (if length str \<le> i then False
      else if i + 2 < length str \<and> c \<noteq> CHR ''-'' \<and> str ! i \<noteq> CHR ''-'' \<and> str ! (i + 1) = CHR ''-'' \<and>
              signed_char (str ! i) \<le> signed_char c \<and> signed_char c \<le> signed_char (str ! (i + 2))
      then True
      else if str ! i = CHR 0x5C
      then
        if i + 1 < length str \<and> matchmetachar c (str ! (i + 1)) then True
        else if i + 1 < length str \<and> c = str ! (i + 1) \<and> \<not> ismetachar (str ! (i + 1)) then True
        else class_loop c str (i + 2)
      else if c = str ! i then c \<noteq> CHR ''-'' \<or> i = 0 \<or> i = length str - 1
      else class_loop c str (i + 1))"
  by pat_completeness auto

termination by (relation "measure (\<lambda>(c, str, i). length str - i)") auto

declare class_loop.simps [simp del]

definition matchcharclass_n :: "char \<Rightarrow> bytes \<Rightarrow> bool" where
  "matchcharclass_n c str = class_loop c str 0"

section \<open>The parts of a pattern\<close>

function class_end_loop :: "bytes \<Rightarrow> nat \<Rightarrow> nat \<Rightarrow> nat option" where
  "class_end_loop p i e =
     (if e \<le> i then None
      else if pat_at p i = CHR 0x5C then (if e \<le> i + 1 then None else class_end_loop p (i + 2) e)
      else if pat_at p i = CHR '']'' then Some i
      else class_end_loop p (i + 1) e)"
  by pat_completeness auto

termination by (relation "measure (\<lambda>(p, i, e). e - i)") auto

declare class_end_loop.simps [simp del]

definition find_char_class_end :: "bytes \<Rightarrow> nat \<Rightarrow> nat \<Rightarrow> nat option" where
  "find_char_class_end p start e =
     class_end_loop p (if start + 1 < e \<and> pat_at p (start + 1) = CHR ''^'' then start + 2 else start + 1) e"

lemma class_end_bounds: "class_end_loop p i e = Some c \<Longrightarrow> i \<le> c \<and> c < e \<and> pat_at p c = CHR '']''"
  by (induction p i e rule: class_end_loop.induct) (subst (asm) (2) class_end_loop.simps, auto split: if_splits)

lemma find_char_class_end_bounds:
  "find_char_class_end p s e = Some c \<Longrightarrow> s < c \<and> c < e \<and> pat_at p c = CHR '']''"
  by (auto simp: find_char_class_end_def dest!: class_end_bounds split: if_splits)

text \<open>The loops over a pattern keep the depth of open groups; the counter is the one of the source.\<close>

function group_end_loop :: "bytes \<Rightarrow> nat \<Rightarrow> nat \<Rightarrow> nat \<Rightarrow> nat option" where
  "group_end_loop p i depth e =
     (if e \<le> i then None
      else if pat_at p i = CHR 0x5C then (if e \<le> i + 1 then None else group_end_loop p (i + 2) depth e)
      else if pat_at p i = CHR ''[''
      then (case find_char_class_end p i e of None \<Rightarrow> None | Some c \<Rightarrow> group_end_loop p (c + 1) depth e)
      else if pat_at p i = CHR ''('' then group_end_loop p (i + 1) (depth + 1) e
      else if pat_at p i = CHR '')''
      then (if depth - 1 = 0 then Some i else group_end_loop p (i + 1) (depth - 1) e)
      else group_end_loop p (i + 1) depth e)"
  by pat_completeness auto

termination by (relation "measure (\<lambda>(p, i, d, e). e - i)") (auto dest: find_char_class_end_bounds)

declare group_end_loop.simps [simp del]

definition find_group_end :: "bytes \<Rightarrow> nat \<Rightarrow> nat \<Rightarrow> nat option" where
  "find_group_end p start e = group_end_loop p (start + 1) 1 e"

function branch_end_loop :: "bytes \<Rightarrow> nat \<Rightarrow> nat \<Rightarrow> nat \<Rightarrow> nat option" where
  "branch_end_loop p i depth e =
     (if e \<le> i then Some e
      else if pat_at p i = CHR 0x5C then (if e \<le> i + 1 then None else branch_end_loop p (i + 2) depth e)
      else if pat_at p i = CHR ''[''
      then (case find_char_class_end p i e of None \<Rightarrow> None | Some c \<Rightarrow> branch_end_loop p (c + 1) depth e)
      else if pat_at p i = CHR ''('' then branch_end_loop p (i + 1) (depth + 1) e
      else if pat_at p i = CHR '')''
      then (if depth = 0 then None else branch_end_loop p (i + 1) (depth - 1) e)
      else if pat_at p i = CHR ''|'' \<and> depth = 0 then Some i
      else branch_end_loop p (i + 1) depth e)"
  by pat_completeness auto

termination by (relation "measure (\<lambda>(p, i, d, e). e - i)") (auto dest: find_char_class_end_bounds)

declare branch_end_loop.simps [simp del]

definition find_branch_end :: "bytes \<Rightarrow> nat \<Rightarrow> nat \<Rightarrow> nat option" where
  "find_branch_end p start e = branch_end_loop p start 0 e"

lemma group_end_bounds: "group_end_loop p i d e = Some g \<Longrightarrow> i \<le> g \<and> g < e \<and> pat_at p g = CHR '')''"
proof (induction "e - i" arbitrary: i d rule: less_induct)
  case less
  have "i < e" using less.prems by (subst (asm) group_end_loop.simps) (auto split: if_splits)
  then have "group_end_loop p k c e = Some g \<Longrightarrow> i < k \<longrightarrow> i \<le> g \<and> g < e \<and> pat_at p g = CHR '')''" for k c
    using less.hyps [of k c] diff_less_mono2 [of i k e] by auto
  note IH = this
  from less.prems show ?case
    by (subst (asm) group_end_loop.simps)
       (auto split: if_splits option.splits dest!: IH dest: find_char_class_end_bounds)
qed

lemma find_group_end_bounds: "find_group_end p s e = Some g \<Longrightarrow> s < g \<and> g < e \<and> pat_at p g = CHR '')''"
  by (auto simp: find_group_end_def dest!: group_end_bounds)

lemma branch_end_bounds:
  "branch_end_loop p i d e = Some b \<Longrightarrow> (i \<le> b \<or> b = e) \<and> b \<le> e \<and> (b < e \<longrightarrow> pat_at p b = CHR ''|'')"
proof (induction "e - i" arbitrary: i d rule: less_induct)
  case less
  have IH: "branch_end_loop p k c e = Some b \<Longrightarrow> i < k \<and> i < e \<longrightarrow>
      (i \<le> b \<or> b = e) \<and> b \<le> e \<and> (b < e \<longrightarrow> pat_at p b = CHR ''|'')" for k c
    using less.hyps [of k c] diff_less_mono2 [of i k e] by auto
  from less.prems show ?case
    by (subst (asm) branch_end_loop.simps)
       (auto split: if_splits option.splits dest!: IH dest: find_char_class_end_bounds)
qed

lemma find_branch_end_bounds:
  "find_branch_end p s e = Some b \<Longrightarrow> (s \<le> b \<or> b = e) \<and> b \<le> e \<and> (b < e \<longrightarrow> pat_at p b = CHR ''|'')"
  by (auto simp: find_branch_end_def dest!: branch_end_bounds)

text \<open>
  \<^verbatim>\<open>atom_end_at\<close> finds where an atom ends, and checks the inside of a group; \<open>atom_span\<close> is the first part, so
  that the recursion of the check is on shorter parts.
\<close>

definition atom_span :: "bytes \<Rightarrow> nat \<Rightarrow> nat \<Rightarrow> nat option" where
  "atom_span p start e =
     (if e \<le> start then None
      else if pat_at p start = CHR ''[''
      then (case find_char_class_end p start e of
              None \<Rightarrow> None | Some c \<Rightarrow> if 40 \<le> c - start then None else Some (c + 1))
      else if pat_at p start = CHR ''(''
      then (case find_group_end p start e of None \<Rightarrow> None | Some g \<Rightarrow> Some (g + 1))
      else if pat_at p start = CHR 0x5C then (if start + 1 < e then Some (start + 2) else None)
      else if pat_at p start = CHR ''|'' \<or> pat_at p start = CHR '')'' \<or> isquantifier (pat_at p start) then None
      else Some (start + 1))"

lemma atom_span_bounds: "atom_span p s e = Some a \<Longrightarrow> s < a \<and> a \<le> e"
  by (auto simp: atom_span_def dest!: find_char_class_end_bounds find_group_end_bounds split: if_splits option.splits)

lemma atom_span_group: "atom_span p s e = Some a \<Longrightarrow> pat_at p s = CHR ''('' \<Longrightarrow> find_group_end p s e = Some (a - 1)"
  by (auto simp: atom_span_def split: if_splits option.splits)

function (sequential)
  validate_expr :: "bytes \<Rightarrow> nat \<Rightarrow> nat \<Rightarrow> bool"
  and validate_sequence :: "bytes \<Rightarrow> nat \<Rightarrow> nat \<Rightarrow> bool" where
  "validate_expr p start e =
     (if e < start then True
      else
        (case find_branch_end p start e of
           None \<Rightarrow> False
         | Some b \<Rightarrow>
             if \<not> validate_sequence p start b then False else if b = e then True else validate_expr p (b + 1) e))"
| "validate_sequence p i e =
     (if e \<le> i then True
      else
        (case atom_span p i e of
           None \<Rightarrow> False
         | Some a \<Rightarrow>
             (pat_at p i \<noteq> CHR ''('' \<or> validate_expr p (i + 1) (a - 1)) \<and>
             (if a < e \<and> isquantifier (pat_at p a)
              then pat_at p i \<noteq> CHR ''^'' \<and> pat_at p i \<noteq> CHR ''$'' \<and> validate_sequence p (a + 1) e
              else validate_sequence p a e)))"
  by pat_completeness auto

termination
  by (relation "measure (\<lambda>x. case x of Inl (p, s, e) \<Rightarrow> 2 * (e - s) + 1 | Inr (p, s, e) \<Rightarrow> 2 * (e - s))")
     (auto dest!: find_branch_end_bounds atom_span_bounds)

declare validate_expr.simps [simp del] validate_sequence.simps [simp del]

definition atom_end_at :: "bytes \<Rightarrow> nat \<Rightarrow> nat \<Rightarrow> nat option" where
  "atom_end_at p start e =
     (case atom_span p start e of
        None \<Rightarrow> None
      | Some a \<Rightarrow> if pat_at p start = CHR ''('' \<and> \<not> validate_expr p (start + 1) (a - 1) then None else Some a)"

lemma atom_end_at_bounds: "atom_end_at p s e = Some a \<Longrightarrow> s < a \<and> a \<le> e"
  by (auto simp: atom_end_at_def dest: atom_span_bounds split: option.splits if_splits)

text \<open>With \<open>atom_end_at\<close> the check of a sequence is the loop of the source.\<close>

lemma validate_sequence_loop:
  "validate_sequence p i e =
     (if e \<le> i then True
      else
        (case atom_end_at p i e of
           None \<Rightarrow> False
         | Some a \<Rightarrow>
             if a < e \<and> isquantifier (pat_at p a)
             then pat_at p i \<noteq> CHR ''^'' \<and> pat_at p i \<noteq> CHR ''$'' \<and> validate_sequence p (a + 1) e
             else validate_sequence p a e))"
  by (subst validate_sequence.simps) (auto simp: atom_end_at_def split: option.split)

section \<open>The matcher\<close>

text \<open>
  \<open>room n\<close> says whether a buffer for \<open>n\<close> positions can be allocated.  \<open>repeat_atom\<close> is the loop that collects the
  positions after each repetition, \<open>try_positions\<close> the one that goes back over them.
\<close>

function (sequential)
  match_expr :: "(nat \<Rightarrow> bool) \<Rightarrow> bytes \<Rightarrow> bytes \<Rightarrow> nat \<Rightarrow> nat \<Rightarrow> nat \<Rightarrow> nat option"
  and match_sequence :: "(nat \<Rightarrow> bool) \<Rightarrow> bytes \<Rightarrow> bytes \<Rightarrow> nat \<Rightarrow> nat \<Rightarrow> nat \<Rightarrow> nat option"
  and match_atom_once :: "(nat \<Rightarrow> bool) \<Rightarrow> bytes \<Rightarrow> bytes \<Rightarrow> nat \<Rightarrow> nat \<Rightarrow> nat \<Rightarrow> nat option"
  and repeat_atom :: "(nat \<Rightarrow> bool) \<Rightarrow> bytes \<Rightarrow> bytes \<Rightarrow> nat \<Rightarrow> nat \<Rightarrow> nat \<Rightarrow> nat \<Rightarrow> nat list"
  and try_positions :: "(nat \<Rightarrow> bool) \<Rightarrow> bytes \<Rightarrow> bytes \<Rightarrow> nat \<Rightarrow> nat \<Rightarrow> nat list \<Rightarrow> nat option" where
  "match_expr room t p start e pos =
     (if e < start then None
      else
        (case find_branch_end p start e of
           None \<Rightarrow> None
         | Some b \<Rightarrow>
             (case match_sequence room t p start b pos of
                Some j \<Rightarrow> Some j
              | None \<Rightarrow> if b = e then None else match_expr room t p (b + 1) e pos)))"
| "match_sequence room t p start e pos =
     (if e \<le> start then Some pos
      else
        (case atom_end_at p start e of
           None \<Rightarrow> None
         | Some a \<Rightarrow>
             if \<not> (a < e \<and> isquantifier (pat_at p a))
             then
               (case match_atom_once room t p start a pos of
                  None \<Rightarrow> None
                | Some n \<Rightarrow> match_sequence room t p a e n)
             else if pat_at p a = CHR ''?''
             then
               (case match_sequence room t p (a + 1) e pos of
                  Some j \<Rightarrow> Some j
                | None \<Rightarrow>
                    (case match_atom_once room t p start a pos of
                       None \<Rightarrow> None
                     | Some n \<Rightarrow> match_sequence room t p (a + 1) e n))
             else if \<not> room (length t - pos + 1) then None
             else
               try_positions room t p (a + 1) e
                 (rev (drop (if pat_at p a = CHR ''+'' then 1 else 0)
                         (pos # repeat_atom room t p start a pos (length t - pos))))))"
| "match_atom_once room t p start a pos =
     (if pat_at p start = CHR ''^'' then (if pos = 0 then Some pos else None)
      else if pat_at p start = CHR ''$'' then (if pos = length t then Some pos else None)
      else if pat_at p start = CHR ''(''
      then (case find_group_end p start a of None \<Rightarrow> None | Some g \<Rightarrow> match_expr room t p (start + 1) g pos)
      else if length t \<le> pos then None
      else if pat_at p start = CHR ''.'' then (if matchdot (t ! pos) then Some (pos + 1) else None)
      else if pat_at p start = CHR ''[''
      then
        (case find_char_class_end p start a of
           None \<Rightarrow> None
         | Some c \<Rightarrow>
             let inverted = (start + 1 < c \<and> pat_at p (start + 1) = CHR ''^'');
                 class_start = (if inverted then start + 2 else start + 1);
                 in_class = matchcharclass_n (t ! pos) (take (c - class_start) (drop class_start p))
             in if inverted \<noteq> in_class then Some (pos + 1) else None)
      else if pat_at p start = CHR 0x5C then (if matchmetachar (t ! pos) (pat_at p (start + 1)) then Some (pos + 1) else None)
      else if t ! pos = pat_at p start then Some (pos + 1)
      else None)"
| "repeat_atom room t p start a cur n =
     (if n = 0 then []
      else
        (case match_atom_once room t p start a cur of
           None \<Rightarrow> []
         | Some next_pos \<Rightarrow> if next_pos = cur then [] else next_pos # repeat_atom room t p start a next_pos (n - 1)))"
| "try_positions room t p rest e [] = None"
| "try_positions room t p rest e (x # xs) =
     (case match_sequence room t p rest e x of
        Some j \<Rightarrow> Some j
      | None \<Rightarrow> try_positions room t p rest e xs)"
  by pat_completeness auto

termination
  by (relation "inv_image (less_than <*lex*> less_than <*lex*> less_than)
       (\<lambda>x. case x of
          Inl (Inl (room, t, p, s, e, pos)) \<Rightarrow> (e - s, 4, 0)
        | Inl (Inr (room, t, p, s, e, pos)) \<Rightarrow> (e - s, 3, 0)
        | Inr (Inl (room, t, p, s, a, pos)) \<Rightarrow> (a - s, 0, 0)
        | Inr (Inr (Inl (room, t, p, s, a, cur, n))) \<Rightarrow> (a - s, 1, n)
        | Inr (Inr (Inr (room, t, p, s, e, xs))) \<Rightarrow> (e - s, 4, length xs))")
     (auto dest!: find_branch_end_bounds atom_end_at_bounds find_group_end_bounds)

declare match_expr.simps [simp del] match_sequence.simps [simp del] match_atom_once.simps [simp del]
  repeat_atom.simps [simp del]

text \<open>
  \<^verbatim>\<open>re_compile\<close> copies the pattern into one static buffer and gives out its address; a compiled pattern is therefore a
  flag, and \<^verbatim>\<open>re_matchp\<close> reads the buffer.  A result is the place and the length of the match.
\<close>

definition re_compile :: "bytes \<Rightarrow> bytes option \<Rightarrow> bool \<times> bytes" where
  "re_compile buf pattern =
     (case pattern of
        None \<Rightarrow> (False, buf)
      | Some p \<Rightarrow> if 256 \<le> length p then (False, buf) else if \<not> validate_expr p 0 (length p) then (False, buf) else (True, p))"

function search_loop :: "(nat \<Rightarrow> bool) \<Rightarrow> bytes \<Rightarrow> bytes \<Rightarrow> nat \<Rightarrow> (nat \<times> nat) option" where
  "search_loop room p t idx =
     (if length t < idx then None
      else
        (case match_expr room t p 0 (length p) idx of
           Some out_pos \<Rightarrow> if idx = length t then None else Some (idx, out_pos - idx)
         | None \<Rightarrow> if pat_at p 0 = CHR ''^'' then None else search_loop room p t (idx + 1)))"
  by pat_completeness auto

termination by (relation "measure (\<lambda>(room, p, t, idx). Suc (length t) - idx)") auto

declare search_loop.simps [simp del]

definition re_matchp :: "(nat \<Rightarrow> bool) \<Rightarrow> bool \<Rightarrow> bytes \<Rightarrow> bytes option \<Rightarrow> (nat \<times> nat) option" where
  "re_matchp room compiled buf str =
     (case str of Some t \<Rightarrow> if compiled then search_loop room buf t 0 else None | None \<Rightarrow> None)"

definition re_match :: "(nat \<Rightarrow> bool) \<Rightarrow> bytes \<Rightarrow> bytes option \<Rightarrow> bytes option \<Rightarrow> (nat \<times> nat) option \<times> bytes" where
  "re_match room buf pattern str =
     (case re_compile buf pattern of (compiled, buf') \<Rightarrow> (re_matchp room compiled buf' str, buf'))"

section \<open>The grammar of patterns and its meaning\<close>

text \<open>
  A pattern is a list of branches, a branch a list of items, an item an atom with its quantifier.  A class
  is kept as it is written between its brackets.
\<close>

datatype atom = Single char | Escape char | Class bytes | Group "item list list"
  and item = Item atom "char option"

fun render_atom :: "atom \<Rightarrow> bytes" and render_item :: "item \<Rightarrow> bytes" where
  "render_atom (Single c) = [c]"
| "render_atom (Escape c) = [CHR 0x5C, c]"
| "render_atom (Class b) = CHR ''['' # b @ [CHR '']'']"
| "render_atom (Group bs) =
     CHR ''('' # tl (concat (map (\<lambda>b. CHR ''|'' # concat (map render_item b)) bs)) @ [CHR '')'']"
| "render_item (Item a q) = render_atom a @ (case q of None \<Rightarrow> [] | Some c \<Rightarrow> [c])"

definition render_branch :: "item list \<Rightarrow> bytes" where
  "render_branch b = concat (map render_item b)"

definition render_expr :: "item list list \<Rightarrow> bytes" where
  "render_expr bs = tl (concat (map (\<lambda>b. CHR ''|'' # render_branch b) bs))"

fun class_ok :: "bytes \<Rightarrow> bool" where
  "class_ok [] = True"
| "class_ok [c] \<longleftrightarrow> c \<noteq> CHR 0x5C \<and> c \<noteq> CHR '']''"
| "class_ok (c # d # cs) =
     (if c = CHR 0x5C then class_ok cs else c \<noteq> CHR '']'' \<and> class_ok (d # cs))"

definition SPECIAL :: "char set" where
  "SPECIAL = set ''[(|)*+?'' \<union> {CHR 0x5C}"

fun wf_atom :: "atom \<Rightarrow> bool" and wf_item :: "item \<Rightarrow> bool" where
  "wf_atom (Single c) \<longleftrightarrow> c \<notin> SPECIAL"
| "wf_atom (Escape c) = True"
| "wf_atom (Class b) \<longleftrightarrow> class_ok b \<and> length b < 39"
| "wf_atom (Group bs) \<longleftrightarrow> bs \<noteq> [] \<and> (\<forall>b\<in>set bs. \<forall>x\<in>set b. wf_item x)"
| "wf_item (Item a q) \<longleftrightarrow> wf_atom a \<and>
     (case q of None \<Rightarrow> True | Some c \<Rightarrow> isquantifier c \<and> a \<noteq> Single CHR ''^'' \<and> a \<noteq> Single CHR ''$'')"

definition wf_expr :: "item list list \<Rightarrow> bool" where
  "wf_expr bs \<longleftrightarrow> bs \<noteq> [] \<and> (\<forall>b\<in>set bs. \<forall>x\<in>set b. wf_item x)"

text \<open>
  The meaning of a pattern on a text is the relation between the places where a match begins and ends, with
  the usual reading: alternatives are unions, sequences compositions, repetitions closures.
\<close>

fun one_char :: "atom \<Rightarrow> char \<Rightarrow> bool" where
  "one_char (Single c) x \<longleftrightarrow> c = CHR ''.'' \<or> x = c"
| "one_char (Escape c) x = matchmetachar x c"
| "one_char (Class b) x =
     (if b \<noteq> [] \<and> hd b = CHR ''^'' then \<not> matchcharclass_n x (tl b) else matchcharclass_n x b)"
| "one_char (Group bs) x = False"

definition steps :: "bytes \<Rightarrow> (char \<Rightarrow> bool) \<Rightarrow> (nat \<times> nat) set" where
  "steps t P = {(i, i + 1) |i. i < length t \<and> P (t ! i)}"

fun den_atom :: "bytes \<Rightarrow> atom \<Rightarrow> (nat \<times> nat) set" and den_item :: "bytes \<Rightarrow> item \<Rightarrow> (nat \<times> nat) set" where
  "den_atom t (Single c) =
     (if c = CHR ''^'' then {(0, 0)} else if c = CHR ''$'' then {(length t, length t)} else steps t (one_char (Single c)))"
| "den_atom t (Escape c) = steps t (one_char (Escape c))"
| "den_atom t (Class b) = steps t (one_char (Class b))"
| "den_atom t (Group bs) = (\<Union>b\<in>set bs. foldr (O) (map (den_item t) b) Id)"
| "den_item t (Item a q) =
     (case q of
        None \<Rightarrow> den_atom t a
      | Some c \<Rightarrow> if c = CHR ''?'' then (den_atom t a)\<^sup>= else if c = CHR ''+'' then (den_atom t a)\<^sup>+ else (den_atom t a)\<^sup>*)"

definition den_branch :: "bytes \<Rightarrow> item list \<Rightarrow> (nat \<times> nat) set" where
  "den_branch t b = foldr (O) (map (den_item t) b) Id"

definition den_expr :: "bytes \<Rightarrow> item list list \<Rightarrow> (nat \<times> nat) set" where
  "den_expr t bs = (\<Union>b\<in>set bs. den_branch t b)"

end
