(* ===== verification/Regex_Match.thy ===== *)
theory Regex_Match
  imports Regex_Engine
begin

text \<open>
  What the check and the matcher of \<open>Regex_Engine\<close> do, in terms of the grammar: the places where the loops
  over a pattern stop, the patterns that are accepted, and the matches that are reported.
\<close>

section \<open>Parts of a pattern at a place\<close>

definition occurs :: "bytes \<Rightarrow> nat \<Rightarrow> bytes \<Rightarrow> bool" where
  "occurs p i w \<longleftrightarrow> take (length w) (drop i p) = w"

lemma occurs_Nil [simp]: "occurs p i []"
  by (simp add: occurs_def)

lemma occurs_Cons [simp]: "occurs p i (c # w) \<longleftrightarrow> i < length p \<and> pat_at p i = c \<and> occurs p (Suc i) w"
  by (cases "i < length p") (auto simp: occurs_def pat_at_def Cons_nth_drop_Suc [symmetric])

lemma occurs_append [simp]: "occurs p i (u @ w) \<longleftrightarrow> occurs p i u \<and> occurs p (i + length u) w"
  by (induction u arbitrary: i) auto

lemma render_group: "render_atom (Group bs) = CHR ''('' # render_expr bs @ [CHR '')'']"
  by (simp add: render_expr_def render_branch_def)

lemma render_branch_simps [simp]:
  "render_branch [] = []" "render_branch (x # xs) = render_item x @ render_branch xs"
  by (simp_all add: render_branch_def)

lemma render_expr_Cons: "render_expr (b # bs) = render_branch b @ concat (map (\<lambda>b. CHR ''|'' # render_branch b) bs)"
  by (simp add: render_expr_def)

lemma render_expr_Cons2: "bs \<noteq> [] \<Longrightarrow> render_expr (b # bs) = render_branch b @ CHR ''|'' # render_expr bs"
  by (cases bs) (simp_all add: render_expr_Cons)

lemma render_nonempty: "0 < length (render_atom a)"
  by (cases a) auto

lemma special: "c \<notin> SPECIAL \<Longrightarrow> c \<noteq> CHR 0x5C \<and> c \<noteq> CHR ''['' \<and> c \<noteq> CHR ''('' \<and> c \<noteq> CHR '')'' \<and> c \<noteq> CHR ''|'' \<and> \<not> isquantifier c"
  by (auto simp: SPECIAL_def isquantifier_def)

lemma quantifier_plain:
  "isquantifier c \<Longrightarrow> c \<noteq> CHR 0x5C \<and> c \<noteq> CHR ''['' \<and> c \<noteq> CHR ''('' \<and> c \<noteq> CHR '')'' \<and> c \<noteq> CHR ''|''"
  by (auto simp: isquantifier_def)

section \<open>The end of a class\<close>

lemma class_end_scan:
  "class_ok b \<Longrightarrow> occurs p i (b @ [CHR '']'']) \<Longrightarrow> i + length b < e \<Longrightarrow> class_end_loop p i e = Some (i + length b)"
proof (induction b arbitrary: i rule: class_ok.induct)
  case 1
  then show ?case by (subst class_end_loop.simps) auto
next
  case (2 c)
  then show ?case by (subst class_end_loop.simps) (auto, subst class_end_loop.simps, auto)
next
  case (3 c d cs)
  then show ?case by (subst class_end_loop.simps) auto
qed

lemma find_class_end:
  assumes "class_ok b" "occurs p i (CHR ''['' # b @ [CHR '']''])" "i + length b + 1 < e"
  shows "find_char_class_end p i e = Some (i + length b + 1)"
proof (cases b)
  case (Cons c cs)
  show ?thesis
  proof (cases "c = CHR ''^''")
    case True
    then have "class_ok cs" using assms(1) Cons by (cases cs) auto
    then show ?thesis using assms Cons True class_end_scan [of cs p "Suc (Suc i)" e] by (simp add: find_char_class_end_def)
  next
    case False
    then show ?thesis using assms Cons class_end_scan [of b p "Suc i" e] by (simp add: find_char_class_end_def)
  qed
qed (use assms class_end_scan [of b p "Suc i" e] in \<open>simp add: find_char_class_end_def\<close>)

section \<open>Loops that keep the depth of groups\<close>

locale scanner =
  fixes scan :: "bytes \<Rightarrow> nat \<Rightarrow> nat \<Rightarrow> nat \<Rightarrow> nat option" and bar :: "nat \<Rightarrow> bool"
  assumes bar_inside: "bar (Suc d)"
    and scan_escape: "i + 1 < e \<Longrightarrow> pat_at p i = CHR 0x5C \<Longrightarrow> scan p i d e = scan p (i + 2) d e"
    and scan_class: "i < e \<Longrightarrow> pat_at p i = CHR ''['' \<Longrightarrow> find_char_class_end p i e = Some k \<Longrightarrow>
      scan p i d e = scan p (k + 1) d e"
    and scan_open: "i < e \<Longrightarrow> pat_at p i = CHR ''('' \<Longrightarrow> scan p i d e = scan p (i + 1) (Suc d) e"
    and scan_close: "i < e \<Longrightarrow> pat_at p i = CHR '')'' \<Longrightarrow> scan p i (Suc d) e = scan p (i + 1) d e"
    and scan_plain: "i < e \<Longrightarrow> pat_at p i = c \<Longrightarrow> c \<noteq> CHR 0x5C \<Longrightarrow> c \<noteq> CHR ''['' \<Longrightarrow> c \<noteq> CHR ''('' \<Longrightarrow> c \<noteq> CHR '')'' \<Longrightarrow>
      c \<noteq> CHR ''|'' \<or> bar d \<Longrightarrow> scan p i d e = scan p (i + 1) d e"
begin

definition skips :: "bytes \<Rightarrow> nat \<Rightarrow> bool" where
  "skips w d \<longleftrightarrow> (\<forall>p i e. occurs p i w \<longrightarrow> i + length w \<le> e \<longrightarrow> scan p i d e = scan p (i + length w) d e)"

lemma skips_Nil: "skips [] d"
  by (simp add: skips_def)

lemma skips_append: "skips u d \<Longrightarrow> skips w d \<Longrightarrow> skips (u @ w) d"
  by (simp add: skips_def) (metis add.assoc add_leD1)

lemma skips_plain:
  "c \<noteq> CHR 0x5C \<Longrightarrow> c \<noteq> CHR ''['' \<Longrightarrow> c \<noteq> CHR ''('' \<Longrightarrow> c \<noteq> CHR '')'' \<Longrightarrow> c \<noteq> CHR ''|'' \<or> bar d \<Longrightarrow> skips [c] d"
  using scan_plain by (auto simp: skips_def)

lemma skips_branch: "(\<And>x. x \<in> set b \<Longrightarrow> skips (render_item x) d) \<Longrightarrow> skips (render_branch b) d"
  by (induction b) (auto intro: skips_Nil skips_append)

lemma skips_branches:
  "bar d \<Longrightarrow> (\<And>b. b \<in> set bs \<Longrightarrow> skips (render_branch b) d) \<Longrightarrow> skips (concat (map (\<lambda>b. CHR ''|'' # render_branch b) bs)) d"
proof (induction bs)
  case (Cons b bs)
  have "skips ([CHR ''|''] @ render_branch b @ concat (map (\<lambda>b. CHR ''|'' # render_branch b) bs)) d"
    using Cons by (intro skips_append skips_plain) auto
  then show ?case by simp
qed (simp add: skips_Nil)

lemma skips_expr:
  assumes "bar d" "\<And>b. b \<in> set bs \<Longrightarrow> skips (render_branch b) d"
  shows "skips (render_expr bs) d"
proof (cases bs)
  case (Cons b cs)
  then show ?thesis using assms skips_branches [of d cs] by (auto simp: render_expr_Cons intro: skips_append)
qed (simp add: render_expr_def skips_Nil)

lemma skips_group:
  assumes "skips w (Suc d)"
  shows "skips (CHR ''('' # w @ [CHR '')'']) d"
  unfolding skips_def
proof (intro allI impI)
  fix p i e assume o: "occurs p i (CHR ''('' # w @ [CHR '')''])" and e: "i + length (CHR ''('' # w @ [CHR '')'']) \<le> e"
  have "scan p i d e = scan p (Suc i) (Suc d) e" using o e scan_open [of i e p d] by simp
  also have "\<dots> = scan p (Suc i + length w) (Suc d) e" using assms o e by (simp add: skips_def)
  also have "\<dots> = scan p (Suc i + length w + 1) d e" using o e by (intro scan_close) auto
  finally show "scan p i d e = scan p (i + length (CHR ''('' # w @ [CHR '')''])) d e" by simp
qed

lemma skips_atom_item: "wf_atom a \<Longrightarrow> \<forall>d. skips (render_atom a) d" "wf_item x \<Longrightarrow> \<forall>d. skips (render_item x) d"
proof (induction a and x)
  case (Single c)
  then show ?case using special [of c] by (auto intro: skips_plain)
next
  case (Escape c)
  then show ?case using scan_escape by (auto simp: skips_def)
next
  case (Class b)
  then show ?case using find_class_end [of b] scan_class by (auto simp: skips_def)
next
  case (Group bs)
  then have "skips (render_expr bs) (Suc d)" for d by (intro skips_expr skips_branch bar_inside) auto
  then show ?case unfolding render_group by (blast intro: skips_group)
next
  case (Item a q)
  then show ?case using quantifier_plain by (auto intro!: skips_append skips_plain split: option.splits simp: skips_Nil)
qed

lemma wf_branch_skips: "\<forall>x\<in>set b. wf_item x \<Longrightarrow> skips (render_branch b) d"
  using skips_atom_item(2) by (intro skips_branch) auto

lemma wf_expr_skips: "wf_expr bs \<Longrightarrow> bar d \<Longrightarrow> skips (render_expr bs) d"
  by (intro skips_expr wf_branch_skips) (auto simp: wf_expr_def)

end

lemma branch_scan_steps:
  "i + 1 < e \<Longrightarrow> pat_at p i = CHR 0x5C \<Longrightarrow> branch_end_loop p i d e = branch_end_loop p (i + 2) d e"
  "i < e \<Longrightarrow> pat_at p i = CHR ''['' \<Longrightarrow> find_char_class_end p i e = Some k \<Longrightarrow> branch_end_loop p i d e = branch_end_loop p (k + 1) d e"
  "i < e \<Longrightarrow> pat_at p i = CHR ''('' \<Longrightarrow> branch_end_loop p i d e = branch_end_loop p (i + 1) (Suc d) e"
  "i < e \<Longrightarrow> pat_at p i = CHR '')'' \<Longrightarrow> branch_end_loop p i (Suc d) e = branch_end_loop p (i + 1) d e"
  "i < e \<Longrightarrow> pat_at p i = c \<Longrightarrow> c \<noteq> CHR 0x5C \<Longrightarrow> c \<noteq> CHR ''['' \<Longrightarrow> c \<noteq> CHR ''('' \<Longrightarrow> c \<noteq> CHR '')'' \<Longrightarrow>
      c \<noteq> CHR ''|'' \<or> 0 < d \<Longrightarrow> branch_end_loop p i d e = branch_end_loop p (i + 1) d e"
  by (subst branch_end_loop.simps; auto)+

lemma group_scan_steps:
  "i + 1 < e \<Longrightarrow> pat_at p i = CHR 0x5C \<Longrightarrow> group_end_loop p i d e = group_end_loop p (i + 2) d e"
  "i < e \<Longrightarrow> pat_at p i = CHR ''['' \<Longrightarrow> find_char_class_end p i e = Some k \<Longrightarrow> group_end_loop p i d e = group_end_loop p (k + 1) d e"
  "i < e \<Longrightarrow> pat_at p i = CHR ''('' \<Longrightarrow> group_end_loop p i d e = group_end_loop p (i + 1) (Suc d) e"
  "i < e \<Longrightarrow> pat_at p i = CHR '')'' \<Longrightarrow> group_end_loop p i (Suc (Suc d)) e = group_end_loop p (i + 1) (Suc d) e"
  "i < e \<Longrightarrow> pat_at p i = c \<Longrightarrow> c \<noteq> CHR 0x5C \<Longrightarrow> c \<noteq> CHR ''['' \<Longrightarrow> c \<noteq> CHR ''('' \<Longrightarrow> c \<noteq> CHR '')'' \<Longrightarrow>
      group_end_loop p i d e = group_end_loop p (i + 1) d e"
  by (subst group_end_loop.simps; auto)+

interpretation branches: scanner branch_end_loop "\<lambda>d. 0 < d"
  by unfold_locales (fact branch_scan_steps | simp)+

interpretation groups: scanner "\<lambda>p i d e. group_end_loop p i (Suc d) e" "\<lambda>d. True"
  by unfold_locales (fact group_scan_steps | (rule group_scan_steps; assumption) | simp)+

text \<open>Where the parts of a written pattern end.\<close>

lemma find_branch_end_at:
  assumes "\<forall>x\<in>set b. wf_item x" "occurs p s (render_branch b)"
  shows "find_branch_end p s (s + length (render_branch b)) = Some (s + length (render_branch b))"
    and "s + length (render_branch b) < e \<Longrightarrow> pat_at p (s + length (render_branch b)) = CHR ''|'' \<Longrightarrow>
      find_branch_end p s e = Some (s + length (render_branch b))"
proof -
  have skip: "s + length (render_branch b) \<le> e \<Longrightarrow>
      find_branch_end p s e = branch_end_loop p (s + length (render_branch b)) 0 e" for e
    using branches.wf_branch_skips [OF assms(1), of 0] assms(2) by (simp add: find_branch_end_def branches.skips_def)
  show "find_branch_end p s (s + length (render_branch b)) = Some (s + length (render_branch b))"
    using skip [OF order_refl] by (subst (asm) branch_end_loop.simps) simp
  show "find_branch_end p s e = Some (s + length (render_branch b))"
    if "s + length (render_branch b) < e" "pat_at p (s + length (render_branch b)) = CHR ''|''"
    using skip [of e] that by (simp add: branch_end_loop.simps [of p "s + length (render_branch b)" 0 e])
qed

lemma find_group_end_at:
  assumes "wf_expr bs" "occurs p s (render_atom (Group bs))" "s + length (render_atom (Group bs)) \<le> e"
  shows "find_group_end p s e = Some (s + length (render_expr bs) + 1)"
proof -
  have "find_group_end p s e = group_end_loop p (Suc s + length (render_expr bs)) 1 e"
    using groups.wf_expr_skips [OF assms(1) TrueI, of 0] assms(2,3)
    unfolding render_group groups.skips_def find_group_end_def by simp
  also have "\<dots> = Some (s + length (render_expr bs) + 1)"
    using assms(2,3) unfolding render_group by (subst group_end_loop.simps) simp
  finally show ?thesis .
qed

lemma atom_span_at:
  assumes "wf_atom a" "occurs p s (render_atom a)" "s + length (render_atom a) \<le> e"
  shows "atom_span p s e = Some (s + length (render_atom a))"
proof (cases a)
  case (Single c)
  then show ?thesis using assms special [of c] by (simp add: atom_span_def)
next
  case (Escape c)
  then show ?thesis using assms by (simp add: atom_span_def)
next
  case (Class b)
  then show ?thesis using assms find_class_end [of b p s e] by (simp add: atom_span_def)
next
  case (Group bs)
  then have "find_group_end p s e = Some (s + length (render_expr bs) + 1)"
    using assms by (intro find_group_end_at) (auto simp: wf_expr_def)
  then show ?thesis using assms unfolding Group render_group by (simp add: atom_span_def)
qed

lemma first_not_quantifier:
  "wf_atom a \<Longrightarrow> occurs p s (render_atom a) \<Longrightarrow> \<not> isquantifier (pat_at p s)"
  using special by (cases a) (auto simp: isquantifier_def)

lemma next_not_quantifier:
  assumes "\<forall>x\<in>set b. wf_item x" "occurs p s (render_branch b)" "0 < length (render_branch b)"
  shows "\<not> isquantifier (pat_at p s)"
proof (cases b)
  case (Cons x xs)
  obtain a q where "x = Item a q" by (cases x)
  with assms Cons show ?thesis using first_not_quantifier [of a p s] by auto
qed (use assms in simp)

text \<open>An item at the start of a branch, as the loops see it.\<close>

lemma item_split:
  assumes wf: "\<forall>y\<in>set (Item a q # b). wf_item y" and o: "occurs p s (render_branch (Item a q # b))"
    and e: "e = s + length (render_branch (Item a q # b))"
  shows "s < e" and "s + length (render_atom a) \<le> e" and "occurs p s (render_atom a)"
    and "s + length (render_atom a) < e \<and> isquantifier (pat_at p (s + length (render_atom a))) \<longleftrightarrow> q \<noteq> None"
    and "q = Some c \<Longrightarrow> pat_at p (s + length (render_atom a)) = c"
    and "occurs p (s + length (render_item (Item a q))) (render_branch b)"
    and "e = s + length (render_item (Item a q)) + length (render_branch b)"
proof -
  show "s < e" using e render_nonempty [of a] by simp
  show "s + length (render_atom a) < e \<and> isquantifier (pat_at p (s + length (render_atom a))) \<longleftrightarrow> q \<noteq> None"
  proof (cases q)
    case None
    then show ?thesis using next_not_quantifier [of b p "s + length (render_atom a)"] wf o e by auto
  next
    case (Some c)
    then show ?thesis using wf o e by auto
  qed
qed (use o e in \<open>auto split: option.splits\<close>)

definition span_ok :: "atom \<Rightarrow> bool" where
  "span_ok a \<longleftrightarrow> (\<forall>p s e. occurs p s (render_atom a) \<longrightarrow> s + length (render_atom a) \<le> e \<longrightarrow>
     atom_end_at p s e = Some (s + length (render_atom a)))"

fun item_atom :: "item \<Rightarrow> atom" where
  "item_atom (Item a q) = a"

lemma branch_accepted:
  "\<forall>x\<in>set b. wf_item x \<and> span_ok (item_atom x) \<Longrightarrow> occurs p s (render_branch b) \<Longrightarrow>
   validate_sequence p s (s + length (render_branch b))"
proof (induction b arbitrary: s)
  case Nil
  then show ?case by (simp add: validate_sequence.simps)
next
  case (Cons x b)
  obtain a q where x: "x = Item a q" by (cases x)
  let ?e = "s + length (render_branch (x # b))"
  have wf: "\<forall>y\<in>set (Item a q # b). wf_item y" using Cons.prems(1) x by auto
  note sp = item_split [OF wf Cons.prems(2) [unfolded x], of ?e, unfolded x, OF refl]
  have end_at: "atom_end_at p s ?e = Some (s + length (render_atom a))"
    using Cons.prems(1) x sp(2,3) by (auto simp: span_ok_def)
  have rest: "validate_sequence p (s + length (render_item x)) ?e"
    using Cons.IH [OF _ sp(6)] Cons.prems(1) x sp(7) by (simp add: add.assoc)
  show ?case
  proof (cases q)
    case None
    then show ?thesis using end_at rest sp(1,4) x by (subst validate_sequence_loop) auto
  next
    case (Some c)
    have "pat_at p s \<noteq> CHR ''^'' \<and> pat_at p s \<noteq> CHR ''$''"
      using wf Some sp(3) special by (cases a) auto
    then show ?thesis using end_at rest sp(1,4) x Some by (subst validate_sequence_loop) auto
  qed
qed

lemma expr_accepted:
  assumes "bs \<noteq> []" "\<forall>b\<in>set bs. \<forall>x\<in>set b. wf_item x \<and> span_ok (item_atom x)" "occurs p s (render_expr bs)"
  shows "validate_expr p s (s + length (render_expr bs))"
  using assms
proof (induction bs arbitrary: s)
  case (Cons b bs)
  let ?e = "s + length (render_expr (b # bs))" and ?b = "s + length (render_branch b)"
  have wf: "\<forall>x\<in>set b. wf_item x" and o: "occurs p s (render_branch b)"
    using Cons.prems by (auto simp: render_expr_Cons)
  have v: "validate_sequence p s ?b" using Cons.prems o by (intro branch_accepted) auto
  show ?case
  proof (cases "bs = []")
    case True
    then show ?thesis using find_branch_end_at(1) [OF wf o] v by (subst validate_expr.simps) (simp add: render_expr_Cons)
  next
    case False
    note r = render_expr_Cons2 [OF False]
    have "find_branch_end p s ?e = Some ?b" using Cons.prems(3) by (intro find_branch_end_at(2) wf o) (auto simp: r)
    moreover have "validate_expr p (?b + 1) ?e"
      using Cons.IH [of "?b + 1"] Cons.prems False by (simp add: r add.assoc)
    ultimately show ?thesis using v by (subst validate_expr.simps) simp
  qed
qed simp

lemma span_ok_plain: "wf_atom a \<Longrightarrow> (\<And>p s. occurs p s (render_atom a) \<Longrightarrow> pat_at p s \<noteq> CHR ''('') \<Longrightarrow> span_ok a"
  by (simp add: span_ok_def atom_end_at_def atom_span_at)

lemma wf_span_ok: "wf_atom a \<Longrightarrow> span_ok a" "wf_item x \<Longrightarrow> span_ok (item_atom x)"
proof (induction a and x)
  case (Group bs)
  have ok: "\<forall>b\<in>set bs. \<forall>x\<in>set b. wf_item x \<and> span_ok (item_atom x)" "bs \<noteq> []" using Group by auto
  show ?case unfolding span_ok_def
  proof (intro allI impI)
    fix p s e assume o: "occurs p s (render_atom (Group bs))" "s + length (render_atom (Group bs)) \<le> e"
    have "validate_expr p (s + 1) (s + 1 + length (render_expr bs))"
      using ok o(1) unfolding render_group by (intro expr_accepted) auto
    with atom_span_at [OF Group.prems o] o show "atom_end_at p s e = Some (s + length (render_atom (Group bs)))"
      unfolding render_group by (simp add: atom_end_at_def)
  qed
qed (use special [of "CHR ''(''"] in \<open>auto intro!: span_ok_plain\<close>)

lemma atom_end_at_at:
  "wf_atom a \<Longrightarrow> occurs p s (render_atom a) \<Longrightarrow> s + length (render_atom a) \<le> e \<Longrightarrow>
   atom_end_at p s e = Some (s + length (render_atom a))"
  using wf_span_ok(1) by (auto simp: span_ok_def)

lemma wf_expr_accepted: "wf_expr bs \<Longrightarrow> occurs p s (render_expr bs) \<Longrightarrow> validate_expr p s (s + length (render_expr bs))"
  using wf_span_ok(2) by (intro expr_accepted) (auto simp: wf_expr_def)

section \<open>Accepted patterns are written trees\<close>

definition pat_slice :: "bytes \<Rightarrow> nat \<Rightarrow> nat \<Rightarrow> bytes" where
  "pat_slice p s e = take (e - s) (drop s p)"

lemma pat_slice_append: "s \<le> m \<Longrightarrow> m \<le> e \<Longrightarrow> pat_slice p s e = pat_slice p s m @ pat_slice p m e"
proof -
  assume "s \<le> m" "m \<le> e"
  then have "e - s = (m - s) + (e - m)" "m - s + s = m" by simp_all
  then show ?thesis unfolding pat_slice_def by (simp only: take_add drop_drop)
qed

lemma pat_slice_Cons: "s < e \<Longrightarrow> e \<le> length p \<Longrightarrow> pat_slice p s e = pat_at p s # pat_slice p (Suc s) e"
  by (simp add: pat_slice_def pat_at_def Cons_nth_drop_Suc [symmetric] take_Cons')

lemma pat_slice_empty [simp]: "e \<le> s \<Longrightarrow> pat_slice p s e = []"
  by (simp add: pat_slice_def)

lemma pat_slice_length: "s \<le> e \<Longrightarrow> e \<le> length p \<Longrightarrow> length (pat_slice p s e) = e - s"
  by (simp add: pat_slice_def)

lemma pat_slice_one: "s < length p \<Longrightarrow> pat_slice p s (Suc s) = [pat_at p s]"
  using pat_slice_Cons [of s "Suc s" p] by simp

lemma class_end_ok:
  "class_end_loop p i e = Some c \<Longrightarrow> e \<le> length p \<Longrightarrow> class_ok (pat_slice p i c)"
proof (induction "e - i" arbitrary: i rule: less_induct)
  case less
  note b = class_end_bounds [OF less.prems(1)]
  show ?case
  proof (cases "pat_at p i = CHR 0x5C")
    case True
    then have r: "class_end_loop p (i + 2) e = Some c" "i + 1 < e"
      using less.prems(1) b by (subst (asm) class_end_loop.simps; simp split: if_splits)+
    have "class_ok (pat_slice p (i + 2) c)" using less.hyps [OF _ r(1) less.prems(2)] r(2) by simp
    moreover have "pat_slice p i c = pat_at p i # pat_at p (i + 1) # pat_slice p (i + 2) c"
      using class_end_bounds [OF r(1)] less.prems(2) by (simp add: pat_slice_Cons)
    ultimately show ?thesis using True by simp
  next
    case False
    show ?thesis
    proof (cases "i = c")
      case ic: False
      have "pat_at p i \<noteq> CHR '']''" using less.prems(1) b False ic by (subst (asm) class_end_loop.simps) auto
      moreover have r: "class_end_loop p (i + 1) e = Some c"
        using less.prems(1) b False calculation by (subst (asm) class_end_loop.simps) auto
      have "class_ok (pat_slice p (i + 1) c)" using less.hyps [OF _ r less.prems(2)] b by (simp add: diff_less_mono2)
      moreover have "pat_slice p i c = pat_at p i # pat_slice p (i + 1) c" using b ic less.prems(2) by (simp add: pat_slice_Cons)
      ultimately show ?thesis using False by (cases "pat_slice p (i + 1) c") auto
    qed simp
  qed
qed

lemma find_class_ok:
  assumes "find_char_class_end p s e = Some c" "e \<le> length p"
  shows "class_ok (pat_slice p (s + 1) c)"
proof (cases "s + 1 < e \<and> pat_at p (s + 1) = CHR ''^''")
  case True
  then have r: "class_end_loop p (s + 2) e = Some c" using assms(1) by (simp add: find_char_class_end_def)
  have "pat_slice p (s + 1) c = pat_at p (s + 1) # pat_slice p (s + 2) c"
    using class_end_bounds [OF r] assms(2) by (simp add: pat_slice_Cons)
  with class_end_ok [OF r assms(2)] True show ?thesis by (cases "pat_slice p (s + 2) c") auto
next
  case False
  have "class_end_loop p (s + 1) e = Some c" using assms(1) unfolding find_char_class_end_def if_not_P [OF False] .
  then show ?thesis using assms(2) by (rule class_end_ok)
qed

lemma accepted_atom:
  assumes a: "atom_span p s e = Some a" and e: "e \<le> length p"
    and g: "pat_at p s = CHR ''('' \<Longrightarrow> \<exists>bs. wf_expr bs \<and> render_expr bs = pat_slice p (s + 1) (a - 1)"
  shows "\<exists>x. wf_atom x \<and> render_atom x = pat_slice p s a"
proof -
  note b = atom_span_bounds [OF a]
  consider "pat_at p s = CHR ''[''" | "pat_at p s = CHR ''(''" | "pat_at p s = CHR 0x5C" | "pat_at p s \<notin> SPECIAL"
    using a by (auto simp: atom_span_def SPECIAL_def isquantifier_def split: if_splits)
  then show ?thesis
  proof cases
    case 1
    with a obtain c where c: "find_char_class_end p s e = Some c" "a = c + 1" "c - s < 40"
      by (auto simp: atom_span_def split: if_splits option.splits)
    note k = find_char_class_end_bounds [OF c(1)]
    have "pat_slice p s a = CHR ''['' # pat_slice p (s + 1) c @ [CHR '']'']"
      using k b e c(2) 1 pat_slice_Cons [of s a p] pat_slice_append [of "s + 1" c a p] pat_slice_one [of c p] by simp
    moreover have "wf_atom (Class (pat_slice p (s + 1) c))"
      using find_class_ok [OF c(1) e] k c(3) e pat_slice_length [of "s + 1" c p] by simp
    ultimately show ?thesis by (metis render_atom.simps(3))
  next
    case 2
    with g obtain bs where bs: "wf_expr bs" "render_expr bs = pat_slice p (s + 1) (a - 1)" by blast
    note k = find_group_end_bounds [OF atom_span_group [OF a 2]]
    have "pat_slice p s a = CHR ''('' # pat_slice p (s + 1) (a - 1) @ [CHR '')'']"
      using k b e 2 pat_slice_Cons [of s a p] pat_slice_append [of "s + 1" "a - 1" a p] pat_slice_one [of "a - 1" p] by simp
    moreover have "wf_atom (Group bs)" using bs(1) by (simp add: wf_expr_def)
    ultimately show ?thesis using bs(2) by (metis render_group)
  next
    case 3
    then have "a = s + 2" using a by (simp add: atom_span_def split: if_splits)
    then have "pat_slice p s a = [CHR 0x5C, pat_at p (s + 1)]"
      using b e 3 pat_slice_Cons [of s a p] pat_slice_one [of "s + 1" p] by simp
    then show ?thesis by (metis render_atom.simps(2) wf_atom.simps(2))
  next
    case 4
    then have "a = s + 1" using a special [OF 4] by (simp add: atom_span_def split: if_splits)
    then have "pat_slice p s a = [pat_at p s]" using b e pat_slice_one [of s p] by simp
    then show ?thesis using 4 by (metis render_atom.simps(1) wf_atom.simps(1))
  qed
qed

lemma validated_trees:
  "validate_expr p s e \<Longrightarrow> s \<le> e \<Longrightarrow> e \<le> length p \<Longrightarrow> \<exists>bs. wf_expr bs \<and> render_expr bs = pat_slice p s e"
  "validate_sequence p s e \<Longrightarrow> s \<le> e \<Longrightarrow> e \<le> length p \<Longrightarrow> \<exists>b. (\<forall>x\<in>set b. wf_item x) \<and> render_branch b = pat_slice p s e"
proof (induction p s e and p s e rule: validate_expr_validate_sequence.induct)
  case (1 p s e)
  from 1(3,4) obtain b where b: "find_branch_end p s e = Some b" "validate_sequence p s b" "b = e \<or> validate_expr p (b + 1) e"
    by (subst (asm) validate_expr.simps) (auto split: option.splits if_splits)
  note k = find_branch_end_bounds [OF b(1)]
  obtain x where x: "\<forall>y\<in>set x. wf_item y" "render_branch x = pat_slice p s b"
    using 1(1) [OF _ b(1)] b(2) k 1(4,5) by auto
  show ?case
  proof (cases "b = e")
    case True
    then show ?thesis using x by (intro exI [of _ "[x]"]) (simp add: wf_expr_def render_expr_Cons)
  next
    case False
    then obtain bs where bs: "wf_expr bs" "render_expr bs = pat_slice p (b + 1) e"
      using 1(2) [OF _ b(1)] b(2,3) k 1(4,5) by auto
    have "pat_slice p s e = pat_slice p s b @ CHR ''|'' # pat_slice p (b + 1) e"
      using k False 1(4,5) pat_slice_append [of s b e p] pat_slice_Cons [of b e p] by auto
    then show ?thesis using x bs render_expr_Cons2 [of bs x]
      by (intro exI [of _ "x # bs"]) (auto simp: wf_expr_def)
  qed
next
  case (2 p i e)
  show ?case
  proof (cases "e \<le> i")
    case True
    then show ?thesis by (intro exI [of _ "[]"]) simp
  next
    case False
    with 2(4) obtain a where a: "atom_span p i e = Some a" "pat_at p i \<noteq> CHR ''('' \<or> validate_expr p (i + 1) (a - 1)"
      and r: "if a < e \<and> isquantifier (pat_at p a)
              then pat_at p i \<noteq> CHR ''^'' \<and> pat_at p i \<noteq> CHR ''$'' \<and> validate_sequence p (a + 1) e
              else validate_sequence p a e"
      by (subst (asm) validate_sequence.simps) (auto split: option.splits if_splits)
    note k = atom_span_bounds [OF a(1)]
    obtain x where x: "wf_atom x" "render_atom x = pat_slice p i a"
    proof -
      have "\<exists>bs. wf_expr bs \<and> render_expr bs = pat_slice p (i + 1) (a - 1)" if "pat_at p i = CHR ''(''"
        using 2(1) [OF False a(1)] a(2) that find_group_end_bounds [OF atom_span_group [OF a(1) that]] 2(6) by auto
      then show thesis using accepted_atom [OF a(1) 2(6)] that by blast
    qed
    have hd_x: "hd (render_atom x) = pat_at p i" using x(2) k 2(6) pat_slice_Cons [of i a p] by simp
    show ?thesis
    proof (cases "a < e \<and> isquantifier (pat_at p a)")
      case q: True
      then obtain b where b: "\<forall>y\<in>set b. wf_item y" "render_branch b = pat_slice p (a + 1) e"
        using 2(2) [OF False a(1)] a(2) r 2(6) by auto
      have "pat_slice p i e = pat_slice p i a @ pat_at p a # pat_slice p (a + 1) e"
        using k q 2(6) pat_slice_append [of i a e p] pat_slice_Cons [of a e p] by auto
      moreover have "wf_item (Item x (Some (pat_at p a)))" using x(1) r q hd_x by auto
      ultimately show ?thesis using x b by (intro exI [of _ "Item x (Some (pat_at p a)) # b"]) auto
    next
      case q: False
      then obtain b where b: "\<forall>y\<in>set b. wf_item y" "render_branch b = pat_slice p a e"
        using 2(3) [OF False a(1)] a(2) r k 2(6) by auto
      then show ?thesis using x k pat_slice_append [of i a e p] by (intro exI [of _ "Item x None # b"]) auto
    qed
  qed
qed

section \<open>A pattern is written by one tree only\<close>

definition unique :: "atom \<Rightarrow> bool" where
  "unique a \<longleftrightarrow> (\<forall>a'. wf_atom a \<longrightarrow> wf_atom a' \<longrightarrow> render_atom a = render_atom a' \<longrightarrow> a = a')"

lemma occurs_whole: "occurs p 0 p"
  by (simp add: occurs_def)

lemma item_unique:
  assumes wf: "\<forall>y\<in>set (Item a q # b). wf_item y" "\<forall>y\<in>set (Item a' q' # b'). wf_item y"
    and eq: "render_branch (Item a q # b) = render_branch (Item a' q' # b')" and u: "unique a"
  shows "a = a' \<and> q = q' \<and> render_branch b = render_branch b'"
proof -
  let ?p = "render_branch (Item a q # b)"
  note l = item_split [OF wf(1) occurs_whole refl] and r = item_split [OF wf(2) occurs_whole [of ?p, unfolded eq] refl]
  have "atom_span ?p 0 (length ?p) = Some (length (render_atom a))"
    using atom_span_at [of a ?p 0 "length ?p"] wf(1) l(2,3) by simp
  moreover have "atom_span ?p 0 (length ?p) = Some (length (render_atom a'))"
    using atom_span_at [of a' ?p 0 "length ?p"] wf(2) r(2,3) unfolding eq by simp
  ultimately have len: "length (render_atom a) = length (render_atom a')" by simp
  then have "render_atom a = render_atom a'" using eq by simp
  then have a: "a = a'" using u wf by (simp add: unique_def)
  have "q = q'" using l(4) r(4) l(5) r(5) len eq by (cases q; cases q') auto
  with a eq show ?thesis by simp
qed

lemma branch_unique:
  "\<forall>x\<in>set b. wf_item x \<and> unique (item_atom x) \<Longrightarrow> \<forall>x\<in>set b'. wf_item x \<Longrightarrow> render_branch b = render_branch b' \<Longrightarrow> b = b'"
proof (induction b arbitrary: b')
  case Nil
  then show ?case using render_nonempty by (cases b') (auto elim: render_item.elims)
next
  case (Cons x b)
  obtain a q where x: "x = Item a q" by (cases x)
  obtain x' c' where b': "b' = x' # c'" using Cons.prems(3) x render_nonempty [of a] by (cases b') auto
  obtain a' q' where x': "x' = Item a' q'" by (cases x')
  have "a = a' \<and> q = q' \<and> render_branch b = render_branch c'"
    using Cons.prems x x' b' by (intro item_unique) auto
  then show ?case using Cons.IH [of c'] Cons.prems x x' b' by auto
qed

lemma expr_unique:
  assumes "\<forall>b\<in>set bs. \<forall>x\<in>set b. unique (item_atom x)" "wf_expr bs" "wf_expr bs'" "render_expr bs = render_expr bs'"
  shows "bs = bs'"
  using assms
proof (induction bs arbitrary: bs')
  case (Cons b bs)
  obtain b' cs where bs': "bs' = b' # cs" using Cons.prems(3) by (cases bs') (auto simp: wf_expr_def)
  let ?p = "render_expr (b # bs)"
  have wf: "\<forall>x\<in>set b. wf_item x" "\<forall>x\<in>set b'. wf_item x" using Cons.prems bs' by (auto simp: wf_expr_def)
  have at: "find_branch_end (render_expr (c # ds)) 0 (length (render_expr (c # ds))) = Some (length (render_branch c))"
    if "\<forall>x\<in>set c. wf_item x" for c ds
  proof (cases "ds = []")
    case True
    then show ?thesis using find_branch_end_at(1) [OF that, of "render_branch c" 0] occurs_whole by (simp add: render_expr_Cons)
  next
    case False
    note r = render_expr_Cons2 [OF False, of c]
    show ?thesis using find_branch_end_at(2) [OF that, of "render_expr (c # ds)" 0 "length (render_expr (c # ds))"]
      occurs_whole [of "render_expr (c # ds)"] by (simp add: r)
  qed
  have "length (render_branch b) = length (render_branch b')" using at [OF wf(1), of bs] at [OF wf(2), of cs] Cons.prems(4) bs' by simp
  then have "render_branch b = render_branch b'" and rest: "concat (map (\<lambda>b. CHR ''|'' # render_branch b) bs) = concat (map (\<lambda>b. CHR ''|'' # render_branch b) cs)"
    using Cons.prems(4) bs' by (auto simp: render_expr_Cons)
  then have "b = b'" using branch_unique [of b b'] Cons.prems wf by auto
  moreover have "bs = cs"
  proof (cases "bs = [] \<or> cs = []")
    case True
    then show ?thesis using rest by (cases bs; cases cs) auto
  next
    case False
    then show ?thesis using Cons.IH [of cs] Cons.prems bs' rest by (auto simp: wf_expr_def render_expr_def)
  qed
  ultimately show ?case using bs' by simp
qed (simp add: wf_expr_def)

lemma all_unique: "unique a" "unique (item_atom x)"
proof (induction a and x)
  case (Group bs)
  show ?case unfolding unique_def
  proof (intro allI impI)
    fix a' assume a: "wf_atom (Group bs)" "wf_atom a'" "render_atom (Group bs) = render_atom a'"
    then obtain cs where cs: "a' = Group cs" using special [of "CHR ''(''"] by (cases a') (auto simp: render_group)
    then have "bs = cs" using a Group by (intro expr_unique) (auto simp: render_expr_def render_branch_def wf_expr_def)
    then show "Group bs = a'" using cs by simp
  qed
next
  case (Single c)
  show ?case unfolding unique_def
  proof (intro allI impI)
    fix a' assume "wf_atom (Single c)" "render_atom (Single c) = render_atom a'"
    then show "Single c = a'" using special [of c] by (cases a') auto
  qed
next
  case (Escape c)
  show ?case unfolding unique_def
  proof (intro allI impI)
    fix a' assume "wf_atom a'" "render_atom (Escape c) = render_atom a'"
    then show "Escape c = a'" using special [of "CHR 0x5C"] by (cases a') auto
  qed
next
  case (Class b)
  show ?case unfolding unique_def
  proof (intro allI impI)
    fix a' assume "wf_atom a'" "render_atom (Class b) = render_atom a'"
    then show "Class b = a'" using special [of "CHR ''[''"] by (cases a') auto
  qed
qed auto

text \<open>
  C24: the patterns that are accepted.  A pattern compiles exactly when it has less than 256 bytes and is
  written by a tree of the grammar: branches of atoms with optional quantifiers, where an atom is a
  character, an escape, a class of at most 38 bytes between its brackets or a group, and anchors have no
  quantifier.  The tree is unique.
\<close>

theorem accepted_patterns:
  "fst (re_compile buf (Some p)) \<longleftrightarrow> length p < 256 \<and> (\<exists>!bs. wf_expr bs \<and> render_expr bs = p)"
proof -
  have "validate_expr p 0 (length p)" if "wf_expr bs" "render_expr bs = p" for bs
    using wf_expr_accepted [OF that(1), of p 0] that(2) occurs_whole by simp
  moreover have "\<exists>bs. wf_expr bs \<and> render_expr bs = p" if "validate_expr p 0 (length p)"
    using validated_trees(1) [OF that] by (simp add: pat_slice_def)
  moreover have "bs = cs" if "wf_expr bs" "wf_expr cs" "render_expr bs = render_expr cs" for bs cs
    using expr_unique [OF _ that] all_unique(2) by blast
  ultimately show ?thesis by (auto simp: re_compile_def)
qed

section \<open>The matcher on a tree\<close>

lemma match_once_char:
  assumes "wf_atom a" "occurs p s (render_atom a)" "\<And>bs. a \<noteq> Group bs" "a \<noteq> Single CHR ''^''" "a \<noteq> Single CHR ''$''"
  shows "match_atom_once room t p s (s + length (render_atom a)) i =
    (if i < length t \<and> one_char a (t ! i) then Some (i + 1) else None)"
proof (cases a)
  case (Single c)
  then show ?thesis using assms special [of c] by (subst match_atom_once.simps) (auto simp: matchdot_def)
next
  case (Escape c)
  then show ?thesis using assms by (subst match_atom_once.simps) auto
next
  case (Class b)
  have c: "find_char_class_end p s (s + length (render_atom a)) = Some (s + length b + 1)"
    using assms(1,2) Class by (intro find_class_end) auto
  have "occurs p (Suc s) b" using assms(2) Class by simp
  then have b: "take (length b) (drop (Suc s) p) = b" by (simp add: occurs_def)
  show ?thesis
  proof (cases "b \<noteq> [] \<and> hd b = CHR ''^''")
    case True
    then obtain d where d: "b = CHR ''^'' # d" by (cases b) auto
    have "occurs p (Suc (Suc s)) d" using assms(2) Class d by simp
    then have "take (length d) (drop (Suc (Suc s)) p) = d" by (simp add: occurs_def)
    then show ?thesis using assms(2) Class c d by (subst match_atom_once.simps) auto
  next
    case False
    then have "\<not> (s + 1 < s + length b + 1 \<and> pat_at p (s + 1) = CHR ''^'')"
      using assms(2) Class by (cases b) auto
    then show ?thesis using assms(2) Class c b False by (subst match_atom_once.simps) (auto simp: Let_def)
  qed
qed (use assms in simp)

lemma match_once_anchor:
  "occurs p s [CHR ''^''] \<Longrightarrow> match_atom_once room t p s e i = (if i = 0 then Some i else None)"
  "occurs p s [CHR ''$''] \<Longrightarrow> match_atom_once room t p s e i = (if i = length t then Some i else None)"
  by (subst match_atom_once.simps; simp)+

lemma match_once_group:
  assumes "wf_expr bs" "occurs p s (render_atom (Group bs))"
  shows "match_atom_once room t p s (s + length (render_atom (Group bs))) i =
    match_expr room t p (s + 1) (s + 1 + length (render_expr bs)) i"
proof -
  have "find_group_end p s (s + length (render_atom (Group bs))) = Some (s + 1 + length (render_expr bs))"
    using find_group_end_at [OF assms order_refl] by simp
  moreover have "pat_at p s = CHR ''(''" using assms(2) unfolding render_group by simp
  ultimately show ?thesis by (subst match_atom_once.simps) simp
qed

lemma match_sequence_item:
  fixes room :: "nat \<Rightarrow> bool" and t :: bytes
  assumes wf: "\<forall>y\<in>set (Item a q # b). wf_item y" and o: "occurs p s (render_branch (Item a q # b))"
    and e: "e = s + length (render_branch (Item a q # b))"
  defines "once \<equiv> match_atom_once room t p s (s + length (render_atom a))"
    and "rest \<equiv> match_sequence room t p (s + length (render_item (Item a q))) e"
  shows "match_sequence room t p s e i =
    (case q of
       None \<Rightarrow> (case once i of None \<Rightarrow> None | Some n \<Rightarrow> rest n)
     | Some c \<Rightarrow>
         if c = CHR ''?'' then (case rest i of Some j \<Rightarrow> Some j | None \<Rightarrow> (case once i of None \<Rightarrow> None | Some n \<Rightarrow> rest n))
         else if \<not> room (length t - i + 1) then None
         else try_positions room t p (s + length (render_item (Item a q))) e
                (rev (drop (if c = CHR ''+'' then 1 else 0)
                   (i # repeat_atom room t p s (s + length (render_atom a)) i (length t - i)))))"
proof -
  note sp = item_split [OF wf o e]
  have "atom_end_at p s e = Some (s + length (render_atom a))" using wf sp(2,3) by (intro atom_end_at_at) auto
  then show ?thesis
    using sp(1,4,5) unfolding once_def rest_def
    by (subst match_sequence.simps) (cases q, auto simp del: drop_Cons' split: option.splits)
qed

lemma match_expr_Cons:
  assumes wf: "wf_expr (b # bs)" and o: "occurs p s (render_expr (b # bs))"
    and e: "e = s + length (render_expr (b # bs))"
  shows "match_expr room t p s e i =
    (case match_sequence room t p s (s + length (render_branch b)) i of
       Some j \<Rightarrow> Some j
     | None \<Rightarrow> if bs = [] then None else match_expr room t p (s + length (render_branch b) + 1) e i)"
proof -
  have b: "\<forall>x\<in>set b. wf_item x" "occurs p s (render_branch b)"
    using wf o by (auto simp: wf_expr_def render_expr_Cons)
  show ?thesis
  proof (cases "bs = []")
    case True
    then show ?thesis using find_branch_end_at(1) [OF b] e by (subst match_expr.simps) (simp add: render_expr_Cons)
  next
    case False
    note r = render_expr_Cons2 [OF False]
    have "find_branch_end p s e = Some (s + length (render_branch b))"
      using o e by (intro find_branch_end_at(2) b) (auto simp: r)
    then show ?thesis using e False by (subst match_expr.simps) (auto simp: r split: option.split)
  qed
qed

section \<open>Reported matches are matches\<close>

lemma den_simps [simp]:
  "den_branch t [] = Id" "den_branch t (x # b) = den_item t x O den_branch t b"
  "den_expr t [] = {}" "den_expr t (b # bs) = den_branch t b \<union> den_expr t bs"
  by (simp_all add: den_branch_def den_expr_def)

lemma den_group: "den_atom t (Group bs) = den_expr t bs"
  by (simp add: den_expr_def den_branch_def)

declare den_atom.simps(4) [simp del]

definition sound :: "bytes \<Rightarrow> atom \<Rightarrow> bool" where
  "sound t a \<longleftrightarrow> (\<forall>room p s i j. occurs p s (render_atom a) \<longrightarrow>
     match_atom_once room t p s (s + length (render_atom a)) i = Some j \<longrightarrow> (i, j) \<in> den_atom t a)"

lemma repeat_sound:
  assumes "sound t a" "occurs p s (render_atom a)"
  shows "j \<in> set (repeat_atom room t p s (s + length (render_atom a)) i n) \<Longrightarrow> (i, j) \<in> (den_atom t a)\<^sup>+"
proof (induction n arbitrary: i)
  case 0
  then show ?case by (simp add: repeat_atom.simps)
next
  case (Suc n)
  note u = repeat_atom.simps [of room t p s "s + length (render_atom a)" i "Suc n"]
  show ?case
  proof (cases "match_atom_once room t p s (s + length (render_atom a)) i")
    case None
    then show ?thesis using Suc.prems by (simp add: u)
  next
    case (Some k)
    then have "(i, k) \<in> den_atom t a" using assms by (simp add: sound_def)
    then show ?thesis using Suc.prems Some Suc.IH [of k] by (auto simp: u split: if_splits intro: trancl_into_trancl2)
  qed
qed

lemma try_sound: "try_positions room t p s e xs = Some j \<Longrightarrow> \<exists>x\<in>set xs. match_sequence room t p s e x = Some j"
  by (induction xs) (auto split: option.splits)

lemma branch_sound:
  "\<forall>x\<in>set b. wf_item x \<and> sound t (item_atom x) \<Longrightarrow> occurs p s (render_branch b) \<Longrightarrow>
   match_sequence room t p s (s + length (render_branch b)) i = Some j \<Longrightarrow> (i, j) \<in> den_branch t b"
proof (induction b arbitrary: s i)
  case Nil
  then show ?case by (simp add: match_sequence.simps)
next
  case (Cons x b)
  obtain a q where x: "x = Item a q" by (cases x)
  have wf: "\<forall>y\<in>set (Item a q # b). wf_item y" using Cons.prems(1) x by auto
  note o = Cons.prems(2) [unfolded x]
  note sp = item_split [OF wf o refl]
  let ?once = "match_atom_once room t p s (s + length (render_atom a))"
  let ?e = "s + length (render_branch (x # b))" and ?r = "s + length (render_item x)"
  have a: "sound t a" using Cons.prems(1) x by auto
  have once: "?once i = Some n \<Longrightarrow> (i, n) \<in> den_atom t a" for n using a sp(3) by (simp add: sound_def)
  have rest: "match_sequence room t p ?r ?e n = Some j \<Longrightarrow> (n, j) \<in> den_branch t b" for n
    using Cons.IH [of ?r n] Cons.prems(1) sp(6) x by (simp add: add.assoc)
  note m = Cons.prems(3) [unfolded x match_sequence_item [OF wf o refl]]
  show ?case
  proof (cases q)
    case None
    then show ?thesis using m once rest x by (auto split: option.splits)
  next
    case (Some c)
    show ?thesis
    proof (cases "c = CHR ''?''")
      case True
      then show ?thesis using m Some once rest x by (fastforce split: option.splits)
    next
      case False
      then obtain k where k: "match_sequence room t p ?r ?e k = Some j"
          "k \<in> set (drop (if c = CHR ''+'' then 1 else 0) (i # repeat_atom room t p s (s + length (render_atom a)) i (length t - i)))"
        using m Some x by (auto split: if_splits dest!: try_sound)
      then have "(i, k) \<in> den_item t x"
        using repeat_sound [OF a sp(3), of k room i "length t - i"] Some x False
        by (auto split: if_splits intro: trancl_into_rtrancl)
      then show ?thesis using rest [OF k(1)] by auto
    qed
  qed
qed

lemma expr_sound:
  "wf_expr bs \<Longrightarrow> \<forall>b\<in>set bs. \<forall>x\<in>set b. sound t (item_atom x) \<Longrightarrow> occurs p s (render_expr bs) \<Longrightarrow>
   match_expr room t p s (s + length (render_expr bs)) i = Some j \<Longrightarrow> (i, j) \<in> den_expr t bs"
proof (induction bs arbitrary: s)
  case (Cons b bs)
  have wf: "\<forall>x\<in>set b. wf_item x \<and> sound t (item_atom x)" and o: "occurs p s (render_branch b)"
    using Cons.prems by (auto simp: wf_expr_def render_expr_Cons)
  let ?e = "s + length (render_expr (b # bs))" and ?b = "s + length (render_branch b)"
  show ?case
  proof (cases "match_sequence room t p s ?b i")
    case (Some k)
    then show ?thesis
      using Cons.prems(4) branch_sound [OF wf o, of room i k] by (simp add: match_expr_Cons [OF Cons.prems(1,3) refl])
  next
    case None
    then have bs: "bs \<noteq> []" "match_expr room t p (?b + 1) ?e i = Some j"
      using Cons.prems(4) by (auto simp: match_expr_Cons [OF Cons.prems(1,3) refl] split: if_splits)
    note r = render_expr_Cons2 [OF bs(1), of b]
    have "(i, j) \<in> den_expr t bs"
      using Cons.IH [of "?b + 1"] Cons.prems(1-3) bs by (simp add: r wf_expr_def add.assoc)
    then show ?thesis by simp
  qed
qed (simp add: wf_expr_def)

lemma den_char:
  "(\<And>bs. a \<noteq> Group bs) \<Longrightarrow> a \<noteq> Single CHR ''^'' \<Longrightarrow> a \<noteq> Single CHR ''$'' \<Longrightarrow> den_atom t a = steps t (one_char a)"
  by (cases a) auto

lemma sound_char:
  "wf_atom a \<Longrightarrow> (\<And>bs. a \<noteq> Group bs) \<Longrightarrow> a \<noteq> Single CHR ''^'' \<Longrightarrow> a \<noteq> Single CHR ''$'' \<Longrightarrow> sound t a"
  by (auto simp: sound_def match_once_char den_char steps_def split: if_splits)

lemma all_sound: "wf_atom a \<Longrightarrow> sound t a" "wf_item x \<Longrightarrow> sound t (item_atom x)"
proof (induction a and x)
  case (Single c)
  show ?case
  proof (cases "c = CHR ''^'' \<or> c = CHR ''$''")
    case True
    then show ?thesis by (auto simp: sound_def match_once_anchor split: if_splits)
  next
    case False
    then show ?thesis using Single by (intro sound_char) auto
  qed
next
  case (Group bs)
  then have wf: "wf_expr bs" "\<forall>b\<in>set bs. \<forall>x\<in>set b. sound t (item_atom x)" by (auto simp: wf_expr_def)
  show ?case unfolding sound_def den_group
  proof (intro allI impI)
    fix room p s i j
    assume o: "occurs p s (render_atom (Group bs))"
      and m: "match_atom_once room t p s (s + length (render_atom (Group bs))) i = Some j"
    have "occurs p (s + 1) (render_expr bs)" using o unfolding render_group by simp
    then show "(i, j) \<in> den_expr t bs" using m expr_sound [OF wf, of p "s + 1"] by (simp only: match_once_group [OF wf(1) o])
  qed
qed (auto intro: sound_char)

lemma wf_expr_sound:
  "wf_expr bs \<Longrightarrow> match_expr room t (render_expr bs) 0 (length (render_expr bs)) i = Some j \<Longrightarrow> (i, j) \<in> den_expr t bs"
  using expr_sound [of bs t "render_expr bs" 0 room i j] all_sound(2) occurs_whole by (auto simp: wf_expr_def)

text \<open>Matches stay inside the text.\<close>

definition inside :: "bytes \<Rightarrow> (nat \<times> nat) set" where
  "inside t = {(i, j). i \<le> length t \<longrightarrow> i \<le> j \<and> j \<le> length t}"

lemma inside_closed:
  "Id \<subseteq> inside t" "R \<subseteq> inside t \<Longrightarrow> S \<subseteq> inside t \<Longrightarrow> R O S \<subseteq> inside t"
  "R \<subseteq> inside t \<Longrightarrow> R\<^sup>* \<subseteq> inside t" "R \<subseteq> inside t \<Longrightarrow> R\<^sup>+ \<subseteq> inside t"
proof -
  show "Id \<subseteq> inside t" by (auto simp: inside_def)
  show "R O S \<subseteq> inside t" if "R \<subseteq> inside t" "S \<subseteq> inside t" using that by (fastforce simp: inside_def)
  have star: "(i, j) \<in> R\<^sup>* \<Longrightarrow> (i, j) \<in> inside t" if "R \<subseteq> inside t" for i j
    by (induction rule: rtrancl_induct) (use that in \<open>fastforce simp: inside_def\<close>)+
  show "R\<^sup>* \<subseteq> inside t" if "R \<subseteq> inside t" using star that by auto
  show "R\<^sup>+ \<subseteq> inside t" if "R \<subseteq> inside t" using star that trancl_into_rtrancl by fastforce
qed

lemma branch_inside: "(\<And>x. x \<in> set b \<Longrightarrow> den_item t x \<subseteq> inside t) \<Longrightarrow> den_branch t b \<subseteq> inside t"
  by (induction b) (simp_all add: inside_closed(1,2))

lemma den_inside: "den_atom t a \<subseteq> inside t" "den_item t x \<subseteq> inside t"
proof (induction a and x)
  case (Group bs)
  then show ?case unfolding den_group den_expr_def by (intro UN_least branch_inside) auto
next
  case (Item a q)
  then show ?case using inside_closed(1) [of t] inside_closed(3,4) [OF Item] by (auto split: option.splits)
qed (auto simp: inside_def steps_def)

lemma expr_inside: "(i, j) \<in> den_expr t bs \<Longrightarrow> i \<le> length t \<Longrightarrow> i \<le> j \<and> j \<le> length t"
  using branch_inside [OF den_inside(2)] by (fastforce simp: den_expr_def inside_def)

text \<open>The search reports the first place at which the matcher succeeds.\<close>

lemma search_Some:
  "search_loop room p t k = Some (i, n) \<Longrightarrow>
   k \<le> i \<and> i < length t \<and> (\<exists>j. match_expr room t p 0 (length p) i = Some j \<and> n = j - i) \<and>
   (\<forall>m. k \<le> m \<and> m < i \<longrightarrow> match_expr room t p 0 (length p) m = None)"
proof (induction room p t k rule: search_loop.induct)
  case (1 room p t k)
  note u = search_loop.simps [of room p t k]
  show ?case
  proof (cases "match_expr room t p 0 (length p) k")
    case None
    then have "search_loop room p t (k + 1) = Some (i, n)" "\<not> length t < k" "pat_at p 0 \<noteq> CHR ''^''"
      using 1(2) by (auto simp: u split: if_splits)
    with 1(1) None show ?thesis by (metis Suc_eq_plus1 Suc_leD Suc_leI le_neq_implies_less)
  next
    case (Some j)
    then show ?thesis using 1(2) by (auto simp: u split: if_splits)
  qed
qed

lemma search_None:
  "search_loop room p t k = None \<Longrightarrow> pat_at p 0 \<noteq> CHR ''^'' \<Longrightarrow> k \<le> m \<Longrightarrow> m < length t \<Longrightarrow>
   match_expr room t p 0 (length p) m = None"
proof (induction room p t k rule: search_loop.induct)
  case (1 room p t k)
  note u = search_loop.simps [of room p t k]
  have k: "match_expr room t p 0 (length p) k = None"
    using 1(2,4,5) by (auto simp: u split: option.splits if_splits)
  then show ?case using 1 by (cases "m = k") (auto simp: u)
qed

lemma matchp_sound:
  assumes "fst (re_compile buf (Some p))" "re_matchp room True p (Some t) = Some (i, n)"
  shows "\<exists>bs. wf_expr bs \<and> render_expr bs = p \<and> (i, i + n) \<in> den_expr t bs \<and> i < length t \<and> i + n \<le> length t"
proof -
  from assms(2) have s: "search_loop room p t 0 = Some (i, n)" by (simp add: re_matchp_def)
  from assms(1) obtain bs where bs: "wf_expr bs" "render_expr bs = p"
    using validated_trees(1) [of p 0 "length p"] by (auto simp: re_compile_def pat_slice_def split: if_splits)
  from search_Some [OF s] obtain j where j: "match_expr room t p 0 (length p) i = Some j" "n = j - i" "i < length t" by blast
  have "(i, j) \<in> den_expr t bs" using wf_expr_sound [OF bs(1)] bs(2) j(1) by blast
  with expr_inside [of i j t bs] j bs show ?thesis by auto
qed

text \<open>
  C25: a reported match is a match.  When a pattern is searched in a text and a place and a length are
  reported, the pattern is written by a tree whose meaning relates that place to its end, the place lies
  before the end of the text, and the match ends inside the text.
\<close>

theorem reported_match:
  assumes "re_match room buf (Some p) (Some t) = (Some (i, n), buf')"
  shows "\<exists>bs. wf_expr bs \<and> render_expr bs = p \<and> (i, i + n) \<in> den_expr t bs \<and> i < length t \<and> i + n \<le> length t"
proof -
  from assms have "fst (re_compile buf (Some p))" "re_matchp room True p (Some t) = Some (i, n)"
    by (auto simp: re_match_def re_matchp_def re_compile_def split: if_splits)
  then show ?thesis by (rule matchp_sound)
qed

theorem reported_match_witness:
  "re_match (\<lambda>n. True) [] (Some ''b+'') (Some ''abbc'') = (Some (1, 2), ''b+'') \<and>
   (\<exists>bs. wf_expr bs \<and> render_expr bs = ''b+'' \<and> (1, 1 + 2) \<in> den_expr ''abbc'' bs \<and> 1 < length ''abbc'' \<and> 1 + 2 \<le> length ''abbc'')"
proof -
  have "re_match (\<lambda>n. True) [] (Some ''b+'') (Some ''abbc'') = (Some (1, 2), ''b+'')" by code_simp
  with reported_match [OF this] show ?thesis by blast
qed

section \<open>Patterns without groups\<close>

definition flat :: "item list list \<Rightarrow> bool" where
  "flat bs \<longleftrightarrow> (\<forall>b\<in>set bs. \<forall>x\<in>set b. \<forall>g. item_atom x \<noteq> Group g)"

lemma once_complete:
  assumes "wf_atom a" "\<And>g. a \<noteq> Group g" "occurs p s (render_atom a)" "(i, n) \<in> den_atom t a"
  shows "match_atom_once room t p s (s + length (render_atom a)) i = Some n"
proof (cases "a = Single CHR ''^'' \<or> a = Single CHR ''$''")
  case True
  then show ?thesis using assms(3,4) match_once_anchor [of p s room t _ i] by auto
next
  case False
  then show ?thesis using assms by (auto simp: match_once_char den_char steps_def)
qed

lemma repeat_complete:
  assumes a: "wf_atom a" "\<And>g. a \<noteq> Group g" "a \<noteq> Single CHR ''^''" "a \<noteq> Single CHR ''$''" and o: "occurs p s (render_atom a)"
  shows "(i, n) \<in> (den_atom t a)\<^sup>+ \<Longrightarrow> n - i \<le> m \<Longrightarrow>
    i < n \<and> n \<in> set (repeat_atom room t p s (s + length (render_atom a)) i m)"
proof (induction arbitrary: m rule: converse_trancl_induct)
  case (base i)
  then have "n = i + 1" using a by (auto simp: den_char steps_def)
  moreover obtain m' where "m = Suc m'" using base calculation by (cases m) auto
  ultimately show ?case using once_complete [OF a(1,2) o base(1), of room] by (subst repeat_atom.simps) simp
next
  case (step i k)
  then have k: "k = i + 1" using a by (auto simp: den_char steps_def)
  have kn: "k < n" using step.IH [of "n - k"] by simp
  then obtain m' where m: "m = Suc m'" "n - k \<le> m'" using step.prems k by (cases m) auto
  show ?case using once_complete [OF a(1,2) o step.hyps(1), of room] step.IH [OF m(2)] k kn m(1)
    by (subst repeat_atom.simps) auto
qed

lemma try_complete: "x \<in> set xs \<Longrightarrow> match_sequence room t p s e x = Some j \<Longrightarrow> \<exists>k. try_positions room t p s e xs = Some k"
  by (induction xs) (auto split: option.split)

lemma branch_complete:
  "\<forall>x\<in>set b. wf_item x \<and> (\<forall>g. item_atom x \<noteq> Group g) \<Longrightarrow> occurs p s (render_branch b) \<Longrightarrow> (i, j) \<in> den_branch t b \<Longrightarrow>
   i \<le> length t \<Longrightarrow> \<exists>k. match_sequence (\<lambda>n. True) t p s (s + length (render_branch b)) i = Some k"
proof (induction b arbitrary: s i)
  case Nil
  then show ?case by (simp add: match_sequence.simps)
next
  case (Cons x b)
  obtain a q where x: "x = Item a q" by (cases x)
  have wf: "\<forall>y\<in>set (Item a q # b). wf_item y" and a: "wf_atom a" "\<And>g. a \<noteq> Group g" using Cons.prems(1) x by auto
  note o = Cons.prems(2) [unfolded x]
  note sp = item_split [OF wf o refl]
  let ?e = "s + length (render_branch (x # b))" and ?r = "s + length (render_item x)"
  from Cons.prems(3) obtain n where n: "(i, n) \<in> den_item t x" "(n, j) \<in> den_branch t b" by auto
  then have "n \<le> length t" using den_inside(2) [of t x] Cons.prems(4) by (auto simp: inside_def)
  then obtain k where k: "match_sequence (\<lambda>n. True) t p ?r ?e n = Some k"
    using Cons.IH [of ?r n] Cons.prems(1) sp(6) x n(2) by (auto simp: add.assoc)
  note m = match_sequence_item [OF wf o refl, of "\<lambda>n. True" t i]
  note once = once_complete [OF a sp(3)]
  show ?case
  proof (cases q)
    case None
    then show ?thesis using m x n(1) once [of i n t] k by auto
  next
    case (Some c)
    show ?thesis
    proof (cases "c = CHR ''?''")
      case True
      then show ?thesis using m x n(1) once [of i n t] k Some by (auto split: option.splits)
    next
      case False
      have c: "a \<noteq> Single CHR ''^''" "a \<noteq> Single CHR ''$''" using wf Some by auto
      have star: "n = i \<and> c \<noteq> CHR ''+'' \<or> (i, n) \<in> (den_atom t a)\<^sup>+"
        using n(1) x Some False by (auto split: if_splits dest: rtranclD)
      have "n - i \<le> length t - i" using \<open>n \<le> length t\<close> by simp
      then have "n \<in> set (rev (drop (if c = CHR ''+'' then 1 else 0)
          (i # repeat_atom (\<lambda>n. True) t p s (s + length (render_atom a)) i (length t - i))))"
        using star repeat_complete [OF a c sp(3), of i n t "length t - i" "\<lambda>n. True"] by auto
      from try_complete [OF this k] show ?thesis using m x Some False by auto
    qed
  qed
qed

lemma expr_complete:
  "wf_expr bs \<Longrightarrow> flat bs \<Longrightarrow> occurs p s (render_expr bs) \<Longrightarrow> (i, j) \<in> den_expr t bs \<Longrightarrow> i \<le> length t \<Longrightarrow>
   \<exists>k. match_expr (\<lambda>n. True) t p s (s + length (render_expr bs)) i = Some k"
proof (induction bs arbitrary: s)
  case (Cons b bs)
  have wf: "\<forall>x\<in>set b. wf_item x \<and> (\<forall>g. item_atom x \<noteq> Group g)" and o: "occurs p s (render_branch b)"
    using Cons.prems by (auto simp: wf_expr_def flat_def render_expr_Cons)
  let ?b = "s + length (render_branch b)" and ?e = "s + length (render_expr (b # bs))"
  note m = match_expr_Cons [OF Cons.prems(1,3) refl, of "\<lambda>n. True" t i]
  show ?case
  proof (cases "(i, j) \<in> den_branch t b")
    case True
    with branch_complete [OF wf o _ Cons.prems(5)] obtain k where
      "match_sequence (\<lambda>n. True) t p s ?b i = Some k" by blast
    then show ?thesis using m by simp
  next
    case False
    then have d: "(i, j) \<in> den_expr t bs" "bs \<noteq> []" using Cons.prems(4) by auto
    note r = render_expr_Cons2 [OF d(2), of b]
    have "\<exists>k. match_expr (\<lambda>n. True) t p (?b + 1) ?e i = Some k"
      using Cons.IH [of "?b + 1"] Cons.prems d by (simp add: r wf_expr_def flat_def add.assoc)
    then show ?thesis using m d(2) by (auto split: option.splits)
  qed
qed (simp add: wf_expr_def)

lemma flat_match_iff:
  assumes "wf_expr bs" "flat bs" "i \<le> length t"
  shows "match_expr (\<lambda>n. True) t (render_expr bs) 0 (length (render_expr bs)) i \<noteq> None \<longleftrightarrow> (\<exists>j. (i, j) \<in> den_expr t bs)"
  using expr_complete [OF assms(1,2) occurs_whole, of i _ t] wf_expr_sound [OF assms(1)] assms(3) by fastforce

text \<open>
  C26: a pattern without groups is found at the leftmost place.  Take a pattern of less than 256 bytes without
  groups that does not begin with an anchor, and memory for the positions.  When a match is reported,
  it is a match and there is none at an earlier place; when none is reported, there is no match at any
  place before the end of the text.
\<close>

theorem leftmost_match:
  assumes "wf_expr bs" "flat bs" "length (render_expr bs) < 256" "pat_at (render_expr bs) 0 \<noteq> CHR ''^''"
  shows "case fst (re_match (\<lambda>n. True) buf (Some (render_expr bs)) (Some t)) of
      Some (i, n) \<Rightarrow> i < length t \<and> (i, i + n) \<in> den_expr t bs \<and> (\<forall>k<i. \<forall>j. (k, j) \<notin> den_expr t bs)
    | None \<Rightarrow> \<forall>k<length t. \<forall>j. (k, j) \<notin> den_expr t bs"
proof -
  let ?p = "render_expr bs"
  have "validate_expr ?p 0 (length ?p)" using wf_expr_accepted [OF assms(1) occurs_whole] by simp
  then have r: "fst (re_match (\<lambda>n. True) buf (Some ?p) (Some t)) = search_loop (\<lambda>n. True) ?p t 0"
    using assms(3) by (simp add: re_match_def re_matchp_def re_compile_def)
  show ?thesis
  proof (cases "search_loop (\<lambda>n. True) ?p t 0")
    case None
    have "(k, j) \<notin> den_expr t bs" if "k < length t" for k j
      using search_None [OF None assms(4) le0 that] flat_match_iff [OF assms(1,2), of k t] that by auto
    then show ?thesis using r None by simp
  next
    case (Some x)
    obtain i n where x: "x = (i, n)" by force
    note s = search_Some [OF Some [unfolded x]]
    then obtain j where j: "match_expr (\<lambda>n. True) t ?p 0 (length ?p) i = Some j" "n = j - i" "i < length t" by blast
    have d: "(i, j) \<in> den_expr t bs" using wf_expr_sound [OF assms(1) j(1)] .
    have "(k, l) \<notin> den_expr t bs" if "k < i" for k l
      using s that j(3) flat_match_iff [OF assms(1,2), of k t] by auto
    then show ?thesis using r Some x j d expr_inside [OF d] by auto
  qed
qed

theorem leftmost_match_witness:
  "case fst (re_match (\<lambda>n. True) [] (Some (render_expr [[Item (Class ''a-c'') (Some CHR ''+'')]])) (Some ''xbay'')) of
      Some (i, n) \<Rightarrow> i < length ''xbay'' \<and> (i, i + n) \<in> den_expr ''xbay'' [[Item (Class ''a-c'') (Some CHR ''+'')]] \<and>
        (\<forall>k<i. \<forall>j. (k, j) \<notin> den_expr ''xbay'' [[Item (Class ''a-c'') (Some CHR ''+'')]])
    | None \<Rightarrow> \<forall>k<length ''xbay''. \<forall>j. (k, j) \<notin> den_expr ''xbay'' [[Item (Class ''a-c'') (Some CHR ''+'')]]"
  by (rule leftmost_match) (simp_all add: wf_expr_def flat_def isquantifier_def render_expr_def pat_at_def)

text \<open>
  matches that are not found.  A group gives its first match only, so that \<open>(a|ab)c\<close> is not found in \<open>abc\<close>,
  which it matches as a whole.  A pattern that begins with an anchor is tried at the first place only,
  although another branch matches later: \<open>^a|b\<close> is not found in \<open>xb\<close>.  An empty match at the end of the text
  is dropped: \<open>$\<close> is found nowhere.
\<close>

theorem missed_matches:
  "(\<exists>bs. wf_expr bs \<and> render_expr bs = ''(a|ab)c'' \<and> (0, 3) \<in> den_expr ''abc'' bs \<and>
      fst (re_match (\<lambda>n. True) [] (Some ''(a|ab)c'') (Some ''abc'')) = None) \<and>
   (\<exists>bs. wf_expr bs \<and> render_expr bs = ''^a|b'' \<and> (1, 2) \<in> den_expr ''xb'' bs \<and>
      fst (re_match (\<lambda>n. True) [] (Some ''^a|b'') (Some ''xb'')) = None) \<and>
   (\<exists>bs. wf_expr bs \<and> render_expr bs = ''$'' \<and> (2, 2) \<in> den_expr ''ab'' bs \<and>
      fst (re_match (\<lambda>n. True) [] (Some ''$'') (Some ''ab'')) = None)"
proof (intro conjI)
  let ?a = "Item (Single CHR ''a'') None" and ?b = "Item (Single CHR ''b'') None" and ?c = "Item (Single CHR ''c'') None"
  let ?g = "[[Item (Group [[?a], [?a, ?b]]) None, ?c]]"
  have "wf_expr ?g \<and> render_expr ?g = ''(a|ab)c''" by (simp add: wf_expr_def SPECIAL_def render_expr_def render_branch_def)
  moreover have "(0, 3) \<in> den_expr ''abc'' ?g"
    by (auto simp: den_group steps_def relcomp_unfold intro!: exI [of _ 2])
  moreover have "fst (re_match (\<lambda>n. True) [] (Some ''(a|ab)c'') (Some ''abc'')) = None" by code_simp
  ultimately show "\<exists>bs. wf_expr bs \<and> render_expr bs = ''(a|ab)c'' \<and> (0, 3) \<in> den_expr ''abc'' bs \<and>
      fst (re_match (\<lambda>n. True) [] (Some ''(a|ab)c'') (Some ''abc'')) = None" by blast
  let ?h = "[[Item (Single CHR ''^'') None, ?a], [?b]]"
  have "wf_expr ?h \<and> render_expr ?h = ''^a|b'' \<and> (1, 2) \<in> den_expr ''xb'' ?h"
    by (auto simp: wf_expr_def SPECIAL_def render_expr_def render_branch_def steps_def)
  moreover have "fst (re_match (\<lambda>n. True) [] (Some ''^a|b'') (Some ''xb'')) = None" by code_simp
  ultimately show "\<exists>bs. wf_expr bs \<and> render_expr bs = ''^a|b'' \<and> (1, 2) \<in> den_expr ''xb'' bs \<and>
      fst (re_match (\<lambda>n. True) [] (Some ''^a|b'') (Some ''xb'')) = None" by blast
  have "wf_expr [[Item (Single CHR ''$'') None]] \<and> render_expr [[Item (Single CHR ''$'') None]] = ''$'' \<and>
      (2, 2) \<in> den_expr ''ab'' [[Item (Single CHR ''$'') None]]"
    by (simp add: wf_expr_def SPECIAL_def render_expr_def render_branch_def)
  moreover have "fst (re_match (\<lambda>n. True) [] (Some ''$'') (Some ''ab'')) = None" by code_simp
  ultimately show "\<exists>bs. wf_expr bs \<and> render_expr bs = ''$'' \<and> (2, 2) \<in> den_expr ''ab'' bs \<and>
      fst (re_match (\<lambda>n. True) [] (Some ''$'') (Some ''ab'')) = None" by blast
qed

end
