(* ===== verification/Regex_Prepare.thy ===== *)
theory Regex_Prepare
  imports Regex_Match String_Codecs
begin

text \<open>
  What the regular expression module (\<^verbatim>\<open>exprtk/src/mod_regex.c\<close>) does with a pattern before it is compiled:
  letters are replaced by classes when case is ignored, counted_text repeats \<open>x{n}\<close> are written out, and for a
  match of a whole string the pattern is put between anchors.  The buffers are never overrun; the counted_text
  repeats of a sequence of atoms are written out as intended; the pattern in which case is ignored means
  what the pattern in small letters means on the text in small letters.
\<close>

section \<open>Strings and errors\<close>

text \<open>Patterns and searched texts are read up to their first null.  \<^verbatim>\<open>error_msg\<close> has 256 bytes.\<close>

definition cstring :: "bytes \<Rightarrow> bytes" where
  "cstring s = takeWhile (\<lambda>c. c \<noteq> CHR 0x00) s"

definition regex_set_error :: "bytes \<Rightarrow> exprtk_env \<Rightarrow> exprtk_env" where
  "regex_set_error msg env = env\<lparr>ee_error_msg := take 255 msg, ee_aborted := True\<rparr>"

definition regex_strdup_len :: "heap \<Rightarrow> bytes \<Rightarrow> bytes option \<times> heap" where
  "regex_strdup_len h data = (case alloc h of (ok, h') \<Rightarrow> (if ok then Some (cstring data) else None, h'))"

definition regex_arena_string :: "heap \<Rightarrow> bytes \<Rightarrow> bytes option \<times> heap" where
  "regex_arena_string h s = (case alloc h of (ok, h') \<Rightarrow> (if ok then Some (cstring s) else None, h'))"

section \<open>Ignoring case\<close>

text \<open>The conversions of \<^verbatim>\<open>ctype.h\<close> in the C locale; \<^verbatim>\<open>isalpha\<close> is \<open>matchalpha\<close>.\<close>

definition tolower :: "char \<Rightarrow> char" where
  "tolower c = (if in_range CHR ''A'' CHR ''Z'' c then char_of (of_char c + 32 :: nat) else c)"

definition toupper :: "char \<Rightarrow> char" where
  "toupper c = (if in_range CHR ''a'' CHR ''z'' c then char_of (of_char c - 32 :: nat) else c)"

definition islower :: "char \<Rightarrow> bool" where
  "islower = in_range CHR ''a'' CHR ''z''"

definition regex_parse_flags :: "bytes \<Rightarrow> bool" where
  "regex_parse_flags flags = list_ex (\<lambda>c. c = CHR ''i'' \<or> c = CHR ''I'') flags"

text \<open>
  One round of the loop, at the byte \<open>c\<close> with \<open>s\<close> behind it: what is written, the flags \<^verbatim>\<open>escaped\<close> and
  \<^verbatim>\<open>in_class\<close> afterwards, and how many bytes of \<open>s\<close> are consumed as well.
\<close>

definition range_follows :: "bytes \<Rightarrow> bool" where
  "range_follows s = (case s of d # e # _ \<Rightarrow> d = CHR ''-'' \<and> matchalpha e | _ \<Rightarrow> False)"

definition flags_step :: "bool \<Rightarrow> bool \<Rightarrow> char \<Rightarrow> bytes \<Rightarrow> bytes \<times> bool \<times> bool \<times> nat" where
  "flags_step escaped in_class c s =
     (if escaped then ([c], False, in_class, 0)
      else if c = CHR 0x5C then ([c], True, in_class, 0)
      else if c = CHR ''['' then ([c], False, True, 0)
      else if c = CHR '']'' then ([c], False, False, 0)
      else if in_class \<and> matchalpha c \<and> range_follows s
      then
        let e = s ! 1 in
        ([c, CHR ''-'', e, tolower c, CHR ''-'', tolower e, toupper c, CHR ''-'', toupper e], False, in_class, 2)
      else if in_class \<and> matchalpha c then ([c, if islower c then toupper c else tolower c], False, in_class, 0)
      else if \<not> in_class \<and> matchalpha c then ([CHR ''['', tolower c, toupper c, CHR '']''], False, in_class, 0)
      else ([c], False, in_class, 0))"

function flags_loop :: "nat \<Rightarrow> bool \<Rightarrow> bool \<Rightarrow> bytes \<Rightarrow> bytes \<Rightarrow> bytes option" where
  "flags_loop cap escaped in_class [] out = Some out"
| "flags_loop cap escaped in_class (c # s) out =
     (case flags_step escaped in_class c s of
        (w, esc, cls, skip) \<Rightarrow>
          (case put cap out w of None \<Rightarrow> None | Some out' \<Rightarrow> flags_loop cap esc cls (drop skip s) out'))"
  by pat_completeness auto

termination by (relation "measure (\<lambda>(cap, esc, cls, s, out). length s)") auto

text \<open>\<^verbatim>\<open>regex_expand_flags\<close>; the outer \<open>None\<close> is a write outside the buffer, the inner one the null pointer.\<close>

definition regex_expand_flags :: "heap \<Rightarrow> bytes \<Rightarrow> bool \<Rightarrow> (bytes option \<times> heap) option" where
  "regex_expand_flags h pattern ignore_case =
     (if \<not> ignore_case then Some (regex_strdup_len h pattern)
      else
        (case alloc h of
           (ok, h') \<Rightarrow>
             if \<not> ok then Some (None, h')
             else
               let cap = length pattern * 6 + 1 in
               (case flags_loop cap False False pattern [] of
                  None \<Rightarrow> None
                | Some out \<Rightarrow> if length out < cap then Some (Some out, h') else None)))"

section \<open>Counted repeats\<close>

text \<open>
  A growing buffer is its content and its capacity; \<^verbatim>\<open>SIZE_MAX / 2\<close> is \<open>9223372036854775807\<close>.  The capacity is at least 64 when the loop doubles it,
  so that the test for 0 in \<open>grow_loop\<close>, which makes it a function, is never met.
\<close>

function grow_loop :: "nat \<Rightarrow> nat \<Rightarrow> nat option" where
  "grow_loop next needed =
     (if needed \<le> next then Some next
      else if next = 0 \<or> 9223372036854775807 < int next then None
      else grow_loop (next * 2) needed)"
  by pat_completeness auto

termination by (relation "measure (\<lambda>(next, needed). needed - next)") auto

declare grow_loop.simps [simp del]

definition regex_buf_reserve :: "heap \<Rightarrow> nat \<Rightarrow> nat \<Rightarrow> nat option \<times> heap" where
  "regex_buf_reserve h cap needed =
     (if needed \<le> cap then (Some cap, h)
      else
        (case grow_loop (if cap = 0 then 64 else cap) needed of
           None \<Rightarrow> (None, h)
         | Some cap' \<Rightarrow> (case alloc h of (ok, h') \<Rightarrow> (if ok then Some cap' else None, h'))))"

text \<open>Bytes are written behind the content, and a null behind them.\<close>

definition put_string :: "nat \<Rightarrow> bytes \<Rightarrow> bytes \<Rightarrow> bytes option" where
  "put_string cap out data = (if length out + length data < cap then Some (out @ data) else None)"

definition regex_buf_append :: "heap \<Rightarrow> bytes \<Rightarrow> nat \<Rightarrow> bytes \<Rightarrow> ((bytes \<times> nat) option \<times> heap) option" where
  "regex_buf_append h out cap data =
     (case regex_buf_reserve h cap (length out + length data + 1) of
        (None, h') \<Rightarrow> Some (None, h')
      | (Some cap', h') \<Rightarrow>
          (case put_string cap' out data of None \<Rightarrow> None | Some out' \<Rightarrow> Some (Some (out', cap'), h')))"

function class_close :: "bytes \<Rightarrow> nat \<Rightarrow> nat" where
  "class_close p i =
     (if length p \<le> i then length p
      else if p ! i = CHR 0x5C \<and> i + 1 < length p then class_close p (i + 2)
      else if p ! i = CHR '']'' then i + 1
      else class_close p (i + 1))"
  by pat_completeness auto

termination by (relation "measure (\<lambda>(p, i). length p - i)") auto

declare class_close.simps [simp del]

lemma class_close_bounds: "i \<le> length p \<Longrightarrow> i \<le> class_close p i \<and> class_close p i \<le> length p"
proof (induction p i rule: class_close.induct)
  case (1 p i)
  then show ?case by (subst (1 2) class_close.simps) auto
qed

function group_close :: "bytes \<Rightarrow> nat \<Rightarrow> nat \<Rightarrow> nat" where
  "group_close p i depth =
     (if length p \<le> i then length p
      else if p ! i = CHR 0x5C \<and> i + 1 < length p then group_close p (i + 2) depth
      else if p ! i = CHR ''['' then group_close p (class_close p (i + 1)) depth
      else if p ! i = CHR ''('' then group_close p (i + 1) (depth + 1)
      else if p ! i = CHR '')'' then (if depth - 1 = 0 then i + 1 else group_close p (i + 1) (depth - 1))
      else group_close p (i + 1) depth)"
  by pat_completeness auto

termination
proof (relation "measure (\<lambda>(p, i, d). length p - i)", goal_cases)
  case (3 p i depth)
  then have "i < class_close p (i + 1)" using class_close_bounds [of "i + 1" p] by simp
  with 3 show ?case by simp
qed auto

declare group_close.simps [simp del]

lemma group_close_bounds: "i \<le> length p \<Longrightarrow> i \<le> group_close p i d \<and> group_close p i d \<le> length p"
proof (induction p i d rule: group_close.induct)
  case (1 p i d)
  then show ?case using class_close_bounds [of "i + 1" p] by (subst (1 2) group_close.simps) auto
qed

definition regex_atom_end :: "bytes \<Rightarrow> nat \<Rightarrow> nat" where
  "regex_atom_end p start =
     (if length p \<le> start then start
      else if p ! start = CHR 0x5C then start + (if start + 1 < length p then 2 else 1)
      else if p ! start = CHR ''['' then class_close p (start + 1)
      else if p ! start = CHR ''('' then group_close p (start + 1) 1
      else start + 1)"

lemma regex_atom_end_bounds: "i < length p \<Longrightarrow> i < regex_atom_end p i \<and> regex_atom_end p i \<le> length p"
  using class_close_bounds [of "i + 1" p] group_close_bounds [of "i + 1" p 1] by (auto simp: regex_atom_end_def)

text \<open>\<^verbatim>\<open>regex_parse_exact_repeat\<close> answers 0, \<open>-1\<close>, or the place of the closing brace and the count.\<close>

datatype repeat = NoRepeat | TooLarge | Repeat nat nat

function digits_loop :: "bytes \<Rightarrow> nat \<Rightarrow> nat \<Rightarrow> (nat \<times> nat) option" where
  "digits_loop p i count =
     (if i < length p \<and> matchdigit (p ! i)
      then
        let digit = of_char (p ! i) - 48 in
        if (64 - digit) div 10 < count then None else digits_loop p (i + 1) (count * 10 + digit)
      else Some (i, count))"
  by pat_completeness auto

termination by (relation "measure (\<lambda>(p, i, count). length p - i)") auto

declare digits_loop.simps [simp del]

lemma digits_loop_bounds: "digits_loop p i c = Some (j, n) \<Longrightarrow> i \<le> j"
proof (induction p i c rule: digits_loop.induct)
  case (1 p i c)
  then show ?case by (subst (asm) (2) digits_loop.simps) (auto simp: Let_def split: if_splits)
qed

definition regex_parse_exact_repeat :: "bytes \<Rightarrow> nat \<Rightarrow> repeat" where
  "regex_parse_exact_repeat p open_at =
     (let i = open_at + 1 in
      if length p \<le> i \<or> \<not> matchdigit (p ! i) then NoRepeat
      else
        (case digits_loop p i 0 of
           None \<Rightarrow> TooLarge
         | Some (j, count) \<Rightarrow> if length p \<le> j \<or> p ! j \<noteq> CHR ''}'' then NoRepeat else Repeat j count))"

lemma parse_repeat_bounds: "regex_parse_exact_repeat p i = Repeat j n \<Longrightarrow> i < j \<and> j < length p"
  by (auto simp: regex_parse_exact_repeat_def Let_def dest!: digits_loop_bounds split: if_splits option.splits)

text \<open>
  The loop of \<^verbatim>\<open>regex_expand_counted_repeats\<close>; on the left the message of an error.  The product that is
  tested for overflow is \<^verbatim>\<open>extra\<close>, of \<^verbatim>\<open>size_t\<close>.
\<close>

definition overflows :: "nat \<Rightarrow> bool" where
  "overflows n \<longleftrightarrow> 18446744073709551616 \<le> int n"

lemma not_overflows: "k + n + 1 \<le> 2 ^ 63 \<Longrightarrow> \<not> overflows n"
  by (simp add: overflows_def)

lemma regex_atom_end_progress: "\<not> length p \<le> i \<Longrightarrow> regex_atom_end p i \<le> j \<Longrightarrow> length p - j < length p - i"
  using regex_atom_end_bounds [of i p] by auto

function repeats_loop :: "heap \<Rightarrow> bytes \<Rightarrow> nat \<Rightarrow> bytes \<Rightarrow> nat \<Rightarrow> ((bytes + bytes) \<times> heap) option" where
  "repeats_loop h p i out cap =
     (if length p \<le> i then Some (Inr out, h)
      else
        let atom_end = regex_atom_end p i;
            atom = take (atom_end - i) (drop i p) in
        (case regex_buf_append h out cap atom of
           None \<Rightarrow> None
         | Some (None, h1) \<Rightarrow> Some (Inl ''regex: out of memory'', h1)
         | Some (Some (out1, cap1), h1) \<Rightarrow>
             (case if atom_end < length p \<and> p ! atom_end = CHR ''{'' then regex_parse_exact_repeat p atom_end else NoRepeat of
                TooLarge \<Rightarrow> Some (Inl ''regex: counted repeat is too large'', h1)
              | NoRepeat \<Rightarrow> repeats_loop h1 p atom_end out1 cap1
              | Repeat close count \<Rightarrow>
                  if count = 0 then repeats_loop h1 p (close + 1) out cap1
                  else if overflows (length atom * (count - 1))
                  then Some (Inl ''regex: counted repeat is too large'', h1)
                  else
                    (case regex_buf_reserve h1 cap1 (length out1 + length atom * (count - 1) + 1) of
                       (None, h2) \<Rightarrow> Some (Inl ''regex: out of memory'', h2)
                     | (Some cap2, h2) \<Rightarrow>
                         (case put_string cap2 out1 (concat (replicate (count - 1) atom)) of
                            None \<Rightarrow> None
                          | Some out2 \<Rightarrow> repeats_loop h2 p (close + 1) out2 cap2)))))"
  by pat_completeness auto

termination
  by (relation "measure (\<lambda>(h, p, i, out, cap). length p - i)")
     (auto dest!: parse_repeat_bounds intro: regex_atom_end_progress split: if_splits)

declare repeats_loop.simps [simp del]

definition regex_expand_counted_repeats :: "heap \<Rightarrow> bytes \<Rightarrow> exprtk_env \<Rightarrow> (bytes option \<times> exprtk_env \<times> heap) option" where
  "regex_expand_counted_repeats h pattern env =
     (case repeats_loop h pattern 0 [] 0 of
        None \<Rightarrow> None
      | Some (Inl msg, h') \<Rightarrow> Some (None, regex_set_error msg env, h')
      | Some (Inr out, h') \<Rightarrow>
          if pattern = [] then (case regex_strdup_len h' [] of (r, h'') \<Rightarrow> Some (r, env, h''))
          else Some (Some out, env, h'))"

section \<open>Preparing a pattern\<close>

definition regex_prepare_pattern ::
  "heap \<Rightarrow> bytes \<Rightarrow> bool \<Rightarrow> bool \<Rightarrow> exprtk_env \<Rightarrow> (bytes option \<times> exprtk_env \<times> heap) option" where
  "regex_prepare_pattern h pattern flags anchored env =
     (case regex_expand_flags h pattern flags of
        None \<Rightarrow> None
      | Some (None, h1) \<Rightarrow> Some (None, regex_set_error ''regex: out of memory'' env, h1)
      | Some (Some case_expanded, h1) \<Rightarrow>
          (case regex_expand_counted_repeats h1 case_expanded env of
             None \<Rightarrow> None
           | Some (None, env2, h2) \<Rightarrow> Some (None, env2, h2)
           | Some (Some expanded, env2, h2) \<Rightarrow>
               if \<not> anchored then Some (Some expanded, env2, h2)
               else
                 (case alloc h2 of
                    (ok, h3) \<Rightarrow>
                      if \<not> ok then Some (None, regex_set_error ''regex: out of memory'' env2, h3)
                      else
                        (case put_string (length expanded + 5) [] (''^('' @ expanded @ '')$'') of
                           None \<Rightarrow> None
                         | Some wrapped \<Rightarrow> Some (Some wrapped, env2, h3)))))"

section \<open>The buffers are large enough\<close>

text \<open>What the loop writes when there is room for it.\<close>

function flags_text :: "bool \<Rightarrow> bool \<Rightarrow> bytes \<Rightarrow> bytes" where
  "flags_text escaped in_class [] = []"
| "flags_text escaped in_class (c # s) =
     (case flags_step escaped in_class c s of (w, esc, cls, skip) \<Rightarrow> w @ flags_text esc cls (drop skip s))"
  by pat_completeness auto

termination by (relation "measure (\<lambda>(esc, cls, s). length s)") auto

lemma flags_step_width:
  "flags_step escaped in_class c s = (w, esc, cls, skip) \<Longrightarrow> length w + 6 * length (drop skip s) \<le> 6 * length (c # s)"
  by (auto simp: flags_step_def range_follows_def Let_def split: if_splits list.splits)

lemma flags_loop_fits:
  "length out + 6 * length s \<le> cap \<Longrightarrow>
   flags_loop cap escaped in_class s out = Some (out @ flags_text escaped in_class s) \<and>
   length (flags_text escaped in_class s) \<le> 6 * length s"
proof (induction cap escaped in_class s out rule: flags_loop.induct)
  case (2 cap escaped in_class c s out)
  obtain w esc cls skip where step: "flags_step escaped in_class c s = (w, esc, cls, skip)" by (metis prod_cases4)
  note width = flags_step_width [OF step]
  have "put cap out w = Some (out @ w)" using width 2(2) by (simp add: put_def)
  with 2(1) [OF step [symmetric] refl refl this] width 2(2) step show ?case by (simp add: add.assoc)
qed simp

lemma expand_flags_result:
  "regex_expand_flags h p True = (case alloc h of (ok, h') \<Rightarrow> Some (if ok then Some (flags_text False False p) else None, h'))"
  using flags_loop_fits [of "[]" p "length p * 6 + 1" False False]
  by (simp add: regex_expand_flags_def split: prod.split)

lemma expand_flags_inside: "regex_expand_flags h p f \<noteq> None"
proof (cases f)
  case True
  then show ?thesis using expand_flags_result [of h p] by (auto split: prod.splits)
qed (simp add: regex_expand_flags_def)

lemma grow_loop_enough: "grow_loop n needed = Some cap \<Longrightarrow> needed \<le> cap"
proof (induction n needed rule: grow_loop.induct)
  case (1 n needed)
  then show ?case by (subst (asm) (2) grow_loop.simps) (auto split: if_splits)
qed

lemma reserve_enough: "regex_buf_reserve h cap needed = (Some cap', h') \<Longrightarrow> needed \<le> cap'"
  by (auto simp: regex_buf_reserve_def dest: grow_loop_enough split: if_splits option.splits prod.splits)

lemma alloc_keeps: "never_fails h \<Longrightarrow> alloc h = (ok, h') \<Longrightarrow> never_fails h'"
  by (simp add: alloc_plenty)

lemma reserve_keeps: "never_fails h \<Longrightarrow> regex_buf_reserve h cap needed = (r, h') \<Longrightarrow> never_fails h'"
  by (auto simp: regex_buf_reserve_def alloc_plenty split: if_splits option.splits)

lemma append_inside: "\<exists>r h'. regex_buf_append h out cap data = Some (r, h') \<and> (never_fails h \<longrightarrow> never_fails h')"
proof -
  obtain z h1 where z: "regex_buf_reserve h cap (length out + length data + 1) = (z, h1)" by force
  with reserve_enough [of h cap "length out + length data + 1" _ h1] reserve_keeps [OF _ z] show ?thesis
    by (cases z) (auto simp: regex_buf_append_def put_string_def)
qed

lemma append_result: "regex_buf_append h out cap data = Some (Some (out', cap'), h') \<Longrightarrow> out' = out @ data"
  by (auto simp: regex_buf_append_def put_string_def split: prod.splits option.splits if_splits)

lemma length_repeated: "length (concat (replicate n u)) = length u * n"
  by (induction n) auto

lemma repeats_loop_inside: "\<exists>r h'. repeats_loop h p i out cap = Some (r, h') \<and> (never_fails h \<longrightarrow> never_fails h')"
proof (induction h p i out cap rule: repeats_loop.induct)
  case (1 h p i out cap)
  note IH = 1
  show ?case
  proof (cases "length p \<le> i")
    case False
    define a where "a = regex_atom_end p i"
    define atom where "atom = take (a - i) (drop i p)"
    define r where "r = (if a < length p \<and> p ! a = CHR ''{'' then regex_parse_exact_repeat p a else NoRepeat)"
    note ih = IH [OF False a_def atom_def [unfolded a_def, folded a_def], folded r_def]
    obtain x h1 where app: "regex_buf_append h out cap atom = Some (x, h1)" and nf: "never_fails h \<longrightarrow> never_fails h1"
      using append_inside by blast
    show ?thesis
    proof (cases x)
      case None
      then show ?thesis using app nf False by (simp add: repeats_loop.simps [of h p i] Let_def a_def atom_def)
    next
      case (Some y)
      obtain out1 cap1 where y: "y = (out1, cap1)" by force
      note unfold = repeats_loop.simps [of h p i out cap, unfolded Let_def, folded a_def, folded atom_def, folded r_def]
      show ?thesis
      proof (cases r)
        case NoRepeat
        show ?thesis using ih(1) [OF app refl Some y [symmetric] NoRepeat] app nf Some y False NoRepeat by (auto simp: unfold)
      next
        case TooLarge
        show ?thesis using app nf Some y False TooLarge by (simp add: unfold)
      next
        case (Repeat close count)
        obtain z h2 where res: "regex_buf_reserve h1 cap1 (length out1 + length atom * (count - 1) + 1) = (z, h2)" by force
        note unfold' = unfold [unfolded app Some y Repeat, simplified False, simplified]
        consider "count = 0" | "count \<noteq> 0" "overflows (length atom * (count - 1))" | "count \<noteq> 0" "\<not> overflows (length atom * (count - 1))" by blast
        then show ?thesis
        proof cases
          case 1
          then show ?thesis using ih(2) [OF app refl Some y [symmetric] Repeat] nf by (auto simp: unfold')
        next
          case 2
          then show ?thesis using nf by (simp add: unfold')
        next
          case 3
          show ?thesis
          proof (cases z)
            case None
            then show ?thesis using 3 res nf reserve_keeps [OF _ res] by (simp add: unfold')
          next
            case z: (Some cap2)
            define out2 where "out2 = out1 @ concat (replicate (count - 1) atom)"
            have put: "put_string cap2 out1 (concat (replicate (count - 1) atom)) = Some out2"
              using reserve_enough [OF res [unfolded z]] by (simp add: put_string_def length_repeated out2_def)
            have "\<exists>r h'. repeats_loop h2 p (close + 1) out2 cap2 = Some (r, h') \<and> (never_fails h2 \<longrightarrow> never_fails h')"
              using ih(3) [OF app refl Some y [symmetric] Repeat 3 res [symmetric] z put] .
            then show ?thesis using 3 res z put nf reserve_keeps [OF _ res] by (auto simp: unfold')
          qed
        qed
      qed
    qed
  qed (simp add: repeats_loop.simps)
qed

text \<open>
  Whatever the pattern, its flags and the memory, the six-fold buffer of the letters, the growing buffer of the
  repeats and the buffer of the anchored pattern hold all that is written to them and the null behind it.
\<close>

lemma prepared_inside: "regex_prepare_pattern h pattern flags anchored env \<noteq> None"
proof -
  have "regex_expand_counted_repeats h1 p env \<noteq> None" for h1 p
  proof -
    obtain x h' where "repeats_loop h1 p 0 [] 0 = Some (x, h')" using repeats_loop_inside by blast
    then show ?thesis by (cases x) (simp_all add: regex_expand_counted_repeats_def split: prod.split)
  qed
  note expand = this
  show ?thesis
    using expand_flags_inside [of h pattern flags]
    by (auto simp: regex_prepare_pattern_def put_string_def expand split: option.split prod.split)
qed

section \<open>Counted repeats are written out\<close>

text \<open>The module finds the same ends of atoms as the engine.\<close>

lemma class_close_end: "class_end_loop p i e = Some c \<Longrightarrow> e \<le> length p \<Longrightarrow> class_close p i = c + 1"
proof (induction p i e rule: class_end_loop.induct)
  case (1 p i e)
  then show ?case
    by (subst (asm) (3) class_end_loop.simps, subst class_close.simps) (auto simp: pat_at_def split: if_splits)
qed

lemma find_class_close:
  assumes "find_char_class_end p s e = Some c" "e \<le> length p"
  shows "class_close p (Suc s) = Suc c"
proof (cases "s + 1 < e \<and> pat_at p (s + 1) = CHR ''^''")
  case True
  then have "class_close p (s + 1) = class_close p (s + 2)"
    using assms(2) by (subst class_close.simps) (auto simp: pat_at_def)
  then show ?thesis using class_close_end [of p "s + 2" e c] assms True by (simp add: find_char_class_end_def)
next
  case False
  then have "find_char_class_end p s e = class_end_loop p (s + 1) e" by (auto simp: find_char_class_end_def)
  with class_close_end [of p "s + 1" e c] assms show ?thesis by simp
qed

lemma group_close_end: "group_end_loop p i d e = Some g \<Longrightarrow> e \<le> length p \<Longrightarrow> group_close p i d = g + 1"
proof (induction "e - i" arbitrary: i d rule: less_induct)
  case less
  have IH: "group_end_loop p k c e = Some g \<Longrightarrow> i < k \<Longrightarrow> i < e \<Longrightarrow> group_close p k c = g + 1" for k c
    using less.hyps [of k c] less.prems(2) by simp
  from less.prems have "i < e" by (subst (asm) group_end_loop.simps) (auto split: if_splits)
  with less.prems show ?case
    by (subst (asm) group_end_loop.simps, subst group_close.simps)
       (auto simp: pat_at_def IH find_class_close dest: find_char_class_end_bounds split: if_splits option.splits)
qed

lemma atom_end_same: "atom_span p s e = Some a \<Longrightarrow> e \<le> length p \<Longrightarrow> regex_atom_end p s = a"
  by (auto simp: atom_span_def regex_atom_end_def pat_at_def find_group_end_def find_class_close
        group_close_end split: if_splits option.splits)

text \<open>
  A pattern is written as a sequence of units, which are atoms, bars and quantifiers, with a count in digits behind
  some of them.  A brace that opens a count is no unit.
\<close>

definition unit_text :: "bytes \<Rightarrow> bool" where
  "unit_text u \<longleftrightarrow>
     (\<exists>a. wf_atom a \<and> a \<noteq> Single CHR ''{'' \<and> u = render_atom a) \<or> (\<exists>c. (isquantifier c \<or> c = CHR ''|'') \<and> u = [c])"

fun number_from :: "nat \<Rightarrow> bytes \<Rightarrow> nat" where
  "number_from n [] = n"
| "number_from n (d # ds) = number_from (n * 10 + (of_char d - 48)) ds"

fun count_text :: "bytes option \<Rightarrow> bytes" where
  "count_text None = []"
| "count_text (Some ds) = CHR ''{'' # ds @ [CHR ''}'']"

definition counted_text :: "(bytes \<times> bytes option) list \<Rightarrow> bytes" where
  "counted_text ps = concat (map (\<lambda>(u, n). u @ count_text n) ps)"

definition written_out :: "(bytes \<times> bytes option) list \<Rightarrow> bytes" where
  "written_out ps = concat (map (\<lambda>(u, n). case n of None \<Rightarrow> u | Some ds \<Rightarrow> concat (replicate (number_from 0 ds) u)) ps)"

definition count_ok :: "bytes option \<Rightarrow> bool" where
  "count_ok n \<longleftrightarrow> (\<forall>ds. n = Some ds \<longrightarrow> ds \<noteq> [] \<and> list_all matchdigit ds \<and> number_from 0 ds \<le> 64)"

lemma occurs_at: "occurs (pre @ u @ rest) (length pre) u"
  by (simp add: occurs_def)

lemma unit_text_end:
  assumes "unit_text u"
  shows "regex_atom_end (pre @ u @ rest) (length pre) = length pre + length u \<and> u \<noteq> [] \<and> hd u \<noteq> CHR ''{''"
proof -
  consider (atom) a where "wf_atom a" "a \<noteq> Single CHR ''{''" "u = render_atom a"
    | (sign) c where "isquantifier c \<or> c = CHR ''|''" "u = [c]"
    using assms unfolding unit_text_def by blast
  then show ?thesis
  proof cases
    case a: (atom a)
    have "atom_span (pre @ u @ rest) (length pre) (length (pre @ u @ rest)) = Some (length pre + length u)"
      using atom_span_at [OF a(1), of "pre @ u @ rest" "length pre" "length (pre @ u @ rest)"] occurs_at [of pre u rest] a(3) by simp
    from atom_end_same [OF this] a show ?thesis by (cases a) auto
  next
    case (sign c)
    then show ?thesis using quantifier_plain [of c] by (auto simp: regex_atom_end_def nth_append isquantifier_def)
  qed
qed

lemma number_from_ge: "n \<le> number_from n ds"
proof (induction ds arbitrary: n)
  case (Cons d ds)
  have "n \<le> n * 10 + (of_char d - 48)" by simp
  also have "\<dots> \<le> number_from n (d # ds)" using Cons.IH by simp
  finally show ?case .
qed simp

lemma digit_bound: "matchdigit d \<Longrightarrow> of_char d - 48 \<le> (9 :: nat)"
  unfolding matchdigit_def in_range_def by simp linarith

lemma digits_loop_number:
  "list_all matchdigit ds \<Longrightarrow> n \<le> 64 \<Longrightarrow>
   digits_loop (pre @ ds @ CHR ''}'' # rest) (length pre) n =
     (if number_from n ds \<le> 64 then Some (length pre + length ds, number_from n ds) else None)"
proof (induction ds arbitrary: pre n)
  case Nil
  then show ?case by (subst digits_loop.simps) (simp add: matchdigit_def in_range_def nth_append)
next
  case (Cons d ds)
  define k :: nat where "k = of_char d - 48"
  have k: "k \<le> 9" using Cons.prems(1) digit_bound [of d] by (simp add: k_def)
  have test: "(64 - k) div 10 < n \<longleftrightarrow> 64 < n * 10 + k" using k by (auto simp: div_less_iff_less_mult)
  have IH: "n * 10 + k \<le> 64 \<Longrightarrow> digits_loop (pre @ d # ds @ CHR ''}'' # rest) (length pre + 1) (n * 10 + k) =
      (if number_from (n * 10 + k) ds \<le> 64 then Some (length pre + 1 + length ds, number_from (n * 10 + k) ds) else None)"
    using Cons.IH [of "n * 10 + k" "pre @ [d]"] Cons.prems by simp
  show ?case using Cons.prems IH number_from_ge [of "n * 10 + k" ds] test
    by (subst digits_loop.simps) (auto simp: nth_append k_def [symmetric] Let_def)
qed

lemma parse_repeat_number:
  assumes "ds \<noteq> []" "list_all matchdigit ds"
  shows "regex_parse_exact_repeat (pre @ count_text (Some ds) @ rest) (length pre) =
    (if number_from 0 ds \<le> 64 then Repeat (length pre + length ds + 1) (number_from 0 ds) else TooLarge)"
  using digits_loop_number [OF assms(2), of 0 "pre @ [CHR ''{'']" rest] assms
  by (cases ds) (auto simp: regex_parse_exact_repeat_def nth_append Let_def split: if_splits)

lemma grow_loop_reaches: "0 < n \<Longrightarrow> needed \<le> 2 ^ 63 \<Longrightarrow> \<exists>cap. grow_loop n needed = Some cap"
proof (induction n needed rule: grow_loop.induct)
  case (1 n needed)
  then show ?case by (subst grow_loop.simps) auto
qed

lemma reserve_plenty:
  assumes "never_fails h" "needed \<le> 2 ^ 63"
  shows "\<exists>cap'. regex_buf_reserve h cap needed = (Some cap', h)"
proof (cases "needed \<le> cap")
  case False
  have "0 < (if cap = 0 then 64 else cap)" by simp
  from grow_loop_reaches [OF this assms(2)] obtain c where "grow_loop (if cap = 0 then 64 else cap) needed = Some c" by blast
  then show ?thesis using False assms(1) by (simp add: regex_buf_reserve_def alloc_plenty)
qed (simp add: regex_buf_reserve_def)

lemma append_plenty:
  assumes "never_fails h" "length out + length data < 2 ^ 63"
  shows "\<exists>cap'. regex_buf_append h out cap data = Some (Some (out @ data, cap'), h)"
proof -
  obtain c where c: "regex_buf_reserve h cap (length out + length data + 1) = (Some c, h)"
    using reserve_plenty [OF assms(1), of "length out + length data + 1" cap] assms(2) by auto
  with reserve_enough [OF c] show ?thesis by (simp add: regex_buf_append_def put_string_def)
qed

lemma sum_bound: "a \<le> 64 * b \<Longrightarrow> k \<le> 64 * m \<Longrightarrow> k + a \<le> 64 * (m + b + d + 1 + 1)" for a :: nat
  by simp

lemma repeats_loop_written:
  assumes "never_fails h" "\<forall>(u, n)\<in>set ps. unit_text u \<and> count_ok n" "length (pre @ counted_text ps) < 2 ^ 57" "length out \<le> 64 * length pre"
  shows "repeats_loop h (pre @ counted_text ps) (length pre) out cap = Some (Inr (out @ written_out ps), h)"
  using assms(2-)
proof (induction ps arbitrary: pre out cap)
  case Nil
  then show ?case by (simp add: counted_text_def written_out_def repeats_loop.simps)
next
  case (Cons un ps)
  obtain u n where un: "un = (u, n)" by force
  have ok: "unit_text u" "count_ok n" and rest: "\<forall>(u, n)\<in>set ps. unit_text u \<and> count_ok n" using Cons.prems(1) un by auto
  let ?p = "pre @ counted_text (un # ps)" and ?a = "length pre + length u"
  have p: "?p = pre @ u @ count_text n @ counted_text ps" "?p = (pre @ u) @ count_text n @ counted_text ps"
    "?p = (pre @ u @ count_text n) @ counted_text ps" by (simp_all add: counted_text_def un)
  note u = unit_text_end [OF ok(1), of pre "count_text n @ counted_text ps", folded p(1)]
  have here: "\<not> length ?p \<le> length pre" "regex_atom_end ?p (length pre) = ?a" "take (?a - length pre) (drop (length pre) ?p) = u"
    using u by (auto simp: p(1))
  have size: "length out + 64 * length u + 64 * length (count_text n) + 64 \<le> 2 ^ 63"
    using Cons.prems(2,3) by (simp add: p(1))
  obtain cap1 where app: "regex_buf_append h out cap u = Some (Some (out @ u, cap1), h)"
    using append_plenty [OF assms(1), of out u cap] size by auto
  note unfold = repeats_loop.simps [of h ?p "length pre" out cap, unfolded Let_def here(2,3)]
  show ?case
  proof (cases n)
    case None
    have "counted_text ps \<noteq> [] \<Longrightarrow> hd (counted_text ps) \<noteq> CHR ''{''"
      using rest unit_text_end [of _ "[]" "[]"] by (cases ps) (auto simp: counted_text_def)
    then have no: "(if ?a < length ?p \<and> ?p ! ?a = CHR ''{'' then regex_parse_exact_repeat ?p ?a else NoRepeat) = NoRepeat"
      using None by (auto simp: p(1) nth_append hd_conv_nth)
    have "repeats_loop h ?p ?a (out @ u) cap1 = Some (Inr ((out @ u) @ written_out ps), h)"
      using Cons.IH [OF rest, of "pre @ u" "out @ u" cap1] Cons.prems(2,3) None p(2) by simp
    then show ?thesis using here(1) app no None by (simp add: unfold) (simp add: written_out_def un)
  next
    case (Some ds)
    let ?k = "number_from 0 ds" and ?c = "?a + length ds + 1"
    have ds: "ds \<noteq> []" "list_all matchdigit ds" "?k \<le> 64" using ok(2) Some by (auto simp: count_ok_def)
    have rep: "(if ?a < length ?p \<and> ?p ! ?a = CHR ''{'' then regex_parse_exact_repeat ?p ?a else NoRepeat) = Repeat ?c ?k"
      using parse_repeat_number [OF ds(1,2), of "pre @ u" "counted_text ps"] ds(3) Some by (simp add: p(2) nth_append)
    have next_i: "length (pre @ u @ count_text n) = ?c + 1" using Some by simp
    have IH: "length out' \<le> 64 * (?c + 1) \<Longrightarrow> repeats_loop h ?p (?c + 1) out' c = Some (Inr (out' @ written_out ps), h)" for out' c
      using Cons.IH [OF rest, of "pre @ u @ count_text n" out' c] Cons.prems(2) next_i p(3) by (simp add: add.assoc)
    show ?thesis
    proof (cases "?k = 0")
      case True
      then show ?thesis using here(1) app rep IH [of out cap1] Cons.prems(3) Some
        by (simp add: unfold) (simp add: written_out_def un)
    next
      case False
      have "?k - 1 \<le> 63" using ds(3) by simp
      then have mult: "length u * (?k - 1) \<le> 63 * length u" by (metis mult_le_mono2 mult.commute)
      have need: "length (out @ u) + length u * (?k - 1) + 1 \<le> 2 ^ 63"
        using mult size unfolding length_append by linarith
      obtain cap2 where res: "regex_buf_reserve h cap1 (length (out @ u) + length u * (?k - 1) + 1) = (Some cap2, h)"
        using reserve_plenty [OF assms(1) need] by blast
      have put: "put_string cap2 (out @ u) (concat (replicate (?k - 1) u)) = Some (out @ u @ concat (replicate (?k - 1) u))"
        using reserve_enough [OF res] by (simp add: put_string_def length_repeated)
      note small = not_overflows [OF need]
      have again: "u @ concat (replicate (?k - 1) u) = concat (replicate ?k u)" using False by (cases ?k) auto
      have "length (concat (replicate ?k u)) \<le> 64 * length u"
        unfolding length_repeated using mult_le_mono2 [OF ds(3), of "length u"] by (metis mult.commute)
      then have "length (out @ concat (replicate ?k u)) \<le> 64 * (?c + 1)"
        using Cons.prems(3) unfolding length_append by (intro sum_bound)
      then show ?thesis
        using here(1) app rep IH [of "out @ concat (replicate ?k u)" cap2] res put False small again
        by (simp add: unfold) (simp add: written_out_def un Some)
    qed
  qed
qed

text \<open>
  C29: counted repeats are written out.  A pattern that is a sequence of atoms, bars and quantifiers, where a count
  in braces may stand behind each of them, is replaced by the sequence in which the counted ones are
  written as often as their count says, if the counts are at most 64; leading zeros do not matter, and a
  count of 0 removes the atom.  The pattern may have almost \<open>2 ^ 57\<close> bytes.
\<close>

theorem counted_repeats:
  assumes "never_fails h" "\<forall>(u, n)\<in>set ps. unit_text u \<and> count_ok n" "length (counted_text ps) < 2 ^ 57"
  shows "regex_expand_counted_repeats h (counted_text ps) env = Some (Some (written_out ps), env, h)"
proof -
  have loop: "repeats_loop h (counted_text ps) 0 [] 0 = Some (Inr (written_out ps), h)"
    using repeats_loop_written [OF assms(1,2), of "[]" "[]" 0] assms(3) by simp
  have "counted_text ps = [] \<Longrightarrow> written_out ps = []"
    using assms(2) unit_text_end [of _ "[]" "[]"] by (cases ps) (auto simp: counted_text_def written_out_def)
  then show ?thesis
    using loop by (auto simp: regex_expand_counted_repeats_def regex_strdup_len_def alloc_plenty [OF assms(1)] cstring_def)
qed

definition example_rx_env :: exprtk_env where
  "example_rx_env = \<lparr>env_arena = 1, ee_aborted = False, ee_error_msg = []\<rparr>"

theorem counted_repeats_witness:
  "regex_expand_counted_repeats plenty ''ab{3}|[0-9]{02}+'' example_rx_env = Some (Some ''abbb|[0-9][0-9]+'', example_rx_env, plenty)"
proof -
  let ?ps = "[(''a'', None), (''b'', Some ''3''), (''|'', None), (''[0-9]'', Some ''02''), (''+'', None)]"
  have atom: "unit_text (render_atom a)" if "wf_atom a" "a \<noteq> Single CHR ''{''" for a
    using that by (auto simp: unit_text_def)
  have "unit_text ''a''" "unit_text ''b''" "unit_text ''[0-9]''"
    using atom [of "Single CHR ''a''"] atom [of "Single CHR ''b''"] atom [of "Class ''0-9''"] by (simp_all add: SPECIAL_def)
  moreover have "unit_text ''|''" "unit_text ''+''" by (auto simp: unit_text_def isquantifier_def)
  ultimately have "\<forall>(u, n)\<in>set ?ps. unit_text u \<and> count_ok n"
    by (simp add: count_ok_def matchdigit_def in_range_def)
  moreover have "length (counted_text ?ps) < 2 ^ 57" by (simp add: counted_text_def)
  ultimately have "regex_expand_counted_repeats plenty (counted_text ?ps) example_rx_env = Some (Some (written_out ?ps), example_rx_env, plenty)"
    by (intro counted_repeats) (simp_all add: plenty_def)
  then show ?thesis by (simp add: counted_text_def written_out_def numeral_eq_Suc)
qed

text \<open>A count above 64 is refused.\<close>

lemma too_large_count:
  assumes "ds \<noteq> []" "list_all matchdigit ds" "64 < number_from 0 ds"
  shows "regex_parse_exact_repeat (pre @ count_text (Some ds) @ rest) (length pre) = TooLarge"
  using parse_repeat_number [OF assms(1,2)] assms(3) by simp

section \<open>The meaning of a pattern in which case is ignored\<close>

lemma flags_text_plain:
  "c \<noteq> CHR 0x5C \<Longrightarrow> c \<noteq> CHR ''['' \<Longrightarrow>
   flags_text False False (c # s) = (if matchalpha c then [CHR ''['', tolower c, toupper c, CHR '']''] else [c]) @ flags_text False False s"
  by (simp add: flags_step_def matchalpha_def in_range_def)

text \<open>The tree of the pattern that is written, and the tree in small letters.\<close>

fun fold_atom :: "atom \<Rightarrow> atom" and fold_item :: "item \<Rightarrow> item" where
  "fold_atom (Single c) = (if matchalpha c then Class [tolower c, toupper c] else Single c)"
| "fold_atom (Escape c) = Escape c"
| "fold_atom (Class b) = Class (flags_text False True b)"
| "fold_atom (Group bs) = Group (map (map fold_item) bs)"
| "fold_item (Item a q) = Item (fold_atom a) q"

fun small_atom :: "atom \<Rightarrow> atom" and small_item :: "item \<Rightarrow> item" where
  "small_atom (Single c) = Single (tolower c)"
| "small_atom (Escape c) = Escape c"
| "small_atom (Class b) = Class b"
| "small_atom (Group bs) = Group (map (map small_item) bs)"
| "small_item (Item a q) = Item (small_atom a) q"

text \<open>Patterns without classes in which no letter is escaped that is not a metacharacter.\<close>

fun caseless_atom :: "atom \<Rightarrow> bool" and caseless_item :: "item \<Rightarrow> bool" where
  "caseless_atom (Single c) = True"
| "caseless_atom (Escape c) \<longleftrightarrow> ismetachar c \<or> \<not> matchalpha c"
| "caseless_atom (Class b) = False"
| "caseless_atom (Group bs) = (\<forall>b\<in>set bs. \<forall>x\<in>set b. caseless_item x)"
| "caseless_item (Item a q) = caseless_atom a"

lemma range_follows_close: "range_follows (b @ CHR '']'' # s) = range_follows b"
  by (auto simp: range_follows_def matchalpha_def in_range_def neq_Nil_conv split: list.split)

lemma class_ok_Cons:
  "class_ok (c # b) \<longleftrightarrow> (if c = CHR 0x5C then b \<noteq> [] \<and> class_ok (tl b) else c \<noteq> CHR '']'' \<and> class_ok b)"
  by (cases b) auto

lemma letter_plain: "matchalpha c \<Longrightarrow> c \<noteq> CHR 0x5C \<and> c \<noteq> CHR ''['' \<and> c \<noteq> CHR '']''"
  by (auto simp: matchalpha_def in_range_def)

lemma flags_text_range:
  "matchalpha c \<Longrightarrow> matchalpha e \<Longrightarrow>
   flags_text False True (c # CHR ''-'' # e # s) =
     [c, CHR ''-'', e, tolower c, CHR ''-'', tolower e, toupper c, CHR ''-'', toupper e] @ flags_text False True s"
  using letter_plain [of c] by (simp add: flags_step_def range_follows_def Let_def)

lemma flags_text_member:
  "c \<noteq> CHR 0x5C \<Longrightarrow> c \<noteq> CHR '']'' \<Longrightarrow> \<not> (matchalpha c \<and> range_follows s) \<Longrightarrow>
   flags_text False True (c # s) =
     (if matchalpha c then [c, if islower c then toupper c else tolower c] else [c]) @ flags_text False True s"
  using letter_plain [of c] by (auto simp: flags_step_def)

lemma flags_text_class:
  "class_ok b \<Longrightarrow> flags_text False True (b @ CHR '']'' # s) = flags_text False True b @ CHR '']'' # flags_text False False s"
proof (induction "length b" arbitrary: b rule: less_induct)
  case less
  show ?case
  proof (cases b)
    case Nil
    then show ?thesis by (simp add: flags_step_def)
  next
    case (Cons c b1)
    note ok = less.prems [unfolded Cons class_ok_Cons]
    show ?thesis
    proof (cases "c = CHR 0x5C")
      case True
      then obtain d b2 where "b1 = d # b2" "class_ok b2" using ok by (cases b1) auto
      then show ?thesis using less.hyps [of b2] Cons True by (simp add: flags_step_def)
    next
      case False
      have IH: "flags_text False True (b1 @ CHR '']'' # s) = flags_text False True b1 @ CHR '']'' # flags_text False False s"
        using less.hyps [of b1] Cons ok False by simp
      show ?thesis
      proof (cases "matchalpha c \<and> range_follows b1")
        case True
        then obtain e b3 where b1: "b1 = CHR ''-'' # e # b3" "matchalpha e" by (auto simp: range_follows_def split: list.splits)
        then have "class_ok b3" using ok False by (auto simp: class_ok_Cons matchalpha_def in_range_def split: if_splits)
        then have "flags_text False True (b3 @ CHR '']'' # s) = flags_text False True b3 @ CHR '']'' # flags_text False False s"
          using less.hyps [of b3] Cons b1 by simp
        then show ?thesis using True b1 unfolding Cons by (simp add: flags_text_range del: flags_text.simps)
      next
        case no: False
        then show ?thesis using False ok IH range_follows_close [of b1 s] unfolding Cons
          by (simp add: flags_text_member del: flags_text.simps)
      qed
    qed
  qed
qed

definition rendered :: "bytes \<Rightarrow> bytes \<Rightarrow> bool" where
  "rendered u w \<longleftrightarrow> (\<forall>s. flags_text False False (u @ s) = w @ flags_text False False s)"

lemma rendered_Nil: "rendered [] []" by (simp add: rendered_def)

lemma rendered_append: "rendered u w \<Longrightarrow> rendered u' w' \<Longrightarrow> rendered (u @ u') (w @ w')"
  by (simp add: rendered_def)

lemma rendered_sign: "c \<noteq> CHR 0x5C \<Longrightarrow> c \<noteq> CHR ''['' \<Longrightarrow> \<not> matchalpha c \<Longrightarrow> rendered [c] [c]"
  by (simp add: rendered_def flags_text_plain del: flags_text.simps)

lemma rendered_branch:
  "(\<And>x. x \<in> set b \<Longrightarrow> rendered (render_item x) (render_item (fold_item x))) \<Longrightarrow>
   rendered (render_branch b) (render_branch (map fold_item b))"
  by (induction b) (simp_all add: rendered_Nil rendered_append render_branch_def)

lemma rendered_expr:
  assumes "\<And>b x. b \<in> set bs \<Longrightarrow> x \<in> set b \<Longrightarrow> rendered (render_item x) (render_item (fold_item x))"
  shows "rendered (render_expr bs) (render_expr (map (map fold_item) bs))"
  using assms
proof (induction bs)
  case Nil
  then show ?case by (simp add: rendered_Nil render_expr_def)
next
  case (Cons b bs)
  have b: "rendered (render_branch b) (render_branch (map fold_item b))"
    using Cons.prems by (intro rendered_branch) auto
  have bs: "rendered (render_expr bs) (render_expr (map (map fold_item) bs))"
    using Cons by auto
  show ?case
  proof (cases bs)
    case Nil
    then show ?thesis using b by (simp add: render_expr_Cons)
  next
    case (Cons c cs)
    have "rendered [CHR ''|''] [CHR ''|'']" by (intro rendered_sign) (auto simp: matchalpha_def in_range_def)
    from rendered_append [OF b rendered_append [OF this bs]] show ?thesis
      using Cons by (simp add: render_expr_Cons2)
  qed
qed

lemma quantifier_no_letter: "isquantifier c \<Longrightarrow> \<not> matchalpha c"
  by (auto simp: isquantifier_def matchalpha_def in_range_def)

lemma rendered_trees:
  "wf_atom a \<Longrightarrow> rendered (render_atom a) (render_atom (fold_atom a))"
  "wf_item x \<Longrightarrow> rendered (render_item x) (render_item (fold_item x))"
proof (induction a and x)
  case (Single c)
  then show ?case using special [of c] by (simp add: rendered_def flags_text_plain del: flags_text.simps)
next
  case (Escape c)
  show ?case by (simp add: rendered_def flags_step_def)
next
  case (Class b)
  then show ?case using flags_text_class [of b] by (simp add: rendered_def flags_step_def)
next
  case (Group bs)
  have "rendered (render_expr bs) (render_expr (map (map fold_item) bs))"
    using Group by (intro rendered_expr) auto
  note inner = this
  have par: "rendered [CHR ''(''] [CHR ''('']" "rendered [CHR '')''] [CHR '')'']"
    by (intro rendered_sign; simp add: matchalpha_def in_range_def)+
  from rendered_append [OF par(1) rendered_append [OF inner par(2)]]
  have "rendered (CHR ''('' # render_expr bs @ [CHR '')'']) (CHR ''('' # render_expr (map (map fold_item) bs) @ [CHR '')''])" by simp
  then show ?case using render_group [of bs] render_group [of "map (map fold_item) bs"] by (simp del: render_atom.simps)
next
  case (Item a q)
  show ?case
  proof (cases q)
    case None
    then show ?thesis using Item by simp
  next
    case (Some c)
    then have "isquantifier c" using Item by auto
    then have c: "rendered [c] [c]" using quantifier_plain [of c] quantifier_no_letter by (intro rendered_sign) auto
    show ?thesis using Item Some rendered_append [OF _ c] by simp
  qed
qed

text \<open>Letters and their cases.\<close>

lemma of_char_bound: "of_char c < (256 :: nat)"
  using of_char_of [where 'a = nat] nat_of_char_less_256 [of c] by simp

lemma of_char_case:
  "of_char (tolower c) = (let k = of_char c in if 65 \<le> k \<and> k \<le> 90 then k + 32 else k :: nat)"
  "of_char (toupper c) = (let k = of_char c in if 97 \<le> k \<and> k \<le> 122 then k - 32 else k :: nat)"
  using of_char_bound [of c] by (auto simp: tolower_def toupper_def in_range_def Let_def of_char_of take_bit_eq_mod)

lemma char_nat_eq: "c = d \<longleftrightarrow> of_char c = (of_char d :: nat)"
  by simp

lemmas letters = matchalpha_def in_range_def Let_def char_nat_eq of_char_case

lemma case_pair: "matchalpha c \<Longrightarrow> (x = tolower c \<or> x = toupper c) \<longleftrightarrow> tolower x = tolower c"
  unfolding letters by auto

lemma tolower_other: "\<not> matchalpha c \<Longrightarrow> tolower c = c \<and> (tolower x = c \<longleftrightarrow> x = c)"
  unfolding letters by auto

lemma tolower_meta: "matchdigit (tolower x) = matchdigit x" "matchalphanum (tolower x) = matchalphanum x"
  "matchwhitespace (tolower x) = matchwhitespace x"
  unfolding matchdigit_def matchalphanum_def matchwhitespace_def letters by auto

lemma letter_cases: "matchalpha c \<Longrightarrow> matchalpha (tolower c) \<and> matchalpha (toupper c)"
  unfolding letters by auto

lemma letter_signs: "matchalpha c \<Longrightarrow> c \<notin> set ''^$.-'' \<and> c \<noteq> CHR 0x5C \<and> c \<noteq> CHR '']''"
  by (auto simp: matchalpha_def in_range_def)

lemma letter_class:
  assumes "matchalpha c"
  shows "one_char (Class [tolower c, toupper c]) x \<longleftrightarrow> tolower x = tolower c"
proof -
  note l = letter_signs [OF letter_cases [OF assms, THEN conjunct1]] letter_signs [OF letter_cases [OF assms, THEN conjunct2]]
  have "matchcharclass_n x [tolower c, toupper c] \<longleftrightarrow> x = tolower c \<or> x = toupper c"
    using l by (simp add: matchcharclass_n_def class_loop.simps [of x _ 0] class_loop.simps [of x _ 1]
        class_loop.simps [of x _ "Suc 0"] class_loop.simps [of x _ 2] class_loop.simps [of x _ "Suc (Suc 0)"])
  then show ?thesis using l case_pair [OF assms] by auto
qed

lemma steps_map: "steps (map f t) P = steps t (\<lambda>x. P (f x))"
  by (auto simp: steps_def)

lemma meta_case: "ismetachar c \<or> \<not> matchalpha c \<Longrightarrow> matchmetachar (tolower x) c = matchmetachar x c"
  using tolower_other [of c x] by (auto simp: matchmetachar_def tolower_meta ismetachar_def)

lemma fold_meaning:
  "caseless_atom a \<Longrightarrow> den_atom t (fold_atom a) = den_atom (map tolower t) (small_atom a)"
  "caseless_item x \<Longrightarrow> den_item t (fold_item x) = den_item (map tolower t) (small_item x)"
proof (induction a and x)
  case (Single c)
  show ?case
  proof (cases "matchalpha c")
    case True
    note l = letter_signs [OF letter_cases [OF True, THEN conjunct1]]
    have "one_char (Class [tolower c, toupper c]) = (\<lambda>x. one_char (Single (tolower c)) (tolower x))"
      using letter_class [OF True] l by (simp add: fun_eq_iff)
    then show ?thesis using True l by (simp add: steps_map del: one_char.simps)
  next
    case False
    moreover have "one_char (Single c) = (\<lambda>x. c = CHR ''.'' \<or> x = c)" by (simp add: fun_eq_iff)
    ultimately show ?thesis using tolower_other [OF False] by (simp add: steps_map)
  qed
next
  case (Escape c)
  have "one_char (Escape c) = (\<lambda>x. matchmetachar x c)" by (simp add: fun_eq_iff)
  with Escape show ?case using meta_case [of c] by (simp add: steps_map)
next
  case (Group bs)
  then have "den_branch t (map fold_item b) = den_branch (map tolower t) (map small_item b)" if "b \<in> set bs" for b
    using that unfolding den_branch_def by (intro arg_cong [of _ _ "\<lambda>xs. foldr (O) xs Id"]) auto
  then show ?case by (simp add: den_group den_expr_def)
next
  case (Item a q)
  then show ?case by (simp split: option.split)
qed simp

lemma fold_wf:
  "wf_atom a \<Longrightarrow> caseless_atom a \<Longrightarrow> wf_atom (fold_atom a)"
  "wf_item x \<Longrightarrow> caseless_item x \<Longrightarrow> wf_item (fold_item x)"
proof (induction a and x)
  case (Single c)
  then show ?case using letter_cases [of c] letter_signs [of "tolower c"] letter_signs [of "toupper c"] by simp
next
  case (Item a q)
  have "fold_atom a = Single c \<Longrightarrow> a = Single c" for c by (cases a) (auto split: if_splits)
  then show ?case using Item by (auto split: option.splits)
qed auto

text \<open>
  C30: a pattern in which case is ignored.  A pattern without classes, in which no letter is escaped except the
  metacharacters, is replaced by a pattern of the grammar that relates the same places of a text as the
  pattern in small letters does in the text in small letters.
\<close>

theorem ignored_case_meaning:
  assumes "never_fails h" "wf_expr bs" "\<forall>b\<in>set bs. \<forall>x\<in>set b. caseless_item x"
  shows "\<exists>cs. regex_expand_flags h (render_expr bs) True = Some (Some (render_expr cs), h) \<and> wf_expr cs \<and>
    (\<forall>t. den_expr t cs = den_expr (map tolower t) (map (map small_item) bs))"
proof -
  let ?cs = "map (map fold_item) bs"
  have "rendered (render_expr bs) (render_expr ?cs)"
    using assms(2) rendered_trees(2) by (intro rendered_expr) (auto simp: wf_expr_def)
  then have "flags_text False False (render_expr bs @ []) = render_expr ?cs @ flags_text False False []"
    unfolding rendered_def by (rule spec)
  then have "flags_text False False (render_expr bs) = render_expr ?cs" by simp
  moreover have "wf_expr ?cs" using assms(2,3) fold_wf(2) by (auto simp: wf_expr_def)
  ultimately have rest: "regex_expand_flags h (render_expr bs) True = Some (Some (render_expr ?cs), h)" "wf_expr ?cs"
    using expand_flags_result [of h "render_expr bs"] alloc_plenty [OF assms(1)] by simp_all
  have "den_branch t (map fold_item b) = den_branch (map tolower t) (map small_item b)" if "b \<in> set bs" for t b
    using assms(3) that fold_meaning(2) unfolding den_branch_def
    by (intro arg_cong [of _ _ "\<lambda>xs. foldr (O) xs Id"]) auto
  then have meaning: "den_expr t ?cs = den_expr (map tolower t) (map (map small_item) bs)" for t
    unfolding den_expr_def by simp
  from rest meaning show ?thesis by blast
qed

theorem ignored_case_meaning_witness:
  "regex_expand_flags plenty ''aB+'' True = Some (Some ''[aA][bB]+'', plenty) \<and>
   (\<exists>cs. regex_expand_flags plenty ''aB+'' True = Some (Some (render_expr cs), plenty) \<and> wf_expr cs \<and>
     (\<forall>t. den_expr t cs = den_expr (map tolower t) [[Item (Single CHR ''a'') None, Item (Single CHR ''b'') (Some CHR ''+'')]]))"
proof -
  let ?bs = "[[Item (Single CHR ''a'') None, Item (Single CHR ''B'') (Some CHR ''+'')]]"
  have cases: "tolower CHR ''a'' = CHR ''a''" "toupper CHR ''a'' = CHR ''A''" "tolower CHR ''B'' = CHR ''b''" "toupper CHR ''B'' = CHR ''B''"
    by code_simp+
  have "never_fails plenty" by (simp add: plenty_def)
  moreover have "wf_expr ?bs" by (auto simp: wf_expr_def SPECIAL_def isquantifier_def)
  ultimately have "\<exists>cs. regex_expand_flags plenty (render_expr ?bs) True = Some (Some (render_expr cs), plenty) \<and> wf_expr cs \<and>
      (\<forall>t. den_expr t cs = den_expr (map tolower t) (map (map small_item) ?bs))"
    by (intro ignored_case_meaning) auto
  moreover have "render_expr ?bs = ''aB+''" by (simp add: render_expr_def render_branch_def)
  moreover have "map (map small_item) ?bs = [[Item (Single CHR ''a'') None, Item (Single CHR ''b'') (Some CHR ''+'')]]"
    by (simp add: cases)
  moreover have "regex_expand_flags plenty ''aB+'' True = Some (Some ''[aA][bB]+'', plenty)"
    using alloc_plenty [of plenty] \<open>never_fails plenty\<close>
    by (simp add: expand_flags_result flags_step_def matchalpha_def in_range_def cases)
  ultimately show ?thesis by simp
qed

end
