(* ===== verification/Regex_Functions.thy ===== *)
theory Regex_Functions
  imports Regex_Prepare Eval_Values
begin

text \<open>
  The regular expression functions of scripts (\<^verbatim>\<open>exprtk/src/mod_regex.c\<close>): the table of compiled patterns and
  its handles, the search from a place in a text, and the functions that match, find, split and replace.
  Splitting, replacing and finding agree with each other; through any sequence of calls a handle stands for its
  pattern until it is freed.
\<close>

section \<open>State\<close>

text \<open>
  A stored pattern has its source, the prepared pattern and the flag for case.  The state of the module is the
  environment of the call, for errors, the table in the root environment (\<^verbatim>\<open>regex_ctx\<close>, \<open>None\<close> before its first
  use), the static buffer of the engine and the memory.  Results are \<open>None\<close> when a function of this file takes a part of a text that is not in it or writes past the size of
  its buffer; sizes are natural numbers.
\<close>

record regex_pattern =
  rp_pattern :: bytes
  rp_compiled :: bytes
  rp_flags :: bool

record regex_state =
  rx_env :: exprtk_env
  rx_table :: "regex_pattern option list option"
  rx_buf :: bytes
  rx_heap :: heap

definition rx_error :: "bytes \<Rightarrow> regex_state \<Rightarrow> regex_state" where
  "rx_error msg st = st\<lparr>rx_env := regex_set_error msg (rx_env st)\<rparr>"

definition FP_MINUS_ONE :: u64 where "FP_MINUS_ONE = 0xBFF0000000000000"
definition INT_MAX :: int where "INT_MAX = 2147483647"
definition too_long :: "nat \<Rightarrow> bool" where "too_long n \<longleftrightarrow> INT_MAX < int n"

text \<open>\<^verbatim>\<open>(double)n\<close> of a \<^verbatim>\<open>size_t\<close> below \<open>2 ^ 63\<close>.\<close>

definition num_of_size :: "fpu \<Rightarrow> nat \<Rightarrow> exprtk_value" where
  "num_of_size F n = ENumber (fp_of_int F (of_nat n))"

definition regex_copy_string :: "heap \<Rightarrow> bytes \<Rightarrow> exprtk_value \<times> heap" where
  "regex_copy_string h data = (case alloc h of (ok, h') \<Rightarrow> (if ok then EString None (Buf data) else ENumber 0, h'))"

text \<open>A string that cannot be copied is reported, a failed push is not.\<close>

definition regex_list_push_string :: "order \<Rightarrow> heap \<Rightarrow> exprtk_value \<Rightarrow> bytes \<Rightarrow> exprtk_value option \<times> heap" where
  "regex_list_push_string order h list data =
     (case regex_copy_string h data of
        (item, h1) \<Rightarrow>
          if \<not> is_string item then (None, h1)
          else (case exprtk_list_push order h1 list item of (r, list', h2) \<Rightarrow> (Some list', h2)))"

section \<open>Handles\<close>

definition MAX_PATTERNS :: nat where "MAX_PATTERNS = 32"

definition regex_get_ctx :: "regex_state \<Rightarrow> regex_state" where
  "regex_get_ctx st =
     (case rx_table st of
        Some tab \<Rightarrow> st
      | None \<Rightarrow>
          (case alloc (rx_heap st) of
             (ok, h') \<Rightarrow> st\<lparr>rx_heap := h', rx_table := if ok then Some (replicate MAX_PATTERNS None) else None\<rparr>))"

fun free_slot :: "'a option list \<Rightarrow> nat option" where
  "free_slot [] = None"
| "free_slot (None # tab) = Some 0"
| "free_slot (Some p # tab) = map_option Suc (free_slot tab)"

definition regex_alloc_handle :: "regex_pattern option list \<Rightarrow> regex_pattern \<Rightarrow> (nat \<times> regex_pattern option list) option" where
  "regex_alloc_handle tab p = map_option (\<lambda>i. (i, tab[i := Some p])) (free_slot tab)"

fun regex_arg_handle :: "fpu \<Rightarrow> exprtk_value \<Rightarrow> int" where
  "regex_arg_handle F (EInteger i) = cast_int i"
| "regex_arg_handle F (ENumber x) = fp_to_int F x"
| "regex_arg_handle F v = - 1"

definition regex_slot :: "regex_pattern option list option \<Rightarrow> int \<Rightarrow> regex_pattern option" where
  "regex_slot table handle =
     (case table of
        None \<Rightarrow> None
      | Some tab \<Rightarrow> if handle < 0 \<or> int MAX_PATTERNS \<le> handle then None else tab ! nat handle)"

definition regex_get_handle :: "fpu \<Rightarrow> regex_state \<Rightarrow> exprtk_value \<Rightarrow> regex_pattern option \<times> regex_state" where
  "regex_get_handle F st value =
     (let st1 = regex_get_ctx st in
      case regex_slot (rx_table st1) (regex_arg_handle F value) of
        None \<Rightarrow> (None, rx_error ''regex: invalid pattern handle'' st1)
      | Some p \<Rightarrow> (Some p, st1))"

text \<open>\<^verbatim>\<open>regex_free\<close> and \<^verbatim>\<open>RegExp.free\<close>, for a handle.\<close>

definition free_handle :: "regex_state \<Rightarrow> int \<Rightarrow> exprtk_value \<times> regex_state" where
  "free_handle st handle =
     (case rx_table st of
        None \<Rightarrow> (ENumber 0, st)
      | Some tab \<Rightarrow>
          if handle < 0 \<or> int MAX_PATTERNS \<le> handle then (ENumber 0, st)
          else (ENumber FP_ONE, st\<lparr>rx_table := Some (tab[nat handle := None])\<rparr>))"

section \<open>Patterns of a call\<close>

definition regex_validate_prepared :: "regex_state \<Rightarrow> bytes \<Rightarrow> bool \<times> regex_state" where
  "regex_validate_prepared st pattern =
     (case re_compile (rx_buf st) (Some pattern) of
        (ok, buf) \<Rightarrow>
          let st1 = st\<lparr>rx_buf := buf\<rparr> in
          if ok then (True, st1) else (False, rx_error ''regex: pattern compilation failed'' st1))"

definition rx_prepare :: "regex_state \<Rightarrow> bytes \<Rightarrow> bool \<Rightarrow> bool \<Rightarrow> (bytes option \<times> regex_state) option" where
  "rx_prepare st pattern flags anchored =
     map_option (\<lambda>(r, env, h). (r, st\<lparr>rx_env := env, rx_heap := h\<rparr>))
       (regex_prepare_pattern (rx_heap st) pattern flags anchored (rx_env st))"

text \<open>Preparing and checking, as \<^verbatim>\<open>regex_compile_arg\<close> and the constructors do.\<close>

definition prepare_checked :: "regex_state \<Rightarrow> bytes \<Rightarrow> bool \<Rightarrow> (bytes option \<times> regex_state) option" where
  "prepare_checked st pattern flags =
     (case rx_prepare st pattern flags False of
        None \<Rightarrow> None
      | Some (None, st1) \<Rightarrow> Some (None, st1)
      | Some (Some compiled, st1) \<Rightarrow>
          (case regex_validate_prepared st1 compiled of
             (ok, st2) \<Rightarrow> Some (if ok then Some compiled else None, st2)))"

definition regex_compile_arg :: "fpu \<Rightarrow> regex_state \<Rightarrow> exprtk_value \<Rightarrow> bool \<Rightarrow> (bytes option \<times> regex_state) option" where
  "regex_compile_arg F st value flags =
     (case value of
        EString s v \<Rightarrow>
          (case regex_arena_string (rx_heap st) (buf_elems v) of
             (None, h') \<Rightarrow> Some (None, rx_error ''regex: out of memory'' (st\<lparr>rx_heap := h'\<rparr>))
           | (Some pattern, h') \<Rightarrow> prepare_checked (st\<lparr>rx_heap := h'\<rparr>) pattern flags)
      | EInteger i \<Rightarrow> (case regex_get_handle F st value of (p, st1) \<Rightarrow> Some (map_option rp_compiled p, st1))
      | ENumber x \<Rightarrow> (case regex_get_handle F st value of (p, st1) \<Rightarrow> Some (map_option rp_compiled p, st1))
      | _ \<Rightarrow> Some (None, rx_error ''regex: expected pattern string or compiled handle'' st))"

section \<open>Matching and finding\<close>

definition regex_accepts_span ::
  "(nat \<Rightarrow> bool) \<Rightarrow> regex_state \<Rightarrow> bytes \<Rightarrow> bytes \<Rightarrow> (bool \<times> regex_state) option" where
  "regex_accepts_span room st compiled_pattern data =
     (if too_long (length data) then Some (False, rx_error ''regex: input is too large'' st)
      else
        (case rx_prepare st compiled_pattern False True of
           None \<Rightarrow> None
         | Some (None, st1) \<Rightarrow> Some (False, st1)
         | Some (Some anchored, st1) \<Rightarrow>
             (case re_compile (rx_buf st1) (Some anchored) of
                (compiled, buf) \<Rightarrow>
                  let st2 = st1\<lparr>rx_buf := buf\<rparr> in
                  if \<not> compiled then Some (False, rx_error ''regex: pattern compilation failed'' st2)
                  else
                    (case regex_strdup_len (rx_heap st2) data of
                       (None, h') \<Rightarrow> Some (False, st2\<lparr>rx_heap := h'\<rparr>)
                     | (Some text, h') \<Rightarrow>
                         Some (re_matchp room compiled (rx_buf st2) (Some text) = Some (0, length data), st2\<lparr>rx_heap := h'\<rparr>)))))"

definition regex_find ::
  "(nat \<Rightarrow> bool) \<Rightarrow> regex_state \<Rightarrow> bytes \<Rightarrow> bytes \<Rightarrow> nat \<Rightarrow> (nat \<times> nat) option \<times> regex_state" where
  "regex_find room st compiled_pattern data start_at =
     (if length data \<le> start_at \<or> too_long (length data - start_at) then (None, st)
      else
        (case re_compile (rx_buf st) (Some compiled_pattern) of
           (compiled, buf) \<Rightarrow>
             let st1 = st\<lparr>rx_buf := buf\<rparr> in
             if \<not> compiled then (None, rx_error ''regex: pattern compilation failed'' st1)
             else
               (case regex_strdup_len (rx_heap st1) (drop start_at data) of
                  (None, h') \<Rightarrow> (None, rx_error ''regex: out of memory'' (st1\<lparr>rx_heap := h'\<rparr>))
                | (Some text, h') \<Rightarrow>
                    (case re_matchp room compiled (rx_buf st1) (Some text) of
                       None \<Rightarrow> (None, st1\<lparr>rx_heap := h'\<rparr>)
                     | Some (idx, match_len) \<Rightarrow>
                         if match_len = 0 then (None, st1\<lparr>rx_heap := h'\<rparr>)
                         else (Some (start_at + idx, start_at + idx + match_len), st1\<lparr>rx_heap := h'\<rparr>)))))"

lemma regex_find_progress: "regex_find room st p data c = (Some (s, e), st') \<Longrightarrow> c \<le> s \<and> s < e \<and> c < length data"
  by (auto simp: regex_find_def Let_def split: if_splits option.splits prod.splits)

text \<open>\<^verbatim>\<open>data + start\<close>, of \<^verbatim>\<open>end - start\<close> bytes.\<close>

definition text_part :: "bytes \<Rightarrow> nat \<Rightarrow> nat \<Rightarrow> bytes option" where
  "text_part data s e = (if s \<le> e \<and> e \<le> length data then Some (take (e - s) (drop s data)) else None)"

definition next_cursor :: "nat \<Rightarrow> nat \<Rightarrow> nat" where
  "next_cursor s e = (if s < e then e else s + 1)"

definition regex_match_map ::
  "fpu \<Rightarrow> order \<Rightarrow> heap \<Rightarrow> bytes \<Rightarrow> (nat \<times> nat) option \<Rightarrow> (exprtk_value \<times> heap) option" where
  "regex_match_map F order h data found =
     (let (m0, h0) = exprtk_val_map VAL_MAP h;
          (r1, m1, h1) = exprtk_map_set order h0 m0 ''matched'' (num_bool (found \<noteq> None));
          number = (\<lambda>n. case n of Some k \<Rightarrow> num_of_size F k | None \<Rightarrow> ENumber FP_MINUS_ONE);
          (r2, m2, h2) = exprtk_map_set order h1 m1 ''start'' (number (map_option fst found));
          (r3, m3, h3) = exprtk_map_set order h2 m2 ''end'' (number (map_option snd found)) in
      case (case found of None \<Rightarrow> Some [] | Some (s, e) \<Rightarrow> text_part data s e) of
        None \<Rightarrow> None
      | Some part \<Rightarrow>
          let (v, h4) = regex_copy_string h3 part;
              (r4, m4, h5) = exprtk_map_set order h4 m3 ''text'' v in
          Some (m4, h5))"

section \<open>The functions of the module\<close>

definition regex_optional_flags :: "regex_state \<Rightarrow> exprtk_value list \<Rightarrow> nat \<Rightarrow> bool option \<times> regex_state" where
  "regex_optional_flags st args index =
     (if length args \<le> index then (Some False, st)
      else if \<not> is_string (args ! index) then (None, rx_error ''regex: flags must be a string'' st)
      else (Some (regex_parse_flags (text_of (args ! index))), st))"

text \<open>
  The beginning of the functions with the arguments pattern, text and flags: the pattern to search for, or
  \<open>None\<close> when the function has returned zero.
\<close>

definition pattern_and_text ::
  "fpu \<Rightarrow> bytes \<Rightarrow> regex_state \<Rightarrow> exprtk_value list \<Rightarrow> (bytes option \<times> regex_state) option" where
  "pattern_and_text F usage st args =
     (if \<not> (length args = 2 \<or> length args = 3) \<or> \<not> is_string (args ! 1) then Some (None, rx_error usage st)
      else
        (case regex_optional_flags st args 2 of
           (None, st1) \<Rightarrow> Some (None, st1)
         | (Some flags, st1) \<Rightarrow> regex_compile_arg F st1 (args ! 0) flags))"

definition with_pattern ::
  "fpu \<Rightarrow> bytes \<Rightarrow> (bytes \<Rightarrow> bytes \<Rightarrow> regex_state \<Rightarrow> (exprtk_value \<times> regex_state) option) \<Rightarrow>
   regex_state \<Rightarrow> exprtk_value list \<Rightarrow> (exprtk_value \<times> regex_state) option" where
  "with_pattern F usage body st args =
     (case pattern_and_text F usage st args of
        None \<Rightarrow> None
      | Some (None, st1) \<Rightarrow> Some (ENumber 0, st1)
      | Some (Some compiled, st1) \<Rightarrow> body compiled (text_of (args ! 1)) st1)"

definition match_body ::
  "(nat \<Rightarrow> bool) \<Rightarrow> bytes \<Rightarrow> bytes \<Rightarrow> regex_state \<Rightarrow> (exprtk_value \<times> regex_state) option" where
  "match_body room compiled data st =
     map_option (\<lambda>(ok, st1). (num_bool ok, st1)) (regex_accepts_span room st compiled data)"

definition fn_regex_match where
  "fn_regex_match F room =
     with_pattern F ''regex.match: expected (pattern_or_handle, string [, flags])'' (match_body room)"

definition search_body ::
  "fpu \<Rightarrow> (nat \<Rightarrow> bool) \<Rightarrow> bytes \<Rightarrow> bytes \<Rightarrow> regex_state \<Rightarrow> (exprtk_value \<times> regex_state) option" where
  "search_body F room compiled data st =
     (case regex_find room st compiled data 0 of
        (found, st1) \<Rightarrow> Some (case found of Some (s, e) \<Rightarrow> num_of_size F s | None \<Rightarrow> ENumber FP_MINUS_ONE, st1))"

definition fn_regex_search where
  "fn_regex_search F room =
     with_pattern F ''regex.search: expected (pattern_or_handle, string [, flags])'' (search_body F room)"

lemma next_cursor_progress:
  assumes "\<not> length data < c" "(Some (s, e), st') = regex_find room st p data c"
  shows "Suc (length data) - next_cursor s e < Suc (length data) - c"
  using assms(1) regex_find_progress [OF assms(2) [symmetric]] by (auto simp: next_cursor_def)

function find_all_loop ::
  "(nat \<Rightarrow> bool) \<Rightarrow> order \<Rightarrow> bytes \<Rightarrow> bytes \<Rightarrow> nat \<Rightarrow> exprtk_value \<Rightarrow> regex_state \<Rightarrow> (exprtk_value \<times> regex_state) option" where
  "find_all_loop room order compiled data cursor list st =
     (if length data < cursor then Some (list, st)
      else
        (case regex_find room st compiled data cursor of
           (None, st1) \<Rightarrow> Some (list, st1)
         | (Some (s, e), st1) \<Rightarrow>
             (case text_part data s e of
                None \<Rightarrow> None
              | Some part \<Rightarrow>
                  (case regex_list_push_string order (rx_heap st1) list part of
                     (None, h') \<Rightarrow> Some (ENumber 0, st1\<lparr>rx_heap := h'\<rparr>)
                   | (Some list', h') \<Rightarrow>
                       find_all_loop room order compiled data (next_cursor s e) list' (st1\<lparr>rx_heap := h'\<rparr>)))))"
  by pat_completeness auto

termination
  by (relation "measure (\<lambda>(room, order, p, data, cursor, list, st). Suc (length data) - cursor)")
     (auto intro: next_cursor_progress)

declare find_all_loop.simps [simp del]

definition fn_regex_find_all where
  "fn_regex_find_all F room order =
     with_pattern F ''regex.find_all: expected (pattern_or_handle, string [, flags])''
       (\<lambda>compiled data. find_all_loop room order compiled data 0 exprtk_val_list_empty)"

definition match_info_body ::
  "fpu \<Rightarrow> (nat \<Rightarrow> bool) \<Rightarrow> order \<Rightarrow> bytes \<Rightarrow> bytes \<Rightarrow> regex_state \<Rightarrow> (exprtk_value \<times> regex_state) option" where
  "match_info_body F room order compiled data st =
     (case regex_find room st compiled data 0 of
        (found, st1) \<Rightarrow> map_option (\<lambda>(m, h'). (m, st1\<lparr>rx_heap := h'\<rparr>)) (regex_match_map F order (rx_heap st1) data found))"

definition fn_regex_match_info where
  "fn_regex_match_info F room order =
     with_pattern F ''regex.match_info: expected (pattern_or_handle, string [, flags])'' (match_info_body F room order)"

function find_iter_loop ::
  "fpu \<Rightarrow> (nat \<Rightarrow> bool) \<Rightarrow> order \<Rightarrow> bytes \<Rightarrow> bytes \<Rightarrow> nat \<Rightarrow> exprtk_value \<Rightarrow> regex_state \<Rightarrow> (exprtk_value \<times> regex_state) option" where
  "find_iter_loop F room order compiled data cursor list st =
     (if length data < cursor then Some (list, st)
      else
        (case regex_find room st compiled data cursor of
           (None, st1) \<Rightarrow> Some (list, st1)
         | (Some (s, e), st1) \<Rightarrow>
             (case regex_match_map F order (rx_heap st1) data (Some (s, e)) of
                None \<Rightarrow> None
              | Some (m, h1) \<Rightarrow>
                  (case exprtk_list_push order h1 list m of
                     (r, list', h2) \<Rightarrow>
                       find_iter_loop F room order compiled data (next_cursor s e) list' (st1\<lparr>rx_heap := h2\<rparr>)))))"
  by pat_completeness auto

termination
  by (relation "measure (\<lambda>(F, room, order, p, data, cursor, list, st). Suc (length data) - cursor)")
     (auto intro: next_cursor_progress)

declare find_iter_loop.simps [simp del]

definition fn_regex_find_iter where
  "fn_regex_find_iter F room order =
     with_pattern F ''regex.find_iter: expected (pattern_or_handle, string [, flags])''
       (\<lambda>compiled data. find_iter_loop F room order compiled data 0 exprtk_val_list_empty)"

text \<open>The optional limit and flags behind the first \<open>k\<close> arguments; a string in the place of the limit is the flags.\<close>

definition limit_and_flags ::
  "fpu \<Rightarrow> bytes \<Rightarrow> regex_state \<Rightarrow> exprtk_value list \<Rightarrow> nat \<Rightarrow> (int \<times> bool) option \<times> regex_state" where
  "limit_and_flags F name st args k =
     (if length args \<le> k then (Some (0, False), st)
      else if is_string (args ! k) then (Some (0, regex_parse_flags (text_of (args ! k))), st)
      else
        (case index_int F (args ! k) of
           None \<Rightarrow> (None, rx_error (name @ '': limit must be numeric'') st)
         | Some limit \<Rightarrow>
             if length args = k + 2
             then
               if \<not> is_string (args ! (k + 1)) then (None, rx_error (name @ '': flags must be a string'') st)
               else (Some (limit, regex_parse_flags (text_of (args ! (k + 1)))), st)
             else (Some (limit, False), st)))"

function split_loop ::
  "(nat \<Rightarrow> bool) \<Rightarrow> order \<Rightarrow> bytes \<Rightarrow> bytes \<Rightarrow> int \<Rightarrow> int \<Rightarrow> nat \<Rightarrow> exprtk_value \<Rightarrow> regex_state \<Rightarrow>
   (exprtk_value \<times> regex_state) option" where
  "split_loop room order compiled data limit splits cursor list st =
     (let finish = (\<lambda>st1.
            case text_part data cursor (length data) of
              None \<Rightarrow> None
            | Some part \<Rightarrow>
                (case regex_list_push_string order (rx_heap st1) list part of
                   (None, h') \<Rightarrow> Some (ENumber 0, st1\<lparr>rx_heap := h'\<rparr>)
                 | (Some list', h') \<Rightarrow> Some (list', st1\<lparr>rx_heap := h'\<rparr>))) in
      if length data < cursor \<or> \<not> (limit \<le> 0 \<or> splits < limit) then finish st
      else
        (case regex_find room st compiled data cursor of
           (None, st1) \<Rightarrow> finish st1
         | (Some (s, e), st1) \<Rightarrow>
             (case text_part data cursor s of
                None \<Rightarrow> None
              | Some part \<Rightarrow>
                  (case regex_list_push_string order (rx_heap st1) list part of
                     (None, h') \<Rightarrow> Some (ENumber 0, st1\<lparr>rx_heap := h'\<rparr>)
                   | (Some list', h') \<Rightarrow>
                       split_loop room order compiled data limit (splits + 1) (next_cursor s e) list' (st1\<lparr>rx_heap := h'\<rparr>)))))"
  by pat_completeness auto

termination
  by (relation "measure (\<lambda>(room, order, p, data, limit, splits, cursor, list, st). Suc (length data) - cursor)")
     (auto intro: next_cursor_progress)

declare split_loop.simps [simp del]

definition fn_regex_split ::
  "fpu \<Rightarrow> (nat \<Rightarrow> bool) \<Rightarrow> order \<Rightarrow> regex_state \<Rightarrow> exprtk_value list \<Rightarrow> (exprtk_value \<times> regex_state) option" where
  "fn_regex_split F room order st args =
     (if length args < 2 \<or> 4 < length args \<or> \<not> is_string (args ! 1)
      then Some (ENumber 0, rx_error ''regex.split: expected (pattern_or_handle, string [, limit] [, flags])'' st)
      else
        (case limit_and_flags F ''regex.split'' st args 2 of
           (None, st1) \<Rightarrow> Some (ENumber 0, st1)
         | (Some (limit, flags), st1) \<Rightarrow>
             (case regex_compile_arg F st1 (args ! 0) flags of
                None \<Rightarrow> None
              | Some (None, st2) \<Rightarrow> Some (ENumber 0, st2)
              | Some (Some compiled, st2) \<Rightarrow>
                  split_loop room order compiled (text_of (args ! 1)) limit 0 0 exprtk_val_list_empty st2)))"

text \<open>The buffer of \<^verbatim>\<open>regex.replace\<close> is its content and its capacity; \<open>None\<close> stands for no memory.\<close>

definition replace_reserve :: "heap \<Rightarrow> nat \<Rightarrow> nat \<Rightarrow> nat \<Rightarrow> nat option \<times> heap" where
  "replace_reserve h cap needed new_cap =
     (if cap < needed then (case alloc h of (ok, h') \<Rightarrow> (if ok then Some new_cap else None, h')) else (Some cap, h))"

function replace_loop ::
  "(nat \<Rightarrow> bool) \<Rightarrow> bytes \<Rightarrow> bytes \<Rightarrow> bytes \<Rightarrow> int \<Rightarrow> int \<Rightarrow> nat \<Rightarrow> bytes \<Rightarrow> nat \<Rightarrow> regex_state \<Rightarrow>
   (exprtk_value \<times> regex_state) option" where
  "replace_loop room compiled data replacement limit count cursor out cap st =
     (let finish = (\<lambda>st1.
            if cursor < length data
            then
              let rest = length data - cursor in
              (case replace_reserve (rx_heap st1) cap (length out + rest + 1) (length out + rest + 1) of
                 (None, h') \<Rightarrow> Some (ENumber 0, st1\<lparr>rx_heap := h'\<rparr>)
               | (Some cap', h') \<Rightarrow>
                   map_option (\<lambda>out'. (EString None (Buf out'), st1\<lparr>rx_heap := h'\<rparr>)) (put_string cap' out (drop cursor data)))
            else map_option (\<lambda>out'. (EString None (Buf out'), st1)) (put_string cap out [])) in
      if length data < cursor \<or> \<not> (limit \<le> 0 \<or> count < limit) then finish st
      else
        (case regex_find room st compiled data cursor of
           (None, st1) \<Rightarrow> finish st1
         | (Some (s, e), st1) \<Rightarrow>
             let extra = s - cursor + length replacement in
             (case replace_reserve (rx_heap st1) cap (length out + extra + 1) ((length out + extra + 1) * 2) of
                (None, h') \<Rightarrow> Some (ENumber 0, st1\<lparr>rx_heap := h'\<rparr>)
              | (Some cap', h') \<Rightarrow>
                  (case text_part data cursor s of
                     None \<Rightarrow> None
                   | Some part \<Rightarrow>
                       (case put cap' out (part @ replacement) of
                          None \<Rightarrow> None
                        | Some out' \<Rightarrow>
                            replace_loop room compiled data replacement limit (count + 1) (next_cursor s e) out' cap'
                              (st1\<lparr>rx_heap := h'\<rparr>))))))"
  by pat_completeness auto

termination
  by (relation "measure (\<lambda>(room, p, data, r, limit, count, cursor, out, cap, st). Suc (length data) - cursor)")
     (auto intro: next_cursor_progress)

declare replace_loop.simps [simp del]

definition fn_regex_replace ::
  "fpu \<Rightarrow> (nat \<Rightarrow> bool) \<Rightarrow> regex_state \<Rightarrow> exprtk_value list \<Rightarrow> (exprtk_value \<times> regex_state) option" where
  "fn_regex_replace F room st args =
     (if length args < 3 \<or> 5 < length args \<or> \<not> is_string (args ! 1) \<or> \<not> is_string (args ! 2)
      then Some (ENumber 0, rx_error ''regex.replace: expected (pattern_or_handle, string, replacement [, limit] [, flags])'' st)
      else
        (case limit_and_flags F ''regex.replace'' st args 3 of
           (None, st1) \<Rightarrow> Some (ENumber 0, st1)
         | (Some (limit, flags), st1) \<Rightarrow>
             (case regex_compile_arg F st1 (args ! 0) flags of
                None \<Rightarrow> None
              | Some (None, st2) \<Rightarrow> Some (ENumber 0, st2)
              | Some (Some compiled, st2) \<Rightarrow>
                  let data = text_of (args ! 1) in
                  (case alloc (rx_heap st2) of
                     (ok, h') \<Rightarrow>
                       if \<not> ok then Some (ENumber 0, rx_error ''regex.replace: out of memory'' (st2\<lparr>rx_heap := h'\<rparr>))
                       else replace_loop room compiled data (text_of (args ! 2)) limit 0 0 [] (length data + 1) (st2\<lparr>rx_heap := h'\<rparr>)))))"

section \<open>Compiled patterns and RegExp objects\<close>

text \<open>The common body of \<^verbatim>\<open>fn_regex_compile\<close> and \<^verbatim>\<open>fn_regexp_ctor\<close>, which differ in the name in their messages.\<close>

definition compile_handle ::
  "bytes \<Rightarrow> regex_state \<Rightarrow> exprtk_value list \<Rightarrow> ((nat \<times> regex_pattern) option \<times> regex_state) option" where
  "compile_handle name st args =
     (if \<not> (length args = 1 \<or> length args = 2) \<or> \<not> is_string (args ! 0)
      then Some (None, rx_error (name @ '': expected string pattern [, flags]'') st)
      else
        (case regex_optional_flags st args 1 of
           (None, st1) \<Rightarrow> Some (None, st1)
         | (Some flags, st1) \<Rightarrow>
             let st2 = regex_get_ctx st1 in
             (case regex_arena_string (rx_heap st2) (text_of (args ! 0)) of
                (pattern, h') \<Rightarrow>
                  let st3 = st2\<lparr>rx_heap := h'\<rparr> in
                  (case (rx_table st3, pattern) of
                     (Some tab, Some pattern) \<Rightarrow>
                       (case prepare_checked st3 pattern flags of
                          None \<Rightarrow> None
                        | Some (None, st4) \<Rightarrow> Some (None, st4)
                        | Some (Some compiled, st4) \<Rightarrow>
                            (case alloc_all 2 (rx_heap st4) of
                               (ok, h5) \<Rightarrow>
                                 let st5 = st4\<lparr>rx_heap := h5\<rparr>;
                                     p = \<lparr>rp_pattern = pattern, rp_compiled = compiled, rp_flags = flags\<rparr> in
                                 if \<not> ok then Some (None, rx_error (name @ '': out of memory'') st5)
                                 else
                                   (case regex_alloc_handle tab p of
                                      None \<Rightarrow> Some (None, rx_error (name @ '': too many compiled patterns'') st5)
                                    | Some (i, tab') \<Rightarrow> Some (Some (i, p), st5\<lparr>rx_table := Some tab'\<rparr>))))
                   | _ \<Rightarrow> Some (None, rx_error (name @ '': out of memory'') st3)))))"

definition fn_regex_compile :: "regex_state \<Rightarrow> exprtk_value list \<Rightarrow> (exprtk_value \<times> regex_state) option" where
  "fn_regex_compile st args =
     map_option (\<lambda>(r, st1). (case r of None \<Rightarrow> ENumber 0 | Some (i, p) \<Rightarrow> EInteger (of_nat i), st1))
       (compile_handle ''regex.compile'' st args)"

definition fn_regex_free :: "fpu \<Rightarrow> regex_state \<Rightarrow> exprtk_value list \<Rightarrow> exprtk_value \<times> regex_state" where
  "fn_regex_free F st args =
     (if length args \<noteq> 1 then (ENumber 0, st) else free_handle (regex_get_ctx st) (regex_arg_handle F (args ! 0)))"

definition object_put :: "order \<Rightarrow> bytes \<Rightarrow> exprtk_value \<Rightarrow> exprtk_value \<times> heap \<Rightarrow> exprtk_value \<times> heap" where
  "object_put order key v = (\<lambda>(m, h). case exprtk_map_set order h m key v of (r, m', h') \<Rightarrow> (m', h'))"

definition regex_object_from_handle :: "order \<Rightarrow> heap \<Rightarrow> nat \<Rightarrow> regex_pattern \<Rightarrow> exprtk_value \<times> heap" where
  "regex_object_from_handle order h handle p =
     (let flags = (if rp_flags p then ''i'' else []);
          (m2, h2) = object_put order ''handle'' (EInteger (of_nat handle))
             (object_put order ''__ts_method_provider'' (EString None (Buf ''RegExp'')) (exprtk_val_map VAL_OBJECT h));
          (source, h3) = regex_copy_string h2 (rp_pattern p) in
      object_put order ''lastIndex'' (ENumber 0)
        (object_put order ''flags'' (EString None (Buf flags)) (object_put order ''source'' source (m2, h3))))"

definition fn_regexp_ctor :: "order \<Rightarrow> regex_state \<Rightarrow> exprtk_value list \<Rightarrow> (exprtk_value \<times> regex_state) option" where
  "fn_regexp_ctor order st args =
     (case compile_handle ''RegExp'' st args of
        None \<Rightarrow> None
      | Some (None, st1) \<Rightarrow> Some (ENull, st1)
      | Some (Some (i, p), st1) \<Rightarrow>
          (case regex_object_from_handle order (rx_heap st1) i p of (m, h') \<Rightarrow> Some (m, st1\<lparr>rx_heap := h'\<rparr>)))"

definition is_regexp_object :: "exprtk_value \<Rightarrow> bool" where
  "is_regexp_object value \<longleftrightarrow>
     (let provider = exprtk_map_get value ''__ts_method_provider'' in
      exprtk_value_is_object_like value \<and> exprtk_map_has value ''__ts_method_provider'' \<noteq> 0 \<and>
      exprtk_map_has value ''handle'' \<noteq> 0 \<and> is_string provider \<and> text_of provider = ''RegExp'')"

definition regex_object_handle :: "fpu \<Rightarrow> regex_state \<Rightarrow> exprtk_value \<Rightarrow> int \<times> regex_state" where
  "regex_object_handle F st value =
     (if \<not> is_regexp_object value then (- 1, rx_error ''RegExp: expected RegExp object'' st)
      else (regex_arg_handle F (exprtk_map_get value ''handle''), st))"

definition regex_object_pattern :: "fpu \<Rightarrow> regex_state \<Rightarrow> exprtk_value \<Rightarrow> regex_pattern option \<times> regex_state" where
  "regex_object_pattern F st value =
     (case regex_object_handle F (regex_get_ctx st) value of
        (handle, st1) \<Rightarrow>
          (case regex_slot (rx_table st1) handle of
             None \<Rightarrow> (None, rx_error ''RegExp: invalid pattern handle'' st1)
           | Some p \<Rightarrow> (Some p, st1)))"

definition with_object ::
  "fpu \<Rightarrow> bytes \<Rightarrow> exprtk_value \<Rightarrow> (bytes \<Rightarrow> bytes \<Rightarrow> regex_state \<Rightarrow> (exprtk_value \<times> regex_state) option) \<Rightarrow>
   regex_state \<Rightarrow> exprtk_value list \<Rightarrow> (exprtk_value \<times> regex_state) option" where
  "with_object F usage nothing body st args =
     (if length args \<noteq> 2 \<or> \<not> is_string (args ! 1) then Some (nothing, rx_error usage st)
      else
        (case regex_object_pattern F st (args ! 0) of
           (None, st1) \<Rightarrow> Some (nothing, st1)
         | (Some p, st1) \<Rightarrow> body (rp_compiled p) (text_of (args ! 1)) st1))"

definition test_body :: "(nat \<Rightarrow> bool) \<Rightarrow> bytes \<Rightarrow> bytes \<Rightarrow> regex_state \<Rightarrow> (exprtk_value \<times> regex_state) option" where
  "test_body room compiled data st =
     (case regex_find room st compiled data 0 of (found, st1) \<Rightarrow> Some (num_bool (found \<noteq> None), st1))"

definition fn_regexp_test where
  "fn_regexp_test F room = with_object F ''RegExp.test: expected (this, string)'' (ENumber 0) (test_body room)"

definition fn_regexp_match where
  "fn_regexp_match F room = with_object F ''RegExp.match: expected (this, string)'' (ENumber 0) (match_body room)"

definition fn_regexp_search where
  "fn_regexp_search F room = with_object F ''RegExp.search: expected (this, string)'' (ENumber 0) (search_body F room)"

definition exec_body ::
  "fpu \<Rightarrow> (nat \<Rightarrow> bool) \<Rightarrow> order \<Rightarrow> bytes \<Rightarrow> bytes \<Rightarrow> regex_state \<Rightarrow> (exprtk_value \<times> regex_state) option" where
  "exec_body F room order compiled data st =
     (case regex_find room st compiled data 0 of
        (None, st1) \<Rightarrow> Some (ENull, st1)
      | (found, st1) \<Rightarrow> map_option (\<lambda>(m, h'). (m, st1\<lparr>rx_heap := h'\<rparr>)) (regex_match_map F order (rx_heap st1) data found))"

definition fn_regexp_exec where
  "fn_regexp_exec F room order = with_object F ''RegExp.exec: expected (this, string)'' ENull (exec_body F room order)"

definition fn_regexp_find_all where
  "fn_regexp_find_all F room order =
     with_object F ''RegExp.find_all: expected (this, string)'' (ENumber 0)
       (\<lambda>compiled data. find_all_loop room order compiled data 0 exprtk_val_list_empty)"

definition fn_regexp_free :: "fpu \<Rightarrow> regex_state \<Rightarrow> exprtk_value list \<Rightarrow> exprtk_value \<times> regex_state" where
  "fn_regexp_free F st args =
     (if length args \<noteq> 1 then (ENumber 0, st)
      else (case regex_object_handle F (regex_get_ctx st) (args ! 0) of (handle, st1) \<Rightarrow> free_handle st1 handle))"

definition fn_regexp_to_string :: "regex_state \<Rightarrow> exprtk_value list \<Rightarrow> exprtk_value \<times> regex_state" where
  "fn_regexp_to_string st args =
     (let source = (if length args \<noteq> 1 \<or> \<not> exprtk_value_is_object_like (args ! 0) \<or> exprtk_map_has (args ! 0) ''source'' = 0
                    then ENull else exprtk_map_get (args ! 0) ''source'');
          (v, h') = regex_copy_string (rx_heap st) (if is_string source then text_of source else []) in
      (v, st\<lparr>rx_heap := h'\<rparr>))"

text \<open>The table that the module registers, and a call of one of its functions by name.\<close>

definition regex_entries ::
  "fpu \<Rightarrow> (nat \<Rightarrow> bool) \<Rightarrow> order \<Rightarrow> (bytes \<times> (regex_state \<Rightarrow> exprtk_value list \<Rightarrow> (exprtk_value \<times> regex_state) option)) list" where
  "regex_entries F room order =
     [(''RegExp'', fn_regexp_ctor order), (''RegExp.exec'', fn_regexp_exec F room order),
      (''RegExp.find_all'', fn_regexp_find_all F room order), (''RegExp.free'', \<lambda>st args. Some (fn_regexp_free F st args)),
      (''RegExp.match'', fn_regexp_match F room), (''RegExp.search'', fn_regexp_search F room),
      (''RegExp.test'', fn_regexp_test F room),
      (''RegExp.toString'', \<lambda>st args. Some (fn_regexp_to_string st args)),
      (''RegExp.to_string'', \<lambda>st args. Some (fn_regexp_to_string st args)),
      (''regex.compile'', fn_regex_compile), (''regex.free'', \<lambda>st args. Some (fn_regex_free F st args)),
      (''regex.find_iter'', fn_regex_find_iter F room order), (''regex.find_all'', fn_regex_find_all F room order),
      (''regex.match'', fn_regex_match F room), (''regex.match_info'', fn_regex_match_info F room order),
      (''regex.replace'', fn_regex_replace F room), (''regex.search'', fn_regex_search F room),
      (''regex.split'', fn_regex_split F room order), (''regex.test'', fn_regex_match F room),
      (''regex_compile'', fn_regex_compile), (''regex_find_all'', fn_regex_find_all F room order),
      (''regex_find_iter'', fn_regex_find_iter F room order), (''regex_match'', fn_regex_match F room),
      (''regex_match_info'', fn_regex_match_info F room order), (''regex_replace'', fn_regex_replace F room),
      (''regex_search'', fn_regex_search F room), (''regex_split'', fn_regex_split F room order)]"

type_synonym rx_call = "bytes \<times> exprtk_value list"

definition rx_step :: "fpu \<Rightarrow> (nat \<Rightarrow> bool) \<Rightarrow> order \<Rightarrow> regex_state \<Rightarrow> rx_call \<Rightarrow> regex_state option" where
  "rx_step F room order st c =
     (case map_of (regex_entries F room order) (fst c) of
        None \<Rightarrow> None
      | Some fn \<Rightarrow> map_option snd (fn st (snd c)))"

text \<open>The handle that a call asks to free.\<close>

definition freed_handle :: "fpu \<Rightarrow> rx_call \<Rightarrow> int option" where
  "freed_handle F c =
     (case c of
        (name, [v]) \<Rightarrow>
          if name = ''regex.free'' then Some (regex_arg_handle F v)
          else if name = ''RegExp.free''
          then Some (if is_regexp_object v then regex_arg_handle F (exprtk_map_get v ''handle'') else - 1)
          else None
      | _ \<Rightarrow> None)"

section \<open>Nothing outside the text and the buffers\<close>

lemma find_inside:
  assumes "regex_find room st p data c = (Some (s, e), st')"
  shows "c \<le> s \<and> s < e \<and> e \<le> length data"
proof -
  from assms obtain i n where c: "fst (re_compile (rx_buf st) (Some p))" "c < length data"
    and m: "re_matchp room True p (Some (cstring (drop c data))) = Some (i, n)"
    and e: "n \<noteq> 0" "s = c + i" "e = c + i + n"
    by (auto simp: regex_find_def re_compile_def regex_strdup_len_def Let_def split: if_splits option.splits prod.splits)
  have "i + n \<le> length (cstring (drop c data))" using matchp_sound [OF c(1) m] by blast
  also have "\<dots> \<le> length (drop c data)" unfolding cstring_def by (rule length_takeWhile_le)
  finally show ?thesis using c(2) e by simp
qed

lemma next_cursor_inside [simp]: "s < e \<Longrightarrow> next_cursor s e = e"
  by (simp add: next_cursor_def)

lemma text_part_inside [simp]: "s \<le> e \<Longrightarrow> e \<le> length data \<Longrightarrow> text_part data s e = Some (take (e - s) (drop s data))"
  by (simp add: text_part_def)

lemma prepare_inside: "rx_prepare st p f a \<noteq> None"
  using prepared_inside [of "rx_heap st" p f a "rx_env st"] by (simp add: rx_prepare_def)

lemma prepare_checked_inside: "prepare_checked st p f \<noteq> None"
  using prepare_inside [of st p f False] by (auto simp: prepare_checked_def split: option.split prod.split)

lemma compile_arg_inside: "regex_compile_arg F st v f \<noteq> None"
  using prepare_checked_inside
  by (auto simp: regex_compile_arg_def split: exprtk_value.split option.split prod.split)

lemma accepts_inside: "regex_accepts_span room st p data \<noteq> None"
  using prepare_inside [of st p False True]
  by (auto simp: regex_accepts_span_def Let_def split: option.split prod.split)

lemma find_all_inside: "cursor \<le> length data \<Longrightarrow> find_all_loop room order p data cursor list st \<noteq> None"
proof (induction room order p data cursor list st rule: find_all_loop.induct)
  case (1 room order p data cursor list st)
  show ?case
  proof (cases "fst (regex_find room st p data cursor)")
    case None
    then show ?thesis by (subst find_all_loop.simps) (auto split: prod.split)
  next
    case (Some se)
    obtain s e st1 where f: "regex_find room st p data cursor = (Some (s, e), st1)"
      using Some by (cases "regex_find room st p data cursor"; cases se) auto
    note b = find_inside [OF f]
    have IH: "regex_list_push_string order (rx_heap st1) list (take (e - s) (drop s data)) = (Some list', h') \<Longrightarrow>
        find_all_loop room order p data e list' (st1\<lparr>rx_heap := h'\<rparr>) \<noteq> None" for list' h'
      using 1(1) [OF _ f [symmetric] refl refl] 1(2) b by simp
    show ?thesis using IH f b 1(2) by (subst find_all_loop.simps) (auto split: prod.split option.split)
  qed
qed

lemma match_map_inside: "(\<And>s e. found = Some (s, e) \<Longrightarrow> s \<le> e \<and> e \<le> length data) \<Longrightarrow> regex_match_map F order h data found \<noteq> None"
  by (cases found) (auto simp: regex_match_map_def Let_def split: prod.split)

lemma find_iter_inside: "cursor \<le> length data \<Longrightarrow> find_iter_loop F room order p data cursor list st \<noteq> None"
proof (induction F room order p data cursor list st rule: find_iter_loop.induct)
  case (1 F room order p data cursor list st)
  show ?case
  proof (cases "fst (regex_find room st p data cursor)")
    case None
    then show ?thesis by (subst find_iter_loop.simps) (auto split: prod.split)
  next
    case (Some se)
    obtain s e st1 where f: "regex_find room st p data cursor = (Some (s, e), st1)"
      using Some by (cases "regex_find room st p data cursor"; cases se) auto
    note b = find_inside [OF f]
    obtain m h1 where m: "regex_match_map F order (rx_heap st1) data (Some (s, e)) = Some (m, h1)"
      using match_map_inside [of "Some (s, e)" data F order "rx_heap st1"] b by fastforce
    obtain r list' h2 where push: "exprtk_list_push order h1 list m = (r, list', h2)" by (metis prod_cases3)
    have "find_iter_loop F room order p data e list' (st1\<lparr>rx_heap := h2\<rparr>) \<noteq> None"
      using 1(1) [OF _ f [symmetric] refl refl m refl push [symmetric] refl] 1(2) b by simp
    then show ?thesis using f m push b 1(2) by (subst find_iter_loop.simps) simp
  qed
qed

text \<open>The last part of a split.\<close>

definition split_end :: "order \<Rightarrow> bytes \<Rightarrow> nat \<Rightarrow> exprtk_value \<Rightarrow> regex_state \<Rightarrow> (exprtk_value \<times> regex_state) option" where
  "split_end order data cursor list st =
     (case text_part data cursor (length data) of
        None \<Rightarrow> None
      | Some part \<Rightarrow>
          (case regex_list_push_string order (rx_heap st) list part of
             (None, h') \<Rightarrow> Some (ENumber 0, st\<lparr>rx_heap := h'\<rparr>)
           | (Some list', h') \<Rightarrow> Some (list', st\<lparr>rx_heap := h'\<rparr>)))"

lemma split_loop_stop:
  "\<not> (limit \<le> 0 \<or> splits < limit) \<Longrightarrow>
   split_loop room order p data limit splits cursor list st = split_end order data cursor list st"
  by (subst split_loop.simps) (simp add: split_end_def)

lemma split_loop_none:
  "cursor \<le> length data \<Longrightarrow> limit \<le> 0 \<or> splits < limit \<Longrightarrow> regex_find room st p data cursor = (None, st1) \<Longrightarrow>
   split_loop room order p data limit splits cursor list st = split_end order data cursor list st1"
  by (subst split_loop.simps) (auto simp: split_end_def)

lemma split_loop_some:
  assumes "cursor \<le> length data" "limit \<le> 0 \<or> splits < limit" "regex_find room st p data cursor = (Some (s, e), st1)"
  shows "split_loop room order p data limit splits cursor list st =
     (case regex_list_push_string order (rx_heap st1) list (take (s - cursor) (drop cursor data)) of
        (None, h') \<Rightarrow> Some (ENumber 0, st1\<lparr>rx_heap := h'\<rparr>)
      | (Some list', h') \<Rightarrow> split_loop room order p data limit (splits + 1) e list' (st1\<lparr>rx_heap := h'\<rparr>))"
  using assms find_inside [OF assms(3)] by (subst split_loop.simps) (auto split: prod.split option.split)

lemma split_end_inside: "cursor \<le> length data \<Longrightarrow> split_end order data cursor list st \<noteq> None"
  by (auto simp: split_end_def split: prod.split option.split)

lemma split_inside: "cursor \<le> length data \<Longrightarrow> split_loop room order p data limit splits cursor list st \<noteq> None"
proof (induction "length data - cursor" arbitrary: splits cursor list st rule: less_induct)
  case less
  show ?case
  proof (cases "limit \<le> 0 \<or> splits < limit")
    case True
    obtain found st1 where f: "regex_find room st p data cursor = (found, st1)" by force
    show ?thesis
    proof (cases found)
      case None
      then show ?thesis using split_loop_none [OF less.prems True] f split_end_inside [OF less.prems] by simp
    next
      case (Some se)
      then obtain s e where se: "regex_find room st p data cursor = (Some (s, e), st1)" using f by (cases se) auto
      then have "length data - e < length data - cursor" using find_inside [OF se] by auto
      then have "split_loop room order p data limit (splits + 1) e list' st' \<noteq> None" for list' st'
        using less.hyps [of e] find_inside [OF se] by blast
      then show ?thesis unfolding split_loop_some [OF less.prems True se] by (auto split: prod.split option.split)
    qed
  qed (simp add: split_loop_stop split_end_inside [OF less.prems])
qed

text \<open>The last part of a replacement.\<close>

definition replace_end :: "bytes \<Rightarrow> nat \<Rightarrow> bytes \<Rightarrow> nat \<Rightarrow> regex_state \<Rightarrow> (exprtk_value \<times> regex_state) option" where
  "replace_end data cursor out cap st =
     (if cursor < length data
      then
        let rest = length data - cursor in
        (case replace_reserve (rx_heap st) cap (length out + rest + 1) (length out + rest + 1) of
           (None, h') \<Rightarrow> Some (ENumber 0, st\<lparr>rx_heap := h'\<rparr>)
         | (Some cap', h') \<Rightarrow>
             map_option (\<lambda>out'. (EString None (Buf out'), st\<lparr>rx_heap := h'\<rparr>)) (put_string cap' out (drop cursor data)))
      else map_option (\<lambda>out'. (EString None (Buf out'), st)) (put_string cap out []))"

lemma replace_loop_stop:
  "\<not> (limit \<le> 0 \<or> count < limit) \<Longrightarrow>
   replace_loop room p data r limit count cursor out cap st = replace_end data cursor out cap st"
  by (subst replace_loop.simps) (simp add: replace_end_def Let_def)

lemma replace_loop_none:
  "cursor \<le> length data \<Longrightarrow> limit \<le> 0 \<or> count < limit \<Longrightarrow> regex_find room st p data cursor = (None, st1) \<Longrightarrow>
   replace_loop room p data r limit count cursor out cap st = replace_end data cursor out cap st1"
  by (subst replace_loop.simps) (auto simp: replace_end_def Let_def)

lemma reserve_cap: "replace_reserve h cap needed cap1 = (Some cap', h') \<Longrightarrow> needed \<le> cap1 \<Longrightarrow> needed \<le> cap'"
  by (auto simp: replace_reserve_def split: if_splits prod.splits)

lemma replace_loop_some:
  assumes "cursor \<le> length data" "limit \<le> 0 \<or> count < limit" "regex_find room st p data cursor = (Some (s, e), st1)"
  defines "part \<equiv> take (s - cursor) (drop cursor data)"
  shows "replace_loop room p data r limit count cursor out cap st =
     (case replace_reserve (rx_heap st1) cap (length (out @ part @ r) + 1) (length (out @ part @ r) * 2 + 2) of
        (None, h') \<Rightarrow> Some (ENumber 0, st1\<lparr>rx_heap := h'\<rparr>)
      | (Some cap', h') \<Rightarrow> replace_loop room p data r limit (count + 1) e (out @ part @ r) cap' (st1\<lparr>rx_heap := h'\<rparr>))"
proof -
  note b = find_inside [OF assms(3)]
  have len: "length part = s - cursor" using b by (auto simp: part_def)
  have part: "text_part data cursor s = Some part" using b by (simp add: part_def)
  have put: "put cap' out (part @ r) = Some (out @ part @ r)" if "length (out @ part @ r) + 1 \<le> cap'" for cap'
    using that by (simp add: put_def)
  show ?thesis
    using assms(1-3) b part put reserve_cap [of "rx_heap st1" cap "length (out @ part @ r) + 1" "length (out @ part @ r) * 2 + 2"]
    by (subst replace_loop.simps) (auto simp: Let_def len algebra_simps split: prod.split option.split)
qed

lemma replace_end_inside: "length out < cap \<Longrightarrow> replace_end data cursor out cap st \<noteq> None"
  by (auto simp: replace_end_def Let_def put_string_def dest!: reserve_cap split: prod.split option.split)

lemma replace_inside:
  "cursor \<le> length data \<Longrightarrow> length out < cap \<Longrightarrow> replace_loop room p data r limit count cursor out cap st \<noteq> None"
proof (induction "length data - cursor" arbitrary: count cursor out cap st rule: less_induct)
  case less
  show ?case
  proof (cases "limit \<le> 0 \<or> count < limit")
    case True
    obtain found st1 where f: "regex_find room st p data cursor = (found, st1)" by force
    show ?thesis
    proof (cases found)
      case None
      then show ?thesis using replace_loop_none [OF less.prems(1) True] f replace_end_inside [OF less.prems(2)] by simp
    next
      case (Some se)
      then obtain s e where se: "regex_find room st p data cursor = (Some (s, e), st1)" using f by (cases se) auto
      then have "length data - e < length data - cursor" using find_inside [OF se] by auto
      then have "length out' < cap' \<Longrightarrow> replace_loop room p data r limit (count + 1) e out' cap' st' \<noteq> None" for out' cap' st'
        using less.hyps [of e] find_inside [OF se] by blast
      note again = this
      let ?out = "out @ take (s - cursor) (drop cursor data) @ r"
      obtain z h' where z: "replace_reserve (rx_heap st1) cap (length ?out + 1) (length ?out * 2 + 2) = (z, h')" by force
      then have "z = Some cap' \<Longrightarrow> length ?out < cap'" for cap'
        using reserve_cap [of "rx_heap st1" cap "length ?out + 1" "length ?out * 2 + 2" cap' h'] by simp
      with again show ?thesis unfolding replace_loop_some [OF less.prems(1) True se] z by (cases z) simp_all
    qed
  qed (simp add: replace_loop_stop replace_end_inside [OF less.prems(2)])
qed

lemma with_pattern_inside: "(\<And>p data st. body p data st \<noteq> None) \<Longrightarrow> with_pattern F usage body st args \<noteq> None"
  by (auto simp: with_pattern_def pattern_and_text_def compile_arg_inside split: option.split prod.split)

lemma with_object_inside: "(\<And>p data st. body p data st \<noteq> None) \<Longrightarrow> with_object F usage v body st args \<noteq> None"
  by (auto simp: with_object_def split: option.split prod.split)

lemma compile_handle_inside: "compile_handle name st args \<noteq> None"
  by (auto simp: compile_handle_def Let_def prepare_checked_inside split: option.split prod.split)

lemma found_map_inside: "regex_find room st p data c = (found, st1) \<Longrightarrow> regex_match_map F order h data found \<noteq> None"
  using find_inside [of room st p data c] by (intro match_map_inside) auto

lemma match_info_inside: "match_info_body F room order p data st \<noteq> None"
  using found_map_inside [of room st p data 0] by (fastforce simp: match_info_body_def split: prod.split)

lemma exec_inside: "exec_body F room order p data st \<noteq> None"
  using found_map_inside [of room st p data 0] by (fastforce simp: exec_body_def split: prod.split option.split)

text \<open>
  Whatever their arguments, the stored patterns and the failing allocations, the functions take no part of a text
  that is not in it and write no more into a buffer than the size they computed for it, in exact arithmetic.
  The reads of the engine itself and the range of \<^verbatim>\<open>size_t\<close> are not part of this.
\<close>

lemma regex_functions_stay_inside:
  "fn_regex_match F room st args \<noteq> None \<and> fn_regex_search F room st args \<noteq> None \<and>
   fn_regex_find_all F room order st args \<noteq> None \<and> fn_regex_match_info F room order st args \<noteq> None \<and>
   fn_regex_find_iter F room order st args \<noteq> None \<and> fn_regex_split F room order st args \<noteq> None \<and>
   fn_regex_replace F room st args \<noteq> None \<and> fn_regex_compile st args \<noteq> None \<and> fn_regexp_ctor order st args \<noteq> None \<and>
   fn_regexp_test F room st args \<noteq> None \<and> fn_regexp_match F room st args \<noteq> None \<and> fn_regexp_search F room st args \<noteq> None \<and>
   fn_regexp_exec F room order st args \<noteq> None \<and> fn_regexp_find_all F room order st args \<noteq> None"
proof (intro conjI)
  show "fn_regex_match F room st args \<noteq> None" "fn_regexp_match F room st args \<noteq> None"
    unfolding fn_regex_match_def fn_regexp_match_def
    by (intro with_pattern_inside with_object_inside; simp only: match_body_def option.map_disc_iff accepts_inside not_False_eq_True)+
  show "fn_regex_search F room st args \<noteq> None" "fn_regexp_search F room st args \<noteq> None"
    unfolding fn_regex_search_def fn_regexp_search_def
    by (intro with_pattern_inside with_object_inside; simp add: search_body_def split: prod.split)+
  show "fn_regex_find_all F room order st args \<noteq> None" "fn_regexp_find_all F room order st args \<noteq> None"
    unfolding fn_regex_find_all_def fn_regexp_find_all_def
    by (intro with_pattern_inside with_object_inside find_all_inside le0)+
  show "fn_regex_match_info F room order st args \<noteq> None" "fn_regexp_exec F room order st args \<noteq> None"
    unfolding fn_regex_match_info_def fn_regexp_exec_def
    by (intro with_pattern_inside match_info_inside, intro with_object_inside exec_inside)
  show "fn_regex_find_iter F room order st args \<noteq> None"
    unfolding fn_regex_find_iter_def by (intro with_pattern_inside find_iter_inside le0)
  show "fn_regex_split F room order st args \<noteq> None"
    using split_inside [of 0] by (auto simp: fn_regex_split_def compile_arg_inside split: prod.split option.split)
  show "fn_regex_replace F room st args \<noteq> None"
    using replace_inside [of 0 _ "[]"] by (auto simp: fn_regex_replace_def compile_arg_inside Let_def split: prod.split option.split)
  show "fn_regex_compile st args \<noteq> None" "fn_regexp_ctor order st args \<noteq> None"
    by (auto simp: fn_regex_compile_def fn_regexp_ctor_def compile_handle_inside split: prod.split option.split)
  show "fn_regexp_test F room st args \<noteq> None"
    unfolding fn_regexp_test_def by (intro with_object_inside) (simp add: test_body_def split: prod.split)
qed

section \<open>Splitting, replacing and finding\<close>

definition accepted :: "bytes \<Rightarrow> bool" where
  "accepted p = fst (re_compile [] (Some p))"

lemma re_compile_accepted: "re_compile buf (Some p) = (accepted p, if accepted p then p else buf)"
  by (simp add: re_compile_def accepted_def)

text \<open>The first match from a place on, and all matches, with memory.\<close>

definition find_place :: "(nat \<Rightarrow> bool) \<Rightarrow> bytes \<Rightarrow> bytes \<Rightarrow> nat \<Rightarrow> (nat \<times> nat) option" where
  "find_place room p data c =
     (if length data \<le> c \<or> too_long (length data - c) then None
      else
        (case re_matchp room True p (Some (cstring (drop c data))) of
           None \<Rightarrow> None
         | Some (i, n) \<Rightarrow> if n = 0 then None else Some (c + i, c + i + n)))"

function found_places :: "(nat \<Rightarrow> bool) \<Rightarrow> bytes \<Rightarrow> bytes \<Rightarrow> nat \<Rightarrow> (nat \<times> nat) list" where
  "found_places room p data c =
     (case find_place room p data c of None \<Rightarrow> [] | Some (s, e) \<Rightarrow> (s, e) # found_places room p data e)"
  by pat_completeness auto

termination
  by (relation "measure (\<lambda>(room, p, data, c). length data - c)")
     (auto simp: find_place_def split: if_splits option.splits)

declare found_places.simps [simp del]

lemma find_plenty:
  assumes "never_fails (rx_heap st)" "accepted p"
  obtains st' where "regex_find room st p data c = (find_place room p data c, st')" "never_fails (rx_heap st')"
proof (cases "length data \<le> c \<or> too_long (length data - c)")
  case True
  then show ?thesis using that [of st] assms(1) by (simp add: regex_find_def find_place_def)
next
  case False
  then have "regex_find room st p data c = (find_place room p data c, st\<lparr>rx_buf := p\<rparr>)"
    using assms by (simp add: regex_find_def find_place_def re_compile_accepted regex_strdup_len_def alloc_plenty Let_def
        split: option.split prod.split)
  then show ?thesis using that assms(1) by simp
qed

lemma find_place_inside:
  assumes "find_place room p data c = Some (s, e)" "accepted p"
  shows "c \<le> s \<and> s < e \<and> e \<le> length data"
proof -
  let ?st = "\<lparr>rx_env = example_rx_env, rx_table = None, rx_buf = [], rx_heap = plenty\<rparr>"
  have "never_fails (rx_heap ?st)" by (simp add: plenty_def)
  then obtain st' where "regex_find room ?st p data c = (find_place room p data c, st')"
    using find_plenty [OF _ assms(2)] by blast
  with find_inside [of room ?st p data c s e st'] assms(1) show ?thesis by simp
qed

lemma push_string:
  assumes "never_fails h" "is_list list" "length s < 2 ^ 64 - 1"
  obtains list' h' where "regex_list_push_string order h list s = (Some list', h')" "never_fails h'"
    "is_list list'" "texts list' = texts list @ [s]"
proof -
  have "regex_list_push_string order h list s = mod_list_append_string order h list s"
    by (simp add: regex_list_push_string_def mod_list_append_string_def regex_copy_string_def mod_copy_string_def
        alloc_plenty [OF assms(1)])
  with append_string [OF assms] that show ?thesis by metis
qed

text \<open>The matched parts, the parts between the matches, and the text put together from both.\<close>

definition match_part :: "bytes \<Rightarrow> nat \<times> nat \<Rightarrow> bytes" where
  "match_part data = (\<lambda>(s, e). take (e - s) (drop s data))"

fun pieces :: "bytes \<Rightarrow> nat \<Rightarrow> (nat \<times> nat) list \<Rightarrow> bytes list" where
  "pieces data c [] = [drop c data]"
| "pieces data c ((s, e) # ms) = take (s - c) (drop c data) # pieces data e ms"

fun weave :: "bytes list \<Rightarrow> bytes list \<Rightarrow> bytes" where
  "weave (p # ps) (q # qs) = p @ q @ weave ps qs"
| "weave ps qs = concat ps"

lemma length_pieces: "length (pieces data c ms) = length ms + 1"
  by (induction data c ms rule: pieces.induct) auto

lemma weave_text:
  assumes "accepted p"
  shows "weave (pieces data c (take k (found_places room p data c))) (take k (map (match_part data) (found_places room p data c))) = drop c data"
proof (induction "length data - c" arbitrary: c k rule: less_induct)
  case less
  show ?case
  proof (cases "find_place room p data c")
    case None
    then show ?thesis by (simp add: found_places.simps [of room p data c])
  next
    case (Some se)
    then obtain s e where se: "find_place room p data c = Some (s, e)" by (cases se) auto
    note b = find_place_inside [OF se assms]
    show ?thesis
    proof (cases k)
      case (Suc j)
      have "length data - e < length data - c" using b by auto
      note IH = less [OF this, of j]
      have "take (s - c) (drop c data) @ take (e - s) (drop s data) @ drop e data = drop c data"
        using b by (metis append.assoc append_take_drop_id drop_drop le_add_diff_inverse2 less_imp_le_nat)
      then show ?thesis using se Suc IH by (simp add: found_places.simps [of room p data c] match_part_def)
    qed simp
  qed
qed

lemma find_all_texts:
  assumes "accepted p" "length data < 2 ^ 64 - 1"
  shows "c \<le> length data \<Longrightarrow> never_fails (rx_heap st) \<Longrightarrow> is_list list \<Longrightarrow>
    \<exists>list' st'. find_all_loop room order p data c list st = Some (list', st') \<and>
      texts list' = texts list @ map (match_part data) (found_places room p data c)"
proof (induction "length data - c" arbitrary: c list st rule: less_induct)
  case less
  obtain st1 where f: "regex_find room st p data c = (find_place room p data c, st1)" "never_fails (rx_heap st1)"
    using find_plenty [OF less.prems(2) assms(1)] by blast
  show ?case
  proof (cases "find_place room p data c")
    case None
    then show ?thesis using f less.prems(1) by (simp add: find_all_loop.simps [of _ _ _ _ c] found_places.simps [of _ _ _ c])
  next
    case (Some se)
    then obtain s e where se: "find_place room p data c = Some (s, e)" by (cases se) auto
    note b = find_place_inside [OF se assms(1)]
    have size: "length (match_part data (s, e)) < 2 ^ 64 - 1" using assms(2) b by (simp add: match_part_def)
    obtain list1 h1 where push: "regex_list_push_string order (rx_heap st1) list (match_part data (s, e)) = (Some list1, h1)"
        "never_fails h1" "is_list list1" "texts list1 = texts list @ [match_part data (s, e)]"
      using push_string [OF f(2) less.prems(3) size] by blast
    have "length data - e < length data - c" using b by auto
    then obtain list' st' where "find_all_loop room order p data e list1 (st1\<lparr>rx_heap := h1\<rparr>) = Some (list', st')"
        "texts list' = texts list1 @ map (match_part data) (found_places room p data e)"
      using less.hyps [of e "st1\<lparr>rx_heap := h1\<rparr>" list1] b push by auto
    then show ?thesis using f se b push less.prems(1)
      by (simp add: find_all_loop.simps [of _ _ _ _ c] found_places.simps [of _ _ _ c] match_part_def)
  qed
qed

text \<open>How many matches a split or a replacement with a limit uses.\<close>

definition used :: "int \<Rightarrow> int \<Rightarrow> 'a list \<Rightarrow> nat" where
  "used limit count xs = (if limit \<le> 0 then length xs else min (nat (limit - count)) (length xs))"

lemma used_stop: "\<not> (limit \<le> 0 \<or> count < limit) \<Longrightarrow> used limit count xs = 0"
  by (simp add: used_def)

lemma used_Nil [simp]: "used limit count [] = 0"
  by (simp add: used_def)

lemma used_Cons: "limit \<le> 0 \<or> count < limit \<Longrightarrow> used limit count (x # xs) = Suc (used limit (count + 1) xs)"
  by (auto simp: used_def nat_diff_distrib' min_def algebra_simps nat_eq_iff)

lemma split_texts:
  assumes "accepted p" "length data < 2 ^ 64 - 1"
  shows "c \<le> length data \<Longrightarrow> never_fails (rx_heap st) \<Longrightarrow> is_list list \<Longrightarrow>
    \<exists>list' st'. split_loop room order p data limit splits c list st = Some (list', st') \<and>
      texts list' = texts list @ pieces data c (take (used limit splits (found_places room p data c)) (found_places room p data c))"
proof (induction "length data - c" arbitrary: c splits list st rule: less_induct)
  case less
  have last: "\<exists>list' st'. split_end order data c list st1 = Some (list', st') \<and> texts list' = texts list @ [drop c data]"
    if mem: "never_fails (rx_heap st1)" for st1
  proof -
    have "length (drop c data) < 2 ^ 64 - 1" using assms(2) by simp
    then obtain list1 h1 where "regex_list_push_string order (rx_heap st1) list (drop c data) = (Some list1, h1)"
        "texts list1 = texts list @ [drop c data]"
      using push_string [OF mem less.prems(3)] by blast
    then show ?thesis using less.prems(1) by (simp add: split_end_def)
  qed
  show ?case
  proof (cases "limit \<le> 0 \<or> splits < limit")
    case False
    then show ?thesis using last [OF less.prems(2)] by (simp add: split_loop_stop used_stop)
  next
    case True
    obtain st1 where f: "regex_find room st p data c = (find_place room p data c, st1)" "never_fails (rx_heap st1)"
      using find_plenty [OF less.prems(2) assms(1)] by blast
    show ?thesis
    proof (cases "find_place room p data c")
      case None
      then show ?thesis using split_loop_none [OF less.prems(1) True f(1) [unfolded None]] last [OF f(2)]
        by (simp add: found_places.simps [of _ _ _ c])
    next
      case (Some se)
      then obtain s e where se: "find_place room p data c = Some (s, e)" by (cases se) auto
      note b = find_place_inside [OF se assms(1)]
      let ?part = "take (s - c) (drop c data)"
      have "length ?part < 2 ^ 64 - 1" using assms(2) b by simp
      then obtain list1 h1 where push: "regex_list_push_string order (rx_heap st1) list ?part = (Some list1, h1)"
          "never_fails h1" "is_list list1" "texts list1 = texts list @ [?part]"
        using push_string [OF f(2) less.prems(3)] by blast
      have "length data - e < length data - c" using b by auto
      then obtain list' st' where "split_loop room order p data limit (splits + 1) e list1 (st1\<lparr>rx_heap := h1\<rparr>) = Some (list', st')"
          "texts list' = texts list1 @ pieces data e (take (used limit (splits + 1) (found_places room p data e)) (found_places room p data e))"
        using less.hyps [of e "st1\<lparr>rx_heap := h1\<rparr>" list1 "splits + 1"] b push by auto
      then show ?thesis using split_loop_some [OF less.prems(1) True f(1) [unfolded se]] push se
        by (simp add: found_places.simps [of _ _ _ c] used_Cons [OF True])
    qed
  qed
qed

lemma reserve_space: "never_fails h \<Longrightarrow> needed \<le> new_cap \<Longrightarrow> \<exists>cap'. replace_reserve h cap needed new_cap = (Some cap', h) \<and> needed \<le> cap'"
  by (simp add: replace_reserve_def alloc_plenty)

lemma replace_text:
  assumes "accepted p"
  shows "c \<le> length data \<Longrightarrow> never_fails (rx_heap st) \<Longrightarrow> length out < cap \<Longrightarrow>
    \<exists>st'. replace_loop room p data r limit count c out cap st =
      Some (EString None (Buf (out @
        (let n = used limit count (found_places room p data c) in
         weave (pieces data c (take n (found_places room p data c))) (replicate n r)))), st')"
proof (induction "length data - c" arbitrary: c count out cap st rule: less_induct)
  case less
  have last: "\<exists>st'. replace_end data c out cap st1 = Some (EString None (Buf (out @ drop c data)), st')"
    if "never_fails (rx_heap st1)" for st1
    using reserve_space [OF that order_refl, where needed = "length out + (length data - c) + 1" and cap = cap] less.prems(3)
    by (auto simp: replace_end_def put_string_def Let_def)
  show ?case
  proof (cases "limit \<le> 0 \<or> count < limit")
    case False
    then show ?thesis using last [OF less.prems(2)] by (simp add: replace_loop_stop used_stop)
  next
    case True
    obtain st1 where f: "regex_find room st p data c = (find_place room p data c, st1)" "never_fails (rx_heap st1)"
      using find_plenty [OF less.prems(2) assms(1)] by blast
    show ?thesis
    proof (cases "find_place room p data c")
      case None
      then show ?thesis using replace_loop_none [OF less.prems(1) True f(1) [unfolded None]] last [OF f(2)]
        by (simp add: found_places.simps [of _ _ _ c])
    next
      case (Some se)
      then obtain s e where se: "find_place room p data c = Some (s, e)" by (cases se) auto
      note b = find_place_inside [OF se assms(1)]
      let ?out = "out @ take (s - c) (drop c data) @ r"
      obtain cap' where cap: "replace_reserve (rx_heap st1) cap (length ?out + 1) (length ?out * 2 + 2) = (Some cap', rx_heap st1)"
          "length ?out < cap'"
        using reserve_space [OF f(2), where needed = "length ?out + 1" and new_cap = "length ?out * 2 + 2" and cap = cap] by auto
      have "length data - e < length data - c" using b by auto
      from less.hyps [OF this, of st1 ?out cap' "count + 1"] b f(2) cap(2)
      show ?thesis using replace_loop_some [OF less.prems(1) True f(1) [unfolded se], of r out cap] cap(1) se
        by (simp add: found_places.simps [of _ _ _ c] used_Cons [OF True] Let_def)
    qed
  qed
qed

text \<open>Preparing a pattern takes memory and gives none back.\<close>

lemma expand_flags_keeps: "never_fails h \<Longrightarrow> regex_expand_flags h p f = Some (r, h') \<Longrightarrow> never_fails h'"
  by (auto simp: regex_expand_flags_def regex_strdup_len_def alloc_plenty Let_def split: if_splits option.splits)

lemma counted_keeps:
  assumes "never_fails h" "regex_expand_counted_repeats h p env = Some (r, env', h')"
  shows "never_fails h'"
proof -
  obtain x h1 where "repeats_loop h p 0 [] 0 = Some (x, h1)" "never_fails h1"
    using repeats_loop_inside [of h p 0 "[]" 0] assms(1) by blast
  with assms(2) show ?thesis
    by (cases x) (auto simp: regex_expand_counted_repeats_def regex_strdup_len_def alloc_plenty split: if_splits)
qed

lemma pattern_keeps:
  assumes "never_fails h" "regex_prepare_pattern h p f a env = Some (r, env', h')"
  shows "never_fails h'"
proof -
  obtain x h1 where x: "regex_expand_flags h p f = Some (x, h1)" using expand_flags_inside [of h p f] by fastforce
  note h1 = expand_flags_keeps [OF assms(1) x]
  show ?thesis
  proof (cases x)
    case None
    then show ?thesis using assms(2) x h1 by (simp add: regex_prepare_pattern_def)
  next
    case (Some q)
    obtain y env2 h2 where y: "regex_expand_counted_repeats h1 q env = Some (y, env2, h2)"
      using assms(2) x Some by (auto simp: regex_prepare_pattern_def split: option.splits)
    note h2 = counted_keeps [OF h1 y]
    show ?thesis using assms(2) x Some y h2
      by (cases y) (auto simp: regex_prepare_pattern_def alloc_plenty split: if_splits option.splits)
  qed
qed

lemma prepare_result:
  assumes "rx_prepare st p f a = Some (r, st')"
  shows "rx_table st' = rx_table st \<and> (never_fails (rx_heap st) \<longrightarrow> never_fails (rx_heap st'))"
  using assms pattern_keeps by (auto simp: rx_prepare_def)

definition rx_ok :: "regex_state \<Rightarrow> bool" where
  "rx_ok st \<longleftrightarrow>
     (case rx_table st of
        None \<Rightarrow> True
      | Some tab \<Rightarrow> length tab = MAX_PATTERNS \<and> (\<forall>q. Some q \<in> set tab \<longrightarrow> accepted (rp_compiled q)))"

lemma checked_result:
  assumes "prepare_checked st p f = Some (r, st')"
  shows "rx_table st' = rx_table st \<and> (\<forall>q. r = Some q \<longrightarrow> accepted q) \<and> (never_fails (rx_heap st) \<longrightarrow> never_fails (rx_heap st'))"
proof -
  obtain x st1 where x: "rx_prepare st p f False = Some (x, st1)" using prepare_inside [of st p f False] by fastforce
  note keep = prepare_result [OF x]
  show ?thesis using assms x keep
    by (cases x) (auto simp: prepare_checked_def regex_validate_prepared_def re_compile_accepted rx_error_def Let_def split: if_splits)
qed

lemma get_ctx_ok: "rx_ok st \<Longrightarrow> rx_ok (regex_get_ctx st)"
  by (auto simp: rx_ok_def regex_get_ctx_def split: option.splits prod.splits)

lemma get_ctx_slots: "regex_slot (rx_table (regex_get_ctx st)) = regex_slot (rx_table st)"
  by (auto simp: regex_slot_def regex_get_ctx_def fun_eq_iff MAX_PATTERNS_def split: option.splits prod.splits)

lemma get_ctx_keeps: "never_fails (rx_heap st) \<Longrightarrow> never_fails (rx_heap (regex_get_ctx st))"
  by (simp add: regex_get_ctx_def alloc_plenty split: option.split)

lemma slot_accepted: "rx_ok st \<Longrightarrow> regex_slot (rx_table st) k = Some q \<Longrightarrow> accepted (rp_compiled q)"
  by (auto simp: rx_ok_def regex_slot_def split: option.splits if_splits) (metis nth_mem nat_less_iff not_le)

lemma get_handle_result:
  assumes "regex_get_handle F st v = (r, st')" "rx_ok st"
  shows "\<forall>q. r = Some q \<longrightarrow> accepted (rp_compiled q)" "never_fails (rx_heap st) \<Longrightarrow> never_fails (rx_heap st')"
  using assms slot_accepted [OF get_ctx_ok [OF assms(2)]] get_ctx_keeps [of st]
  by (auto simp: regex_get_handle_def rx_error_def Let_def split: option.splits)

lemma compile_arg_result:
  assumes "regex_compile_arg F st v f = Some (r, st')" "rx_ok st" "never_fails (rx_heap st)"
  shows "(\<forall>q. r = Some q \<longrightarrow> accepted q) \<and> never_fails (rx_heap st')"
proof -
  have handle: "(\<forall>q. map_option rp_compiled (fst x) = Some q \<longrightarrow> accepted q) \<and> never_fails (rx_heap (snd x))"
    if "x = regex_get_handle F st v" for x v
    using get_handle_result [of F st v "fst x" "snd x"] assms(2,3) that by auto
  show ?thesis
  proof (cases v)
    case (EString s w)
    then show ?thesis
      using assms(1,3) checked_result [of st "cstring (buf_elems w)" f r st']
      by (auto simp: regex_compile_arg_def regex_arena_string_def alloc_plenty)
  next
    case (EInteger i)
    then show ?thesis using assms(1) handle [OF refl, of v] by (auto simp: regex_compile_arg_def split: prod.splits)
  next
    case (ENumber x)
    then show ?thesis using assms(1) handle [OF refl, of v] by (auto simp: regex_compile_arg_def split: prod.splits)
  qed (use assms in \<open>auto simp: regex_compile_arg_def rx_error_def\<close>)
qed

lemma parts_not_empty: "accepted p \<Longrightarrow> [] \<notin> set (map (match_part t) (found_places room p t c))"
proof (induction room p t c rule: found_places.induct)
  case (1 room p t c)
  have "match_part t (s, e) \<noteq> []" if "find_place room p t c = Some (s, e)" for s e
    using find_place_inside [OF that 1(2)] by (simp add: match_part_def)
  moreover have "[] \<notin> set (map (match_part t) (found_places room p t e))" if "find_place room p t c = Some (s, e)" for s e
    using 1(1) [OF that refl 1(2)] .
  ultimately show ?case by (cases "find_place room p t c") (auto simp: found_places.simps [of room p t c])
qed

text \<open>
  C27: finding, splitting and replacing agree.  With memory, and a pattern that is accepted, \<^verbatim>\<open>regex.find_all\<close> lists parts of
  the text that are not empty; \<^verbatim>\<open>regex.split\<close> with a limit lists the parts between the first of them, as many as
  the limit allows, so that both together are the text; and \<^verbatim>\<open>regex.replace\<close> with that limit gives the text in
  which these matches are replaced.
\<close>

theorem find_split_replace_agree:
  assumes "never_fails (rx_heap st)" "rx_ok st" "length t < 2 ^ 64 - 1"
    and "regex_compile_arg F st pat False = Some (Some p, st0)"
  shows "\<exists>found st1 parts st2 st3.
    fn_regex_find_all F room order st [pat, EString s (Buf t)] = Some (found, st1) \<and> [] \<notin> set (texts found) \<and>
    fn_regex_split F room order st [pat, EString s (Buf t), EInteger limit] = Some (parts, st2) \<and>
    (let k = (if cast_int limit \<le> 0 then length (texts found) else min (nat (cast_int limit)) (length (texts found))) in
     length (texts parts) = k + 1 \<and> weave (texts parts) (take k (texts found)) = t \<and>
     fn_regex_replace F room st [pat, EString s (Buf t), EString s' (Buf r), EInteger limit] =
       Some (EString None (Buf (weave (texts parts) (replicate k r))), st3))"
proof -
  let ?ms = "found_places room p t 0"
  define k where "k = used (cast_int limit) 0 ?ms"
  have acc: "accepted p" and mem: "never_fails (rx_heap st0)" using compile_arg_result [OF assms(4,2,1)] by auto
  have empty: "is_list exprtk_val_list_empty" "texts exprtk_val_list_empty = []"
    by (simp_all add: is_list_def texts_def exprtk_val_list_empty_def)
  obtain found st1 where f: "find_all_loop room order p t 0 exprtk_val_list_empty st0 = Some (found, st1)"
      "texts found = map (match_part t) ?ms"
    using find_all_texts [OF acc assms(3) le0 mem empty(1), of room order, unfolded empty(2)] by auto
  obtain parts st2 where sp: "split_loop room order p t (cast_int limit) 0 0 exprtk_val_list_empty st0 = Some (parts, st2)"
      "texts parts = pieces t 0 (take k ?ms)"
    using split_texts [OF acc assms(3) le0 mem empty(1), of room order "cast_int limit" 0, unfolded empty(2)] unfolding k_def by auto
  obtain h4 where al: "alloc (rx_heap st0) = (True, h4)" "never_fails h4" using alloc_plenty [OF mem] mem by simp
  obtain st3 where rep: "replace_loop room p t r (cast_int limit) 0 0 [] (length t + 1) (st0\<lparr>rx_heap := h4\<rparr>) =
      Some (EString None (Buf (weave (pieces t 0 (take k ?ms)) (replicate k r))), st3)"
    using replace_text [OF acc le0, of "st0\<lparr>rx_heap := h4\<rparr>" "[]" "length t + 1"] al(2) unfolding k_def Let_def by fastforce
  have k: "k = (if cast_int limit \<le> 0 then length (texts found) else min (nat (cast_int limit)) (length (texts found)))"
    by (simp add: k_def used_def f(2))
  have "k \<le> length ?ms" by (simp add: k_def used_def)
  then have "length (texts parts) = k + 1" by (simp add: sp(2) length_pieces)
  moreover have "weave (texts parts) (take k (texts found)) = t" using weave_text [OF acc, of t 0 k room] by (simp add: sp(2) f(2))
  moreover have "[] \<notin> set (texts found)" using parts_not_empty [OF acc] by (simp add: f(2))
  moreover have "fn_regex_find_all F room order st [pat, EString s (Buf t)] = Some (found, st1)"
    using f(1) assms(4) by (simp add: fn_regex_find_all_def with_pattern_def pattern_and_text_def regex_optional_flags_def)
  moreover have "fn_regex_split F room order st [pat, EString s (Buf t), EInteger limit] = Some (parts, st2)"
    using sp(1) assms(4) by (simp add: fn_regex_split_def limit_and_flags_def)
  moreover have "fn_regex_replace F room st [pat, EString s (Buf t), EString s' (Buf r), EInteger limit] =
      Some (EString None (Buf (weave (texts parts) (replicate k r))), st3)"
    using rep assms(4) al(1) sp(2) by (simp add: fn_regex_replace_def limit_and_flags_def)
  ultimately show ?thesis
    by (intro exI [of _ found] exI [of _ st1] exI [of _ parts] exI [of _ st2] exI [of _ st3])
       (simp only: Let_def k [symmetric] not_False_eq_True simp_thms)
qed

definition example_rx :: regex_state where
  "example_rx = \<lparr>rx_env = example_rx_env, rx_table = None, rx_buf = [], rx_heap = plenty\<rparr>"

lemma example_rx_ok: "never_fails (rx_heap example_rx)" "rx_ok example_rx"
  by (simp_all add: example_rx_def plenty_def rx_ok_def)

lemma example_compile: "map_option fst (regex_compile_arg plain_fpu example_rx (EString None (Buf '','')) False) = Some (Some '','')"
  by code_simp

theorem find_split_replace_agree_witness:
  "\<exists>found st1 parts st2 st3.
    fn_regex_find_all plain_fpu (\<lambda>n. True) id example_rx [EString None (Buf '',''), EString None (Buf ''a,b,c'')] = Some (found, st1) \<and>
    [] \<notin> set (texts found) \<and>
    fn_regex_split plain_fpu (\<lambda>n. True) id example_rx [EString None (Buf '',''), EString None (Buf ''a,b,c''), EInteger 1] = Some (parts, st2) \<and>
    (let k = (if cast_int 1 \<le> 0 then length (texts found) else min (nat (cast_int 1)) (length (texts found))) in
     length (texts parts) = k + 1 \<and> weave (texts parts) (take k (texts found)) = ''a,b,c'' \<and>
     fn_regex_replace plain_fpu (\<lambda>n. True) example_rx
         [EString None (Buf '',''), EString None (Buf ''a,b,c''), EString None (Buf ''--''), EInteger 1] =
       Some (EString None (Buf (weave (texts parts) (replicate k ''--''))), st3))"
proof -
  obtain st0 where "regex_compile_arg plain_fpu example_rx (EString None (Buf '','')) False = Some (Some '','', st0)"
    using example_compile by (auto simp: map_option_eq_Some)
  from find_split_replace_agree [OF example_rx_ok _ this, of "''a,b,c''"] show ?thesis by simp
qed

section \<open>Handles of compiled patterns\<close>

lemma free_slot_Some: "free_slot tab = Some i \<Longrightarrow> i < length tab \<and> tab ! i = None"
  by (induction tab arbitrary: i rule: free_slot.induct) auto

lemma free_slot_None: "free_slot tab = None \<longleftrightarrow> None \<notin> set tab"
  by (induction tab rule: free_slot.induct) auto

lemma slot_update:
  "length tab = MAX_PATTERNS \<Longrightarrow> i < MAX_PATTERNS \<Longrightarrow>
   regex_slot (Some (tab[i := q])) = (regex_slot (Some tab))(int i := q)"
  by (auto simp: regex_slot_def fun_eq_iff nth_list_update)

lemma table_update:
  "length tab = MAX_PATTERNS \<and> (\<forall>q. Some q \<in> set tab \<longrightarrow> accepted (rp_compiled q)) \<Longrightarrow>
   (\<forall>q'. q = Some q' \<longrightarrow> accepted (rp_compiled q')) \<Longrightarrow>
   \<forall>q'. Some q' \<in> set (tab[i := q]) \<longrightarrow> accepted (rp_compiled q')"
  using set_update_subset_insert [of tab i q] by auto

lemma compile_handle_result:
  assumes "compile_handle name st args = Some (r, st')" "rx_ok st"
  shows "rx_ok st' \<and>
    (case r of
       None \<Rightarrow> regex_slot (rx_table st') = regex_slot (rx_table st)
     | Some (i, q) \<Rightarrow>
         i < MAX_PATTERNS \<and> regex_slot (rx_table st) (int i) = None \<and> accepted (rp_compiled q) \<and>
         rp_pattern q = cstring (text_of (args ! 0)) \<and>
         regex_slot (rx_table st') = (regex_slot (rx_table st))(int i := Some q))"
proof (cases "(length args = 1 \<or> length args = 2) \<and> is_string (args ! 0)")
  case False
  then show ?thesis using assms by (auto simp: compile_handle_def rx_ok_def rx_error_def)
next
  case True
  obtain fl stf where fl: "regex_optional_flags st args 1 = (fl, stf)" by force
  then have same: "rx_table stf = rx_table st" by (auto simp: regex_optional_flags_def rx_error_def split: if_splits)
  have cond: "\<not> (\<not> (length args = 1 \<or> length args = 2) \<or> \<not> is_string (args ! 0))" using True by blast
  note start = assms(1) [unfolded compile_handle_def if_not_P [OF cond] fl Let_def, simplified]
  show ?thesis
  proof (cases fl)
    case None
    then show ?thesis using start assms(2) same by (simp add: rx_ok_def)
  next
    case (Some flags)
    define st2 where "st2 = regex_get_ctx stf"
    have ok2: "rx_ok st2" using get_ctx_ok [of stf] assms(2) same by (simp add: st2_def rx_ok_def)
    have slots2: "regex_slot (rx_table st2) = regex_slot (rx_table st)" using get_ctx_slots [of stf] same by (simp add: st2_def)
    obtain pattern h' where pat: "regex_arena_string (rx_heap st2) (text_of (args ! 0)) = (pattern, h')" by force
    then have source: "pattern = Some w \<Longrightarrow> w = cstring (text_of (args ! 0))" for w
      by (auto simp: regex_arena_string_def split: prod.splits if_splits)
    define st3 where "st3 = st2\<lparr>rx_heap := h'\<rparr>"
    note unfold = start [unfolded Some, simplified, folded st2_def, unfolded pat, simplified, folded st3_def]
    show ?thesis
    proof (cases "rx_table st2 = None \<or> pattern = None")
      case True
      then show ?thesis using unfold ok2 slots2 by (auto simp: st3_def rx_ok_def rx_error_def split: option.splits)
    next
      case False
      then obtain tab w where tw: "rx_table st2 = Some tab" "pattern = Some w" by auto
      have tab: "length tab = MAX_PATTERNS \<and> (\<forall>q. Some q \<in> set tab \<longrightarrow> accepted (rp_compiled q))"
        using ok2 tw(1) by (simp add: rx_ok_def)
      obtain x st4 where x: "prepare_checked st3 w flags = Some (x, st4)" using prepare_checked_inside [of st3 w flags] by fastforce
      note keep = checked_result [OF x]
      have table4: "rx_table st4 = Some tab" using keep tw(1) by (simp add: st3_def)
      show ?thesis
      proof (cases x)
        case None
        then show ?thesis using unfold tw x table4 ok2 slots2 by (simp add: st3_def rx_ok_def)
      next
        case (Some compiled)
        obtain ok h5 where al: "alloc_all 2 (rx_heap st4) = (ok, h5)" by force
        define q where "q = \<lparr>rp_pattern = w, rp_compiled = compiled, rp_flags = flags\<rparr>"
        show ?thesis
        proof (cases "ok \<and> free_slot tab \<noteq> None")
          case False
          then show ?thesis using unfold tw x Some al table4 ok2 slots2
            by (auto simp: st3_def rx_ok_def rx_error_def regex_alloc_handle_def split: if_splits)
        next
          case True
          then obtain i where i: "free_slot tab = Some i" by auto
          note free = free_slot_Some [OF i]
          have res: "r = Some (i, q)" "rx_table st' = Some (tab[i := Some q])"
            using unfold tw x Some al True i by (auto simp: st3_def q_def regex_alloc_handle_def)
          have q: "accepted (rp_compiled q)" "rp_pattern q = cstring (text_of (args ! 0))"
            using keep Some source tw(2) by (simp_all add: q_def)
          have "rx_ok st'" using table_update [OF tab, of "Some q" i] q(1) tab by (simp add: rx_ok_def res(2))
          moreover have "regex_slot (Some tab) (int i) = None" using free tab by (simp add: regex_slot_def)
          moreover have "regex_slot (rx_table st') = (regex_slot (Some tab))(int i := Some q)"
            using slot_update [of tab i "Some q"] free tab by (simp add: res(2))
          ultimately show ?thesis using q free tab by (simp add: res(1) slots2 [symmetric] tw(1))
        qed
      qed
    qed
  qed
qed

lemma cast_handle: "i < MAX_PATTERNS \<Longrightarrow> cast_int (of_nat i) = int i"
  by (simp add: cast_int_def MAX_PATTERNS_def sint_uint unsigned_of_nat take_bit_nat_eq_self signed_take_bit_int_eq_self)

text \<open>What a call does to the table: nothing, unless it compiles a pattern or frees one.\<close>

definition same_table :: "regex_state \<Rightarrow> regex_state \<Rightarrow> bool" where
  "same_table st st' \<longleftrightarrow> regex_slot (rx_table st') = regex_slot (rx_table st) \<and> (rx_ok st \<longrightarrow> rx_ok st')"

lemma same_table_refl [simp]: "same_table st st"
  by (simp add: same_table_def)

lemma same_table_trans: "same_table st st1 \<Longrightarrow> same_table st1 st2 \<Longrightarrow> same_table st st2"
  by (simp add: same_table_def)

lemma same_tableI: "rx_table st' = rx_table st \<Longrightarrow> same_table st st'"
  by (simp add: same_table_def rx_ok_def)

lemma same_table_updates [simp]:
  "same_table st (rx_error msg st1) = same_table st st1" "same_table st (st1\<lparr>rx_heap := h\<rparr>) = same_table st st1"
  "same_table (st1\<lparr>rx_heap := h\<rparr>) st = same_table st1 st"
  by (simp_all add: same_table_def rx_error_def rx_ok_def)

lemma get_ctx_same: "same_table st (regex_get_ctx st)"
  by (simp add: same_table_def get_ctx_slots get_ctx_ok)

lemma find_same: "regex_find room st p data c = (found, st') \<Longrightarrow> same_table st st'"
  by (rule same_tableI)
    (auto simp: regex_find_def rx_error_def Let_def split: if_splits prod.splits option.splits)

lemma get_handle_same: "regex_get_handle F st v = (r, st') \<Longrightarrow> same_table st st'"
  using get_ctx_same [of st] by (auto simp: regex_get_handle_def Let_def split: option.splits)

lemma checked_same: "prepare_checked st p f = Some (r, st') \<Longrightarrow> same_table st st'"
  using checked_result [of st p f r st'] by (intro same_tableI) blast

lemma compile_arg_same: "regex_compile_arg F st v f = Some (r, st') \<Longrightarrow> same_table st st'"
  by (auto simp: regex_compile_arg_def split: exprtk_value.splits prod.splits option.splits
      dest: get_handle_same dest!: checked_same)

lemma accepts_same: "regex_accepts_span room st p data = Some (r, st') \<Longrightarrow> same_table st st'"
  by (rule same_tableI)
    (auto simp: regex_accepts_span_def rx_error_def Let_def split: if_splits prod.splits option.splits
      dest: prepare_result)

lemma find_all_same: "find_all_loop room order p data c list st = Some (v, st') \<Longrightarrow> same_table st st'"
proof (induction room order p data c list st rule: find_all_loop.induct)
  case (1 room order p data c list st)
  from 1(2) show ?case
    by (subst (asm) find_all_loop.simps)
      (auto split: if_splits prod.splits option.splits dest: find_same dest!: 1(1) [rotated -1] intro: same_table_trans)
qed

lemma find_iter_same: "find_iter_loop F room order p data c list st = Some (v, st') \<Longrightarrow> same_table st st'"
proof (induction F room order p data c list st rule: find_iter_loop.induct)
  case (1 F room order p data c list st)
  from 1(2) show ?case
    by (subst (asm) find_iter_loop.simps)
      (auto split: if_splits prod.splits option.splits dest: find_same dest!: 1(1) [rotated -1] intro: same_table_trans)
qed

lemma split_end_same: "split_end order data c list st = Some (v, st') \<Longrightarrow> same_table st st'"
  by (auto simp: split_end_def split: option.splits prod.splits)


lemma split_same: "split_loop room order p data limit splits c list st = Some (v, st') \<Longrightarrow> same_table st st'"
proof (induction room order p data limit splits c list st rule: split_loop.induct)
  case (1 room order p data limit splits c list st)
  from 1(2) show ?case
    by (subst (asm) split_loop.simps)
      (auto simp: Let_def split: if_splits prod.splits option.splits dest: find_same
        dest!: 1(1) [OF refl, rotated -1] intro: same_table_trans)
qed

lemma replace_same:
  "replace_loop room p data r limit count c out cap st = Some (v, st') \<Longrightarrow> same_table st st'"
proof (induction room p data r limit count c out cap st rule: replace_loop.induct)
  case (1 room p data r limit count c out cap st)
  from 1(2) show ?case
    by (subst (asm) replace_loop.simps)
      (auto simp: Let_def split: if_splits prod.splits option.splits dest: find_same
        dest!: 1(1) [OF refl, rotated -1] intro: same_table_trans)
qed

lemma flags_same: "regex_optional_flags st args k = (r, st') \<Longrightarrow> same_table st st'"
  by (auto simp: regex_optional_flags_def split: if_splits)

lemma limit_same: "limit_and_flags F name st args k = (r, st') \<Longrightarrow> same_table st st'"
  by (auto simp: limit_and_flags_def split: if_splits option.splits)

lemma with_pattern_same:
  assumes "\<And>p data st v st'. body p data st = Some (v, st') \<Longrightarrow> same_table st st'"
    and "with_pattern F usage body st args = Some (v, st')"
  shows "same_table st st'"
  using assms(2)
  by (auto simp: with_pattern_def pattern_and_text_def split: if_splits prod.splits option.splits
      dest!: assms(1) flags_same compile_arg_same intro: same_table_trans)

lemma object_pattern_same: "regex_object_pattern F st v = (r, st') \<Longrightarrow> same_table st st'"
  using get_ctx_same [of st]
  by (auto simp: regex_object_pattern_def regex_object_handle_def split: prod.splits option.splits if_splits)

lemma with_object_same:
  assumes "\<And>p data st v st'. body p data st = Some (v, st') \<Longrightarrow> same_table st st'"
    and "with_object F usage nothing body st args = Some (v, st')"
  shows "same_table st st'"
  using assms(2)
  by (auto simp: with_object_def split: if_splits prod.splits option.splits
      dest!: assms(1) object_pattern_same intro: same_table_trans)

lemma body_same:
  "match_body room p data st = Some (v, st') \<Longrightarrow> same_table st st'"
  "search_body F room p data st = Some (v, st') \<Longrightarrow> same_table st st'"
  "match_info_body F room order p data st = Some (v, st') \<Longrightarrow> same_table st st'"
  "test_body room p data st = Some (v, st') \<Longrightarrow> same_table st st'"
  "exec_body F room order p data st = Some (v, st') \<Longrightarrow> same_table st st'"
  by (auto simp: match_body_def search_body_def match_info_body_def test_body_def exec_body_def
      split: prod.splits option.splits dest: accepts_same find_same)

lemmas loop_same = find_all_same find_iter_same

lemma split_function_same: "fn_regex_split F room order st args = Some (v, st') \<Longrightarrow> same_table st st'"
  by (auto simp: fn_regex_split_def split: if_splits prod.splits option.splits
      dest!: limit_same compile_arg_same split_same intro: same_table_trans)

lemma replace_function_same: "fn_regex_replace F room st args = Some (v, st') \<Longrightarrow> same_table st st'"
  by (auto simp: fn_regex_replace_def Let_def split: if_splits prod.splits option.splits
      dest!: limit_same compile_arg_same replace_same intro: same_table_trans)

text \<open>What a call keeps: the patterns of all handles but the one it frees.\<close>

definition keeps_handles :: "int option \<Rightarrow> regex_state \<Rightarrow> regex_state \<Rightarrow> bool" where
  "keeps_handles freed st st' \<longleftrightarrow>
     (rx_ok st \<longrightarrow> rx_ok st' \<and>
        (\<forall>h q. regex_slot (rx_table st) h = Some q \<and> freed \<noteq> Some h \<longrightarrow> regex_slot (rx_table st') h = Some q))"

lemma same_keeps: "same_table st st' \<Longrightarrow> keeps_handles freed st st'"
  by (simp add: same_table_def keeps_handles_def)

lemma compiled_keeps: "compile_handle name st args = Some (r, st') \<Longrightarrow> keeps_handles freed st st'"
  using compile_handle_result [of name st args r st']
  by (cases r) (auto simp: keeps_handles_def)

lemma free_keeps: "keeps_handles (Some h) st (snd (free_handle st h))"
proof (cases "rx_table st")
  case (Some tab)
  show ?thesis
  proof (cases "h < 0 \<or> int MAX_PATTERNS \<le> h")
    case False
    then have free: "snd (free_handle st h) = st\<lparr>rx_table := Some (tab[nat h := None])\<rparr>"
      using Some by (simp add: free_handle_def)
    show ?thesis
      using False Some table_update [of tab None "nat h"] slot_update [of tab "nat h" None]
      unfolding free by (auto simp: keeps_handles_def rx_ok_def)
  qed (use Some in \<open>auto simp: free_handle_def keeps_handles_def\<close>)
qed (simp add: free_handle_def keeps_handles_def)

lemma keeps_after_same: "same_table st st1 \<Longrightarrow> keeps_handles freed st1 st2 \<Longrightarrow> keeps_handles freed st st2"
  by (auto simp: same_table_def keeps_handles_def)

lemma freeing_keeps:
  "keeps_handles (freed_handle F (''regex.free'', args)) st (snd (fn_regex_free F st args))"
  "keeps_handles (freed_handle F (''RegExp.free'', args)) st (snd (fn_regexp_free F st args))"
proof -
  note same = get_ctx_same [of st]
  show "keeps_handles (freed_handle F (''regex.free'', args)) st (snd (fn_regex_free F st args))"
    using keeps_after_same [OF same free_keeps] same_keeps [OF same_table_refl [of st]]
    by (cases args rule: remdups_adj.cases) (simp_all add: fn_regex_free_def freed_handle_def)
  show "keeps_handles (freed_handle F (''RegExp.free'', args)) st (snd (fn_regexp_free F st args))"
    using keeps_after_same [OF _ free_keeps] same same_keeps [OF same_table_refl [of st]]
    by (cases args rule: remdups_adj.cases) (simp_all add: fn_regexp_free_def freed_handle_def regex_object_handle_def)
qed

lemma function_same:
  "fn_regex_match F room st args = Some (v, st') \<Longrightarrow> same_table st st'"
  "fn_regex_search F room st args = Some (v, st') \<Longrightarrow> same_table st st'"
  "fn_regex_match_info F room order st args = Some (v, st') \<Longrightarrow> same_table st st'"
  "fn_regex_find_all F room order st args = Some (v, st') \<Longrightarrow> same_table st st'"
  "fn_regex_find_iter F room order st args = Some (v, st') \<Longrightarrow> same_table st st'"
  "fn_regexp_test F room st args = Some (v, st') \<Longrightarrow> same_table st st'"
  "fn_regexp_match F room st args = Some (v, st') \<Longrightarrow> same_table st st'"
  "fn_regexp_search F room st args = Some (v, st') \<Longrightarrow> same_table st st'"
  "fn_regexp_exec F room order st args = Some (v, st') \<Longrightarrow> same_table st st'"
  "fn_regexp_find_all F room order st args = Some (v, st') \<Longrightarrow> same_table st st'"
  by (auto simp: fn_regex_match_def fn_regex_search_def fn_regex_match_info_def fn_regex_find_all_def
      fn_regex_find_iter_def fn_regexp_test_def fn_regexp_match_def fn_regexp_search_def fn_regexp_exec_def
      fn_regexp_find_all_def
      elim!: with_pattern_same [rotated] with_object_same [rotated] dest: body_same loop_same)

lemma compile_function_keeps:
  "fn_regex_compile st args = Some (v, st') \<Longrightarrow> keeps_handles freed st st'"
  "fn_regexp_ctor order st args = Some (v, st') \<Longrightarrow> keeps_handles freed st st'"
proof -
  show "fn_regex_compile st args = Some (v, st') \<Longrightarrow> keeps_handles freed st st'"
    by (auto simp: fn_regex_compile_def dest: compiled_keeps)
  show "fn_regexp_ctor order st args = Some (v, st') \<Longrightarrow> keeps_handles freed st st'"
    by (auto simp: fn_regexp_ctor_def keeps_handles_def rx_ok_def split: option.splits prod.splits
        dest!: compiled_keeps [where freed = freed])
qed

lemma to_string_same: "same_table st (snd (fn_regexp_to_string st args))"
  by (simp add: fn_regexp_to_string_def split_beta Let_def)

lemma entries_keep:
  assumes "(name, fn) \<in> set (regex_entries F room order)" "fn st args = Some (v, st')"
  shows "keeps_handles (freed_handle F (name, args)) st st'"
proof -
  note same = function_same split_function_same replace_function_same
  note free = freeing_keeps [of F args st]
  from assms show ?thesis
    unfolding regex_entries_def
    by (elim set_ConsD [elim_format] disjE)
      (use free to_string_same [of st args] in
        \<open>auto intro: same_keeps dest: same compile_function_keeps\<close>)
qed

lemma calls_keep:
  assumes "opt_run (rx_step F room order) st calls = Some st'" "rx_ok st" "regex_slot (rx_table st) h = Some q"
    and "\<forall>c \<in> set calls. freed_handle F c \<noteq> Some h"
  shows "rx_ok st' \<and> regex_slot (rx_table st') h = Some q"
  using assms
proof (induction calls arbitrary: st)
  case (Cons c calls)
  obtain name args where c: "c = (name, args)" by (cases c)
  from Cons.prems(1) obtain st1 where 1: "rx_step F room order st c = Some st1"
      "opt_run (rx_step F room order) st1 calls = Some st'"
    by (auto simp: opt_run_Cons_Some simp del: opt_run.simps)
  then obtain fn v where fn: "map_of (regex_entries F room order) name = Some fn" "fn st args = Some (v, st1)"
    by (auto simp: rx_step_def c split: option.splits)
  from entries_keep [OF map_of_SomeD [OF fn(1)] fn(2)] Cons.prems(2-4)
  have "rx_ok st1 \<and> regex_slot (rx_table st1) h = Some q" by (auto simp: keeps_handles_def c)
  with Cons.IH [OF 1(2)] Cons.prems(4) show ?case by simp
qed simp

lemma stored_handle:
  assumes "rx_ok st" "regex_slot (rx_table st) (int i) = Some q" "i < MAX_PATTERNS"
  shows "regex_get_handle F st (EInteger (of_nat i)) = (Some q, st)"
    and "\<exists>st'. fn_regex_free F st [EInteger (of_nat i)] = (ENumber FP_ONE, st') \<and> rx_ok st' \<and>
      regex_slot (rx_table st') = (regex_slot (rx_table st))(int i := None)"
proof -
  from assms(2) obtain tab where tab: "rx_table st = Some tab" by (cases "rx_table st") (simp_all add: regex_slot_def)
  have ctx: "regex_get_ctx st = st" by (simp add: regex_get_ctx_def tab)
  have handle: "regex_arg_handle F (EInteger (of_nat i)) = int i" by (simp add: cast_handle [OF assms(3)])
  show "regex_get_handle F st (EInteger (of_nat i)) = (Some q, st)"
    using assms(2) by (simp add: regex_get_handle_def ctx handle del: regex_arg_handle.simps)
  have "rx_ok (st\<lparr>rx_table := Some (tab[i := None])\<rparr>)"
    using assms(1) tab table_update [of tab None i] by (simp add: rx_ok_def)
  moreover have "regex_slot (Some (tab[i := None])) = (regex_slot (rx_table st))(int i := None)"
    using slot_update [of tab i None] assms(1,3) tab by (simp add: rx_ok_def)
  ultimately show "\<exists>st'. fn_regex_free F st [EInteger (of_nat i)] = (ENumber FP_ONE, st') \<and> rx_ok st' \<and>
      regex_slot (rx_table st') = (regex_slot (rx_table st))(int i := None)"
    using assms(3) by (auto simp: fn_regex_free_def free_handle_def ctx handle tab simp del: regex_arg_handle.simps)
qed

text \<open>
  C28: a handle stands for its pattern until it is freed.  \<^verbatim>\<open>regex.compile\<close> either gives zero, and no handle has changed, or it
  gives a handle that stood for nothing and now stands for a pattern that the engine accepts and whose source is the
  argument, while every other handle stands for what it did.  After any sequence of calls of the functions of the
  module, of which none frees this handle by \<^verbatim>\<open>regex.free\<close> or by an object of \<^verbatim>\<open>RegExp\<close>, the handle still
  stands for this pattern, and freeing it then takes away its pattern and that of no other handle.  Tables keep their
  size and hold accepted patterns only.
\<close>

theorem handles_name_their_pattern:
  assumes "rx_ok st" "fn_regex_compile st args = Some (v, st1)"
  shows "rx_ok st1 \<and>
    ((\<exists>i q. v = EInteger (of_nat i) \<and> i < MAX_PATTERNS \<and> regex_slot (rx_table st) (int i) = None \<and>
        rp_pattern q = cstring (text_of (args ! 0)) \<and> accepted (rp_compiled q) \<and>
        regex_slot (rx_table st1) = (regex_slot (rx_table st))(int i := Some q) \<and>
        (\<forall>calls st2. opt_run (rx_step F room order) st1 calls = Some st2 \<and>
             (\<forall>c \<in> set calls. freed_handle F c \<noteq> Some (int i)) \<longrightarrow>
           rx_ok st2 \<and> regex_get_handle F st2 v = (Some q, st2) \<and>
           (\<exists>st3. fn_regex_free F st2 [v] = (ENumber FP_ONE, st3) \<and> rx_ok st3 \<and>
              regex_slot (rx_table st3) = (regex_slot (rx_table st2))(int i := None)))) \<or>
     v = ENumber 0 \<and> regex_slot (rx_table st1) = regex_slot (rx_table st))"
proof -
  obtain r where r: "compile_handle ''regex.compile'' st args = Some (r, st1)"
      "v = (case r of None \<Rightarrow> ENumber 0 | Some (i, p) \<Rightarrow> EInteger (of_nat i))"
    using assms(2) by (auto simp: fn_regex_compile_def)
  note res = compile_handle_result [OF r(1) assms(1)]
  show ?thesis
  proof (cases r)
    case None
    then show ?thesis using res r(2) by simp
  next
    case (Some iq)
    then obtain i q where iq: "r = Some (i, q)" by (cases iq) auto
    have new: "i < MAX_PATTERNS" "regex_slot (rx_table st) (int i) = None" "rp_pattern q = cstring (text_of (args ! 0))"
      "accepted (rp_compiled q)" "regex_slot (rx_table st1) = (regex_slot (rx_table st))(int i := Some q)" "rx_ok st1"
      and v: "v = EInteger (of_nat i)"
      using res r(2) iq by auto
    have now: "regex_slot (rx_table st1) (int i) = Some q" using new(5) by simp
    have "rx_ok st2 \<and> regex_get_handle F st2 v = (Some q, st2) \<and>
       (\<exists>st3. fn_regex_free F st2 [v] = (ENumber FP_ONE, st3) \<and> rx_ok st3 \<and>
          regex_slot (rx_table st3) = (regex_slot (rx_table st2))(int i := None))"
      if "opt_run (rx_step F room order) st1 calls = Some st2" "\<forall>c \<in> set calls. freed_handle F c \<noteq> Some (int i)"
      for calls st2
    proof -
      from calls_keep [OF that(1) new(6) now that(2)] have 2: "rx_ok st2" "regex_slot (rx_table st2) (int i) = Some q" by auto
      with stored_handle [OF 2 new(1), of F] v show ?thesis by simp
    qed
    with new v show ?thesis by blast
  qed
qed

definition example_calls :: "rx_call list" where
  "example_calls =
     [(''regex.compile'', [EString None (Buf ''b'')]), (''regex.match'', [EInteger 0, EString None (Buf ''aa'')]),
      (''regex.free'', [EInteger 1]), (''regex.search'', [EString None (Buf ''c''), EString None (Buf ''abc'')])]"

theorem handles_name_their_pattern_witness:
  "\<exists>i q st1 st2. fn_regex_compile example_rx [EString None (Buf ''a+'')] = Some (EInteger (of_nat i), st1) \<and>
     opt_run (rx_step plain_fpu (\<lambda>n. True) id) st1 example_calls = Some st2 \<and> rp_pattern q = ''a+'' \<and>
     regex_get_handle plain_fpu st2 (EInteger (of_nat i)) = (Some q, st2)"
proof -
  have "map_option (\<lambda>(v, st). (v, opt_run (rx_step plain_fpu (\<lambda>n. True) id) st example_calls \<noteq> None))
      (fn_regex_compile example_rx [EString None (Buf ''a+'')]) = Some (EInteger 0, True)" by code_simp
  then obtain st1 st2 where c: "fn_regex_compile example_rx [EString None (Buf ''a+'')] = Some (EInteger 0, st1)"
    and run: "opt_run (rx_step plain_fpu (\<lambda>n. True) id) st1 example_calls = Some st2" by auto
  have pat: "cstring ''a+'' = ''a+''" by (simp add: cstring_def)
  have "cast_int 1 = 1" by code_simp
  then have "\<forall>c \<in> set example_calls. freed_handle plain_fpu c \<noteq> Some 0"
    by (simp add: example_calls_def freed_handle_def)
  moreover from handles_name_their_pattern [OF example_rx_ok(2) c, where F = plain_fpu and room = "\<lambda>n. True" and order = id]
  obtain i q where iq: "EInteger 0 = EInteger (of_nat i)" "i < MAX_PATTERNS" "rp_pattern q = ''a+''"
    and kept: "\<And>calls st2. opt_run (rx_step plain_fpu (\<lambda>n. True) id) st1 calls = Some st2 \<Longrightarrow>
      \<forall>c \<in> set calls. freed_handle plain_fpu c \<noteq> Some (int i) \<Longrightarrow>
      regex_get_handle plain_fpu st2 (EInteger 0) = (Some q, st2)" by (auto simp: pat)
  moreover have "i = 0" using iq(1) cast_handle [OF iq(2)] by (simp add: cast_int_def)
  ultimately show ?thesis using c run by (intro exI [of _ i] exI [of _ q] exI [of _ st1] exI [of _ st2]) simp
qed

section \<open>Where the functions are not what they promise\<close>

definition example_call :: "(regex_state \<Rightarrow> exprtk_value list \<Rightarrow> (exprtk_value \<times> regex_state) option) \<Rightarrow> bytes list \<Rightarrow> exprtk_value option" where
  "example_call fn args = map_option fst (fn example_rx (map (\<lambda>a. EString None (Buf a)) args))"

text \<open>
  Computations of the model that show four faults.  Every search starts a new text, so that an anchor matches behind each match: replacing \<open>^a\<close> replaces
  all leading letters.  An empty match ends the search, although others follow.  A repeat in a group is not
  written out, and stands for its own text.  A match of the whole text writes repeats out a second time.
\<close>

lemma search_faults:
  "example_call (fn_regex_replace plain_fpu (\<lambda>n. True)) [''^a'', ''aab'', ''x''] = Some (EString None (Buf ''xxb'')) \<and>
   map_option texts (example_call (fn_regex_find_all plain_fpu (\<lambda>n. True) id) [''b*'', ''abb'']) = Some [] \<and>
   example_call (fn_regex_match plain_fpu (\<lambda>n. True)) [''(a{2})'', ''aa''] = Some (num_bool False) \<and>
   example_call (fn_regex_match plain_fpu (\<lambda>n. True)) [''(a{2})'', ''a{2}''] = Some (num_bool True) \<and>
   example_call (fn_regex_match plain_fpu (\<lambda>n. True)) [''a{2}{3}'', ''aaaa''] = Some (num_bool True) \<and>
   example_call (fn_regex_search plain_fpu (\<lambda>n. True)) [''a{2}{3}'', ''aaaa''] = Some (ENumber FP_MINUS_ONE)"
proof (intro conjI)
  show "example_call (fn_regex_replace plain_fpu (\<lambda>n. True)) [''^a'', ''aab'', ''x''] = Some (EString None (Buf ''xxb''))" by code_simp
  show "map_option texts (example_call (fn_regex_find_all plain_fpu (\<lambda>n. True) id) [''b*'', ''abb'']) = Some []" by code_simp
  show "example_call (fn_regex_match plain_fpu (\<lambda>n. True)) [''(a{2})'', ''aa''] = Some (num_bool False)" by code_simp
  show "example_call (fn_regex_match plain_fpu (\<lambda>n. True)) [''(a{2})'', ''a{2}''] = Some (num_bool True)" by code_simp
  show "example_call (fn_regex_match plain_fpu (\<lambda>n. True)) [''a{2}{3}'', ''aaaa''] = Some (num_bool True)" by code_simp
  show "example_call (fn_regex_search plain_fpu (\<lambda>n. True)) [''a{2}{3}'', ''aaaa''] = Some (ENumber FP_MINUS_ONE)" by code_simp
qed

end
