(* ===== verification/Spec2Isabelle.thy ===== *)
theory Spec2Isabelle
  imports Host_Call Closure_Analysis Script_Validate String_Codecs Task_Scheduler Eval_Ends Regex_Functions
begin

text \<open>
  The host interface of TurboScript, and the script runtime below it.

  TurboScript is a script language in C for embedding.  An embedder creates a context, registers
  host functions, compiles sources to modules, makes instances of them and calls their exports.
  This library models that boundary, \<^verbatim>\<open>turbo_script/src/host\<close>, together with the parts of the
  script runtime it stands on, and proves what an embedder relies on: resource limits hold, errors
  are reported and leave consistent state, values cross the boundary unchanged, handles and
  pointers stay valid as long as promised, scripts end under their limits.

  \<^bold>\<open>Parts of the program and their theories.\<close>

  \<^item> \<open>Host_Prelude\<close>: machine types, status and error codes, nullable buffers, and four interfaces
    as locales: \<open>spending\<close> (a resource that accepted steps draw down), \<open>charge_account\<close> (a byte
    account under a limit), \<open>keyed_table\<close> (lookup after insertion) and \<open>freezable\<close> (a table that
    does not change while it is held).  Each is interpreted on the definitions of the components:
    the five meters of the call budget, the accounts of the validator, of the exporter and of the
    callback arguments, the entries of a script map, the registry of host functions and the
    constants of environments.
  \<^item> \<open>Host_Budget\<close> (\<^verbatim>\<open>turbo_script_host_limits.c\<close>): the budget of a call and its safe points.
  \<^item> \<open>Host_Value\<close>, \<open>Host_Copy\<close>, \<open>Host_Convert\<close>, \<open>Host_Export\<close>, \<open>Host_Result\<close>
    (\<^verbatim>\<open>turbo_script_host_result.c\<close>): validation of the views of the embedder, their deep copy,
    conversion to script values and back, and the result object (locale \<open>result_writer\<close>).
  \<^item> \<open>Exprtk_Value\<close> (\<^verbatim>\<open>exprtk/src/exprtk_value.c\<close>, \<^verbatim>\<open>exprtk/src/exprtk_map.c\<close>): script values,
    their deep copies into pools and environments, lists and maps.
  \<^item> \<open>Native_Registration\<close> and \<open>Script_Env\<close> (\<^verbatim>\<open>exprtk/src/exprtk_runtime.c\<close>): the function tables of
    environments; their variables, constants and modules along the chain of scopes.
  \<^item> \<open>Host_Context\<close> (\<^verbatim>\<open>turbo_script.c\<close>): reference count, closing and owner thread of contexts.
  \<^item> \<open>Host_Registry\<close> and \<open>Host_Callback\<close> (\<^verbatim>\<open>turbo_script_host_registry.c\<close>): the table of host
    functions, and the adapter through which scripts call them.
  \<^item> \<open>Module_Ast\<close> and \<open>Host_Module\<close> (\<^verbatim>\<open>turbo_script_host_module.c\<close>): syntax trees and their limits,
    compilation, export tables, the life of modules.
  \<^item> \<open>Call_State\<close>, \<open>Host_Instance\<close>, \<open>Host_Call\<close> (\<^verbatim>\<open>turbo_script_host_instance.c\<close>): the states of an
    instance during calls and callbacks, instances and their handles, calls.
  \<^item> \<open>Script_Validate\<close> (\<^verbatim>\<open>exprtk/src/exprtk_validate.c\<close>) and \<open>Closure_Analysis\<close>
    (\<^verbatim>\<open>turbo_script_closure_analysis.c\<close>): the two walks over a syntax tree before it runs.
  \<^item> \<open>Eval_Values\<close>, \<open>Tree_Eval\<close>, \<open>Eval_Ends\<close> (\<^verbatim>\<open>exprtk/src/exprtk_eval.c\<close> and its helpers in
    \<^verbatim>\<open>exprtk_runtime.c\<close>): operators, truth, text and indexing of values; the evaluator of syntax trees; that
    it ends (locale \<open>loop_guard\<close>, interpreted on \<open>ts_host_safe_point\<close>).
  \<^item> \<open>String_Codecs\<close> (\<^verbatim>\<open>exprtk/src/mod_string.c\<close>): hexadecimal, URL, HTML, JSON and CSV (locale
    \<open>char_encoding\<close>, interpreted on the four encoders that write byte by byte).
  \<^item> \<open>Regex_Engine\<close>, \<open>Regex_Match\<close> (\<^verbatim>\<open>exprtk/src/re.c\<close>): the check of patterns, the backtracking matcher, their
    grammar and relational meaning (locale \<open>scanner\<close>, interpreted on the loops that find the end of a
    branch and of a group).  \<open>Regex_Prepare\<close>, \<open>Regex_Functions\<close> (\<^verbatim>\<open>exprtk/src/mod_regex.c\<close>): flags and
    counted repeats, handles, and the functions of scripts.
  \<^item> \<open>Task_Scheduler\<close> (\<^verbatim>\<open>turbo_script_task.c\<close>): the table of background tasks under its mutex.

  \<^bold>\<open>State.\<close>  C structures are records with the fields of the source; a pointer to a shared object
  is an address and the objects are stores, collected in the record \<open>world\<close>: contexts, modules,
  instances, environments, the heap of pools and the memory of value views.  Every operation is a
  function from the state to its status, its outputs and the new state.  The chain of environments of the
  evaluator is a list, the innermost first.  The scheduler is a step relation: a section under the
  mutex, or an access outside it, is one step, and runs are all interleavings.  Integers keep their
  width; doubles are bit patterns.  Whether an allocation succeeds is an input, so that theorems
  cover every pattern of failing allocations.  Where a function could write outside a buffer or read
  outside a text, its result is an option, and \<open>None\<close> is shown not to occur.

  \<^bold>\<open>What the theorems show.\<close>  For the budget: accepted safe points never spend more than the limits
  of call and instance, the first refusal is final, the interrupt is polled at bounded distance,
  entering and leaving a function balance.  For values: accepted views are finite trees within
  their limits, copies and conversions preserve the content in memory of the receiver, a result
  holds a value or an error and gives back what was stored.  For the registry and for modules:
  names stay distinct and valid, nothing changes while a module is active, binding, compilation and
  registration happen whole or not at all, objects are freed when the last holder lets go.  For
  instances and calls: calls of a context never nest, callbacks restore the call state, failed
  callbacks are visible to the script and to the embedder, a handle is accepted exactly when the
  instance issued it, creation is all or nothing, a call that began ends with the instance ready
  or faulted and nothing left attached, a successful call ran the export it names on the values
  it was given, and a failed one reports why.

  For scripts: an assignment changes the nearest binding, constants never change.  The validator reports
  only faults that a tree has, and the first one of a tree without the nodes it does not enter; a captured
  variable is one that the body reads, and in a body of the basic nodes these are exactly the free ones.
  Addition, subtraction and multiplication of integers are exact in range, division and remainder are
  determined in each case and trap at one point only, and the type of a result follows from the operands.
  A tree without calls, definitions and member accesses ends under the budget of a call; any tree ends, under
  the budget and under the iteration limit of an environment, if what is left to parameters ends.  Codecs undo
  each other inside their buffers.  A regular expression compiles exactly when the documented grammar
  writes it; what is found is a match, and without groups the leftmost one; finding, splitting and
  replacing agree; a handle stands for its pattern through all calls until it is freed; counted repeats and
  ignored case mean what they should in the stated cases.  In runs in which a reset follows its decision
  at once, the scheduler's counts agree and a task that has ended stays as it ended.

  Some theorems state faults: concrete inputs on which the code is wrong.  They are marked as such where they
  stand.

  \<^bold>\<open>Parameters.\<close>  Code that is not in the repository is an argument of the definitions: the Salts
  library (sets, arenas, UTF-8 check; records \<open>salts\<close> and \<open>arena\<close>), the order in which a hash
  table lists its keys, the generated parser, the functions of the embedder, the rounding operations
  and conversions of the processor (record \<open>fpu\<close>), the printing of numbers and the encoding of code
  points.  What is assumed of them is named (\<open>key_set_laws\<close>, \<open>arena_laws\<close>, \<open>order_laws\<close>, \<open>callback_keeps\<close>).
  The lowering to MIR and the engine that runs the code are arguments too, the records of
  \<open>Host_Module\<close> and the record \<open>backend\<close>; \<open>engine_laws\<close> lets the engine act through safe points,
  host functions and steps of its own only.  The evaluator takes the text and equality of opaque
  payloads (\<open>payload_ops\<close>) and, in the record \<open>eval_ops\<close>, what it does at the nodes that are not
  modelled.  \<open>room\<close> says whether the matcher finds memory for its positions.

  \<^bold>\<open>Termination.\<close>  The traversal of views by the validator terminates by its depth limit.  The
  traversals of views that have been validated (\<open>ts_host_copy_view\<close>, \<open>ts_host_build_exprtk_value\<close>)
  take fuel, the depth limit, and are shown to return when the view was validated.  The evaluator
  bounds the rounds of a single loop by a number \<open>k\<close>: it is shown that under a budget no loop begins more than
  10001 rounds, the last of which is the one that is refused, and that the limit of an environment plus one is
  enough without; a loop over a collection has at most a round for each element besides.  The matcher ends
  because patterns get shorter; the loops over matches because a match that is used is not empty.
  All other recursions are structural or have a measure.

  \<^bold>\<open>Not modelled.\<close>  The scanner and the grammar (inputs of generators); classes, and of the evaluator
  calls, definitions of functions and classes, assignments to members, template strings and
  destructuring; the lowering to the third-party MIR library, its caches and helpers; the native
  function libraries other than the codecs and the regular expressions; timers; plugins, the numerical
  modules and the vendored build tools.  Reference counts of single values and the release of their
  storage are not modelled either: values are immutable in the model, and a value that is borrowed is the
  same value.

  \<^bold>\<open>Simplifications.\<close>  The kinds of nodes of \<^verbatim>\<open>exprtk_eval.c\<close> that are not modelled are one parameter,
  \<open>op_foreign\<close>, besides those for member calls and for the hooks of environments; theorems either leave such
  nodes out or name what they assume.  Opaque payloads hold no pool.  A null array of items with a nonzero count is
  read as empty.  \<open>key_set_laws\<close> speaks of the set of the library as a whole, with the comparison and hash
  functions it was given.  Identifiers of tasks are integers without bound, and sizes of texts in the
  regular expression modules natural numbers, where the code uses \<^verbatim>\<open>int\<close> and \<^verbatim>\<open>size_t\<close>; reads and writes of the engine
  \<^verbatim>\<open>re.c\<close> itself are not checked for their bounds.  \<open>plain_fpu\<close> and the other \<open>plain\<close> records are examples for
  witnesses, not models of the processor.
\<close>

end
